(* ===== verification/Prelude.thy ===== *)
theory Prelude
  imports Complex_Main "HOL-Library.AList"
begin

text \<open>
  Shared vocabulary of the development: the names of the model's scalar types, Python
  dictionaries as association lists in insertion order, and the generic lemmas on them that
  every component uses.

  A Python \<^verbatim>\<open>dict\<close> keeps the order in which its keys were first inserted, and
  assigning to a present key keeps its place. \<open>AList.update\<close> does the same, so a dict is an
  association list with distinct keys (\<open>dict_ok\<close>), read by \<open>map_of\<close>.
\<close>

section \<open>Scalar types\<close>

type_synonym uuid = nat       \<comment> \<open>a UUID, an opaque identifier\<close>
type_synonym micros = int     \<comment> \<open>a datetime or timedelta, in microseconds (Python's resolution)\<close>
type_synonym usd = rat        \<comment> \<open>a Decimal amount of dollars\<close>

section \<open>Collections of facts\<close>

named_theorems frame \<open>operations leave unrelated state alone\<close>
named_theorems dict_intro \<open>operations keep a dictionary well formed\<close>

section \<open>Dictionaries\<close>

type_synonym ('k, 'v) dict = "('k \<times> 'v) list"

definition dict_ok :: "('k, 'v) dict \<Rightarrow> bool" where
  "dict_ok d = distinct (List.map fst d)"

definition dict_adjust :: "'k \<Rightarrow> ('v \<Rightarrow> 'v) \<Rightarrow> ('k, 'v) dict \<Rightarrow> ('k, 'v) dict" where
  "dict_adjust k f d = List.map (\<lambda>(k', v). if k' = k then (k', f v) else (k', v)) d"

lemma keys_dict_adjust [simp]: "List.map fst (dict_adjust k f d) = List.map fst d"
  by (induction d) (auto simp: dict_adjust_def)

lemma map_of_dict_adjust [simp]:
  "map_of (dict_adjust k f d) j = (if j = k then map_option f (map_of d j) else map_of d j)"
  by (induction d) (auto simp: dict_adjust_def)

lemma dict_ok_Nil [simp, dict_intro]: "dict_ok []"
  by (simp add: dict_ok_def)

lemma dict_ok_adjust [simp]: "dict_ok (dict_adjust k f d) = dict_ok d"
  by (simp add: dict_ok_def)

lemma dict_ok_update [dict_intro]: "dict_ok d \<Longrightarrow> dict_ok (AList.update k v d)"
  by (simp add: dict_ok_def distinct_update)

lemma dict_ok_delete [dict_intro]: "dict_ok d \<Longrightarrow> dict_ok (AList.delete k d)"
  by (simp add: dict_ok_def distinct_delete)

lemma dict_ok_filter [dict_intro]: "dict_ok d \<Longrightarrow> dict_ok (filter P d)"
  by (induction d) (auto simp: dict_ok_def)

lemma dict_ok_append_fresh:
  "dict_ok d \<Longrightarrow> k \<notin> fst ` set d \<Longrightarrow> dict_ok (d @ [(k, v)])"
  by (simp add: dict_ok_def)

lemma in_set_iff_map_of: "dict_ok d \<Longrightarrow> (k, v) \<in> set d \<longleftrightarrow> map_of d k = Some v"
  by (simp add: dict_ok_def)

lemma map_of_filter:
  "dict_ok d \<Longrightarrow>
   map_of (filter P d) k =
     (case map_of d k of None \<Rightarrow> None | Some v \<Rightarrow> if P (k, v) then Some v else None)"
  by (induction d) (auto simp: dict_ok_def map_of_eq_None_iff split: option.splits)

lemma map_of_update [simp]: "map_of (AList.update k v d) j = (if j = k then Some v else map_of d j)"
  by (simp add: update_conv' )

lemma map_of_delete [simp]: "map_of (AList.delete k d) j = (if j = k then None else map_of d j)"
  by (simp add: delete_conv')

lemma set_dict_adjust:
  "set (dict_adjust k f d) = (\<lambda>(k', v). if k' = k then (k', f v) else (k', v)) ` set d"
  by (simp add: dict_adjust_def)

lemma length_filter_dict_adjust:
  assumes "\<And>v. P (k, f v) \<Longrightarrow> P (k, v)"
  shows "length (filter P (dict_adjust k f d)) \<le> length (filter P d)"
proof (induction d)
  case Nil
  show ?case by (simp add: dict_adjust_def)
next
  case (Cons e d)
  obtain k' v where e: "e = (k', v)" by force
  show ?case
    using Cons.IH assms by (auto simp: dict_adjust_def e)
qed

section \<open>Lists and options\<close>

lemma find_None_filter: "find P xs = None \<longleftrightarrow> filter P xs = []"
  by (induction xs) auto

lemma find_Some_filter: "find P xs = Some x \<longleftrightarrow> (\<exists>ys. filter P xs = x # ys)"
  by (induction xs) auto

lemma length_filter_filter_le: "length (filter P (filter Q xs)) \<le> length (filter P xs)"
  by (induction xs) auto

lemma sum_list_filter_le:
  fixes f :: "'a \<Rightarrow> rat"
  assumes "\<And>x. x \<in> set xs \<Longrightarrow> 0 \<le> f x"
  shows "sum_list (List.map f (filter P xs)) \<le> sum_list (List.map f xs)"
  using assms by (induction xs) (auto simp: add_increasing)

lemma sum_list_nonneg_rat:
  fixes f :: "'a \<Rightarrow> rat"
  assumes "\<And>x. x \<in> set xs \<Longrightarrow> 0 \<le> f x"
  shows "0 \<le> sum_list (List.map f xs)"
  using assms by (induction xs) auto

section \<open>One-shot credentials\<close>

text \<open>
  The contract of every credential the program lets a caller redeem once (confirmation tokens, invite
  links, pending sign-ins): redeeming \<open>k\<close> succeeds only while \<open>k\<close> is held and stops it being held, and only
  an operation that mints \<open>k\<close> makes it held.
\<close>

fun runs_of :: "('op \<Rightarrow> 's \<Rightarrow> bool \<times> 's) \<Rightarrow> 's \<Rightarrow> 'op list \<Rightarrow> ('op \<times> bool) list" where
  "runs_of step s [] = []"
| "runs_of step s (x # xs) = (x, fst (step x s)) # runs_of step (snd (step x s)) xs"

definition redeemed :: "('op \<Rightarrow> 'k \<Rightarrow> bool) \<Rightarrow> 'k \<Rightarrow> ('op \<times> bool) list \<Rightarrow> nat" where
  "redeemed redeems k rs = length (filter (\<lambda>(x, ok). redeems x k \<and> ok) rs)"

definition minted :: "('op \<Rightarrow> 'k \<Rightarrow> bool) \<Rightarrow> 'k \<Rightarrow> 'op list \<Rightarrow> nat" where
  "minted mints k xs = length (filter (\<lambda>x. mints x k) xs)"

locale one_shot =
  fixes step :: "'op \<Rightarrow> 's \<Rightarrow> bool \<times> 's"
    and mints :: "'op \<Rightarrow> 'k \<Rightarrow> bool"
    and redeems :: "'op \<Rightarrow> 'k \<Rightarrow> bool"
    and held :: "'s \<Rightarrow> 'k \<Rightarrow> bool"
  assumes redeem_needs: "redeems x k \<Longrightarrow> fst (step x s) \<Longrightarrow> held s k"
    and redeem_spends: "redeems x k \<Longrightarrow> fst (step x s) \<Longrightarrow> \<not> held (snd (step x s)) k"
    and only_mint_holds: "\<not> mints x k \<Longrightarrow> held (snd (step x s)) k \<Longrightarrow> held s k"
    and apart: "mints x k \<Longrightarrow> \<not> redeems x k"
begin

lemma redeemed_at_most_minted:
  "redeemed redeems k (runs_of step s xs) \<le> minted mints k xs + (if held s k then 1 else 0)"
proof (induction xs arbitrary: s)
  case Nil
  show ?case by (simp add: redeemed_def)
next
  case (Cons x xs)
  let ?s = "snd (step x s)"
  have IH: "redeemed redeems k (runs_of step ?s xs) \<le> minted mints k xs + (if held ?s k then 1 else 0)"
    by (rule Cons.IH)
  consider "redeems x k \<and> fst (step x s)" | "mints x k" | "\<not> mints x k" "\<not> (redeems x k \<and> fst (step x s))"
    using apart by blast
  then show ?case
  proof cases
    case 1
    then have "held s k" "\<not> held ?s k" "\<not> mints x k" using redeem_needs redeem_spends apart by blast+
    with 1 IH show ?thesis by (simp add: redeemed_def minted_def)
  next
    case 2
    then have "\<not> redeems x k" by (rule apart)
    with 2 IH show ?thesis by (auto simp: redeemed_def minted_def split: if_splits)
  next
    case 3
    then have "held ?s k \<Longrightarrow> held s k" using only_mint_holds by blast
    with 3 IH show ?thesis by (auto simp: redeemed_def minted_def split: if_splits)
  qed
qed

end

lemma sort_key_snoc_max:
  assumes "\<forall>y \<in> set xs. f y \<le> f x"
  shows "sort_key f (xs @ [x]) = sort_key f xs @ [x]"
proof -
  have insort: "insort_key f y (zs @ [x]) = insort_key f y zs @ [x]" if "f y \<le> f x" for y zs
    using that by (induction zs) auto
  show ?thesis using assms by (induction xs) (simp_all add: insort)
qed

end
