(* ===== verification/Domain.thy ===== *)
theory Domain
  imports Prelude
begin

text \<open>
  The data the components exchange, as records with the source's fields in the source's order:
  model slots (\<^verbatim>\<open>model_slots.py\<close>), answers, sources and token usage
  (\<^verbatim>\<open>providers.py\<close>), debate and synthesis outputs (\<^verbatim>\<open>debate.py\<close>,
  \<^verbatim>\<open>synthesis.py\<close>) and the cost figures (\<^verbatim>\<open>costs.py\<close>). HOL record selectors
  are global, so each record's fields carry a short prefix (\<open>ms_\<close> for a model slot,
  \<open>ia_\<close> for an initial answer). Numbers the source bounds with
  \<^verbatim>\<open>Field(ge=0)\<close> are \<open>nat\<close>; \<^verbatim>\<open>Decimal\<close> amounts are \<open>rat\<close>.
\<close>

section \<open>Model slots\<close>

datatype run_mode = MODE_PANEL | MODE_QUICK

record model_slot =
  ms_slot_number :: nat
  ms_model_id :: string
  ms_search :: bool

section \<open>Provider answers\<close>

datatype provider_path = LOCAL_SIMULATION | OPENROUTER_SEARCH | FALLBACK_SEARCH | WEB_SEARCH

datatype answer_status = ANSWER_COMPLETED | ANSWER_FAILED

datatype billing_class = BILLING_NOT_BILLED | BILLING_POSSIBLY_BILLED

record source_reference =
  sr_title :: string
  sr_url :: string
  sr_provider :: provider_path
  sr_is_fallback :: bool
  sr_excerpt :: string

record token_usage =
  tu_prompt_tokens :: nat
  tu_completion_tokens :: nat
  tu_total_tokens :: nat
  tu_model_id :: "string option"

record citation_coverage =
  cc_answer_count :: nat
  cc_sourced_answer_count :: nat
  cc_sourced_answer_ratio :: rat
  cc_target_met :: bool

record initial_answer =
  ia_slot_number :: nat
  ia_model_id :: string
  ia_display_name :: string
  ia_answer_text :: string
  ia_sources :: "source_reference list"
  ia_provider_attempt_order :: "provider_path list"
  ia_provider_path :: provider_path
  ia_fallback_used :: bool
  ia_status :: answer_status
  ia_latency_ms :: nat
  ia_citation_coverage :: citation_coverage
  ia_error_code :: "string option"
  ia_provider_notice :: "string option"
  ia_token_usage :: "token_usage option"
  ia_searched :: bool
  ia_billing_class :: "billing_class option"
  ia_shortened :: bool

text \<open>The provider paths on which no model was ever sent the question.\<close>

definition NOT_INVOKED_PATHS :: "provider_path set" where
  "NOT_INVOKED_PATHS = {LOCAL_SIMULATION, FALLBACK_SEARCH, WEB_SEARCH}"

definition model_was_invoked :: "initial_answer \<Rightarrow> bool" where
  "model_was_invoked a = (ia_provider_path a \<notin> NOT_INVOKED_PATHS)"

lemma model_was_invoked_iff [simp]:
  "model_was_invoked a = (ia_provider_path a = OPENROUTER_SEARCH)"
  by (cases "ia_provider_path a") (simp_all add: model_was_invoked_def NOT_INVOKED_PATHS_def)

section \<open>Debate and synthesis outputs\<close>

datatype debate_round_status = ROUND_COMPLETED | ROUND_SKIPPED

datatype debate_mode = DEBATE_MODE_LIVE | DEBATE_MODE_FALLBACK

datatype critique_shape = CRITIQUE_SHAPE_MODERATOR | CRITIQUE_SHAPE_PEER | CRITIQUE_SHAPE_QUICK

record slot_position =
  sp_slot :: nat
  sp_group :: string

record panel_stance =
  ps_author_model_id :: string
  ps_round_number :: nat
  ps_positions :: "slot_position list"

record slot_critique =
  sc_critic_slot_number :: nat
  sc_critic_model_id :: string
  sc_critique_text :: string
  sc_focus_areas :: "string list"
  sc_critique_mode :: debate_mode
  sc_stance :: "panel_stance option"
  sc_self_assessment :: "string option"
  sc_position_rationale :: string
  sc_cited_sources :: "string list"
  sc_revised_answer :: string

record debate_output =
  do_round_number :: nat
  do_focus_areas :: "string list"
  do_critique_text :: string
  do_status :: debate_round_status
  do_debate_mode :: debate_mode
  do_panel_stance :: "panel_stance option"
  do_critique_shape :: critique_shape
  do_slot_critiques :: "slot_critique list"
  do_eligible_critic_count :: nat

record quality_checks =
  qc_citation_coverage_target_met :: bool
  qc_false_consensus_preserved :: bool
  qc_decision_support_framing_present :: bool
  qc_high_stakes_warning_required :: bool

datatype synthesis_status = SYNTHESIS_COMPLETED | SYNTHESIS_FAILED

datatype synthesis_mode = SYNTHESIS_MODE_LIVE | SYNTHESIS_MODE_SIMULATED | SYNTHESIS_MODE_FALLBACK

record final_synthesis =
  fs_status :: synthesis_status
  fs_consensus :: string
  fs_disagreement :: string
  fs_source_support :: string
  fs_uncertainty :: string
  fs_recommendation :: string
  fs_high_stakes_notice :: "string option"
  fs_citation_coverage :: citation_coverage
  fs_quality_checks :: quality_checks
  fs_synthesis_mode :: synthesis_mode

section \<open>Cost figures\<close>

datatype threshold_action = ALLOW | REQUIRE_CONFIRMATION | BLOCK

datatype block_reason = PER_RUN_CAP | ACCOUNT_RUNNING_TOTAL | LEDGER_UNAVAILABLE | DAILY_CAP

datatype allowance_bound = BOUND_DAILY_CAP | BOUND_RUNNING_TOTAL

record daily_allowance =
  da_cap_usd :: usd
  da_spent_usd :: usd
  da_remaining_usd :: usd
  da_bounded_by :: allowance_bound
  da_shared_by_network :: bool

record cost_line_by_model =
  clm_model_id :: string
  clm_display_name :: string
  clm_usd :: usd
  clm_kind :: string

record cost_line_by_stage =
  cls_stage :: string
  cls_usd :: usd

record cost_breakdown =
  cb_by_model :: "cost_line_by_model list"
  cb_by_stage :: "cost_line_by_stage list"
  cb_total :: usd

record cost_estimate =
  ce_estimated_cost_usd :: usd
  ce_currency :: string
  ce_threshold_action :: threshold_action
  ce_confirmation_token :: "string option"
  ce_reasons :: "string list"
  ce_max_cost_usd :: "usd option"
  ce_breakdown :: "cost_breakdown option"
  ce_global_ceiling_reached :: bool
  ce_spend_metering_unavailable :: bool
  ce_block_reason :: "block_reason option"
  ce_daily_allowance :: "daily_allowance option"

text \<open>A request's follow-up context: the two keys \<^verbatim>\<open>_check_context\<close> admits.\<close>

type_synonym context_map = "(string, string option) dict"

section \<open>Concrete values for the witnesses\<close>

definition two_slots :: "model_slot list" where
  "two_slots =
     [\<lparr>ms_slot_number = 1, ms_model_id = ''openai/gpt-4o-mini'', ms_search = True\<rparr>,
      \<lparr>ms_slot_number = 2, ms_model_id = ''anthropic/claude-haiku-4.5'', ms_search = True\<rparr>]"

definition small_estimate :: cost_estimate where
  "small_estimate =
     \<lparr>ce_estimated_cost_usd = 1 / 100, ce_currency = ''USD'', ce_threshold_action = ALLOW,
      ce_confirmation_token = None, ce_reasons = [], ce_max_cost_usd = None, ce_breakdown = None,
      ce_global_ceiling_reached = False, ce_spend_metering_unavailable = False,
      ce_block_reason = None, ce_daily_allowance = None\<rparr>"

definition plain_answer :: "nat \<Rightarrow> string \<Rightarrow> initial_answer" where
  "plain_answer n answer =
     \<lparr>ia_slot_number = n, ia_model_id = ''openai/gpt-4o-mini'', ia_display_name = ''GPT-4o mini'',
      ia_answer_text = answer, ia_sources = [], ia_provider_attempt_order = [OPENROUTER_SEARCH],
      ia_provider_path = OPENROUTER_SEARCH, ia_fallback_used = False, ia_status = ANSWER_COMPLETED,
      ia_latency_ms = 5,
      ia_citation_coverage = \<lparr>cc_answer_count = 1, cc_sourced_answer_count = 0,
        cc_sourced_answer_ratio = 0, cc_target_met = False\<rparr>,
      ia_error_code = None, ia_provider_notice = None, ia_token_usage = None, ia_searched = True,
      ia_billing_class = None, ia_shortened = False\<rparr>"

end
