(* ===== verification/Ledger.thy ===== *)
theory Ledger
  imports Domain "HOL-Library.Multiset"
begin

text \<open>
  The durable spend ledger of \<^verbatim>\<open>src/product_app/feedback_store.py\<close>: the append-only
  \<^verbatim>\<open>events\<close> table, the two spend meters read from it, the atomic check-and-charge, the
  reconciliation and void of a charge, the session-mint cap and the identifier wipe. The table is
  the list of its rows in insertion order (the primary key \<^verbatim>\<open>id\<close>); a row's JSON payload is the
  fields this module reads back. SQLite is outside the repository's code: whether an INSERT lands
  is the argument \<open>lands\<close>, and the monotonic clock's reading the argument \<open>clk\<close>. Each method holds
  the store's lock, so it is one function of the store.
\<close>

section \<open>Rows\<close>

record ledger_row =
  lr_recorder :: string
  lr_event_type :: string
  lr_account_id :: "uuid option"
  lr_query_run_id :: "uuid option"
  lr_recorded_at :: micros
  lr_estimated_cost_usd :: "usd option"   \<comment> \<open>payload["estimated_cost_usd"]\<close>
  lr_actual_cost_usd :: "usd option"      \<comment> \<open>payload["actual_cost_usd"]\<close>
  lr_ip :: "string option"                \<comment> \<open>payload["ip"]\<close>
  lr_payload_account_id :: "uuid option"  \<comment> \<open>payload["account_id"]\<close>

record feedback_store =
  fs_rows :: "ledger_row list"
  fs_lost_billed_writes :: nat
  fs_last_write_success_at :: "rat option"
  fs_last_write_failure_at :: "rat option"
  fs_live_charge_cutover_id :: nat

datatype charge_outcome = CHARGE_RECORDED | OVER_DAILY_CAP | OVER_GLOBAL_CEILING | METERING_UNAVAILABLE

definition COST_ACCEPTED_EVENT :: string where
  "COST_ACCEPTED_EVENT = ''cost_guardrail_accepted''"
definition COST_ACCEPTED_SIMULATED_EVENT :: string where
  "COST_ACCEPTED_SIMULATED_EVENT = ''cost_guardrail_accepted_simulated''"
definition COST_RECONCILED_EVENT :: string where
  "COST_RECONCILED_EVENT = ''cost_reconciled''"
definition COST_CHARGE_VOIDED_EVENT :: string where
  "COST_CHARGE_VOIDED_EVENT = ''cost_charge_voided''"

definition ACCOUNT_CHARGE_EVENTS :: "string list" where
  "ACCOUNT_CHARGE_EVENTS = [COST_ACCEPTED_EVENT, COST_ACCEPTED_SIMULATED_EVENT]"

definition LIVE_CHARGE_EVENTS :: "string list" where
  "LIVE_CHARGE_EVENTS = [COST_ACCEPTED_EVENT]"

lemmas event_names = COST_ACCEPTED_EVENT_def COST_ACCEPTED_SIMULATED_EVENT_def
  COST_RECONCILED_EVENT_def COST_CHARGE_VOIDED_EVENT_def

lemma event_names_distinct [simp]:
  "COST_ACCEPTED_EVENT \<noteq> COST_ACCEPTED_SIMULATED_EVENT"
  "COST_ACCEPTED_SIMULATED_EVENT \<noteq> COST_ACCEPTED_EVENT"
  "COST_ACCEPTED_EVENT \<noteq> COST_RECONCILED_EVENT" "COST_RECONCILED_EVENT \<noteq> COST_ACCEPTED_EVENT"
  "COST_ACCEPTED_EVENT \<noteq> COST_CHARGE_VOIDED_EVENT" "COST_CHARGE_VOIDED_EVENT \<noteq> COST_ACCEPTED_EVENT"
  "COST_ACCEPTED_SIMULATED_EVENT \<noteq> COST_RECONCILED_EVENT"
  "COST_RECONCILED_EVENT \<noteq> COST_ACCEPTED_SIMULATED_EVENT"
  "COST_ACCEPTED_SIMULATED_EVENT \<noteq> COST_CHARGE_VOIDED_EVENT"
  "COST_CHARGE_VOIDED_EVENT \<noteq> COST_ACCEPTED_SIMULATED_EVENT"
  "COST_RECONCILED_EVENT \<noteq> COST_CHARGE_VOIDED_EVENT" "COST_CHARGE_VOIDED_EVENT \<noteq> COST_RECONCILED_EVENT"
  by (simp_all add: event_names)

definition charge_event_type :: "bool \<Rightarrow> string" where
  "charge_event_type live = (if live then COST_ACCEPTED_EVENT else COST_ACCEPTED_SIMULATED_EVENT)"

definition METERED_WRITES :: "(string \<times> string) list" where
  "METERED_WRITES = [(''cost'', COST_ACCEPTED_EVENT), (''cost'', COST_ACCEPTED_SIMULATED_EVENT),
     (''cost'', COST_RECONCILED_EVENT)]"

definition DAY :: micros where "DAY = 24 * 60 * 60 * 1000000"

lemma DAY_past [simp]: "now - DAY \<le> now"
  by (simp add: DAY_def)

section \<open>Writing\<close>

text \<open>A failed write is swallowed; a lost metered write is counted.\<close>

definition insert_event :: "bool \<Rightarrow> rat \<Rightarrow> ledger_row \<Rightarrow> feedback_store \<Rightarrow> bool \<times> feedback_store" where
  "insert_event lands clk row fs =
     (if lands
      then (True, fs\<lparr>fs_rows := fs_rows fs @ [row], fs_last_write_success_at := Some clk\<rparr>)
      else (False,
        (if (lr_recorder row, lr_event_type row) \<in> set METERED_WRITES
         then fs\<lparr>fs_last_write_failure_at := Some clk,
                 fs_lost_billed_writes := fs_lost_billed_writes fs + 1\<rparr>
         else fs\<lparr>fs_last_write_failure_at := Some clk\<rparr>)))"

datatype write_health = HEALTH_OK | HEALTH_FAILING | HEALTH_UNVERIFIED

definition write_health :: "feedback_store \<Rightarrow> write_health" where
  "write_health fs =
     (case fs_last_write_failure_at fs of
        None \<Rightarrow> (if fs_last_write_success_at fs = None then HEALTH_UNVERIFIED else HEALTH_OK)
      | Some failed_at \<Rightarrow>
         (case fs_last_write_success_at fs of
            None \<Rightarrow> HEALTH_FAILING
          | Some succeeded_at \<Rightarrow> if failed_at \<ge> succeeded_at then HEALTH_FAILING else HEALTH_OK))"

section \<open>The meters\<close>

definition charge_amount :: "ledger_row \<Rightarrow> usd" where
  "charge_amount row = (case lr_estimated_cost_usd row of None \<Rightarrow> 0 | Some v \<Rightarrow> v)"

definition in_scope :: "micros \<Rightarrow> uuid option \<Rightarrow> string list \<Rightarrow> ledger_row \<Rightarrow> bool" where
  "in_scope cutoff account types row =
     (lr_recorder row = ''cost'' \<and> lr_event_type row \<in> set types
      \<and> (account = None \<or> lr_account_id row = account) \<and> cutoff \<le> lr_recorded_at row)"

definition charge_step :: "usd \<times> (uuid, usd) dict \<Rightarrow> ledger_row \<Rightarrow> usd \<times> (uuid, usd) dict" where
  "charge_step acc row =
     (case lr_query_run_id row of
        None \<Rightarrow> (fst acc + charge_amount row, snd acc)
      | Some r \<Rightarrow>
          (fst acc,
           AList.update r ((case map_of (snd acc) r of None \<Rightarrow> 0 | Some v \<Rightarrow> v) + charge_amount row)
             (snd acc)))"

definition correct_step :: "(uuid, usd) dict \<Rightarrow> ledger_row \<Rightarrow> (uuid, usd) dict" where
  "correct_step charged row =
     (case lr_query_run_id row of
        None \<Rightarrow> charged
      | Some r \<Rightarrow>
          if map_of charged r = None then charged
          else if lr_event_type row = COST_CHARGE_VOIDED_EVENT then AList.update r 0 charged
          else (case lr_actual_cost_usd row of
                  None \<Rightarrow> charged
                | Some raw \<Rightarrow> AList.update r raw charged))"

definition spend_total :: "ledger_row list \<Rightarrow> micros \<Rightarrow> uuid option \<Rightarrow> string list \<Rightarrow> usd" where
  "spend_total rows cutoff account types =
     (let (total, charged) = foldl charge_step (0, []) (filter (in_scope cutoff account types) rows);
          charged = foldl correct_step charged
            (filter (in_scope cutoff account [COST_RECONCILED_EVENT, COST_CHARGE_VOIDED_EVENT]) rows)
      in total + sum_list (map snd charged))"

definition daily_spend_for :: "feedback_store \<Rightarrow> uuid \<Rightarrow> micros \<Rightarrow> usd" where
  "daily_spend_for fs account now = spend_total (fs_rows fs) (now - DAY) (Some account) ACCOUNT_CHARGE_EVENTS"

definition global_daily_spend :: "feedback_store \<Rightarrow> micros \<Rightarrow> usd" where
  "global_daily_spend fs now = spend_total (fs_rows fs) (now - DAY) None LIVE_CHARGE_EVENTS"

definition global_daily_simulated_spend :: "feedback_store \<Rightarrow> micros \<Rightarrow> usd" where
  "global_daily_simulated_spend fs now =
     spend_total (fs_rows fs) (now - DAY) None [COST_ACCEPTED_SIMULATED_EVENT]"

section \<open>Charging, reconciling, voiding\<close>

definition charge_row :: "uuid \<Rightarrow> uuid \<Rightarrow> usd \<Rightarrow> bool \<Rightarrow> micros \<Rightarrow> ledger_row" where
  "charge_row account run est live now =
     \<lparr>lr_recorder = ''cost'', lr_event_type = charge_event_type live, lr_account_id = Some account,
      lr_query_run_id = Some run, lr_recorded_at = now, lr_estimated_cost_usd = Some est,
      lr_actual_cost_usd = None, lr_ip = None, lr_payload_account_id = Some account\<rparr>"

definition try_record_cost_charge ::
  "uuid \<Rightarrow> uuid \<Rightarrow> usd \<Rightarrow> usd \<Rightarrow> usd \<Rightarrow> bool \<Rightarrow> micros \<Rightarrow> bool \<Rightarrow> rat \<Rightarrow> feedback_store \<Rightarrow>
   charge_outcome \<times> feedback_store" where
  "try_record_cost_charge account run est daily_cap global_ceiling live now lands clk fs =
     (let already = daily_spend_for fs account now in
      if already + est > daily_cap then (OVER_DAILY_CAP, fs)
      else
        let global_spent = global_daily_spend fs now in
        if global_spent \<ge> global_ceiling then (OVER_GLOBAL_CEILING, fs)
        else
          let (landed, fs) = insert_event lands clk (charge_row account run est live now) fs in
          (if landed then CHARGE_RECORDED else METERING_UNAVAILABLE, fs))"

definition reconcile_row :: "uuid \<Rightarrow> uuid \<Rightarrow> usd \<Rightarrow> usd \<Rightarrow> micros \<Rightarrow> ledger_row" where
  "reconcile_row account run est actual now =
     \<lparr>lr_recorder = ''cost'', lr_event_type = COST_RECONCILED_EVENT, lr_account_id = Some account,
      lr_query_run_id = Some run, lr_recorded_at = now, lr_estimated_cost_usd = Some est,
      lr_actual_cost_usd = Some actual, lr_ip = None, lr_payload_account_id = Some account\<rparr>"

definition run_events_seen :: "uuid \<Rightarrow> micros \<Rightarrow> ledger_row list \<Rightarrow> string list" where
  "run_events_seen run cutoff rows =
     map lr_event_type (filter (\<lambda>row. lr_query_run_id row = Some run
       \<and> in_scope cutoff None [COST_ACCEPTED_EVENT, COST_RECONCILED_EVENT, COST_CHARGE_VOIDED_EVENT] row) rows)"

text \<open>The result of the insert is not looked at.\<close>

definition try_record_cost_reconciliation ::
  "uuid \<Rightarrow> uuid \<Rightarrow> usd \<Rightarrow> usd \<Rightarrow> micros \<Rightarrow> bool \<Rightarrow> rat \<Rightarrow> feedback_store \<Rightarrow> bool \<times> feedback_store" where
  "try_record_cost_reconciliation account run est actual now lands clk fs =
     (let seen = run_events_seen run (now - DAY) (fs_rows fs) in
      if COST_ACCEPTED_EVENT \<notin> set seen then (False, fs)
      else if COST_RECONCILED_EVENT \<in> set seen \<or> COST_CHARGE_VOIDED_EVENT \<in> set seen then (False, fs)
      else (True, snd (insert_event lands clk (reconcile_row account run est actual now) fs)))"

definition void_row :: "uuid \<Rightarrow> uuid \<Rightarrow> micros \<Rightarrow> ledger_row" where
  "void_row account run now =
     \<lparr>lr_recorder = ''cost'', lr_event_type = COST_CHARGE_VOIDED_EVENT, lr_account_id = Some account,
      lr_query_run_id = Some run, lr_recorded_at = now, lr_estimated_cost_usd = None,
      lr_actual_cost_usd = None, lr_ip = None, lr_payload_account_id = Some account\<rparr>"

definition void_cost_charge ::
  "uuid \<Rightarrow> uuid \<Rightarrow> micros \<Rightarrow> bool \<Rightarrow> rat \<Rightarrow> feedback_store \<Rightarrow> feedback_store" where
  "void_cost_charge account run now lands clk fs =
     snd (insert_event lands clk (void_row account run now) fs)"

text \<open>Newest live charge above the posture cutover; row ids are positions from one.\<close>

definition last_live_charge_at :: "feedback_store \<Rightarrow> micros option" where
  "last_live_charge_at fs =
     (let numbered = zip [1..<length (fs_rows fs) + 1] (fs_rows fs);
          of_type = (\<lambda>ty. filter (\<lambda>(i, row). lr_recorder row = ''cost'' \<and> lr_event_type row = ty) numbered);
          cutover = fs_live_charge_cutover_id fs;
          floor = (case of_type COST_ACCEPTED_SIMULATED_EVENT of
                     [] \<Rightarrow> cutover | (i, row) # _ \<Rightarrow> min cutover (i - 1))
      in (case rev (filter (\<lambda>(i, row). i > floor) (of_type COST_ACCEPTED_EVENT)) of
            [] \<Rightarrow> None | (i, row) # _ \<Rightarrow> Some (lr_recorded_at row)))"

section \<open>Session mints\<close>

definition mint_row :: "uuid \<Rightarrow> string \<Rightarrow> micros \<Rightarrow> ledger_row" where
  "mint_row account ip now =
     \<lparr>lr_recorder = ''session'', lr_event_type = ''session_minted'', lr_account_id = Some account,
      lr_query_run_id = None, lr_recorded_at = now, lr_estimated_cost_usd = None,
      lr_actual_cost_usd = None, lr_ip = Some ip, lr_payload_account_id = None\<rparr>"

definition mints_of :: "string \<Rightarrow> micros \<Rightarrow> ledger_row list \<Rightarrow> ledger_row list" where
  "mints_of ip cutoff rows =
     filter (\<lambda>row. lr_recorder row = ''session'' \<and> lr_event_type row = ''session_minted''
       \<and> cutoff \<le> lr_recorded_at row \<and> lr_ip row = Some ip) rows"

definition session_mint_count_for_ip :: "feedback_store \<Rightarrow> string \<Rightarrow> micros \<Rightarrow> nat" where
  "session_mint_count_for_ip fs ip now = length (mints_of ip (now - DAY) (fs_rows fs))"

definition try_record_session_mint ::
  "string \<Rightarrow> uuid \<Rightarrow> nat \<Rightarrow> micros \<Rightarrow> bool \<Rightarrow> rat \<Rightarrow> feedback_store \<Rightarrow> bool \<times> feedback_store" where
  "try_record_session_mint ip account cap now lands clk fs =
     (if length (mints_of ip (now - DAY) (fs_rows fs)) \<ge> cap then (False, fs)
      else (True, snd (insert_event lands clk (mint_row account ip now) fs)))"

text \<open>\<open>readable\<close> is false when the query raises; whole seconds truncate.\<close>

definition seconds_until_a_session_mint_frees ::
  "bool \<Rightarrow> string \<Rightarrow> nat \<Rightarrow> micros \<Rightarrow> feedback_store \<Rightarrow> int option" where
  "seconds_until_a_session_mint_frees readable ip cap now fs =
     (if \<not> readable then None
      else
        let stamps = sort (map lr_recorded_at (mints_of ip (now - DAY) (fs_rows fs))) in
        if length stamps < cap \<or> length stamps - cap \<ge> length stamps then None
        else let d = stamps ! (length stamps - cap) + DAY - now
             in Some (max (sgn d * (\<bar>d\<bar> div 1000000)) 1))"

section \<open>Identifier wipe\<close>

definition IDENTIFIER_KEEP :: micros where "IDENTIFIER_KEEP = 48 * 60 * 60 * 1000000"

text \<open>Payloads here are always readable JSON, so the malformed branch does not arise.\<close>

definition wipe_row :: "micros \<Rightarrow> ledger_row \<Rightarrow> ledger_row" where
  "wipe_row cutoff row =
     (if lr_recorder row = ''cost'' \<and> lr_recorded_at row < cutoff
      then row\<lparr>lr_account_id := None, lr_payload_account_id := None\<rparr>
      else if lr_recorder row = ''session'' \<and> lr_event_type row = ''session_minted'' \<and> lr_recorded_at row < cutoff
      then row\<lparr>lr_ip := None\<rparr>
      else row)"

definition wipe_expired_identifiers :: "micros \<Rightarrow> feedback_store \<Rightarrow> feedback_store" where
  "wipe_expired_identifiers now fs =
     fs\<lparr>fs_rows := map (wipe_row (now - IDENTIFIER_KEEP)) (fs_rows fs)\<rparr>"

section \<open>The meter as a sum over charges\<close>

text \<open>What one charge counts for, given the corrections in scope: the last void or measured cost of its
  run, else its estimate.\<close>

definition settle_step :: "uuid option \<Rightarrow> usd \<Rightarrow> ledger_row \<Rightarrow> usd" where
  "settle_step run v row =
     (if run = None \<or> lr_query_run_id row \<noteq> run then v
      else if lr_event_type row = COST_CHARGE_VOIDED_EVENT then 0
      else (case lr_actual_cost_usd row of None \<Rightarrow> v | Some raw \<Rightarrow> raw))"

definition settled :: "ledger_row list \<Rightarrow> ledger_row \<Rightarrow> usd" where
  "settled corrections row = foldl (settle_step (lr_query_run_id row)) (charge_amount row) corrections"

definition keyed_runs :: "ledger_row list \<Rightarrow> uuid list" where
  "keyed_runs rows = List.map_filter lr_query_run_id rows"

lemma keyed_runs_simps [simp]:
  "keyed_runs [] = []"
  "keyed_runs (row # rows) =
     (case lr_query_run_id row of None \<Rightarrow> keyed_runs rows | Some r \<Rightarrow> r # keyed_runs rows)"
  by (simp_all add: keyed_runs_def map_filter_simps split: option.split)

lemma keyed_runs_append [simp]: "keyed_runs (xs @ ys) = keyed_runs xs @ keyed_runs ys"
  by (induction xs) (simp_all split: option.split)

lemma set_keyed_runs: "r \<in> set (keyed_runs rows) \<longleftrightarrow> (\<exists>row \<in> set rows. lr_query_run_id row = Some r)"
  by (induction rows) (auto split: option.split)

lemma update_absent: "map_of d k = None \<Longrightarrow> AList.update k v d = d @ [(k, v)]"
  by (induction d) (auto split: if_splits)

definition keyed :: "ledger_row list \<Rightarrow> (uuid, usd) dict" where
  "keyed rows = List.map_filter (\<lambda>row. map_option (\<lambda>r. (r, charge_amount row)) (lr_query_run_id row)) rows"

definition unkeyed :: "ledger_row list \<Rightarrow> usd" where
  "unkeyed rows = sum_list (map charge_amount (filter (\<lambda>row. lr_query_run_id row = None) rows))"

lemma keyed_simps [simp]:
  "keyed [] = []"
  "keyed (row # rows) =
     (case lr_query_run_id row of None \<Rightarrow> keyed rows | Some r \<Rightarrow> (r, charge_amount row) # keyed rows)"
  by (simp_all add: keyed_def map_filter_simps split: option.split)

lemma charge_fold:
  assumes "distinct (map fst d @ keyed_runs rows)"
  shows "foldl charge_step (t, d) rows = (t + unkeyed rows, d @ keyed rows)"
  using assms
proof (induction rows arbitrary: t d)
  case Nil
  show ?case by (simp add: unkeyed_def)
next
  case (Cons row rows)
  show ?case
  proof (cases "lr_query_run_id row")
    case None
    then have "charge_step (t, d) row = (t + charge_amount row, d)" by (simp add: charge_step_def)
    then show ?thesis using None Cons by (simp add: unkeyed_def add.assoc)
  next
    case (Some r)
    with Cons.prems have "map_of d r = None" by (auto simp: map_of_eq_None_iff)
    with Some have "charge_step (t, d) row = (t, d @ [(r, charge_amount row)])"
      by (simp add: charge_step_def update_absent)
    then show ?thesis using Some Cons.prems Cons.IH[of "d @ [(r, charge_amount row)]" t]
      by (simp add: unkeyed_def)
  qed
qed

definition settle_dict :: "ledger_row list \<Rightarrow> (uuid, usd) dict \<Rightarrow> (uuid, usd) dict" where
  "settle_dict corrections d = map (\<lambda>(r, v). (r, foldl (settle_step (Some r)) v corrections)) d"

lemma update_present:
  "dict_ok d \<Longrightarrow> map_of d r \<noteq> None \<Longrightarrow> AList.update r v d = map (\<lambda>(k, w). (k, if k = r then v else w)) d"
proof (induction d)
  case Nil
  then show ?case by simp
next
  case (Cons e d)
  obtain k w where e: "e = (k, w)" by force
  show ?case
  proof (cases "k = r")
    case True
    with Cons.prems have "\<forall>(k, w) \<in> set d. k \<noteq> r" by (force simp: dict_ok_def e)
    then have "map (\<lambda>(k, w). (k, if k = r then v else w)) d = d" by (induction d) auto
    with True show ?thesis by (simp add: e)
  next
    case False
    with Cons show ?thesis by (simp add: e dict_ok_def)
  qed
qed

lemma correct_step_settle:
  "dict_ok d \<Longrightarrow> correct_step d row = map (\<lambda>(r, v). (r, settle_step (Some r) v row)) d"
proof -
  assume ok: "dict_ok d"
  have same: "map (\<lambda>(k, w). (k, settle_step (Some k) w row)) d = d"
    if "\<forall>(k, w) \<in> set d. settle_step (Some k) w row = w"
    using that by (induction d) auto
  show ?thesis
  proof (cases "lr_query_run_id row")
    case None
    then show ?thesis using same by (simp add: correct_step_def settle_step_def)
  next
    case (Some r)
    show ?thesis
    proof (cases "map_of d r = None")
      case True
      then have "\<forall>(k, w) \<in> set d. k \<noteq> r" by (force simp: map_of_eq_None_iff)
      then have "\<forall>(k, w) \<in> set d. settle_step (Some k) w row = w"
        using Some by (auto simp: settle_step_def)
      then show ?thesis using Some True same by (simp add: correct_step_def)
    next
      case False
      have "settle_step (Some k) w row = (if k = r then settle_step (Some r) w row else w)" for k w
        using Some by (simp add: settle_step_def)
      then show ?thesis using Some False same
        by (auto simp: correct_step_def update_present[OF ok False] settle_step_def
            split: option.split intro!: map_cong)
    qed
  qed
qed

lemma settle_dict_Cons:
  "settle_dict (row # rows) d = settle_dict rows (map (\<lambda>(r, v). (r, settle_step (Some r) v row)) d)"
  by (simp add: settle_dict_def o_def case_prod_unfold)

lemma correct_fold: "dict_ok d \<Longrightarrow> foldl correct_step d corrections = settle_dict corrections d"
proof (induction corrections arbitrary: d)
  case Nil
  show ?case by (simp add: settle_dict_def)
next
  case (Cons row corrections)
  have "map fst (map (\<lambda>(r, v). (r, settle_step (Some r) v row)) d) = map fst d"
    by (simp add: o_def case_prod_unfold)
  then have "dict_ok (map (\<lambda>(r, v). (r, settle_step (Some r) v row)) d)"
    using Cons.prems by (simp only: dict_ok_def)
  from Cons.IH[OF this] show ?case
    by (simp add: correct_step_settle[OF Cons.prems] settle_dict_Cons)
qed

lemma settle_none: "foldl (settle_step None) v corrections = v"
  by (induction corrections arbitrary: v) (simp_all add: settle_step_def)

lemma keyed_settle_sum:
  "unkeyed rows + sum_list (map snd (settle_dict corrections (keyed rows)))
     = sum_list (map (settled corrections) rows)"
  by (induction rows)
    (auto simp: unkeyed_def settle_dict_def settled_def settle_none split: option.split)

definition corrections_in :: "micros \<Rightarrow> uuid option \<Rightarrow> ledger_row list \<Rightarrow> ledger_row list" where
  "corrections_in cutoff account rows =
     filter (in_scope cutoff account [COST_RECONCILED_EVENT, COST_CHARGE_VOIDED_EVENT]) rows"

lemma keyed_fst: "map fst (keyed rows) = keyed_runs rows"
  by (induction rows) (simp_all split: option.split)

lemma spend_total_sum:
  assumes "distinct (keyed_runs (filter (in_scope cutoff account types) rows))"
  shows "spend_total rows cutoff account types =
    sum_list (map (settled (corrections_in cutoff account rows))
      (filter (in_scope cutoff account types) rows))"
  using assms
  by (simp add: spend_total_def charge_fold correct_fold dict_ok_def keyed_fst keyed_settle_sum
      corrections_in_def)

section \<open>Well-formed ledgers\<close>

definition is_charge :: "ledger_row \<Rightarrow> bool" where
  "is_charge row = (lr_recorder row = ''cost'' \<and> lr_event_type row \<in> set ACCOUNT_CHARGE_EVENTS)"

text \<open>
  \<open>ledger_ok t rows\<close>: nothing is stamped after \<open>t\<close>; every charge names its run, one charge per run,
  and precedes (in time) whatever else is said of that run; amounts are not negative.
\<close>

definition ledger_ok :: "micros \<Rightarrow> ledger_row list \<Rightarrow> bool" where
  "ledger_ok t rows =
     ((\<forall>row \<in> set rows. lr_recorded_at row \<le> t)
      \<and> (\<forall>c \<in> set rows. is_charge c \<longrightarrow> lr_query_run_id c \<noteq> None \<and> 0 \<le> charge_amount c
            \<and> (\<forall>row \<in> set rows. lr_query_run_id row = lr_query_run_id c \<longrightarrow>
                 lr_recorded_at c \<le> lr_recorded_at row))
      \<and> distinct (keyed_runs (filter is_charge rows))
      \<and> (\<forall>row \<in> set rows. \<forall>a. lr_actual_cost_usd row = Some a \<longrightarrow> 0 \<le> a))"

definition charge_types :: "string list \<Rightarrow> bool" where
  "charge_types types = (set types \<subseteq> set ACCOUNT_CHARGE_EVENTS)"

lemma charge_types_used [simp]:
  "charge_types ACCOUNT_CHARGE_EVENTS" "charge_types LIVE_CHARGE_EVENTS"
  "charge_types [COST_ACCEPTED_SIMULATED_EVENT]"
  by (simp_all add: charge_types_def ACCOUNT_CHARGE_EVENTS_def LIVE_CHARGE_EVENTS_def)

lemma scope_is_charge: "charge_types types \<Longrightarrow> in_scope cutoff account types row \<Longrightarrow> is_charge row"
  by (auto simp: charge_types_def in_scope_def is_charge_def)

lemma correction_not_charge:
  "in_scope cutoff account [COST_RECONCILED_EVENT, COST_CHARGE_VOIDED_EVENT] row \<Longrightarrow> \<not> is_charge row"
  by (auto simp: in_scope_def is_charge_def ACCOUNT_CHARGE_EVENTS_def)

lemma distinct_keyed_filter: "distinct (keyed_runs rows) \<Longrightarrow> distinct (keyed_runs (filter P rows))"
proof (induction rows)
  case (Cons row rows)
  then show ?case by (auto simp: set_keyed_runs split: option.splits)
qed simp

lemma spend_total_ok:
  assumes "ledger_ok t rows" and "charge_types types"
  shows "spend_total rows cutoff account types =
    sum_list (map (settled (corrections_in cutoff account rows)) (filter (in_scope cutoff account types) rows))"
proof (rule spend_total_sum)
  have eq: "filter (in_scope cutoff account types) rows =
      filter (in_scope cutoff account types) (filter is_charge rows)"
    using scope_is_charge[OF assms(2)] by (auto intro: filter_cong)
  have "distinct (keyed_runs (filter is_charge rows))"
    using assms(1) by (simp add: ledger_ok_def)
  then show "distinct (keyed_runs (filter (in_scope cutoff account types) rows))"
    by (subst eq) (rule distinct_keyed_filter)
qed

lemma settle_fold_cong:
  assumes "\<And>row. row \<in> set rows \<Longrightarrow> run \<noteq> None \<Longrightarrow> lr_query_run_id row = run \<Longrightarrow> P row = Q row"
  shows "foldl (settle_step run) v (filter P rows) = foldl (settle_step run) v (filter Q rows)"
  using assms
proof (induction rows arbitrary: v)
  case (Cons row rows)
  show ?case
  proof (cases "run \<noteq> None \<and> lr_query_run_id row = run")
    case True
    then have "P row = Q row" using Cons.prems[of row] by simp
    moreover have "\<And>v. foldl (settle_step run) v (filter P rows) = foldl (settle_step run) v (filter Q rows)"
      using Cons by simp
    ultimately show ?thesis by simp
  next
    case False
    then have "settle_step run v row = v" by (auto simp: settle_step_def)
    moreover have "\<And>v. foldl (settle_step run) v (filter P rows) = foldl (settle_step run) v (filter Q rows)"
      using Cons by simp
    ultimately show ?thesis by simp
  qed
qed simp

lemma settle_fold_idle:
  "(\<And>row. row \<in> set rows \<Longrightarrow> lr_query_run_id row \<noteq> run) \<Longrightarrow> foldl (settle_step run) v rows = v"
  by (induction rows) (auto simp: settle_step_def)

lemma settle_fold_nonneg:
  "0 \<le> v \<Longrightarrow> (\<And>row a. row \<in> set rows \<Longrightarrow> lr_actual_cost_usd row = Some a \<Longrightarrow> 0 \<le> a) \<Longrightarrow>
   0 \<le> foldl (settle_step run) v rows"
proof (induction rows arbitrary: v)
  case (Cons row rows)
  have "0 \<le> settle_step run v row"
    using Cons.prems by (auto simp: settle_step_def split: option.split)
  then show ?case using Cons by auto
qed simp

lemma settled_nonneg:
  assumes "ledger_ok t rows" and "c \<in> set rows" and "is_charge c"
  shows "0 \<le> settled (corrections_in cutoff account rows) c"
  using assms unfolding settled_def
  by (intro settle_fold_nonneg) (auto simp: ledger_ok_def corrections_in_def)

text \<open>As time passes the window only loses charges; the ones it keeps keep their corrections.\<close>

lemma settled_later:
  assumes ok: "ledger_ok t rows" and types: "charge_types types" and le: "cutoff \<le> cutoff'"
    and c: "c \<in> set (filter (in_scope cutoff' account types) rows)"
  shows "settled (corrections_in cutoff' account rows) c = settled (corrections_in cutoff account rows) c"
proof -
  have "c \<in> set rows" "is_charge c" "cutoff' \<le> lr_recorded_at c"
    using c scope_is_charge[OF types] by (auto simp: in_scope_def)
  then have "cutoff' \<le> lr_recorded_at row" if "row \<in> set rows" "lr_query_run_id row = lr_query_run_id c" for row
    using ok that by (fastforce simp: ledger_ok_def)
  then show ?thesis unfolding settled_def corrections_in_def
    using le by (intro settle_fold_cong) (force simp: in_scope_def)
qed

section \<open>What the estimates account for\<close>

text \<open>A charge counts in the meters for its settled amount. Up to its estimate that amount was tested against the caps
  when it was charged; what a measured cost adds above the estimate was not. \<open>tested_total\<close> is the first part of a
  meter, \<open>overrun_total\<close> the second.\<close>

definition tested_total :: "ledger_row list \<Rightarrow> micros \<Rightarrow> uuid option \<Rightarrow> string list \<Rightarrow> usd" where
  "tested_total rows cutoff account types =
     sum_list (map (\<lambda>c. min (settled (corrections_in cutoff account rows) c) (charge_amount c))
       (filter (in_scope cutoff account types) rows))"

definition overrun_total :: "ledger_row list \<Rightarrow> micros \<Rightarrow> uuid option \<Rightarrow> string list \<Rightarrow> usd" where
  "overrun_total rows cutoff account types =
     sum_list (map (\<lambda>c. max 0 (settled (corrections_in cutoff account rows) c - charge_amount c))
       (filter (in_scope cutoff account types) rows))"

lemma spend_splits:
  assumes "ledger_ok t rows" and "charge_types types"
  shows "spend_total rows cutoff account types = tested_total rows cutoff account types + overrun_total rows cutoff account types"
proof -
  have "sum_list (map f xs) = sum_list (map (\<lambda>c. min (f c) (g c)) xs) + sum_list (map (\<lambda>c. max 0 (f c - g c)) xs)"
    for f g :: "ledger_row \<Rightarrow> usd" and xs
    by (induction xs) (auto simp: min_def max_def)
  then show ?thesis unfolding spend_total_ok[OF assms] tested_total_def overrun_total_def by blast
qed

lemma overrun_nonneg: "0 \<le> overrun_total rows cutoff account types"
  by (auto simp: overrun_total_def intro!: sum_list_nonneg)

lemma tested_le_spend:
  "ledger_ok t rows \<Longrightarrow> charge_types types \<Longrightarrow> tested_total rows cutoff account types \<le> spend_total rows cutoff account types"
  by (simp add: spend_splits overrun_nonneg)

lemma tested_later_le:
  assumes ok: "ledger_ok t rows" and types: "charge_types types" and le: "cutoff \<le> cutoff'"
  shows "tested_total rows cutoff' account types \<le> tested_total rows cutoff account types"
proof -
  let ?S = "filter (in_scope cutoff account types) rows"
  let ?v = "\<lambda>cutoff c. min (settled (corrections_in cutoff account rows) c) (charge_amount c)"
  have eq: "filter (in_scope cutoff' account types) rows = filter (\<lambda>row. cutoff' \<le> lr_recorded_at row) ?S"
    using le by (auto simp: in_scope_def intro!: filter_cong)
  have "tested_total rows cutoff' account types = sum_list (map (?v cutoff) (filter (in_scope cutoff' account types) rows))"
    unfolding tested_total_def using settled_later[OF ok types le] by (auto intro!: arg_cong[of _ _ sum_list])
  also have "\<dots> \<le> sum_list (map (?v cutoff) ?S)"
    unfolding eq using settled_nonneg[OF ok] scope_is_charge[OF types] ok
    by (intro sum_list_filter_le) (auto simp: ledger_ok_def)
  finally show ?thesis by (simp add: tested_total_def)
qed

section \<open>Appending a row\<close>

lemma spend_append_charge:
  assumes ok: "ledger_ok t (rows @ [c])" and types: "charge_types types" and c: "is_charge c"
    and fresh: "\<And>row. row \<in> set rows \<Longrightarrow> lr_query_run_id row \<noteq> lr_query_run_id c"
    and ok0: "ledger_ok t rows"
  shows "spend_total (rows @ [c]) cutoff account types =
    spend_total rows cutoff account types
      + (if in_scope cutoff account types c then charge_amount c else 0)"
proof -
  have corr: "corrections_in cutoff account (rows @ [c]) = corrections_in cutoff account rows"
    using c correction_not_charge by (auto simp: corrections_in_def)
  have "settled (corrections_in cutoff account rows) c = charge_amount c"
    unfolding settled_def using fresh by (intro settle_fold_idle) (auto simp: corrections_in_def)
  then show ?thesis by (simp add: spend_total_ok[OF ok types] spend_total_ok[OF ok0 types] corr)
qed

lemma tested_append_charge:
  assumes c: "is_charge c" and types: "charge_types types"
    and fresh: "\<And>row. row \<in> set rows \<Longrightarrow> lr_query_run_id row \<noteq> lr_query_run_id c"
  shows "tested_total (rows @ [c]) cutoff account types =
    tested_total rows cutoff account types + (if in_scope cutoff account types c then charge_amount c else 0)"
proof -
  have corr: "corrections_in cutoff account (rows @ [c]) = corrections_in cutoff account rows"
    using c correction_not_charge by (auto simp: corrections_in_def)
  have "settled (corrections_in cutoff account rows) c = charge_amount c"
    unfolding settled_def using fresh by (intro settle_fold_idle) (auto simp: corrections_in_def)
  then show ?thesis by (simp add: tested_total_def corr)
qed

lemma tested_append_correction:
  assumes types: "charge_types types" and k: "\<not> is_charge k"
    and less: "\<And>c. c \<in> set rows \<Longrightarrow> is_charge c \<Longrightarrow> in_scope cutoff account types c \<Longrightarrow>
      lr_query_run_id k = lr_query_run_id c \<Longrightarrow>
      in_scope cutoff account [COST_RECONCILED_EVENT, COST_CHARGE_VOIDED_EVENT] k \<Longrightarrow>
      min (settle_step (lr_query_run_id c) (settled (corrections_in cutoff account rows) c) k) (charge_amount c)
        \<le> settled (corrections_in cutoff account rows) c"
  shows "tested_total (rows @ [k]) cutoff account types \<le> tested_total rows cutoff account types"
proof -
  have scope: "filter (in_scope cutoff account types) (rows @ [k]) = filter (in_scope cutoff account types) rows"
    using k scope_is_charge[OF types] by auto
  have le: "min (settled (corrections_in cutoff account (rows @ [k])) c) (charge_amount c)
      \<le> min (settled (corrections_in cutoff account rows) c) (charge_amount c)"
    if c: "c \<in> set (filter (in_scope cutoff account types) rows)" for c
  proof -
    have c': "c \<in> set rows" "is_charge c" "in_scope cutoff account types c"
      using c scope_is_charge[OF types] by auto
    have step: "settled (corrections_in cutoff account (rows @ [k])) c =
        (if in_scope cutoff account [COST_RECONCILED_EVENT, COST_CHARGE_VOIDED_EVENT] k
         then settle_step (lr_query_run_id c) (settled (corrections_in cutoff account rows) c) k
         else settled (corrections_in cutoff account rows) c)"
      by (simp add: settled_def corrections_in_def)
    show ?thesis
    proof (cases "lr_query_run_id k = lr_query_run_id c")
      case True
      then show ?thesis using less[OF c'] by (simp add: step)
    next
      case False
      then have "settle_step (lr_query_run_id c) v k = v" for v by (simp add: settle_step_def)
      then show ?thesis by (simp add: step)
    qed
  qed
  show ?thesis unfolding tested_total_def scope using le by (intro sum_list_mono) simp
qed

section \<open>Ledger operations as steps\<close>

datatype ledger_op =
    LCharge uuid uuid usd bool micros bool rat
  | LReconcile uuid uuid usd usd micros bool rat
  | LVoid uuid uuid micros bool rat
  | LMint string uuid nat micros bool rat
  | LWipe micros

fun ledger_op_time :: "ledger_op \<Rightarrow> micros" where
  "ledger_op_time (LCharge account run est live now lands clk) = now"
| "ledger_op_time (LReconcile account run est actual now lands clk) = now"
| "ledger_op_time (LVoid account run now lands clk) = now"
| "ledger_op_time (LMint ip account n now lands clk) = now"
| "ledger_op_time (LWipe now) = now"

fun ledger_step :: "usd \<Rightarrow> usd \<Rightarrow> feedback_store \<Rightarrow> ledger_op \<Rightarrow> feedback_store" where
  "ledger_step daily_cap gceiling fs (LCharge account run est live now lands clk) =
     snd (try_record_cost_charge account run est daily_cap gceiling live now lands clk fs)"
| "ledger_step daily_cap gceiling fs (LReconcile account run est actual now lands clk) =
     snd (try_record_cost_reconciliation account run est actual now lands clk fs)"
| "ledger_step daily_cap gceiling fs (LVoid account run now lands clk) =
     void_cost_charge account run now lands clk fs"
| "ledger_step daily_cap gceiling fs (LMint ip account n now lands clk) =
     snd (try_record_session_mint ip account n now lands clk fs)"
| "ledger_step daily_cap gceiling fs (LWipe now) = wipe_expired_identifiers now fs"

text \<open>
  What the callers owe the ledger: a charge is for a run no row names yet and its estimate lies
  between zero and \<open>max_est\<close>; a measured cost is not negative. It may well be above the run's estimate.
\<close>

fun ledger_op_ok :: "usd \<Rightarrow> feedback_store \<Rightarrow> ledger_op \<Rightarrow> bool" where
  "ledger_op_ok max_est fs (LCharge account run est live now lands clk) =
     (run \<notin> set (keyed_runs (fs_rows fs)) \<and> 0 \<le> est \<and> est \<le> max_est)"
| "ledger_op_ok max_est fs (LReconcile account run est actual now lands clk) =
     (0 \<le> actual)"
| "ledger_op_ok max_est fs _ = True"

fun ledger_ops_ok :: "usd \<Rightarrow> usd \<Rightarrow> usd \<Rightarrow> micros \<Rightarrow> feedback_store \<Rightarrow> ledger_op list \<Rightarrow> bool" where
  "ledger_ops_ok max_est daily_cap gceiling t fs [] = True"
| "ledger_ops_ok max_est daily_cap gceiling t fs (x # xs) =
     (t \<le> ledger_op_time x \<and> ledger_op_ok max_est fs x
      \<and> ledger_ops_ok max_est daily_cap gceiling (ledger_op_time x) (ledger_step daily_cap gceiling fs x) xs)"

lemma ledger_ok_later: "ledger_ok t rows \<Longrightarrow> t \<le> t' \<Longrightarrow> ledger_ok t' rows"
  by (fastforce simp: ledger_ok_def)

lemma ledger_ok_append:
  assumes ok: "ledger_ok t rows" and "t \<le> now" and now: "lr_recorded_at row = now"
    and charge: "is_charge row \<Longrightarrow> 0 \<le> charge_amount row \<and>
      (\<exists>r. lr_query_run_id row = Some r \<and> r \<notin> set (keyed_runs rows))"
    and actual: "\<And>a. lr_actual_cost_usd row = Some a \<Longrightarrow> 0 \<le> a"
  shows "ledger_ok now (rows @ [row])"
proof -
  have "\<forall>x \<in> set rows. lr_recorded_at x \<le> now"
    using ok \<open>t \<le> now\<close> by (auto simp: ledger_ok_def)
  moreover have "is_charge row \<Longrightarrow> \<forall>x \<in> set rows. lr_query_run_id x \<noteq> lr_query_run_id row"
    using charge by (auto simp: set_keyed_runs)
  moreover have "distinct (keyed_runs (filter is_charge (rows @ [row])))"
    using ok charge by (auto simp: ledger_ok_def set_keyed_runs)
  ultimately show ?thesis
    using ok charge actual now by (auto simp: ledger_ok_def)
qed

lemma ledger_ok_wipe: "ledger_ok t rows \<Longrightarrow> ledger_ok t (map (wipe_row cutoff) rows)"
proof -
  have same: "lr_recorded_at (wipe_row cutoff row) = lr_recorded_at row"
    "lr_query_run_id (wipe_row cutoff row) = lr_query_run_id row"
    "charge_amount (wipe_row cutoff row) = charge_amount row"
    "is_charge (wipe_row cutoff row) = is_charge row"
    "lr_actual_cost_usd (wipe_row cutoff row) = lr_actual_cost_usd row" for row
    by (simp_all add: wipe_row_def charge_amount_def is_charge_def)
  have "keyed_runs (filter is_charge (map (wipe_row cutoff) rows)) = keyed_runs (filter is_charge rows)" for rows
    by (induction rows) (auto simp: same split: option.split)
  then show "ledger_ok t rows \<Longrightarrow> ledger_ok t (map (wipe_row cutoff) rows)"
    by (simp add: ledger_ok_def same)
qed

text \<open>One spend rail: a meter (scope and charge types) whose tested part stays within \<open>bound\<close> from \<open>t\<close> on.\<close>

definition rail_ok :: "usd \<Rightarrow> uuid option \<Rightarrow> string list \<Rightarrow> micros \<Rightarrow> ledger_row list \<Rightarrow> bool" where
  "rail_ok bound account types t rows =
     (ledger_ok t rows \<and> (\<forall>now \<ge> t. tested_total rows (now - DAY) account types \<le> bound))"

lemma rail_ok_later: "rail_ok bound account types t rows \<Longrightarrow> t \<le> t' \<Longrightarrow> rail_ok bound account types t' rows"
  by (auto simp: rail_ok_def intro: ledger_ok_later)

lemma rail_append_charge:
  assumes rail: "rail_ok bound account types t rows" and types: "charge_types types" and "t \<le> now"
    and c: "is_charge c" "lr_recorded_at c = now" "0 \<le> charge_amount c" "lr_actual_cost_usd c = None"
    and run: "lr_query_run_id c = Some run" "run \<notin> set (keyed_runs rows)"
    and room: "\<And>cutoff. in_scope cutoff account types c \<Longrightarrow>
      tested_total rows (now - DAY) account types + charge_amount c \<le> bound"
  shows "rail_ok bound account types now (rows @ [c])"
proof -
  have ok: "ledger_ok now (rows @ [c])" and ok1: "ledger_ok t rows"
    using rail c run \<open>t \<le> now\<close> by (auto simp: rail_ok_def intro: ledger_ok_append ledger_ok_later)
  have "tested_total (rows @ [c]) (now' - DAY) account types \<le> bound" if "now \<le> now'" for now'
  proof -
    have eq: "tested_total (rows @ [c]) (now' - DAY) account types = tested_total rows (now' - DAY) account types
        + (if in_scope (now' - DAY) account types c then charge_amount c else 0)"
      using run by (intro tested_append_charge[OF c(1) types]) (auto simp: set_keyed_runs)
    show ?thesis
    proof (cases "in_scope (now' - DAY) account types c")
      case True
      have "tested_total rows (now' - DAY) account types \<le> tested_total rows (now - DAY) account types"
        using that by (intro tested_later_le[OF ok1 types]) simp
      with True room eq show ?thesis by fastforce
    next
      case False
      then show ?thesis using eq rail that \<open>t \<le> now\<close> by (simp add: rail_ok_def)
    qed
  qed
  with ok show ?thesis by (simp add: rail_ok_def)
qed

lemma rail_append_correction:
  assumes rail: "rail_ok bound account types t rows" and types: "charge_types types" and "t \<le> now"
    and k: "\<not> is_charge k" "lr_recorded_at k = now" "\<And>a. lr_actual_cost_usd k = Some a \<Longrightarrow> 0 \<le> a"
    and less: "\<And>cutoff c. now - DAY \<le> cutoff \<Longrightarrow> c \<in> set rows \<Longrightarrow> is_charge c \<Longrightarrow>
      in_scope cutoff account types c \<Longrightarrow> lr_query_run_id k = lr_query_run_id c \<Longrightarrow>
      in_scope cutoff account [COST_RECONCILED_EVENT, COST_CHARGE_VOIDED_EVENT] k \<Longrightarrow>
      min (settle_step (lr_query_run_id c) (settled (corrections_in cutoff account rows) c) k) (charge_amount c)
        \<le> settled (corrections_in cutoff account rows) c"
  shows "rail_ok bound account types now (rows @ [k])"
proof -
  have ok: "ledger_ok now (rows @ [k])" and ok0: "ledger_ok now rows"
    using rail k \<open>t \<le> now\<close> by (auto simp: rail_ok_def intro: ledger_ok_append ledger_ok_later)
  have "tested_total (rows @ [k]) (now' - DAY) account types \<le> bound" if "now \<le> now'" for now'
  proof -
    have "tested_total (rows @ [k]) (now' - DAY) account types \<le> tested_total rows (now' - DAY) account types"
      using that less[of "now' - DAY"] by (intro tested_append_correction[OF types k(1)]) simp_all
    also have "\<dots> \<le> bound" using rail that \<open>t \<le> now\<close> by (simp add: rail_ok_def)
    finally show ?thesis .
  qed
  with ok show ?thesis by (simp add: rail_ok_def)
qed

lemma charge_row_fields [simp]:
  "is_charge (charge_row account run est live now)"
  "charge_amount (charge_row account run est live now) = est"
  "lr_recorded_at (charge_row account run est live now) = now"
  "lr_query_run_id (charge_row account run est live now) = Some run"
  "lr_actual_cost_usd (charge_row account run est live now) = None"
  by (simp_all add: charge_row_def is_charge_def charge_event_type_def ACCOUNT_CHARGE_EVENTS_def
      charge_amount_def)

lemma correction_rows_fields [simp]:
  "\<not> is_charge (reconcile_row account run est actual now)"
  "\<not> is_charge (void_row account run now)" "\<not> is_charge (mint_row account ip now)"
  "lr_recorded_at (reconcile_row account run est actual now) = now"
  "lr_recorded_at (void_row account run now) = now" "lr_recorded_at (mint_row account ip now) = now"
  "lr_query_run_id (reconcile_row account run est actual now) = Some run"
  "lr_query_run_id (void_row account run now) = Some run"
  "lr_actual_cost_usd (reconcile_row account run est actual now) = Some actual"
  "lr_actual_cost_usd (void_row account run now) = None"
  "lr_actual_cost_usd (mint_row account ip now) = None"
  by (simp_all add: reconcile_row_def void_row_def mint_row_def is_charge_def ACCOUNT_CHARGE_EVENTS_def)

lemma row_types [simp]:
  "lr_event_type (charge_row account run est live now) = charge_event_type live"
  "lr_event_type (reconcile_row account run est actual now) = COST_RECONCILED_EVENT"
  "lr_event_type (void_row account run now) = COST_CHARGE_VOIDED_EVENT"
  "lr_account_id (charge_row account run est live now) = Some account"
  "lr_account_id (reconcile_row account run est actual now) = Some account"
  "lr_account_id (void_row account run now) = Some account"
  by (simp_all add: charge_row_def reconcile_row_def void_row_def)

lemma in_scope_rows [simp]:
  "in_scope cutoff acct types (charge_row account run est live now) =
     (charge_event_type live \<in> set types \<and> (acct = None \<or> acct = Some account) \<and> cutoff \<le> now)"
  "\<not> in_scope cutoff acct types (mint_row account ip now)"
  by (auto simp: in_scope_def charge_row_def mint_row_def)

lemma insert_event_rows [simp]:
  "fs_rows (snd (insert_event lands clk row fs)) = (if lands then fs_rows fs @ [row] else fs_rows fs)"
  "fst (insert_event lands clk row fs) = lands"
  by (simp_all add: insert_event_def)

text \<open>A rail whose room is what the charge's own check tested.\<close>

lemma rail_charge_step:
  assumes rail: "rail_ok bound account types t (fs_rows fs)" and types: "charge_types types"
    and op: "ledger_op_ok max_est fs (LCharge acct run est live now lands clk)" and "t \<le> now"
    and room: "daily_spend_for fs acct now + est \<le> daily_cap \<Longrightarrow> global_daily_spend fs now < gceiling \<Longrightarrow>
      (account = None \<or> account = Some acct) \<Longrightarrow> charge_event_type live \<in> set types \<Longrightarrow>
      spend_total (fs_rows fs) (now - DAY) account types + est \<le> bound"
  shows "rail_ok bound account types now
    (fs_rows (ledger_step daily_cap gceiling fs (LCharge acct run est live now lands clk)))"
proof (cases "daily_spend_for fs acct now + est > daily_cap \<or> global_daily_spend fs now \<ge> gceiling \<or> \<not> lands")
  case True
  then show ?thesis using rail_ok_later[OF rail \<open>t \<le> now\<close>]
    by (auto simp: try_record_cost_charge_def Let_def case_prod_unfold)
next
  case False
  then have rows: "fs_rows (ledger_step daily_cap gceiling fs (LCharge acct run est live now lands clk))
      = fs_rows fs @ [charge_row acct run est live now]"
    by (simp add: try_record_cost_charge_def Let_def case_prod_unfold)
  have "rail_ok bound account types now (fs_rows fs @ [charge_row acct run est live now])"
  proof (intro rail_append_charge[OF rail types \<open>t \<le> now\<close>, where run = run])
    fix cutoff
    assume i: "in_scope cutoff account types (charge_row acct run est live now)"
    have "tested_total (fs_rows fs) (now - DAY) account types \<le> spend_total (fs_rows fs) (now - DAY) account types"
      using rail by (auto simp: rail_ok_def intro: tested_le_spend[OF _ types])
    then show "tested_total (fs_rows fs) (now - DAY) account types + charge_amount (charge_row acct run est live now) \<le> bound"
      using op False room i by fastforce
  qed (use op False in auto)
  then show ?thesis by (simp only: rows)
qed

lemma no_correction_seen:
  assumes "COST_RECONCILED_EVENT \<notin> set (run_events_seen run (now - DAY) rows)"
    and "COST_CHARGE_VOIDED_EVENT \<notin> set (run_events_seen run (now - DAY) rows)"
    and "now - DAY \<le> cutoff" and "row \<in> set (corrections_in cutoff account rows)"
  shows "lr_query_run_id row \<noteq> Some run"
  using assms by (force simp: run_events_seen_def corrections_in_def in_scope_def)

lemma rail_reconcile_step:
  assumes rail: "rail_ok bound account types t (fs_rows fs)" and types: "charge_types types"
    and op: "ledger_op_ok max_est fs (LReconcile acct run est actual now lands clk)" and "t \<le> now"
  shows "rail_ok bound account types now
    (fs_rows (ledger_step daily_cap gceiling fs (LReconcile acct run est actual now lands clk)))"
proof (cases "fst (try_record_cost_reconciliation acct run est actual now lands clk fs) \<and> lands")
  case False
  then show ?thesis using rail_ok_later[OF rail \<open>t \<le> now\<close>]
    by (auto simp: try_record_cost_reconciliation_def Let_def split: if_splits)
next
  case True
  let ?k = "reconcile_row acct run est actual now"
  have rows: "fs_rows (ledger_step daily_cap gceiling fs (LReconcile acct run est actual now lands clk))
      = fs_rows fs @ [?k]"
    and none: "COST_RECONCILED_EVENT \<notin> set (run_events_seen run (now - DAY) (fs_rows fs))"
      "COST_CHARGE_VOIDED_EVENT \<notin> set (run_events_seen run (now - DAY) (fs_rows fs))"
    using True by (auto simp: try_record_cost_reconciliation_def Let_def split: if_splits)
  have "min (settle_step (lr_query_run_id c) (settled (corrections_in cutoff account (fs_rows fs)) c) ?k) (charge_amount c)
      \<le> settled (corrections_in cutoff account (fs_rows fs)) c"
    if "now - DAY \<le> cutoff" "c \<in> set (fs_rows fs)" "is_charge c" "lr_query_run_id ?k = lr_query_run_id c"
    for cutoff c
  proof -
    have "settled (corrections_in cutoff account (fs_rows fs)) c = charge_amount c"
      unfolding settled_def using no_correction_seen[OF none that(1)] that(4)
      by (intro settle_fold_idle) auto
    then show ?thesis by simp
  qed
  then have "rail_ok bound account types now (fs_rows fs @ [?k])"
    using op by (intro rail_append_correction[OF rail types \<open>t \<le> now\<close>]) auto
  then show ?thesis by (simp only: rows)
qed

lemma rail_void_step:
  assumes rail: "rail_ok bound account types t (fs_rows fs)" and types: "charge_types types" and "t \<le> now"
  shows "rail_ok bound account types now
    (fs_rows (ledger_step daily_cap gceiling fs (LVoid acct run now lands clk)))"
proof -
  have "ledger_ok t (fs_rows fs)" using rail by (simp add: rail_ok_def)
  then have "rail_ok bound account types now (fs_rows fs @ [void_row acct run now])"
    using settled_nonneg by (intro rail_append_correction[OF rail types \<open>t \<le> now\<close>])
      (auto simp: settle_step_def min_le_iff_disj)
  then show ?thesis using rail_ok_later[OF rail \<open>t \<le> now\<close>] by (simp add: void_cost_charge_def)
qed

lemma rail_mint_step:
  assumes rail: "rail_ok bound account types t (fs_rows fs)" and types: "charge_types types" and "t \<le> now"
  shows "rail_ok bound account types now
    (fs_rows (ledger_step daily_cap gceiling fs (LMint ip acct n now lands clk)))"
proof -
  have "rail_ok bound account types now (fs_rows fs @ [mint_row acct ip now])"
    by (intro rail_append_correction[OF rail types \<open>t \<le> now\<close>]) auto
  then show ?thesis using rail_ok_later[OF rail \<open>t \<le> now\<close>]
    by (simp add: try_record_session_mint_def)
qed

lemma wipe_outside_window:
  assumes "now - DAY \<le> cutoff"
  shows "filter (in_scope cutoff account types) (map (wipe_row (now - IDENTIFIER_KEEP)) rows)
    = filter (in_scope cutoff account types) rows"
proof -
  have "wipe_row (now - IDENTIFIER_KEEP) row = row" if "cutoff \<le> lr_recorded_at row" for row
    using assms that by (simp add: wipe_row_def IDENTIFIER_KEEP_def DAY_def)
  moreover have "lr_recorded_at (wipe_row (now - IDENTIFIER_KEEP) row) = lr_recorded_at row" for row
    by (simp add: wipe_row_def)
  ultimately show ?thesis by (induction rows) (auto simp: in_scope_def)
qed

lemma tested_wipe:
  "now - DAY \<le> cutoff \<Longrightarrow>
   tested_total (map (wipe_row (now - IDENTIFIER_KEEP)) rows) cutoff account types = tested_total rows cutoff account types"
  by (simp add: tested_total_def corrections_in_def wipe_outside_window)

lemma rail_step:
  assumes rail: "rail_ok bound account types t (fs_rows fs)" and types: "charge_types types"
    and op: "ledger_op_ok max_est fs x" and "t \<le> ledger_op_time x"
    and room: "\<And>acct run est live now lands clk. x = LCharge acct run est live now lands clk \<Longrightarrow>
      daily_spend_for fs acct now + est \<le> daily_cap \<Longrightarrow> global_daily_spend fs now < gceiling \<Longrightarrow>
      (account = None \<or> account = Some acct) \<Longrightarrow> charge_event_type live \<in> set types \<Longrightarrow>
      spend_total (fs_rows fs) (now - DAY) account types + est \<le> bound"
  shows "rail_ok bound account types (ledger_op_time x) (fs_rows (ledger_step daily_cap gceiling fs x))"
proof (cases x)
  case (LCharge acct run est live now lands clk)
  moreover have "rail_ok bound account types now
      (fs_rows (ledger_step daily_cap gceiling fs (LCharge acct run est live now lands clk)))"
    using op assms(4) room[OF LCharge] unfolding LCharge ledger_op_time.simps
    by (intro rail_charge_step[OF rail types])
  ultimately show ?thesis by simp
next
  case (LReconcile acct run est actual now lands clk)
  then show ?thesis using rail_reconcile_step[OF rail types] op assms(4) by simp
next
  case (LVoid acct run now lands clk)
  then show ?thesis using rail_void_step[OF rail types] assms(4) by simp
next
  case (LMint ip acct n now lands clk)
  then show ?thesis using rail_mint_step[OF rail types] assms(4) by simp
next
  case (LWipe now)
  then show ?thesis using rail_ok_later[OF rail assms(4)]
    by (auto simp: rail_ok_def wipe_expired_identifiers_def tested_wipe ledger_ok_wipe)
qed

definition ledger_run :: "usd \<Rightarrow> usd \<Rightarrow> feedback_store \<Rightarrow> ledger_op list \<Rightarrow> feedback_store" where
  "ledger_run daily_cap gceiling fs ops = foldl (ledger_step daily_cap gceiling) fs ops"

fun ledger_time :: "micros \<Rightarrow> ledger_op list \<Rightarrow> micros" where
  "ledger_time t [] = t"
| "ledger_time t (x # xs) = ledger_time (ledger_op_time x) xs"

definition new_feedback_store :: feedback_store where
  "new_feedback_store = \<lparr>fs_rows = [], fs_lost_billed_writes = 0, fs_last_write_success_at = None,
     fs_last_write_failure_at = None, fs_live_charge_cutover_id = 0\<rparr>"

lemma rail_run:
  assumes "rail_ok bound account types t (fs_rows fs)" and types: "charge_types types"
    and "ledger_ops_ok max_est daily_cap gceiling t fs ops"
    and room: "\<And>fs acct est now. est \<le> max_est \<Longrightarrow>
      daily_spend_for fs acct now + est \<le> daily_cap \<Longrightarrow> global_daily_spend fs now < gceiling \<Longrightarrow>
      (account = None \<or> account = Some acct) \<Longrightarrow>
      spend_total (fs_rows fs) (now - DAY) account types + est \<le> bound"
  shows "rail_ok bound account types (ledger_time t ops) (fs_rows (ledger_run daily_cap gceiling fs ops))"
  using assms(1,3)
proof (induction ops arbitrary: t fs)
  case Nil
  then show ?case by (simp add: ledger_run_def)
next
  case (Cons x ops)
  have "spend_total (fs_rows fs) (now - DAY) account types + est \<le> bound"
    if "x = LCharge acct run est live now lands clk" "daily_spend_for fs acct now + est \<le> daily_cap"
      "global_daily_spend fs now < gceiling" "account = None \<or> account = Some acct"
    for acct run est live now lands clk
    using Cons.prems(2) that by (intro room) auto
  then have "rail_ok bound account types (ledger_op_time x) (fs_rows (ledger_step daily_cap gceiling fs x))"
    using Cons.prems by (intro rail_step[OF _ types]) auto
  with Cons show ?case by (simp add: ledger_run_def)
qed

lemma rail_new: "0 \<le> bound \<Longrightarrow> rail_ok bound account types t (fs_rows new_feedback_store)"
  by (simp add: rail_ok_def ledger_ok_def tested_total_def new_feedback_store_def)

section \<open>What the meters bound\<close>

definition sample_charges :: "ledger_op list" where
  "sample_charges =
     [LCharge 1 10 (2/100) True 0 True 1,
      LCharge 1 11 (3/10) True 5 True 2,
      LCharge 1 14 (2/100) True 5 True 3,
      LCharge 1 12 (6/100) True 6 True 4,
      LVoid 1 12 8 True 5,
      LReconcile 1 10 (2/100) (10/100) 9 True 6,
      LCharge 2 13 (1/10) True 9 True 7]"

lemmas ledger_eval = sample_charges_def new_feedback_store_def ledger_run_def try_record_cost_charge_def
  daily_spend_for_def global_daily_spend_def spend_total_def charge_row_def charge_event_type_def
  insert_event_def METERED_WRITES_def event_names ACCOUNT_CHARGE_EVENTS_def LIVE_CHARGE_EVENTS_def
  in_scope_def charge_step_def correct_step_def charge_amount_def reconcile_row_def
  try_record_cost_reconciliation_def run_events_seen_def void_cost_charge_def void_row_def DAY_def
  is_charge_def

definition day_overrun :: "feedback_store \<Rightarrow> uuid option \<Rightarrow> string list \<Rightarrow> micros \<Rightarrow> usd" where
  "day_overrun fs account types now = overrun_total (fs_rows fs) (now - DAY) account types"

lemmas overrun_eval = day_overrun_def overrun_total_def settled_def settle_step_def corrections_in_def

text \<open>C1. The daily cap bounds an account's day: however charges, corrections (upward ones included), voids, mints and wipes
  interleave, what the ledger holds against an account inside the last day is at most the daily cap plus what that day's
  measured costs came to above their own estimates; with no such overrun it is within the cap. The callers owe the ledger
  fresh run ids and estimates and measured costs that are not negative.\<close>

theorem account_day_within_cap:
  assumes "0 \<le> daily_cap"
    and "ledger_ops_ok max_est daily_cap gceiling t new_feedback_store ops"
    and "ledger_time t ops \<le> now"
  shows "daily_spend_for (ledger_run daily_cap gceiling new_feedback_store ops) account now
    \<le> daily_cap + day_overrun (ledger_run daily_cap gceiling new_feedback_store ops) (Some account) ACCOUNT_CHARGE_EVENTS now"
proof -
  have "rail_ok daily_cap (Some account) ACCOUNT_CHARGE_EVENTS (ledger_time t ops)
      (fs_rows (ledger_run daily_cap gceiling new_feedback_store ops))"
    by (intro rail_run[OF rail_new _ assms(2)] assms) (auto simp: daily_spend_for_def)
  with assms(3) show ?thesis
    by (simp add: rail_ok_def daily_spend_for_def day_overrun_def spend_splits[of "ledger_time t ops"])
qed

lemma account_day_within_cap_witness:
  "daily_spend_for (ledger_run (4/10) 5 new_feedback_store sample_charges) 1 20
     \<le> 4/10 + day_overrun (ledger_run (4/10) 5 new_feedback_store sample_charges) (Some 1) ACCOUNT_CHARGE_EVENTS 20
   \<and> daily_spend_for (ledger_run (4/10) 5 new_feedback_store sample_charges) 1 20 = 42/100
   \<and> day_overrun (ledger_run (4/10) 5 new_feedback_store sample_charges) (Some 1) ACCOUNT_CHARGE_EVENTS 20 = 8/100"
proof (intro conjI)
  have "ledger_ops_ok (1/2) (4/10) 5 0 new_feedback_store sample_charges"
    by (simp add: ledger_eval keyed_runs_def)
  moreover have "ledger_time 0 sample_charges \<le> 20" by (simp add: sample_charges_def)
  ultimately show "daily_spend_for (ledger_run (4/10) 5 new_feedback_store sample_charges) 1 20
     \<le> 4/10 + day_overrun (ledger_run (4/10) 5 new_feedback_store sample_charges) (Some 1) ACCOUNT_CHARGE_EVENTS 20"
    by (intro account_day_within_cap) simp_all
  show "daily_spend_for (ledger_run (4/10) 5 new_feedback_store sample_charges) 1 20 = 42/100"
    by (simp add: ledger_eval)
  show "day_overrun (ledger_run (4/10) 5 new_feedback_store sample_charges) (Some 1) ACCOUNT_CHARGE_EVENTS 20 = 8/100"
    by (simp add: ledger_eval overrun_eval)
qed

text \<open>C5. Everyone's live spending inside the last day stays below the global ceiling, plus one run's largest estimate (the
  ceiling is tested before a charge, without the charge), plus what the day's measured costs came to above their own
  estimates.\<close>

theorem live_day_within_ceiling:
  assumes "0 \<le> gceiling + max_est"
    and "ledger_ops_ok max_est daily_cap gceiling t new_feedback_store ops"
    and "ledger_time t ops \<le> now"
  shows "global_daily_spend (ledger_run daily_cap gceiling new_feedback_store ops) now
    \<le> gceiling + max_est + day_overrun (ledger_run daily_cap gceiling new_feedback_store ops) None LIVE_CHARGE_EVENTS now"
proof -
  have "rail_ok (gceiling + max_est) None LIVE_CHARGE_EVENTS (ledger_time t ops)
      (fs_rows (ledger_run daily_cap gceiling new_feedback_store ops))"
    by (intro rail_run[OF rail_new _ assms(2)] assms) (auto simp: global_daily_spend_def)
  with assms(3) show ?thesis
    by (simp add: rail_ok_def global_daily_spend_def day_overrun_def spend_splits[of "ledger_time t ops"])
qed

lemma live_day_within_ceiling_witness:
  "global_daily_spend (ledger_run (4/10) (35/100) new_feedback_store sample_charges) 20
     \<le> 35/100 + 3/10 + day_overrun (ledger_run (4/10) (35/100) new_feedback_store sample_charges) None LIVE_CHARGE_EVENTS 20
   \<and> global_daily_spend (ledger_run (4/10) (35/100) new_feedback_store sample_charges) 20 = 42/100"
proof
  have "ledger_ops_ok (3/10) (4/10) (35/100) 0 new_feedback_store sample_charges"
    by (simp add: ledger_eval keyed_runs_def)
  moreover have "ledger_time 0 sample_charges \<le> 20" by (simp add: sample_charges_def)
  ultimately show "global_daily_spend (ledger_run (4/10) (35/100) new_feedback_store sample_charges) 20
     \<le> 35/100 + 3/10 + day_overrun (ledger_run (4/10) (35/100) new_feedback_store sample_charges) None LIVE_CHARGE_EVENTS 20"
    by (intro live_day_within_ceiling) simp_all
  show "global_daily_spend (ledger_run (4/10) (35/100) new_feedback_store sample_charges) 20 = 42/100"
    by (simp add: ledger_eval)
qed

section \<open>What a charge, a correction and a void do to the meters\<close>

lemma daily_spend_charge:
  assumes ok: "ledger_ok t (fs_rows fs)" and "t \<le> now" and fresh: "run \<notin> set (keyed_runs (fs_rows fs))"
    and "0 \<le> est" and types: "charge_types types"
  shows "spend_total (fs_rows fs @ [charge_row account run est live now]) (now - DAY) scope types =
    spend_total (fs_rows fs) (now - DAY) scope types
      + (if charge_event_type live \<in> set types \<and> (scope = None \<or> scope = Some account) then est else 0)"
proof -
  have "ledger_ok now (fs_rows fs @ [charge_row account run est live now])"
    using assms by (intro ledger_ok_append[OF ok]) auto
  moreover have "lr_query_run_id row \<noteq> Some run" if "row \<in> set (fs_rows fs)" for row
    using fresh that by (auto simp: set_keyed_runs)
  ultimately show ?thesis
    using ledger_ok_later[OF ok \<open>t \<le> now\<close>]
    by (subst spend_append_charge[OF _ types]) (auto simp: DAY_def)
qed

lemma charge_type_in [simp]:
  "charge_event_type live \<in> set ACCOUNT_CHARGE_EVENTS" "charge_event_type live \<in> set LIVE_CHARGE_EVENTS = live"
  by (auto simp: charge_event_type_def ACCOUNT_CHARGE_EVENTS_def LIVE_CHARGE_EVENTS_def)

lemma charge_delta:
  assumes "ledger_ok t (fs_rows fs)" and "t \<le> now" and "run \<notin> set (keyed_runs (fs_rows fs))" and "0 \<le> est"
    and "try_record_cost_charge account run est daily_cap gceiling live now lands clk fs = (outcome, fs')"
    and "\<And>s. fs_last_write_success_at fs = Some s \<Longrightarrow> s \<le> clk"
  shows "case outcome of
      OVER_DAILY_CAP \<Rightarrow> daily_cap < daily_spend_for fs account now + est \<and> fs' = fs
    | OVER_GLOBAL_CEILING \<Rightarrow> gceiling \<le> global_daily_spend fs now \<and> fs' = fs
    | CHARGE_RECORDED \<Rightarrow> daily_spend_for fs' account now = daily_spend_for fs account now + est
        \<and> global_daily_spend fs' now = global_daily_spend fs now + (if live then est else 0)
    | METERING_UNAVAILABLE \<Rightarrow> fs_rows fs' = fs_rows fs
        \<and> fs_lost_billed_writes fs' = Suc (fs_lost_billed_writes fs) \<and> write_health fs' = HEALTH_FAILING"
proof -
  note spend = daily_spend_charge[OF assms(1,2,3,4)]
  have metered: "(lr_recorder (charge_row account run est live now), charge_event_type live) \<in> set METERED_WRITES"
    by (simp add: METERED_WRITES_def charge_row_def charge_event_type_def)
  consider "daily_cap < daily_spend_for fs account now + est"
    | "daily_spend_for fs account now + est \<le> daily_cap" "gceiling \<le> global_daily_spend fs now"
    | "daily_spend_for fs account now + est \<le> daily_cap" "global_daily_spend fs now < gceiling" lands
    | "daily_spend_for fs account now + est \<le> daily_cap" "global_daily_spend fs now < gceiling" "\<not> lands"
    by fastforce
  then show ?thesis
  proof cases
    case 3
    then have "outcome = CHARGE_RECORDED" "fs_rows fs' = fs_rows fs @ [charge_row account run est live now]"
      using assms(5) by (auto simp: try_record_cost_charge_def Let_def insert_event_def)
    then show ?thesis
      by (simp add: daily_spend_for_def global_daily_spend_def spend)
  next
    case 4
    then show ?thesis using assms(5,6) metered
      by (auto simp: try_record_cost_charge_def Let_def insert_event_def write_health_def split: option.splits)
  qed (use assms(5) in \<open>auto simp: try_record_cost_charge_def Let_def\<close>)
qed

text \<open>Every outcome of the atomic charge: a refused charge leaves the store as it was, a recorded one
  raises the account's day by exactly the estimate and everyone's live day by the estimate when the run is
  live (not at all when it is simulated), and a charge whose write is lost raises no meter, counts one lost
  billed write and turns the write health to failing.\<close>

theorem charge_outcomes:
  assumes "ledger_ok t (fs_rows fs)" and "t \<le> now" and "run \<notin> set (keyed_runs (fs_rows fs))" and "0 \<le> est"
    and "try_record_cost_charge account run est daily_cap gceiling live now lands clk fs = (outcome, fs')"
    and "\<And>s. fs_last_write_success_at fs = Some s \<Longrightarrow> s \<le> clk"
  shows "case outcome of
      OVER_DAILY_CAP \<Rightarrow> daily_cap < daily_spend_for fs account now + est \<and> fs' = fs
    | OVER_GLOBAL_CEILING \<Rightarrow> gceiling \<le> global_daily_spend fs now \<and> fs' = fs
    | CHARGE_RECORDED \<Rightarrow> daily_spend_for fs' account now = daily_spend_for fs account now + est
        \<and> global_daily_spend fs' now = global_daily_spend fs now + (if live then est else 0)
    | METERING_UNAVAILABLE \<Rightarrow> fs_rows fs' = fs_rows fs
        \<and> fs_lost_billed_writes fs' = Suc (fs_lost_billed_writes fs) \<and> write_health fs' = HEALTH_FAILING"
  using assms by (rule charge_delta)

lemma charge_outcomes_witness:
  "try_record_cost_charge 1 10 (3/10) (4/10) 5 True 0 True 1 new_feedback_store
     = (CHARGE_RECORDED, new_feedback_store\<lparr>fs_rows := [charge_row 1 10 (3/10) True 0],
          fs_last_write_success_at := Some 1\<rparr>)
   \<and> daily_spend_for (new_feedback_store\<lparr>fs_rows := [charge_row 1 10 (3/10) True 0],
          fs_last_write_success_at := Some 1\<rparr>) 1 0 = daily_spend_for new_feedback_store 1 0 + 3/10"
proof -
  have run: "try_record_cost_charge 1 10 (3/10) (4/10) 5 True 0 True 1 new_feedback_store
     = (CHARGE_RECORDED, new_feedback_store\<lparr>fs_rows := [charge_row 1 10 (3/10) True 0],
          fs_last_write_success_at := Some 1\<rparr>)"
    by (simp add: ledger_eval)
  show ?thesis
    using run charge_outcomes[OF _ _ _ _ run, of 0] by (simp add: ledger_ok_def new_feedback_store_def)
qed

section \<open>What a correction and a void do to the meters\<close>

lemma spend_append_settles:
  assumes ok: "ledger_ok t (rows @ [k])" and ok0: "ledger_ok t rows" and types: "charge_types types"
    and c: "c \<in> set rows" "in_scope cutoff scope types c" and k: "lr_query_run_id k = lr_query_run_id c"
      "in_scope cutoff scope [COST_RECONCILED_EVENT, COST_CHARGE_VOIDED_EVENT] k"
  shows "spend_total (rows @ [k]) cutoff scope types = spend_total rows cutoff scope types
    - settled (corrections_in cutoff scope rows) c
    + settle_step (lr_query_run_id c) (settled (corrections_in cutoff scope rows) c) k"
proof -
  let ?S = "filter (in_scope cutoff scope types)"
  from c obtain xs ys where rows: "rows = xs @ c # ys" by (auto simp: in_set_conv_decomp)
  obtain r where r: "lr_query_run_id c = Some r"
    using ok0 c scope_is_charge[OF types] by (auto simp: ledger_ok_def)
  have "distinct (keyed_runs (filter is_charge rows))" using ok0 by (simp add: ledger_ok_def)
  then have other: "lr_query_run_id d \<noteq> Some r" if "d \<in> set (?S xs) \<union> set (?S ys)" for d
    using that scope_is_charge[OF types] c(2) r unfolding rows by (auto simp: set_keyed_runs)
  have corr: "corrections_in cutoff scope (rows @ [k]) = corrections_in cutoff scope rows @ [k]"
    using k by (simp add: corrections_in_def)
  have same: "settled (corrections_in cutoff scope rows @ [k]) d = settled (corrections_in cutoff scope rows) d"
    if "d \<in> set (?S xs) \<union> set (?S ys)" for d
    using other[OF that] k r by (auto simp: settled_def settle_step_def)
  have "sum_list (map (settled (corrections_in cutoff scope rows @ [k])) (?S zs))
      = sum_list (map (settled (corrections_in cutoff scope rows)) (?S zs))" if "zs = xs \<or> zs = ys" for zs
    by (rule arg_cong[of _ _ sum_list], rule map_cong) (use same that in auto)
  then have "sum_list (map (settled (corrections_in cutoff scope rows @ [k])) (?S xs))
      = sum_list (map (settled (corrections_in cutoff scope rows)) (?S xs))"
    "sum_list (map (settled (corrections_in cutoff scope rows @ [k])) (?S ys))
      = sum_list (map (settled (corrections_in cutoff scope rows)) (?S ys))"
    by blast+
  moreover have "\<not> in_scope cutoff scope types k"
    using k(2) correction_not_charge scope_is_charge[OF types] by blast
  moreover have "settled (corrections_in cutoff scope rows @ [k]) c
      = settle_step (lr_query_run_id c) (settled (corrections_in cutoff scope rows) c) k"
    by (simp add: settled_def)
  moreover have "?S rows = ?S xs @ c # ?S ys" using c(2) by (simp add: rows)
  ultimately show ?thesis
    unfolding spend_total_ok[OF ok types] spend_total_ok[OF ok0 types] corr by simp
qed

lemma correction_scope [simp]:
  "in_scope cutoff scope [COST_RECONCILED_EVENT, COST_CHARGE_VOIDED_EVENT] (reconcile_row account run est actual now)
     = ((scope = None \<or> scope = Some account) \<and> cutoff \<le> now)"
  "in_scope cutoff scope [COST_RECONCILED_EVENT, COST_CHARGE_VOIDED_EVENT] (void_row account run now)
     = ((scope = None \<or> scope = Some account) \<and> cutoff \<le> now)"
  by (auto simp: in_scope_def reconcile_row_def void_row_def)

lemma no_correction_settled:
  assumes "COST_RECONCILED_EVENT \<notin> set (run_events_seen run (now - DAY) rows)"
    and "COST_CHARGE_VOIDED_EVENT \<notin> set (run_events_seen run (now - DAY) rows)"
    and "lr_query_run_id c = Some run"
  shows "settled (corrections_in (now - DAY) scope rows) c = charge_amount c"
  unfolding settled_def using no_correction_seen[OF assms(1,2) order_refl] assms(3)
  by (intro settle_fold_idle) auto

lemma reconcile_delta:
  assumes "ledger_ok t (fs_rows fs)" and "t \<le> now" and "0 \<le> actual"
    and "charge_row account run est True stamp \<in> set (fs_rows fs)" and "now - DAY \<le> stamp"
    and "try_record_cost_reconciliation account run est actual now True clk fs = (True, fs')"
  shows "daily_spend_for fs' account now = daily_spend_for fs account now - est + actual
    \<and> global_daily_spend fs' now = global_daily_spend fs now - est + actual
    \<and> try_record_cost_reconciliation account run est other now lands clk' fs' = (False, fs')"
proof -
  let ?c = "charge_row account run est True stamp" and ?k = "reconcile_row account run est actual now"
  have rows: "fs_rows fs' = fs_rows fs @ [?k]"
    and none: "COST_RECONCILED_EVENT \<notin> set (run_events_seen run (now - DAY) (fs_rows fs))"
      "COST_CHARGE_VOIDED_EVENT \<notin> set (run_events_seen run (now - DAY) (fs_rows fs))"
    using assms(6) by (auto simp: try_record_cost_reconciliation_def Let_def insert_event_def split: if_splits)
  have ok: "ledger_ok now (fs_rows fs @ [?k])" "ledger_ok now (fs_rows fs)"
    using assms by (auto intro: ledger_ok_append ledger_ok_later)
  have "spend_total (fs_rows fs @ [?k]) (now - DAY) scope types
      = spend_total (fs_rows fs) (now - DAY) scope types - est + actual"
    if "charge_types types" "charge_event_type True \<in> set types" "scope = None \<or> scope = Some account" for scope types
    using that assms(5) none
    by (subst spend_append_settles[OF ok that(1) assms(4)])
      (auto simp: no_correction_settled settle_step_def)
  moreover have "COST_RECONCILED_EVENT \<in> set (run_events_seen run (now - DAY) (fs_rows fs'))"
    by (simp add: rows run_events_seen_def in_scope_def reconcile_row_def DAY_def)
  ultimately show ?thesis
    by (simp add: daily_spend_for_def global_daily_spend_def rows try_record_cost_reconciliation_def Let_def)
qed

text \<open>A reconciliation replaces a live charge of the last day by its measured cost, on the account's
  meter and on everyone's, whatever else the ledger holds; and at most one correction counts: a second
  reconciliation of the run is refused and leaves the ledger as it is.\<close>

theorem reconciliation_replaces_estimate:
  assumes "ledger_ok t (fs_rows fs)" and "t \<le> now" and "0 \<le> actual"
    and "charge_row account run est True stamp \<in> set (fs_rows fs)" and "now - DAY \<le> stamp"
    and "try_record_cost_reconciliation account run est actual now True clk fs = (True, fs')"
  shows "daily_spend_for fs' account now = daily_spend_for fs account now - est + actual
    \<and> global_daily_spend fs' now = global_daily_spend fs now - est + actual
    \<and> try_record_cost_reconciliation account run est other now lands clk' fs' = (False, fs')"
  using assms by (rule reconcile_delta)

lemma reconciliation_replaces_estimate_witness:
  "daily_spend_for (new_feedback_store\<lparr>fs_rows := [charge_row 1 10 (3/10) True 0, reconcile_row 1 10 (3/10) (1/10) 5],
      fs_last_write_success_at := Some 2\<rparr>) 1 5
   = daily_spend_for (new_feedback_store\<lparr>fs_rows := [charge_row 1 10 (3/10) True 0]\<rparr>) 1 5 - 3/10 + 1/10"
proof -
  let ?fs = "new_feedback_store\<lparr>fs_rows := [charge_row 1 10 (3/10) True 0]\<rparr>"
  have "ledger_ok 0 (fs_rows ?fs)" by (simp add: ledger_ok_def)
  moreover have "try_record_cost_reconciliation 1 10 (3/10) (1/10) 5 True 2 ?fs
      = (True, new_feedback_store\<lparr>fs_rows := [charge_row 1 10 (3/10) True 0, reconcile_row 1 10 (3/10) (1/10) 5],
          fs_last_write_success_at := Some 2\<rparr>)"
    by (simp add: ledger_eval)
  ultimately show ?thesis
    using reconciliation_replaces_estimate[of 0 ?fs 5 "1/10" 1 10 "3/10" 0] by (simp add: DAY_def)
qed

lemma void_delta:
  assumes "ledger_ok t (fs_rows fs)" and "t \<le> now"
    and "charge_row account run est live stamp \<in> set (fs_rows fs)" and "now - DAY \<le> stamp"
    and "COST_RECONCILED_EVENT \<notin> set (run_events_seen run (now - DAY) (fs_rows fs))"
    and "COST_CHARGE_VOIDED_EVENT \<notin> set (run_events_seen run (now - DAY) (fs_rows fs))"
  shows "daily_spend_for (void_cost_charge account run now True clk fs) account now
      = daily_spend_for fs account now - est
    \<and> fst (try_record_cost_reconciliation account run est actual now lands clk'
        (void_cost_charge account run now True clk fs)) = False"
proof -
  let ?c = "charge_row account run est live stamp" and ?k = "void_row account run now"
  have rows: "fs_rows (void_cost_charge account run now True clk fs) = fs_rows fs @ [?k]"
    by (simp add: void_cost_charge_def)
  have ok: "ledger_ok now (fs_rows fs @ [?k])" "ledger_ok now (fs_rows fs)"
    using assms by (auto intro: ledger_ok_append ledger_ok_later)
  have "spend_total (fs_rows fs @ [?k]) (now - DAY) (Some account) ACCOUNT_CHARGE_EVENTS
      = spend_total (fs_rows fs) (now - DAY) (Some account) ACCOUNT_CHARGE_EVENTS - est"
    using assms(4,5,6)
    by (subst spend_append_settles[OF ok _ assms(3)])
      (auto simp: no_correction_settled settle_step_def)
  moreover have "COST_CHARGE_VOIDED_EVENT \<in> set (run_events_seen run (now - DAY) (fs_rows fs @ [?k]))"
    by (simp add: run_events_seen_def in_scope_def void_row_def DAY_def)
  ultimately show ?thesis
    by (auto simp: daily_spend_for_def rows try_record_cost_reconciliation_def Let_def)
qed

text \<open>Voiding a run's charge takes exactly what it counts for off its account's meter, and a void is
  final: no later reconciliation of the run in the same window is accepted.\<close>

theorem void_takes_charge_back:
  assumes "ledger_ok t (fs_rows fs)" and "t \<le> now"
    and "charge_row account run est live stamp \<in> set (fs_rows fs)" and "now - DAY \<le> stamp"
    and "COST_RECONCILED_EVENT \<notin> set (run_events_seen run (now - DAY) (fs_rows fs))"
    and "COST_CHARGE_VOIDED_EVENT \<notin> set (run_events_seen run (now - DAY) (fs_rows fs))"
  shows "daily_spend_for (void_cost_charge account run now True clk fs) account now
      = daily_spend_for fs account now - est
    \<and> fst (try_record_cost_reconciliation account run est actual now lands clk'
        (void_cost_charge account run now True clk fs)) = False"
  using assms by (rule void_delta)

lemma void_takes_charge_back_witness:
  "daily_spend_for (void_cost_charge 1 10 7 True 2
      (new_feedback_store\<lparr>fs_rows := [charge_row 1 10 (3/10) True 0]\<rparr>)) 1 7
   = daily_spend_for (new_feedback_store\<lparr>fs_rows := [charge_row 1 10 (3/10) True 0]\<rparr>) 1 7 - 3/10"
proof -
  let ?fs = "new_feedback_store\<lparr>fs_rows := [charge_row 1 10 (3/10) True 0]\<rparr>"
  have "ledger_ok 0 (fs_rows ?fs)" by (simp add: ledger_ok_def)
  then show ?thesis
    using void_takes_charge_back[of 0 ?fs 7 1 10 "3/10" True 0]
    by (simp add: run_events_seen_def DAY_def in_scope_def charge_event_type_def)
qed

text \<open>A reconciliation whose write is lost still reports that it was written: the ledger keeps the
  estimate, so the caller goes on to correct the in-process ring alone and the two rails disagree.\<close>

theorem lost_reconciliation_reported_written:
  "let (written, fs) = try_record_cost_reconciliation 1 10 (3/10) (1/10) 5 False 2
      (new_feedback_store\<lparr>fs_rows := [charge_row 1 10 (3/10) True 0]\<rparr>)
   in written \<and> fs_rows fs = [charge_row 1 10 (3/10) True 0] \<and> daily_spend_for fs 1 5 = 3/10"
  by (simp add: ledger_eval)

section \<open>Session mints\<close>

lemma sorted_window:
  "sorted (L :: micros list) \<Longrightarrow> 0 < k \<Longrightarrow> k \<le> length L \<Longrightarrow>
   k \<le> length (filter (\<lambda>x. cutoff \<le> x) L) \<longleftrightarrow> cutoff \<le> L ! (length L - k)"
proof (induction L)
  case (Cons x L)
  show ?case
  proof (cases "k \<le> length L")
    case True
    then have nth: "(x # L) ! (length (x # L) - k) = L ! (length L - k)"
      by (simp add: Suc_diff_le)
    show ?thesis
    proof (cases "cutoff \<le> x")
      case True
      then have "filter (\<lambda>x. cutoff \<le> x) L = L" using Cons.prems by (auto simp: filter_id_conv)
      moreover have "L ! (length L - k) \<in> set L" using Cons.prems \<open>k \<le> length L\<close> by auto
      then have "cutoff \<le> L ! (length L - k)" using Cons.prems True by auto
      ultimately show ?thesis using True \<open>k \<le> length L\<close> by (simp add: nth)
    next
      case False
      then show ?thesis using Cons \<open>k \<le> length L\<close> nth by simp
    qed
  next
    case False
    with Cons.prems have k: "k = Suc (length L)" by simp
    show ?thesis
    proof (cases "cutoff \<le> x")
      case True
      then have "filter (\<lambda>x. cutoff \<le> x) L = L" using Cons.prems by (auto simp: filter_id_conv)
      with True k show ?thesis by simp
    next
      case False
      have "length (filter (\<lambda>x. cutoff \<le> x) L) \<le> length L" by simp
      with False k show ?thesis by (simp add: not_less_eq_eq)
    qed
  qed
qed simp

lemma mints_later:
  "cutoff \<le> cutoff' \<Longrightarrow> mints_of ip cutoff' rows = filter (\<lambda>row. cutoff' \<le> lr_recorded_at row) (mints_of ip cutoff rows)"
  by (auto simp: mints_of_def intro!: filter_cong)

lemma length_filter_stamps:
  "length (filter (\<lambda>row. c \<le> lr_recorded_at row) rows) = length (filter (\<lambda>x. c \<le> x) (sort (map lr_recorded_at rows)))"
proof -
  have "length (filter (\<lambda>x. c \<le> x) (sort (map lr_recorded_at rows))) = length (filter (\<lambda>x. c \<le> x) (map lr_recorded_at rows))"
    using mset_filter mset_sort by (metis size_mset)
  then show ?thesis by (simp add: filter_map o_def)
qed

text \<open>A refused visitor at a later moment, if nothing more is minted.\<close>

lemma mint_granted_later:
  assumes "now \<le> later" and "0 < cap" and "cap \<le> length (mints_of ip (now - DAY) (fs_rows fs))"
  shows "fst (try_record_session_mint ip account cap later lands clk fs) \<longleftrightarrow>
    sort (map lr_recorded_at (mints_of ip (now - DAY) (fs_rows fs)))
      ! (length (mints_of ip (now - DAY) (fs_rows fs)) - cap) + DAY < later"
proof -
  let ?m = "mints_of ip (now - DAY) (fs_rows fs)"
  let ?L = "sort (map lr_recorded_at ?m)"
  have "length (mints_of ip (later - DAY) (fs_rows fs)) = length (filter (\<lambda>x. later - DAY \<le> x) ?L)"
    using assms(1) by (subst mints_later[of "now - DAY"]) (simp_all add: length_filter_stamps)
  moreover have "cap \<le> length (filter (\<lambda>x. later - DAY \<le> x) ?L) \<longleftrightarrow> later - DAY \<le> ?L ! (length ?L - cap)"
    using assms by (intro sorted_window) simp_all
  ultimately show ?thesis by (auto simp: try_record_session_mint_def)
qed

text \<open>The wait a refused visitor is told is never late and at most one second early: when nothing
  more is minted from the address, a mint more than one second after the advertised wait is granted.\<close>

theorem advertised_mint_wait:
  assumes "0 < cap" and "cap \<le> length (mints_of ip (now - DAY) (fs_rows fs))"
    and "seconds_until_a_session_mint_frees True ip cap now fs = Some wait"
    and "now + wait * 1000000 + 1000000 \<le> later"
  shows "fst (try_record_session_mint ip account cap later lands clk fs)"
proof -
  let ?m = "mints_of ip (now - DAY) (fs_rows fs)"
  let ?d = "sort (map lr_recorded_at ?m) ! (length ?m - cap) + DAY - now"
  have "sort (map lr_recorded_at ?m) ! (length ?m - cap) \<in> set (sort (map lr_recorded_at ?m))"
    using assms(1,2) by (intro nth_mem) simp
  then have nonneg: "0 \<le> ?d" by (auto simp: mints_of_def)
  have "wait = max (sgn ?d * (\<bar>?d\<bar> div 1000000)) 1"
    using assms(1-3) by (auto simp: seconds_until_a_session_mint_frees_def Let_def split: if_splits)
  then have "wait = max (?d div 1000000) 1" using nonneg by (auto simp: sgn_if)
  then have "?d < wait * 1000000 + 1000000" and "1 \<le> wait" by auto
  with assms show ?thesis by (subst mint_granted_later[where now = now]) auto
qed

definition sample_mints :: feedback_store where
  "sample_mints = new_feedback_store\<lparr>fs_rows := [mint_row 1 ''9.9.9.9'' 0, mint_row 2 ''9.9.9.9'' 2500000]\<rparr>"

lemmas mint_eval = sample_mints_def new_feedback_store_def mint_row_def mints_of_def DAY_def
  seconds_until_a_session_mint_frees_def try_record_session_mint_def insert_event_def

lemma advertised_mint_wait_witness:
  "seconds_until_a_session_mint_frees True ''9.9.9.9'' 2 3000000 sample_mints = Some 86397
   \<and> fst (try_record_session_mint ''9.9.9.9'' 3 2 86401000000 True 0 sample_mints)"
proof -
  have wait: "seconds_until_a_session_mint_frees True ''9.9.9.9'' 2 3000000 sample_mints = Some 86397"
    by (simp add: mint_eval)
  have "2 \<le> length (mints_of ''9.9.9.9'' (3000000 - DAY) (fs_rows sample_mints))" by (simp add: mint_eval)
  then show ?thesis
    using wait advertised_mint_wait[OF _ _ wait, of 86401000000 3 True 0] by simp
qed

text \<open>Coming back at exactly the moment advertised is refused again whenever that moment is a whole
  number of seconds away: the window still includes the deciding mint.\<close>

theorem advertised_mint_moment_refused:
  "seconds_until_a_session_mint_frees True ''9.9.9.9'' 2 3000000 sample_mints = Some 86397
   \<and> \<not> fst (try_record_session_mint ''9.9.9.9'' 3 2 (3000000 + 86397 * 1000000) True 0 sample_mints)"
  by (simp add: mint_eval)

definition mints_within :: "string \<Rightarrow> nat \<Rightarrow> micros \<Rightarrow> ledger_row list \<Rightarrow> bool" where
  "mints_within ip cap t rows =
     ((\<forall>row \<in> set rows. lr_recorded_at row \<le> t) \<and> (\<forall>now \<ge> t. length (mints_of ip (now - DAY) rows) \<le> cap))"

lemma length_mints_later: "cutoff \<le> cutoff' \<Longrightarrow> length (mints_of ip cutoff' rows) \<le> length (mints_of ip cutoff rows)"
  by (simp add: mints_later)

lemma mints_of_append: "mints_of ip cutoff (rows @ [row]) = mints_of ip cutoff rows @ mints_of ip cutoff [row]"
  by (simp add: mints_of_def)

lemma mints_of_cost [simp]:
  "mints_of ip cutoff [charge_row account run est live now] = []"
  "mints_of ip cutoff [reconcile_row account run est actual now] = []"
  "mints_of ip cutoff [void_row account run now] = []"
  by (simp_all add: mints_of_def charge_row_def reconcile_row_def void_row_def)

lemma mints_of_mint: "length (mints_of ip cutoff [mint_row account ip' now]) \<le> Suc 0"
  "mints_of ip cutoff [mint_row account ip' now] \<noteq> [] \<Longrightarrow> ip' = ip"
  by (auto simp: mints_of_def mint_row_def split: if_splits)

lemma mints_wipe:
  assumes "now - DAY \<le> cutoff"
  shows "mints_of ip cutoff (map (wipe_row (now - IDENTIFIER_KEEP)) rows) = mints_of ip cutoff rows"
proof -
  have "wipe_row (now - IDENTIFIER_KEEP) row = row" if "cutoff \<le> lr_recorded_at row" for row
    using assms that by (simp add: wipe_row_def IDENTIFIER_KEEP_def DAY_def)
  moreover have "lr_recorded_at (wipe_row (now - IDENTIFIER_KEEP) row) = lr_recorded_at row" for row
    by (simp add: wipe_row_def)
  ultimately show ?thesis by (induction rows) (auto simp: mints_of_def)
qed

fun mint_cap_ok :: "string \<Rightarrow> nat \<Rightarrow> ledger_op \<Rightarrow> bool" where
  "mint_cap_ok ip cap (LMint ip' account n now lands clk) = (ip' = ip \<longrightarrow> n \<le> cap)"
| "mint_cap_ok ip cap _ = True"

fun op_times_rise :: "micros \<Rightarrow> ledger_op list \<Rightarrow> bool" where
  "op_times_rise t [] = True"
| "op_times_rise t (x # xs) = (t \<le> ledger_op_time x \<and> op_times_rise (ledger_op_time x) xs)"

lemma mints_within_append:
  assumes "mints_within ip cap t rows" and "t \<le> now" and "lr_recorded_at row = now"
    and "mints_of ip (now - DAY) [row] \<noteq> [] \<Longrightarrow> length (mints_of ip (now - DAY) rows) < cap"
    and "\<And>cutoff. length (mints_of ip cutoff [row]) \<le> 1"
  shows "mints_within ip cap now (rows @ [row])"
proof -
  have "length (mints_of ip (later - DAY) (rows @ [row])) \<le> cap" if "now \<le> later" for later
  proof (cases "mints_of ip (later - DAY) [row] = []")
    case True
    then show ?thesis using assms(1,2) that by (simp add: mints_of_append mints_within_def)
  next
    case False
    then have "mints_of ip (now - DAY) [row] \<noteq> []"
      using that by (auto simp: mints_of_def split: if_splits)
    then show ?thesis
      using assms(4) assms(5)[of "later - DAY"] that length_mints_later[of "now - DAY" "later - DAY" ip rows]
      by (simp add: mints_of_append)
  qed
  then show ?thesis using assms(1-3) by (auto simp: mints_within_def)
qed

lemma mints_within_later: "mints_within ip cap t rows \<Longrightarrow> t \<le> t' \<Longrightarrow> mints_within ip cap t' rows"
  by (auto simp: mints_within_def)

lemma mints_step:
  assumes within: "mints_within ip cap t (fs_rows fs)" and "t \<le> ledger_op_time x" and "mint_cap_ok ip cap x"
  shows "mints_within ip cap (ledger_op_time x) (fs_rows (ledger_step daily_cap gceiling fs x))"
proof (cases x)
  case (LWipe now)
  then show ?thesis using mints_within_later[OF assms(1,2)]
    by (auto simp: mints_within_def wipe_expired_identifiers_def mints_wipe) (simp add: wipe_row_def)
next
  case (LMint ip' account n now lands clk)
  then have "mints_within ip cap now (fs_rows fs @ [mint_row account ip' now])"
    if "length (mints_of ip' (now - DAY) (fs_rows fs)) < n"
    using assms that by (intro mints_within_append[OF within]) (auto dest!: mints_of_mint(2) simp: mints_of_mint(1))
  then show ?thesis using LMint mints_within_later[OF assms(1,2)]
    by (auto simp: try_record_session_mint_def)
qed (use assms mints_within_later[OF assms(1,2)] in
  \<open>auto simp: try_record_cost_charge_def try_record_cost_reconciliation_def void_cost_charge_def Let_def
     case_prod_unfold intro!: mints_within_append[OF within]\<close>)

text \<open>No address holds more minted sessions inside a day than its cap, whatever else is written to the
  ledger meanwhile, the identifier wipe included.\<close>

theorem mints_per_address_capped:
  assumes "op_times_rise t ops" and "list_all (mint_cap_ok ip cap) ops" and "ledger_time t ops \<le> now"
  shows "session_mint_count_for_ip (ledger_run daily_cap gceiling new_feedback_store ops) ip now \<le> cap"
proof -
  have run: "mints_within ip cap (ledger_time t ops) (fs_rows (ledger_run daily_cap gceiling fs ops))"
    if "mints_within ip cap t (fs_rows fs)" for fs
    using assms(1,2) that
    by (induction ops arbitrary: t fs) (auto simp: ledger_run_def intro: mints_step)
  have "mints_within ip cap t (fs_rows new_feedback_store)"
    by (simp add: mints_within_def mints_of_def new_feedback_store_def)
  from run[OF this] assms(3) show ?thesis by (simp add: mints_within_def session_mint_count_for_ip_def)
qed

lemma mints_per_address_capped_witness:
  "session_mint_count_for_ip (ledger_run 0 0 new_feedback_store
     [LMint ''9.9.9.9'' 1 1 0 True 0, LWipe 3, LMint ''9.9.9.9'' 2 1 5 True 0]) ''9.9.9.9'' 6 \<le> 1"
  by (rule mints_per_address_capped[where t = 0]) simp_all

end
