(* ===== verification/Pricing.thy ===== *)
theory Pricing
  imports Domain
begin

text \<open>
  The price model of \<^verbatim>\<open>src/product_app/costs.py\<close>: the per-call token arithmetic
  (\<open>cost_components\<close>), the displayed estimate and its two partitions
  (\<open>estimate_breakdown\<close>, \<open>quick_breakdown\<close>), the worst-case bound the guardrail compares
  (\<open>estimate_bound_usd\<close>), the apportioning of cents to lines (\<open>reconcile_usd_lines\<close>) and the
  breakdown of a measured cost (\<open>build_measured_breakdown\<close>). \<^verbatim>\<open>Decimal\<close> is exact here: its
  28 digits are far more than these sums need. The settings, the catalog's prices and names and the
  lengths of the prompt constants are the fields of \<open>pricing_config\<close>.
\<close>

section \<open>Decimal rounding\<close>

definition COST_DISPLAY_QUANTUM :: usd where "COST_DISPLAY_QUANTUM = 1 / 10000"

text \<open>\<^verbatim>\<open>ROUND_HALF_UP\<close> rounds halves away from zero.\<close>

definition round_half_up :: "rat \<Rightarrow> int" where
  "round_half_up x = (if x < 0 then - \<lfloor>- x + 1 / 2\<rfloor> else \<lfloor>x + 1 / 2\<rfloor>)"

definition quantize_half_up :: "usd \<Rightarrow> usd" where
  "quantize_half_up x = of_int (round_half_up (x / COST_DISPLAY_QUANTUM)) * COST_DISPLAY_QUANTUM"

definition quantize_floor :: "usd \<Rightarrow> usd" where
  "quantize_floor x = of_int \<lfloor>x / COST_DISPLAY_QUANTUM\<rfloor> * COST_DISPLAY_QUANTUM"

definition quantize_ceiling :: "usd \<Rightarrow> usd" where
  "quantize_ceiling x = of_int \<lceil>x / COST_DISPLAY_QUANTUM\<rceil> * COST_DISPLAY_QUANTUM"

text \<open>The default context's \<^verbatim>\<open>ROUND_HALF_EVEN\<close>.\<close>

definition quantize_half_even :: "usd \<Rightarrow> usd" where
  "quantize_half_even x =
     (let y = x / COST_DISPLAY_QUANTUM; f = \<lfloor>y\<rfloor>; d = y - of_int f
      in of_int (if d < 1 / 2 \<or> d = 1 / 2 \<and> even f then f else f + 1) * COST_DISPLAY_QUANTUM)"

section \<open>Apportioning cents to lines\<close>

datatype price_error = ValueError string

definition bump :: "int \<Rightarrow> int list \<Rightarrow> nat \<Rightarrow> int list" where
  "bump d steps i = steps[i := steps ! i + d]"

text \<open>The sort is stable on ascending indices, which is the source's tie-break on the index.\<close>

definition reconcile_usd_lines :: "usd list \<Rightarrow> usd \<Rightarrow> price_error + usd list" where
  "reconcile_usd_lines raw whole =
     (if raw = [] then
        (if whole \<noteq> 0 then Inl (ValueError ''cannot reconcile an empty line list to non-zero total'')
         else Inr [])
      else
        let quantum = COST_DISPLAY_QUANTUM;
            floor_steps = map (\<lambda>v. \<lfloor>v / quantum\<rfloor>) raw;
            remainders = map2 (\<lambda>v fs. v / quantum - of_int fs) raw floor_steps;
            residual = whole - sum_list (map (\<lambda>fs. of_int fs * quantum) floor_steps);
            residual_steps = round_half_up (residual / quantum)
        in if residual_steps > 0 then
             let order = sort_key (\<lambda>i. - remainders ! i) [0..<length floor_steps]
             in Inr (map (\<lambda>s. of_int s * quantum)
                      (foldl (bump 1) floor_steps (take (nat residual_steps) order)))
           else if residual_steps < 0 then
             let order = sort_key (\<lambda>i. remainders ! i) (filter (\<lambda>i. floor_steps ! i > 0) [0..<length floor_steps]);
                 needed = nat (- residual_steps)
             in if needed > length order
                then Inl (ValueError ''cannot reconcile lines without driving a line negative'')
                else Inr (map (\<lambda>s. of_int s * quantum) (foldl (bump (- 1)) floor_steps (take needed order)))
           else Inr (map (\<lambda>s. of_int s * quantum) floor_steps))"

lemma length_bump [simp]: "length (bump d steps i) = length steps"
  by (simp add: bump_def)

lemma length_bumps [simp]: "length (foldl (bump d) steps is) = length steps"
  by (induction "is" arbitrary: steps) simp_all

lemma bumps_nth:
  assumes "distinct is" and "set is \<subseteq> {..<length steps}" and "j < length steps"
  shows "foldl (bump d) steps is ! j = steps ! j + (if j \<in> set is then d else 0)"
  using assms
proof (induction "is" arbitrary: steps)
  case (Cons i "is")
  then have "foldl (bump d) (bump d steps i) is ! j
      = bump d steps i ! j + (if j \<in> set is then d else 0)"
    by (intro Cons.IH) auto
  moreover have "bump d steps i ! j = steps ! j + (if j = i then d else 0)"
    using Cons.prems by (auto simp: bump_def)
  ultimately show ?case using Cons.prems by auto
qed simp

lemma sum_bump: "i < length steps \<Longrightarrow> sum_list (bump d steps i) = sum_list steps + d"
  unfolding bump_def by (induction steps arbitrary: i) (auto split: nat.split)

lemma sum_bumps:
  "set is \<subseteq> {..<length steps} \<Longrightarrow> sum_list (foldl (bump d) steps is) = sum_list steps + int (length is) * d"
  by (induction "is" arbitrary: steps) (simp_all add: sum_bump algebra_simps)

definition cents :: "usd \<Rightarrow> bool" where
  "cents x = (\<exists>n. x = of_int n * COST_DISPLAY_QUANTUM)"

lemma quantum_pos [simp]:
  "0 < COST_DISPLAY_QUANTUM" "0 \<le> COST_DISPLAY_QUANTUM" "COST_DISPLAY_QUANTUM \<noteq> 0"
  by (simp_all add: COST_DISPLAY_QUANTUM_def)

lemma cents_quantize [simp]: "cents (quantize_half_up x)"
  by (auto simp: cents_def quantize_half_up_def)

lemma round_half_up_of_int [simp]: "round_half_up (of_int n) = n"
proof -
  have "\<lfloor>(of_int k :: rat) + 1 / 2\<rfloor> = k" for k by linarith
  from this[of n] this[of "- n"] show ?thesis by (simp add: round_half_up_def)
qed

lemma sum_list_of_int: "sum_list (map (\<lambda>s. of_int s * c) xs) = of_int (sum_list xs) * (c :: rat)"
  by (induction xs) (simp_all add: algebra_simps)

text \<open>The result when the total is whole cents: a list of whole-cent lines.\<close>

lemma reconcile_steps:
  fixes raw :: "usd list"
  defines "fl \<equiv> map (\<lambda>v. \<lfloor>v / COST_DISPLAY_QUANTUM\<rfloor>) raw"
  assumes "raw \<noteq> []" and "whole = of_int m * COST_DISPLAY_QUANTUM"
    and le: "sum_list fl \<le> m" and room: "m \<le> sum_list fl + int (length raw)"
  shows "\<exists>is. distinct is \<and> set is \<subseteq> {..<length raw} \<and> int (length is) = m - sum_list fl
    \<and> reconcile_usd_lines raw whole = Inr (map (\<lambda>s. of_int s * COST_DISPLAY_QUANTUM) (foldl (bump 1) fl is))"
proof -
  let ?rem = "map2 (\<lambda>v fs. v / COST_DISPLAY_QUANTUM - of_int fs) raw fl"
  let ?order = "sort_key (\<lambda>i. - ?rem ! i) [0..<length fl]"
  have "(whole - sum_list (map (\<lambda>fs. of_int fs * COST_DISPLAY_QUANTUM) fl)) / COST_DISPLAY_QUANTUM
      = of_int (m - sum_list fl)"
    by (simp add: assms(3) sum_list_of_int flip: left_diff_distrib)
  then have res: "round_half_up ((whole - sum_list (map (\<lambda>fs. of_int fs * COST_DISPLAY_QUANTUM) fl))
      / COST_DISPLAY_QUANTUM) = m - sum_list fl"
    by (simp only: round_half_up_of_int)
  show ?thesis
  proof (cases "m = sum_list fl")
    case True
    then show ?thesis using assms(2) res
      by (intro exI[of _ "[]"]) (simp add: reconcile_usd_lines_def fl_def Let_def)
  next
    case False
    with le have "0 < m - sum_list fl" by simp
    then have "reconcile_usd_lines raw whole = Inr (map (\<lambda>s. of_int s * COST_DISPLAY_QUANTUM)
        (foldl (bump 1) fl (take (nat (m - sum_list fl)) ?order)))"
      using assms(2) res unfolding reconcile_usd_lines_def Let_def fl_def by simp
    moreover have "set (take k ?order) \<subseteq> {..<length raw}" for k
      by (rule subset_trans[OF set_take_subset]) (auto simp: fl_def)
    moreover have "int (length (take (nat (m - sum_list fl)) ?order)) = m - sum_list fl"
      using room le by (simp add: fl_def)
    moreover have "distinct (take k ?order)" for k by (intro distinct_take) simp
    ultimately show ?thesis by blast
  qed
qed

lemma floor_sum_le: "of_int (sum_list (map (\<lambda>v. \<lfloor>v / q\<rfloor>) raw)) \<le> sum_list raw / (q :: rat)"
proof (induction raw)
  case (Cons v raw)
  have "of_int \<lfloor>v / q\<rfloor> \<le> v / q" by (rule of_int_floor_le)
  with Cons show ?case by (simp add: add_divide_distrib add_mono del: of_int_floor_le)
qed simp

lemma floor_sum_room: "raw \<noteq> [] \<Longrightarrow> sum_list raw / (q :: rat) < of_int (sum_list (map (\<lambda>v. \<lfloor>v / q\<rfloor>) raw)) + of_nat (length raw)"
proof (induction raw)
  case (Cons v raw)
  have "v / q < of_int \<lfloor>v / q\<rfloor> + 1" by linarith
  moreover have "sum_list raw / q \<le> of_int (sum_list (map (\<lambda>v. \<lfloor>v / q\<rfloor>) raw)) + of_nat (length raw)"
    using Cons by (cases "raw = []") auto
  ultimately show ?case by (simp add: add_divide_distrib)
qed simp

lemma reconcile_quantized:
  assumes "raw \<noteq> []" and nonneg: "\<forall>v \<in> set raw. 0 \<le> v"
  shows "\<exists>is. distinct is \<and> set is \<subseteq> {..<length raw}
    \<and> int (length is) = round_half_up (sum_list raw / COST_DISPLAY_QUANTUM)
        - sum_list (map (\<lambda>v. \<lfloor>v / COST_DISPLAY_QUANTUM\<rfloor>) raw)
    \<and> reconcile_usd_lines raw (quantize_half_up (sum_list raw)) = Inr (map (\<lambda>s. of_int s * COST_DISPLAY_QUANTUM)
        (foldl (bump 1) (map (\<lambda>v. \<lfloor>v / COST_DISPLAY_QUANTUM\<rfloor>) raw) is))"
proof -
  let ?S = "sum_list raw / COST_DISPLAY_QUANTUM"
  let ?F = "sum_list (map (\<lambda>v. \<lfloor>v / COST_DISPLAY_QUANTUM\<rfloor>) raw)"
  have S0: "0 \<le> ?S" using nonneg by (intro divide_nonneg_pos sum_list_nonneg) auto
  then have m: "round_half_up ?S = \<lfloor>?S + 1 / 2\<rfloor>" by (simp add: round_half_up_def)
  have "of_int ?F \<le> ?S" by (rule floor_sum_le)
  then have "?F \<le> round_half_up ?S" unfolding m by linarith
  moreover have "?S < of_int ?F + of_nat (length raw)" using assms(1) by (rule floor_sum_room)
  then have "round_half_up ?S \<le> ?F + int (length raw)" unfolding m by linarith
  ultimately show ?thesis
    using assms(1) by (intro reconcile_steps) (simp_all add: quantize_half_up_def)
qed

text \<open>
  What the breakdowns rely on: a split of a rounded sum into as many lines, none negative, all whole
  cents, that add up to the rounded sum, and that gives equal lines to equal neighbours up to one cent.
\<close>

locale cent_split =
  fixes split :: "usd list \<Rightarrow> usd \<Rightarrow> price_error + usd list"
  assumes splits: "raw \<noteq> [] \<Longrightarrow> \<forall>v \<in> set raw. 0 \<le> v \<Longrightarrow>
    \<exists>ls. split raw (quantize_half_up (sum_list raw)) = Inr ls"
    and keeps_length: "raw \<noteq> [] \<Longrightarrow> \<forall>v \<in> set raw. 0 \<le> v \<Longrightarrow>
      split raw (quantize_half_up (sum_list raw)) = Inr ls \<Longrightarrow> length ls = length raw"
    and cent_lines: "raw \<noteq> [] \<Longrightarrow> \<forall>v \<in> set raw. 0 \<le> v \<Longrightarrow>
      split raw (quantize_half_up (sum_list raw)) = Inr ls \<Longrightarrow> l \<in> set ls \<Longrightarrow> 0 \<le> l \<and> cents l"
    and adds_up: "raw \<noteq> [] \<Longrightarrow> \<forall>v \<in> set raw. 0 \<le> v \<Longrightarrow>
      split raw (quantize_half_up (sum_list raw)) = Inr ls \<Longrightarrow> sum_list ls = quantize_half_up (sum_list raw)"
    and close: "raw \<noteq> [] \<Longrightarrow> \<forall>v \<in> set raw. 0 \<le> v \<Longrightarrow>
      split raw (quantize_half_up (sum_list raw)) = Inr ls \<Longrightarrow> i < length raw \<Longrightarrow>
      ls ! i - raw ! i \<le> COST_DISPLAY_QUANTUM \<and> raw ! i - ls ! i < COST_DISPLAY_QUANTUM"
begin

lemma lines_of:
  assumes "raw \<noteq> []" and "\<forall>v \<in> set raw. 0 \<le> v" and "whole = quantize_half_up (sum_list raw)"
  obtains ls where "split raw whole = Inr ls" and "length ls = length raw"
    and "\<forall>l \<in> set ls. 0 \<le> l \<and> cents l" and "sum_list ls = whole"
proof -
  from splits[OF assms(1,2)] obtain ls where "split raw (quantize_half_up (sum_list raw)) = Inr ls" ..
  with keeps_length[OF assms(1,2) this] cent_lines[OF assms(1,2) this] adds_up[OF assms(1,2) this] assms(3)
  show thesis by (intro that) auto
qed

lemma equal_raw_lines_close:
  assumes "raw \<noteq> []" and "\<forall>v \<in> set raw. 0 \<le> v"
    and "split raw (quantize_half_up (sum_list raw)) = Inr ls"
    and "i < length raw" and "j < length raw" and "raw ! i = raw ! j"
  shows "\<bar>ls ! i - ls ! j\<bar> < 2 * COST_DISPLAY_QUANTUM"
  using close[OF assms(1,2,3,4)] close[OF assms(1,2,3,5)] assms(6) by linarith

end

lemma floor_close: "of_int \<lfloor>v / q\<rfloor> * q \<le> v \<and> v - of_int \<lfloor>v / q\<rfloor> * q < q" if "0 < (q :: rat)"
proof -
  have "of_int \<lfloor>v / q\<rfloor> \<le> v / q" "v / q < of_int \<lfloor>v / q\<rfloor> + 1" by linarith+
  with that have "of_int \<lfloor>v / q\<rfloor> * q \<le> v" "v < (of_int \<lfloor>v / q\<rfloor> + 1) * q"
    by (simp_all only: pos_le_divide_eq pos_divide_less_eq)
  then show ?thesis by (simp add: algebra_simps)
qed

interpretation hamilton: cent_split reconcile_usd_lines
proof
  fix raw :: "usd list" and ls l i
  assume raw: "raw \<noteq> []" "\<forall>v \<in> set raw. 0 \<le> v"
  let ?fl = "map (\<lambda>v. \<lfloor>v / COST_DISPLAY_QUANTUM\<rfloor>) raw"
  from reconcile_quantized[OF raw] obtain "is" where d: "distinct is" "set is \<subseteq> {..<length raw}"
    "int (length is) = round_half_up (sum_list raw / COST_DISPLAY_QUANTUM) - sum_list ?fl"
    and eq: "reconcile_usd_lines raw (quantize_half_up (sum_list raw))
      = Inr (map (\<lambda>s. of_int s * COST_DISPLAY_QUANTUM) (foldl (bump 1) ?fl is))"
    by blast
  show "\<exists>ls. reconcile_usd_lines raw (quantize_half_up (sum_list raw)) = Inr ls" using eq by blast
  assume ls: "reconcile_usd_lines raw (quantize_half_up (sum_list raw)) = Inr ls"
  with eq have ls': "ls = map (\<lambda>s. of_int s * COST_DISPLAY_QUANTUM) (foldl (bump 1) ?fl is)" by simp
  then show len: "length ls = length raw" by simp
  have nth: "ls ! j = of_int (?fl ! j + (if j \<in> set is then 1 else 0)) * COST_DISPLAY_QUANTUM"
    if "j < length raw" for j
    using that d by (simp add: ls' bumps_nth)
  show "sum_list ls = quantize_half_up (sum_list raw)"
    using d by (simp add: ls' sum_list_of_int sum_bumps quantize_half_up_def)
  show "ls ! i - raw ! i \<le> COST_DISPLAY_QUANTUM \<and> raw ! i - ls ! i < COST_DISPLAY_QUANTUM" if "i < length raw"
    using floor_close[of COST_DISPLAY_QUANTUM "raw ! i"] that nth[OF that]
    by (auto simp: algebra_simps)
  assume "l \<in> set ls"
  then obtain j where j: "j < length raw" "l = ls ! j" by (auto simp: in_set_conv_nth len)
  moreover have "0 \<le> ?fl ! j + (if j \<in> set is then 1 else 0)"
    using raw(2) j(1) by (simp add: divide_nonneg_pos)
  ultimately obtain k where "l = of_int k * COST_DISPLAY_QUANTUM" "0 \<le> k" using nth[OF j(1)] by metis
  then show "0 \<le> l \<and> cents l" unfolding cents_def by auto
qed

section \<open>The settings and constants the price reads\<close>

record pricing_config =
  cf_system_prompt_tokens :: nat
  cf_web_search_context_tokens :: nat
  cf_web_search_request_fee_usd :: usd
  cf_initial_output_tokens :: nat
  cf_output_tokens_per_query_token :: rat
  cf_initial_answer_max_tokens :: nat
  cf_debate_output_tokens :: nat
  cf_debate_output_tokens_cap :: nat
  cf_synthesis_output_tokens :: nat
  cf_synthesis_sections :: nat
  cf_judge_input_tokens :: nat
  cf_judge_input_tokens_with_pages :: nat
  cf_judge_output_tokens :: nat
  cf_judge_max_tokens :: nat
  cf_judge_model_id :: string
  cf_judge_configured :: bool            \<comment> \<open>\<^verbatim>\<open>evaluation.judge_configured()\<close>\<close>
  cf_source_fetch_enabled :: bool
  cf_debate_model_id :: string
  cf_synthesis_model_id :: string
  cf_peer_critique_enabled :: bool
  cf_price_index :: "(string, usd \<times> usd) dict"   \<comment> \<open>\<^verbatim>\<open>price_index()\<close>: per 1K input, output\<close>
  cf_default_prices :: "usd \<times> usd"
  cf_short_name :: "string \<Rightarrow> string option"      \<comment> \<open>\<^verbatim>\<open>lookup_short_name\<close>\<close>
  cf_debate_system_prompt_max_chars :: nat          \<comment> \<open>\<^verbatim>\<open>debate_system_prompt_max_chars(peer=True)\<close>\<close>
  cf_judge_prompt_chars :: nat                      \<comment> \<open>\<^verbatim>\<open>len(_JUDGE_SYSTEM_PROMPT)\<close>\<close>
  cf_judge_pages_prompt_chars :: nat                \<comment> \<open>\<^verbatim>\<open>len(_JUDGE_PAGES_SYSTEM_PROMPT)\<close>\<close>

definition CHARS_PER_TOKEN :: rat where "CHARS_PER_TOKEN = 4"
definition BOUND_WEB_SEARCH_CONTEXT_TOKENS :: nat where "BOUND_WEB_SEARCH_CONTEXT_TOKENS = 2000"
definition JUDGE_EVIDENCE_SECTIONS :: rat where "JUDGE_EVIDENCE_SECTIONS = 5"
definition JUDGE_SOURCE_LINE_OVERHEAD_CHARS :: rat where "JUDGE_SOURCE_LINE_OVERHEAD_CHARS = 10"
definition JUDGE_PAGE_ITEM_OVERHEAD_CHARS :: rat where "JUDGE_PAGE_ITEM_OVERHEAD_CHARS = 12"
definition JUDGE_PAGES_SECTION_OVERHEAD_CHARS :: rat where "JUDGE_PAGES_SECTION_OVERHEAD_CHARS = 40"
definition JUDGE_MAX_SOURCE_LINES :: nat where "JUDGE_MAX_SOURCE_LINES = 32"
definition JUDGE_MAX_SOURCE_TITLE_LEN :: nat where "JUDGE_MAX_SOURCE_TITLE_LEN = 300"
definition JUDGE_MAX_SOURCE_URL_LEN :: nat where "JUDGE_MAX_SOURCE_URL_LEN = 300"
definition JUDGE_MAX_SOURCE_PAGES :: nat where "JUDGE_MAX_SOURCE_PAGES = 8"
definition JUDGE_MAX_SOURCE_PAGE_CHARS :: nat where "JUDGE_MAX_SOURCE_PAGE_CHARS = 4000"
definition SYNTHESIS_SECTION_MAX_TOKENS :: nat where "SYNTHESIS_SECTION_MAX_TOKENS = 3000"
definition MIN_SLOT_COUNT :: nat where "MIN_SLOT_COUNT = 2"
definition MAX_SLOT_COUNT :: nat where "MAX_SLOT_COUNT = 4"

definition judge_reads_pages :: "pricing_config \<Rightarrow> bool" where
  "judge_reads_pages cf = (cf_judge_configured cf \<and> cf_source_fetch_enabled cf)"

definition price_per_1k :: "pricing_config \<Rightarrow> string \<Rightarrow> usd \<times> usd" where
  "price_per_1k cf model =
     (case map_of (cf_price_index cf) model of None \<Rightarrow> cf_default_prices cf | Some p \<Rightarrow> p)"

definition call_cost :: "pricing_config \<Rightarrow> string \<Rightarrow> rat \<Rightarrow> rat \<Rightarrow> usd" where
  "call_cost cf model prompt_tokens output_tokens =
     (let (pin, pout) = price_per_1k cf model
      in pin * prompt_tokens / 1000 + pout * output_tokens / 1000)"

definition measured_call_cost_usd :: "pricing_config \<Rightarrow> string \<Rightarrow> nat \<Rightarrow> nat \<Rightarrow> usd" where
  "measured_call_cost_usd cf model prompt_tokens completion_tokens =
     (let (in_price, out_price) = price_per_1k cf model
      in in_price * of_nat prompt_tokens / 1000 + out_price * of_nat completion_tokens / 1000)"

record follow_up_tokens =
  fu_answer :: rat
  fu_debate :: rat
  fu_synthesis :: rat

definition no_follow_up :: follow_up_tokens where
  "no_follow_up = \<lparr>fu_answer = 0, fu_debate = 0, fu_synthesis = 0\<rparr>"

text \<open>From the lengths of what a follow-up sends: both texts, the system addition and the user addition.\<close>

definition follow_up_context_tokens :: "(nat \<times> nat \<times> nat) option \<Rightarrow> follow_up_tokens" where
  "follow_up_context_tokens context =
     (case context of
        None \<Rightarrow> no_follow_up
      | Some (texts, system_extra, user_extra) \<Rightarrow>
          \<lparr>fu_answer = of_nat texts / CHARS_PER_TOKEN,
           fu_debate = of_nat system_extra / CHARS_PER_TOKEN,
           fu_synthesis = of_nat (system_extra + user_extra) / CHARS_PER_TOKEN\<rparr>)"

section \<open>The per-call token model\<close>

record cost_parts =
  cp_initial_per_model :: "usd list"
  cp_initial_total :: usd
  cp_debate_round_cost :: usd
  cp_synthesis_cost :: usd
  cp_judge_cost :: usd
  cp_raw_total :: usd

definition judge_input_cap :: "pricing_config \<Rightarrow> nat \<Rightarrow> nat \<Rightarrow> bool \<Rightarrow> rat" where
  "judge_input_cap cf query_len slot_count price_judge_pages =
     (let judge_source_tokens =
            of_nat JUDGE_MAX_SOURCE_LINES
              * (of_nat JUDGE_MAX_SOURCE_TITLE_LEN + of_nat JUDGE_MAX_SOURCE_URL_LEN
                 + JUDGE_SOURCE_LINE_OVERHEAD_CHARS) / CHARS_PER_TOKEN;
          judge_system_prompt_chars =
            (if price_judge_pages then cf_judge_pages_prompt_chars cf else cf_judge_prompt_chars cf);
          same_page_line_chars = of_nat (length ''PAGE [32]: same page as [32]'') + 1;
          judge_page_tokens =
            (if price_judge_pages
             then of_nat JUDGE_MAX_SOURCE_PAGES
                    * (of_nat JUDGE_MAX_SOURCE_PAGE_CHARS + JUDGE_PAGE_ITEM_OVERHEAD_CHARS)
                  + JUDGE_PAGES_SECTION_OVERHEAD_CHARS
                  + of_nat (JUDGE_MAX_SOURCE_LINES - JUDGE_MAX_SOURCE_PAGES) * same_page_line_chars
             else 0)
      in of_nat (cf_initial_answer_max_tokens cf) * of_nat slot_count
         + JUDGE_EVIDENCE_SECTIONS * of_nat SYNTHESIS_SECTION_MAX_TOKENS
         + of_nat judge_system_prompt_chars / CHARS_PER_TOKEN
         + judge_source_tokens + judge_page_tokens + of_nat query_len / CHARS_PER_TOKEN)"

definition judge_call_cost :: "pricing_config \<Rightarrow> nat \<Rightarrow> nat \<Rightarrow> bool \<Rightarrow> bool \<Rightarrow> usd" where
  "judge_call_cost cf query_len slot_count price_judge_pages judge_typical =
     (let judge_input_tokens = judge_input_cap cf query_len slot_count price_judge_pages;
          judge_output_tokens = of_nat (cf_judge_max_tokens cf);
          typical_input = (if price_judge_pages then cf_judge_input_tokens_with_pages cf
                           else cf_judge_input_tokens cf)
      in if judge_typical
         then call_cost cf (cf_judge_model_id cf)
                (min (of_nat typical_input + of_nat query_len / CHARS_PER_TOKEN) judge_input_tokens)
                (min (of_nat (cf_judge_output_tokens cf)) judge_output_tokens)
         else call_cost cf (cf_judge_model_id cf) judge_input_tokens judge_output_tokens)"

definition slot_cost :: "pricing_config \<Rightarrow> nat \<Rightarrow> rat \<Rightarrow> rat \<Rightarrow> follow_up_tokens \<Rightarrow> model_slot \<Rightarrow> usd" where
  "slot_cost cf query_len search_tokens init_output_tokens fu slot =
     call_cost cf (ms_model_id slot)
       (of_nat (cf_system_prompt_tokens cf) + (if ms_search slot then search_tokens else 0)
          + of_nat query_len / CHARS_PER_TOKEN + fu_answer fu)
       init_output_tokens
     + (if ms_search slot then cf_web_search_request_fee_usd cf else 0)"

definition round_cost :: "pricing_config \<Rightarrow> model_slot list \<Rightarrow> rat \<Rightarrow> rat \<Rightarrow> usd" where
  "round_cost cf slots prompt_tokens output_tokens =
     (let moderator_round_cost = call_cost cf (cf_debate_model_id cf) prompt_tokens output_tokens
      in if cf_peer_critique_enabled cf
         then max (sum_list (map (\<lambda>slot. call_cost cf (ms_model_id slot) prompt_tokens output_tokens) slots))
                moderator_round_cost
         else moderator_round_cost)"

definition cost_components ::
  "pricing_config \<Rightarrow> nat \<Rightarrow> model_slot list \<Rightarrow> rat \<Rightarrow> rat \<Rightarrow> rat option \<Rightarrow> rat option \<Rightarrow> follow_up_tokens \<Rightarrow>
   bool \<Rightarrow> bool \<Rightarrow> bool \<Rightarrow> bool \<Rightarrow> bool \<Rightarrow> price_error + cost_parts" where
  "cost_components cf query_len slots init_output_tokens synthesis_sections debate_output_override
     search_context_override fu price_round_two_prior_critique price_judge price_judge_pages judge_typical quick =
     (if slots = [] then Inl (ValueError ''model_slots must not be empty'')
      else if quick \<and> length slots \<noteq> 1 then Inl (ValueError ''a quick answer prices exactly one slot'')
      else if \<not> quick \<and> \<not> (MIN_SLOT_COUNT \<le> length slots \<and> length slots \<le> MAX_SLOT_COUNT)
      then Inl (ValueError ''model_slots must contain between 2 and 4 slots'')
      else
        let query_tokens = of_nat query_len / CHARS_PER_TOKEN;
            system_tokens = of_nat (cf_system_prompt_tokens cf);
            search_tokens = (case search_context_override of Some t \<Rightarrow> t
              | None \<Rightarrow> of_nat (cf_web_search_context_tokens cf));
            debate_output_tokens = (case debate_output_override of Some t \<Rightarrow> t
              | None \<Rightarrow> of_nat (cf_debate_output_tokens cf));
            synthesis_output_tokens = of_nat (cf_synthesis_output_tokens cf);
            initial_per_model = map (slot_cost cf query_len search_tokens init_output_tokens fu) slots;
            initial_total = sum_list initial_per_model;
            upstream_answers_tokens = of_nat (length slots) * init_output_tokens;
            debate_system_tokens =
              (if cf_peer_critique_enabled cf
               then of_nat (cf_debate_system_prompt_max_chars cf) / CHARS_PER_TOKEN
               else system_tokens);
            debate_prompt_tokens = debate_system_tokens + query_tokens + upstream_answers_tokens + fu_debate fu;
            debate_round_cost = round_cost cf slots debate_prompt_tokens debate_output_tokens;
            synthesis_prompt_tokens = system_tokens + query_tokens + upstream_answers_tokens
              + fu_synthesis fu + 2 * debate_output_tokens;
            synthesis_cost = synthesis_sections
              * call_cost cf (cf_synthesis_model_id cf) synthesis_prompt_tokens synthesis_output_tokens;
            prior_critique_input_cost =
              (if \<not> price_round_two_prior_critique then 0 else round_cost cf slots debate_output_tokens 0);
            judge_cost = (if price_judge
              then judge_call_cost cf query_len (length slots) price_judge_pages judge_typical else 0);
            debate_round_cost = (if quick then 0 else debate_round_cost);
            prior_critique_input_cost = (if quick then 0 else prior_critique_input_cost);
            synthesis_cost = (if quick then 0 else synthesis_cost)
        in Inr \<lparr>cp_initial_per_model = initial_per_model, cp_initial_total = initial_total,
                cp_debate_round_cost = debate_round_cost, cp_synthesis_cost = synthesis_cost,
                cp_judge_cost = judge_cost,
                cp_raw_total = initial_total + 2 * debate_round_cost + prior_critique_input_cost
                  + synthesis_cost + judge_cost\<rparr>)"

section \<open>The displayed estimate and the guardrail's bound\<close>

definition stage_line :: "string \<times> usd \<Rightarrow> cost_line_by_stage" where
  "stage_line p = \<lparr>cls_stage = fst p, cls_usd = snd p\<rparr>"

definition model_line :: "(string \<times> string \<times> string) \<times> usd \<Rightarrow> cost_line_by_model" where
  "model_line p = (case p of ((kind, mid, name), v) \<Rightarrow>
     \<lparr>clm_model_id = mid, clm_display_name = name, clm_usd = v, clm_kind = kind\<rparr>)"

definition display_name :: "pricing_config \<Rightarrow> string \<Rightarrow> string" where
  "display_name cf model =
     (case cf_short_name cf model of None \<Rightarrow> model | Some name \<Rightarrow> if name = [] then model else name)"

text \<open>Two reconciled partitions of the same total; an error of either is the error.\<close>

definition partitions ::
  "string list \<Rightarrow> usd list \<Rightarrow> (usd list \<Rightarrow> usd list) \<Rightarrow> (string \<times> string \<times> string) list \<Rightarrow> usd list \<Rightarrow> usd \<Rightarrow>
   price_error + cost_breakdown" where
  "partitions stage_names stage_raw adjust model_rows model_raw whole =
     (case reconcile_usd_lines stage_raw whole of
        Inl e \<Rightarrow> Inl e
      | Inr stage_usd \<Rightarrow>
          (case reconcile_usd_lines model_raw whole of
             Inl e \<Rightarrow> Inl e
           | Inr model_usd \<Rightarrow>
               Inr \<lparr>cb_by_model = map model_line (zip model_rows model_usd),
                    cb_by_stage = map stage_line (zip stage_names (adjust stage_usd)),
                    cb_total = whole\<rparr>))"

text \<open>The two debate rounds are shown at one price: a cent between them goes to the first line.\<close>

definition equalise_rounds :: "usd list \<Rightarrow> usd list" where
  "equalise_rounds stage_usd =
     (if stage_usd ! 1 \<noteq> stage_usd ! 2
      then let hi = (if stage_usd ! 1 > stage_usd ! 2 then 1 else 2);
               stage_usd = stage_usd[hi := stage_usd ! hi - COST_DISPLAY_QUANTUM]
           in stage_usd[0 := stage_usd ! 0 + COST_DISPLAY_QUANTUM]
      else stage_usd)"

definition quick_breakdown ::
  "pricing_config \<Rightarrow> model_slot list \<Rightarrow> usd \<Rightarrow> usd option \<Rightarrow> usd \<Rightarrow> price_error + cost_breakdown" where
  "quick_breakdown cf slots initial_total judge_cost whole =
     (case slots of
        [slot] \<Rightarrow>
          partitions ([''initial_answers''] @ (case judge_cost of None \<Rightarrow> [] | Some _ \<Rightarrow> [''judge'']))
            ([initial_total] @ (case judge_cost of None \<Rightarrow> [] | Some j \<Rightarrow> [j])) id
            ([(''model'', ms_model_id slot, display_name cf (ms_model_id slot))]
               @ (case judge_cost of None \<Rightarrow> [] | Some _ \<Rightarrow> [(''judge'', cf_judge_model_id cf, ''Layer-B judge'')]))
            ([initial_total] @ (case judge_cost of None \<Rightarrow> [] | Some j \<Rightarrow> [j])) whole
      | _ \<Rightarrow> Inl (ValueError ''too many or not enough values to unpack''))"

definition estimate_breakdown ::
  "pricing_config \<Rightarrow> nat \<Rightarrow> model_slot list \<Rightarrow> follow_up_tokens \<Rightarrow> run_mode \<Rightarrow> price_error + cost_breakdown" where
  "estimate_breakdown cf query_len slots fu mode =
     (let query_tokens = of_nat query_len / CHARS_PER_TOKEN;
          init_output_tokens = min (of_nat (cf_initial_output_tokens cf)
              + cf_output_tokens_per_query_token cf * query_tokens)
            (of_nat (cf_initial_answer_max_tokens cf));
          price_judge = cf_judge_configured cf;
          price_judge_pages = (mode \<noteq> MODE_QUICK \<and> judge_reads_pages cf)
      in case cost_components cf query_len slots init_output_tokens (of_nat (cf_synthesis_sections cf)) None None
           fu False price_judge price_judge_pages True (mode = MODE_QUICK) of
           Inl e \<Rightarrow> Inl e
         | Inr cp \<Rightarrow>
             let whole = quantize_half_up (cp_raw_total cp)
             in if mode = MODE_QUICK
                then quick_breakdown cf slots (cp_initial_total cp)
                       (if price_judge then Some (cp_judge_cost cp) else None) whole
                else
                  let inner_call_cost = 2 * cp_debate_round_cost cp + cp_synthesis_cost cp
                  in partitions
                       ([''initial_answers'', ''debate_round_1'', ''debate_round_2'', ''synthesis'']
                          @ (if price_judge then [''judge''] else [])
                          @ (if price_judge_pages then [''source_fetch''] else []))
                       ([cp_initial_total cp, cp_debate_round_cost cp, cp_debate_round_cost cp, cp_synthesis_cost cp]
                          @ (if price_judge then [cp_judge_cost cp] else [])
                          @ (if price_judge_pages then [0] else []))
                       equalise_rounds
                       (map (\<lambda>slot. (''model'', ms_model_id slot, display_name cf (ms_model_id slot))) slots
                          @ [(''synthesis'', ''synthesis'', ''Synthesis'')]
                          @ (if price_judge then [(''judge'', cf_judge_model_id cf, ''Layer-B judge'')] else []))
                       (cp_initial_per_model cp @ [inner_call_cost]
                          @ (if price_judge then [cp_judge_cost cp] else []))
                       whole)"

definition estimate_bound_usd ::
  "pricing_config \<Rightarrow> nat \<Rightarrow> model_slot list \<Rightarrow> follow_up_tokens \<Rightarrow> run_mode \<Rightarrow> price_error + usd" where
  "estimate_bound_usd cf query_len slots fu mode =
     (case cost_components cf query_len slots (of_nat (cf_initial_answer_max_tokens cf))
         (of_nat (cf_synthesis_sections cf)) (Some (of_nat (cf_debate_output_tokens_cap cf)))
         (Some (of_nat BOUND_WEB_SEARCH_CONTEXT_TOKENS)) fu True (cf_judge_configured cf)
         (mode \<noteq> MODE_QUICK \<and> judge_reads_pages cf) False (mode = MODE_QUICK) of
        Inl e \<Rightarrow> Inl e
      | Inr cp \<Rightarrow> Inr (quantize_half_up (cp_raw_total cp)))"

section \<open>Prices are monotone in tokens\<close>

definition config_ok :: "pricing_config \<Rightarrow> bool" where
  "config_ok cf = (0 \<le> fst (cf_default_prices cf) \<and> 0 \<le> snd (cf_default_prices cf)
     \<and> list_all (\<lambda>(model, pin, pout). 0 \<le> pin \<and> 0 \<le> pout) (cf_price_index cf)
     \<and> 0 \<le> cf_web_search_request_fee_usd cf \<and> 0 \<le> cf_output_tokens_per_query_token cf)"

definition follow_up_ok :: "follow_up_tokens \<Rightarrow> bool" where
  "follow_up_ok fu = (0 \<le> fu_answer fu \<and> 0 \<le> fu_debate fu \<and> 0 \<le> fu_synthesis fu)"

lemma follow_up_context_ok [simp]: "follow_up_ok (follow_up_context_tokens context)"
  by (auto simp: follow_up_context_tokens_def follow_up_ok_def no_follow_up_def CHARS_PER_TOKEN_def
      split: option.split prod.split)

lemma price_nonneg:
  assumes "config_ok cf" and "price_per_1k cf model = (pin, pout)"
  shows "0 \<le> pin" and "0 \<le> pout"
proof -
  have "0 \<le> pin \<and> 0 \<le> pout"
  proof (cases "map_of (cf_price_index cf) model")
    case None
    then show ?thesis using assms by (auto simp: price_per_1k_def config_ok_def)
  next
    case (Some p)
    then have "(model, p) \<in> set (cf_price_index cf)" by (rule map_of_SomeD)
    then show ?thesis using assms Some by (auto simp: price_per_1k_def config_ok_def list_all_iff)
  qed
  then show "0 \<le> pin" and "0 \<le> pout" by simp_all
qed

lemma call_cost_mono:
  assumes "config_ok cf" and "p \<le> p'" and "out \<le> out'"
  shows "call_cost cf model p out \<le> call_cost cf model p' out'"
proof -
  obtain pin pout where pr: "price_per_1k cf model = (pin, pout)" by force
  with price_nonneg[OF assms(1) pr] assms show ?thesis
    by (auto simp: call_cost_def intro!: add_mono divide_right_mono mult_left_mono)
qed

lemma call_cost_nonneg: "config_ok cf \<Longrightarrow> 0 \<le> p \<Longrightarrow> 0 \<le> out \<Longrightarrow> 0 \<le> call_cost cf model p out"
  using call_cost_mono[of cf 0 p 0 out model] by (simp add: call_cost_def case_prod_unfold)

lemma measured_is_call_cost:
  "measured_call_cost_usd cf model p out = call_cost cf model (of_nat p) (of_nat out)"
  by (simp add: measured_call_cost_usd_def call_cost_def)

lemma slot_cost_mono:
  "config_ok cf \<Longrightarrow> s \<le> s' \<Longrightarrow> out \<le> out' \<Longrightarrow>
   slot_cost cf n s out fu slot \<le> slot_cost cf n s' out' fu slot"
  by (auto simp: slot_cost_def intro!: call_cost_mono)

lemma slot_cost_nonneg:
  "config_ok cf \<Longrightarrow> follow_up_ok fu \<Longrightarrow> 0 \<le> s \<Longrightarrow> 0 \<le> out \<Longrightarrow> 0 \<le> slot_cost cf n s out fu slot"
  by (auto simp: slot_cost_def config_ok_def follow_up_ok_def CHARS_PER_TOKEN_def
      intro!: add_nonneg_nonneg call_cost_nonneg)

lemma round_cost_mono:
  assumes "config_ok cf" and "p \<le> p'" and "out \<le> out'"
  shows "round_cost cf slots p out \<le> round_cost cf slots p' out'"
proof -
  have "call_cost cf model p out \<le> call_cost cf model p' out'" for model
    by (rule call_cost_mono[OF assms])
  then have "sum_list (map (\<lambda>slot. call_cost cf (ms_model_id slot) p out) slots)
      \<le> sum_list (map (\<lambda>slot. call_cost cf (ms_model_id slot) p' out') slots)"
    and "call_cost cf (cf_debate_model_id cf) p out \<le> call_cost cf (cf_debate_model_id cf) p' out'"
    by (auto intro: sum_list_mono)
  from this(2) max.mono[OF this] show ?thesis by (simp add: round_cost_def Let_def)
qed

lemma round_cost_nonneg: "config_ok cf \<Longrightarrow> 0 \<le> p \<Longrightarrow> 0 \<le> out \<Longrightarrow> 0 \<le> round_cost cf slots p out"
  by (auto simp: round_cost_def Let_def le_max_iff_disj call_cost_nonneg)

lemma judge_input_cap_nonneg: "0 \<le> judge_input_cap cf n k pages"
  by (simp add: judge_input_cap_def Let_def CHARS_PER_TOKEN_def JUDGE_SOURCE_LINE_OVERHEAD_CHARS_def
      JUDGE_PAGE_ITEM_OVERHEAD_CHARS_def JUDGE_PAGES_SECTION_OVERHEAD_CHARS_def JUDGE_EVIDENCE_SECTIONS_def)

lemma judge_typical_le:
  "config_ok cf \<Longrightarrow> judge_call_cost cf n k pages True \<le> judge_call_cost cf n k pages False"
  by (auto simp: judge_call_cost_def Let_def intro!: call_cost_mono)

lemma judge_cost_nonneg: "config_ok cf \<Longrightarrow> 0 \<le> judge_call_cost cf n k pages typical"
  by (auto simp: judge_call_cost_def Let_def judge_input_cap_nonneg CHARS_PER_TOKEN_def
      intro!: call_cost_nonneg)

definition slots_allowed :: "run_mode \<Rightarrow> model_slot list \<Rightarrow> bool" where
  "slots_allowed mode slots =
     (if mode = MODE_QUICK then length slots = 1
      else MIN_SLOT_COUNT \<le> length slots \<and> length slots \<le> MAX_SLOT_COUNT)"

lemma slots_allowed_nonempty: "slots_allowed mode slots \<Longrightarrow> slots \<noteq> []"
  by (auto simp: slots_allowed_def MIN_SLOT_COUNT_def split: if_splits)

lemma components_returned:
  "slots_allowed mode slots \<Longrightarrow>
   \<exists>cp. cost_components cf n slots out sections dbt search fu prior judge pages typical (mode = MODE_QUICK) = Inr cp"
  using slots_allowed_nonempty[of mode slots]
  by (auto simp: cost_components_def Let_def slots_allowed_def split: if_splits)

text \<open>The parts are not negative, and the total is their sum.\<close>

lemma components_parts:
  assumes "config_ok cf" and "follow_up_ok fu" and "0 \<le> out" and "0 \<le> sections"
    and "cost_components cf n slots out sections None None fu False judge pages typical quick = Inr cp"
  shows "\<forall>v \<in> set (cp_initial_per_model cp). 0 \<le> v" and "cp_initial_total cp = sum_list (cp_initial_per_model cp)"
    and "0 \<le> cp_debate_round_cost cp" and "0 \<le> cp_synthesis_cost cp" and "0 \<le> cp_judge_cost cp"
    and "\<not> judge \<Longrightarrow> cp_judge_cost cp = 0" and "length (cp_initial_per_model cp) = length slots"
    and "quick \<Longrightarrow> cp_raw_total cp = cp_initial_total cp + cp_judge_cost cp"
    and "cp_raw_total cp = cp_initial_total cp + 2 * cp_debate_round_cost cp + cp_synthesis_cost cp + cp_judge_cost cp"
  using assms
  by (auto simp: cost_components_def Let_def judge_cost_nonneg follow_up_ok_def CHARS_PER_TOKEN_def
      split: if_splits intro!: slot_cost_nonneg round_cost_nonneg mult_nonneg_nonneg call_cost_nonneg add_nonneg_nonneg)

lemma components_total:
  "cost_components cf n slots out sections dbt search fu prior judge pages typical quick = Inr cp \<Longrightarrow>
   cp_raw_total cp =
     sum_list (map (slot_cost cf n (case search of Some t \<Rightarrow> t | None \<Rightarrow> of_nat (cf_web_search_context_tokens cf)) out fu) slots)
     + 2 * (if quick then 0 else round_cost cf slots
         ((if cf_peer_critique_enabled cf then of_nat (cf_debate_system_prompt_max_chars cf) / CHARS_PER_TOKEN
           else of_nat (cf_system_prompt_tokens cf))
           + of_nat n / CHARS_PER_TOKEN + of_nat (length slots) * out + fu_debate fu)
         (case dbt of Some t \<Rightarrow> t | None \<Rightarrow> of_nat (cf_debate_output_tokens cf)))
     + (if quick then 0 else if prior then round_cost cf slots
         (case dbt of Some t \<Rightarrow> t | None \<Rightarrow> of_nat (cf_debate_output_tokens cf)) 0 else 0)
     + (if quick then 0 else sections * call_cost cf (cf_synthesis_model_id cf)
         (of_nat (cf_system_prompt_tokens cf) + of_nat n / CHARS_PER_TOKEN + of_nat (length slots) * out
           + fu_synthesis fu + 2 * (case dbt of Some t \<Rightarrow> t | None \<Rightarrow> of_nat (cf_debate_output_tokens cf)))
         (of_nat (cf_synthesis_output_tokens cf)))
     + (if judge then judge_call_cost cf n (length slots) pages typical else 0)"
  unfolding cost_components_def Let_def by (auto split: if_split_asm)

lemma components_mono:
  assumes cf: "config_ok cf" and fu: "follow_up_ok fu" and "0 \<le> out" and "out \<le> out'" and "0 \<le> sections"
    and dbt: "of_nat (cf_debate_output_tokens cf) \<le> dbt'" and search: "of_nat (cf_web_search_context_tokens cf) \<le> search'"
    and cp: "cost_components cf n slots out sections None None fu False judge pages True quick = Inr cp"
    and cp': "cost_components cf n slots out' sections (Some dbt') (Some search') fu True judge pages False quick = Inr cp'"
  shows "cp_raw_total cp \<le> cp_raw_total cp'"
proof -
  let ?q = "of_nat n / CHARS_PER_TOKEN" and ?sys = "of_nat (cf_system_prompt_tokens cf)"
  let ?dsys = "if cf_peer_critique_enabled cf then of_nat (cf_debate_system_prompt_max_chars cf) / CHARS_PER_TOKEN else ?sys"
  have up: "of_nat (length slots) * out \<le> of_nat (length slots) * out'"
    using \<open>out \<le> out'\<close> by (intro mult_left_mono) simp_all
  have dbt0: "0 \<le> dbt'" using dbt of_nat_0_le_iff by (rule order_trans[rotated])
  have init: "sum_list (map (slot_cost cf n (of_nat (cf_web_search_context_tokens cf)) out fu) slots)
      \<le> sum_list (map (slot_cost cf n search' out' fu) slots)"
    using cf search \<open>out \<le> out'\<close> by (intro sum_list_mono slot_cost_mono)
  have rounds: "round_cost cf slots (?dsys + ?q + of_nat (length slots) * out + fu_debate fu) (of_nat (cf_debate_output_tokens cf))
      \<le> round_cost cf slots (?dsys + ?q + of_nat (length slots) * out' + fu_debate fu) dbt'"
    using cf dbt up by (intro round_cost_mono) simp_all
  have synth: "sections * call_cost cf (cf_synthesis_model_id cf)
        (?sys + ?q + of_nat (length slots) * out + fu_synthesis fu + 2 * of_nat (cf_debate_output_tokens cf)) k
      \<le> sections * call_cost cf (cf_synthesis_model_id cf)
        (?sys + ?q + of_nat (length slots) * out' + fu_synthesis fu + 2 * dbt') k" for k
    using cf dbt up \<open>0 \<le> sections\<close> by (intro mult_left_mono call_cost_mono) simp_all
  have judge: "(if judge then judge_call_cost cf n (length slots) pages True else 0)
      \<le> (if judge then judge_call_cost cf n (length slots) pages False else 0)"
    using judge_typical_le[OF cf] by simp
  have prior: "0 \<le> round_cost cf slots dbt' 0"
    using cf dbt0 by (intro round_cost_nonneg) simp_all
  note facts = init rounds synth[of "of_nat (cf_synthesis_output_tokens cf)"] judge prior
  show ?thesis
  proof (cases quick)
    case True
    show ?thesis
      unfolding components_total[OF cp] components_total[OF cp'] option.case if_P[OF True]
      using facts by linarith
  next
    case False
    show ?thesis
      unfolding components_total[OF cp] components_total[OF cp'] option.case if_not_P[OF False] if_True if_False
      using facts by linarith
  qed
qed

lemma round_half_up_mono: "x \<le> y \<Longrightarrow> round_half_up x \<le> round_half_up y"
proof -
  assume "x \<le> y"
  show ?thesis
  proof (cases "x < 0 \<and> 0 \<le> y")
    case True
    then have "0 \<le> \<lfloor>- x + 1 / 2\<rfloor>" "0 \<le> \<lfloor>y + 1 / 2\<rfloor>" by simp_all
    then have "- \<lfloor>- x + 1 / 2\<rfloor> \<le> \<lfloor>y + 1 / 2\<rfloor>" by linarith
    with True show ?thesis by (simp only: round_half_up_def) simp
  next
    case False
    with \<open>x \<le> y\<close> show ?thesis by (auto simp: round_half_up_def intro!: floor_mono)
  qed
qed

lemma quantize_half_up_mono: "x \<le> y \<Longrightarrow> quantize_half_up x \<le> quantize_half_up y"
  unfolding quantize_half_up_def
  by (intro mult_right_mono of_int_le_iff[THEN iffD2] round_half_up_mono divide_right_mono)
    (simp_all add: less_imp_le)

section \<open>The two partitions of the estimate\<close>

definition breakdown_ok :: "cost_breakdown \<Rightarrow> bool" where
  "breakdown_ok b =
     (sum_list (map cls_usd (cb_by_stage b)) = cb_total b \<and> sum_list (map clm_usd (cb_by_model b)) = cb_total b
      \<and> list_all (\<lambda>l. 0 \<le> cls_usd l) (cb_by_stage b) \<and> list_all (\<lambda>l. 0 \<le> clm_usd l) (cb_by_model b))"

lemma stage_lines: "length names = length vs \<Longrightarrow> map cls_usd (map stage_line (zip names vs)) = vs"
  by (induction names vs rule: list_induct2) (simp_all add: stage_line_def)

lemma model_lines: "length rows = length vs \<Longrightarrow> map clm_usd (map model_line (zip rows vs)) = vs"
  by (induction rows vs rule: list_induct2) (simp_all add: model_line_def split: prod.split)

lemma list_all_map_cong: "map f xs = ys \<Longrightarrow> list_all (\<lambda>x. P (f x)) xs = list_all P ys"
  by (auto simp: list_all_iff)

lemma partitions_ok:
  assumes raw: "sraw \<noteq> []" "\<forall>v \<in> set sraw. 0 \<le> v" "mraw \<noteq> []" "\<forall>v \<in> set mraw. 0 \<le> v"
    and whole: "whole = quantize_half_up (sum_list sraw)" "sum_list mraw = sum_list sraw"
    and names: "length names = length sraw" "length rows = length mraw"
    and adjust: "\<And>ls. reconcile_usd_lines sraw whole = Inr ls \<Longrightarrow>
      length (adjust ls) = length sraw \<and> sum_list (adjust ls) = sum_list ls \<and> (\<forall>l \<in> set (adjust ls). 0 \<le> l)"
  shows "\<exists>b. partitions names sraw adjust rows mraw whole = Inr b \<and> breakdown_ok b \<and> cb_total b = whole
    \<and> (\<exists>ls. reconcile_usd_lines sraw whole = Inr ls \<and> map cls_usd (cb_by_stage b) = adjust ls)"
proof -
  obtain ls where ls: "reconcile_usd_lines sraw whole = Inr ls" "sum_list ls = whole"
    using hamilton.lines_of[OF raw(1,2) whole(1)] by metis
  obtain ms where ms: "reconcile_usd_lines mraw whole = Inr ms" "length ms = length mraw"
    "\<forall>l \<in> set ms. 0 \<le> l \<and> cents l" "sum_list ms = whole"
    using hamilton.lines_of[OF raw(3,4), of whole] whole by metis
  note adj = adjust[OF ls(1)]
  have st: "map cls_usd (map stage_line (zip names (adjust ls))) = adjust ls"
    by (rule stage_lines) (use names adj in simp)
  have mo: "map clm_usd (map model_line (zip rows ms)) = ms"
    by (rule model_lines) (use names ms in simp)
  show ?thesis
    using ls ms adj st mo list_all_map_cong[OF st, of "\<lambda>x. 0 \<le> x"] list_all_map_cong[OF mo, of "\<lambda>x. 0 \<le> x"]
    by (simp add: partitions_def breakdown_ok_def list_all_iff del: map_map)
qed

lemma sum_update: "i < length xs \<Longrightarrow> sum_list (xs[i := v]) = sum_list xs - xs ! i + (v :: rat)"
  by (induction xs arbitrary: i) (auto split: nat.split)

lemma cents_neighbours:
  assumes "cents a" and "cents b" and "\<bar>a - b\<bar> < 2 * COST_DISPLAY_QUANTUM" and "a < b"
  shows "b - COST_DISPLAY_QUANTUM = a"
proof -
  obtain k l where kl: "a = of_int k * COST_DISPLAY_QUANTUM" "b = of_int l * COST_DISPLAY_QUANTUM"
    using assms by (auto simp: cents_def)
  then have "of_int (l - k) * COST_DISPLAY_QUANTUM < 2 * COST_DISPLAY_QUANTUM" "0 < of_int (l - k) * COST_DISPLAY_QUANTUM"
    using assms by (simp_all add: algebra_simps)
  then have "(of_int (l - k) :: rat) < 2" "(0 :: rat) < of_int (l - k)"
    using mult_less_cancel_right_pos[OF quantum_pos(1)] zero_less_mult_pos2[OF _ quantum_pos(1)] by blast+
  then have "l - k = 1" by linarith
  then have "l = k + 1" by simp
  then show ?thesis by (simp add: kl algebra_simps)
qed

lemma equalise_ok:
  assumes "3 \<le> length ls" and cs: "\<forall>l \<in> set ls. 0 \<le> l \<and> cents l"
    and close: "\<bar>ls ! 1 - ls ! 2\<bar> < 2 * COST_DISPLAY_QUANTUM"
  shows "length (equalise_rounds ls) = length ls" and "sum_list (equalise_rounds ls) = sum_list ls"
    and "\<forall>l \<in> set (equalise_rounds ls). 0 \<le> l" and "equalise_rounds ls ! 1 = equalise_rounds ls ! 2"
proof -
  obtain a b c rest where ls: "ls = a # b # c # rest"
    using assms(1) by (metis Suc_le_length_iff numeral_3_eq_3)
  have ok: "0 \<le> a" "0 \<le> b" "0 \<le> c" "cents b" "cents c" "\<forall>l \<in> set rest. 0 \<le> l"
    and d: "\<bar>b - c\<bar> < 2 * COST_DISPLAY_QUANTUM" "\<bar>c - b\<bar> < 2 * COST_DISPLAY_QUANTUM"
    using cs close by (auto simp: ls abs_minus_commute)
  consider "b = c" | "b < c" | "c < b" by linarith
  then have "length (equalise_rounds ls) = length ls \<and> sum_list (equalise_rounds ls) = sum_list ls
    \<and> (\<forall>l \<in> set (equalise_rounds ls). 0 \<le> l) \<and> equalise_rounds ls ! 1 = equalise_rounds ls ! 2"
  proof cases
    case 1
    then show ?thesis using ok by (auto simp: equalise_rounds_def ls)
  next
    case 2
    with cents_neighbours[OF ok(4,5) d(1)] have "c - COST_DISPLAY_QUANTUM = b" by simp
    with 2 ok show ?thesis by (auto simp: equalise_rounds_def ls numeral_2_eq_2)
  next
    case 3
    with cents_neighbours[OF ok(5,4) d(2)] have "b - COST_DISPLAY_QUANTUM = c" by simp
    with 3 ok show ?thesis by (auto simp: equalise_rounds_def ls numeral_2_eq_2)
  qed
  then show "length (equalise_rounds ls) = length ls" and "sum_list (equalise_rounds ls) = sum_list ls"
    and "\<forall>l \<in> set (equalise_rounds ls). 0 \<le> l" and "equalise_rounds ls ! 1 = equalise_rounds ls ! 2"
    by simp_all
qed

text \<open>The displayed panel estimate, from the parts of the price.\<close>

lemma panel_partitions:
  fixes pages :: bool
  assumes parts: "\<forall>v \<in> set initial. 0 \<le> v" "0 \<le> dbt" "0 \<le> synth" "0 \<le> judge"
    and "price_judge \<or> judge = 0" and rows: "length initial = length mrows"
  defines "sraw \<equiv> [sum_list initial, dbt, dbt, synth] @ (if price_judge then [judge] else []) @ (if pages then [0] else [])"
  shows "\<exists>b. partitions
      ([''initial_answers'', ''debate_round_1'', ''debate_round_2'', ''synthesis'']
        @ (if price_judge then [''judge''] else []) @ (if pages then [''source_fetch''] else []))
      sraw equalise_rounds
      (mrows @ [writer] @ (if price_judge then [jrow] else []))
      (initial @ [2 * dbt + synth] @ (if price_judge then [judge] else []))
      (quantize_half_up (sum_list initial + 2 * dbt + synth + judge)) = Inr b
    \<and> breakdown_ok b \<and> cls_usd (cb_by_stage b ! 1) = cls_usd (cb_by_stage b ! 2)
    \<and> cb_total b = quantize_half_up (sum_list initial + 2 * dbt + synth + judge)"
proof -
  let ?names = "[''initial_answers'', ''debate_round_1'', ''debate_round_2'', ''synthesis'']
        @ (if price_judge then [''judge''] else []) @ (if pages then [''source_fetch''] else [])"
  let ?rows = "mrows @ [writer] @ (if price_judge then [jrow] else [])"
  let ?mraw = "initial @ [2 * dbt + synth] @ (if price_judge then [judge] else [])"
  let ?whole = "quantize_half_up (sum_list initial + 2 * dbt + synth + judge)"
  have s0: "0 \<le> sum_list initial" using parts(1) by (intro sum_list_nonneg) auto
  have sraw: "sraw \<noteq> []" "\<forall>v \<in> set sraw. 0 \<le> v" "length sraw \<ge> 3" "sraw ! 1 = sraw ! 2"
    using parts s0 by (auto simp: sraw_def)
  have sum: "sum_list sraw = sum_list initial + 2 * dbt + synth + judge"
    using assms(5) by (auto simp: sraw_def)
  have msum: "sum_list ?mraw = sum_list sraw" using assms(5) by (auto simp: sraw_def)
  have adj: "length (equalise_rounds ls) = length sraw \<and> sum_list (equalise_rounds ls) = sum_list ls
      \<and> (\<forall>l \<in> set (equalise_rounds ls). 0 \<le> l) \<and> equalise_rounds ls ! 1 = equalise_rounds ls ! 2"
    if ls: "reconcile_usd_lines sraw ?whole = Inr ls" for ls
  proof -
    have ls': "reconcile_usd_lines sraw (quantize_half_up (sum_list sraw)) = Inr ls" using ls sum by simp
    have len: "length ls = length sraw" by (rule hamilton.keeps_length[OF sraw(1,2) ls'])
    have cs: "\<forall>l \<in> set ls. 0 \<le> l \<and> cents l" using hamilton.cent_lines[OF sraw(1,2) ls'] by blast
    have "\<bar>ls ! 1 - ls ! 2\<bar> < 2 * COST_DISPLAY_QUANTUM"
      using sraw by (intro hamilton.equal_raw_lines_close[OF sraw(1,2) ls']) simp_all
    from equalise_ok[OF _ cs this] len sraw(3) show ?thesis by simp
  qed
  have "\<exists>b. partitions ?names sraw equalise_rounds ?rows ?mraw ?whole = Inr b \<and> breakdown_ok b
      \<and> cb_total b = ?whole
      \<and> (\<exists>ls. reconcile_usd_lines sraw ?whole = Inr ls \<and> map cls_usd (cb_by_stage b) = equalise_rounds ls)"
  proof (rule partitions_ok[OF sraw(1,2)])
    show "?mraw \<noteq> []" by simp
    show "\<forall>v \<in> set ?mraw. 0 \<le> v" using parts by auto
    show "?whole = quantize_half_up (sum_list sraw)" by (simp only: sum)
    show "sum_list ?mraw = sum_list sraw" by (rule msum)
    show "length ?names = length sraw" by (simp add: sraw_def)
    show "length ?rows = length ?mraw" by (simp add: rows)
    show "length (equalise_rounds ls) = length sraw \<and> sum_list (equalise_rounds ls) = sum_list ls
      \<and> (\<forall>l \<in> set (equalise_rounds ls). 0 \<le> l)" if "reconcile_usd_lines sraw ?whole = Inr ls" for ls
      using adj[OF that] by blast
  qed
  then obtain b ls where b: "partitions ?names sraw equalise_rounds ?rows ?mraw ?whole = Inr b" "breakdown_ok b"
    "cb_total b = ?whole" "reconcile_usd_lines sraw ?whole = Inr ls" "map cls_usd (cb_by_stage b) = equalise_rounds ls"
    by blast
  have len: "length (cb_by_stage b) \<ge> 3" using arg_cong[OF b(5), of length] adj[OF b(4)] sraw(3) by simp
  then have "cls_usd (cb_by_stage b ! 1) = equalise_rounds ls ! 1" "cls_usd (cb_by_stage b ! 2) = equalise_rounds ls ! 2"
    unfolding b(5)[symmetric] by simp_all
  with b adj[OF b(4)] show ?thesis by auto
qed

lemma quick_partitions:
  assumes "0 \<le> initial" "\<And>j. judge = Some j \<Longrightarrow> 0 \<le> j" and "slots = [slot]"
    and "whole = quantize_half_up (initial + (case judge of None \<Rightarrow> 0 | Some j \<Rightarrow> j))"
  shows "\<exists>b. quick_breakdown cf slots initial judge whole = Inr b \<and> breakdown_ok b \<and> cb_total b = whole"
proof -
  have "\<exists>b. quick_breakdown cf slots initial judge whole = Inr b \<and> breakdown_ok b \<and> cb_total b = whole
      \<and> (\<exists>ls. reconcile_usd_lines ([initial] @ (case judge of None \<Rightarrow> [] | Some j \<Rightarrow> [j])) whole = Inr ls
          \<and> map cls_usd (cb_by_stage b) = id ls)"
    unfolding quick_breakdown_def assms(3) list.case
  proof (rule partitions_ok)
    fix ls
    let ?raw = "[initial] @ (case judge of None \<Rightarrow> [] | Some j \<Rightarrow> [j])"
    assume ls: "reconcile_usd_lines ?raw whole = Inr ls"
    have raw: "?raw \<noteq> []" "\<forall>v \<in> set ?raw. 0 \<le> v" "whole = quantize_half_up (sum_list ?raw)"
      using assms by (auto split: option.split)
    show "length (id ls) = length ?raw \<and> sum_list (id ls) = sum_list ls \<and> (\<forall>l \<in> set (id ls). 0 \<le> l)"
      using hamilton.keeps_length[OF raw(1,2)] hamilton.cent_lines[OF raw(1,2)] ls raw(3) by auto
  qed (use assms in \<open>auto split: option.split\<close>)
  then show ?thesis by blast
qed

lemma allowed_panel_priced:
  assumes "config_ok cf" and "slots_allowed mode slots" and "follow_up_ok fu"
  shows "\<exists>b bound. estimate_breakdown cf n slots fu mode = Inr b \<and> estimate_bound_usd cf n slots fu mode = Inr bound
    \<and> breakdown_ok b \<and> (mode = MODE_PANEL \<longrightarrow> cls_usd (cb_by_stage b ! 1) = cls_usd (cb_by_stage b ! 2))"
proof -
  let ?out = "min (of_nat (cf_initial_output_tokens cf) + cf_output_tokens_per_query_token cf * (of_nat n / CHARS_PER_TOKEN))
      (of_nat (cf_initial_answer_max_tokens cf))"
  let ?pages = "mode \<noteq> MODE_QUICK \<and> judge_reads_pages cf"
  have out: "0 \<le> ?out" using assms(1) by (simp add: config_ok_def CHARS_PER_TOKEN_def)
  obtain cp where cp: "cost_components cf n slots ?out (of_nat (cf_synthesis_sections cf)) None None fu False
      (cf_judge_configured cf) ?pages True (mode = MODE_QUICK) = Inr cp"
    using components_returned[OF assms(2)] by blast
  obtain bound where bound: "estimate_bound_usd cf n slots fu mode = Inr bound"
    using components_returned[OF assms(2)] unfolding estimate_bound_usd_def by (metis sum.case(2))
  note parts = components_parts[OF assms(1,3) out of_nat_0_le_iff cp]
  have "\<exists>b. estimate_breakdown cf n slots fu mode = Inr b
    \<and> breakdown_ok b \<and> (mode = MODE_PANEL \<longrightarrow> cls_usd (cb_by_stage b ! 1) = cls_usd (cb_by_stage b ! 2))"
  proof (cases "mode = MODE_QUICK")
    case True
    with assms(2) obtain slot where slot: "slots = [slot]"
      by (auto simp: slots_allowed_def length_Suc_conv)
    have "cp_raw_total cp = cp_initial_total cp + cp_judge_cost cp" using parts(8) True by simp
    moreover have "0 \<le> cp_initial_total cp" using parts(1,2) by (simp add: sum_list_nonneg)
    ultimately have "\<exists>b. quick_breakdown cf slots (cp_initial_total cp)
        (if cf_judge_configured cf then Some (cp_judge_cost cp) else None) (quantize_half_up (cp_raw_total cp)) = Inr b
        \<and> breakdown_ok b \<and> cb_total b = quantize_half_up (cp_raw_total cp)"
      using parts(5,6) by (intro quick_partitions[OF _ _ slot]) (auto split: if_splits)
    with True show ?thesis using cp by (auto simp: estimate_breakdown_def Let_def)
  next
    case False
    have "cf_judge_configured cf \<or> cp_judge_cost cp = 0"
      by (cases "cf_judge_configured cf") (simp_all add: parts(6))
    from panel_partitions[OF parts(1,3,4,5) this, of
        "map (\<lambda>slot. (''model'', ms_model_id slot, display_name cf (ms_model_id slot))) slots" ?pages
        "(''synthesis'', ''synthesis'', ''Synthesis'')" "(''judge'', cf_judge_model_id cf, ''Layer-B judge'')"]
    show ?thesis
      unfolding estimate_breakdown_def Let_def cp sum.case parts(2,9) if_not_P[OF False]
      using parts(7) by (auto split del: if_split)
  qed
  with bound show ?thesis by blast
qed

text \<open>Every question over an allowed panel gets an estimate and a bound, and the estimate is shown in two
  partitions, by stage and by model, each of non-negative lines that add up to the total exactly; on a
  panel the two debate rounds are shown at the same price.\<close>

theorem estimate_partitions_add_up:
  assumes "config_ok cf" and "slots_allowed mode slots" and "follow_up_ok fu"
  shows "\<exists>b bound. estimate_breakdown cf n slots fu mode = Inr b \<and> estimate_bound_usd cf n slots fu mode = Inr bound
    \<and> breakdown_ok b \<and> (mode = MODE_PANEL \<longrightarrow> cls_usd (cb_by_stage b ! 1) = cls_usd (cb_by_stage b ! 2))"
  using assms by (rule allowed_panel_priced)

definition sample_config :: pricing_config where
  "sample_config = \<lparr>cf_system_prompt_tokens = 350, cf_web_search_context_tokens = 2000,
     cf_web_search_request_fee_usd = 7 / 1000, cf_initial_output_tokens = 700,
     cf_output_tokens_per_query_token = 1 / 2, cf_initial_answer_max_tokens = 2000,
     cf_debate_output_tokens = 2200, cf_debate_output_tokens_cap = 4000, cf_synthesis_output_tokens = 3000,
     cf_synthesis_sections = 5, cf_judge_input_tokens = 7300, cf_judge_input_tokens_with_pages = 15000,
     cf_judge_output_tokens = 150, cf_judge_max_tokens = 1024, cf_judge_model_id = ''x/judge'',
     cf_judge_configured = True, cf_source_fetch_enabled = True, cf_debate_model_id = ''anthropic/claude-haiku-4.5'',
     cf_synthesis_model_id = ''openai/gpt-5-mini'', cf_peer_critique_enabled = False,
     cf_price_index = [(''openai/gpt-4o-mini'', 15 / 100000, 6 / 10000)], cf_default_prices = (1 / 1000, 5 / 1000),
     cf_short_name = (\<lambda>_. None), cf_debate_system_prompt_max_chars = 1918, cf_judge_prompt_chars = 3000,
     cf_judge_pages_prompt_chars = 4000\<rparr>"

lemma sample_config_ok: "config_ok sample_config"
  by (simp add: config_ok_def sample_config_def)

lemma follow_up_ok_none [simp]: "follow_up_ok no_follow_up"
  by (simp add: follow_up_ok_def no_follow_up_def)

lemma estimate_partitions_add_up_witness:
  "\<exists>b bound. estimate_breakdown sample_config 80 two_slots no_follow_up MODE_PANEL = Inr b
    \<and> estimate_bound_usd sample_config 80 two_slots no_follow_up MODE_PANEL = Inr bound
    \<and> breakdown_ok b \<and> (MODE_PANEL = MODE_PANEL \<longrightarrow> cls_usd (cb_by_stage b ! 1) = cls_usd (cb_by_stage b ! 2))"
  by (rule estimate_partitions_add_up)
    (simp_all add: sample_config_ok slots_allowed_def two_slots_def MIN_SLOT_COUNT_def MAX_SLOT_COUNT_def
      follow_up_ok_def no_follow_up_def)

text \<open>The displayed estimate never exceeds the worst-case bound the guardrail compares, as long as the
  typical debate output is within its cap and the searched context within the bound's own figure.\<close>

theorem estimate_within_bound:
  assumes "config_ok cf" and "follow_up_ok fu"
    and "cf_debate_output_tokens cf \<le> cf_debate_output_tokens_cap cf"
    and "cf_web_search_context_tokens cf \<le> BOUND_WEB_SEARCH_CONTEXT_TOKENS"
    and "estimate_breakdown cf n slots fu mode = Inr b" and "estimate_bound_usd cf n slots fu mode = Inr bound"
  shows "cb_total b \<le> bound"
proof -
  let ?out = "min (of_nat (cf_initial_output_tokens cf) + cf_output_tokens_per_query_token cf * (of_nat n / CHARS_PER_TOKEN))
      (of_nat (cf_initial_answer_max_tokens cf))"
  let ?pages = "mode \<noteq> MODE_QUICK \<and> judge_reads_pages cf"
  from assms(5) obtain cp where cp: "cost_components cf n slots ?out (of_nat (cf_synthesis_sections cf)) None None fu False
      (cf_judge_configured cf) ?pages True (mode = MODE_QUICK) = Inr cp"
    by (auto simp: estimate_breakdown_def Let_def split: sum.splits)
  with assms(5) have b: "cb_total b = quantize_half_up (cp_raw_total cp)"
    by (auto simp: estimate_breakdown_def Let_def partitions_def quick_breakdown_def split: if_splits sum.splits list.splits)
  from assms(6) obtain cp' where cp': "cost_components cf n slots (of_nat (cf_initial_answer_max_tokens cf))
      (of_nat (cf_synthesis_sections cf)) (Some (of_nat (cf_debate_output_tokens_cap cf)))
      (Some (of_nat BOUND_WEB_SEARCH_CONTEXT_TOKENS)) fu True (cf_judge_configured cf) ?pages False (mode = MODE_QUICK) = Inr cp'"
    and bound: "bound = quantize_half_up (cp_raw_total cp')"
    by (auto simp: estimate_bound_usd_def split: sum.splits)
  have "cp_raw_total cp \<le> cp_raw_total cp'"
    using assms(1-4) by (intro components_mono[OF _ _ _ _ _ _ _ cp cp']) (auto simp: config_ok_def CHARS_PER_TOKEN_def)
  then show ?thesis unfolding b bound by (rule quantize_half_up_mono)
qed

lemma estimate_within_bound_witness:
  "\<exists>b bound. estimate_breakdown sample_config 80 two_slots no_follow_up MODE_PANEL = Inr b
    \<and> estimate_bound_usd sample_config 80 two_slots no_follow_up MODE_PANEL = Inr bound \<and> cb_total b \<le> bound"
proof -
  have allowed: "slots_allowed MODE_PANEL two_slots"
    by (simp add: slots_allowed_def two_slots_def MIN_SLOT_COUNT_def MAX_SLOT_COUNT_def)
  then obtain b bound where b: "estimate_breakdown sample_config 80 two_slots no_follow_up MODE_PANEL = Inr b"
    and bound: "estimate_bound_usd sample_config 80 two_slots no_follow_up MODE_PANEL = Inr bound"
    using allowed_panel_priced[OF sample_config_ok] by (metis follow_up_ok_none)
  from estimate_within_bound[OF sample_config_ok _ _ _ b bound] show ?thesis
    using b bound by (auto simp: follow_up_ok_def no_follow_up_def sample_config_def BOUND_WEB_SEARCH_CONTEXT_TOKENS_def)
qed

section \<open>The measured cost of a finished run\<close>

type_synonym priced_line = "string \<times> string \<times> usd"   \<comment> \<open>model id, display name, cost\<close>

definition line_cost :: "priced_line \<Rightarrow> usd" where
  "line_cost l = snd (snd l)"

definition line_row :: "string \<Rightarrow> priced_line \<Rightarrow> string \<times> string \<times> string" where
  "line_row kind l = (kind, fst l, fst (snd l))"

definition round_spend :: "(nat, usd) dict \<Rightarrow> nat \<Rightarrow> usd" where
  "round_spend debate_by_round r = (case map_of debate_by_round r of None \<Rightarrow> 0 | Some v \<Rightarrow> v)"

definition build_measured_breakdown ::
  "priced_line list \<Rightarrow> (nat, usd) dict \<Rightarrow> usd \<Rightarrow> (string \<times> usd) option \<Rightarrow> priced_line list \<Rightarrow> bool \<Rightarrow> bool \<Rightarrow>
   price_error + cost_breakdown" where
  "build_measured_breakdown per_model_initial debate_by_round synthesis_cost judge critique_lines quick source_fetch =
     (let judge_cost = (case judge of None \<Rightarrow> 0 | Some j \<Rightarrow> snd j);
          initial_total = sum_list (map line_cost per_model_initial);
          judge_stage = (case judge of None \<Rightarrow> [] | Some j \<Rightarrow> [''judge'']);
          judge_raw = (case judge of None \<Rightarrow> [] | Some j \<Rightarrow> [judge_cost]);
          judge_row = (case judge of None \<Rightarrow> [] | Some j \<Rightarrow> [(''judge'', fst j, ''Layer-B judge'')])
      in if quick then
           (if debate_by_round \<noteq> [] \<or> synthesis_cost \<noteq> 0 \<or> critique_lines \<noteq> []
            then Inl (ValueError ''a quick answer has no debate or synthesis spend'')
            else partitions ([''initial_answers''] @ judge_stage) ([initial_total] @ judge_raw) id
                   (map (line_row ''model'') per_model_initial @ judge_row)
                   (map line_cost per_model_initial @ judge_raw)
                   (quantize_half_up (initial_total + judge_cost)))
         else
           let debate_total = sum_list (map snd debate_by_round);
               whole = quantize_half_up (initial_total + debate_total + synthesis_cost + judge_cost);
               stage_names = [''initial_answers'', ''debate_round_1'', ''debate_round_2'', ''synthesis'']
                 @ judge_stage @ (if source_fetch then [''source_fetch''] else []);
               stage_raw = [initial_total, round_spend debate_by_round 1, round_spend debate_by_round 2, synthesis_cost]
                 @ judge_raw @ (if source_fetch then [0] else []);
               critique_total = sum_list (map line_cost critique_lines)
           in case reconcile_usd_lines stage_raw whole of
                Inl e \<Rightarrow> Inl e
              | Inr _ \<Rightarrow>
                  if critique_total > debate_total
                  then Inl (ValueError ''critique spend exceeds debate spend'')
                  else partitions stage_names stage_raw id
                         (map (line_row ''model'') per_model_initial @ [(''synthesis'', ''synthesis'', ''Synthesis'')]
                            @ judge_row @ map (line_row ''critique'') critique_lines)
                         (map line_cost per_model_initial @ [debate_total - critique_total + synthesis_cost]
                            @ judge_raw @ map line_cost critique_lines)
                         whole)"

lemma plain_partitions:
  assumes raw: "sraw \<noteq> []" "\<forall>v \<in> set sraw. 0 \<le> v" "mraw \<noteq> []" "\<forall>v \<in> set mraw. 0 \<le> v"
    and whole: "whole = quantize_half_up (sum_list sraw)" "sum_list mraw = sum_list sraw"
    and names: "length names = length sraw" "length rows = length mraw"
  shows "\<exists>b. partitions names sraw id rows mraw whole = Inr b \<and> breakdown_ok b \<and> cb_total b = whole"
proof -
  have "length (id ls) = length sraw \<and> sum_list (id ls) = sum_list ls \<and> (\<forall>l \<in> set (id ls). 0 \<le> l)"
    if "reconcile_usd_lines sraw whole = Inr ls" for ls
    using hamilton.keeps_length[OF raw(1,2)] hamilton.cent_lines[OF raw(1,2)] that whole(1) by auto
  from partitions_ok[OF assms this] show ?thesis by blast
qed

text \<open>What the caller measured: nothing negative, debate money in rounds one and two, critique within debate.\<close>

definition measured_ok ::
  "priced_line list \<Rightarrow> (nat, usd) dict \<Rightarrow> usd \<Rightarrow> (string \<times> usd) option \<Rightarrow> priced_line list \<Rightarrow> bool" where
  "measured_ok per_model_initial debate_by_round synthesis_cost judge critique_lines =
     (list_all (\<lambda>l. 0 \<le> line_cost l) per_model_initial \<and> list_all (\<lambda>l. 0 \<le> line_cost l) critique_lines
      \<and> dict_ok debate_by_round \<and> set (map fst debate_by_round) \<subseteq> {1, 2} \<and> list_all (\<lambda>(r, v). 0 \<le> v) debate_by_round
      \<and> 0 \<le> synthesis_cost \<and> (case judge of None \<Rightarrow> True | Some j \<Rightarrow> 0 \<le> snd j)
      \<and> sum_list (map line_cost critique_lines) \<le> sum_list (map snd debate_by_round))"

lemma round_spend_sum:
  assumes "dict_ok d" and "set (map fst d) \<subseteq> {1, 2}"
  shows "round_spend d 1 + round_spend d 2 = sum_list (map snd d)"
proof -
  have "distinct (map fst d)" using assms(1) by (simp add: dict_ok_def)
  then have "round_spend d 1 + round_spend d 2 = (\<Sum>k \<in> set (map fst d). round_spend d k)"
  proof -
    have "(\<Sum>k \<in> {1, 2}. round_spend d k) = (\<Sum>k \<in> set (map fst d). round_spend d k)"
      using assms(2) by (intro sum.mono_neutral_right) (force simp: round_spend_def split: option.split dest: map_of_SomeD)+
    then show ?thesis by simp
  qed
  also have "\<dots> = sum_list (map (round_spend d) (map fst d))"
    using \<open>distinct (map fst d)\<close> by (simp only: sum_list_distinct_conv_sum_set)
  also have "\<dots> = sum_list (map snd d)"
    using \<open>distinct (map fst d)\<close> by (auto simp: round_spend_def intro!: arg_cong[of _ _ sum_list])
  finally show ?thesis .
qed

lemma round_spend_nonneg: "list_all (\<lambda>(r, v). 0 \<le> v) d \<Longrightarrow> 0 \<le> round_spend d k"
  by (auto simp: round_spend_def list_all_iff split: option.split dest!: map_of_SomeD)

lemma measured_partitions:
  assumes ok: "measured_ok per_model_initial debate_by_round synthesis_cost judge critique_lines"
  shows "\<exists>b. build_measured_breakdown per_model_initial debate_by_round synthesis_cost judge critique_lines False source_fetch
      = Inr b \<and> breakdown_ok b
    \<and> cb_total b = quantize_half_up (sum_list (map line_cost per_model_initial) + sum_list (map snd debate_by_round)
        + synthesis_cost + (case judge of None \<Rightarrow> 0 | Some j \<Rightarrow> snd j))"
proof -
  let ?j = "case judge of None \<Rightarrow> 0 | Some j \<Rightarrow> snd j" and ?jraw = "case judge of None \<Rightarrow> [] | Some j \<Rightarrow> [snd j]"
  let ?init = "sum_list (map line_cost per_model_initial)" and ?dbt = "sum_list (map snd debate_by_round)"
  let ?sraw = "[?init, round_spend debate_by_round 1, round_spend debate_by_round 2, synthesis_cost]
      @ ?jraw @ (if source_fetch then [0] else [])"
  let ?crit = "sum_list (map line_cost critique_lines)"
  let ?mraw = "map line_cost per_model_initial @ [?dbt - ?crit + synthesis_cost] @ ?jraw @ map line_cost critique_lines"
  let ?whole = "quantize_half_up (?init + ?dbt + synthesis_cost + ?j)"
  have init: "0 \<le> ?init" using ok by (auto simp: measured_ok_def list_all_iff intro!: sum_list_nonneg)
  have dsum: "round_spend debate_by_round 1 + round_spend debate_by_round 2 = ?dbt"
    using ok by (intro round_spend_sum) (simp_all add: measured_ok_def)
  have jraw: "sum_list ?jraw = ?j" "\<forall>v \<in> set ?jraw. 0 \<le> v" using ok by (auto simp: measured_ok_def split: option.splits)
  have sraw: "?sraw \<noteq> []" "\<forall>v \<in> set ?sraw. 0 \<le> v" "sum_list ?sraw = ?init + ?dbt + synthesis_cost + ?j"
    using ok init dsum jraw by (auto simp: measured_ok_def round_spend_nonneg)
  have mraw: "?mraw \<noteq> []" "\<forall>v \<in> set ?mraw. 0 \<le> v" "sum_list ?mraw = sum_list ?sraw"
    using ok jraw sraw(3) by (auto simp: measured_ok_def list_all_iff)
  have crit: "\<not> ?crit > ?dbt" using ok by (simp add: measured_ok_def)
  obtain ls where ls: "reconcile_usd_lines ?sraw ?whole = Inr ls"
    using hamilton.splits[OF sraw(1,2)] unfolding sraw(3) by blast
  have "\<exists>b. partitions ([''initial_answers'', ''debate_round_1'', ''debate_round_2'', ''synthesis'']
          @ (case judge of None \<Rightarrow> [] | Some j \<Rightarrow> [''judge'']) @ (if source_fetch then [''source_fetch''] else []))
        ?sraw id
        (map (line_row ''model'') per_model_initial @ [(''synthesis'', ''synthesis'', ''Synthesis'')]
          @ (case judge of None \<Rightarrow> [] | Some j \<Rightarrow> [(''judge'', fst j, ''Layer-B judge'')])
          @ map (line_row ''critique'') critique_lines) ?mraw ?whole = Inr b
      \<and> breakdown_ok b \<and> cb_total b = ?whole"
    by (rule plain_partitions[OF sraw(1,2) mraw(1,2)]) (simp_all only: sraw(3) mraw(3), auto split: option.split)
  then show ?thesis using ls crit
    by (cases judge) (simp_all add: build_measured_breakdown_def Let_def split del: if_split)
qed

text \<open>A measured receipt adds up as the estimate does: whatever the calls of a panel run cost, both
  partitions of the measured breakdown are non-negative lines whose sum is the rounded total exactly.\<close>

theorem measured_partitions_add_up:
  assumes "measured_ok per_model_initial debate_by_round synthesis_cost judge critique_lines"
  shows "\<exists>b. build_measured_breakdown per_model_initial debate_by_round synthesis_cost judge critique_lines False source_fetch
      = Inr b \<and> breakdown_ok b"
  using measured_partitions[OF assms] by blast

lemma measured_partitions_add_up_witness:
  "\<exists>b. build_measured_breakdown [(''a'', ''A'', 1 / 300), (''b'', ''B'', 1 / 700)] [(2, 1 / 900)] (1 / 1100)
      (Some (''j'', 1 / 1300)) [(''a'', ''A'', 1 / 950)] False True = Inr b \<and> breakdown_ok b"
  by (rule measured_partitions_add_up) (simp add: measured_ok_def line_cost_def dict_ok_def)

text \<open>C7. Every question over an allowed panel is priced whole: it gets an estimate and a bound; the estimate is shown in two
  partitions, by stage and by model, of non-negative lines that each add up to the displayed total exactly, with the two debate
  rounds at one price; and, when the configured typical debate output and searched context are within what the bound assumes
  of them, the displayed total does not exceed the bound the guardrail compares.\<close>

theorem estimate_adds_up_within_bound:
  assumes "config_ok cf" and "slots_allowed mode slots" and "follow_up_ok fu"
  shows "\<exists>b bound. estimate_breakdown cf n slots fu mode = Inr b \<and> estimate_bound_usd cf n slots fu mode = Inr bound
    \<and> sum_list (map cls_usd (cb_by_stage b)) = cb_total b \<and> sum_list (map clm_usd (cb_by_model b)) = cb_total b
    \<and> (\<forall>l \<in> set (cb_by_stage b). 0 \<le> cls_usd l) \<and> (\<forall>l \<in> set (cb_by_model b). 0 \<le> clm_usd l)
    \<and> (mode = MODE_PANEL \<longrightarrow> cls_usd (cb_by_stage b ! 1) = cls_usd (cb_by_stage b ! 2))
    \<and> (cf_debate_output_tokens cf \<le> cf_debate_output_tokens_cap cf \<and> cf_web_search_context_tokens cf \<le> BOUND_WEB_SEARCH_CONTEXT_TOKENS
        \<longrightarrow> cb_total b \<le> bound)"
proof -
  obtain b bound where b: "estimate_breakdown cf n slots fu mode = Inr b" "estimate_bound_usd cf n slots fu mode = Inr bound"
    "breakdown_ok b" "mode = MODE_PANEL \<longrightarrow> cls_usd (cb_by_stage b ! 1) = cls_usd (cb_by_stage b ! 2)"
    using allowed_panel_priced[OF assms] by blast
  show ?thesis
    using b estimate_within_bound[OF assms(1,3) _ _ b(1,2)]
    by (intro exI[of _ b] exI[of _ bound]) (auto simp: breakdown_ok_def list_all_iff)
qed

lemma estimate_adds_up_within_bound_witness:
  "\<exists>b bound. estimate_breakdown sample_config 80 two_slots no_follow_up MODE_PANEL = Inr b
     \<and> estimate_bound_usd sample_config 80 two_slots no_follow_up MODE_PANEL = Inr bound
     \<and> sum_list (map cls_usd (cb_by_stage b)) = cb_total b \<and> cb_total b \<le> bound"
proof -
  have "slots_allowed MODE_PANEL two_slots" by (simp add: slots_allowed_def two_slots_def MIN_SLOT_COUNT_def MAX_SLOT_COUNT_def)
  from estimate_adds_up_within_bound[OF sample_config_ok this follow_up_ok_none, of 80]
  show ?thesis by (fastforce simp: sample_config_def BOUND_WEB_SEARCH_CONTEXT_TOKENS_def)
qed

section \<open>The bound is a ceiling on the measured cost\<close>

type_synonym call_tokens = "nat \<times> nat"   \<comment> \<open>prompt and completion tokens of one call\<close>

definition tokens_cost :: "pricing_config \<Rightarrow> string \<Rightarrow> call_tokens \<Rightarrow> usd" where
  "tokens_cost cf model u = measured_call_cost_usd cf model (fst u) (snd u)"

definition tokens_within :: "rat \<Rightarrow> rat \<Rightarrow> call_tokens \<Rightarrow> bool" where
  "tokens_within p out u = (of_nat (fst u) \<le> p \<and> of_nat (snd u) \<le> out)"

text \<open>
  The calls of one panel run under the moderator shape, each within what the bound assumes of it: one
  initial call per slot, the two moderator calls (the second also reads the first critique), the section
  calls, and the judge's.
\<close>

definition run_within ::
  "pricing_config \<Rightarrow> nat \<Rightarrow> follow_up_tokens \<Rightarrow> model_slot list \<Rightarrow> call_tokens list \<Rightarrow> call_tokens \<Rightarrow> call_tokens \<Rightarrow>
   call_tokens list \<Rightarrow> call_tokens option \<Rightarrow> bool" where
  "run_within cf n fu slots initial round1 round2 sections judge =
     (let q = of_nat n / CHARS_PER_TOKEN; sys = of_nat (cf_system_prompt_tokens cf);
          out = of_nat (cf_initial_answer_max_tokens cf); dbt = of_nat (cf_debate_output_tokens_cap cf);
          debate_prompt = sys + q + of_nat (length slots) * out + fu_debate fu
      in list_all2 (\<lambda>slot. tokens_within (sys + (if ms_search slot then of_nat BOUND_WEB_SEARCH_CONTEXT_TOKENS else 0)
             + q + fu_answer fu) out) slots initial
       \<and> tokens_within debate_prompt dbt round1 \<and> tokens_within (debate_prompt + dbt) dbt round2
       \<and> length sections \<le> cf_synthesis_sections cf
       \<and> list_all (tokens_within (sys + q + of_nat (length slots) * out + fu_synthesis fu + 2 * dbt)
             (of_nat (cf_synthesis_output_tokens cf))) sections
       \<and> (case judge of None \<Rightarrow> True | Some u \<Rightarrow> cf_judge_configured cf
            \<and> tokens_within (judge_input_cap cf n (length slots) (judge_reads_pages cf)) (of_nat (cf_judge_max_tokens cf)) u))"

lemma tokens_cost_le:
  "config_ok cf \<Longrightarrow> tokens_within p out u \<Longrightarrow> tokens_cost cf model u \<le> call_cost cf model p out"
  by (auto simp: tokens_cost_def tokens_within_def measured_is_call_cost intro!: call_cost_mono)

lemma tokens_cost_nonneg: "config_ok cf \<Longrightarrow> 0 \<le> tokens_cost cf model u"
  by (simp add: tokens_cost_def measured_is_call_cost call_cost_nonneg)

lemma initial_calls_le:
  assumes cf: "config_ok cf"
    and "list_all2 (\<lambda>slot. tokens_within (of_nat (cf_system_prompt_tokens cf)
      + (if ms_search slot then search else 0) + of_nat n / CHARS_PER_TOKEN + fu_answer fu) out) slots initial"
  shows "sum_list (map2 (\<lambda>slot. tokens_cost cf (ms_model_id slot)) slots initial)
    \<le> sum_list (map (slot_cost cf n search out fu) slots)"
  using assms(2)
proof (induction rule: list_all2_induct)
  case (Cons slot slots u us)
  have "tokens_cost cf (ms_model_id slot) u \<le> slot_cost cf n search out fu slot"
    using tokens_cost_le[OF cf Cons.hyps(1), of "ms_model_id slot"] cf
    by (auto simp: slot_cost_def config_ok_def)
  with Cons.IH show ?case by simp
qed simp

lemma section_calls_le:
  assumes cf: "config_ok cf" and "list_all (tokens_within p out) us" and "length us \<le> k" and "0 \<le> p" "0 \<le> out"
  shows "sum_list (map (tokens_cost cf model) us) \<le> of_nat k * call_cost cf model p out"
proof -
  have "sum_list (map (tokens_cost cf model) us) \<le> of_nat (length us) * call_cost cf model p out"
    using assms(2)
  proof (induction us)
    case (Cons u us)
    then show ?case using tokens_cost_le[OF cf, of p out u model] by (simp add: algebra_simps)
  qed simp
  also have "\<dots> \<le> of_nat k * call_cost cf model p out"
    using assms by (intro mult_right_mono call_cost_nonneg) simp_all
  finally show ?thesis .
qed

text \<open>A longer prompt of \<open>extra\<close> tokens costs what those tokens cost.\<close>

lemma call_cost_split: "call_cost cf model (p + extra) out = call_cost cf model p out + call_cost cf model extra 0"
  by (simp add: call_cost_def Let_def case_prod_unfold add_divide_distrib distrib_left)

lemma run_cost_le_bound:
  assumes cf: "config_ok cf" and fu: "follow_up_ok fu" and mod: "\<not> cf_peer_critique_enabled cf"
    and within: "run_within cf n fu slots initial round1 round2 sections judge"
    and bound: "estimate_bound_usd cf n slots fu MODE_PANEL = Inr bound"
  shows "quantize_half_up (sum_list (map2 (\<lambda>slot. tokens_cost cf (ms_model_id slot)) slots initial)
      + (tokens_cost cf (cf_debate_model_id cf) round1 + tokens_cost cf (cf_debate_model_id cf) round2)
      + sum_list (map (tokens_cost cf (cf_synthesis_model_id cf)) sections)
      + (case judge of None \<Rightarrow> 0 | Some u \<Rightarrow> tokens_cost cf (cf_judge_model_id cf) u)) \<le> bound"
proof -
  let ?q = "of_nat n / CHARS_PER_TOKEN" and ?sys = "of_nat (cf_system_prompt_tokens cf)"
  let ?out = "of_nat (cf_initial_answer_max_tokens cf)" and ?dbt = "of_nat (cf_debate_output_tokens_cap cf)"
  let ?dp = "?sys + ?q + of_nat (length slots) * ?out + fu_debate fu"
  let ?sp = "?sys + ?q + of_nat (length slots) * ?out + fu_synthesis fu + 2 * ?dbt"
  from bound obtain cp where cp: "cost_components cf n slots ?out (of_nat (cf_synthesis_sections cf)) (Some ?dbt)
      (Some (of_nat BOUND_WEB_SEARCH_CONTEXT_TOKENS)) fu True (cf_judge_configured cf) (judge_reads_pages cf) False False = Inr cp"
    and b: "bound = quantize_half_up (cp_raw_total cp)"
    by (auto simp: estimate_bound_usd_def split: sum.splits)
  note w = within[unfolded run_within_def Let_def]
  have init: "sum_list (map2 (\<lambda>slot. tokens_cost cf (ms_model_id slot)) slots initial)
      \<le> sum_list (map (slot_cost cf n (of_nat BOUND_WEB_SEARCH_CONTEXT_TOKENS) ?out fu) slots)"
    using w by (intro initial_calls_le[OF cf]) blast
  have r1: "tokens_cost cf (cf_debate_model_id cf) round1 \<le> round_cost cf slots ?dp ?dbt"
    using w tokens_cost_le[OF cf, of ?dp ?dbt round1] mod by (simp add: round_cost_def)
  have "tokens_cost cf (cf_debate_model_id cf) round2 \<le> call_cost cf (cf_debate_model_id cf) (?dp + ?dbt) ?dbt"
    using w by (intro tokens_cost_le[OF cf]) blast
  then have r2: "tokens_cost cf (cf_debate_model_id cf) round2 \<le> round_cost cf slots ?dp ?dbt + round_cost cf slots ?dbt 0"
    using mod call_cost_split[of cf "cf_debate_model_id cf" ?dp ?dbt ?dbt] by (simp add: round_cost_def)
  have sec: "sum_list (map (tokens_cost cf (cf_synthesis_model_id cf)) sections)
      \<le> of_nat (cf_synthesis_sections cf) * call_cost cf (cf_synthesis_model_id cf) ?sp (of_nat (cf_synthesis_output_tokens cf))"
    using w fu by (intro section_calls_le[OF cf]) (auto simp: follow_up_ok_def CHARS_PER_TOKEN_def)
  have jud: "(case judge of None \<Rightarrow> 0 | Some u \<Rightarrow> tokens_cost cf (cf_judge_model_id cf) u)
      \<le> (if cf_judge_configured cf then judge_call_cost cf n (length slots) (judge_reads_pages cf) False else 0)"
  proof (cases judge)
    case None
    then show ?thesis using judge_cost_nonneg[OF cf] by simp
  next
    case (Some u)
    then show ?thesis using w tokens_cost_le[OF cf] by (auto simp: judge_call_cost_def)
  qed
  show ?thesis
    unfolding b components_total[OF cp] option.case if_True if_False if_not_P[OF mod]
    using init r1 r2 sec jud by (intro quantize_half_up_mono) linarith
qed

text \<open>The guardrail's bound is a ceiling on what a run is measured to cost: when every call of a panel run
  (moderator shape) used no more tokens than the bound assumes of it, the total of the measured breakdown
  does not exceed the bound.\<close>

theorem measured_cost_within_bound:
  assumes "config_ok cf" and "follow_up_ok fu" and "\<not> cf_peer_critique_enabled cf"
    and "run_within cf n fu slots initial round1 round2 sections judge"
    and "estimate_bound_usd cf n slots fu MODE_PANEL = Inr bound"
    and "build_measured_breakdown
      (map2 (\<lambda>slot u. (ms_model_id slot, display_name cf (ms_model_id slot), tokens_cost cf (ms_model_id slot) u)) slots initial)
      [(1, tokens_cost cf (cf_debate_model_id cf) round1), (2, tokens_cost cf (cf_debate_model_id cf) round2)]
      (sum_list (map (tokens_cost cf (cf_synthesis_model_id cf)) sections))
      (map_option (\<lambda>u. (cf_judge_model_id cf, tokens_cost cf (cf_judge_model_id cf) u)) judge) [] False fetched = Inr b"
  shows "cb_total b \<le> bound"
proof -
  let ?init = "map2 (\<lambda>slot u. (ms_model_id slot, display_name cf (ms_model_id slot), tokens_cost cf (ms_model_id slot) u)) slots initial"
  have costs: "map line_cost ?init = map2 (\<lambda>slot. tokens_cost cf (ms_model_id slot)) slots initial"
    by (simp add: line_cost_def case_prod_unfold)
  have "measured_ok ?init
      [(1, tokens_cost cf (cf_debate_model_id cf) round1), (2, tokens_cost cf (cf_debate_model_id cf) round2)]
      (sum_list (map (tokens_cost cf (cf_synthesis_model_id cf)) sections))
      (map_option (\<lambda>u. (cf_judge_model_id cf, tokens_cost cf (cf_judge_model_id cf) u)) judge) []"
    using tokens_cost_nonneg[OF assms(1)]
    by (auto simp: measured_ok_def list_all_iff line_cost_def dict_ok_def intro!: sum_list_nonneg split: option.split)
  from measured_partitions[OF this, of fetched] assms(6)
  show ?thesis using run_cost_le_bound[OF assms(1-5)] unfolding costs
    by (cases judge) (auto simp: add.assoc)
qed

definition sample_usage :: "call_tokens list" where
  "sample_usage = [(2000, 900), (1500, 2000)]"

lemma measured_cost_within_bound_witness:
  "\<exists>b bound. estimate_bound_usd sample_config 80 two_slots no_follow_up MODE_PANEL = Inr bound
    \<and> build_measured_breakdown
      (map2 (\<lambda>slot u. (ms_model_id slot, display_name sample_config (ms_model_id slot), tokens_cost sample_config (ms_model_id slot) u))
        two_slots sample_usage)
      [(1, tokens_cost sample_config (cf_debate_model_id sample_config) (3000, 2100)),
       (2, tokens_cost sample_config (cf_debate_model_id sample_config) (5000, 2500))]
      (sum_list (map (tokens_cost sample_config (cf_synthesis_model_id sample_config)) [(9000, 800)]))
      (map_option (\<lambda>u. (cf_judge_model_id sample_config, tokens_cost sample_config (cf_judge_model_id sample_config) u)) None)
      [] False False = Inr b
    \<and> cb_total b \<le> bound"
proof -
  let ?c = "\<lambda>m u. tokens_cost sample_config m u"
  obtain bound where bound: "estimate_bound_usd sample_config 80 two_slots no_follow_up MODE_PANEL = Inr bound"
    using allowed_panel_priced[OF sample_config_ok, of MODE_PANEL two_slots no_follow_up 80]
    by (auto simp: slots_allowed_def two_slots_def MIN_SLOT_COUNT_def MAX_SLOT_COUNT_def)
  have within: "run_within sample_config 80 no_follow_up two_slots sample_usage (3000, 2100) (5000, 2500) [(9000, 800)] None"
    by (simp add: run_within_def Let_def tokens_within_def sample_config_def sample_usage_def two_slots_def no_follow_up_def
        CHARS_PER_TOKEN_def BOUND_WEB_SEARCH_CONTEXT_TOKENS_def)
  have ok: "measured_ok (map2 (\<lambda>slot u. (ms_model_id slot, display_name sample_config (ms_model_id slot), ?c (ms_model_id slot) u))
        two_slots sample_usage)
      [(1, ?c (cf_debate_model_id sample_config) (3000, 2100)), (2, ?c (cf_debate_model_id sample_config) (5000, 2500))]
      (sum_list (map (?c (cf_synthesis_model_id sample_config)) [(9000, 800)]))
      (map_option (\<lambda>u. (cf_judge_model_id sample_config, ?c (cf_judge_model_id sample_config) u)) None) []"
    using tokens_cost_nonneg[OF sample_config_ok]
    by (auto simp: measured_ok_def list_all_iff line_cost_def dict_ok_def intro!: sum_list_nonneg)
  from measured_partitions[OF ok, of False] obtain b where b: "build_measured_breakdown
      (map2 (\<lambda>slot u. (ms_model_id slot, display_name sample_config (ms_model_id slot), ?c (ms_model_id slot) u)) two_slots sample_usage)
      [(1, ?c (cf_debate_model_id sample_config) (3000, 2100)), (2, ?c (cf_debate_model_id sample_config) (5000, 2500))]
      (sum_list (map (?c (cf_synthesis_model_id sample_config)) [(9000, 800)]))
      (map_option (\<lambda>u. (cf_judge_model_id sample_config, ?c (cf_judge_model_id sample_config) u)) None) [] False False = Inr b"
    by blast
  have "\<not> cf_peer_critique_enabled sample_config" by (simp add: sample_config_def)
  from measured_cost_within_bound[OF sample_config_ok follow_up_ok_none this within bound b] bound b
  show ?thesis by blast
qed

text \<open>The apportioning does not add up for every total, as its description says it does: one line can
  absorb one cent only, so a total two cents above the floors is returned one cent short.\<close>

theorem reconcile_can_fall_short:
  "reconcile_usd_lines [0] (2 * COST_DISPLAY_QUANTUM) = Inr [COST_DISPLAY_QUANTUM]"
proof -
  have "round_half_up 2 = 2" using round_half_up_of_int[of 2] by simp
  then show ?thesis by (simp add: reconcile_usd_lines_def Let_def bump_def)
qed

end
