(* ===== verification/Cost_Guard.thy ===== *)
theory Cost_Guard
  imports Ledger Pricing
begin

text \<open>
  The spend guard of \<^verbatim>\<open>src/product_app/costs.py\<close> over the durable ledger: the in-process ring of
  charges, the estimate's decision, the one-shot confirmation tokens, and opening, correcting and
  voiding a run's charge on both rails; and the ledger-trust predicates and reopening of
  \<^verbatim>\<open>store_reconnect.py\<close>. The module-level recorder, the service's token table and stamps and
  the configured store are the fields of one state, \<open>cost_guard\<close>. What comes from outside the
  repository is the record \<open>moment\<close>: the clocks, whether an INSERT lands, the text of the HMAC
  token and a fresh UUID.
\<close>

section \<open>State\<close>

record guardrail_event =
  ge_event_type :: string
  ge_account_id :: uuid
  ge_query_run_id :: "uuid option"
  ge_estimated_cost_usd :: usd
  ge_threshold_action :: threshold_action
  ge_confirmed :: bool

type_synonym panel_key = "(string \<times> bool) list"

record bound_token =
  bt_account_id :: uuid
  bt_query_run_id :: "uuid option"
  bt_estimated_cost_usd :: usd
  bt_expires_at :: micros
  bt_token :: string
  bt_panel :: panel_key
  bt_critique_shape :: critique_shape

record cost_guard =
  cg_ring :: "guardrail_event list"
  cg_tokens :: "(string, bound_token) dict"
  cg_store :: "feedback_store option"
  cg_reopen_failed :: bool
  cg_reopen_attempt_at :: "rat option"
  cg_bypass_logged_at :: "rat option"
  cg_block_logged_at :: "rat option"

record moment =
  at_now :: micros
  at_mono :: rat
  at_lands :: bool
  at_token :: string
  at_fresh :: uuid
  at_spawns :: bool

record guard_settings =
  st_daily_cap_fail_closed :: bool
  st_live_execution :: bool
  st_reconnect_enabled :: bool
  st_reconnect_cooldown :: rat
  st_pricing :: pricing_config
  st_str :: "usd \<Rightarrow> string"   \<comment> \<open>\<^verbatim>\<open>str(Decimal)\<close>\<close>

definition SOFT_THRESHOLD_USD :: usd where "SOFT_THRESHOLD_USD = 30 / 100"
definition HARD_LIMIT_USD :: usd where "HARD_LIMIT_USD = 50 / 100"
definition DAILY_CAP_USD :: usd where "DAILY_CAP_USD = 40 / 100"
definition GLOBAL_DAILY_CEILING_USD :: usd where "GLOBAL_DAILY_CEILING_USD = 5"
definition DAILY_CAP_BYPASS_LOG_INTERVAL_S :: rat where "DAILY_CAP_BYPASS_LOG_INTERVAL_S = 60"
definition CONFIRMATION_TOKEN_TTL :: micros where "CONFIRMATION_TOKEN_TTL = 5 * 60 * 1000000"
definition MAX_EVENTS :: nat where "MAX_EVENTS = 1024"
definition MAX_TOKENS :: nat where "MAX_TOKENS = 4096"

definition RING_CHARGE_EVENT_TYPES :: "string list" where
  "RING_CHARGE_EVENT_TYPES = [COST_ACCEPTED_EVENT, COST_ACCEPTED_SIMULATED_EVENT]"

definition priced_critique_shape :: "pricing_config \<Rightarrow> critique_shape" where
  "priced_critique_shape cf =
     (if cf_peer_critique_enabled cf then CRITIQUE_SHAPE_PEER else CRITIQUE_SHAPE_MODERATOR)"

definition token_shape :: "pricing_config \<Rightarrow> run_mode \<Rightarrow> critique_shape" where
  "token_shape cf mode = (if mode = MODE_QUICK then CRITIQUE_SHAPE_QUICK else priced_critique_shape cf)"

definition panel_key :: "model_slot list \<Rightarrow> panel_key" where
  "panel_key slots = map (\<lambda>slot. (ms_model_id slot, ms_search slot)) slots"

section \<open>Trust in the ledger\<close>

definition feedback_ledger_is_stale :: "feedback_store option \<Rightarrow> bool" where
  "feedback_ledger_is_stale store =
     (case store of None \<Rightarrow> True | Some fs \<Rightarrow> write_health fs = HEALTH_FAILING)"

definition feedback_ledger_may_be_metered :: "feedback_store option \<Rightarrow> bool" where
  "feedback_ledger_may_be_metered store =
     (case store of
        None \<Rightarrow> False
      | Some fs \<Rightarrow> if feedback_ledger_is_stale store then False else fs_lost_billed_writes fs = 0)"

definition feedback_ledger_is_trustworthy :: "feedback_store option \<Rightarrow> bool" where
  "feedback_ledger_is_trustworthy store =
     (case store of
        None \<Rightarrow> False
      | Some fs \<Rightarrow> if write_health fs \<noteq> HEALTH_OK then False else fs_lost_billed_writes fs = 0)"

text \<open>What the background reopen did: the new handle, or \<open>None\<close> when opening it raised.\<close>

definition reopen_feedback_store :: "feedback_store option \<Rightarrow> cost_guard \<Rightarrow> cost_guard" where
  "reopen_feedback_store opened cg =
     (case opened of
        None \<Rightarrow> cg\<lparr>cg_reopen_failed := True\<rparr>
      | Some fs \<Rightarrow> cg\<lparr>cg_store := Some fs, cg_reopen_failed := \<not> feedback_ledger_is_trustworthy (Some fs)\<rparr>)"

text \<open>True when a reopen is to be started; \<open>spawns\<close> is false when no thread can be started.\<close>

definition maybe_reconnect_feedback_store ::
  "guard_settings \<Rightarrow> bool \<Rightarrow> rat \<Rightarrow> cost_guard \<Rightarrow> bool \<times> cost_guard" where
  "maybe_reconnect_feedback_store st spawns now cg =
     (if \<not> st_reconnect_enabled st then (False, cg)
      else
        let cg = (if cg_reopen_failed cg \<and> feedback_ledger_is_trustworthy (cg_store cg)
                  then cg\<lparr>cg_reopen_failed := False\<rparr> else cg)
        in if feedback_ledger_may_be_metered (cg_store cg) then (False, cg)
           else if (case cg_reopen_attempt_at cg of None \<Rightarrow> False
                    | Some last_at \<Rightarrow> now - last_at < st_reconnect_cooldown st)
           then (False, cg)
           else let cg = cg\<lparr>cg_reopen_attempt_at := Some now\<rparr>
                in if spawns then (True, cg) else (False, cg\<lparr>cg_reopen_failed := True\<rparr>))"

definition log_due :: "rat \<Rightarrow> rat option \<Rightarrow> bool" where
  "log_due now logged_at =
     (case logged_at of None \<Rightarrow> True | Some last_at \<Rightarrow> \<not> now - last_at < DAILY_CAP_BYPASS_LOG_INTERVAL_S)"

definition log_daily_cap_bypassed :: "rat \<Rightarrow> cost_guard \<Rightarrow> cost_guard" where
  "log_daily_cap_bypassed now cg =
     (if log_due now (cg_bypass_logged_at cg) then cg\<lparr>cg_bypass_logged_at := Some now\<rparr> else cg)"

definition log_daily_cap_blocked :: "rat \<Rightarrow> cost_guard \<Rightarrow> cost_guard" where
  "log_daily_cap_blocked now cg =
     (if log_due now (cg_block_logged_at cg) then cg\<lparr>cg_block_logged_at := Some now\<rparr> else cg)"

section \<open>The ring\<close>

definition ring_append :: "guardrail_event \<Rightarrow> guardrail_event list \<Rightarrow> guardrail_event list" where
  "ring_append ev ring =
     (let events = ring @ [ev]
      in if length events > MAX_EVENTS then drop (length events - MAX_EVENTS) events else events)"

definition guard_row :: "guardrail_event \<Rightarrow> micros \<Rightarrow> ledger_row" where
  "guard_row ev now =
     \<lparr>lr_recorder = ''cost'', lr_event_type = ge_event_type ev, lr_account_id = Some (ge_account_id ev),
      lr_query_run_id = ge_query_run_id ev, lr_recorded_at = now,
      lr_estimated_cost_usd = Some (ge_estimated_cost_usd ev), lr_actual_cost_usd = None, lr_ip = None,
      lr_payload_account_id = Some (ge_account_id ev)\<rparr>"

definition record_cost_event :: "moment \<Rightarrow> bool \<Rightarrow> guardrail_event \<Rightarrow> cost_guard \<Rightarrow> cost_guard" where
  "record_cost_event mt persist ev cg =
     (let cg = cg\<lparr>cg_ring := ring_append ev (cg_ring cg)\<rparr>
      in if persist
         then (case cg_store cg of
                 None \<Rightarrow> cg
               | Some fs \<Rightarrow> cg\<lparr>cg_store := Some (snd (insert_event (at_lands mt) (at_mono mt)
                              (guard_row ev (at_now mt)) fs))\<rparr>)
         else cg)"

definition ring_charge_of :: "uuid \<Rightarrow> guardrail_event \<Rightarrow> bool" where
  "ring_charge_of run e = (ge_query_run_id e = Some run \<and> ge_event_type e \<in> set RING_CHARGE_EVENT_TYPES)"

definition discard_charge_for_run :: "uuid \<Rightarrow> guardrail_event list \<Rightarrow> nat \<times> guardrail_event list" where
  "discard_charge_for_run run events =
     (let kept = filter (\<lambda>e. \<not> ring_charge_of run e) events in (length events - length kept, kept))"

definition reconcile_charge_for_run :: "uuid \<Rightarrow> usd \<Rightarrow> guardrail_event list \<Rightarrow> nat \<times> guardrail_event list" where
  "reconcile_charge_for_run run actual events =
     (length (filter (ring_charge_of run) events),
      map (\<lambda>e. if ring_charge_of run e then e\<lparr>ge_estimated_cost_usd := actual\<rparr> else e) events)"

definition cumulative_spend_for :: "uuid \<Rightarrow> guardrail_event list \<Rightarrow> usd" where
  "cumulative_spend_for account events =
     sum_list (map ge_estimated_cost_usd
       (filter (\<lambda>e. ge_account_id e = account \<and> ge_event_type e \<in> set RING_CHARGE_EVENT_TYPES) events))"

section \<open>The allowance\<close>

definition daily_allowance_from :: "usd \<Rightarrow> usd \<Rightarrow> bool \<Rightarrow> daily_allowance" where
  "daily_allowance_from already_spent cumulative shared =
     (let remaining = DAILY_CAP_USD - already_spent;
          running = (cumulative > 0 \<and> HARD_LIMIT_USD - cumulative < remaining);
          remaining = (if running then HARD_LIMIT_USD - cumulative else remaining);
          remaining = min (max remaining 0) DAILY_CAP_USD
      in \<lparr>da_cap_usd = DAILY_CAP_USD, da_spent_usd = quantize_ceiling already_spent,
          da_remaining_usd = quantize_floor remaining,
          da_bounded_by = (if running then BOUND_RUNNING_TOTAL else BOUND_DAILY_CAP),
          da_shared_by_network = shared\<rparr>)"

definition daily_allowance_for :: "moment \<Rightarrow> uuid \<Rightarrow> bool \<Rightarrow> cost_guard \<Rightarrow> daily_allowance option" where
  "daily_allowance_for mt spend_key shared cg =
     (case cg_store cg of
        None \<Rightarrow> None
      | Some fs \<Rightarrow>
          if \<not> feedback_ledger_may_be_metered (Some fs) then None
          else Some (daily_allowance_from (daily_spend_for fs spend_key (at_now mt))
                 (cumulative_spend_for spend_key (cg_ring cg)) shared))"

section \<open>Confirmation tokens\<close>

definition purge_expired_tokens :: "micros \<Rightarrow> (string, bound_token) dict \<Rightarrow> (string, bound_token) dict" where
  "purge_expired_tokens now tokens =
     (let live = filter (\<lambda>(t, r). \<not> bt_expires_at r < now) tokens
      in if length live > MAX_TOKENS
         then let doomed = map fst (take (length live - MAX_TOKENS)
                    (sort_key (\<lambda>p. bt_expires_at (snd p)) live))
              in filter (\<lambda>(t, r). t \<notin> set doomed) live
         else live)"

definition mint_confirmation_token ::
  "moment \<Rightarrow> uuid \<Rightarrow> uuid option \<Rightarrow> usd \<Rightarrow> panel_key \<Rightarrow> critique_shape \<Rightarrow> cost_guard \<Rightarrow> string \<times> cost_guard" where
  "mint_confirmation_token mt account run est panel shape cg =
     (let token = at_token mt;
          bound = \<lparr>bt_account_id = account, bt_query_run_id = run, bt_estimated_cost_usd = est,
            bt_expires_at = at_now mt + CONFIRMATION_TOKEN_TTL, bt_token = token, bt_panel = panel,
            bt_critique_shape = shape\<rparr>
      in (token, cg\<lparr>cg_tokens := purge_expired_tokens (at_now mt) (AList.update token bound (cg_tokens cg))\<rparr>))"

definition verify_confirmation_token ::
  "micros \<Rightarrow> string \<Rightarrow> uuid option \<Rightarrow> usd \<Rightarrow> panel_key \<Rightarrow> critique_shape \<Rightarrow> cost_guard \<Rightarrow> bool \<times> cost_guard" where
  "verify_confirmation_token now token account est panel shape cg =
     (case map_of (cg_tokens cg) token of
        None \<Rightarrow> (False, cg)
      | Some r \<Rightarrow>
          let burnt = cg\<lparr>cg_tokens := AList.delete token (cg_tokens cg)\<rparr>
          in if account \<noteq> None \<and> Some (bt_account_id r) \<noteq> account then (False, cg)
             else if bt_estimated_cost_usd r \<noteq> est then (False, cg)
             else if bt_panel r \<noteq> panel \<or> bt_critique_shape r \<noteq> shape then (False, burnt)
             else if bt_expires_at r < now then (False, burnt)
             else (True, burnt))"

definition evaluate_confirmation ::
  "guard_settings \<Rightarrow> micros \<Rightarrow> cost_estimate \<Rightarrow> (usd \<times> string) option \<Rightarrow> model_slot list \<Rightarrow> uuid option \<Rightarrow> run_mode \<Rightarrow>
   cost_guard \<Rightarrow> (bool \<times> string list) \<times> cost_guard" where
  "evaluate_confirmation st now estimate confirmation slots account mode cg =
     (if ce_threshold_action estimate \<noteq> REQUIRE_CONFIRMATION
      then ((True, [''Confirmation is only required for estimates in the upper-cost band.'']), cg)
      else (case confirmation of
        None \<Rightarrow>
          ((False, [''Cost estimate is in the upper-cost band and requires explicit confirmation.'']), cg)
      | Some (cost, token) \<Rightarrow>
          if cost \<noteq> ce_estimated_cost_usd estimate
          then ((False, [''Confirmation cost does not match the latest estimate.'']), cg)
          else
            let (valid, cg) = verify_confirmation_token now token account (ce_estimated_cost_usd estimate)
                  (panel_key slots) (token_shape (st_pricing st) mode) cg
            in if \<not> valid
               then ((False, [''Confirmation token is invalid, expired, was issued to a different '' @
                       ''account, or was issued for a different panel or critique shape.'']), cg)
               else ((True, [''Cost confirmation matched the estimate.'']), cg)))"

section \<open>The estimate's decision\<close>

definition threshold_for :: "usd \<Rightarrow> bool \<Rightarrow> threshold_action \<times> string list" where
  "threshold_for bound shared =
     (if bound > HARD_LIMIT_USD
      then (BLOCK, [''Worst-case cost could exceed the USD 0.50 hard limit for '' @
             (if shared then ''this network'' else ''this account'') @ ''.''])
      else if bound > SOFT_THRESHOLD_USD
      then (REQUIRE_CONFIRMATION, [''Worst-case cost could exceed USD 0.30 and requires explicit confirmation.''])
      else (ALLOW, [''Worst-case cost is within the no-confirmation band.'']))"

record rail_readings =
  rr_cumulative :: usd
  rr_running_total_fires :: bool
  rr_ledger_condemned :: bool
  rr_spend_metering_unavailable :: bool
  rr_already_spent :: "usd option"
  rr_daily_cap_fires :: bool

text \<open>The two rails and the ledger's trust, read for the meter key (none without one).\<close>

definition read_rails :: "guard_settings \<Rightarrow> moment \<Rightarrow> bool \<Rightarrow> uuid option \<Rightarrow> usd \<Rightarrow> cost_guard \<Rightarrow> rail_readings \<times> cost_guard" where
  "read_rails st mt reopen_tried meter_key est cg =
     (case meter_key of
        None \<Rightarrow> (\<lparr>rr_cumulative = 0, rr_running_total_fires = False, rr_ledger_condemned = False,
                  rr_spend_metering_unavailable = False, rr_already_spent = None, rr_daily_cap_fires = False\<rparr>, cg)
      | Some k \<Rightarrow>
          let cumulative = cumulative_spend_for k (cg_ring cg);
              readings = \<lparr>rr_cumulative = cumulative,
                rr_running_total_fires = (cumulative > 0 \<and> cumulative + est > HARD_LIMIT_USD),
                rr_ledger_condemned = False, rr_spend_metering_unavailable = False,
                rr_already_spent = None, rr_daily_cap_fires = False\<rparr>
          in if st_daily_cap_fail_closed st \<and> reopen_tried \<and> \<not> feedback_ledger_is_trustworthy (cg_store cg)
             then (readings\<lparr>rr_ledger_condemned := True\<rparr>, log_daily_cap_blocked (at_mono mt) cg)
             else (case cg_store cg of
                 None \<Rightarrow> (readings\<lparr>rr_spend_metering_unavailable := True\<rparr>, log_daily_cap_bypassed (at_mono mt) cg)
               | Some fs \<Rightarrow>
                   if \<not> feedback_ledger_may_be_metered (Some fs)
                   then (readings\<lparr>rr_spend_metering_unavailable := True\<rparr>, log_daily_cap_bypassed (at_mono mt) cg)
                   else let spent = daily_spend_for fs k (at_now mt)
                        in (readings\<lparr>rr_already_spent := Some spent,
                              rr_daily_cap_fires := spent + est > DAILY_CAP_USD\<rparr>, cg)))"

definition block_for ::
  "guard_settings \<Rightarrow> bool \<Rightarrow> threshold_action \<Rightarrow> usd \<Rightarrow> rail_readings \<Rightarrow> (block_reason \<times> string list) option" where
  "block_for st shared action est rr =
     (let meter = (if shared then ''this network'' else ''the account'');
          this_meter = (if shared then ''this network'' else ''this account'');
          no_cap = (if shared then ''no 24h cap'' else ''no account's 24h cap'');
          meter_has = (if shared then ''This network has'' else ''Account has'');
          str = st_str st;
          spent = (case rr_already_spent rr of None \<Rightarrow> 0 | Some s \<Rightarrow> s)
      in if action = BLOCK then None
         else if rr_running_total_fires rr then
           Some (ACCOUNT_RUNNING_TOTAL,
             [''This run would take '' @ meter @ '''s recent spend past its USD '' @ str HARD_LIMIT_USD @ '' running limit.'',
              ''Cumulative spend for '' @ this_meter @ '' is '' @ str (quantize_half_even (rr_cumulative rr)) @ '' USD.''])
         else if rr_ledger_condemned rr then
           Some (LEDGER_UNAVAILABLE,
             [''The daily spend ledger is not writable and a reconnect attempt has already been made without '' @
              ''restoring it, so '' @ no_cap @ '' can be verified right now. This is a storage fault on the '' @
              ''shared ledger, not a limit '' @ this_meter @ '' has reached.''])
         else if rr_daily_cap_fires rr then
           Some (DAILY_CAP,
             (if est \<le> DAILY_CAP_USD
              then [''This run would take '' @ meter @ '' past its USD '' @ str DAILY_CAP_USD @ '' daily cap.'',
                    meter_has @ '' spent '' @ str (quantize_half_even spent) @
                    '' USD in the last 24 hours; spend frees up as each run turns 24 hours old.'']
              else [''This run's estimate of '' @ str est @ '' USD is larger than '' @ meter @
                    '''s whole USD '' @ str DAILY_CAP_USD @
                    '' allowance for 24 hours, so it will not fit however long you wait.'',
                    ''Choose lower-cost models or shorten the question.'']))
         else None)"

record estimate_request =
  er_query_len :: nat
  er_follow_up :: follow_up_tokens
  er_slots :: "model_slot list"
  er_mode :: run_mode
  er_account_id :: "uuid option"
  er_query_run_id :: "uuid option"
  er_spend_key :: "uuid option"
  er_shared_by_network :: bool

definition estimate ::
  "guard_settings \<Rightarrow> moment \<Rightarrow> estimate_request \<Rightarrow> cost_guard \<Rightarrow> (price_error + cost_estimate) \<times> cost_guard" where
  "estimate st mt req cg =
     (let reopen_tried = cg_reopen_failed cg;
          cg = snd (maybe_reconnect_feedback_store st (at_spawns mt) (at_mono mt) cg);
          cf = st_pricing st
      in case estimate_breakdown cf (er_query_len req) (er_slots req) (er_follow_up req) (er_mode req) of
           Inl e \<Rightarrow> (Inl e, cg)
         | Inr breakdown \<Rightarrow>
         (case estimate_bound_usd cf (er_query_len req) (er_slots req) (er_follow_up req) (er_mode req) of
           Inl e \<Rightarrow> (Inl e, cg)
         | Inr bound \<Rightarrow>
             let est = cb_total breakdown;
                 (action, reasons) = threshold_for bound (er_shared_by_network req);
                 meter_key = (if er_spend_key req \<noteq> None then er_spend_key req else er_account_id req);
                 (rr, cg) = read_rails st mt reopen_tried meter_key est cg;
                 allowance = (case rr_already_spent rr of None \<Rightarrow> None
                   | Some spent \<Rightarrow> Some (daily_allowance_from spent (rr_cumulative rr) (er_shared_by_network req)))
             in case block_for st (er_shared_by_network req) action est rr of
                  Some (reason, block_reasons) \<Rightarrow>
                    (Inr \<lparr>ce_estimated_cost_usd = est, ce_currency = ''USD'', ce_threshold_action = BLOCK,
                          ce_confirmation_token = None, ce_reasons = block_reasons, ce_max_cost_usd = Some bound,
                          ce_breakdown = Some breakdown, ce_global_ceiling_reached = False,
                          ce_spend_metering_unavailable = False, ce_block_reason = Some reason,
                          ce_daily_allowance = allowance\<rparr>, cg)
                | None \<Rightarrow>
                    let ceiling_reached = (case cg_store cg of None \<Rightarrow> False
                          | Some fs \<Rightarrow> global_daily_spend fs (at_now mt) \<ge> GLOBAL_DAILY_CEILING_USD);
                        (token, cg) =
                          (if action \<noteq> BLOCK
                           then let (t, cg) = mint_confirmation_token mt
                                      (case er_account_id req of Some a \<Rightarrow> a | None \<Rightarrow> at_fresh mt)
                                      (er_query_run_id req) est (panel_key (er_slots req))
                                      (token_shape cf (er_mode req)) cg
                                in (Some t, cg)
                           else (None, cg))
                    in (Inr \<lparr>ce_estimated_cost_usd = est, ce_currency = ''USD'', ce_threshold_action = action,
                             ce_confirmation_token = token, ce_reasons = reasons, ce_max_cost_usd = Some bound,
                             ce_breakdown = Some breakdown, ce_global_ceiling_reached = ceiling_reached,
                             ce_spend_metering_unavailable = rr_spend_metering_unavailable rr,
                             ce_block_reason = (if action = BLOCK then Some PER_RUN_CAP else None),
                             ce_daily_allowance = allowance\<rparr>, cg)))"

section \<open>Opening, correcting and voiding a charge\<close>

definition guardrail_event_type :: "guard_settings \<Rightarrow> threshold_action \<Rightarrow> bool \<Rightarrow> bool \<Rightarrow> bool \<Rightarrow> string" where
  "guardrail_event_type st action confirmed preview ceiling_reached =
     (if action = BLOCK then ''cost_guardrail_blocked''
      else if action = REQUIRE_CONFIRMATION \<and> \<not> confirmed then ''cost_confirmation_required''
      else if preview then ''cost_estimate_previewed''
      else if ceiling_reached then ''cost_guardrail_degraded_to_simulation''
      else charge_event_type (st_live_execution st))"

definition record_guardrail_event ::
  "guard_settings \<Rightarrow> moment \<Rightarrow> uuid \<Rightarrow> uuid option \<Rightarrow> usd \<Rightarrow> threshold_action \<Rightarrow> bool \<Rightarrow> bool \<Rightarrow> bool \<Rightarrow> cost_guard \<Rightarrow>
   cost_guard" where
  "record_guardrail_event st mt account run est action confirmed preview ceiling_reached cg =
     record_cost_event mt True
       \<lparr>ge_event_type = guardrail_event_type st action confirmed preview ceiling_reached,
        ge_account_id = account, ge_query_run_id = run, ge_estimated_cost_usd = est,
        ge_threshold_action = action, ge_confirmed = confirmed\<rparr> cg"

definition try_record_run_charge ::
  "guard_settings \<Rightarrow> moment \<Rightarrow> uuid \<Rightarrow> uuid \<Rightarrow> usd \<Rightarrow> threshold_action \<Rightarrow> bool \<Rightarrow> bool \<Rightarrow> cost_guard \<Rightarrow>
   charge_outcome \<times> cost_guard" where
  "try_record_run_charge st mt account run est action confirmed ceiling_reached cg =
     (if ceiling_reached
      then (OVER_GLOBAL_CEILING, record_guardrail_event st mt account (Some run) est action confirmed False True cg)
      else (case cg_store cg of
          None \<Rightarrow> (METERING_UNAVAILABLE, log_daily_cap_bypassed (at_mono mt) cg)
        | Some fs \<Rightarrow>
            if \<not> feedback_ledger_may_be_metered (Some fs)
            then (METERING_UNAVAILABLE, log_daily_cap_bypassed (at_mono mt) cg)
            else
              let live = st_live_execution st;
                  ev = \<lparr>ge_event_type = charge_event_type live, ge_account_id = account,
                        ge_query_run_id = Some run, ge_estimated_cost_usd = est,
                        ge_threshold_action = action, ge_confirmed = confirmed\<rparr>;
                  (outcome, fs) = try_record_cost_charge account run est DAILY_CAP_USD GLOBAL_DAILY_CEILING_USD
                    live (at_now mt) (at_lands mt) (at_mono mt) fs;
                  cg = cg\<lparr>cg_store := Some fs\<rparr>
              in if outcome = CHARGE_RECORDED then (outcome, record_cost_event mt False ev cg)
                 else if outcome = OVER_GLOBAL_CEILING
                 then (outcome, record_guardrail_event st mt account (Some run) est action confirmed False True cg)
                 else (outcome, cg)))"

definition reconcile_run_charge :: "moment \<Rightarrow> uuid \<Rightarrow> uuid \<Rightarrow> usd \<Rightarrow> usd \<Rightarrow> cost_guard \<Rightarrow> bool \<times> cost_guard" where
  "reconcile_run_charge mt account run est actual cg =
     (case cg_store cg of
        None \<Rightarrow> (False, cg)
      | Some fs \<Rightarrow>
          let (written, fs) = try_record_cost_reconciliation account run est actual (at_now mt) (at_lands mt) (at_mono mt) fs;
              cg = cg\<lparr>cg_store := Some fs\<rparr>
          in (written, if written then cg\<lparr>cg_ring := snd (reconcile_charge_for_run run actual (cg_ring cg))\<rparr> else cg))"

definition void_run_charge :: "moment \<Rightarrow> uuid \<Rightarrow> uuid \<Rightarrow> cost_guard \<Rightarrow> cost_guard" where
  "void_run_charge mt account run cg =
     (let cg = cg\<lparr>cg_ring := snd (discard_charge_for_run run (cg_ring cg))\<rparr>
      in case cg_store cg of
           None \<Rightarrow> cg
         | Some fs \<Rightarrow> cg\<lparr>cg_store := Some (void_cost_charge account run (at_now mt) (at_lands mt) (at_mono mt) fs)\<rparr>)"

section \<open>What the estimate lets through\<close>

lemma reconnect_keeps [simp]:
  "cg_store (snd (maybe_reconnect_feedback_store st spawns now cg)) = cg_store cg"
  "cg_ring (snd (maybe_reconnect_feedback_store st spawns now cg)) = cg_ring cg"
  "cg_tokens (snd (maybe_reconnect_feedback_store st spawns now cg)) = cg_tokens cg"
  by (auto simp: maybe_reconnect_feedback_store_def Let_def split: option.split)

lemma log_keeps [simp]:
  "cg_store (log_daily_cap_bypassed now cg) = cg_store cg" "cg_store (log_daily_cap_blocked now cg) = cg_store cg"
  "cg_ring (log_daily_cap_bypassed now cg) = cg_ring cg" "cg_ring (log_daily_cap_blocked now cg) = cg_ring cg"
  "cg_tokens (log_daily_cap_bypassed now cg) = cg_tokens cg" "cg_tokens (log_daily_cap_blocked now cg) = cg_tokens cg"
  by (simp_all add: log_daily_cap_bypassed_def log_daily_cap_blocked_def)

lemma read_rails_keeps [simp]:
  "cg_store (snd (read_rails st mt tried k est cg)) = cg_store cg"
  "cg_ring (snd (read_rails st mt tried k est cg)) = cg_ring cg"
  "cg_tokens (snd (read_rails st mt tried k est cg)) = cg_tokens cg"
  by (auto simp: read_rails_def Let_def split: option.split)

lemma block_for_None:
  "block_for st shared action est rr = None \<longleftrightarrow>
   action = BLOCK \<or> \<not> rr_running_total_fires rr \<and> \<not> rr_ledger_condemned rr \<and> \<not> rr_daily_cap_fires rr"
  by (auto simp: block_for_def Let_def)

lemma threshold_for_cases:
  "fst (threshold_for bound shared) = BLOCK \<longleftrightarrow> HARD_LIMIT_USD < bound"
  "fst (threshold_for bound shared) = REQUIRE_CONFIRMATION \<longleftrightarrow> SOFT_THRESHOLD_USD < bound \<and> bound \<le> HARD_LIMIT_USD"
  by (auto simp: threshold_for_def)

text \<open>The rails one estimate read, and whether the run may go on.\<close>

definition rails_clear :: "guard_settings \<Rightarrow> moment \<Rightarrow> uuid \<Rightarrow> usd \<Rightarrow> cost_guard \<Rightarrow> bool" where
  "rails_clear st mt k est cg =
     ((cumulative_spend_for k (cg_ring cg) > 0 \<longrightarrow> cumulative_spend_for k (cg_ring cg) + est \<le> HARD_LIMIT_USD)
      \<and> \<not> (st_daily_cap_fail_closed st \<and> cg_reopen_failed cg \<and> \<not> feedback_ledger_is_trustworthy (cg_store cg))
      \<and> (\<forall>fs. cg_store cg = Some fs \<and> feedback_ledger_may_be_metered (Some fs) \<longrightarrow>
            daily_spend_for fs k (at_now mt) + est \<le> DAILY_CAP_USD))"

lemma read_rails_clear:
  "(let rr = fst (read_rails st mt (cg_reopen_failed cg) (Some k) est cg')
    in \<not> rr_running_total_fires rr \<and> \<not> rr_ledger_condemned rr \<and> \<not> rr_daily_cap_fires rr) \<longleftrightarrow>
   rails_clear st mt k est (cg'\<lparr>cg_reopen_failed := cg_reopen_failed cg\<rparr>)"
  by (auto simp: read_rails_def rails_clear_def Let_def not_less feedback_ledger_may_be_metered_def
      split: option.split)

lemma rails_clear_cong:
  "cg_store cg = cg_store cg' \<Longrightarrow> cg_ring cg = cg_ring cg' \<Longrightarrow> cg_reopen_failed cg = cg_reopen_failed cg' \<Longrightarrow>
   rails_clear st mt k est cg = rails_clear st mt k est cg'"
  by (simp add: rails_clear_def)

text \<open>What the estimate lets through, and why it stops: a run is blocked exactly when its worst case is
  above the hard limit or one of the rails refuses it (the running total, a condemned ledger under the
  fail-closed policy, the daily cap); a blocked estimate carries a reason and no token, one that is not
  carries a token; and a ledger that cannot be metered marks the run as unmetered.\<close>

theorem estimate_blocks_exactly:
  assumes "estimate st mt req cg = (Inr e, cg')"
    and "(case er_spend_key req of None \<Rightarrow> er_account_id req | Some k \<Rightarrow> Some k) = Some k"
  shows "\<exists>bound. ce_max_cost_usd e = Some bound
    \<and> (ce_threshold_action e \<noteq> BLOCK \<longleftrightarrow> bound \<le> HARD_LIMIT_USD \<and> rails_clear st mt k (ce_estimated_cost_usd e) cg)
    \<and> (ce_threshold_action e = REQUIRE_CONFIRMATION \<longrightarrow> SOFT_THRESHOLD_USD < bound)
    \<and> (ce_threshold_action e = BLOCK \<longleftrightarrow> ce_block_reason e \<noteq> None)
    \<and> (ce_threshold_action e = BLOCK \<longleftrightarrow> ce_confirmation_token e = None)
    \<and> (ce_threshold_action e \<noteq> BLOCK \<longrightarrow>
         (ce_spend_metering_unavailable e \<longleftrightarrow> \<not> feedback_ledger_may_be_metered (cg_store cg)))"
proof -
  let ?cg = "snd (maybe_reconnect_feedback_store st (at_spawns mt) (at_mono mt) cg)"
  have key: "(if er_spend_key req \<noteq> None then er_spend_key req else er_account_id req) = Some k"
    using assms(2) by (auto split: option.splits)
  obtain b where b: "estimate_breakdown (st_pricing st) (er_query_len req) (er_slots req) (er_follow_up req) (er_mode req) = Inr b"
    using assms(1) by (auto simp: estimate_def Let_def split: sum.splits)
  obtain bound where bound: "estimate_bound_usd (st_pricing st) (er_query_len req) (er_slots req) (er_follow_up req) (er_mode req) = Inr bound"
    using assms(1) b by (auto simp: estimate_def Let_def split: sum.splits)
  obtain action reasons where thr: "threshold_for bound (er_shared_by_network req) = (action, reasons)" by force
  obtain rr cg2 where rr: "read_rails st mt (cg_reopen_failed cg) (Some k) (cb_total b) ?cg = (rr, cg2)" by force
  note act = threshold_for_cases[of bound "er_shared_by_network req", unfolded thr fst_conv]
  have clear: "(\<not> rr_running_total_fires rr \<and> \<not> rr_ledger_condemned rr \<and> \<not> rr_daily_cap_fires rr)
      \<longleftrightarrow> rails_clear st mt k (cb_total b) cg"
    using read_rails_clear[of st mt cg k "cb_total b" ?cg] rr
    by (simp add: Let_def rails_clear_def)
  have unmetered: "\<not> rr_ledger_condemned rr \<Longrightarrow>
      rr_spend_metering_unavailable rr \<longleftrightarrow> \<not> feedback_ledger_may_be_metered (cg_store cg)"
    using rr by (auto simp: read_rails_def Let_def feedback_ledger_may_be_metered_def split: option.splits if_splits)
  show ?thesis
  proof (cases "block_for st (er_shared_by_network req) action (cb_total b) rr")
    case None
    with assms(1) b bound thr rr key
    have e: "ce_max_cost_usd e = Some bound" "ce_estimated_cost_usd e = cb_total b" "ce_threshold_action e = action"
      "ce_block_reason e = (if action = BLOCK then Some PER_RUN_CAP else None)"
      "ce_confirmation_token e = None \<longleftrightarrow> action = BLOCK"
      "ce_spend_metering_unavailable e = rr_spend_metering_unavailable rr"
      by (auto simp: estimate_def Let_def mint_confirmation_token_def split: if_splits)
    show ?thesis using None act clear unmetered unfolding block_for_None e by (auto simp: not_less)
  next
    case (Some br)
    then have no: "action \<noteq> BLOCK" "\<not> rails_clear st mt k (cb_total b) cg"
      using block_for_None[of st "er_shared_by_network req" action "cb_total b" rr] clear by auto
    from Some assms(1) b bound thr rr key
    have e: "ce_max_cost_usd e = Some bound" "ce_estimated_cost_usd e = cb_total b" "ce_threshold_action e = BLOCK"
      "ce_block_reason e \<noteq> None" "ce_confirmation_token e = None"
      by (auto simp: estimate_def Let_def split: prod.splits)
    show ?thesis using no e by auto
  qed
qed

lemma estimate_returns:
  assumes "config_ok (st_pricing st)" and "slots_allowed (er_mode req) (er_slots req)" and "follow_up_ok (er_follow_up req)"
  shows "\<exists>e cg'. estimate st mt req cg = (Inr e, cg')"
proof -
  from allowed_panel_priced[OF assms] obtain b bound where
    "estimate_breakdown (st_pricing st) (er_query_len req) (er_slots req) (er_follow_up req) (er_mode req) = Inr b"
    "estimate_bound_usd (st_pricing st) (er_query_len req) (er_slots req) (er_follow_up req) (er_mode req) = Inr bound"
    by blast
  then show ?thesis
    by (simp add: estimate_def Let_def case_prod_unfold split: option.split)
qed

definition sample_settings :: guard_settings where
  "sample_settings = \<lparr>st_daily_cap_fail_closed = False, st_live_execution = True, st_reconnect_enabled = True,
     st_reconnect_cooldown = 60, st_pricing = sample_config, st_str = (\<lambda>_. ''0'')\<rparr>"

definition new_cost_guard :: cost_guard where
  "new_cost_guard = \<lparr>cg_ring = [], cg_tokens = [], cg_store = Some new_feedback_store, cg_reopen_failed = False,
     cg_reopen_attempt_at = None, cg_bypass_logged_at = None, cg_block_logged_at = None\<rparr>"

definition sample_moment :: moment where
  "sample_moment = \<lparr>at_now = 0, at_mono = 0, at_lands = True, at_token = ''t1'', at_fresh = 99, at_spawns = True\<rparr>"

definition sample_request :: estimate_request where
  "sample_request = \<lparr>er_query_len = 80, er_follow_up = no_follow_up, er_slots = two_slots, er_mode = MODE_PANEL,
     er_account_id = Some 1, er_query_run_id = None, er_spend_key = None, er_shared_by_network = False\<rparr>"

lemma estimate_blocks_exactly_witness:
  "\<exists>e cg' bound. estimate sample_settings sample_moment sample_request new_cost_guard = (Inr e, cg')
    \<and> ce_max_cost_usd e = Some bound
    \<and> (ce_threshold_action e \<noteq> BLOCK \<longleftrightarrow> bound \<le> HARD_LIMIT_USD
        \<and> rails_clear sample_settings sample_moment 1 (ce_estimated_cost_usd e) new_cost_guard)"
proof -
  have "config_ok (st_pricing sample_settings)" "slots_allowed (er_mode sample_request) (er_slots sample_request)"
    "follow_up_ok (er_follow_up sample_request)"
    by (simp_all add: sample_settings_def sample_config_ok sample_request_def slots_allowed_def two_slots_def
        MIN_SLOT_COUNT_def MAX_SLOT_COUNT_def)
  then obtain e cg' where e: "estimate sample_settings sample_moment sample_request new_cost_guard = (Inr e, cg')"
    using estimate_returns by blast
  have "(case er_spend_key sample_request of None \<Rightarrow> er_account_id sample_request | Some k \<Rightarrow> Some k) = Some 1"
    by (simp add: sample_request_def)
  from estimate_blocks_exactly[OF e this] e show ?thesis by blast
qed

section \<open>Confirmation tokens\<close>

datatype token_op =
    TMint moment uuid "uuid option" usd panel_key critique_shape
  | TVerify micros string "uuid option" usd panel_key critique_shape

fun token_step :: "token_op \<Rightarrow> cost_guard \<Rightarrow> bool \<times> cost_guard" where
  "token_step (TMint mt account run est panel shape) cg =
     (True, snd (mint_confirmation_token mt account run est panel shape cg))"
| "token_step (TVerify now token account est panel shape) cg =
     verify_confirmation_token now token account est panel shape cg"

fun mints_token :: "token_op \<Rightarrow> string \<Rightarrow> bool" where
  "mints_token (TMint mt account run est panel shape) k = (at_token mt = k)"
| "mints_token (TVerify now token account est panel shape) k = False"

fun verifies_token :: "token_op \<Rightarrow> string \<Rightarrow> bool" where
  "verifies_token (TMint mt account run est panel shape) k = False"
| "verifies_token (TVerify now token account est panel shape) k = (token = k)"

definition token_held :: "cost_guard \<Rightarrow> string \<Rightarrow> bool" where
  "token_held cg k = (k \<in> fst ` set (cg_tokens cg))"

lemma purge_subset: "set (purge_expired_tokens now tokens) \<subseteq> set tokens"
  by (auto simp: purge_expired_tokens_def Let_def)

lemma update_subset: "set (AList.update k v d) \<subseteq> insert (k, v) (set d)"
  by (induction d) auto

lemma delete_subset: "set (AList.delete k d) \<subseteq> set d"
  by (auto simp: AList.delete_eq)

lemma verify_success:
  assumes "verify_confirmation_token now token account est panel shape cg = (True, cg')"
  shows "\<exists>r. map_of (cg_tokens cg) token = Some r \<and> (account = None \<or> account = Some (bt_account_id r))
    \<and> bt_estimated_cost_usd r = est \<and> bt_panel r = panel \<and> bt_critique_shape r = shape \<and> now \<le> bt_expires_at r
    \<and> cg_tokens cg' = AList.delete token (cg_tokens cg)"
  using assms
  by (auto simp: verify_confirmation_token_def Let_def split: option.splits if_splits)

lemma verify_tokens:
  "set (cg_tokens (snd (verify_confirmation_token now token account est panel shape cg))) \<subseteq> set (cg_tokens cg)"
  using delete_subset[of token "cg_tokens cg"]
  by (auto simp: verify_confirmation_token_def Let_def split: option.split)

lemma mint_tokens:
  "set (cg_tokens (snd (mint_confirmation_token mt account run est panel shape cg))) \<subseteq>
   insert (at_token mt, \<lparr>bt_account_id = account, bt_query_run_id = run, bt_estimated_cost_usd = est,
     bt_expires_at = at_now mt + CONFIRMATION_TOKEN_TTL, bt_token = at_token mt, bt_panel = panel,
     bt_critique_shape = shape\<rparr>) (set (cg_tokens cg))"
  by (simp add: mint_confirmation_token_def Let_def) (rule subset_trans[OF purge_subset update_subset])

interpretation confirmation: one_shot token_step mints_token verifies_token token_held
proof
  fix x :: token_op and cg k
  show "verifies_token x k \<Longrightarrow> fst (token_step x cg) \<Longrightarrow> token_held cg k"
  proof (cases x)
    case (TVerify now token account est panel shape)
    assume "verifies_token x k" "fst (token_step x cg)"
    with TVerify verify_success[of now token account est panel shape cg] show ?thesis
      by (cases "verify_confirmation_token now token account est panel shape cg")
        (auto simp: token_held_def dest!: map_of_SomeD, force+)
  qed simp
  show "verifies_token x k \<Longrightarrow> fst (token_step x cg) \<Longrightarrow> \<not> token_held (snd (token_step x cg)) k"
  proof (cases x)
    case (TVerify now token account est panel shape)
    assume "verifies_token x k" "fst (token_step x cg)"
    with TVerify verify_success[of now token account est panel shape cg] show ?thesis
      by (cases "verify_confirmation_token now token account est panel shape cg")
        (auto simp: token_held_def AList.delete_eq)
  qed simp
  show "\<not> mints_token x k \<Longrightarrow> token_held (snd (token_step x cg)) k \<Longrightarrow> token_held cg k"
  proof (cases x)
    case (TMint mt account run est panel shape)
    assume "\<not> mints_token x k" "token_held (snd (token_step x cg)) k"
    with TMint show ?thesis
      using mint_tokens[of mt account run est panel shape cg] by (auto simp: token_held_def)
  next
    case (TVerify now token account est panel shape)
    assume "token_held (snd (token_step x cg)) k"
    with TVerify show ?thesis
      using verify_tokens[of now token account est panel shape cg] by (auto simp: token_held_def)
  qed
  show "mints_token x k \<Longrightarrow> \<not> verifies_token x k" by (cases x) simp_all
qed

text \<open>C6. A confirmation token is one-shot: in any sequence of mints and checks, a token is accepted at most as
  many times as it was minted.\<close>

theorem confirmation_token_one_shot:
  "redeemed verifies_token k (runs_of token_step (cg\<lparr>cg_tokens := []\<rparr>) ops) \<le> minted mints_token k ops"
  using confirmation.redeemed_at_most_minted[of k "cg\<lparr>cg_tokens := []\<rparr>" ops] by (simp add: token_held_def)

text \<open>The mint a table entry comes from.\<close>

definition minted_by :: "token_op list \<Rightarrow> string \<times> bound_token \<Rightarrow> bool" where
  "minted_by ops p =
     (\<exists>mt run. TMint mt (bt_account_id (snd p)) run (bt_estimated_cost_usd (snd p)) (bt_panel (snd p))
         (bt_critique_shape (snd p)) \<in> set ops
       \<and> at_token mt = fst p \<and> bt_expires_at (snd p) = at_now mt + CONFIRMATION_TOKEN_TTL)"

lemma minted_by_mono: "minted_by ops p \<Longrightarrow> set ops \<subseteq> set ops' \<Longrightarrow> minted_by ops' p"
  by (auto simp: minted_by_def)

lemma token_step_minted_by:
  assumes "\<forall>p \<in> set (cg_tokens cg). minted_by pre p"
  shows "\<forall>p \<in> set (cg_tokens (snd (token_step x cg))). minted_by (pre @ [x]) p"
proof
  fix p assume p: "p \<in> set (cg_tokens (snd (token_step x cg)))"
  show "minted_by (pre @ [x]) p"
  proof (cases "p \<in> set (cg_tokens cg)")
    case True
    then show ?thesis using assms by (auto intro: minted_by_mono)
  next
    case False
    then show ?thesis
    proof (cases x)
      case (TMint mt account run est panel shape)
      with p False mint_tokens[of mt account run est panel shape cg]
      have "p = (at_token mt, \<lparr>bt_account_id = account, bt_query_run_id = run, bt_estimated_cost_usd = est,
         bt_expires_at = at_now mt + CONFIRMATION_TOKEN_TTL, bt_token = at_token mt, bt_panel = panel,
         bt_critique_shape = shape\<rparr>)"
        by auto
      with TMint show ?thesis by (auto simp: minted_by_def)
    next
      case (TVerify now token account est panel shape)
      with p False verify_tokens[of now token account est panel shape cg] show ?thesis by auto
    qed
  qed
qed

lemma verified_was_minted:
  assumes "\<forall>p \<in> set (cg_tokens cg). minted_by pre p"
    and "(TVerify now token account est panel shape, True) \<in> set (runs_of token_step cg ops)"
  shows "\<exists>mt a run. TMint mt a run est panel shape \<in> set (pre @ ops) \<and> at_token mt = token
    \<and> (account = None \<or> account = Some a) \<and> now \<le> at_now mt + CONFIRMATION_TOKEN_TTL"
  using assms
proof (induction ops arbitrary: cg pre)
  case (Cons x ops)
  show ?case
  proof (cases "(TVerify now token account est panel shape, True) = (x, fst (token_step x cg))")
    case True
    then obtain cg' where "verify_confirmation_token now token account est panel shape cg = (True, cg')"
      by (cases "verify_confirmation_token now token account est panel shape cg") auto
    from verify_success[OF this] obtain r where r: "map_of (cg_tokens cg) token = Some r"
      "account = None \<or> account = Some (bt_account_id r)" "bt_estimated_cost_usd r = est" "bt_panel r = panel"
      "bt_critique_shape r = shape" "now \<le> bt_expires_at r"
      by blast
    then have "minted_by pre (token, r)" using Cons.prems(1) by (auto dest: map_of_SomeD)
    with r show ?thesis by (fastforce simp: minted_by_def)
  next
    case False
    with Cons.prems(2) have "(TVerify now token account est panel shape, True)
        \<in> set (runs_of token_step (snd (token_step x cg)) ops)"
      by auto
    from Cons.IH[OF token_step_minted_by[OF Cons.prems(1)] this] show ?thesis by simp
  qed
qed simp

text \<open>A confirmation token is bound: whenever a check is accepted, that token was minted for the same cost,
  the same ordered panel and critique shape, for the account that checks it (when one does), and at most
  five minutes before.\<close>

theorem confirmation_token_bound:
  assumes "(TVerify now token account est panel shape, True) \<in> set (runs_of token_step (cg\<lparr>cg_tokens := []\<rparr>) ops)"
  shows "\<exists>mt a run. TMint mt a run est panel shape \<in> set ops \<and> at_token mt = token
    \<and> (account = None \<or> account = Some a) \<and> now \<le> at_now mt + 5 * 60 * 1000000"
  using verified_was_minted[OF _ assms, of "[]"] by (simp add: CONFIRMATION_TOKEN_TTL_def)

definition sample_token_ops :: "token_op list" where
  "sample_token_ops = [TMint sample_moment 1 None (1 / 3) [(''m'', True)] CRITIQUE_SHAPE_PEER,
     TVerify 7 ''t1'' (Some 2) (1 / 3) [(''m'', True)] CRITIQUE_SHAPE_PEER,
     TVerify 8 ''t1'' (Some 1) (1 / 3) [(''m'', True)] CRITIQUE_SHAPE_PEER,
     TVerify 9 ''t1'' (Some 1) (1 / 3) [(''m'', True)] CRITIQUE_SHAPE_PEER]"

lemma confirmation_token_bound_witness:
  "map snd (runs_of token_step (new_cost_guard\<lparr>cg_tokens := []\<rparr>) sample_token_ops) = [True, False, True, False]
   \<and> (\<exists>mt a run. TMint mt a run (1 / 3) [(''m'', True)] CRITIQUE_SHAPE_PEER \<in> set sample_token_ops
       \<and> at_token mt = ''t1'' \<and> (Some 1 = None \<or> Some 1 = Some a) \<and> 8 \<le> at_now mt + 5 * 60 * 1000000)"
proof -
  have runs: "runs_of token_step (new_cost_guard\<lparr>cg_tokens := []\<rparr>) sample_token_ops
      = zip sample_token_ops [True, False, True, False]"
    by (simp add: sample_token_ops_def mint_confirmation_token_def verify_confirmation_token_def Let_def
        purge_expired_tokens_def MAX_TOKENS_def CONFIRMATION_TOKEN_TTL_def sample_moment_def)
  have "(TVerify 8 ''t1'' (Some 1) (1 / 3) [(''m'', True)] CRITIQUE_SHAPE_PEER, True)
      \<in> set (runs_of token_step (new_cost_guard\<lparr>cg_tokens := []\<rparr>) sample_token_ops)"
    unfolding runs by (simp add: sample_token_ops_def)
  from confirmation_token_bound[OF this] show ?thesis unfolding runs by (simp add: sample_token_ops_def)
qed

section \<open>Both rails\<close>

text \<open>What one account has on the two rails at one moment: the ring's total and the ledger's last day.\<close>

definition rail_pair :: "uuid \<Rightarrow> micros \<Rightarrow> cost_guard \<Rightarrow> usd \<times> usd" where
  "rail_pair account now cg =
     (cumulative_spend_for account (cg_ring cg),
      case cg_store cg of None \<Rightarrow> 0 | Some fs \<Rightarrow> daily_spend_for fs account now)"

definition run_in_ring :: "uuid \<Rightarrow> uuid \<Rightarrow> usd \<Rightarrow> guardrail_event list \<Rightarrow> bool" where
  "run_in_ring account run est ring =
     (\<exists>xs ys e. ring = xs @ e # ys \<and> ring_charge_of run e \<and> ge_account_id e = account \<and> ge_estimated_cost_usd e = est
       \<and> list_all (\<lambda>d. \<not> ring_charge_of run d) (xs @ ys))"

lemma ring_charge_counts: "ring_charge_of run e \<Longrightarrow> ge_event_type e \<in> set RING_CHARGE_EVENT_TYPES"
  by (simp add: ring_charge_of_def)

lemma cumulative_append: "cumulative_spend_for a (xs @ ys) = cumulative_spend_for a xs + cumulative_spend_for a ys"
  by (simp add: cumulative_spend_for_def)

lemma cumulative_Cons: "cumulative_spend_for a (e # ys) =
    (if ge_account_id e = a \<and> ge_event_type e \<in> set RING_CHARGE_EVENT_TYPES then ge_estimated_cost_usd e else 0)
    + cumulative_spend_for a ys"
  by (simp add: cumulative_spend_for_def)

lemma others_kept:
  "list_all (\<lambda>d. \<not> ring_charge_of run d) xs \<Longrightarrow> snd (discard_charge_for_run run xs) = xs"
  "list_all (\<lambda>d. \<not> ring_charge_of run d) xs \<Longrightarrow> snd (reconcile_charge_for_run run actual xs) = xs"
  by (auto simp: discard_charge_for_run_def reconcile_charge_for_run_def list_all_iff filter_id_conv Let_def intro!: map_idI)

lemma discard_append: "snd (discard_charge_for_run run (xs @ ys)) =
    snd (discard_charge_for_run run xs) @ snd (discard_charge_for_run run ys)"
  by (simp add: discard_charge_for_run_def Let_def)

lemma reconcile_append: "snd (reconcile_charge_for_run run actual (xs @ ys)) =
    snd (reconcile_charge_for_run run actual xs) @ snd (reconcile_charge_for_run run actual ys)"
  by (simp add: reconcile_charge_for_run_def)

lemma ring_discard_delta:
  assumes "run_in_ring account run est ring"
  shows "cumulative_spend_for account (snd (discard_charge_for_run run ring)) = cumulative_spend_for account ring - est"
proof -
  obtain xs ys e where ring: "ring = xs @ e # ys" "ring_charge_of run e" "ge_account_id e = account"
    "ge_estimated_cost_usd e = est" "list_all (\<lambda>d. \<not> ring_charge_of run d) xs" "list_all (\<lambda>d. \<not> ring_charge_of run d) ys"
    using assms by (auto simp: run_in_ring_def)
  have "snd (discard_charge_for_run run (e # ys)) = ys"
    using others_kept(1)[OF ring(6)] ring(2) by (simp add: discard_charge_for_run_def Let_def)
  then show ?thesis using ring_charge_counts[OF ring(2)] ring(3,4) others_kept(1)[OF ring(5)]
    by (simp add: ring(1) discard_append cumulative_append cumulative_Cons)
qed

lemma ring_reconcile_delta:
  assumes "run_in_ring account run est ring"
  shows "cumulative_spend_for account (snd (reconcile_charge_for_run run actual ring))
    = cumulative_spend_for account ring - est + actual"
proof -
  obtain xs ys e where ring: "ring = xs @ e # ys" "ring_charge_of run e" "ge_account_id e = account"
    "ge_estimated_cost_usd e = est" "list_all (\<lambda>d. \<not> ring_charge_of run d) xs" "list_all (\<lambda>d. \<not> ring_charge_of run d) ys"
    using assms by (auto simp: run_in_ring_def)
  have "snd (reconcile_charge_for_run run actual (e # ys)) = e\<lparr>ge_estimated_cost_usd := actual\<rparr> # ys"
    using others_kept(2)[OF ring(6)] ring(2) by (simp add: reconcile_charge_for_run_def)
  then show ?thesis using ring_charge_counts[OF ring(2)] ring(3,4) others_kept(2)[OF ring(5)]
    by (simp add: ring(1) reconcile_append cumulative_append cumulative_Cons)
qed

lemma charge_type_rings [simp]: "charge_event_type live \<in> set RING_CHARGE_EVENT_TYPES"
  by (simp add: charge_event_type_def RING_CHARGE_EVENT_TYPES_def)

text \<open>A recorded charge opens on both rails and nothing else does: when the charge is recorded, the ring
  and the account's ledger day both rise by exactly the estimate and the run is in the ring once; on any
  other outcome neither rail moves.\<close>

theorem charge_moves_both_rails:
  assumes "cg_store cg = Some fs" and "ledger_ok t (fs_rows fs)" and "t \<le> at_now mt"
    and "run \<notin> set (keyed_runs (fs_rows fs))" and "0 \<le> est" and "length (cg_ring cg) < MAX_EVENTS"
    and "list_all (\<lambda>e. \<not> ring_charge_of run e) (cg_ring cg)"
    and "try_record_run_charge st mt account run est action confirmed ceiling_reached cg = (outcome, cg')"
    and "\<And>s. fs_last_write_success_at fs = Some s \<Longrightarrow> s \<le> at_mono mt" and "action \<noteq> BLOCK"
    and "action = REQUIRE_CONFIRMATION \<Longrightarrow> confirmed"
  shows "if outcome = CHARGE_RECORDED
    then rail_pair account (at_now mt) cg' = (fst (rail_pair account (at_now mt) cg) + est, snd (rail_pair account (at_now mt) cg) + est)
      \<and> run_in_ring account run est (cg_ring cg')
    else rail_pair account (at_now mt) cg' = rail_pair account (at_now mt) cg"
proof -
  let ?deg = "record_guardrail_event st mt account (Some run) est action confirmed False True"
  have deg_type: "guardrail_event_type st action confirmed False True = ''cost_guardrail_degraded_to_simulation''"
    using assms(10,11) by (auto simp: guardrail_event_type_def)
  have not_charge: "''cost_guardrail_degraded_to_simulation'' \<notin> set RING_CHARGE_EVENT_TYPES"
    by (simp add: RING_CHARGE_EVENT_TYPES_def event_names)
  have deg: "rail_pair account (at_now mt) (?deg g) = rail_pair account (at_now mt) g" if "cg_ring g = cg_ring cg" "cg_store g = Some fs" for g
  proof -
    let ?ev = "\<lparr>ge_event_type = guardrail_event_type st action confirmed False True,
        ge_account_id = account, ge_query_run_id = Some run, ge_estimated_cost_usd = est,
        ge_threshold_action = action, ge_confirmed = confirmed\<rparr>"
    have "cumulative_spend_for account (ring_append ?ev (cg_ring g)) = cumulative_spend_for account (cg_ring g)"
      using assms(6) that not_charge by (simp add: ring_append_def Let_def cumulative_append cumulative_Cons
          deg_type cumulative_spend_for_def[of _ "[]"])
    moreover have "\<not> in_scope c (Some account) ACCOUNT_CHARGE_EVENTS (guard_row ?ev now)"
      "\<not> in_scope c (Some account) [COST_RECONCILED_EVENT, COST_CHARGE_VOIDED_EVENT] (guard_row ?ev now)" for c now
      by (simp_all add: in_scope_def guard_row_def deg_type ACCOUNT_CHARGE_EVENTS_def event_names)
    then have "daily_spend_for (snd (insert_event lands clk (guard_row ?ev now) fs)) account (at_now mt)
        = daily_spend_for fs account (at_now mt)" for lands clk now
      by (simp add: daily_spend_for_def spend_total_def)
    ultimately show ?thesis using that
      by (simp add: record_guardrail_event_def record_cost_event_def rail_pair_def)
  qed
  show ?thesis
  proof (cases "ceiling_reached \<or> \<not> feedback_ledger_may_be_metered (Some fs)")
    case True
    then show ?thesis using assms(1,8) deg[of cg]
      by (auto simp: try_record_run_charge_def rail_pair_def split: if_splits)
  next
    case False
    obtain oc fs2 where ch: "try_record_cost_charge account run est DAILY_CAP_USD GLOBAL_DAILY_CEILING_USD
        (st_live_execution st) (at_now mt) (at_lands mt) (at_mono mt) fs = (oc, fs2)"
      by force
    note delta = charge_delta[OF assms(2,3,4,5) ch assms(9)]
    let ?g = "cg\<lparr>cg_store := Some fs2\<rparr>"
    have g: "rail_pair account (at_now mt) ?g = (fst (rail_pair account (at_now mt) cg), daily_spend_for fs2 account (at_now mt))"
      by (simp add: rail_pair_def)
    let ?ev = "\<lparr>ge_event_type = charge_event_type (st_live_execution st), ge_account_id = account,
        ge_query_run_id = Some run, ge_estimated_cost_usd = est, ge_threshold_action = action, ge_confirmed = confirmed\<rparr>"
    consider "oc = CHARGE_RECORDED" | "oc = OVER_GLOBAL_CEILING" | "oc = OVER_DAILY_CAP" | "oc = METERING_UNAVAILABLE"
      by (cases oc) auto
    then show ?thesis
    proof cases
      case 1
      with assms(1,8) ch False have res: "outcome = CHARGE_RECORDED" "cg' = record_cost_event mt False ?ev ?g"
        by (auto simp: try_record_run_charge_def Let_def)
      have ring: "cg_ring cg' = cg_ring cg @ [?ev]"
        using assms(6) by (simp add: res record_cost_event_def ring_append_def Let_def)
      have "run_in_ring account run est (cg_ring cg')"
        unfolding ring run_in_ring_def using assms(7)
        by (intro exI[of _ "cg_ring cg"] exI[of _ "[]"] exI[of _ ?ev]) (simp add: ring_charge_of_def)
      moreover have "cumulative_spend_for account (cg_ring cg') = cumulative_spend_for account (cg_ring cg) + est"
        unfolding ring by (simp add: cumulative_append cumulative_Cons cumulative_spend_for_def[of _ "[]"])
      moreover have "cg_store cg' = Some fs2" by (simp add: res record_cost_event_def)
      ultimately show ?thesis using delta 1 res assms(1) by (simp add: rail_pair_def)
    next
      case 2
      with delta have "fs2 = fs" by simp
      with 2 assms(1,8) ch False show ?thesis using deg[of ?g] g
        by (auto simp: try_record_run_charge_def Let_def rail_pair_def)
    next
      case 3
      with delta have "fs2 = fs" by simp
      with 3 assms(1,8) ch False show ?thesis by (auto simp: try_record_run_charge_def Let_def rail_pair_def)
    next
      case 4
      with delta have "fs_rows fs2 = fs_rows fs" by simp
      with 4 assms(1,8) ch False show ?thesis
        by (auto simp: try_record_run_charge_def Let_def rail_pair_def daily_spend_for_def)
    qed
  qed
qed

text \<open>A run's charge is corrected and taken back on both rails alike: a written reconciliation replaces the
  estimate by the measured cost on both, a void takes the estimate off both.\<close>

theorem rails_move_together:
  assumes "cg_store cg = Some fs" and "ledger_ok t (fs_rows fs)" and "t \<le> at_now mt" and "0 \<le> actual"
    and "charge_row account run est True stamp \<in> set (fs_rows fs)" and "at_now mt - DAY \<le> stamp"
    and "COST_RECONCILED_EVENT \<notin> set (run_events_seen run (at_now mt - DAY) (fs_rows fs))"
    and "COST_CHARGE_VOIDED_EVENT \<notin> set (run_events_seen run (at_now mt - DAY) (fs_rows fs))"
    and "run_in_ring account run est (cg_ring cg)" and "at_lands mt" and "rail_pair account (at_now mt) cg = (ring, day)"
  shows "fst (reconcile_run_charge mt account run est actual cg)
    \<and> rail_pair account (at_now mt) (snd (reconcile_run_charge mt account run est actual cg))
        = (ring - est + actual, day - est + actual)
    \<and> rail_pair account (at_now mt) (void_run_charge mt account run cg) = (ring - est, day - est)"
proof -
  have day: "ring = cumulative_spend_for account (cg_ring cg)" "day = daily_spend_for fs account (at_now mt)"
    using assms(1,11) by (auto simp: rail_pair_def)
  have acc: "COST_ACCEPTED_EVENT \<in> set (run_events_seen run (at_now mt - DAY) (fs_rows fs))"
    unfolding run_events_seen_def set_map
  proof (rule image_eqI)
    show "COST_ACCEPTED_EVENT = lr_event_type (charge_row account run est True stamp)" by (simp add: charge_event_type_def)
    show "charge_row account run est True stamp \<in> set (filter (\<lambda>row. lr_query_run_id row = Some run
       \<and> in_scope (at_now mt - DAY) None [COST_ACCEPTED_EVENT, COST_RECONCILED_EVENT, COST_CHARGE_VOIDED_EVENT] row) (fs_rows fs))"
      using assms(5,6) by (simp add: charge_event_type_def)
  qed
  obtain fs2 where fs2: "try_record_cost_reconciliation account run est actual (at_now mt) True (at_mono mt) fs = (True, fs2)"
    using acc assms(7,8) by (simp add: try_record_cost_reconciliation_def)
  have rec: "daily_spend_for fs2 account (at_now mt) = daily_spend_for fs account (at_now mt) - est + actual"
    using reconcile_delta[OF assms(2,3,4,5,6) fs2] by blast
  have void: "daily_spend_for (void_cost_charge account run (at_now mt) True (at_mono mt) fs) account (at_now mt)
      = daily_spend_for fs account (at_now mt) - est"
    using void_delta[OF assms(2,3,5,6,7,8)] by blast
  show ?thesis
    using assms(1,10) fs2 rec void ring_reconcile_delta[OF assms(9)] ring_discard_delta[OF assms(9)]
    by (simp add: reconcile_run_charge_def void_run_charge_def rail_pair_def Let_def day)
qed

text \<open>When the reconciliation's write is lost the rails part: the ring takes the measured cost while the
  ledger, reported as corrected, keeps the estimate.\<close>

theorem lost_reconciliation_parts_rails:
  "let cg = new_cost_guard\<lparr>cg_store := Some (new_feedback_store\<lparr>fs_rows := [charge_row 1 10 (3/10) True 0]\<rparr>),
        cg_ring := [\<lparr>ge_event_type = COST_ACCEPTED_EVENT, ge_account_id = 1, ge_query_run_id = Some 10,
          ge_estimated_cost_usd = 3/10, ge_threshold_action = ALLOW, ge_confirmed = False\<rparr>]\<rparr>;
       (written, cg') = reconcile_run_charge (sample_moment\<lparr>at_now := 5, at_lands := False\<rparr>) 1 10 (3/10) (1/10) cg
   in written \<and> rail_pair 1 5 cg = (3/10, 3/10) \<and> rail_pair 1 5 cg' = (1/10, 3/10)"
  by (simp add: ledger_eval reconcile_run_charge_def reconcile_charge_for_run_def rail_pair_def new_cost_guard_def
      sample_moment_def ring_charge_of_def cumulative_spend_for_def RING_CHARGE_EVENT_TYPES_def)

definition charged_guard :: cost_guard where
  "charged_guard = new_cost_guard\<lparr>cg_store := Some (new_feedback_store\<lparr>fs_rows := [charge_row 1 10 (3/10) True 0]\<rparr>),
     cg_ring := [\<lparr>ge_event_type = COST_ACCEPTED_EVENT, ge_account_id = 1, ge_query_run_id = Some 10,
       ge_estimated_cost_usd = 3/10, ge_threshold_action = ALLOW, ge_confirmed = False\<rparr>]\<rparr>"

lemma rails_move_together_witness:
  "rail_pair 1 0 (void_run_charge sample_moment 1 10 charged_guard) = (0, 0)
   \<and> rail_pair 1 0 (snd (reconcile_run_charge sample_moment 1 10 (3/10) (1/10) charged_guard)) = (1/10, 1/10)"
proof -
  let ?fs = "new_feedback_store\<lparr>fs_rows := [charge_row 1 10 (3/10) True 0]\<rparr>"
  have ring: "run_in_ring 1 10 (3/10) (cg_ring charged_guard)"
    unfolding run_in_ring_def
    by (rule exI[of _ "[]"], rule exI[of _ "[]"])
      (simp add: charged_guard_def ring_charge_of_def RING_CHARGE_EVENT_TYPES_def)
  have pair: "rail_pair 1 0 charged_guard = (3/10, 3/10)"
    by (simp add: charged_guard_def rail_pair_def cumulative_spend_for_def RING_CHARGE_EVENT_TYPES_def ledger_eval)
  have ok: "ledger_ok 0 (fs_rows ?fs)" by (simp add: ledger_ok_def)
  have seen: "run_events_seen 10 (0 - DAY) (fs_rows ?fs) = [COST_ACCEPTED_EVENT]"
    by (simp add: ledger_eval)
  show ?thesis
    using rails_move_together[of charged_guard ?fs 0 sample_moment "1/10" 1 10 "3/10" 0 "3/10" "3/10"] ring pair ok seen
    by (simp add: charged_guard_def sample_moment_def DAY_def)
qed

lemma charge_moves_both_rails_witness:
  "\<exists>cg'. try_record_run_charge sample_settings sample_moment 1 10 (3/10) ALLOW False False new_cost_guard = (CHARGE_RECORDED, cg')
    \<and> rail_pair 1 0 cg' = (3/10, 3/10) \<and> run_in_ring 1 10 (3/10) (cg_ring cg')"
proof -
  obtain outcome cg' where run: "try_record_run_charge sample_settings sample_moment 1 10 (3/10) ALLOW False False new_cost_guard
      = (outcome, cg')"
    by force
  have rec: "outcome = CHARGE_RECORDED"
    using run by (simp add: try_record_run_charge_def new_cost_guard_def feedback_ledger_may_be_metered_def
        feedback_ledger_is_stale_def write_health_def sample_settings_def sample_moment_def ledger_eval DAILY_CAP_USD_def
        GLOBAL_DAILY_CEILING_USD_def split: if_splits)
  have "rail_pair 1 0 new_cost_guard = (0, 0)"
    by (simp add: rail_pair_def new_cost_guard_def cumulative_spend_for_def ledger_eval)
  then show ?thesis
    using charge_moves_both_rails[of new_cost_guard new_feedback_store 0 sample_moment 10 "3/10" sample_settings 1 ALLOW False
        False outcome cg'] run rec
    by (simp add: new_cost_guard_def new_feedback_store_def ledger_ok_def keyed_runs_def MAX_EVENTS_def sample_moment_def)
qed

section \<open>The allowance\<close>

lemma quantize_floor_le: "quantize_floor x \<le> x"
  unfolding quantize_floor_def using floor_close[OF quantum_pos(1), of x] by simp

lemma quantize_floor_nonneg: "0 \<le> x \<Longrightarrow> 0 \<le> quantize_floor x"
  unfolding quantize_floor_def by (intro mult_nonneg_nonneg) (simp_all add: divide_nonneg_pos)

lemma quantize_floor_mono: "x \<le> y \<Longrightarrow> quantize_floor x \<le> quantize_floor y"
  unfolding quantize_floor_def
  by (intro mult_right_mono of_int_le_iff[THEN iffD2] floor_mono divide_right_mono) simp_all

lemma quantize_floor_rest:
  "quantize_floor (of_int n * COST_DISPLAY_QUANTUM - x) = of_int n * COST_DISPLAY_QUANTUM - quantize_ceiling x"
proof -
  have "(of_int n * COST_DISPLAY_QUANTUM - x) / COST_DISPLAY_QUANTUM = of_int n - x / COST_DISPLAY_QUANTUM"
    by (simp add: diff_divide_distrib)
  moreover have "\<lfloor>of_int n - x / COST_DISPLAY_QUANTUM\<rfloor> = n - \<lceil>x / COST_DISPLAY_QUANTUM\<rceil>" by linarith
  ultimately show ?thesis by (simp add: quantize_floor_def quantize_ceiling_def left_diff_distrib)
qed

lemma daily_cap_cents: "DAILY_CAP_USD = of_int 4000 * COST_DISPLAY_QUANTUM"
  by (simp add: DAILY_CAP_USD_def COST_DISPLAY_QUANTUM_def)

text \<open>The allowance shown to an account is honest: what is left lies between zero and the cap, what either
  rail leaves is at least what is shown as left, and what is shown as spent plus what is shown as left never
  exceeds the cap while the account is within it.\<close>

theorem allowance_is_honest:
  fixes spent cumulative :: usd and shared :: bool
  defines "a \<equiv> daily_allowance_from spent cumulative shared"
  shows "0 \<le> da_remaining_usd a \<and> da_remaining_usd a \<le> DAILY_CAP_USD
    \<and> (0 < da_remaining_usd a \<and> 0 \<le> spent \<longrightarrow> spent + da_remaining_usd a \<le> DAILY_CAP_USD)
    \<and> (0 < da_remaining_usd a \<and> 0 < cumulative \<longrightarrow> cumulative + da_remaining_usd a \<le> HARD_LIMIT_USD)
    \<and> (0 \<le> spent \<and> spent \<le> DAILY_CAP_USD \<longrightarrow> da_spent_usd a + da_remaining_usd a \<le> DAILY_CAP_USD)"
proof -
  let ?rem = "if 0 < cumulative \<and> HARD_LIMIT_USD - cumulative < DAILY_CAP_USD - spent
    then HARD_LIMIT_USD - cumulative else DAILY_CAP_USD - spent"
  have rem: "da_remaining_usd a = quantize_floor (min (max ?rem 0) DAILY_CAP_USD)"
    and sp: "da_spent_usd a = quantize_ceiling spent"
    by (simp_all add: a_def daily_allowance_from_def Let_def)
  have cap0: "0 \<le> DAILY_CAP_USD" by (simp add: DAILY_CAP_USD_def)
  have b0: "0 \<le> da_remaining_usd a" unfolding rem using cap0 by (intro quantize_floor_nonneg) simp
  have le: "da_remaining_usd a \<le> min (max ?rem 0) DAILY_CAP_USD" unfolding rem by (rule quantize_floor_le)
  have pos: "da_remaining_usd a \<le> ?rem" if "0 < da_remaining_usd a"
  proof -
    have "da_remaining_usd a \<le> max ?rem 0" using le by (simp only: min.bounded_iff)
    with that show ?thesis unfolding le_max_iff_disj by linarith
  qed
  have top: "da_remaining_usd a \<le> DAILY_CAP_USD" using le by (simp only: min.bounded_iff)
  have day: "da_remaining_usd a \<le> DAILY_CAP_USD - spent" if "0 < da_remaining_usd a"
    using pos[OF that] by (simp split: if_splits)
  have run: "da_remaining_usd a \<le> HARD_LIMIT_USD - cumulative" if "0 < da_remaining_usd a" "0 < cumulative"
    using pos[OF that(1)] that(2) by (simp split: if_splits)
  have last: "da_spent_usd a + da_remaining_usd a \<le> DAILY_CAP_USD" if "0 \<le> spent" "spent \<le> DAILY_CAP_USD"
  proof -
    have "min (max ?rem 0) DAILY_CAP_USD \<le> DAILY_CAP_USD - spent" using that by auto
    then have "da_remaining_usd a \<le> quantize_floor (DAILY_CAP_USD - spent)"
      unfolding rem by (rule quantize_floor_mono)
    then show ?thesis unfolding daily_cap_cents quantize_floor_rest sp by simp
  qed
  show ?thesis using b0 top day run last by fastforce
qed

lemma allowance_is_honest_witness:
  "let a = daily_allowance_from (12345 / 100000) (1 / 4) False
   in da_spent_usd a + da_remaining_usd a \<le> DAILY_CAP_USD \<and> 1 / 4 + da_remaining_usd a \<le> HARD_LIMIT_USD"
  using allowance_is_honest[of "12345 / 100000" "1 / 4" False]
  by (simp add: Let_def daily_allowance_from_def DAILY_CAP_USD_def HARD_LIMIT_USD_def quantize_floor_def
      quantize_ceiling_def COST_DISPLAY_QUANTUM_def)

end
