(* ===== verification/Run_State.thy ===== *)
theory Run_State
  imports Domain
begin

text \<open>
  The run state machine and the in-memory repository of
  \<^verbatim>\<open>src/product_app/query_run_orchestration.py\<close>
  (\<^verbatim>\<open>QueryRunStatus\<close>, \<^verbatim>\<open>ALLOWED_TRANSITIONS\<close>, \<^verbatim>\<open>QueryRun\<close>,
  \<^verbatim>\<open>InMemoryQueryRunRepository\<close> and the stage helpers). The repository's dict is a
  \<open>dict\<close> in insertion order. Every method runs under the repository's lock, so each is one
  atomic function of the stored runs; \<open>datetime.now(UTC)\<close> is the argument \<open>now\<close> and
  \<open>uuid4()\<close> the argument \<open>new_id\<close>. A raised exception is an \<open>Inl\<close> of \<open>repo_error\<close>.
\<close>

section \<open>Statuses\<close>

datatype run_status =
    DRAFT | COST_REVIEW | ACCEPTED | INITIAL_ANSWERS_RUNNING | DEBATE_ROUND_1_RUNNING
  | DEBATE_ROUND_2_RUNNING | SYNTHESIS_RUNNING | COMPLETED | PARTIAL | FAILED | TIMED_OUT
  | BLOCKED_BY_COST | CANCELLED

datatype stage_state = STAGE_PENDING | STAGE_RUNNING | STAGE_COMPLETED | STAGE_FAILED | STAGE_SKIPPED

datatype billable_stage = BILLABLE_DEBATE | BILLABLE_SYNTHESIS

datatype stage_billing_state = NOT_ENTERED | ENTERED | RECORDED

definition TERMINAL_STATUSES :: "run_status set" where
  "TERMINAL_STATUSES = {COMPLETED, PARTIAL, FAILED, TIMED_OUT, BLOCKED_BY_COST, CANCELLED}"

fun ALLOWED_TRANSITIONS :: "run_status \<Rightarrow> run_status set" where
  "ALLOWED_TRANSITIONS DRAFT = {COST_REVIEW, CANCELLED}"
| "ALLOWED_TRANSITIONS COST_REVIEW = {ACCEPTED, BLOCKED_BY_COST, CANCELLED}"
| "ALLOWED_TRANSITIONS ACCEPTED =
     {INITIAL_ANSWERS_RUNNING, FAILED, PARTIAL, TIMED_OUT, CANCELLED}"
| "ALLOWED_TRANSITIONS INITIAL_ANSWERS_RUNNING =
     {DEBATE_ROUND_1_RUNNING, COMPLETED, PARTIAL, FAILED, TIMED_OUT, CANCELLED}"
| "ALLOWED_TRANSITIONS DEBATE_ROUND_1_RUNNING =
     {DEBATE_ROUND_2_RUNNING, PARTIAL, FAILED, TIMED_OUT, CANCELLED}"
| "ALLOWED_TRANSITIONS DEBATE_ROUND_2_RUNNING =
     {SYNTHESIS_RUNNING, PARTIAL, FAILED, TIMED_OUT, CANCELLED}"
| "ALLOWED_TRANSITIONS SYNTHESIS_RUNNING = {COMPLETED, PARTIAL, FAILED, TIMED_OUT, CANCELLED}"
| "ALLOWED_TRANSITIONS COMPLETED = {}"
| "ALLOWED_TRANSITIONS PARTIAL = {}"
| "ALLOWED_TRANSITIONS FAILED = {}"
| "ALLOWED_TRANSITIONS TIMED_OUT = {}"
| "ALLOWED_TRANSITIONS BLOCKED_BY_COST = {}"
| "ALLOWED_TRANSITIONS CANCELLED = {}"

text \<open>The statuses in the order a run can pass them, as a linear order of the library.\<close>

fun status_rank :: "run_status \<Rightarrow> nat" where
  "status_rank DRAFT = 0"
| "status_rank COST_REVIEW = 1"
| "status_rank ACCEPTED = 2"
| "status_rank INITIAL_ANSWERS_RUNNING = 3"
| "status_rank DEBATE_ROUND_1_RUNNING = 4"
| "status_rank DEBATE_ROUND_2_RUNNING = 5"
| "status_rank SYNTHESIS_RUNNING = 6"
| "status_rank COMPLETED = 7"
| "status_rank PARTIAL = 8"
| "status_rank FAILED = 9"
| "status_rank TIMED_OUT = 10"
| "status_rank BLOCKED_BY_COST = 11"
| "status_rank CANCELLED = 12"

lemma status_rank_inj: "status_rank s = status_rank t \<Longrightarrow> s = t"
  by (cases s; cases t) simp_all

instantiation run_status :: linorder
begin

definition less_eq_run_status_def: "(s::run_status) \<le> t = (status_rank s \<le> status_rank t)"

definition less_run_status_def: "(s::run_status) < t = (status_rank s < status_rank t)"

instance
  by standard (auto simp: less_eq_run_status_def less_run_status_def dest: status_rank_inj)

end

lemma terminal_iff_no_transition: "s \<in> TERMINAL_STATUSES \<longleftrightarrow> ALLOWED_TRANSITIONS s = {}"
  by (cases s) (simp_all add: TERMINAL_STATUSES_def)

lemma allowed_transition_increases: "t \<in> ALLOWED_TRANSITIONS s \<Longrightarrow> s < t"
  by (cases s) (auto simp: less_run_status_def)

lemma cancel_allowed: "s \<notin> TERMINAL_STATUSES \<longleftrightarrow> CANCELLED \<in> ALLOWED_TRANSITIONS s"
  by (cases s) (simp_all add: TERMINAL_STATUSES_def)

section \<open>Runs\<close>

record stage_progress =
  sg_stage :: string
  sg_state :: stage_state
  sg_detail :: "string option"

text \<open>\<^verbatim>\<open>UUID.hex\<close>: thirty-two lower-case hexadecimal digits.\<close>

definition uuid_hex :: "uuid \<Rightarrow> string" where
  "uuid_hex n = map (\<lambda>i. ''0123456789abcdef'' ! (n div 16 ^ i mod 16)) (rev [0..<32])"

record query_run =
  qr_query_run_id :: uuid
  qr_account_id :: uuid
  qr_query_text :: string
  qr_status :: run_status
  qr_correlation_id :: string
  qr_created_at :: micros
  qr_updated_at :: micros
  qr_started_at :: "micros option"
  qr_model_slots :: "model_slot list"
  qr_cost_estimate :: cost_estimate
  qr_progress :: "stage_progress list"
  qr_initial_answers :: "initial_answer list"
  qr_debate_outputs :: "debate_output list"
  qr_final_synthesis :: "final_synthesis option"
  qr_failed_steps :: "string list"
  qr_missing_steps :: "string list"
  qr_debate_call_usages :: "(nat \<times> token_usage option) list"
  qr_synthesis_call_usages :: "token_usage option list"
  qr_context :: "context_map option"
  qr_mode :: run_mode
  qr_history_verdict :: "string option"
  qr_spend_key :: "uuid option"
  qr_billing_stages :: "billable_stage \<Rightarrow> stage_billing_state"

definition is_terminal :: "query_run \<Rightarrow> bool" where
  "is_terminal r = (qr_status r \<in> TERMINAL_STATUSES)"

datatype repo_error = ActiveQueryRunExists | RunKeyError uuid | InvalidTransition run_status run_status

definition QUERY_RUN_TERMINAL_TTL :: micros where
  "QUERY_RUN_TERMINAL_TTL = 60 * 60 * 1000000"

definition QUERY_RUN_ACTIVE_TTL :: micros where
  "QUERY_RUN_ACTIVE_TTL = 30 * 60 * 1000000"

type_synonym run_repo = "(uuid, query_run) dict"

section \<open>Stage helpers\<close>

definition initial_progress :: "stage_progress list" where
  "initial_progress =
     [\<lparr>sg_stage = ''estimate'', sg_state = STAGE_COMPLETED, sg_detail = Some ''Estimate accepted.''\<rparr>,
      \<lparr>sg_stage = ''initial_answers'', sg_state = STAGE_PENDING, sg_detail = None\<rparr>,
      \<lparr>sg_stage = ''debate_round_1'', sg_state = STAGE_PENDING, sg_detail = None\<rparr>,
      \<lparr>sg_stage = ''debate_round_2'', sg_state = STAGE_PENDING, sg_detail = None\<rparr>,
      \<lparr>sg_stage = ''synthesis'', sg_state = STAGE_PENDING, sg_detail = None\<rparr>]"

text \<open>Only the first stage of that name is written (the loop returns).\<close>

fun set_stage_state ::
  "stage_progress list \<Rightarrow> string \<Rightarrow> stage_state \<Rightarrow> string option \<Rightarrow> stage_progress list" where
  "set_stage_state [] name st detail = []"
| "set_stage_state (g # gs) name st detail =
     (if sg_stage g = name then g\<lparr>sg_state := st, sg_detail := detail\<rparr> # gs
      else g # set_stage_state gs name st detail)"

fun running_stage_name :: "stage_progress list \<Rightarrow> string" where
  "running_stage_name [] = ''estimate''"
| "running_stage_name (g # gs) =
     (if sg_state g = STAGE_RUNNING then sg_stage g else running_stage_name gs)"

definition downstream_stages :: "query_run \<Rightarrow> string list" where
  "downstream_stages r =
     (if qr_mode r = MODE_QUICK then [] else [''debate_round_1'', ''debate_round_2'', ''synthesis''])"

definition stages_of :: "query_run \<Rightarrow> string list" where
  "stages_of r = map sg_stage (qr_progress r)"

lemma stage_names_set_stage_state [simp]:
  "map sg_stage (set_stage_state gs name st detail) = map sg_stage gs"
  by (induction gs) auto

section \<open>Repository operations\<close>

definition run_expired :: "micros \<Rightarrow> query_run \<Rightarrow> bool" where
  "run_expired now r =
     (let age = now - qr_updated_at r in
      (is_terminal r \<and> age > QUERY_RUN_TERMINAL_TTL)
      \<or> (\<not> is_terminal r \<and> age > QUERY_RUN_ACTIVE_TTL))"

definition purge_expired :: "micros \<Rightarrow> run_repo \<Rightarrow> run_repo" where
  "purge_expired now repo = filter (\<lambda>(k, r). \<not> run_expired now r) repo"

definition first_active :: "uuid \<Rightarrow> run_repo \<Rightarrow> query_run option" where
  "first_active account repo =
     find (\<lambda>r. qr_account_id r = account \<and> \<not> is_terminal r) (map snd repo)"

definition get_active_for_account ::
  "micros \<Rightarrow> uuid \<Rightarrow> run_repo \<Rightarrow> query_run option \<times> run_repo" where
  "get_active_for_account now account repo =
     (let repo = purge_expired now repo in (first_active account repo, repo))"

definition new_query_run ::
  "micros \<Rightarrow> uuid \<Rightarrow> uuid \<Rightarrow> string \<Rightarrow> model_slot list \<Rightarrow> cost_estimate \<Rightarrow> context_map option \<Rightarrow>
   run_mode \<Rightarrow> uuid option \<Rightarrow> query_run" where
  "new_query_run now new_id account text slots estimate ctx mode spend_key =
     \<lparr>qr_query_run_id = new_id, qr_account_id = account, qr_query_text = text,
      qr_status = ACCEPTED, qr_correlation_id = ''qr_'' @ uuid_hex new_id, qr_created_at = now, qr_updated_at = now, qr_started_at = None,
      qr_model_slots = slots, qr_cost_estimate = estimate, qr_progress = initial_progress,
      qr_initial_answers = [], qr_debate_outputs = [], qr_final_synthesis = None,
      qr_failed_steps = [], qr_missing_steps = [], qr_debate_call_usages = [],
      qr_synthesis_call_usages = [], qr_context = ctx, qr_mode = mode,
      qr_history_verdict = None,
      qr_spend_key = Some (case spend_key of None \<Rightarrow> account | Some k \<Rightarrow> k),
      qr_billing_stages = (\<lambda>_. NOT_ENTERED)\<rparr>"

text \<open>
  \<open>admit\<close> is the caller's last check, run under the lock before anything is stored; it refuses
  by raising, here \<open>Some e\<close>.
\<close>

definition create ::
  "micros \<Rightarrow> uuid \<Rightarrow> uuid \<Rightarrow> string \<Rightarrow> model_slot list \<Rightarrow> cost_estimate \<Rightarrow> context_map option \<Rightarrow>
   run_mode \<Rightarrow> uuid option \<Rightarrow> 'e option \<Rightarrow> run_repo \<Rightarrow> (('e + repo_error) + query_run) \<times> run_repo" where
  "create now new_id account text slots estimate ctx mode spend_key admit repo =
     (case admit of
        Some e \<Rightarrow> (Inl (Inl e), repo)
      | None \<Rightarrow>
        (let (active, repo) = get_active_for_account now account (purge_expired now repo) in
         case active of
           Some _ \<Rightarrow> (Inl (Inr ActiveQueryRunExists), repo)
         | None \<Rightarrow>
           (let r = new_query_run now new_id account text slots estimate ctx mode spend_key
            in (Inr r, AList.update new_id r repo))))"

definition get_run :: "micros \<Rightarrow> uuid \<Rightarrow> run_repo \<Rightarrow> (repo_error + query_run) \<times> run_repo" where
  "get_run now rid repo =
     (let repo = purge_expired now repo in
      (case map_of repo rid of None \<Rightarrow> Inl (RunKeyError rid) | Some r \<Rightarrow> Inr r, repo))"

definition get_for_account ::
  "micros \<Rightarrow> uuid \<Rightarrow> uuid \<Rightarrow> run_repo \<Rightarrow> query_run option \<times> run_repo" where
  "get_for_account now rid account repo =
     (let repo = purge_expired now repo in
      (case map_of repo rid of
         None \<Rightarrow> None
       | Some r \<Rightarrow> if qr_account_id r \<noteq> account then None else Some r, repo))"

definition terminal_runs_for_account ::
  "micros \<Rightarrow> uuid \<Rightarrow> run_repo \<Rightarrow> query_run list \<times> run_repo" where
  "terminal_runs_for_account now account repo =
     (let repo = purge_expired now repo in
      (filter (\<lambda>r. qr_account_id r = account \<and> is_terminal r) (map snd repo), repo))"

definition set_steps :: "string list option \<Rightarrow> string list option \<Rightarrow> query_run \<Rightarrow> query_run" where
  "set_steps failed missing r =
     (let r = (case failed of None \<Rightarrow> r | Some xs \<Rightarrow> r\<lparr>qr_failed_steps := xs\<rparr>)
      in (case missing of None \<Rightarrow> r | Some xs \<Rightarrow> r\<lparr>qr_missing_steps := xs\<rparr>))"

definition transition_run ::
  "micros \<Rightarrow> run_status \<Rightarrow> string list option \<Rightarrow> string list option \<Rightarrow> query_run \<Rightarrow> query_run" where
  "transition_run now next_status failed missing r =
     (let r = r\<lparr>qr_status := next_status, qr_updated_at := now\<rparr>;
          r = (if qr_started_at r = None \<and> next_status \<noteq> ACCEPTED
               then r\<lparr>qr_started_at := Some now\<rparr> else r)
      in set_steps failed missing r)"

text \<open>\<open>self._query_runs[query_run_id]\<close> raises \<open>KeyError\<close> on a purged id.\<close>

definition transition ::
  "micros \<Rightarrow> uuid \<Rightarrow> run_status \<Rightarrow> string list option \<Rightarrow> string list option \<Rightarrow> run_repo \<Rightarrow>
   (repo_error + query_run) \<times> run_repo" where
  "transition now rid next_status failed missing repo =
     (case map_of repo rid of
        None \<Rightarrow> (Inl (RunKeyError rid), repo)
      | Some r \<Rightarrow>
          if next_status \<notin> ALLOWED_TRANSITIONS (qr_status r)
          then (Inl (InvalidTransition (qr_status r) next_status), repo)
          else (Inr (transition_run now next_status failed missing r),
                dict_adjust rid (transition_run now next_status failed missing) repo))"

record status_update =
  su_status :: "run_status option"
  su_stage_name :: "string option"
  su_stage_state :: "stage_state option"
  su_detail :: "string option"
  su_failed_steps :: "string list option"
  su_missing_steps :: "string list option"
  su_mark_started :: bool
  su_allow_terminal :: bool

text \<open>The keyword defaults of \<open>update_status\<close>.\<close>

definition no_update :: status_update where
  "no_update = \<lparr>su_status = None, su_stage_name = None, su_stage_state = None, su_detail = None,
     su_failed_steps = None, su_missing_steps = None, su_mark_started = False,
     su_allow_terminal = False\<rparr>"

definition update_run :: "micros \<Rightarrow> status_update \<Rightarrow> query_run \<Rightarrow> query_run" where
  "update_run now u r =
     (if qr_status r \<in> TERMINAL_STATUSES \<and> \<not> su_allow_terminal u then r
      else
        let r = (case su_status u of None \<Rightarrow> r | Some s \<Rightarrow> r\<lparr>qr_status := s\<rparr>);
            r = r\<lparr>qr_updated_at := now\<rparr>;
            r = (if su_mark_started u \<and> qr_started_at r = None
                 then r\<lparr>qr_started_at := Some now\<rparr> else r);
            r = (case (su_stage_name u, su_stage_state u) of
                   (Some (c # cs), Some st) \<Rightarrow>
                      r\<lparr>qr_progress := set_stage_state (qr_progress r) (c # cs) st (su_detail u)\<rparr>
                 | _ \<Rightarrow> r)
        in set_steps (su_failed_steps u) (su_missing_steps u) r)"

definition update_status ::
  "micros \<Rightarrow> uuid \<Rightarrow> status_update \<Rightarrow> run_repo \<Rightarrow> (repo_error + query_run) \<times> run_repo" where
  "update_status now rid u repo =
     (case map_of repo rid of
        None \<Rightarrow> (Inl (RunKeyError rid), repo)
      | Some r \<Rightarrow> (Inr (update_run now u r), dict_adjust rid (update_run now u) repo))"

text \<open>\<open>list.sort(key=...)\<close> is stable, as is \<open>sort_key\<close>.\<close>

definition record_answer_run :: "micros \<Rightarrow> initial_answer \<Rightarrow> query_run \<Rightarrow> query_run" where
  "record_answer_run now a r =
     r\<lparr>qr_initial_answers :=
         sort_key ia_slot_number
           (filter (\<lambda>e. ia_slot_number e \<noteq> ia_slot_number a) (qr_initial_answers r) @ [a]),
       qr_updated_at := now\<rparr>"

text \<open>The mutators below index the dict and raise \<open>KeyError\<close> on a purged id.\<close>

definition mutate_run ::
  "uuid \<Rightarrow> (query_run \<Rightarrow> query_run) \<Rightarrow> run_repo \<Rightarrow> (repo_error + query_run) \<times> run_repo" where
  "mutate_run rid f repo =
     (case map_of repo rid of
        None \<Rightarrow> (Inl (RunKeyError rid), repo)
      | Some r \<Rightarrow> (Inr (f r), dict_adjust rid f repo))"

definition record_initial_answer ::
  "micros \<Rightarrow> uuid \<Rightarrow> initial_answer \<Rightarrow> run_repo \<Rightarrow> (repo_error + query_run) \<times> run_repo" where
  "record_initial_answer now rid a = mutate_run rid (record_answer_run now a)"

fun record_initial_answers ::
  "micros \<Rightarrow> uuid \<Rightarrow> initial_answer list \<Rightarrow> run_repo \<Rightarrow> (repo_error + query_run) \<times> run_repo" where
  "record_initial_answers now rid [] repo =
     (case map_of repo rid of None \<Rightarrow> Inl (RunKeyError rid) | Some r \<Rightarrow> Inr r, repo)"
| "record_initial_answers now rid [a] repo = record_initial_answer now rid a repo"
| "record_initial_answers now rid (a # b # xs) repo =
     (case record_initial_answer now rid a repo of
        (Inl e, repo') \<Rightarrow> (Inl e, repo')
      | (Inr _, repo') \<Rightarrow> record_initial_answers now rid (b # xs) repo')"

definition mark_billable_stage_entered ::
  "micros \<Rightarrow> uuid \<Rightarrow> billable_stage \<Rightarrow> run_repo \<Rightarrow> (repo_error + query_run) \<times> run_repo" where
  "mark_billable_stage_entered now rid stage =
     mutate_run rid (\<lambda>r. r\<lparr>qr_billing_stages := (qr_billing_stages r)(stage := ENTERED),
                          qr_updated_at := now\<rparr>)"

definition mark_spend_metering_unavailable ::
  "micros \<Rightarrow> uuid \<Rightarrow> run_repo \<Rightarrow> (repo_error + query_run) \<times> run_repo" where
  "mark_spend_metering_unavailable now rid =
     mutate_run rid (\<lambda>r. r\<lparr>qr_cost_estimate :=
                            (qr_cost_estimate r)\<lparr>ce_spend_metering_unavailable := True\<rparr>,
                          qr_updated_at := now\<rparr>)"

definition mark_global_ceiling_reached ::
  "micros \<Rightarrow> uuid \<Rightarrow> run_repo \<Rightarrow> (repo_error + query_run) \<times> run_repo" where
  "mark_global_ceiling_reached now rid =
     mutate_run rid (\<lambda>r. r\<lparr>qr_cost_estimate :=
                            (qr_cost_estimate r)\<lparr>ce_global_ceiling_reached := True\<rparr>,
                          qr_updated_at := now\<rparr>)"

definition record_debate_outputs ::
  "micros \<Rightarrow> uuid \<Rightarrow> debate_output list \<Rightarrow> (nat \<times> token_usage option) list option \<Rightarrow> run_repo \<Rightarrow>
   (repo_error + query_run) \<times> run_repo" where
  "record_debate_outputs now rid outputs usages =
     mutate_run rid (\<lambda>r.
       let r = r\<lparr>qr_debate_outputs := outputs\<rparr>;
           r = (case usages of None \<Rightarrow> r | Some us \<Rightarrow> r\<lparr>qr_debate_call_usages := us\<rparr>)
       in r\<lparr>qr_billing_stages := (qr_billing_stages r)(BILLABLE_DEBATE := RECORDED),
            qr_updated_at := now\<rparr>)"

definition record_final_synthesis ::
  "micros \<Rightarrow> uuid \<Rightarrow> final_synthesis \<Rightarrow> token_usage option list option \<Rightarrow> run_repo \<Rightarrow>
   (repo_error + query_run) \<times> run_repo" where
  "record_final_synthesis now rid synthesis usages =
     mutate_run rid (\<lambda>r.
       let r = r\<lparr>qr_final_synthesis := Some synthesis\<rparr>;
           r = (case usages of None \<Rightarrow> r | Some us \<Rightarrow> r\<lparr>qr_synthesis_call_usages := us\<rparr>)
       in r\<lparr>qr_billing_stages := (qr_billing_stages r)(BILLABLE_SYNTHESIS := RECORDED),
            qr_updated_at := now\<rparr>)"

definition elapsed_time_ms :: "query_run \<Rightarrow> int" where
  "elapsed_time_ms r =
     (case qr_started_at r of
        None \<Rightarrow> 0
      | Some s \<Rightarrow> max 0 (let d = qr_updated_at r - s; q = d div 1000; m = d mod 1000 in
                        if m < 500 \<or> (m = 500 \<and> even q) then q else q + 1))"


section \<open>Operations as a sequence of steps\<close>

text \<open>
  One constructor per public method. The four readers purge before they read, so they share
  \<open>OpRead\<close>.
\<close>

datatype repo_op =
    OpCreate micros uuid uuid string "model_slot list" cost_estimate "context_map option" run_mode
      "uuid option"
  | OpTransition micros uuid run_status "string list option" "string list option"
  | OpUpdate micros uuid status_update
  | OpAnswer micros uuid initial_answer
  | OpEnterStage micros uuid billable_stage
  | OpMeteringUnavailable micros uuid
  | OpCeilingReached micros uuid
  | OpDebate micros uuid "debate_output list" "(nat \<times> token_usage option) list option"
  | OpSynthesis micros uuid final_synthesis "token_usage option list option"
  | OpRead micros
  | OpClear

fun repo_step :: "run_repo \<Rightarrow> repo_op \<Rightarrow> run_repo" where
  "repo_step repo (OpCreate now i acct qt slots est ctx mode key) =
     snd (create now i acct qt slots est ctx mode key (None :: unit option) repo)"
| "repo_step repo (OpTransition now rid s failed missing) =
     snd (transition now rid s failed missing repo)"
| "repo_step repo (OpUpdate now rid u) = snd (update_status now rid u repo)"
| "repo_step repo (OpAnswer now rid a) = snd (record_initial_answer now rid a repo)"
| "repo_step repo (OpEnterStage now rid st) = snd (mark_billable_stage_entered now rid st repo)"
| "repo_step repo (OpMeteringUnavailable now rid) =
     snd (mark_spend_metering_unavailable now rid repo)"
| "repo_step repo (OpCeilingReached now rid) = snd (mark_global_ceiling_reached now rid repo)"
| "repo_step repo (OpDebate now rid outs us) = snd (record_debate_outputs now rid outs us repo)"
| "repo_step repo (OpSynthesis now rid fs us) = snd (record_final_synthesis now rid fs us repo)"
| "repo_step repo (OpRead now) = purge_expired now repo"
| "repo_step repo OpClear = []"

definition repo_steps :: "run_repo \<Rightarrow> repo_op list \<Rightarrow> run_repo" where
  "repo_steps = foldl repo_step"

text \<open>
  The callers' discipline on \<open>allow_terminal\<close>: it annotates a finished run and never carries a
  status. All five call sites in the source pass no \<^verbatim>\<open>status_value\<close> with it.
\<close>

definition update_disciplined :: "status_update \<Rightarrow> bool" where
  "update_disciplined u = (su_allow_terminal u \<longrightarrow> su_status u = None)"

fun op_disciplined :: "repo_op \<Rightarrow> bool" where
  "op_disciplined (OpUpdate now rid u) = update_disciplined u"
| "op_disciplined _ = True"

text \<open>\<open>uuid4()\<close> gives an id the repository does not hold.\<close>

fun op_fresh :: "run_repo \<Rightarrow> repo_op \<Rightarrow> bool" where
  "op_fresh repo (OpCreate now i acct qt slots est ctx mode key) = (i \<notin> fst ` set repo)"
| "op_fresh repo _ = True"

fun ops_ok :: "run_repo \<Rightarrow> repo_op list \<Rightarrow> bool" where
  "ops_ok repo [] = True"
| "ops_ok repo (x # xs) = (op_disciplined x \<and> op_fresh repo x \<and> ops_ok (repo_step repo x) xs)"

section \<open>The invariant\<close>

definition active_of :: "uuid \<Rightarrow> run_repo \<Rightarrow> run_repo" where
  "active_of account repo = filter (\<lambda>(k, r). qr_account_id r = account \<and> \<not> is_terminal r) repo"

definition repo_ok :: "run_repo \<Rightarrow> bool" where
  "repo_ok repo = (dict_ok repo \<and> (\<forall>k r. (k, r) \<in> set repo \<longrightarrow> qr_query_run_id r = k)
     \<and> (\<forall>account. length (active_of account repo) \<le> 1))"

lemma first_active_None: "first_active account repo = None \<longleftrightarrow> active_of account repo = []"
  by (induction repo) (auto simp: first_active_def active_of_def)

lemma first_active_Some:
  "first_active account repo = Some r \<Longrightarrow> qr_account_id r = account \<and> \<not> is_terminal r \<and> r \<in> snd ` set repo"
  by (induction repo) (auto simp: first_active_def split: if_splits)

lemma active_of_filter: "active_of account (filter P repo) = filter P (active_of account repo)"
  by (induction repo) (auto simp: active_of_def)

lemma repo_ok_filter: "repo_ok repo \<Longrightarrow> repo_ok (filter P repo)"
proof -
  assume ok: "repo_ok repo"
  have "length (active_of account (filter P repo)) \<le> 1" for account
    using ok order_trans[OF length_filter_le[of P "active_of account repo"]]
    by (simp add: repo_ok_def active_of_filter)
  with ok show ?thesis by (auto simp: repo_ok_def intro: dict_intro)
qed

lemma repo_ok_purge [intro]: "repo_ok repo \<Longrightarrow> repo_ok (purge_expired now repo)"
  by (simp add: purge_expired_def repo_ok_filter)

lemma purge_keys: "k \<notin> fst ` set repo \<Longrightarrow> k \<notin> fst ` set (purge_expired now repo)"
  by (auto simp: purge_expired_def)

section \<open>Lawful mutations\<close>

text \<open>
  What every in-place write of a stored run promises: it keeps the run's identity and owner and
  never brings a finished run back to life. The repository's invariant is proved once for any such
  write.
\<close>

locale lawful_mutation =
  fixes f :: "query_run \<Rightarrow> query_run"
  assumes keeps_id: "qr_query_run_id (f r) = qr_query_run_id r"
    and keeps_account: "qr_account_id (f r) = qr_account_id r"
    and keeps_terminal: "is_terminal r \<Longrightarrow> qr_status (f r) = qr_status r"
begin

lemma stays_terminal: "is_terminal r \<Longrightarrow> is_terminal (f r)"
  using keeps_terminal by (simp add: is_terminal_def)

lemma active_adjust_length:
  "length (active_of account (dict_adjust rid f repo)) \<le> length (active_of account repo)"
  unfolding active_of_def
  by (rule length_filter_dict_adjust) (auto simp: keeps_account dest: stays_terminal)

lemma adjust_ok: "repo_ok repo \<Longrightarrow> repo_ok (dict_adjust rid f repo)"
proof -
  assume ok: "repo_ok repo"
  have "length (active_of account (dict_adjust rid f repo)) \<le> 1" for account
    using ok order_trans[OF active_adjust_length[of account rid repo]] by (simp add: repo_ok_def)
  with ok show ?thesis
    by (auto simp: repo_ok_def set_dict_adjust keeps_id split: if_splits)
qed

lemma mutate_ok: "repo_ok repo \<Longrightarrow> repo_ok (snd (mutate_run rid f repo))"
  by (simp add: mutate_run_def adjust_ok split: option.split)

lemma adjust_status:
  assumes "map_of repo k = Some r" and "is_terminal r"
  shows "\<exists>r'. map_of (dict_adjust rid f repo) k = Some r' \<and> qr_status r' = qr_status r"
  using assms by (auto simp: keeps_terminal)

lemma mutate_status:
  assumes "map_of repo k = Some r" and "is_terminal r"
  shows "\<exists>r'. map_of (snd (mutate_run rid f repo)) k = Some r' \<and> qr_status r' = qr_status r"
  using adjust_status[OF assms, of rid] assms(1) by (auto simp: mutate_run_def split: option.split)

end

lemma set_steps_fields [simp]:
  "qr_query_run_id (set_steps f m r) = qr_query_run_id r"
  "qr_account_id (set_steps f m r) = qr_account_id r"
  "qr_status (set_steps f m r) = qr_status r"
  "qr_updated_at (set_steps f m r) = qr_updated_at r"
  "qr_started_at (set_steps f m r) = qr_started_at r"
  "qr_initial_answers (set_steps f m r) = qr_initial_answers r"
  "qr_billing_stages (set_steps f m r) = qr_billing_stages r"
  "qr_progress (set_steps f m r) = qr_progress r"
  "qr_model_slots (set_steps f m r) = qr_model_slots r"
  "qr_mode (set_steps f m r) = qr_mode r"
  by (simp_all add: set_steps_def split: option.split)

lemma transition_run_fields [simp]:
  "qr_query_run_id (transition_run now s f m r) = qr_query_run_id r"
  "qr_account_id (transition_run now s f m r) = qr_account_id r"
  "qr_status (transition_run now s f m r) = s"
  "qr_mode (transition_run now s f m r) = qr_mode r"
  "qr_progress (transition_run now s f m r) = qr_progress r"
  by (simp_all add: transition_run_def Let_def)

lemma update_run_fields [simp]:
  "qr_query_run_id (update_run now u r) = qr_query_run_id r"
  "qr_account_id (update_run now u r) = qr_account_id r"
  "qr_mode (update_run now u r) = qr_mode r"
  "qr_initial_answers (update_run now u r) = qr_initial_answers r"
  by (simp_all add: update_run_def Let_def split: option.split list.split)

lemma update_run_status:
  "qr_status (update_run now u r) =
     (if is_terminal r \<and> \<not> su_allow_terminal u then qr_status r
      else case su_status u of None \<Rightarrow> qr_status r | Some s \<Rightarrow> s)"
  by (simp add: update_run_def Let_def is_terminal_def split: option.split list.split)

lemma lawful_update: "update_disciplined u \<Longrightarrow> lawful_mutation (update_run now u)"
  by unfold_locales (auto simp: update_run_status update_disciplined_def)

interpretation answer_write: lawful_mutation "record_answer_run now a" for now a
  by unfold_locales (simp_all add: record_answer_run_def)

interpretation enter_write: lawful_mutation
  "\<lambda>r. r\<lparr>qr_billing_stages := (qr_billing_stages r)(stage := ENTERED), qr_updated_at := now\<rparr>"
  for stage now
  by unfold_locales simp_all

interpretation metering_write: lawful_mutation
  "\<lambda>r. r\<lparr>qr_cost_estimate := (qr_cost_estimate r)\<lparr>ce_spend_metering_unavailable := True\<rparr>,
        qr_updated_at := now\<rparr>" for now
  by unfold_locales simp_all

interpretation ceiling_write: lawful_mutation
  "\<lambda>r. r\<lparr>qr_cost_estimate := (qr_cost_estimate r)\<lparr>ce_global_ceiling_reached := True\<rparr>,
        qr_updated_at := now\<rparr>" for now
  by unfold_locales simp_all

interpretation debate_write: lawful_mutation
  "\<lambda>r. let r = r\<lparr>qr_debate_outputs := outputs\<rparr>;
           r = (case usages of None \<Rightarrow> r | Some us \<Rightarrow> r\<lparr>qr_debate_call_usages := us\<rparr>)
       in r\<lparr>qr_billing_stages := (qr_billing_stages r)(BILLABLE_DEBATE := RECORDED),
            qr_updated_at := now\<rparr>" for outputs usages now
  by unfold_locales (simp_all add: Let_def split: option.split)

interpretation synthesis_write: lawful_mutation
  "\<lambda>r. let r = r\<lparr>qr_final_synthesis := Some synthesis\<rparr>;
           r = (case usages of None \<Rightarrow> r | Some us \<Rightarrow> r\<lparr>qr_synthesis_call_usages := us\<rparr>)
       in r\<lparr>qr_billing_stages := (qr_billing_stages r)(BILLABLE_SYNTHESIS := RECORDED),
            qr_updated_at := now\<rparr>" for synthesis usages now
  by unfold_locales (simp_all add: Let_def split: option.split)

text \<open>A guarded transition is lawful too, since no transition leaves a terminal status.\<close>

definition guarded_transition ::
  "micros \<Rightarrow> run_status \<Rightarrow> string list option \<Rightarrow> string list option \<Rightarrow> query_run \<Rightarrow> query_run" where
  "guarded_transition now s f m r =
     (if s \<in> ALLOWED_TRANSITIONS (qr_status r) then transition_run now s f m r else r)"

interpretation transition_write: lawful_mutation "guarded_transition now s f m" for now s f m
  by unfold_locales
    (auto simp: guarded_transition_def is_terminal_def terminal_iff_no_transition)

lemma dict_adjust_cong:
  "dict_ok d \<Longrightarrow> (\<And>v. map_of d k = Some v \<Longrightarrow> f v = g v) \<Longrightarrow> dict_adjust k f d = dict_adjust k g d"
  by (auto simp: dict_adjust_def in_set_iff_map_of)

lemma transition_guarded:
  "repo_ok repo \<Longrightarrow>
   snd (transition now rid s f m repo) =
     (case map_of repo rid of None \<Rightarrow> repo | Some r \<Rightarrow>
        if s \<in> ALLOWED_TRANSITIONS (qr_status r) then dict_adjust rid (guarded_transition now s f m) repo
        else repo)"
  by (auto simp: transition_def guarded_transition_def repo_ok_def split: option.split
      intro!: dict_adjust_cong)

lemma transition_ok: "repo_ok repo \<Longrightarrow> repo_ok (snd (transition now rid s f m repo))"
  by (auto simp: transition_guarded transition_write.adjust_ok split: option.split)

lemma update_status_ok:
  "repo_ok repo \<Longrightarrow> update_disciplined u \<Longrightarrow> repo_ok (snd (update_status now rid u repo))"
  by (simp add: update_status_def lawful_mutation.adjust_ok[OF lawful_update] split: option.split)

lemma create_shape:
  "snd (create now i acct qt slots est ctx mode key adm repo) =
     (if adm \<noteq> None then repo
      else if active_of acct (purge_expired now (purge_expired now repo)) \<noteq> []
      then purge_expired now (purge_expired now repo)
      else AList.update i (new_query_run now i acct qt slots est ctx mode key)
             (purge_expired now (purge_expired now repo)))"
  by (auto simp: create_def get_active_for_account_def first_active_None Let_def
      split: option.split dest: first_active_None[THEN iffD2])

lemma update_fresh_append: "k \<notin> fst ` set d \<Longrightarrow> AList.update k v d = d @ [(k, v)]"
  by (induction d) auto

lemma create_ok:
  assumes ok: "repo_ok repo" and fresh: "i \<notin> fst ` set repo"
  shows "repo_ok (snd (create now i acct qt slots est ctx mode key adm repo))"
proof -
  let ?p = "purge_expired now (purge_expired now repo)"
  let ?n = "new_query_run now i acct qt slots est ctx mode key"
  have okp: "repo_ok ?p" using ok by blast
  have freshp: "i \<notin> fst ` set ?p" using fresh by (simp add: purge_keys)
  have new: "repo_ok (AList.update i ?n ?p)" if none: "active_of acct ?p = []"
  proof -
    have "active_of account (?p @ [(i, ?n)]) =
        active_of account ?p @ (if account = acct then [(i, ?n)] else [])" for account
      by (simp add: active_of_def new_query_run_def is_terminal_def TERMINAL_STATUSES_def)
    then have "length (active_of account (?p @ [(i, ?n)])) \<le> 1" for account
      using none okp by (cases "account = acct") (simp_all add: repo_ok_def)
    then show ?thesis using okp freshp
      by (auto simp: repo_ok_def update_fresh_append dict_ok_append_fresh new_query_run_def)
  qed
  show ?thesis using ok okp new by (auto simp: create_shape)
qed

lemma repo_step_ok:
  "repo_ok repo \<Longrightarrow> op_disciplined x \<Longrightarrow> op_fresh repo x \<Longrightarrow> repo_ok (repo_step repo x)"
  by (cases x)
    (auto simp: create_ok transition_ok update_status_ok record_initial_answer_def
      mark_billable_stage_entered_def mark_spend_metering_unavailable_def
      mark_global_ceiling_reached_def record_debate_outputs_def record_final_synthesis_def
      repo_ok_def[of "[]"] active_of_def
      intro: answer_write.mutate_ok enter_write.mutate_ok metering_write.mutate_ok
      ceiling_write.mutate_ok debate_write.mutate_ok synthesis_write.mutate_ok)

lemma repo_ok_Nil [simp]: "repo_ok []"
  by (simp add: repo_ok_def active_of_def)

lemma repo_steps_ok: "repo_ok repo \<Longrightarrow> ops_ok repo xs \<Longrightarrow> repo_ok (repo_steps repo xs)"
  by (induction xs arbitrary: repo) (auto simp: repo_steps_def repo_step_ok)

section \<open>Terminal is final\<close>

definition status_of :: "run_repo \<Rightarrow> uuid \<Rightarrow> run_status option" where
  "status_of repo k = map_option qr_status (map_of repo k)"

definition keeps_final :: "uuid \<Rightarrow> run_status \<Rightarrow> run_repo \<Rightarrow> bool" where
  "keeps_final k s repo = (status_of repo k = None \<or> status_of repo k = Some s)"

lemma keeps_final_purge: "dict_ok repo \<Longrightarrow> keeps_final k s repo \<Longrightarrow> keeps_final k s (purge_expired now repo)"
  by (auto simp: keeps_final_def status_of_def purge_expired_def map_of_filter split: option.splits)

lemma keeps_final_mutate:
  assumes "lawful_mutation f" and "s \<in> TERMINAL_STATUSES" and "keeps_final k s repo"
  shows "keeps_final k s (dict_adjust rid f repo)"
  using assms by (auto simp: keeps_final_def status_of_def is_terminal_def
      dest: lawful_mutation.keeps_terminal)

lemma keeps_final_mutate_run:
  assumes "lawful_mutation f" and "s \<in> TERMINAL_STATUSES" and "keeps_final k s repo"
  shows "keeps_final k s (snd (mutate_run rid f repo))"
  using assms by (simp add: mutate_run_def keeps_final_mutate split: option.split)

lemma keeps_final_create:
  assumes ok: "dict_ok repo" and "k \<noteq> i" and "keeps_final k s repo"
  shows "keeps_final k s (snd (create now i acct qt slots est ctx mode key adm repo))"
proof -
  have "dict_ok (purge_expired now repo)" using ok by (simp add: purge_expired_def dict_ok_filter)
  then have "keeps_final k s (purge_expired now (purge_expired now repo))"
    using assms by (simp add: keeps_final_purge)
  with assms show ?thesis by (auto simp: create_shape keeps_final_def status_of_def)
qed

fun op_creates :: "repo_op \<Rightarrow> uuid option" where
  "op_creates (OpCreate now i acct q slots est ctx mode key) = Some i"
| "op_creates _ = None"

lemma keeps_final_step:
  assumes "repo_ok repo" and "op_disciplined x" and "s \<in> TERMINAL_STATUSES"
    and "keeps_final k s repo" and "op_creates x \<noteq> Some k"
  shows "keeps_final k s (repo_step repo x)"
proof (cases x)
  case (OpCreate now i acct qt slots est ctx mode key)
  then show ?thesis using assms by (auto intro!: keeps_final_create simp: repo_ok_def)
next
  case (OpTransition now rid t f m)
  then show ?thesis using assms
    by (auto simp: transition_guarded keeps_final_mutate transition_write.lawful_mutation_axioms
        split: option.split)
next
  case (OpUpdate now rid u)
  then show ?thesis using assms
    by (auto simp: update_status_def keeps_final_mutate lawful_update split: option.split)
next
  case (OpRead now)
  then show ?thesis using assms by (simp add: keeps_final_purge repo_ok_def)
next
  case OpClear
  then show ?thesis by (simp add: keeps_final_def status_of_def)
qed (simp_all add: assms record_initial_answer_def mark_billable_stage_entered_def
      mark_spend_metering_unavailable_def mark_global_ceiling_reached_def record_debate_outputs_def
      record_final_synthesis_def keeps_final_mutate_run answer_write.lawful_mutation_axioms
      enter_write.lawful_mutation_axioms metering_write.lawful_mutation_axioms
      ceiling_write.lawful_mutation_axioms debate_write.lawful_mutation_axioms
      synthesis_write.lawful_mutation_axioms)

lemma keeps_final_steps:
  assumes "repo_ok repo" and "ops_ok repo xs" and "s \<in> TERMINAL_STATUSES" and "keeps_final k s repo"
    and "Some k \<notin> op_creates ` set xs"
  shows "keeps_final k s (repo_steps repo xs)"
  using assms
proof (induction xs arbitrary: repo)
  case Nil
  then show ?case by (simp add: repo_steps_def)
next
  case (Cons x xs)
  have "keeps_final k s (repo_step repo x)"
    using Cons.prems by (intro keeps_final_step) auto
  moreover have "repo_ok (repo_step repo x)" using Cons.prems by (simp add: repo_step_ok)
  ultimately have "keeps_final k s (repo_steps (repo_step repo x) xs)"
    using Cons.IH Cons.prems by simp
  then show ?case by (simp add: repo_steps_def)
qed

section \<open>Length of a run's life\<close>

fun status_path :: "run_status list \<Rightarrow> bool" where
  "status_path (s # t # ss) = (t \<in> ALLOWED_TRANSITIONS s \<and> status_path (t # ss))"
| "status_path _ = True"

fun steps_left :: "run_status \<Rightarrow> nat" where
  "steps_left DRAFT = 7"
| "steps_left COST_REVIEW = 6"
| "steps_left ACCEPTED = 5"
| "steps_left INITIAL_ANSWERS_RUNNING = 4"
| "steps_left DEBATE_ROUND_1_RUNNING = 3"
| "steps_left DEBATE_ROUND_2_RUNNING = 2"
| "steps_left SYNTHESIS_RUNNING = 1"
| "steps_left _ = 0"

lemma steps_left_decreases: "t \<in> ALLOWED_TRANSITIONS s \<Longrightarrow> steps_left t < steps_left s"
  by (cases s) auto

lemma status_path_length: "status_path (s # ss) \<Longrightarrow> length ss \<le> steps_left s"
proof (induction ss arbitrary: s)
  case Nil
  show ?case by simp
next
  case (Cons t ss)
  then show ?case using steps_left_decreases[of t s] by fastforce
qed

section \<open>Recorded answers\<close>

definition answers_ok :: "query_run \<Rightarrow> bool" where
  "answers_ok r = (sorted_wrt (<) (map ia_slot_number (qr_initial_answers r)))"

lemma record_answer_sorted:
  "answers_ok r \<Longrightarrow> answers_ok (record_answer_run now a r)"
proof -
  assume "answers_ok r"
  then have d: "distinct (map ia_slot_number (qr_initial_answers r))"
    by (simp add: answers_ok_def strict_sorted_iff)
  let ?xs = "filter (\<lambda>e. ia_slot_number e \<noteq> ia_slot_number a) (qr_initial_answers r) @ [a]"
  have "distinct (map ia_slot_number ?xs)"
    using d by (auto simp: distinct_map_filter)
  then have "distinct (map ia_slot_number (sort_key ia_slot_number ?xs))"
    by (metis distinct_map distinct_sort set_sort)
  then show ?thesis
    by (simp add: answers_ok_def record_answer_run_def strict_sorted_iff)
qed

lemma record_answer_set:
  "set (qr_initial_answers (record_answer_run now a r)) =
     insert a {e \<in> set (qr_initial_answers r). ia_slot_number e \<noteq> ia_slot_number a}"
  by (auto simp: record_answer_run_def)

section \<open>Properties of the repository\<close>

text \<open>C2. An account has at most one run in progress, whatever sequence of repository operations
  (creations, transitions, pipeline writes, reads that purge) led to the present state.\<close>

theorem one_active_run_per_account:
  assumes "ops_ok [] xs"
  shows "length (filter (\<lambda>r. qr_account_id r = account \<and> \<not> is_terminal r)
                   (map snd (repo_steps [] xs))) \<le> 1"
proof -
  have "repo_ok (repo_steps [] xs)" using assms by (intro repo_steps_ok) simp_all
  moreover have "length (filter (\<lambda>r. qr_account_id r = account \<and> \<not> is_terminal r) (map snd repo))
      = length (active_of account repo)" for repo
    by (simp add: active_of_def filter_map o_def case_prod_unfold)
  ultimately show ?thesis by (simp add: repo_ok_def)
qed

definition create_op :: "micros \<Rightarrow> uuid \<Rightarrow> uuid \<Rightarrow> repo_op" where
  "create_op now i account =
     OpCreate now i account ''q'' two_slots small_estimate None MODE_PANEL None"

text \<open>Evaluating repository operations on concrete runs, without unfolding the id's hex digits.\<close>

lemmas repo_eval =
  create_op_def create_def get_active_for_account_def first_active_def Let_def purge_expired_def
  run_expired_def is_terminal_def TERMINAL_STATUSES_def new_query_run_def QUERY_RUN_TERMINAL_TTL_def
  QUERY_RUN_ACTIVE_TTL_def transition_def transition_run_def set_steps_def dict_adjust_def
  repo_steps_def update_disciplined_def update_status_def update_run_def no_update_def
  record_initial_answer_def mutate_run_def record_answer_run_def

theorem one_active_run_per_account_witness:
  "ops_ok [] [create_op 0 1 7, create_op 5 2 7, OpTransition 6 1 CANCELLED None None, create_op 9 3 7]
   \<and> length (filter (\<lambda>r. qr_account_id r = 7 \<and> \<not> is_terminal r)
        (map snd (repo_steps [] [create_op 0 1 7, create_op 5 2 7,
           OpTransition 6 1 CANCELLED None None, create_op 9 3 7]))) \<le> 1"
proof -
  have ok: "ops_ok [] [create_op 0 1 7, create_op 5 2 7, OpTransition 6 1 CANCELLED None None,
      create_op 9 3 7]"
    by (simp add: repo_eval)
  show ?thesis using ok one_active_run_per_account[OF ok, of 7] by blast
qed

text \<open>C3. A finished run is final: no later sequence of operations changes its status; it keeps that
  status until it is purged.\<close>

theorem terminal_status_is_final:
  assumes "repo_ok repo" and "ops_ok repo xs"
    and "map_of repo k = Some r" and "is_terminal r"
    and "Some k \<notin> op_creates ` set xs"
  shows "map_of (repo_steps repo xs) k = None
    \<or> (\<exists>r'. map_of (repo_steps repo xs) k = Some r' \<and> qr_status r' = qr_status r)"
proof -
  have "keeps_final k (qr_status r) (repo_steps repo xs)"
    using assms by (intro keeps_final_steps) (auto simp: keeps_final_def status_of_def is_terminal_def)
  then show ?thesis by (auto simp: keeps_final_def status_of_def)
qed

definition cancelled_repo :: run_repo where
  "cancelled_repo = repo_steps [] [create_op 0 1 7, OpTransition 6 1 CANCELLED None None]"

definition late_writes :: "repo_op list" where
  "late_writes = [OpUpdate 7 1 (no_update\<lparr>su_status := Some DEBATE_ROUND_1_RUNNING\<rparr>),
     OpAnswer 8 1 (plain_answer 1 ''a''),
     OpUpdate 9 1 (no_update\<lparr>su_stage_name := Some ''synthesis'', su_stage_state := Some STAGE_SKIPPED,
       su_allow_terminal := True\<rparr>)]"

theorem terminal_status_is_final_witness:
  "\<exists>r. map_of cancelled_repo 1 = Some r \<and> is_terminal r \<and> ops_ok cancelled_repo late_writes \<and>
     (map_of (repo_steps cancelled_repo late_writes) 1 = None
      \<or> (\<exists>r'. map_of (repo_steps cancelled_repo late_writes) 1 = Some r' \<and> qr_status r' = qr_status r))"
proof -
  have ok: "repo_ok cancelled_repo"
    unfolding cancelled_repo_def by (rule repo_steps_ok) (simp_all add: repo_eval)
  have ops: "ops_ok cancelled_repo late_writes"
    by (simp add: repo_eval cancelled_repo_def late_writes_def)
  have "map_option is_terminal (map_of cancelled_repo 1) = Some True"
    by (simp add: repo_eval cancelled_repo_def)
  then obtain r where r: "map_of cancelled_repo 1 = Some r" "is_terminal r" by auto
  have nc: "Some 1 \<notin> op_creates ` set late_writes" by (simp add: late_writes_def)
  show ?thesis using r ops terminal_status_is_final[OF ok ops r nc] by blast
qed

text \<open>The transition table has no cycle: along it a run accepted for execution changes status at most five
  times, and from every status that is not final it still allows a cancellation.\<close>

theorem run_life_is_bounded:
  "(status_path (ACCEPTED # ss) \<longrightarrow> length ss \<le> 5)
   \<and> (s \<in> TERMINAL_STATUSES \<longleftrightarrow> ALLOWED_TRANSITIONS s = {})
   \<and> (s \<notin> TERMINAL_STATUSES \<longleftrightarrow> CANCELLED \<in> ALLOWED_TRANSITIONS s)"
  using status_path_length[of ACCEPTED ss] terminal_iff_no_transition cancel_allowed by auto

theorem run_life_is_bounded_witness:
  "status_path (ACCEPTED # [INITIAL_ANSWERS_RUNNING, DEBATE_ROUND_1_RUNNING, DEBATE_ROUND_2_RUNNING,
     SYNTHESIS_RUNNING, COMPLETED])
   \<and> length [INITIAL_ANSWERS_RUNNING, DEBATE_ROUND_1_RUNNING, DEBATE_ROUND_2_RUNNING,
     SYNTHESIS_RUNNING, COMPLETED] \<le> 5"
  using run_life_is_bounded[of "[INITIAL_ANSWERS_RUNNING, DEBATE_ROUND_1_RUNNING,
    DEBATE_ROUND_2_RUNNING, SYNTHESIS_RUNNING, COMPLETED]" DRAFT]
  by simp

lemma active_iff:
  assumes "repo_ok repo"
  shows "active_of account (purge_expired now (purge_expired now repo)) \<noteq> [] \<longleftrightarrow>
    (\<exists>k r. map_of repo k = Some r \<and> qr_account_id r = account \<and> \<not> is_terminal r
        \<and> now - qr_updated_at r \<le> QUERY_RUN_ACTIVE_TTL)"
proof -
  have "(k, r) \<in> set repo \<longleftrightarrow> map_of repo k = Some r" for k r
    using assms by (simp add: repo_ok_def in_set_iff_map_of)
  then show ?thesis
    by (auto simp: active_of_def purge_expired_def filter_empty_conv run_expired_def Let_def
        not_less)
qed

text \<open>Creating a run is refused exactly when the account has a run in progress that was updated in
  the last thirty minutes; otherwise the new run is stored as ACCEPTED under its id and read back.\<close>

theorem create_refused_iff_active:
  assumes "repo_ok repo" and "i \<notin> fst ` set repo"
  shows "let res = create now i acct q slots est ctx mode key (None :: 'e option) repo in
    (if \<exists>k r. map_of repo k = Some r \<and> qr_account_id r = acct \<and> \<not> is_terminal r
          \<and> now - qr_updated_at r \<le> QUERY_RUN_ACTIVE_TTL
     then fst res = Inl (Inr ActiveQueryRunExists)
     else (\<exists>r. fst res = Inr r \<and> qr_status r = ACCEPTED \<and> qr_account_id r = acct
            \<and> fst (get_run now i (snd res)) = Inr r))"
proof (cases "active_of acct (purge_expired now (purge_expired now repo)) = []")
  case True
  let ?n = "new_query_run now i acct q slots est ctx mode key"
  let ?p = "purge_expired now (purge_expired now repo)"
  have okp: "dict_ok (AList.update i ?n ?p)"
    using assms(1) by (auto simp: repo_ok_def purge_expired_def intro: dict_intro)
  have res: "create now i acct q slots est ctx mode key (None :: 'e option) repo
      = (Inr ?n, AList.update i ?n ?p)"
    using True by (simp add: create_def get_active_for_account_def Let_def first_active_None[symmetric])
  have fresh: "\<not> run_expired now ?n"
    by (simp add: run_expired_def new_query_run_def QUERY_RUN_TERMINAL_TTL_def QUERY_RUN_ACTIVE_TTL_def)
  have "fst (get_run now i (AList.update i ?n ?p)) = Inr ?n"
    using fresh map_of_filter[OF okp, of "\<lambda>(k, r). \<not> run_expired now r" i]
    by (simp add: get_run_def purge_expired_def)
  then show ?thesis using True active_iff[OF assms(1), of acct now]
    by (simp add: res new_query_run_def)
next
  case False
  then obtain r where "first_active acct (purge_expired now (purge_expired now repo)) = Some r"
    by (metis first_active_None not_Some_eq)
  then have "fst (create now i acct q slots est ctx mode key (None :: 'e option) repo)
      = Inl (Inr ActiveQueryRunExists)"
    by (simp add: create_def get_active_for_account_def Let_def)
  then show ?thesis using False active_iff[OF assms(1), of acct now] by (simp add: Let_def)
qed

theorem create_refused_iff_active_witness:
  "fst (create 5 2 7 ''q'' two_slots small_estimate None MODE_PANEL None (None :: unit option) [])
     = Inr (new_query_run 5 2 7 ''q'' two_slots small_estimate None MODE_PANEL None)
   \<and> (\<exists>r. fst (create 5 2 7 ''q'' two_slots small_estimate None MODE_PANEL None (None :: unit option) [])
       = Inr r \<and> qr_status r = ACCEPTED)"
  using create_refused_iff_active[of "[]" 2 5 7 "''q''" two_slots small_estimate None MODE_PANEL None,
      where 'e = unit]
  by (auto simp: Let_def create_def get_active_for_account_def first_active_def purge_expired_def)

text \<open>Recording an answer keeps the run's answers in slot order with one answer per slot, replaces
  an earlier answer of the same slot and leaves the other slots' answers as they were.\<close>

theorem record_answer_one_per_slot:
  assumes "answers_ok r"
  shows "sorted_wrt (<) (map ia_slot_number (qr_initial_answers (record_answer_run now a r)))
    \<and> set (qr_initial_answers (record_answer_run now a r)) =
        insert a {e \<in> set (qr_initial_answers r). ia_slot_number e \<noteq> ia_slot_number a}"
  using record_answer_sorted[OF assms, of now a] record_answer_set[of now a r]
  by (simp add: answers_ok_def)

definition two_answer_run :: query_run where
  "two_answer_run = (new_query_run 0 1 7 ''q'' two_slots small_estimate None MODE_PANEL None)
     \<lparr>qr_initial_answers := [plain_answer 1 ''a'', plain_answer 2 ''b'']\<rparr>"

theorem record_answer_one_per_slot_witness:
  "answers_ok two_answer_run
   \<and> sorted_wrt (<) (map ia_slot_number (qr_initial_answers
       (record_answer_run 9 (plain_answer 1 ''c'') two_answer_run)))"
proof -
  have ok: "answers_ok two_answer_run"
    by (simp add: answers_ok_def two_answer_run_def plain_answer_def)
  show ?thesis using ok record_answer_one_per_slot[OF ok, of 9 "plain_answer 1 ''c''"] by blast
qed

end
