(* ===== verification/Pipeline.thy ===== *)
theory Pipeline
  imports Run_State
begin

text \<open>
  The worker of a run: \<^verbatim>\<open>_execute_query_run\<close> and its callers in
  \<^verbatim>\<open>src/product_app/query_run_orchestration.py\<close>, as one program over the run repository. Between
  any two of its repository calls other threads may act: a script of \<open>tick\<close>s gives, before each call,
  the clock, the performance counter and the other threads' operations. The pipeline's statements are
  sequenced by \<open>pl_bind\<close>, where \<open>Return\<close> is an early \<^verbatim>\<open>return\<close> and \<open>Raise\<close> an
  exception. What the provider, debate and synthesis services answer is the record \<open>run_services\<close>.
\<close>

section \<open>Programs over the repository\<close>

record tick =
  tk_now :: micros
  tk_elapsed :: rat              \<comment> \<open>\<^verbatim>\<open>perf_counter() - _run_clock_start\<close>\<close>
  tk_others :: "repo_op list"    \<comment> \<open>what other threads did since the last call\<close>

record pl_state =
  pl_repo :: run_repo
  pl_script :: "tick list"
  pl_clock :: "micros \<times> rat"

text \<open>An exception: a repository's, or another one with its type's name.\<close>

datatype pl_error = RepoError repo_error | StageError string

fun error_name :: "pl_error \<Rightarrow> string" where
  "error_name (RepoError (RunKeyError k)) = ''KeyError''"
| "error_name (RepoError (InvalidTransition f t)) = ''InvalidQueryRunTransitionError''"
| "error_name (RepoError ActiveQueryRunExists) = ''ActiveQueryRunExistsError''"
| "error_name (StageError n) = n"

datatype 'a pl_result = Done 'a | Return | Raise pl_error

type_synonym 'a pl = "pl_state \<Rightarrow> 'a pl_result \<times> pl_state"

definition pl_done :: "'a \<Rightarrow> 'a pl" where "pl_done x s = (Done x, s)"
definition pl_return :: "'a pl" where "pl_return s = (Return, s)"
definition pl_raise :: "pl_error \<Rightarrow> 'a pl" where "pl_raise e s = (Raise e, s)"

definition pl_bind :: "'a pl \<Rightarrow> ('a \<Rightarrow> 'b pl) \<Rightarrow> 'b pl" where
  "pl_bind m f s =
     (case m s of
        (Done x, s) \<Rightarrow> f x s
      | (Return, s) \<Rightarrow> (Return, s)
      | (Raise e, s) \<Rightarrow> (Raise e, s))"

definition pl_seq :: "'a pl \<Rightarrow> 'b pl \<Rightarrow> 'b pl" where
  "pl_seq m n = pl_bind m (\<lambda>_. n)"

definition pl_tick :: "pl_state \<Rightarrow> pl_state" where
  "pl_tick s =
     (case pl_script s of
        [] \<Rightarrow> s
      | t # ts \<Rightarrow> s\<lparr>pl_script := ts, pl_clock := (tk_now t, tk_elapsed t),
                   pl_repo := repo_steps (pl_repo s) (tk_others t)\<rparr>)"

text \<open>One repository call, atomic under the repository's lock.\<close>

definition pl_call :: "(micros \<Rightarrow> run_repo \<Rightarrow> (repo_error + 'a) \<times> run_repo) \<Rightarrow> 'a pl" where
  "pl_call f s =
     (let s = pl_tick s in
      case f (fst (pl_clock s)) (pl_repo s) of
        (Inl e, repo) \<Rightarrow> (Raise (RepoError e), s\<lparr>pl_repo := repo\<rparr>)
      | (Inr x, repo) \<Rightarrow> (Done x, s\<lparr>pl_repo := repo\<rparr>))"

definition budget_remaining :: "rat \<Rightarrow> rat pl" where
  "budget_remaining deadline s = (let s = pl_tick s in (Done (deadline - snd (pl_clock s)), s))"

section \<open>The pipeline's steps\<close>

datatype future_outcome = FutureAnswer initial_answer | FutureTimeout | FutureRaised

record debate_result =
  dr_debate_outputs :: "debate_output list"
  dr_failed_steps :: "string list"
  dr_missing_steps :: "string list"
  dr_timed_out :: bool
  dr_live_call_usages :: "(nat \<times> token_usage option) list"

record synthesis_result =
  yr_final_synthesis :: "final_synthesis option"
  yr_failed_steps :: "string list"
  yr_missing_steps :: "string list"
  yr_live_call_usages :: "token_usage option list"

text \<open>The services' answers; \<open>Inl\<close> the exception's name when a service raises. \<open>sv_announces\<close>: round two was dispatched.\<close>

record run_services =
  sv_deadline :: rat
  sv_deadline_text :: string
  sv_live_without_key :: bool
  sv_answer :: "model_slot \<Rightarrow> future_outcome"
  sv_deadline_answer :: "model_slot \<Rightarrow> initial_answer"
  sv_announces :: bool
  sv_debate :: "initial_answer list \<Rightarrow> string + debate_result"
  sv_synthesis :: "initial_answer list \<Rightarrow> debate_output list \<Rightarrow> string + synthesis_result"

definition update_call :: "uuid \<Rightarrow> status_update \<Rightarrow> query_run pl" where
  "update_call rid u = pl_call (\<lambda>now. update_status now rid u)"

text \<open>\<open>update_status\<close> with a stage, and optionally a status.\<close>

definition stage_update :: "run_status option \<Rightarrow> string \<Rightarrow> stage_state \<Rightarrow> string \<Rightarrow> status_update" where
  "stage_update status stage st detail = no_update\<lparr>su_status := status, su_stage_name := Some stage,
     su_stage_state := Some st, su_detail := Some detail\<rparr>"

definition halt_update ::
  "run_status \<Rightarrow> string \<Rightarrow> string \<Rightarrow> string list \<Rightarrow> string list \<Rightarrow> status_update" where
  "halt_update status stage detail failed missing =
     (stage_update (Some status) stage STAGE_FAILED detail)\<lparr>su_failed_steps := Some failed, su_missing_steps := Some missing\<rparr>"

definition should_stop :: "uuid \<Rightarrow> bool pl" where
  "should_stop rid s =
     (case pl_call (\<lambda>now. get_run now rid) s of
        (Done r, s) \<Rightarrow> (Done (qr_status r = CANCELLED), s)
      | (Raise (RepoError (RunKeyError k)), s) \<Rightarrow> (Done True, s)
      | (Raise e, s) \<Rightarrow> (Raise e, s)
      | (Return, s) \<Rightarrow> (Return, s))"

definition stop_or :: "uuid \<Rightarrow> 'a pl \<Rightarrow> 'a pl" where
  "stop_or rid m = pl_bind (should_stop rid) (\<lambda>stop. if stop then pl_return else m)"

fun mark_stages :: "uuid \<Rightarrow> string \<Rightarrow> string list \<Rightarrow> unit pl" where
  "mark_stages rid detail [] = pl_done ()"
| "mark_stages rid detail (stage # stages) =
     pl_seq (update_call rid ((stage_update None stage STAGE_SKIPPED detail)\<lparr>su_allow_terminal := True\<rparr>))
       (mark_stages rid detail stages)"

definition mark_remaining_stages :: "uuid \<Rightarrow> string list \<Rightarrow> unit pl" where
  "mark_remaining_stages rid = mark_stages rid ''Not executed because an earlier stage failed or timed out.''"

definition QUICK_SKIPPED_STAGE_DETAIL :: string where
  "QUICK_SKIPPED_STAGE_DETAIL = ''Not part of a quick answer.''"

definition mark_after_terminal :: "uuid \<Rightarrow> bool \<Rightarrow> unit pl" where
  "mark_after_terminal rid quick =
     (if \<not> quick then mark_remaining_stages rid [''debate_round_1'', ''debate_round_2'', ''synthesis'']
      else mark_stages rid QUICK_SKIPPED_STAGE_DETAIL [''debate_round_1'', ''debate_round_2'', ''synthesis''])"

definition degrade_run_for_deadline ::
  "uuid \<Rightarrow> string \<Rightarrow> string \<Rightarrow> string list \<Rightarrow> string list \<Rightarrow> bool pl" where
  "degrade_run_for_deadline rid deadline_text stage failed missing s =
     (case pl_call (\<lambda>now. transition now rid TIMED_OUT (Some failed) (Some missing)) s of
        (Raise (RepoError (InvalidTransition f t)), s) \<Rightarrow> (Done False, s)
      | (Raise e, s) \<Rightarrow> (Raise e, s)
      | (Return, s) \<Rightarrow> (Return, s)
      | (Done _, s) \<Rightarrow>
          pl_seq (update_call rid ((stage_update None stage STAGE_FAILED
              (''Run exceeded the '' @ deadline_text @ ''s wall-clock deadline (NFR-004); serving the completed portion.''))
              \<lparr>su_allow_terminal := True\<rparr>))
            (pl_done True) s)"

fun collect_answers :: "run_services \<Rightarrow> uuid \<Rightarrow> bool \<Rightarrow> model_slot list \<Rightarrow> bool pl" where
  "collect_answers sv rid breached [] = pl_done breached"
| "collect_answers sv rid breached (slot # slots) =
     (case sv_answer sv slot of
        FutureRaised \<Rightarrow> collect_answers sv rid breached slots
      | FutureTimeout \<Rightarrow>
          pl_bind (budget_remaining (sv_deadline sv)) (\<lambda>budget.
            if budget > 0 then collect_answers sv rid breached slots
            else stop_or rid
              (pl_seq (pl_call (\<lambda>now. record_initial_answer now rid (sv_deadline_answer sv slot)))
                (collect_answers sv rid True slots)))
      | FutureAnswer a \<Rightarrow>
          stop_or rid
            (pl_seq (pl_call (\<lambda>now. record_initial_answer now rid a))
              (collect_answers sv rid breached slots)))"

definition panel_size_word :: "nat \<Rightarrow> string option" where
  "panel_size_word n =
     (if n = 2 then Some ''Two'' else if n = 3 then Some ''Three'' else if n = 4 then Some ''Four'' else None)"

definition lower_first :: "string \<Rightarrow> string" where
  "lower_first w = (if w = ''Two'' then ''two'' else if w = ''Three'' then ''three'' else if w = ''Four'' then ''four'' else w)"

definition synthesis_stage :: "run_services \<Rightarrow> uuid \<Rightarrow> unit pl" where
  "synthesis_stage sv rid =
     pl_seq (update_call rid (stage_update (Some SYNTHESIS_RUNNING) ''debate_round_2'' STAGE_COMPLETED ''Debate round 2 completed.''))
     (pl_seq (update_call rid (stage_update None ''synthesis'' STAGE_RUNNING ''Synthesizing consensus and disagreement.''))
     (stop_or rid
     (pl_bind (budget_remaining (sv_deadline sv)) (\<lambda>budget.
      if budget \<le> 0
      then pl_seq (degrade_run_for_deadline rid (sv_deadline_text sv) ''synthesis'' [] [''synthesis'']) pl_return
      else
        pl_bind (pl_call (\<lambda>now. get_run now rid)) (\<lambda>latest.
        pl_seq (pl_call (\<lambda>now. mark_billable_stage_entered now rid BILLABLE_SYNTHESIS))
        (case sv_synthesis sv (qr_initial_answers latest) (qr_debate_outputs latest) of
           Inl e \<Rightarrow> pl_raise (StageError e)
         | Inr yr \<Rightarrow>
             pl_bind (should_stop rid) (\<lambda>stop.
             if stop \<and> yr_live_call_usages yr = [] then pl_return
             else (case yr_final_synthesis yr of
                 None \<Rightarrow>
                   pl_seq (update_call rid (halt_update PARTIAL ''synthesis''
                       ''Synthesis could not complete from the available evidence.''
                       (yr_failed_steps yr) (yr_missing_steps yr)))
                     pl_return
               | Some synthesis \<Rightarrow>
                   pl_seq (pl_call (\<lambda>now. record_final_synthesis now rid synthesis (Some (yr_live_call_usages yr))))
                   (pl_seq (update_call rid (stage_update (Some COMPLETED) ''synthesis'' STAGE_COMPLETED ''Synthesis completed.''))
                   (pl_done ()))))))))))"

definition announce_round_two :: "uuid \<Rightarrow> unit pl" where
  "announce_round_two rid =
     pl_seq (update_call rid (stage_update (Some DEBATE_ROUND_2_RUNNING) ''debate_round_1'' STAGE_COMPLETED ''Debate round 1 completed.''))
     (pl_seq (update_call rid (stage_update None ''debate_round_2'' STAGE_RUNNING ''Running debate round 2.''))
     (pl_done ()))"

definition after_debate :: "run_services \<Rightarrow> uuid \<Rightarrow> debate_result \<Rightarrow> unit pl" where
  "after_debate sv rid dr =
     pl_bind (should_stop rid) (\<lambda>stop.
     if stop \<and> dr_live_call_usages dr = [] then pl_return
     else
       pl_seq (pl_call (\<lambda>now. record_debate_outputs now rid (dr_debate_outputs dr) (Some (dr_live_call_usages dr))))
       (if dr_debate_outputs dr = [] then
          pl_bind (update_call rid (halt_update PARTIAL ''debate_round_1''
              ''Debate could not start because initial answers were unavailable.''
              (dr_failed_steps dr) (dr_missing_steps dr))) (\<lambda>halted.
          pl_seq (if qr_status halted = PARTIAL then mark_remaining_stages rid [''debate_round_2'', ''synthesis''] else pl_done ())
            pl_return)
        else
          pl_seq (update_call rid (stage_update (Some DEBATE_ROUND_2_RUNNING) ''debate_round_1'' STAGE_COMPLETED
              ''Debate round 1 completed.''))
          (if dr_timed_out dr then
             pl_bind (update_call rid (halt_update PARTIAL ''debate_round_2'' ''Debate round 2 timed out.''
                 (dr_failed_steps dr) (dr_missing_steps dr))) (\<lambda>halted.
             pl_seq (if qr_status halted = PARTIAL then mark_remaining_stages rid [''synthesis''] else pl_done ())
               pl_return)
           else
             pl_seq (if \<not> sv_announces sv
                then pl_seq (update_call rid (stage_update None ''debate_round_2'' STAGE_RUNNING ''Running debate round 2.'')) (pl_done ())
                else pl_done ())
             (stop_or rid (synthesis_stage sv rid)))))"

definition debate_stage :: "run_services \<Rightarrow> uuid \<Rightarrow> initial_answer list \<Rightarrow> unit pl" where
  "debate_stage sv rid answers =
     pl_seq (update_call rid (stage_update (Some DEBATE_ROUND_1_RUNNING) ''initial_answers'' STAGE_COMPLETED ''Initial model answers collected.''))
     (pl_seq (update_call rid (stage_update None ''debate_round_1'' STAGE_RUNNING ''Running debate round 1.''))
     (stop_or rid
     (pl_bind (budget_remaining (sv_deadline sv)) (\<lambda>budget.
      if budget \<le> 0 then
        pl_bind (degrade_run_for_deadline rid (sv_deadline_text sv) ''debate_round_1'' []
            [''debate_round_1'', ''debate_round_2'', ''synthesis'']) (\<lambda>landed.
        pl_seq (if landed then mark_remaining_stages rid [''debate_round_2'', ''synthesis''] else pl_done ())
          pl_return)
      else
        pl_seq (pl_call (\<lambda>now. mark_billable_stage_entered now rid BILLABLE_DEBATE))
        (pl_seq (if sv_announces sv then announce_round_two rid else pl_done ())
        (case sv_debate sv answers of
           Inl e \<Rightarrow> pl_raise (StageError e)
         | Inr dr \<Rightarrow> after_debate sv rid dr))))))"

definition quick_tail :: "uuid \<Rightarrow> unit pl" where
  "quick_tail rid =
     pl_seq (update_call rid (stage_update None ''debate_round_1'' STAGE_SKIPPED QUICK_SKIPPED_STAGE_DETAIL))
     (pl_seq (update_call rid (stage_update None ''debate_round_2'' STAGE_SKIPPED QUICK_SKIPPED_STAGE_DETAIL))
     (pl_seq (update_call rid (stage_update None ''synthesis'' STAGE_SKIPPED QUICK_SKIPPED_STAGE_DETAIL))
     (pl_seq (update_call rid (stage_update (Some COMPLETED) ''initial_answers'' STAGE_COMPLETED ''Model answer collected.''))
     pl_return)))"

definition initial_stage :: "run_services \<Rightarrow> uuid \<Rightarrow> query_run \<Rightarrow> string \<Rightarrow> unit pl" where
  "initial_stage sv rid query_run detail =
     pl_seq (update_call rid ((stage_update (Some INITIAL_ANSWERS_RUNNING) ''initial_answers'' STAGE_RUNNING detail)
         \<lparr>su_mark_started := True\<rparr>))
     (pl_bind (collect_answers sv rid False (qr_model_slots query_run)) (\<lambda>breached.
      let quick = (qr_mode query_run = MODE_QUICK); downstream = downstream_stages query_run
      in if breached then
           pl_bind (degrade_run_for_deadline rid (sv_deadline_text sv) ''initial_answers'' [''initial_answers''] downstream) (\<lambda>landed.
           pl_seq (if landed then mark_after_terminal rid quick else pl_done ()) pl_return)
         else
           pl_bind (pl_call (\<lambda>now. get_run now rid)) (\<lambda>refreshed.
           if \<not> list_ex (\<lambda>a. ia_status a = ANSWER_COMPLETED) (qr_initial_answers refreshed) then
             pl_bind (update_call rid (halt_update PARTIAL ''initial_answers'' ''No usable initial model answers completed.''
                 (''initial_answers'' # downstream) downstream)) (\<lambda>halted.
             pl_seq (if qr_status halted = PARTIAL then mark_after_terminal rid quick else pl_done ()) pl_return)
           else if quick then quick_tail rid
           else debate_stage sv rid (qr_initial_answers refreshed))))"

definition execute_query_run :: "run_services \<Rightarrow> uuid \<Rightarrow> unit pl" where
  "execute_query_run sv rid =
     pl_bind (pl_call (\<lambda>now. get_run now rid)) (\<lambda>query_run.
     if sv_live_without_key sv then
       pl_bind (update_call rid (halt_update FAILED ''initial_answers''
           ''Live execution is enabled but no server-side key is configured.''
           (''initial_answers'' # downstream_stages query_run) (''initial_answers'' # downstream_stages query_run))) (\<lambda>halted.
       pl_seq (if qr_status halted = FAILED then mark_after_terminal rid (qr_mode query_run = MODE_QUICK) else pl_done ())
         pl_return)
     else if qr_mode query_run = MODE_QUICK then initial_stage sv rid query_run ''Running one model call.''
     else (case panel_size_word (length (qr_model_slots query_run)) of
             None \<Rightarrow> pl_raise (StageError ''ValueError'')
           | Some w \<Rightarrow> initial_stage sv rid query_run (''Running '' @ lower_first w @ '' initial model calls.'')))"

text \<open>The thread's entry: an escaped exception is written as a failure, if the run is still there.\<close>

definition execute_query_run_safely :: "run_services \<Rightarrow> uuid \<Rightarrow> pl_state \<Rightarrow> pl_state" where
  "execute_query_run_safely sv rid s =
     (case execute_query_run sv rid s of
        (Raise e, s) \<Rightarrow>
          snd (pl_bind (pl_call (\<lambda>now. get_run now rid)) (\<lambda>r.
               pl_bind (pl_call (\<lambda>now. get_run now rid)) (\<lambda>r2.
               update_call rid (halt_update FAILED (running_stage_name (qr_progress r)) 
                   (''Unhandled pipeline error: '' @ error_name e @ ''.'') [''pipeline'']
                 (map sg_stage (filter (\<lambda>g. sg_state g = STAGE_PENDING) (qr_progress r2)))))) s)
      | (_, s) \<Rightarrow> s)"


section \<open>Reasoning about the worker\<close>

text \<open>
  A triple: from a repository satisfying \<open>J\<close>, with every remaining script entry made of permitted
  operations, \<open>m\<close> ends in \<open>Q\<close> when it is done, in \<open>R\<close> when it returns early and in \<open>X\<close> when it raises.
\<close>

definition script_ok :: "(repo_op \<Rightarrow> bool) \<Rightarrow> pl_state \<Rightarrow> bool" where
  "script_ok ok s = list_all (\<lambda>t. list_all ok (tk_others t)) (pl_script s)"

fun meets :: "('a \<Rightarrow> run_repo \<Rightarrow> bool) \<Rightarrow> (run_repo \<Rightarrow> bool) \<Rightarrow> (run_repo \<Rightarrow> bool) \<Rightarrow> 'a pl_result \<Rightarrow> run_repo \<Rightarrow> bool" where
  "meets Q R X (Done x) repo = Q x repo"
| "meets Q R X Return repo = R repo"
| "meets Q R X (Raise e) repo = X repo"

definition triple ::
  "(repo_op \<Rightarrow> bool) \<Rightarrow> (run_repo \<Rightarrow> bool) \<Rightarrow> 'a pl \<Rightarrow> ('a \<Rightarrow> run_repo \<Rightarrow> bool) \<Rightarrow> (run_repo \<Rightarrow> bool) \<Rightarrow>
   (run_repo \<Rightarrow> bool) \<Rightarrow> bool" where
  "triple ok J m Q R X =
     (\<forall>s. J (pl_repo s) \<and> script_ok ok s \<longrightarrow>
        script_ok ok (snd (m s)) \<and> meets Q R X (fst (m s)) (pl_repo (snd (m s))))"

lemma tripleD:
  "triple ok J m Q R X \<Longrightarrow> J (pl_repo s) \<Longrightarrow> script_ok ok s \<Longrightarrow> m s = (res, s') \<Longrightarrow>
   script_ok ok s' \<and> meets Q R X res (pl_repo s')"
  unfolding triple_def by (metis fst_conv snd_conv)

lemma tripleI:
  "(\<And>s res s'. J (pl_repo s) \<Longrightarrow> script_ok ok s \<Longrightarrow> m s = (res, s') \<Longrightarrow>
     script_ok ok s' \<and> meets Q R X res (pl_repo s')) \<Longrightarrow> triple ok J m Q R X"
  unfolding triple_def by (metis prod.collapse)

lemma triple_done: "(\<And>repo. J repo \<Longrightarrow> Q x repo) \<Longrightarrow> triple ok J (pl_done x) Q R X"
  by (simp add: triple_def pl_done_def)

lemma triple_return: "(\<And>repo. J repo \<Longrightarrow> R repo) \<Longrightarrow> triple ok J pl_return Q R X"
  by (simp add: triple_def pl_return_def)

lemma triple_raise: "(\<And>repo. J repo \<Longrightarrow> X repo) \<Longrightarrow> triple ok J (pl_raise e) Q R X"
  by (simp add: triple_def pl_raise_def)

lemma triple_absurd: "(\<And>repo. \<not> J repo) \<Longrightarrow> triple ok J m Q R X"
  by (simp add: triple_def)

lemma triple_bind:
  assumes m: "triple ok J m Q R X" and f: "\<And>x. triple ok (Q x) (f x) Q' R X"
  shows "triple ok J (pl_bind m f) Q' R X"
proof (rule tripleI)
  fix s res s'
  assume s: "J (pl_repo s)" "script_ok ok s" and b: "pl_bind m f s = (res, s')"
  obtain r1 s1 where m1: "m s = (r1, s1)" by force
  note 1 = tripleD[OF m s m1]
  show "script_ok ok s' \<and> meets Q' R X res (pl_repo s')"
  proof (cases r1)
    case (Done x)
    with b m1 have fx: "f x s1 = (res, s')" by (simp add: pl_bind_def)
    from 1 Done have q: "Q x (pl_repo s1)" "script_ok ok s1" by simp_all
    show ?thesis by (rule tripleD[OF f q fx])
  qed (use b m1 1 in \<open>auto simp: pl_bind_def\<close>)
qed

lemma triple_seq: "triple ok J m (\<lambda>_. K) R X \<Longrightarrow> triple ok K n Q R X \<Longrightarrow> triple ok J (pl_seq m n) Q R X"
  unfolding pl_seq_def by (rule triple_bind)

lemma triple_weaken:
  assumes "triple ok J m Q R X" and "\<And>repo. J' repo \<Longrightarrow> J repo" and "\<And>x repo. Q x repo \<Longrightarrow> Q' x repo"
    and "\<And>repo. R repo \<Longrightarrow> R' repo" and "\<And>repo. X repo \<Longrightarrow> X' repo"
  shows "triple ok J' m Q' R' X'"
proof (rule tripleI)
  fix s res s'
  assume "J' (pl_repo s)" "script_ok ok s" "m s = (res, s')"
  then show "script_ok ok s' \<and> meets Q' R' X' res (pl_repo s')"
    using tripleD[OF assms(1), of s res s'] assms(2-5) by (cases res) auto
qed

text \<open>What the other threads may do must keep the assertions that hold between two calls.\<close>

locale stable_under =
  fixes ok :: "repo_op \<Rightarrow> bool" and J :: "run_repo \<Rightarrow> bool"
  assumes step: "ok x \<Longrightarrow> J repo \<Longrightarrow> J (repo_step repo x)"
begin

lemma steps: "list_all ok xs \<Longrightarrow> J repo \<Longrightarrow> J (repo_steps repo xs)"
  by (induction xs arbitrary: repo) (simp_all add: repo_steps_def step)

lemma tick: "J (pl_repo s) \<Longrightarrow> script_ok ok s \<Longrightarrow> J (pl_repo (pl_tick s)) \<and> script_ok ok (pl_tick s)"
  by (cases "pl_script s") (simp_all add: pl_tick_def script_ok_def steps)

lemma call:
  assumes "\<And>now repo. J repo \<Longrightarrow>
    (case f now repo of (Inl e, repo') \<Rightarrow> X repo' | (Inr x, repo') \<Rightarrow> Q x repo')"
  shows "triple ok J (pl_call f) Q R X"
proof (rule tripleI)
  fix s res s'
  assume "J (pl_repo s)" "script_ok ok s" and c: "pl_call f s = (res, s')"
  then have t: "J (pl_repo (pl_tick s)) \<and> script_ok ok (pl_tick s)" using tick by blast
  obtain a repo' where f: "f (fst (pl_clock (pl_tick s))) (pl_repo (pl_tick s)) = (a, repo')" by force
  have "case (a, repo') of (Inl e, repo') \<Rightarrow> X repo' | (Inr x, repo') \<Rightarrow> Q x repo'"
    unfolding f[symmetric] by (rule assms) (rule conjunct1[OF t])
  with t c f show "script_ok ok s' \<and> meets Q R X res (pl_repo s')"
    by (cases a) (auto simp: pl_call_def Let_def script_ok_def)
qed

lemma budget: "triple ok J (budget_remaining d) (\<lambda>_. J) R X"
  using tick by (simp add: triple_def budget_remaining_def Let_def)

end


lemma triple_J: "triple ok J m Q R X \<Longrightarrow> (\<And>repo. J' repo \<Longrightarrow> J repo) \<Longrightarrow> triple ok J' m Q R X"
  by (rule triple_weaken)

section \<open>Never stuck\<close>

text \<open>
  What the other threads may do to run \<open>rid\<close> while its worker runs: cancel it (or write another terminal
  status), annotate it, read and purge. They do not create it again and do not restart it.
\<close>

fun other_op_ok :: "uuid \<Rightarrow> repo_op \<Rightarrow> bool" where
  "other_op_ok rid (OpCreate now i acct q slots est ctx mode key) = (i \<noteq> rid)"
| "other_op_ok rid (OpTransition now i s f m) = (i = rid \<longrightarrow> s \<in> TERMINAL_STATUSES)"
| "other_op_ok rid (OpUpdate now i u) =
     (i = rid \<longrightarrow> (case su_status u of None \<Rightarrow> True | Some s \<Rightarrow> s \<in> TERMINAL_STATUSES))"
| "other_op_ok rid _ = True"

definition reachable_status :: "uuid \<Rightarrow> run_repo \<Rightarrow> bool" where
  "reachable_status rid repo = (dict_ok repo \<and> status_of repo rid \<notin> {Some DRAFT, Some COST_REVIEW})"

definition settled :: "uuid \<Rightarrow> run_repo \<Rightarrow> bool" where
  "settled rid repo =
     (dict_ok repo \<and> (case status_of repo rid of None \<Rightarrow> True | Some s \<Rightarrow> s \<in> TERMINAL_STATUSES))"

lemma settled_reachable: "settled rid repo \<Longrightarrow> reachable_status rid repo"
  by (auto simp: settled_def reachable_status_def TERMINAL_STATUSES_def)

lemma reachable_dict: "reachable_status rid repo \<Longrightarrow> dict_ok repo"
  by (simp add: reachable_status_def)

lemma dict_ok_purge [simp]: "dict_ok repo \<Longrightarrow> dict_ok (purge_expired now repo)"
  by (simp add: purge_expired_def dict_ok_filter)

lemma dict_ok_create [simp]:
  "dict_ok repo \<Longrightarrow> dict_ok (snd (create now i acct q slots est ctx mode key adm repo))"
  by (simp add: create_shape dict_ok_update)

lemma status_of_purge:
  "dict_ok repo \<Longrightarrow> status_of (purge_expired now repo) k = status_of repo k \<or> status_of (purge_expired now repo) k = None"
  by (auto simp: status_of_def purge_expired_def map_of_filter split: option.splits)

lemma status_of_adjust:
  "status_of (dict_adjust rid f repo) k =
     (if k = rid then map_option (\<lambda>r. qr_status (f r)) (map_of repo k) else status_of repo k)"
  by (simp add: status_of_def option.map_comp o_def)

text \<open>How one operation of another thread can change a run's status.\<close>

lemma other_op_status:
  assumes "dict_ok repo" and "other_op_ok rid x"
  shows "dict_ok (repo_step repo x) \<and>
    (status_of (repo_step repo x) rid = None \<or> status_of (repo_step repo x) rid = status_of repo rid
     \<or> (\<exists>s \<in> TERMINAL_STATUSES. status_of (repo_step repo x) rid = Some s))"
proof (cases x)
  case (OpCreate now i acct q slots est ctx mode key)
  have "dict_ok (purge_expired now repo)" using assms by simp
  then show ?thesis using OpCreate assms status_of_purge[of repo now rid]
      status_of_purge[of "purge_expired now repo" now rid]
    by (auto simp: create_shape status_of_def dict_ok_update)
next
  case (OpTransition now i s f m)
  with assms show ?thesis
    by (auto simp: transition_def status_of_adjust status_of_def split: option.split)
next
  case (OpUpdate now i u)
  with assms show ?thesis
    by (auto simp: update_status_def status_of_adjust update_run_status status_of_def split: option.splits)
next
  case (OpRead now)
  with assms show ?thesis using status_of_purge[of repo now rid] by auto
qed (use assms in \<open>auto simp: record_initial_answer_def mark_billable_stage_entered_def
    mark_spend_metering_unavailable_def mark_global_ceiling_reached_def record_debate_outputs_def
    record_final_synthesis_def mutate_run_def record_answer_run_def status_of_adjust Let_def
    status_of_def dict_ok_Nil split: option.splits\<close>)

interpretation reachable: stable_under "other_op_ok rid" "reachable_status rid" for rid
proof unfold_locales
  fix x repo
  assume "other_op_ok rid x" "reachable_status rid repo"
  with other_op_status[of repo rid x] show "reachable_status rid (repo_step repo x)"
    by (auto simp: reachable_status_def TERMINAL_STATUSES_def)
qed

interpretation settled: stable_under "other_op_ok rid" "settled rid" for rid
proof unfold_locales
  fix x repo
  assume "other_op_ok rid x" "settled rid repo"
  with other_op_status[of repo rid x] show "settled rid (repo_step repo x)"
    by (auto simp: settled_def)
qed


text \<open>The repository calls the worker makes.\<close>

lemma get_run_cases:
  "get_run now rid repo =
     (case map_of (purge_expired now repo) rid of
        None \<Rightarrow> (Inl (RunKeyError rid), purge_expired now repo)
      | Some r \<Rightarrow> (Inr r, purge_expired now repo))"
  by (simp add: get_run_def Let_def split: option.split)

lemma reachable_purge: "reachable_status rid repo \<Longrightarrow> reachable_status rid (purge_expired now repo)"
  using status_of_purge[of repo now rid] by (auto simp: reachable_status_def)

lemma settled_purge: "settled rid repo \<Longrightarrow> settled rid (purge_expired now repo)"
  using status_of_purge[of repo now rid] by (auto simp: settled_def)

lemma get_reachable:
  "triple (other_op_ok rid) (reachable_status rid) (pl_call (\<lambda>now. get_run now rid)) (\<lambda>_. reachable_status rid) R
     (reachable_status rid)"
  by (rule reachable.call) (simp add: get_run_cases reachable_purge split: option.split)

lemma write_reachable:
  assumes "\<And>now r. qr_status (f now r) = qr_status r"
  shows "triple (other_op_ok rid) (reachable_status rid) (pl_call (\<lambda>now. mutate_run rid (f now)))
    (\<lambda>_. reachable_status rid) R (reachable_status rid)"
  by (rule reachable.call)
    (auto simp: mutate_run_def reachable_status_def status_of_adjust status_of_def assms split: option.split)

lemmas worker_writes =
  record_initial_answer_def mark_billable_stage_entered_def record_debate_outputs_def
  record_final_synthesis_def

lemma update_reachable:
  assumes "case su_status u of None \<Rightarrow> True | Some s \<Rightarrow> s \<notin> {DRAFT, COST_REVIEW}"
  shows "triple (other_op_ok rid) (reachable_status rid) (update_call rid u) (\<lambda>_. reachable_status rid) R
    (reachable_status rid)"
  unfolding update_call_def
  by (rule reachable.call)
    (use assms in \<open>auto simp: update_status_def reachable_status_def status_of_adjust status_of_def
       update_run_status split: option.splits\<close>)

lemma update_settles:
  assumes "su_status u = Some s" and "s \<in> TERMINAL_STATUSES"
  shows "triple (other_op_ok rid) (reachable_status rid) (update_call rid u) (\<lambda>_. settled rid) R
    (reachable_status rid)"
  unfolding update_call_def
  by (rule reachable.call)
    (use assms in \<open>auto simp: update_status_def reachable_status_def settled_def status_of_adjust
       status_of_def update_run_status is_terminal_def split: option.splits\<close>)

lemma annotate_settled:
  assumes "su_status u = None"
  shows "triple (other_op_ok rid) (settled rid) (update_call rid u) (\<lambda>_. settled rid) R (reachable_status rid)"
  unfolding update_call_def
  by (rule settled.call)
    (use assms in \<open>auto simp: update_status_def settled_reachable settled_def status_of_adjust
       status_of_def update_run_status split: option.splits\<close>)

text \<open>The stop check, for any assertion that survives a purge: it says stop only when the run is gone or
  cancelled, and it never raises.\<close>

definition gone_or_cancelled :: "uuid \<Rightarrow> run_repo \<Rightarrow> bool" where
  "gone_or_cancelled rid repo = (status_of repo rid = None \<or> status_of repo rid = Some CANCELLED)"

context stable_under
begin

lemma should_stop:
  assumes purge: "\<And>now repo. J repo \<Longrightarrow> J (purge_expired now repo)"
  shows "triple ok J (should_stop rid)
    (\<lambda>stop repo. J repo \<and> stop = gone_or_cancelled rid repo) R X"
proof (rule tripleI)
  fix s res s'
  assume s: "J (pl_repo s)" "script_ok ok s" and st: "should_stop rid s = (res, s')"
  obtain r1 s1 where m1: "pl_call (\<lambda>now. get_run now rid) s = (r1, s1)" by force
  have "triple ok J (pl_call (\<lambda>now. get_run now rid))
      (\<lambda>r repo. J repo \<and> (qr_status r = CANCELLED) = gone_or_cancelled rid repo) (\<lambda>_. False)
      (\<lambda>repo. J repo \<and> gone_or_cancelled rid repo)"
    by (rule call) (simp add: get_run_cases purge gone_or_cancelled_def status_of_def split: option.split)
  note 1 = tripleD[OF this s m1]
  have "\<exists>x. r1 = Done x \<or> (\<exists>k. r1 = Raise (RepoError (RunKeyError k)))"
    using m1 by (auto simp: pl_call_def get_run_cases Let_def split: option.splits)
  with 1 st m1 show "script_ok ok s' \<and>
      meets (\<lambda>stop repo. J repo \<and> stop = gone_or_cancelled rid repo) R X res (pl_repo s')"
    by (auto simp: should_stop_def)
qed

lemma stop_or:
  assumes purge: "\<And>now repo. J repo \<Longrightarrow> J (purge_expired now repo)"
    and R: "\<And>repo. J repo \<Longrightarrow> gone_or_cancelled rid repo \<Longrightarrow> R repo"
    and m: "triple ok (\<lambda>repo. J repo \<and> \<not> gone_or_cancelled rid repo) m Q R X"
  shows "triple ok J (stop_or rid m) Q R X"
  unfolding stop_or_def
proof (rule triple_bind[OF should_stop[OF purge]])
  fix stop
  show "triple ok (\<lambda>repo. J repo \<and> stop = gone_or_cancelled rid repo) (if stop then pl_return else m) Q R X"
    by (cases stop) (auto intro: triple_return R triple_J[OF m])
qed

end

lemma reachable_gone_settled: "reachable_status rid repo \<Longrightarrow> gone_or_cancelled rid repo \<Longrightarrow> settled rid repo"
  by (auto simp: reachable_status_def settled_def gone_or_cancelled_def TERMINAL_STATUSES_def)

lemma stop_or_settles:
  assumes "triple (other_op_ok rid) (reachable_status rid) m Q (settled rid) (reachable_status rid)"
  shows "triple (other_op_ok rid) (reachable_status rid) (stop_or rid m) Q (settled rid) (reachable_status rid)"
  by (rule reachable.stop_or[OF reachable_purge reachable_gone_settled])
    (auto intro: triple_J[OF assms])

text \<open>The steps of the pipeline, each ending settled when it returns.\<close>

lemma mark_stages_settled:
  "triple (other_op_ok rid) (settled rid) (mark_stages rid d stages) (\<lambda>_. settled rid) R (reachable_status rid)"
proof (induction stages)
  case Nil
  show ?case by (auto intro: triple_done)
next
  case (Cons g stages)
  show ?case unfolding mark_stages.simps
    by (rule triple_seq[OF annotate_settled Cons.IH]) (simp add: stage_update_def no_update_def)
qed

lemma mark_settled:
  "triple (other_op_ok rid) (settled rid) (mark_remaining_stages rid stages) (\<lambda>_. settled rid) R (reachable_status rid)"
  "triple (other_op_ok rid) (settled rid) (mark_after_terminal rid quick) (\<lambda>_. settled rid) R (reachable_status rid)"
  unfolding mark_remaining_stages_def mark_after_terminal_def
  by (rule mark_stages_settled) (cases quick; simp only: if_True if_False not_True_eq_False
      not_False_eq_True mark_stages_settled)

lemma timed_out_refused:
  "TIMED_OUT \<notin> ALLOWED_TRANSITIONS st \<Longrightarrow> st \<noteq> DRAFT \<Longrightarrow> st \<noteq> COST_REVIEW \<Longrightarrow> st \<in> TERMINAL_STATUSES"
  by (cases st) (simp_all add: TERMINAL_STATUSES_def)

lemma TIMED_OUT_terminal: "TIMED_OUT \<in> TERMINAL_STATUSES"
  by (simp add: TERMINAL_STATUSES_def)

lemma degrade_settles:
  "triple (other_op_ok rid) (reachable_status rid) (degrade_run_for_deadline rid txt stage failed missing)
     (\<lambda>_. settled rid) R (reachable_status rid)"
proof (rule tripleI)
  fix s res s'
  assume s: "reachable_status rid (pl_repo s)" "script_ok (other_op_ok rid) s"
    and d: "degrade_run_for_deadline rid txt stage failed missing s = (res, s')"
  let ?t = "pl_call (\<lambda>now. transition now rid TIMED_OUT (Some failed) (Some missing))"
  obtain r1 s1 where m1: "?t s = (r1, s1)" by force
  have "triple (other_op_ok rid) (reachable_status rid) ?t
      (\<lambda>_. settled rid) (\<lambda>_. False) (settled rid)"
    by (rule reachable.call)
      (auto simp: transition_def settled_def reachable_status_def status_of_adjust status_of_def
        timed_out_refused TIMED_OUT_terminal split: option.split)
  note 1 = tripleD[OF this s m1]
  have tail: "triple (other_op_ok rid) (settled rid)
      (pl_seq (update_call rid ((stage_update None stage STAGE_FAILED
              (''Run exceeded the '' @ txt @ ''s wall-clock deadline (NFR-004); serving the completed portion.''))
              \<lparr>su_allow_terminal := True\<rparr>)) (pl_done True)) (\<lambda>_. settled rid) R (reachable_status rid)"
    by (rule triple_seq[OF annotate_settled triple_done]) (simp_all add: stage_update_def no_update_def)
  show "script_ok (other_op_ok rid) s' \<and> meets (\<lambda>_. settled rid) R (reachable_status rid) res (pl_repo s')"
  proof (cases r1)
    case (Done x)
    with d m1 1 show ?thesis using tripleD[OF tail, of s1 res s']
      by (simp add: degrade_run_for_deadline_def)
  next
    case Return
    with 1 show ?thesis by simp
  next
    case (Raise e)
    with d m1 1 show ?thesis
      by (auto simp: degrade_run_for_deadline_def settled_reachable split: pl_error.splits repo_error.splits)
  qed
qed


lemma collect_settles:
  "triple (other_op_ok rid) (reachable_status rid) (collect_answers sv rid b slots) (\<lambda>_. reachable_status rid)
     (settled rid) (reachable_status rid)"
proof (induction slots arbitrary: b)
  case Nil
  show ?case by (simp add: triple_done)
next
  case (Cons slot slots)
  have rec: "triple (other_op_ok rid) (reachable_status rid)
      (stop_or rid (pl_seq (pl_call (\<lambda>now. record_initial_answer now rid a)) (collect_answers sv rid b' slots)))
      (\<lambda>_. reachable_status rid) (settled rid) (reachable_status rid)" for a b'
    unfolding worker_writes
    by (rule stop_or_settles, rule triple_seq[OF write_reachable Cons.IH]) (simp add: record_answer_run_def)
  show ?case
  proof (cases "sv_answer sv slot")
    case FutureTimeout
    have "triple (other_op_ok rid) (reachable_status rid) (if budget > 0 then collect_answers sv rid b slots
        else stop_or rid (pl_seq (pl_call (\<lambda>now. record_initial_answer now rid (sv_deadline_answer sv slot)))
                (collect_answers sv rid True slots)))
        (\<lambda>_. reachable_status rid) (settled rid) (reachable_status rid)" for budget :: rat
      using Cons.IH rec by simp
    then show ?thesis unfolding collect_answers.simps FutureTimeout future_outcome.case
      by (rule triple_bind[OF reachable.budget])
  qed (simp_all add: Cons.IH rec)
qed

text \<open>A failure written by the worker, and the stages it then stamps.\<close>

lemma su_status_simps [simp]:
  "su_status (stage_update st g x d) = st"
  "su_status (halt_update t g d f m) = Some t"
  "su_status (u\<lparr>su_mark_started := b\<rparr>) = su_status u"
  by (simp_all add: stage_update_def halt_update_def)

lemma halt_settles:
  assumes "t \<in> TERMINAL_STATUSES" and "\<And>R. triple (other_op_ok rid) (settled rid) m (\<lambda>_. settled rid) R (reachable_status rid)"
  shows "triple (other_op_ok rid) (reachable_status rid)
    (pl_bind (update_call rid (halt_update t g d f ms)) (\<lambda>halted.
       pl_seq (if qr_status halted = t then m else pl_done ()) pl_return)) Q (settled rid) (reachable_status rid)"
proof (rule triple_bind[OF update_settles])
  fix x
  have "triple (other_op_ok rid) (settled rid) (if qr_status x = t then m else pl_done ()) (\<lambda>_. settled rid) (settled rid)
      (reachable_status rid)"
    using assms(2) by (simp add: triple_done)
  then show "triple (other_op_ok rid) (settled rid) (pl_seq (if qr_status x = t then m else pl_done ()) pl_return) Q
      (settled rid) (reachable_status rid)"
    by (rule triple_seq) (simp add: triple_return)
qed (use assms in simp_all)

lemma degrade_then_settles:
  assumes "\<And>R. triple (other_op_ok rid) (settled rid) m (\<lambda>_. settled rid) R (reachable_status rid)"
  shows "triple (other_op_ok rid) (reachable_status rid)
    (pl_bind (degrade_run_for_deadline rid txt g f ms) (\<lambda>landed.
       pl_seq (if landed then m else pl_done ()) pl_return)) Q (settled rid) (reachable_status rid)"
proof (rule triple_bind[OF degrade_settles])
  fix landed
  have "triple (other_op_ok rid) (settled rid) (if landed then m else pl_done ()) (\<lambda>_. settled rid) (settled rid)
      (reachable_status rid)"
    using assms by (simp add: triple_done)
  then show "triple (other_op_ok rid) (settled rid) (pl_seq (if landed then m else pl_done ()) pl_return) Q
      (settled rid) (reachable_status rid)"
    by (rule triple_seq) (simp add: triple_return)
qed


text \<open>The worker's steps under \<open>reachable_status\<close>, in the shape the stages compose them.\<close>

abbreviation ends_settled :: "uuid \<Rightarrow> 'a pl \<Rightarrow> bool" where
  "ends_settled rid m \<equiv> triple (other_op_ok rid) (reachable_status rid) m (\<lambda>_. settled rid) (settled rid) (reachable_status rid)"

lemma moves_on:
  assumes "case su_status u of None \<Rightarrow> True | Some s \<Rightarrow> s \<notin> {DRAFT, COST_REVIEW}" and "ends_settled rid m"
  shows "ends_settled rid (pl_seq (update_call rid u) m)"
  by (rule triple_seq[OF update_reachable assms(2)]) (rule assms(1))

lemma writes_on:
  assumes "\<And>now r. qr_status (f now r) = qr_status r" and "ends_settled rid m"
  shows "ends_settled rid (pl_seq (pl_call (\<lambda>now. mutate_run rid (f now))) m)"
  by (rule triple_seq[OF write_reachable assms(2)]) (rule assms(1))

lemma finishes:
  assumes "su_status u = Some t" and "t \<in> TERMINAL_STATUSES"
    and "triple (other_op_ok rid) (settled rid) m (\<lambda>_. settled rid) (settled rid) (reachable_status rid)"
  shows "ends_settled rid (pl_seq (update_call rid u) m)"
  by (rule triple_seq[OF update_settles assms(3)]) (fact assms)+

lemma budgeted:
  assumes "ends_settled rid a" and "ends_settled rid b"
  shows "ends_settled rid (pl_bind (budget_remaining d) (\<lambda>budget. if budget \<le> 0 then a else b))"
proof (rule triple_bind[OF reachable.budget])
  fix budget
  show "ends_settled rid (if budget \<le> 0 then a else b)" using assms by simp
qed

lemma gets_on:
  assumes "\<And>r. ends_settled rid (m r)"
  shows "ends_settled rid (pl_bind (pl_call (\<lambda>now. get_run now rid)) m)"
  by (rule triple_bind[OF get_reachable assms])

lemma checks_stop:
  assumes "ends_settled rid m"
  shows "ends_settled rid (pl_bind (should_stop rid) (\<lambda>stop. if stop \<and> c then pl_return else m))"
proof (rule triple_bind[OF reachable.should_stop[OF reachable_purge]])
  fix stop
  show "triple (other_op_ok rid) (\<lambda>repo. reachable_status rid repo \<and> stop = gone_or_cancelled rid repo)
     (if stop \<and> c then pl_return else m) (\<lambda>_. settled rid) (settled rid) (reachable_status rid)"
    by (cases "stop \<and> c") (auto intro: triple_return triple_J[OF assms] reachable_gone_settled)
qed

lemma raises: "ends_settled rid (pl_raise e)"
  by (simp add: triple_raise)

lemma unless_then:
  assumes "\<And>R. triple (other_op_ok rid) (reachable_status rid) a (\<lambda>_. reachable_status rid) R (reachable_status rid)"
    and "ends_settled rid m"
  shows "ends_settled rid (pl_seq (if c then a else pl_done ()) m)"
  using assms by (auto intro!: triple_seq[OF _ assms(2)] triple_done)

lemma synthesis_settles: "ends_settled rid (synthesis_stage sv rid)"
proof -
  let ?done = "pl_done () :: unit pl"
  have fin: "triple (other_op_ok rid) (settled rid) ?done (\<lambda>_. settled rid) (settled rid) (reachable_status rid)"
    "triple (other_op_ok rid) (settled rid) (pl_return :: unit pl) (\<lambda>_. settled rid) (settled rid) (reachable_status rid)"
    by (simp_all add: triple_done triple_return)
  have deg: "ends_settled rid (pl_seq (degrade_run_for_deadline rid dt g f ms) (pl_return :: unit pl))" for dt g f ms
    by (rule triple_seq[OF degrade_settles fin(2)])
  show ?thesis
    unfolding synthesis_stage_def worker_writes
    by (intro moves_on stop_or_settles budgeted deg gets_on writes_on)
      (auto simp: Let_def TERMINAL_STATUSES_def split: sum.split option.split
        intro!: raises checks_stop finishes writes_on fin)
qed

lemma announce_reachable:
  "triple (other_op_ok rid) (reachable_status rid) (announce_round_two rid) (\<lambda>_. reachable_status rid) R (reachable_status rid)"
  unfolding announce_round_two_def
  by (rule triple_seq[OF update_reachable triple_seq[OF update_reachable triple_done]]) simp_all


lemma after_debate_settles: "ends_settled rid (after_debate sv rid dr)"
proof -
  have part: "PARTIAL \<in> TERMINAL_STATUSES" by (simp add: TERMINAL_STATUSES_def)
  have running: "\<And>R. triple (other_op_ok rid) (reachable_status rid)
      (pl_seq (update_call rid (stage_update None g st d)) (pl_done ())) (\<lambda>_. reachable_status rid) R (reachable_status rid)"
    for g st d
    by (rule triple_seq[OF update_reachable triple_done]) simp_all
  have synth: "ends_settled rid (pl_seq (if \<not> sv_announces sv
      then pl_seq (update_call rid (stage_update None ''debate_round_2'' STAGE_RUNNING ''Running debate round 2.'')) (pl_done ())
      else pl_done ()) (stop_or rid (synthesis_stage sv rid)))"
    by (rule unless_then[OF running stop_or_settles[OF synthesis_settles]])
  have body: "ends_settled rid (if dr_debate_outputs dr = [] then a else b)"
    if "ends_settled rid a" "ends_settled rid b" for a b :: "unit pl" using that by simp
  have timed: "ends_settled rid (if dr_timed_out dr then a else b)"
    if "ends_settled rid a" "ends_settled rid b" for a b :: "unit pl" using that by simp
  show ?thesis
    unfolding after_debate_def worker_writes
    by (intro checks_stop writes_on body moves_on timed halt_settles part mark_settled synth)
      (simp_all add: Let_def split: option.split)
qed

lemma debate_settles: "ends_settled rid (debate_stage sv rid answers)"
proof -
  have service: "ends_settled rid (case sv_debate sv answers of Inl e \<Rightarrow> pl_raise (StageError e)
      | Inr dr \<Rightarrow> after_debate sv rid dr)"
    by (simp add: raises after_debate_settles split: sum.split)
  have announced: "ends_settled rid (pl_seq (if sv_announces sv then announce_round_two rid else pl_done ()) m)"
    if "ends_settled rid m" for m :: "unit pl"
    by (rule unless_then[OF announce_reachable that])
  show ?thesis
    unfolding debate_stage_def worker_writes
    by (intro moves_on stop_or_settles budgeted degrade_then_settles mark_settled writes_on announced service)
      simp_all
qed

lemma quick_tail_settles: "ends_settled rid (quick_tail rid)"
  unfolding quick_tail_def
  by (rule moves_on[OF _ moves_on[OF _ moves_on[OF _ finishes[where t = COMPLETED, OF _ _ triple_return]]]])
    (simp_all add: TERMINAL_STATUSES_def)

lemma initial_settles: "ends_settled rid (initial_stage sv rid q d)"
proof -
  have part: "PARTIAL \<in> TERMINAL_STATUSES" by (simp add: TERMINAL_STATUSES_def)
  have body: "ends_settled rid (if c then a else b)"
    if "ends_settled rid a" "ends_settled rid b" for c and a b :: "unit pl" using that by simp
  show ?thesis
    unfolding initial_stage_def Let_def
    by (intro moves_on triple_bind[OF collect_settles] body degrade_then_settles mark_settled gets_on
        halt_settles part quick_tail_settles debate_settles) simp
qed

lemma execute_settles: "ends_settled rid (execute_query_run sv rid)"
proof -
  have fail: "FAILED \<in> TERMINAL_STATUSES" by (simp add: TERMINAL_STATUSES_def)
  have body: "ends_settled rid (if c then a else b)"
    if "ends_settled rid a" "ends_settled rid b" for c and a b :: "unit pl" using that by simp
  have panel: "ends_settled rid (case panel_size_word n of None \<Rightarrow> pl_raise e
      | Some w \<Rightarrow> initial_stage sv rid q (f w))" for n e q f
    by (simp add: raises initial_settles split: option.split)
  show ?thesis
    unfolding execute_query_run_def
    by (intro gets_on body halt_settles fail mark_settled initial_settles panel)
qed

lemma worker_never_stuck:
  assumes "reachable_status rid (pl_repo s)" and "script_ok (other_op_ok rid) s"
  shows "settled rid (pl_repo (execute_query_run_safely sv rid s))"
proof -
  obtain r1 s1 where m1: "execute_query_run sv rid s = (r1, s1)" by force
  note 1 = tripleD[OF execute_settles assms m1]
  show ?thesis
  proof (cases r1)
    case (Raise e)
    let ?m = "pl_bind (pl_call (\<lambda>now. get_run now rid)) (\<lambda>r.
               pl_bind (pl_call (\<lambda>now. get_run now rid)) (\<lambda>r2.
               update_call rid (halt_update FAILED (running_stage_name (qr_progress r))
                   (''Unhandled pipeline error: '' @ error_name e @ ''.'') [''pipeline'']
                 (map sg_stage (filter (\<lambda>g. sg_state g = STAGE_PENDING) (qr_progress r2))))))"
    have get: "triple (other_op_ok rid) (reachable_status rid) (pl_call (\<lambda>now. get_run now rid))
        (\<lambda>_. reachable_status rid) (settled rid) (settled rid)"
      by (rule reachable.call)
        (auto simp: get_run_cases reachable_purge settled_def status_of_def reachable_dict split: option.split)
    have upd: "triple (other_op_ok rid) (reachable_status rid) (update_call rid (halt_update FAILED g d f ms))
        (\<lambda>_. settled rid) (settled rid) (settled rid)" for g d f ms
      unfolding update_call_def
      by (rule reachable.call)
        (auto simp: update_status_def reachable_status_def settled_def status_of_adjust
           status_of_def update_run_status is_terminal_def TERMINAL_STATUSES_def split: option.splits)
    have h: "triple (other_op_ok rid) (reachable_status rid) ?m (\<lambda>_. settled rid) (settled rid) (settled rid)"
      by (intro triple_bind[OF get] upd)
    obtain r2 s2 where m2: "?m s1 = (r2, s2)" by force
    from 1 Raise have "reachable_status rid (pl_repo s1)" "script_ok (other_op_ok rid) s1" by simp_all
    from tripleD[OF h this m2] have "settled rid (pl_repo s2)" by (cases r2) auto
    then show ?thesis using m1 m2 Raise by (simp add: execute_query_run_safely_def)
  qed (use 1 m1 in \<open>simp_all add: execute_query_run_safely_def\<close>)
qed

section \<open>A cancelled run\<close>

text \<open>
  Once a run is cancelled its worker writes nothing more on it, down to the timestamp. \<open>leaves rid x\<close>: another
  thread's operation \<open>x\<close> is not a write on \<open>rid\<close>.
\<close>

fun leaves :: "uuid \<Rightarrow> repo_op \<Rightarrow> bool" where
  "leaves rid (OpCreate now i acct q slots est ctx mode key) = (i \<noteq> rid)"
| "leaves rid (OpTransition now i s f m) = (i \<noteq> rid)"
| "leaves rid (OpUpdate now i u) = (i \<noteq> rid)"
| "leaves rid (OpAnswer now i a) = (i \<noteq> rid)"
| "leaves rid (OpEnterStage now i g) = (i \<noteq> rid)"
| "leaves rid (OpMeteringUnavailable now i) = (i \<noteq> rid)"
| "leaves rid (OpCeilingReached now i) = (i \<noteq> rid)"
| "leaves rid (OpDebate now i os us) = (i \<noteq> rid)"
| "leaves rid (OpSynthesis now i f us) = (i \<noteq> rid)"
| "leaves rid _ = True"

definition kept :: "uuid \<Rightarrow> query_run \<Rightarrow> run_repo \<Rightarrow> bool" where
  "kept rid r repo = (dict_ok repo \<and> (map_of repo rid = None \<or> map_of repo rid = Some r))"

lemma map_of_purge:
  "dict_ok repo \<Longrightarrow> map_of (purge_expired now repo) k =
     (case map_of repo k of None \<Rightarrow> None | Some r \<Rightarrow> if run_expired now r then None else Some r)"
  by (auto simp: purge_expired_def map_of_filter split: option.split)

lemma kept_purge: "kept rid r repo \<Longrightarrow> kept rid r (purge_expired now repo)"
  by (auto simp: kept_def map_of_purge split: option.splits)

lemma kept_step: "leaves rid x \<Longrightarrow> kept rid r repo \<Longrightarrow> kept rid r (repo_step repo x)"
proof (cases x)
  case (OpCreate now i acct q slots est ctx mode key)
  assume "leaves rid x" "kept rid r repo"
  moreover from this have "kept rid r (purge_expired now (purge_expired now repo))" by (simp add: kept_purge)
  ultimately show ?thesis using OpCreate by (auto simp: create_shape kept_def dict_ok_update)
next
  case (OpRead now)
  assume "kept rid r repo"
  then show ?thesis using OpRead by (simp add: kept_purge)
qed (auto simp: kept_def transition_def update_status_def record_initial_answer_def mark_billable_stage_entered_def
    mark_spend_metering_unavailable_def mark_global_ceiling_reached_def record_debate_outputs_def
    record_final_synthesis_def mutate_run_def dict_ok_Nil split: option.splits)

interpretation kept: stable_under "leaves rid" "kept rid r" for rid r
  by unfold_locales (rule kept_step)

abbreviation idle :: "uuid \<Rightarrow> query_run \<Rightarrow> 'a pl \<Rightarrow> bool" where
  "idle rid r m \<equiv> triple (leaves rid) (kept rid r) m (\<lambda>_. kept rid r) (kept rid r) (kept rid r)"

lemma update_idle:
  assumes "qr_status r = CANCELLED" and "\<not> su_allow_terminal u"
  shows "triple (leaves rid) (kept rid r) (update_call rid u) (\<lambda>h repo. kept rid r repo \<and> qr_status h = CANCELLED)
    (kept rid r) (kept rid r)"
  unfolding update_call_def
  by (rule kept.call)
    (use assms in \<open>auto simp: update_status_def kept_def update_run_def TERMINAL_STATUSES_def split: option.split\<close>)

lemma update_then_idle:
  assumes "qr_status r = CANCELLED" and "\<not> su_allow_terminal u" and "idle rid r m"
  shows "idle rid r (pl_seq (update_call rid u) m)"
  unfolding pl_seq_def
  by (rule triple_bind[OF update_idle]) (use assms in \<open>auto intro: triple_J\<close>)

lemma stop_idle:
  assumes "qr_status r = CANCELLED"
  shows "idle rid r (stop_or rid m)"
proof (rule kept.stop_or[OF kept_purge])
  have "\<not> (kept rid r repo \<and> \<not> gone_or_cancelled rid repo)" for repo
    using assms by (auto simp: kept_def gone_or_cancelled_def status_of_def)
  then show "triple (leaves rid) (\<lambda>repo. kept rid r repo \<and> \<not> gone_or_cancelled rid repo) m (\<lambda>_. kept rid r)
      (kept rid r) (kept rid r)"
    by (rule triple_absurd)
qed simp

lemma degrade_idle:
  assumes "qr_status r = CANCELLED"
  shows "triple (leaves rid) (kept rid r) (degrade_run_for_deadline rid dt g f ms)
    (\<lambda>landed repo. kept rid r repo \<and> \<not> landed) (kept rid r) (kept rid r)"
proof (rule tripleI)
  fix s res s'
  assume s: "kept rid r (pl_repo s)" "script_ok (leaves rid) s"
    and d: "degrade_run_for_deadline rid dt g f ms s = (res, s')"
  let ?t = "pl_call (\<lambda>now. transition now rid TIMED_OUT (Some f) (Some ms))"
  obtain r1 s1 where m1: "?t s = (r1, s1)" by force
  have "triple (leaves rid) (kept rid r) ?t (\<lambda>_ _. False) (\<lambda>_. False) (kept rid r)"
    by (rule kept.call) (use assms in \<open>auto simp: transition_def kept_def split: option.split\<close>)
  note 1 = tripleD[OF this s m1]
  then obtain e where "r1 = Raise e" by (cases r1) auto
  with 1 d m1 show "script_ok (leaves rid) s' \<and>
      meets (\<lambda>landed repo. kept rid r repo \<and> \<not> landed) (kept rid r) (kept rid r) res (pl_repo s')"
    by (auto simp: degrade_run_for_deadline_def split: pl_error.splits repo_error.splits)
qed

lemma collect_idle:
  assumes "qr_status r = CANCELLED"
  shows "idle rid r (collect_answers sv rid b slots)"
proof (induction slots arbitrary: b)
  case Nil
  show ?case by (simp add: triple_done)
next
  case (Cons slot slots)
  show ?case
  proof (cases "sv_answer sv slot")
    case FutureTimeout
    show ?thesis unfolding collect_answers.simps FutureTimeout future_outcome.case
      by (rule triple_bind[OF kept.budget]) (simp add: Cons.IH stop_idle[OF assms])
  qed (simp_all add: Cons.IH stop_idle[OF assms])
qed

lemma no_allow_terminal [simp]:
  "\<not> su_allow_terminal (stage_update st g x d)"
  "\<not> su_allow_terminal (halt_update t g d f m)"
  "su_allow_terminal (u\<lparr>su_mark_started := b\<rparr>) = su_allow_terminal u"
  by (simp_all add: stage_update_def halt_update_def no_update_def)

lemma halt_idle:
  assumes "qr_status r = CANCELLED" and "t \<noteq> CANCELLED"
  shows "idle rid r (pl_bind (update_call rid (halt_update t g d f ms)) (\<lambda>halted.
       pl_seq (if qr_status halted = t then m else pl_done ()) pl_return))"
proof (rule triple_bind[OF update_idle])
  fix h
  show "triple (leaves rid) (\<lambda>repo. kept rid r repo \<and> qr_status h = CANCELLED)
      (pl_seq (if qr_status h = t then m else pl_done ()) pl_return) (\<lambda>_. kept rid r) (kept rid r) (kept rid r)"
  proof (cases "qr_status h = CANCELLED")
    case True
    have "triple (leaves rid) (\<lambda>repo. kept rid r repo \<and> qr_status h = CANCELLED)
        (pl_seq (pl_done ()) pl_return) (\<lambda>_. kept rid r) (kept rid r) (kept rid r)"
      by (rule triple_seq[where K = "kept rid r", OF triple_done triple_return]) simp_all
    then show ?thesis using True assms(2) by simp
  qed (simp add: triple_absurd)
qed (simp_all add: assms)


lemma degrade_then_idle:
  assumes "qr_status r = CANCELLED"
  shows "idle rid r (pl_bind (degrade_run_for_deadline rid dt g f ms) (\<lambda>landed.
       pl_seq (if landed then m else pl_done ()) pl_return))"
proof (rule triple_bind[OF degrade_idle[OF assms]])
  fix landed
  show "triple (leaves rid) (\<lambda>repo. kept rid r repo \<and> \<not> landed) (pl_seq (if landed then m else pl_done ()) pl_return)
      (\<lambda>_. kept rid r) (kept rid r) (kept rid r)"
  proof (cases landed)
    case False
    have "triple (leaves rid) (\<lambda>repo. kept rid r repo \<and> \<not> landed) (pl_seq (pl_done ()) pl_return)
        (\<lambda>_. kept rid r) (kept rid r) (kept rid r)"
      by (rule triple_seq[where K = "kept rid r", OF triple_done triple_return]) simp_all
    then show ?thesis using False by simp
  qed (simp add: triple_absurd)
qed

lemma get_idle: "idle rid r (pl_call (\<lambda>now. get_run now rid))"
  by (rule kept.call) (simp add: get_run_cases kept_purge split: option.split)

lemma quick_tail_idle: "qr_status r = CANCELLED \<Longrightarrow> idle rid r (quick_tail rid)"
  unfolding quick_tail_def by (intro update_then_idle triple_return) simp_all

lemma debate_idle: "qr_status r = CANCELLED \<Longrightarrow> idle rid r (debate_stage sv rid answers)"
  unfolding debate_stage_def by (intro update_then_idle stop_idle) simp_all

lemma initial_idle:
  assumes "qr_status r = CANCELLED"
  shows "idle rid r (initial_stage sv rid q d)"
proof -
  have body: "idle rid r (if c then a else b)" if "idle rid r a" "idle rid r b" for c and a b :: "unit pl"
    using that by simp
  show ?thesis
    unfolding initial_stage_def Let_def
    by (intro update_then_idle triple_bind[OF collect_idle] body degrade_then_idle triple_bind[OF get_idle]
        halt_idle quick_tail_idle debate_idle assms) simp_all
qed

lemma execute_idle:
  assumes "qr_status r = CANCELLED"
  shows "idle rid r (execute_query_run sv rid)"
proof -
  have body: "idle rid r (if c then a else b)" if "idle rid r a" "idle rid r b" for c and a b :: "unit pl"
    using that by simp
  have panel: "idle rid r (case panel_size_word n of None \<Rightarrow> pl_raise e | Some w \<Rightarrow> initial_stage sv rid q (f w))"
    for n e q f
    by (simp add: triple_raise initial_idle[OF assms] split: option.split)
  show ?thesis
    unfolding execute_query_run_def
    by (intro triple_bind[OF get_idle] body halt_idle initial_idle panel assms) simp
qed

lemma cancelled_worker_idle:
  assumes "kept rid r (pl_repo s)" and "qr_status r = CANCELLED" and "script_ok (leaves rid) s"
  shows "kept rid r (pl_repo (execute_query_run_safely sv rid s))"
proof -
  obtain r1 s1 where m1: "execute_query_run sv rid s = (r1, s1)" by force
  note 1 = tripleD[OF execute_idle[OF assms(2)] assms(1,3) m1]
  show ?thesis
  proof (cases r1)
    case (Raise e)
    let ?m = "pl_bind (pl_call (\<lambda>now. get_run now rid)) (\<lambda>r.
               pl_bind (pl_call (\<lambda>now. get_run now rid)) (\<lambda>r2.
               update_call rid (halt_update FAILED (running_stage_name (qr_progress r))
                   (''Unhandled pipeline error: '' @ error_name e @ ''.'') [''pipeline'']
                 (map sg_stage (filter (\<lambda>g. sg_state g = STAGE_PENDING) (qr_progress r2))))))"
    have upd: "triple (leaves rid) (kept rid r) (update_call rid (halt_update FAILED g d f ms)) (\<lambda>_. kept rid r)
        (kept rid r) (kept rid r)" for g d f ms
      by (rule triple_weaken[OF update_idle]) (simp_all add: assms)
    have h: "triple (leaves rid) (kept rid r) ?m (\<lambda>_. kept rid r) (kept rid r) (kept rid r)"
      by (intro triple_bind[OF get_idle] upd)
    obtain r2 s2 where m2: "?m s1 = (r2, s2)" by force
    from 1 Raise have "kept rid r (pl_repo s1)" "script_ok (leaves rid) s1" by simp_all
    from tripleD[OF h this m2] have "kept rid r (pl_repo s2)" by (cases r2) auto
    then show ?thesis using m1 m2 Raise by (simp add: execute_query_run_safely_def)
  qed (use 1 m1 in \<open>simp_all add: execute_query_run_safely_def\<close>)
qed

section \<open>What a completed run holds\<close>

text \<open>
  A run's work is recorded by its worker alone: other threads may end it (other than as COMPLETED),
  annotate it and flag its estimate, no more.
\<close>

fun supervises :: "uuid \<Rightarrow> repo_op \<Rightarrow> bool" where
  "supervises rid (OpCreate now i acct q slots est ctx mode key) = (i \<noteq> rid)"
| "supervises rid (OpTransition now i s f m) = (i = rid \<longrightarrow> s \<noteq> COMPLETED)"
| "supervises rid (OpUpdate now i u) = (i = rid \<longrightarrow> su_status u \<noteq> Some COMPLETED)"
| "supervises rid (OpAnswer now i a) = (i \<noteq> rid)"
| "supervises rid (OpEnterStage now i g) = (i \<noteq> rid)"
| "supervises rid (OpDebate now i os us) = (i \<noteq> rid)"
| "supervises rid (OpSynthesis now i f us) = (i \<noteq> rid)"
| "supervises rid _ = True"

definition answered :: "query_run \<Rightarrow> bool" where
  "answered r = list_ex (\<lambda>a. ia_status a = ANSWER_COMPLETED) (qr_initial_answers r)"

text \<open>Before the final write: not COMPLETED yet, of mode \<open>md\<close>, a quick run's billing marks still \<open>b\<close>; with flag
  \<open>a\<close> an answer is recorded, with flag \<open>y\<close> the synthesis. After it: COMPLETED says both.\<close>

definition during :: "uuid \<Rightarrow> run_mode \<Rightarrow> (billable_stage \<Rightarrow> stage_billing_state) \<Rightarrow> bool \<Rightarrow> bool \<Rightarrow> run_repo \<Rightarrow> bool" where
  "during rid md b a y repo =
     (dict_ok repo \<and> (\<forall>r. map_of repo rid = Some r \<longrightarrow>
        qr_mode r = md \<and> qr_status r \<noteq> COMPLETED \<and> (md = MODE_QUICK \<longrightarrow> qr_billing_stages r = b)
        \<and> (a \<longrightarrow> answered r) \<and> (y \<longrightarrow> qr_final_synthesis r \<noteq> None)))"

definition honest :: "uuid \<Rightarrow> run_mode \<Rightarrow> (billable_stage \<Rightarrow> stage_billing_state) \<Rightarrow> run_repo \<Rightarrow> bool" where
  "honest rid md b repo =
     (\<forall>r. map_of repo rid = Some r \<longrightarrow>
        qr_mode r = md \<and> (md = MODE_QUICK \<longrightarrow> qr_billing_stages r = b)
        \<and> (qr_status r = COMPLETED \<longrightarrow> answered r \<and> (md = MODE_PANEL \<longrightarrow> qr_final_synthesis r \<noteq> None)))"

lemma during_honest: "during rid md b a y repo \<Longrightarrow> honest rid md b repo"
  by (simp add: during_def honest_def)

lemma during_weaken: "during rid md b a y repo \<Longrightarrow> (a' \<Longrightarrow> a) \<Longrightarrow> (y' \<Longrightarrow> y) \<Longrightarrow> during rid md b a' y' repo"
  by (auto simp: during_def)

lemma during_purge: "during rid md b a y repo \<Longrightarrow> during rid md b a y (purge_expired now repo)"
  by (auto simp: during_def map_of_purge split: option.splits if_splits)

lemma during_adjust:
  assumes "during rid md b a y repo" and "i = rid \<Longrightarrow> (\<And>r. map_of repo rid = Some r \<Longrightarrow> qr_mode (f r) = qr_mode r
      \<and> qr_status (f r) \<noteq> COMPLETED \<and> (md = MODE_QUICK \<longrightarrow> qr_billing_stages (f r) = qr_billing_stages r)
      \<and> (a \<longrightarrow> answered (f r)) \<and> (y \<longrightarrow> qr_final_synthesis (f r) \<noteq> None))"
  shows "during rid md b a y (dict_adjust i f repo)"
  using assms by (auto simp: during_def)

lemma written_fields [simp]:
  "qr_billing_stages (update_run now u r) = qr_billing_stages r"
  "qr_final_synthesis (update_run now u r) = qr_final_synthesis r"
  "answered (update_run now u r) = answered r"
  "qr_billing_stages (transition_run now s f m r) = qr_billing_stages r"
  "qr_final_synthesis (transition_run now s f m r) = qr_final_synthesis r"
  "answered (transition_run now s f m r) = answered r"
  by (simp_all add: update_run_def transition_run_def set_steps_def Let_def answered_def split: option.split list.split)

lemma during_step: "supervises rid x \<Longrightarrow> during rid md b a y repo \<Longrightarrow> during rid md b a y (repo_step repo x)"
proof (cases x)
  case (OpCreate now i acct q slots est ctx mode key)
  assume "supervises rid x" "during rid md b a y repo"
  moreover from this have "during rid md b a y (purge_expired now (purge_expired now repo))" by (simp add: during_purge)
  ultimately show ?thesis using OpCreate by (auto simp: create_shape during_def dict_ok_update)
next
  case (OpTransition now i s f m)
  assume "supervises rid x" "during rid md b a y repo"
  then show ?thesis using OpTransition
    by (auto simp: transition_def split: option.split intro!: during_adjust) (auto simp: during_def)
next
  case (OpUpdate now i u)
  assume "supervises rid x" "during rid md b a y repo"
  then show ?thesis using OpUpdate
    by (auto simp: update_status_def split: option.split intro!: during_adjust)
      (auto simp: during_def update_run_status split: option.splits if_splits)
next
  case (OpRead now)
  assume "during rid md b a y repo"
  then show ?thesis using OpRead by (simp add: during_purge)
qed (auto simp: during_def record_initial_answer_def mark_billable_stage_entered_def
    mark_spend_metering_unavailable_def mark_global_ceiling_reached_def record_debate_outputs_def
    record_final_synthesis_def mutate_run_def dict_ok_Nil answered_def split: option.splits)

interpretation during: stable_under "supervises rid" "during rid md b a y" for rid md b a y
  by unfold_locales (rule during_step)


text \<open>\<open>works rid md b a y m\<close>: from there the worker's step \<open>m\<close> leaves the run honest, and where it raises, not
  COMPLETED.\<close>

abbreviation works ::
  "uuid \<Rightarrow> run_mode \<Rightarrow> (billable_stage \<Rightarrow> stage_billing_state) \<Rightarrow> bool \<Rightarrow> bool \<Rightarrow> 'a pl \<Rightarrow> bool" where
  "works rid md b a y m \<equiv> triple (supervises rid) (during rid md b a y) m (\<lambda>_. honest rid md b)
     (honest rid md b) (during rid md b False False)"

abbreviation keeps_working ::
  "uuid \<Rightarrow> run_mode \<Rightarrow> (billable_stage \<Rightarrow> stage_billing_state) \<Rightarrow> bool \<Rightarrow> bool \<Rightarrow> 'a pl \<Rightarrow> bool" where
  "keeps_working rid md b a y m \<equiv> triple (supervises rid) (during rid md b a y) m (\<lambda>_. during rid md b a y)
     (honest rid md b) (during rid md b False False)"

lemma end_works: "works rid md b a y (pl_done x)" "works rid md b a y pl_return" "works rid md b a y (pl_raise e)"
  by (auto intro!: triple_done triple_return triple_raise dest: during_honest elim: during_weaken)

lemma keeps_then: "keeps_working rid md b a y m \<Longrightarrow> works rid md b a y n \<Longrightarrow> works rid md b a y (pl_seq m n)"
  by (rule triple_seq)

lemma keeps_bind: "keeps_working rid md b a y m \<Longrightarrow> (\<And>x. works rid md b a y (n x)) \<Longrightarrow> works rid md b a y (pl_bind m n)"
  by (rule triple_bind)

lemma keeps_seq: "keeps_working rid md b a y m \<Longrightarrow> keeps_working rid md b a y n \<Longrightarrow> keeps_working rid md b a y (pl_seq m n)"
  by (rule triple_seq)

lemma keeps_done: "keeps_working rid md b a y (pl_done x)"
  by (simp add: triple_done)

lemma write_keeps:
  assumes "\<And>now r. qr_mode (f now r) = qr_mode r \<and> qr_status (f now r) = qr_status r
      \<and> (md = MODE_QUICK \<longrightarrow> qr_billing_stages (f now r) = qr_billing_stages r)
      \<and> (a \<longrightarrow> answered r \<longrightarrow> answered (f now r)) \<and> (y \<longrightarrow> qr_final_synthesis r \<noteq> None \<longrightarrow> qr_final_synthesis (f now r) \<noteq> None)"
  shows "keeps_working rid md b a y (pl_call (\<lambda>now. mutate_run rid (f now)))"
proof (rule during.call)
  fix now repo
  assume J: "during rid md b a y repo"
  have "during rid md b a y (dict_adjust rid (f now) repo)"
    by (rule during_adjust[OF J]) (use J assms in \<open>auto simp: during_def\<close>)
  then show "case mutate_run rid (f now) repo of (Inl e, repo') \<Rightarrow> during rid md b False False repo'
      | (Inr x, repo') \<Rightarrow> during rid md b a y repo'"
    using J by (auto simp: mutate_run_def elim: during_weaken split: option.split)
qed

lemma update_mutates: "update_status now rid u = mutate_run rid (update_run now u)"
  by (rule ext) (simp add: update_status_def mutate_run_def)

lemma update_keeps:
  assumes "su_status u \<noteq> Some COMPLETED"
  shows "keeps_working rid md b a y (update_call rid u)"
  unfolding update_call_def
proof (rule during.call)
  fix now repo
  assume J: "during rid md b a y repo"
  have "during rid md b a y (dict_adjust rid (update_run now u) repo)"
    by (rule during_adjust[OF J]) (use J assms in \<open>auto simp: during_def update_run_status split: option.split\<close>)
  then show "case update_status now rid u repo of (Inl e, repo') \<Rightarrow> during rid md b False False repo'
      | (Inr x, repo') \<Rightarrow> during rid md b a y repo'"
    using J by (auto simp: update_status_def elim: during_weaken split: option.split)
qed

lemma complete_honest:
  assumes "md = MODE_PANEL \<Longrightarrow> y"
  shows "triple (supervises rid) (during rid md b True y) (update_call rid u) (\<lambda>_. honest rid md b) (honest rid md b)
    (during rid md b False False)"
  unfolding update_call_def
proof (rule during.call)
  fix now repo
  assume J: "during rid md b True y repo"
  have "honest rid md b (dict_adjust rid (update_run now u) repo)"
    using J assms by (auto simp: during_def honest_def)
  then show "case update_status now rid u repo of (Inl e, repo') \<Rightarrow> during rid md b False False repo'
      | (Inr x, repo') \<Rightarrow> honest rid md b repo'"
    using J by (auto simp: update_status_def elim: during_weaken split: option.split)
qed

lemma stop_works: "works rid md b a y m \<Longrightarrow> works rid md b a y (stop_or rid m)"
  by (rule during.stop_or[OF during_purge]) (auto intro: triple_J during_honest)

lemma should_stop_keeps: "keeps_working rid md b a y (should_stop rid)"
  by (rule triple_weaken[OF during.should_stop[OF during_purge]]) simp_all

lemma budget_keeps: "keeps_working rid md b a y (budget_remaining d)"
  by (rule during.budget)

lemma get_keeps: "keeps_working rid md b a y (pl_call (\<lambda>now. get_run now rid))"
  by (rule during.call) (auto simp: get_run_cases during_purge dest: during_purge elim!: during_weaken split: option.split)

lemma mark_keeps:
  "keeps_working rid md b a y (mark_remaining_stages rid stages)" "keeps_working rid md b a y (mark_after_terminal rid quick)"
proof -
  have m: "keeps_working rid md b a y (mark_stages rid d stages)" for d stages
    by (induction stages) (auto intro!: keeps_seq update_keeps keeps_done)
  show "keeps_working rid md b a y (mark_remaining_stages rid stages)"
    unfolding mark_remaining_stages_def by (rule m)
  show "keeps_working rid md b a y (mark_after_terminal rid quick)"
    unfolding mark_after_terminal_def mark_remaining_stages_def by (cases quick; simp only: if_True if_False not_True_eq_False
      not_False_eq_True m)
qed

lemma degrade_keeps: "keeps_working rid md b a y (degrade_run_for_deadline rid dt g f ms)"
proof (rule tripleI)
  fix s res s'
  assume s: "during rid md b a y (pl_repo s)" "script_ok (supervises rid) s"
    and d: "degrade_run_for_deadline rid dt g f ms s = (res, s')"
  let ?t = "pl_call (\<lambda>now. transition now rid TIMED_OUT (Some f) (Some ms))"
  obtain r1 s1 where m1: "?t s = (r1, s1)" by force
  have "triple (supervises rid) (during rid md b a y) ?t (\<lambda>_. during rid md b a y) (\<lambda>_. False) (during rid md b a y)"
  proof (rule during.call)
    fix now repo
    assume J: "during rid md b a y repo"
    have "during rid md b a y (dict_adjust rid (transition_run now TIMED_OUT (Some f) (Some ms)) repo)"
      by (rule during_adjust[OF J]) (use J in \<open>auto simp: during_def\<close>)
    with J show "case transition now rid TIMED_OUT (Some f) (Some ms) repo of
        (Inl e, repo') \<Rightarrow> during rid md b a y repo' | (Inr x, repo') \<Rightarrow> during rid md b a y repo'"
      by (simp add: transition_def split: option.split)
  qed
  note 1 = tripleD[OF this s m1]
  have tail: "keeps_working rid md b a y (pl_seq (update_call rid ((stage_update None g STAGE_FAILED
              (''Run exceeded the '' @ dt @ ''s wall-clock deadline (NFR-004); serving the completed portion.''))
              \<lparr>su_allow_terminal := True\<rparr>)) (pl_done True))"
    by (intro keeps_seq update_keeps keeps_done) simp
  show "script_ok (supervises rid) s' \<and> meets (\<lambda>_. during rid md b a y) (honest rid md b)
      (during rid md b False False) res (pl_repo s')"
  proof (cases r1)
    case (Done x)
    with d m1 1 show ?thesis using tripleD[OF tail, of s1 res s'] by (simp add: degrade_run_for_deadline_def)
  next
    case Return
    with 1 show ?thesis by simp
  next
    case (Raise e)
    with d m1 1 show ?thesis
      by (auto simp: degrade_run_for_deadline_def elim: during_weaken split: pl_error.splits repo_error.splits)
  qed
qed


lemma collect_keeps: "keeps_working rid md b False False (collect_answers sv rid c slots)"
proof (induction slots arbitrary: c)
  case Nil
  show ?case by (simp add: triple_done)
next
  case (Cons slot slots)
  have rec: "keeps_working rid md b False False
      (stop_or rid (pl_seq (pl_call (\<lambda>now. record_initial_answer now rid x)) (collect_answers sv rid c' slots)))" for x c'
    unfolding worker_writes
    by (rule during.stop_or[OF during_purge during_honest])
      (auto intro!: triple_J[OF triple_seq[OF write_keeps Cons.IH]] simp: record_answer_run_def)
  show ?case
  proof (cases "sv_answer sv slot")
    case FutureTimeout
    show ?thesis unfolding collect_answers.simps FutureTimeout future_outcome.case
      by (rule triple_bind[OF budget_keeps]) (simp add: Cons.IH rec)
  qed (simp_all add: Cons.IH rec)
qed

lemma works_if: "works rid md b a y m \<Longrightarrow> works rid md b a y n \<Longrightarrow> works rid md b a y (if c then m else n)"
  by simp

lemma keeps_if: "keeps_working rid md b a y m \<Longrightarrow> keeps_working rid md b a y n \<Longrightarrow> keeps_working rid md b a y (if c then m else n)"
  by simp

lemma synthesis_works: "works rid MODE_PANEL b True False (synthesis_stage sv rid)"
proof -
  have stored: "triple (supervises rid) (during rid MODE_PANEL b True False)
      (pl_call (\<lambda>now. record_final_synthesis now rid syn us)) (\<lambda>_. during rid MODE_PANEL b True True)
      (honest rid MODE_PANEL b) (during rid MODE_PANEL b False False)" for syn us
  proof (rule during.call)
    fix now repo
    assume "during rid MODE_PANEL b True False repo"
    then show "case record_final_synthesis now rid syn us repo of (Inl e, repo') \<Rightarrow> during rid MODE_PANEL b False False repo'
        | (Inr x, repo') \<Rightarrow> during rid MODE_PANEL b True True repo'"
      by (auto simp: record_final_synthesis_def mutate_run_def during_def answered_def Let_def split: option.split)
  qed
  have finish: "triple (supervises rid) (during rid MODE_PANEL b True True)
      (pl_seq (update_call rid u) (pl_done ())) (\<lambda>_. honest rid MODE_PANEL b) (honest rid MODE_PANEL b)
      (during rid MODE_PANEL b False False)" for u
    by (rule triple_seq[OF complete_honest triple_done]) simp_all
  have outcome: "works rid MODE_PANEL b True False
      (case fs of None \<Rightarrow> pl_seq (update_call rid (halt_update PARTIAL g d f ms)) pl_return
       | Some syn \<Rightarrow> pl_seq (pl_call (\<lambda>now. record_final_synthesis now rid syn us)) (pl_seq (update_call rid u) (pl_done ())))"
    for fs g d f ms us u
    by (cases fs) (simp_all only: option.case, rule keeps_then[OF update_keeps end_works(2)], simp,
        rule triple_seq[OF stored finish])
  have service: "works rid MODE_PANEL b True False (case ys of Inl e \<Rightarrow> pl_raise (StageError e)
      | Inr yr \<Rightarrow> pl_bind (should_stop rid) (\<lambda>stop. if stop \<and> yr_live_call_usages yr = [] then pl_return
          else m yr))" if "\<And>yr. works rid MODE_PANEL b True False (m yr)" for ys m
    by (cases ys) (simp_all only: sum.case end_works, intro keeps_bind[OF should_stop_keeps] works_if end_works that)
  show ?thesis
    unfolding synthesis_stage_def worker_writes(2)
    by (intro keeps_then update_keeps stop_works keeps_bind[OF budget_keeps] works_if degrade_keeps end_works
        keeps_bind[OF get_keeps] write_keeps service outcome) (simp_all add: answered_def)
qed

lemma after_debate_works: "works rid MODE_PANEL b True False (after_debate sv rid dr)"
  unfolding after_debate_def worker_writes(3)
  by (intro keeps_bind[OF should_stop_keeps] works_if end_works keeps_then write_keeps
      keeps_bind[OF update_keeps] keeps_if mark_keeps keeps_done keeps_seq update_keeps stop_works synthesis_works)
    (auto simp: Let_def answered_def split: option.split)

lemma debate_works: "works rid MODE_PANEL b True False (debate_stage sv rid answers)"
proof -
  have service: "works rid MODE_PANEL b True False (case ds of Inl e \<Rightarrow> pl_raise (StageError e) | Inr dr \<Rightarrow> after_debate sv rid dr)"
    for ds by (cases ds) (simp_all only: sum.case end_works after_debate_works)
  show ?thesis
    unfolding debate_stage_def worker_writes(2) announce_round_two_def
    by (intro keeps_then update_keeps stop_works keeps_bind[OF budget_keeps] works_if keeps_bind[OF degrade_keeps]
        keeps_if mark_keeps keeps_done end_works write_keeps keeps_seq service)
      (simp_all add: answered_def)
qed

lemma quick_tail_works: "works rid MODE_QUICK b True False (quick_tail rid)"
proof -
  have finish: "triple (supervises rid) (during rid MODE_QUICK b True False) (pl_seq (update_call rid u) pl_return)
      (\<lambda>_. honest rid MODE_QUICK b) (honest rid MODE_QUICK b) (during rid MODE_QUICK b False False)" for u
    by (rule triple_seq[OF complete_honest triple_return]) simp_all
  show ?thesis
    unfolding quick_tail_def by (intro keeps_then[OF update_keeps] finish) simp_all
qed


lemma initial_works:
  assumes "qr_mode q = md"
  shows "works rid md b False False (initial_stage sv rid q d)"
proof -
  have work: "triple (supervises rid) (\<lambda>repo. during rid md b False False repo \<and> (answered x \<longrightarrow> during rid md b True False repo))
      (if \<not> answered x then pl_bind (update_call rid (halt_update PARTIAL g t f ms)) (\<lambda>halted.
             pl_seq (if qr_status halted = PARTIAL then mark_after_terminal rid c else pl_done ()) pl_return)
       else if md = MODE_QUICK then quick_tail rid else debate_stage sv rid (qr_initial_answers x))
      (\<lambda>_. honest rid md b) (honest rid md b) (during rid md b False False)" for x g t f ms c
  proof (cases "answered x")
    case True
    have "works rid md b True False (if md = MODE_QUICK then quick_tail rid else debate_stage sv rid (qr_initial_answers x))"
      by (cases md) (simp_all add: quick_tail_works debate_works)
    then have "triple (supervises rid) (\<lambda>repo. during rid md b False False repo \<and> (answered x \<longrightarrow> during rid md b True False repo))
      (if md = MODE_QUICK then quick_tail rid else debate_stage sv rid (qr_initial_answers x))
      (\<lambda>_. honest rid md b) (honest rid md b) (during rid md b False False)"
      by (rule triple_J) (simp add: True)
    then show ?thesis by (simp only: True not_True_eq_False if_False)
  next
    case False
    have "works rid md b False False (pl_bind (update_call rid (halt_update PARTIAL g t f ms)) (\<lambda>halted.
             pl_seq (if qr_status halted = PARTIAL then mark_after_terminal rid c else pl_done ()) pl_return))"
      by (intro keeps_bind[OF update_keeps] keeps_then keeps_if mark_keeps keeps_done end_works) simp
    then show ?thesis by (simp only: False not_False_eq_True if_True simp_thms)
  qed
  have get: "triple (supervises rid) (during rid md b False False) (pl_call (\<lambda>now. get_run now rid))
      (\<lambda>x repo. during rid md b False False repo \<and> (answered x \<longrightarrow> during rid md b True False repo))
      (honest rid md b) (during rid md b False False)"
    by (rule during.call) (auto simp: get_run_cases during_purge dest: during_purge split: option.split,
        auto simp: during_def map_of_purge split: option.splits if_splits)
  show ?thesis
    unfolding initial_stage_def Let_def assms answered_def[symmetric]
    by (intro keeps_then[OF update_keeps] keeps_bind[OF collect_keeps] works_if keeps_bind[OF degrade_keeps]
        keeps_then[OF keeps_if] mark_keeps keeps_done end_works triple_bind[OF get work]) simp
qed


lemma execute_works: "works rid md b False False (execute_query_run sv rid)"
proof -
  have body: "triple (supervises rid) (\<lambda>repo. during rid md b False False repo \<and> qr_mode q = md)
      (if c then pl_bind (update_call rid (halt_update FAILED g t f ms)) (\<lambda>halted.
         pl_seq (if qr_status halted = FAILED then mark_after_terminal rid k else pl_done ()) pl_return)
       else if k then initial_stage sv rid q d
       else (case w of None \<Rightarrow> pl_raise e | Some w \<Rightarrow> initial_stage sv rid q (h w)))
      (\<lambda>_. honest rid md b) (honest rid md b) (during rid md b False False)" for q c g t f ms k d w e h
  proof (cases "qr_mode q = md")
    case True
    have "works rid md b False False (case w of None \<Rightarrow> pl_raise e | Some w \<Rightarrow> initial_stage sv rid q (h w))"
      by (cases w) (simp_all only: option.case end_works initial_works[OF True])
    then show ?thesis unfolding True simp_thms
      by (intro works_if keeps_bind[OF update_keeps] keeps_then[OF keeps_if] mark_keeps keeps_done end_works
          initial_works[OF True]) simp_all
  qed (simp add: triple_absurd)
  have get: "triple (supervises rid) (during rid md b False False) (pl_call (\<lambda>now. get_run now rid))
      (\<lambda>q repo. during rid md b False False repo \<and> qr_mode q = md) (honest rid md b) (during rid md b False False)"
    by (rule during.call) (auto simp: get_run_cases during_purge dest: during_purge split: option.split,
        auto simp: during_def map_of_purge split: option.splits if_splits)
  show ?thesis
    unfolding execute_query_run_def by (rule triple_bind[OF get body])
qed

lemma worker_honest:
  assumes "during rid md b False False (pl_repo s)" and "script_ok (supervises rid) s"
  shows "honest rid md b (pl_repo (execute_query_run_safely sv rid s))"
proof -
  obtain r1 s1 where m1: "execute_query_run sv rid s = (r1, s1)" by force
  note 1 = tripleD[OF execute_works assms m1]
  show ?thesis
  proof (cases r1)
    case (Raise e)
    let ?m = "pl_bind (pl_call (\<lambda>now. get_run now rid)) (\<lambda>r.
               pl_bind (pl_call (\<lambda>now. get_run now rid)) (\<lambda>r2.
               update_call rid (halt_update FAILED (running_stage_name (qr_progress r))
                   (''Unhandled pipeline error: '' @ error_name e @ ''.'') [''pipeline'']
                 (map sg_stage (filter (\<lambda>g. sg_state g = STAGE_PENDING) (qr_progress r2))))))"
    have h: "keeps_working rid md b False False ?m"
      by (intro triple_bind[OF get_keeps] update_keeps) simp
    obtain r2 s2 where m2: "?m s1 = (r2, s2)" by force
    from 1 Raise have "during rid md b False False (pl_repo s1)" "script_ok (supervises rid) s1" by simp_all
    from tripleD[OF h this m2] have "honest rid md b (pl_repo s2)" by (cases r2) (auto dest: during_honest)
    then show ?thesis using m1 m2 Raise by (simp add: execute_query_run_safely_def)
  qed (use 1 m1 in \<open>simp_all add: execute_query_run_safely_def\<close>)
qed

section \<open>Concrete runs\<close>

definition sample_quality :: quality_checks where
  "sample_quality = \<lparr>qc_citation_coverage_target_met = False, qc_false_consensus_preserved = True,
     qc_decision_support_framing_present = True, qc_high_stakes_warning_required = False\<rparr>"

definition sample_synthesis :: final_synthesis where
  "sample_synthesis = \<lparr>fs_status = SYNTHESIS_COMPLETED, fs_consensus = ''c'', fs_disagreement = ''d'',
     fs_source_support = ''s'', fs_uncertainty = ''u'', fs_recommendation = ''r'', fs_high_stakes_notice = None,
     fs_citation_coverage = \<lparr>cc_answer_count = 2, cc_sourced_answer_count = 0, cc_sourced_answer_ratio = 0, cc_target_met = False\<rparr>,
     fs_quality_checks = sample_quality, fs_synthesis_mode = SYNTHESIS_MODE_LIVE\<rparr>"

definition sample_round :: "nat \<Rightarrow> debate_output" where
  "sample_round n = \<lparr>do_round_number = n, do_focus_areas = [], do_critique_text = ''t'', do_status = ROUND_COMPLETED,
     do_debate_mode = DEBATE_MODE_LIVE, do_panel_stance = None, do_critique_shape = CRITIQUE_SHAPE_MODERATOR,
     do_slot_critiques = [], do_eligible_critic_count = 2\<rparr>"

definition sample_services :: run_services where
  "sample_services = \<lparr>sv_deadline = 600, sv_deadline_text = ''600'', sv_live_without_key = False,
     sv_answer = (\<lambda>slot. FutureAnswer (plain_answer (ms_slot_number slot) ''a'')),
     sv_deadline_answer = (\<lambda>slot. plain_answer (ms_slot_number slot) []), sv_announces = True,
     sv_debate = (\<lambda>answers. Inr \<lparr>dr_debate_outputs = [sample_round 1, sample_round 2], dr_failed_steps = [],
        dr_missing_steps = [], dr_timed_out = False, dr_live_call_usages = [(1, None), (2, None)]\<rparr>),
     sv_synthesis = (\<lambda>answers outputs. Inr \<lparr>yr_final_synthesis = Some sample_synthesis, yr_failed_steps = [],
        yr_missing_steps = [], yr_live_call_usages = [None]\<rparr>)\<rparr>"

definition accepted_run :: "run_mode \<Rightarrow> query_run" where
  "accepted_run md = new_query_run 0 1 7 ''q'' two_slots small_estimate None md None"

definition worker_state :: "query_run \<Rightarrow> tick list \<Rightarrow> pl_state" where
  "worker_state r script = \<lparr>pl_repo = [(1, r)], pl_script = script, pl_clock = (1, 0)\<rparr>"

text \<open>A script in which the user cancels the run before the worker's fifth call.\<close>

definition cancel_script :: "tick list" where
  "cancel_script = replicate 4 \<lparr>tk_now = 2, tk_elapsed = 1, tk_others = []\<rparr>
     @ [\<lparr>tk_now = 3, tk_elapsed = 1, tk_others = [OpTransition 3 1 CANCELLED None None, OpRead 3]\<rparr>]"

text \<open>Evaluating the worker on concrete services and scripts.\<close>

lemmas worker_eval =
  execute_query_run_safely_def execute_query_run_def initial_stage_def debate_stage_def after_debate_def
  synthesis_stage_def announce_round_two_def quick_tail_def panel_size_word_def lower_first_def
  record_debate_outputs_def record_final_synthesis_def mark_billable_stage_entered_def pl_seq_def pl_bind_def
  pl_done_def pl_return_def pl_raise_def pl_call_def pl_tick_def budget_remaining_def update_call_def
  stage_update_def halt_update_def should_stop_def stop_or_def get_run_def repo_eval worker_state_def
  accepted_run_def sample_services_def two_slots_def plain_answer_def downstream_stages_def
  initial_progress_def QUICK_SKIPPED_STAGE_DETAIL_def

lemma sample_panel_run:
  "\<exists>r. map_of (pl_repo (execute_query_run_safely sample_services 1 (worker_state (accepted_run MODE_PANEL) []))) 1 = Some r
     \<and> qr_status r = COMPLETED \<and> qr_final_synthesis r = Some sample_synthesis"
  by (simp add: worker_eval)

lemma sample_quick_run:
  "\<exists>r. map_of (pl_repo (execute_query_run_safely sample_services 1 (worker_state (accepted_run MODE_QUICK) []))) 1 = Some r
     \<and> qr_status r = COMPLETED"
  by (simp add: worker_eval)

lemma sample_cancelled_run:
  "status_of (pl_repo (execute_query_run_safely sample_services 1 (worker_state (accepted_run MODE_PANEL) cancel_script))) 1
     = Some CANCELLED"
  by (simp add: worker_eval cancel_script_def numeral_nat status_of_def)

lemma accepted_run_start [simp]:
  "dict_ok (pl_repo (worker_state r script))" "map_of (pl_repo (worker_state r script)) (Suc 0) = Some r"
  "status_of (pl_repo (worker_state r script)) (Suc 0) = Some (qr_status r)" "pl_script (worker_state r script) = script"
  "qr_status (accepted_run md) = ACCEPTED" "qr_mode (accepted_run md) = md"
  by (simp_all add: worker_state_def dict_ok_def status_of_def accepted_run_def new_query_run_def)

section \<open>Properties of the worker\<close>

text \<open>C8. A run is never left running: whatever the providers, the debate and the synthesis answer or raise,
  and whatever other threads do between the worker's calls (cancel the run, purge it, serve other
  accounts), the worker ends with the run in a terminal status or gone from the repository.\<close>

theorem worker_always_finishes:
  assumes "dict_ok (pl_repo s)" and "status_of (pl_repo s) rid \<notin> {Some DRAFT, Some COST_REVIEW}"
    and "\<forall>t \<in> set (pl_script s). \<forall>x \<in> set (tk_others t). other_op_ok rid x"
  shows "case status_of (pl_repo (execute_query_run_safely sv rid s)) rid of
      None \<Rightarrow> True | Some st \<Rightarrow> st \<in> TERMINAL_STATUSES"
proof -
  have "settled rid (pl_repo (execute_query_run_safely sv rid s))"
    using assms by (intro worker_never_stuck) (auto simp: reachable_status_def script_ok_def list_all_iff)
  then show ?thesis by (simp add: settled_def)
qed

theorem worker_always_finishes_witness:
  "status_of (pl_repo (execute_query_run_safely sample_services 1 (worker_state (accepted_run MODE_PANEL) cancel_script))) 1 = Some CANCELLED
   \<and> (case status_of (pl_repo (execute_query_run_safely sample_services 1 (worker_state (accepted_run MODE_PANEL) cancel_script))) 1 of
        None \<Rightarrow> True | Some st \<Rightarrow> st \<in> TERMINAL_STATUSES)"
  using sample_cancelled_run worker_always_finishes[of "worker_state (accepted_run MODE_PANEL) cancel_script" 1 sample_services]
  by (simp add: cancel_script_def TERMINAL_STATUSES_def)


text \<open>Cancelling a run is final for its worker: once the run is cancelled, and while no other thread
  writes on it, the worker leaves the stored run exactly as it was, its answers, stages, billing marks
  and timestamp included, whatever its services answer.\<close>

theorem cancelled_run_is_left_alone:
  assumes "dict_ok (pl_repo s)" and "map_of (pl_repo s) rid = Some r" and "qr_status r = CANCELLED"
    and "\<forall>t \<in> set (pl_script s). \<forall>x \<in> set (tk_others t). leaves rid x"
  shows "map_of (pl_repo (execute_query_run_safely sv rid s)) rid \<in> {None, Some r}"
proof -
  have "kept rid r (pl_repo (execute_query_run_safely sv rid s))"
    using assms by (intro cancelled_worker_idle) (auto simp: kept_def script_ok_def list_all_iff)
  then show ?thesis by (simp add: kept_def)
qed

theorem cancelled_run_is_left_alone_witness:
  "map_of (pl_repo (execute_query_run_safely sample_services 1 (worker_state ((accepted_run MODE_PANEL)\<lparr>qr_status := CANCELLED\<rparr>)
     [\<lparr>tk_now = 2, tk_elapsed = 1, tk_others = [OpRead 2]\<rparr>]))) 1 \<in> {None, Some ((accepted_run MODE_PANEL)\<lparr>qr_status := CANCELLED\<rparr>)}"
  by (rule cancelled_run_is_left_alone) simp_all


text \<open>C9. A run is reported COMPLETED only for work that is recorded: at least one model answer completed and,
  for a panel run, a final synthesis, as long as other threads do not record work on the run or mark it
  COMPLETED themselves.\<close>

theorem completed_run_has_its_work:
  assumes "dict_ok (pl_repo s)" and "map_of (pl_repo s) rid = Some r" and "qr_status r \<noteq> COMPLETED"
    and "\<forall>t \<in> set (pl_script s). \<forall>x \<in> set (tk_others t). supervises rid x"
    and "map_of (pl_repo (execute_query_run_safely sv rid s)) rid = Some r'" and "qr_status r' = COMPLETED"
  shows "(\<exists>a \<in> set (qr_initial_answers r'). ia_status a = ANSWER_COMPLETED)
    \<and> (qr_mode r = MODE_PANEL \<longrightarrow> qr_final_synthesis r' \<noteq> None)"
proof -
  have "honest rid (qr_mode r) (qr_billing_stages r) (pl_repo (execute_query_run_safely sv rid s))"
    using assms by (intro worker_honest) (auto simp: during_def script_ok_def list_all_iff)
  then show ?thesis using assms(5,6) by (auto simp: honest_def answered_def list_ex_iff)
qed

theorem completed_run_has_its_work_witness:
  "\<exists>r. map_of (pl_repo (execute_query_run_safely sample_services 1 (worker_state (accepted_run MODE_PANEL) []))) 1 = Some r
     \<and> qr_status r = COMPLETED
     \<and> ((\<exists>a \<in> set (qr_initial_answers r). ia_status a = ANSWER_COMPLETED)
        \<and> (qr_mode (accepted_run MODE_PANEL) = MODE_PANEL \<longrightarrow> qr_final_synthesis r \<noteq> None))"
proof -
  obtain r where r: "map_of (pl_repo (execute_query_run_safely sample_services 1 (worker_state (accepted_run MODE_PANEL) []))) 1 = Some r"
    "qr_status r = COMPLETED"
    using sample_panel_run by blast
  have "(\<exists>a \<in> set (qr_initial_answers r). ia_status a = ANSWER_COMPLETED)
      \<and> (qr_mode (accepted_run MODE_PANEL) = MODE_PANEL \<longrightarrow> qr_final_synthesis r \<noteq> None)"
    by (rule completed_run_has_its_work[OF _ _ _ _ r]) simp_all
  with r show ?thesis by blast
qed

text \<open>A quick answer is one model call: its worker never marks the debate or the synthesis as entered or
  recorded for billing, whatever happens in the run.\<close>

theorem quick_run_enters_no_billable_stage:
  assumes "dict_ok (pl_repo s)" and "map_of (pl_repo s) rid = Some r" and "qr_mode r = MODE_QUICK"
    and "qr_status r \<noteq> COMPLETED"
    and "\<forall>t \<in> set (pl_script s). \<forall>x \<in> set (tk_others t). supervises rid x"
    and "map_of (pl_repo (execute_query_run_safely sv rid s)) rid = Some r'"
  shows "qr_billing_stages r' = qr_billing_stages r"
proof -
  have "honest rid MODE_QUICK (qr_billing_stages r) (pl_repo (execute_query_run_safely sv rid s))"
    using assms by (intro worker_honest) (auto simp: during_def script_ok_def list_all_iff)
  then show ?thesis using assms(6) by (auto simp: honest_def)
qed

theorem quick_run_enters_no_billable_stage_witness:
  "\<exists>r. map_of (pl_repo (execute_query_run_safely sample_services 1 (worker_state (accepted_run MODE_QUICK) []))) 1 = Some r
     \<and> qr_status r = COMPLETED \<and> qr_billing_stages r = qr_billing_stages (accepted_run MODE_QUICK)"
proof -
  obtain r where r: "map_of (pl_repo (execute_query_run_safely sample_services 1 (worker_state (accepted_run MODE_QUICK) []))) 1 = Some r"
    "qr_status r = COMPLETED"
    using sample_quick_run by blast
  show ?thesis
    by (intro exI conjI, rule r, rule r, rule quick_run_enters_no_billable_stage[OF _ _ _ _ _ r(1)]) simp_all
qed

end
