(* ===== verification/Rate_Limit.thy ===== *)
theory Rate_Limit
  imports Prelude
begin

text \<open>
  The two token-bucket limiters of \<^verbatim>\<open>src/product_app/query_runs.py\<close>:
  \<^verbatim>\<open>_InMemoryIpRateLimiter\<close> (session minting, per visitor address, with a periodic
  sweep) and \<^verbatim>\<open>_InMemoryAccountRateLimiter\<close> (expensive endpoints, per account).
  A bucket is the pair (tokens, time of the last call). The source computes in floats; the model
  uses exact rationals, so rounding of the last bit is not modelled. \<open>now_epoch\<close> is the argument
  \<open>now\<close>. The laws a limiter owes its callers are the locale \<open>bucket_limiter\<close>, interpreted on
  both.
\<close>

section \<open>The limiters\<close>

type_synonym bucket = "rat \<times> rat"

definition STALE_BUCKET_SECONDS :: rat where "STALE_BUCKET_SECONDS = 300"
definition SWEEP_INTERVAL_SECONDS :: rat where "SWEEP_INTERVAL_SECONDS = 60"

text \<open>
  The part of \<open>allow\<close> both classes share: refill, evict a stale full bucket, or charge a token.
\<close>

definition bucket_allow ::
  "rat \<Rightarrow> rat \<Rightarrow> 'k \<Rightarrow> rat \<Rightarrow> ('k, bucket) dict \<Rightarrow> bool \<times> ('k, bucket) dict" where
  "bucket_allow capacity refill k now bs =
     (let (tokens, seen) = (case map_of bs k of None \<Rightarrow> (capacity, now) | Some b \<Rightarrow> b);
          elapsed_minutes = max 0 ((now - seen) / 60);
          tokens = min capacity (tokens + elapsed_minutes * refill)
      in if tokens \<ge> capacity \<and> now - seen > STALE_BUCKET_SECONDS then (True, AList.delete k bs)
         else if tokens < 1 then (False, AList.update k (tokens, now) bs)
         else (True, AList.update k (tokens - 1, now) bs))"

record ip_limiter =
  il_capacity :: rat
  il_refill_per_minute :: rat
  il_buckets :: "(string, bucket) dict"
  il_last_sweep :: "rat option"

definition IP_CAPACITY :: rat where "IP_CAPACITY = 10"
definition IP_REFILL_PER_MINUTE :: rat where "IP_REFILL_PER_MINUTE = 10"

definition new_ip_limiter :: "nat option \<Rightarrow> nat option \<Rightarrow> ip_limiter" where
  "new_ip_limiter capacity refill =
     \<lparr>il_capacity = (case capacity of None \<Rightarrow> IP_CAPACITY | Some c \<Rightarrow> of_nat c),
      il_refill_per_minute = (case refill of None \<Rightarrow> IP_REFILL_PER_MINUTE | Some c \<Rightarrow> of_nat c),
      il_buckets = [], il_last_sweep = None\<rparr>"

definition ip_sweep :: "rat \<Rightarrow> ip_limiter \<Rightarrow> ip_limiter" where
  "ip_sweep now l =
     (case il_last_sweep l of
        None \<Rightarrow> l\<lparr>il_last_sweep := Some now\<rparr>
      | Some s \<Rightarrow>
          if now - s \<ge> SWEEP_INTERVAL_SECONDS
          then l\<lparr>il_buckets := filter (\<lambda>(k, v). snd v \<ge> now - STALE_BUCKET_SECONDS) (il_buckets l),
                 il_last_sweep := Some now\<rparr>
          else l)"

definition ip_allow :: "string \<Rightarrow> rat \<Rightarrow> ip_limiter \<Rightarrow> bool \<times> ip_limiter" where
  "ip_allow ip now l =
     (let l = ip_sweep now l;
          (ok, bs) = bucket_allow (il_capacity l) (il_refill_per_minute l) ip now (il_buckets l)
      in (ok, l\<lparr>il_buckets := bs\<rparr>))"

definition ip_clear :: "ip_limiter \<Rightarrow> ip_limiter" where
  "ip_clear l = l\<lparr>il_buckets := []\<rparr>"

text \<open>The module-level limiter: the LOCAL-only override moves capacity and refill together.\<close>

definition session_limiter :: "bool \<Rightarrow> nat option \<Rightarrow> ip_limiter" where
  "session_limiter local rate_limit_per_minute =
     (let session_limit = (if local then rate_limit_per_minute else None)
      in new_ip_limiter session_limit session_limit)"

type_synonym account_limiter = "(string, bucket) dict"

definition ACCOUNT_CAPACITY :: rat where "ACCOUNT_CAPACITY = 30"
definition ACCOUNT_REFILL_PER_MINUTE :: rat where "ACCOUNT_REFILL_PER_MINUTE = 30"

definition account_allow :: "string \<Rightarrow> rat \<Rightarrow> account_limiter \<Rightarrow> bool \<times> account_limiter" where
  "account_allow = bucket_allow ACCOUNT_CAPACITY ACCOUNT_REFILL_PER_MINUTE"

section \<open>What a limiter promises\<close>

text \<open>A limiter serving a sequence of calls, and how many of them it admitted for a key.\<close>

fun serve :: "('k \<Rightarrow> rat \<Rightarrow> 's \<Rightarrow> bool \<times> 's) \<Rightarrow> 's \<Rightarrow> ('k \<times> rat) list \<Rightarrow> ('k \<times> bool) list" where
  "serve allow s [] = []"
| "serve allow s ((k, t) # cs) = (k, fst (allow k t s)) # serve allow (snd (allow k t s)) cs"

definition admitted :: "'k \<Rightarrow> ('k \<times> bool) list \<Rightarrow> nat" where
  "admitted k rs = length (filter (\<lambda>r. r = (k, True)) rs)"

text \<open>
  \<open>pot s k t\<close> is the credit of key \<open>k\<close> at time \<open>t\<close>: every admitted call costs one unit, a refused
  call and other keys' calls never add any, and time adds at most \<open>rate\<close> per second.
  \<open>ok s t\<close>: the state is well formed and no bucket is stamped after \<open>t\<close>.
\<close>

locale bucket_limiter =
  fixes allow :: "'k \<Rightarrow> rat \<Rightarrow> 's \<Rightarrow> bool \<times> 's"
    and pot :: "'s \<Rightarrow> 'k \<Rightarrow> rat \<Rightarrow> rat"
    and ok :: "'s \<Rightarrow> rat \<Rightarrow> bool"
    and rate :: rat
  assumes ok_later: "ok s t \<Longrightarrow> t \<le> t' \<Longrightarrow> ok s t'"
    and ok_allow: "ok s t \<Longrightarrow> ok (snd (allow k t s)) t"
    and pot_nonneg: "ok s t \<Longrightarrow> 0 \<le> pot s k t"
    and pot_later: "ok s t \<Longrightarrow> t \<le> t' \<Longrightarrow> pot s k t' \<le> pot s k t + rate * (t' - t)"
    and pot_allow: "ok s t \<Longrightarrow>
          pot (snd (allow k t s)) j t \<le> pot s j t - (if j = k \<and> fst (allow k t s) then 1 else 0)"
begin

lemma admitted_bound:
  assumes "ok s t0" and "sorted (t0 # map snd cs)" and "\<forall>c \<in> set cs. snd c \<le> t1" and "t0 \<le> t1"
    and "0 \<le> rate"
  shows "of_nat (admitted k (serve allow s cs)) \<le> pot s k t0 + rate * (t1 - t0)"
  using assms
proof (induction cs arbitrary: s t0)
  case Nil
  then show ?case using pot_nonneg[of s t0 k] by (simp add: admitted_def)
next
  case (Cons c cs)
  obtain j t where c: "c = (j, t)" by force
  let ?s' = "snd (allow j t s)"
  have t: "t0 \<le> t" "t \<le> t1" using Cons.prems by (auto simp: c)
  have okt: "ok s t" using ok_later[OF Cons.prems(1)] t by simp
  have IH: "of_nat (admitted k (serve allow ?s' cs)) \<le> pot ?s' k t + rate * (t1 - t)"
    using Cons.prems t by (intro Cons.IH ok_allow[OF okt]) (auto simp: c)
  have time: "pot s k t \<le> pot s k t0 + rate * (t - t0)"
    using pot_later[OF Cons.prems(1)] t by simp
  have step: "pot ?s' k t \<le> pot s k t - (if k = j \<and> fst (allow j t s) then 1 else 0)"
    by (rule pot_allow[OF okt])
  have "of_nat (admitted k (serve allow s (c # cs))) =
      (if k = j \<and> fst (allow j t s) then 1 else 0) + (of_nat (admitted k (serve allow ?s' cs)) :: rat)"
    by (auto simp: admitted_def c)
  with IH time step show ?case by (simp add: algebra_simps split: if_splits)
qed

end

section \<open>The shared bucket keeps the promise\<close>

text \<open>
  The credit of a key: its refilled tokens, plus the one free call that evicting a bucket idle for
  more than five minutes gives away.
\<close>

definition available :: "rat \<Rightarrow> rat \<Rightarrow> ('k, bucket) dict \<Rightarrow> 'k \<Rightarrow> rat \<Rightarrow> rat" where
  "available capacity refill bs k t =
     (case map_of bs k of
        None \<Rightarrow> capacity
      | Some (tokens, seen) \<Rightarrow> min capacity (tokens + (t - seen) / 60 * refill))"

definition idle_credit :: "('k, bucket) dict \<Rightarrow> 'k \<Rightarrow> rat \<Rightarrow> rat" where
  "idle_credit bs k t =
     (case map_of bs k of None \<Rightarrow> 0 | Some (tokens, seen) \<Rightarrow> min 1 ((t - seen) / 300))"

definition bucket_pot :: "rat \<Rightarrow> rat \<Rightarrow> ('k, bucket) dict \<Rightarrow> 'k \<Rightarrow> rat \<Rightarrow> rat" where
  "bucket_pot capacity refill bs k t = available capacity refill bs k t + idle_credit bs k t"

definition buckets_ok :: "rat \<Rightarrow> ('k, bucket) dict \<Rightarrow> rat \<Rightarrow> bool" where
  "buckets_ok capacity bs t = (dict_ok bs
     \<and> (\<forall>k tokens seen. map_of bs k = Some (tokens, seen) \<longrightarrow>
          0 \<le> tokens \<and> tokens \<le> capacity \<and> seen \<le> t))"

lemma bucket_allow_available:
  assumes "buckets_ok capacity bs t"
  shows "bucket_allow capacity refill k t bs =
     (let tokens = available capacity refill bs k t in
      if tokens \<ge> capacity \<and> (\<exists>b. map_of bs k = Some b \<and> t - snd b > 300)
      then (True, AList.delete k bs)
      else if tokens < 1 then (False, AList.update k (tokens, t) bs)
      else (True, AList.update k (tokens - 1, t) bs))"
proof (cases "map_of bs k")
  case None
  then show ?thesis
    by (simp add: bucket_allow_def available_def Let_def STALE_BUCKET_SECONDS_def)
next
  case (Some b)
  obtain tokens seen where b: "b = (tokens, seen)" by force
  with Some assms have "seen \<le> t" by (auto simp: buckets_ok_def)
  then have "max 0 ((t - seen) / 60) = (t - seen) / 60" by simp
  then show ?thesis using Some
    by (simp add: bucket_allow_def available_def Let_def STALE_BUCKET_SECONDS_def b)
qed

lemma available_bounds:
  assumes "buckets_ok capacity bs t" and "0 \<le> refill" and "0 \<le> capacity"
  shows "0 \<le> available capacity refill bs k t \<and> available capacity refill bs k t \<le> capacity"
  using assms by (auto simp: available_def buckets_ok_def split: option.split)

lemma idle_credit_nonneg: "buckets_ok capacity bs t \<Longrightarrow> 0 \<le> idle_credit bs k t"
  by (auto simp: idle_credit_def buckets_ok_def split: option.split)

lemma buckets_ok_allow:
  assumes ok: "buckets_ok capacity bs t" and r: "0 \<le> refill" and c: "0 \<le> capacity"
  shows "buckets_ok capacity (snd (bucket_allow capacity refill k t bs)) t"
  using ok available_bounds[OF ok r c, of k]
  by (auto simp: bucket_allow_available[OF ok] Let_def buckets_ok_def intro: dict_intro)

lemma available_update [simp]:
  "tokens \<le> capacity \<Longrightarrow>
   available capacity refill (AList.update k (tokens, t) bs) j t =
     (if j = k then tokens else available capacity refill bs j t)"
  by (simp add: available_def)

lemma idle_credit_update [simp]:
  "idle_credit (AList.update k (tokens, t) bs) j t = (if j = k then 0 else idle_credit bs j t)"
  by (simp add: idle_credit_def)

lemma bucket_pot_allow:
  assumes ok: "buckets_ok capacity bs t" and r: "0 \<le> refill" and c: "0 \<le> capacity"
  shows "bucket_pot capacity refill (snd (bucket_allow capacity refill k t bs)) j t
    \<le> bucket_pot capacity refill bs j t
       - (if j = k \<and> fst (bucket_allow capacity refill k t bs) then 1 else 0)"
proof -
  let ?a = "available capacity refill bs k t"
  have a: "?a \<le> capacity" using available_bounds[OF ok r c] by simp
  have i: "0 \<le> idle_credit bs k t" by (rule idle_credit_nonneg[OF ok])
  show ?thesis
  proof (cases "?a \<ge> capacity \<and> (\<exists>b. map_of bs k = Some b \<and> t - snd b > 300)")
    case True
    then obtain tokens seen where b: "map_of bs k = Some (tokens, seen)" "t - seen > 300" by force
    then have "idle_credit bs k t = 1" by (simp add: idle_credit_def)
    with True a show ?thesis
      by (auto simp: bucket_allow_available[OF ok] bucket_pot_def available_def idle_credit_def)
  next
    case False
    with a i show ?thesis
      by (auto simp: bucket_allow_available[OF ok] bucket_pot_def Let_def)
  qed
qed

lemma bucket_pot_later:
  assumes "t \<le> t'" and "0 \<le> refill"
  shows "bucket_pot capacity refill bs k t' \<le> bucket_pot capacity refill bs k t
           + (refill / 60 + 1 / 300) * (t' - t)"
proof (cases "map_of bs k")
  case None
  then show ?thesis using assms by (simp add: bucket_pot_def available_def idle_credit_def)
next
  case (Some b)
  obtain tokens seen where b: "b = (tokens, seen)" by force
  let ?x = "tokens + (t - seen) / 60 * refill" and ?d = "refill / 60 * (t' - t)"
  have "tokens + (t' - seen) / 60 * refill = ?x + ?d"
    by (simp add: field_simps)
  then have "available capacity refill bs k t' = min capacity (?x + ?d)"
    and "available capacity refill bs k t = min capacity ?x"
    using Some by (simp_all only: available_def b option.case prod.case)
  moreover have "0 \<le> ?d" using assms by simp
  ultimately have "available capacity refill bs k t' \<le> available capacity refill bs k t + ?d"
    by (simp add: min_def)
  moreover have "idle_credit bs k t' \<le> idle_credit bs k t + 1 / 300 * (t' - t)"
    using Some assms by (simp add: idle_credit_def b field_simps min_def)
  ultimately show ?thesis by (simp add: bucket_pot_def algebra_simps)
qed

lemma buckets_ok_later: "buckets_ok capacity bs t \<Longrightarrow> t \<le> t' \<Longrightarrow> buckets_ok capacity bs t'"
  by (fastforce simp: buckets_ok_def)

interpretation account: bucket_limiter account_allow
  "bucket_pot ACCOUNT_CAPACITY ACCOUNT_REFILL_PER_MINUTE" "buckets_ok ACCOUNT_CAPACITY"
  "ACCOUNT_REFILL_PER_MINUTE / 60 + 1 / 300"
proof unfold_locales
  fix s :: account_limiter and t t' :: rat and k j
  let ?c = ACCOUNT_CAPACITY and ?r = ACCOUNT_REFILL_PER_MINUTE
  have pos: "0 \<le> ?c" "0 \<le> ?r"
    by (simp_all add: ACCOUNT_CAPACITY_def ACCOUNT_REFILL_PER_MINUTE_def)
  show "buckets_ok ?c s t'" if "buckets_ok ?c s t" "t \<le> t'"
    using that by (rule buckets_ok_later)
  show "buckets_ok ?c (snd (account_allow k t s)) t" if "buckets_ok ?c s t"
    unfolding account_allow_def using that pos by (intro buckets_ok_allow)
  show "0 \<le> bucket_pot ?c ?r s k t" if "buckets_ok ?c s t"
    using available_bounds[OF that pos(2,1), of k] idle_credit_nonneg[OF that, of k]
    by (simp add: bucket_pot_def)
  show "bucket_pot ?c ?r s k t' \<le> bucket_pot ?c ?r s k t + (?r / 60 + 1 / 300) * (t' - t)"
    if "t \<le> t'" using that pos by (intro bucket_pot_later)
  show "bucket_pot ?c ?r (snd (account_allow k t s)) j t
      \<le> bucket_pot ?c ?r s j t - (if j = k \<and> fst (account_allow k t s) then 1 else 0)"
    if "buckets_ok ?c s t"
    unfolding account_allow_def using that pos by (intro bucket_pot_allow)
qed

text \<open>
  The sweep drops only buckets that have refilled: a bucket untouched for five minutes is full
  whenever five minutes refill the capacity, which holds for both settings in use.
\<close>

definition ip_ok :: "ip_limiter \<Rightarrow> rat \<Rightarrow> bool" where
  "ip_ok l t = (buckets_ok (il_capacity l) (il_buckets l) t \<and> il_capacity l = IP_CAPACITY
     \<and> il_refill_per_minute l = IP_REFILL_PER_MINUTE)"

definition ip_pot :: "ip_limiter \<Rightarrow> string \<Rightarrow> rat \<Rightarrow> rat" where
  "ip_pot l k t = bucket_pot IP_CAPACITY IP_REFILL_PER_MINUTE (il_buckets l) k t"

lemma ip_sweep_fields [simp]:
  "il_capacity (ip_sweep t l) = il_capacity l"
  "il_refill_per_minute (ip_sweep t l) = il_refill_per_minute l"
  by (simp_all add: ip_sweep_def split: option.split)

lemma ip_sweep_buckets:
  "il_buckets (ip_sweep t l) = il_buckets l
   \<or> il_buckets (ip_sweep t l) = filter (\<lambda>(k, v). snd v \<ge> t - 300) (il_buckets l)"
  by (simp add: ip_sweep_def STALE_BUCKET_SECONDS_def split: option.split)

lemma ip_sweep_ok: "ip_ok l t \<Longrightarrow> ip_ok (ip_sweep t l) t"
  using ip_sweep_buckets[of t l]
  by (auto simp: ip_ok_def buckets_ok_def map_of_filter split: option.splits if_splits
      intro: dict_intro)

lemma filtered_bucket_pot:
  assumes ok: "buckets_ok IP_CAPACITY bs t"
  shows "bucket_pot IP_CAPACITY IP_REFILL_PER_MINUTE (filter (\<lambda>(k, v). snd v \<ge> t - 300) bs) k t
    \<le> bucket_pot IP_CAPACITY IP_REFILL_PER_MINUTE bs k t"
proof -
  have map_of: "map_of (filter (\<lambda>(k, v). snd v \<ge> t - 300) bs) k =
      (case map_of bs k of None \<Rightarrow> None | Some v \<Rightarrow> if snd v \<ge> t - 300 then Some v else None)"
    using ok by (simp add: buckets_ok_def map_of_filter split: option.split)
  show ?thesis
  proof (cases "map_of bs k")
    case None
    with map_of show ?thesis by (simp add: bucket_pot_def available_def idle_credit_def)
  next
    case (Some b)
    obtain tokens seen where b: "b = (tokens, seen)" by force
    with Some ok have "0 \<le> tokens" by (auto simp: buckets_ok_def)
    with Some map_of show ?thesis
      by (auto simp: b bucket_pot_def available_def idle_credit_def IP_CAPACITY_def
          IP_REFILL_PER_MINUTE_def field_simps min_def)
  qed
qed

lemma ip_sweep_pot: "ip_ok l t \<Longrightarrow> ip_pot (ip_sweep t l) k t \<le> ip_pot l k t"
  using ip_sweep_buckets[of t l] filtered_bucket_pot[of "il_buckets l" t k]
  by (auto simp: ip_pot_def ip_ok_def)

interpretation visitor: bucket_limiter ip_allow ip_pot ip_ok "IP_REFILL_PER_MINUTE / 60 + 1 / 300"
proof unfold_locales
  fix l :: ip_limiter and t t' :: rat and k j
  have pos: "0 \<le> IP_CAPACITY" "0 \<le> IP_REFILL_PER_MINUTE"
    by (simp_all add: IP_CAPACITY_def IP_REFILL_PER_MINUTE_def)
  show "ip_ok l t'" if "ip_ok l t" "t \<le> t'"
    using that by (auto simp: ip_ok_def intro: buckets_ok_later)
  show "ip_ok (snd (ip_allow k t l)) t" if "ip_ok l t"
    using ip_sweep_ok[OF that] buckets_ok_allow[OF _ pos(2,1), of "il_buckets (ip_sweep t l)" t k]
    by (auto simp: ip_allow_def Let_def ip_ok_def case_prod_unfold)
  show "0 \<le> ip_pot l k t" if "ip_ok l t"
    using that available_bounds[OF _ pos(2,1), of "il_buckets l" t k] idle_credit_nonneg[of IP_CAPACITY "il_buckets l" t k]
    by (auto simp: ip_pot_def bucket_pot_def ip_ok_def)
  show "ip_pot l k t' \<le> ip_pot l k t + (IP_REFILL_PER_MINUTE / 60 + 1 / 300) * (t' - t)"
    if "t \<le> t'" unfolding ip_pot_def using that pos by (intro bucket_pot_later)
  show "ip_pot (snd (ip_allow k t l)) j t \<le> ip_pot l j t - (if j = k \<and> fst (ip_allow k t l) then 1 else 0)"
    if "ip_ok l t"
  proof -
    let ?s = "ip_sweep t l"
    have s: "buckets_ok IP_CAPACITY (il_buckets ?s) t" "il_capacity l = IP_CAPACITY"
      "il_refill_per_minute l = IP_REFILL_PER_MINUTE"
      using ip_sweep_ok[OF that] by (auto simp: ip_ok_def)
    have "ip_pot ?s j t - d \<le> ip_pot l j t - d" for d
      using ip_sweep_pot[OF that, of j] by simp
    from order_trans[OF bucket_pot_allow[OF s(1) pos(2,1), of k j, folded ip_pot_def] this]
    show ?thesis by (simp add: ip_allow_def Let_def ip_pot_def s case_prod_unfold)
  qed
qed

section \<open>Properties\<close>

text \<open>C4. Per-account limit. However calls of all accounts interleave, from an empty limiter one account
  gets at most thirty calls plus those time refills: half a token a second, and one free call per five
  idle minutes (the evicted bucket is not charged).\<close>

theorem account_calls_bounded:
  assumes "sorted (t0 # map snd cs)" and "\<forall>c \<in> set cs. snd c \<le> t1" and "t0 \<le> t1"
  shows "of_nat (admitted k (serve account_allow [] cs)) \<le> 30 + (1 / 2 + 1 / 300) * (t1 - t0)"
proof -
  have ok: "buckets_ok ACCOUNT_CAPACITY [] t0" by (simp add: buckets_ok_def)
  have pot: "bucket_pot ACCOUNT_CAPACITY ACCOUNT_REFILL_PER_MINUTE [] k t0 = 30"
    by (simp add: bucket_pot_def available_def idle_credit_def ACCOUNT_CAPACITY_def)
  show ?thesis
    using account.admitted_bound[OF ok assms, of k]
    unfolding pot by (simp add: ACCOUNT_REFILL_PER_MINUTE_def)
qed

theorem account_calls_bounded_witness:
  "of_nat (admitted ''a'' (serve account_allow [] [(''a'', 0), (''b'', 1), (''a'', 2), (''a'', 60)]))
     \<le> (30 :: rat) + (1 / 2 + 1 / 300) * (60 - 0)"
  by (rule account_calls_bounded) simp_all

text \<open>Session-mint limit per visitor address, with the periodic sweep: from a new limiter an address
  gets at most ten calls plus ten per minute and one free call per five idle minutes. The sweep gives
  nothing away.\<close>

theorem visitor_calls_bounded:
  assumes "sorted (t0 # map snd cs)" and "\<forall>c \<in> set cs. snd c \<le> t1" and "t0 \<le> t1"
  shows "of_nat (admitted k (serve ip_allow (session_limiter False n) cs))
    \<le> 10 + (1 / 6 + 1 / 300) * (t1 - t0)"
proof -
  have ok: "ip_ok (session_limiter False n) t0"
    by (simp add: ip_ok_def session_limiter_def new_ip_limiter_def buckets_ok_def)
  have pot: "ip_pot (session_limiter False n) k t0 = 10"
    by (simp add: ip_pot_def session_limiter_def new_ip_limiter_def bucket_pot_def available_def
        idle_credit_def IP_CAPACITY_def)
  show ?thesis
    using visitor.admitted_bound[OF ok assms, of k]
    unfolding pot by (simp add: IP_REFILL_PER_MINUTE_def)
qed

theorem visitor_calls_bounded_witness:
  "of_nat (admitted ''x'' (serve ip_allow (session_limiter False (Some 500))
     [(''x'', 0), (''y'', 1), (''x'', 70)])) \<le> (10 :: rat) + (1 / 6 + 1 / 300) * (70 - 0)"
  by (rule visitor_calls_bounded) simp_all

text \<open>A refused account call is served again two seconds later, if nothing else used the account's
  bucket meanwhile; and it is refused only when less than one token is left.\<close>

theorem account_refusal_lifts:
  assumes "buckets_ok ACCOUNT_CAPACITY bs t" and "fst (account_allow k t bs) = False" and "t + 2 \<le> t'"
  shows "available ACCOUNT_CAPACITY ACCOUNT_REFILL_PER_MINUTE bs k t < 1
    \<and> fst (account_allow k t' (snd (account_allow k t bs))) = True"
proof -
  let ?c = ACCOUNT_CAPACITY and ?r = ACCOUNT_REFILL_PER_MINUTE
  let ?a = "available ?c ?r bs k t"
  have pos: "0 \<le> ?c" "0 \<le> ?r" and cap: "?c = 30" "?r = 30"
    by (simp_all add: ACCOUNT_CAPACITY_def ACCOUNT_REFILL_PER_MINUTE_def)
  have low: "?a < 1" and st: "snd (account_allow k t bs) = AList.update k (?a, t) bs"
    using assms(2) unfolding account_allow_def
    by (auto simp: bucket_allow_available[OF assms(1)] Let_def split: if_splits)
  have "buckets_ok ?c (snd (account_allow k t bs)) t'"
    using assms(1,3) by (intro account.ok_later[OF account.ok_allow]) simp_all
  then have ok': "buckets_ok ?c (AList.update k (?a, t) bs) t'" by (simp add: st)
  have "1 \<le> ?a + (t' - t) / 60 * 30"
    using assms(3) available_bounds[OF assms(1) pos(2,1), of k] by (simp add: field_simps)
  then have "1 \<le> available ?c ?r (AList.update k (?a, t) bs) k t'"
    by (simp add: available_def[of _ _ "AList.update _ _ _"] cap)
  then have "fst (account_allow k t' (AList.update k (?a, t) bs))"
    unfolding account_allow_def by (simp add: bucket_allow_available[OF ok'] Let_def)
  with low show ?thesis by (simp add: st)
qed

theorem account_refusal_lifts_witness:
  "fst (account_allow ''a'' 10 [(''a'', (0, 10))]) = False
   \<and> fst (account_allow ''a'' 12 (snd (account_allow ''a'' 10 [(''a'', (0, 10))]))) = True"
proof -
  have ok: "buckets_ok ACCOUNT_CAPACITY [(''a'', (0, 10))] 10"
    by (simp add: buckets_ok_def dict_ok_def ACCOUNT_CAPACITY_def)
  have no: "fst (account_allow ''a'' 10 [(''a'', (0, 10))]) = False"
    by (simp add: account_allow_def bucket_allow_def STALE_BUCKET_SECONDS_def ACCOUNT_CAPACITY_def Let_def)
  show ?thesis using no account_refusal_lifts[OF ok no, of 12] by simp
qed

text \<open>The call that evicts an idle bucket is not charged: after more than five idle minutes an
  account gets thirty-one calls at one instant, one more than the capacity of thirty.\<close>

theorem idle_account_gets_thirty_one:
  "admitted ''x'' (serve account_allow [] ((''x'', 0) # replicate 40 (''x'', 301))) = 1 + 31
   \<and> admitted ''x'' (serve account_allow [] (replicate 40 (''x'', 0))) = 30"
  by (simp add: admitted_def account_allow_def bucket_allow_def ACCOUNT_CAPACITY_def
      ACCOUNT_REFILL_PER_MINUTE_def STALE_BUCKET_SECONDS_def numeral_eq_Suc Let_def)

end
