(* ===== verification/Py_Strings.thy ===== *)
theory Py_Strings
  imports Prelude "HOL-Library.Sublist"
begin

text \<open>
  The operations of Python's \<^verbatim>\<open>str\<close> and the regular-expression classes that the components use, on
  Isabelle's \<open>string\<close>: a text is a list of characters 0 to 255 (Latin-1). Characters beyond Latin-1 are
  outside the model, except U+2026 (the ellipsis the program appends), U+2014, U+2019 and the noncharacter U+FFFF,
  which stand as \<open>CHR 0x1A\<close>, \<open>CHR 0x17\<close>, \<open>CHR 0x16\<close> and \<open>CHR 0x1B\<close>.
\<close>

section \<open>Characters\<close>

definition code :: "char \<Rightarrow> nat" where "code c = of_char c"

definition is_digit :: "char \<Rightarrow> bool" where "is_digit c = (48 \<le> code c \<and> code c \<le> 57)"

definition is_ascii_letter :: "char \<Rightarrow> bool" where
  "is_ascii_letter c = (65 \<le> code c \<and> code c \<le> 90 \<or> 97 \<le> code c \<and> code c \<le> 122)"

text \<open>\<^verbatim>\<open>str.isspace\<close>, which \<^verbatim>\<open>strip\<close> and \<^verbatim>\<open>\s\<close> use.\<close>

definition is_space :: "char \<Rightarrow> bool" where
  "is_space c = (9 \<le> code c \<and> code c \<le> 13 \<or> 28 \<le> code c \<and> code c \<le> 32 \<or> code c = 133 \<or> code c = 160)"

text \<open>\<^verbatim>\<open>\w\<close>: letters, digits and the underscore.\<close>

definition is_word :: "char \<Rightarrow> bool" where
  "is_word c = (is_digit c \<or> is_ascii_letter c \<or> code c = 95 \<or> code c \<in> {170, 178, 179, 181, 185, 186, 188, 189, 190}
     \<or> 192 \<le> code c \<and> code c \<noteq> 215 \<and> code c \<noteq> 247)"

definition lower_char :: "char \<Rightarrow> char" where
  "lower_char c = (if 65 \<le> code c \<and> code c \<le> 90 \<or> 192 \<le> code c \<and> code c \<le> 222 \<and> code c \<noteq> 215
                   then char_of (code c + 32) else c)"

lemmas char_eval = code_def is_digit_def is_ascii_letter_def is_space_def is_word_def lower_char_def

section \<open>Strings\<close>

definition lower :: "string \<Rightarrow> string" where "lower = map lower_char"

definition lstrip :: "string \<Rightarrow> string" where "lstrip = dropWhile is_space"

definition rstrip :: "string \<Rightarrow> string" where "rstrip s = rev (dropWhile is_space (rev s))"

definition strip :: "string \<Rightarrow> string" where "strip s = rstrip (lstrip s)"

definition starts_with :: "string \<Rightarrow> string \<Rightarrow> bool" where "starts_with p s = (take (length p) s = p)"

definition ends_with :: "string \<Rightarrow> string \<Rightarrow> bool" where "ends_with p s = starts_with (rev p) (rev s)"

text \<open>\<^verbatim>\<open>bytes.lower\<close> and \<^verbatim>\<open>bytes.strip\<close>: ASCII only.\<close>

definition ascii_lower :: "string \<Rightarrow> string" where
  "ascii_lower = map (\<lambda>c. if 65 \<le> code c \<and> code c \<le> 90 then char_of (code c + 32) else c)"

definition bytes_strip :: "string \<Rightarrow> string" where
  "bytes_strip s = (let sp = (\<lambda>c. 9 \<le> code c \<and> code c \<le> 13 \<or> code c = 32)
                    in rev (dropWhile sp (rev (dropWhile sp s))))"

text \<open>\<^verbatim>\<open>s.find(p)\<close>: the first index, \<open>None\<close> for -1.\<close>

fun find_sub :: "string \<Rightarrow> string \<Rightarrow> nat option" where
  "find_sub p [] = (if p = [] then Some 0 else None)"
| "find_sub p (c # s) = (if starts_with p (c # s) then Some 0 else map_option Suc (find_sub p s))"

definition contains :: "string \<Rightarrow> string \<Rightarrow> bool" where "contains p s = (find_sub p s \<noteq> None)"

fun join :: "string \<Rightarrow> string list \<Rightarrow> string" where
  "join sep [] = []"
| "join sep [s] = s"
| "join sep (s # t # ss) = s @ sep @ join sep (t # ss)"

text \<open>\<^verbatim>\<open>str(n)\<close> of a non-negative integer.\<close>

fun nat_str :: "nat \<Rightarrow> string" where
  "nat_str n = (if n < 10 then [char_of (48 + n)] else nat_str (n div 10) @ [char_of (48 + n mod 10)])"

declare nat_str.simps [simp del]

lemma starts_with_iff: "starts_with p s \<longleftrightarrow> (\<exists>t. s = p @ t)"
  by (auto simp: starts_with_def) (metis append_take_drop_id)

lemma find_sub_Some: "find_sub p s = Some i \<Longrightarrow> \<exists>t. s = take i s @ p @ t \<and> i \<le> length s"
proof (induction p s arbitrary: i rule: find_sub.induct)
  case (1 p)
  then show ?case by (auto split: if_splits)
next
  case (2 p c s)
  then show ?case by (fastforce simp: starts_with_iff split: if_splits)
qed

lemma find_sub_None: "find_sub p s = None \<Longrightarrow> s \<noteq> u @ p @ v"
proof (induction s arbitrary: u)
  case Nil
  then show ?case by (auto split: if_splits)
next
  case (Cons c s)
  have "\<not> starts_with p (c # s)" and n: "find_sub p s = None" using Cons.prems by (auto split: if_splits)
  then show ?case using Cons.IH[OF n] by (cases u) (auto simp: starts_with_iff)
qed

lemma contains_iff: "contains p s \<longleftrightarrow> (\<exists>u v. s = u @ p @ v)"
proof
  assume "contains p s"
  then obtain i where "find_sub p s = Some i" by (auto simp: contains_def)
  then obtain t where "s = take i s @ p @ t" using find_sub_Some by blast
  then show "\<exists>u v. s = u @ p @ v" by blast
next
  assume "\<exists>u v. s = u @ p @ v"
  then show "contains p s" unfolding contains_def using find_sub_None by blast
qed

lemma length_lower [simp]: "length (lower s) = length s"
  by (simp add: lower_def)

lemma lower_append [simp]: "lower (s @ t) = lower s @ lower t"
  by (simp add: lower_def)

lemma lower_take: "lower (take n s) = take n (lower s)"
  by (simp add: lower_def take_map)

lemma length_rstrip_le: "length (rstrip s) \<le> length s"
  using length_dropWhile_le[of is_space "rev s"] by (simp add: rstrip_def)

lemma length_lstrip_le: "length (lstrip s) \<le> length s"
  by (simp add: lstrip_def length_dropWhile_le)

lemma rstrip_split: "\<exists>w. s = rstrip s @ w \<and> (\<forall>c \<in> set w. is_space c)"
proof -
  have "s = rev (dropWhile is_space (rev s)) @ rev (takeWhile is_space (rev s))"
    by (metis rev_append rev_rev_ident takeWhile_dropWhile_id)
  moreover have "\<forall>c \<in> set (rev (takeWhile is_space (rev s))). is_space c"
    by (auto dest: set_takeWhileD)
  ultimately show ?thesis unfolding rstrip_def by blast
qed

lemma lstrip_split: "\<exists>w. s = w @ lstrip s \<and> (\<forall>c \<in> set w. is_space c)"
proof -
  have "s = takeWhile is_space s @ lstrip s" by (simp add: lstrip_def)
  then show ?thesis by (metis set_takeWhileD)
qed


lemma is_space_lower [simp]: "is_space (lower_char c) = is_space c"
proof -
  have "code c < 256" by (simp add: code_def)
  then show ?thesis by (auto simp: lower_char_def is_space_def code_def)
qed

lemma rstrip_keeps:
  assumes "u \<noteq> []" and "\<not> is_space (List.last u)"
  shows "rstrip (u @ v) = u @ rstrip v"
proof -
  obtain u' c where u: "u = u' @ [c]" using assms(1) by (metis rev_exhaust)
  have "dropWhile is_space (rev v @ [c] @ rev u') = dropWhile is_space (rev v) @ [c] @ rev u'"
    using assms(2) by (simp add: u dropWhile_append)
  then show ?thesis by (simp add: rstrip_def u)
qed

lemma lstrip_keeps: "u \<noteq> [] \<Longrightarrow> \<not> is_space (hd u) \<Longrightarrow> lstrip (u @ v) = u @ v"
  by (cases u) (simp_all add: lstrip_def)

lemma contains_append: "contains p s \<Longrightarrow> contains p (u @ s @ v)"
  unfolding contains_iff by (metis append.assoc)

lemma starts_contains: "contains p (p @ v)"
  unfolding contains_iff by (metis append_Nil)

text \<open>A match in the lowered text, as a match of the text itself.\<close>

lemma find_lower:
  assumes "find_sub p (lower s) = Some i"
  shows "\<exists>u v. drop i s = u @ v \<and> lower u = p \<and> i \<le> length s"
proof -
  obtain t where t: "lower s = take i (lower s) @ p @ t" "i \<le> length (lower s)"
    using find_sub_Some[OF assms] by blast
  then have "lower (drop i s) = p @ t"
    by (metis append_take_drop_id append_eq_append_conv length_take lower_def drop_map)
  then obtain u v where "drop i s = u @ v" "lower u = p"
    by (auto simp: lower_def map_eq_append_conv)
  then show ?thesis using t by auto
qed

end
