(* ===== verification/Model_Slots.thy ===== *)
theory Model_Slots
  imports Domain Py_Strings
begin

text \<open>
  Model slot selection: \<^verbatim>\<open>src/product_app/model_slots.py\<close> over the catalog of
  \<^verbatim>\<open>src/product_app/catalog_fetcher.py\<close>. Validating a request's slot list (\<open>validate_model_id_list\<close>,
  \<open>validate_model_slots_with_search\<close>), the moderator-overlap check, the catalog service's fallback, name and
  price indexes, and the catalog row's parsing of ids and prices. What the fetch of the live catalog
  returned is the argument \<open>live\<close>: \<open>None\<close> when it raised.
\<close>

section \<open>The catalog\<close>

record model_catalog_entry =
  ct_model_id :: string
  ct_name :: string
  ct_vendor :: string
  ct_short_name :: string
  ct_input_price_per_1k :: usd
  ct_output_price_per_1k :: usd

definition catalog_entry :: "string \<Rightarrow> string \<Rightarrow> string \<Rightarrow> string \<Rightarrow> usd \<Rightarrow> usd \<Rightarrow> model_catalog_entry" where
  "catalog_entry i n v s a b = \<lparr>ct_model_id = i, ct_name = n, ct_vendor = v, ct_short_name = s,
     ct_input_price_per_1k = a, ct_output_price_per_1k = b\<rparr>"

definition FALLBACK_CATALOG :: "model_catalog_entry list" where
  "FALLBACK_CATALOG = [
     catalog_entry ''openai/gpt-4o-mini'' ''OpenAI: GPT-4o mini'' ''openai'' ''GPT-4o mini'' (15 / 100000) (6 / 10000),
     catalog_entry ''openai/gpt-4.1'' ''OpenAI: GPT-4.1'' ''openai'' ''GPT-4.1'' (2 / 1000) (8 / 1000),
     catalog_entry ''openai/o3'' ''OpenAI: o3'' ''openai'' ''o3'' (15 / 1000) (6 / 100),
     catalog_entry ''anthropic/claude-haiku-4.5'' ''Anthropic: Claude Haiku 4.5'' ''anthropic'' ''Claude Haiku 4.5'' (1 / 1000) (5 / 1000),
     catalog_entry ''anthropic/claude-3-haiku'' ''Anthropic: Claude 3 Haiku'' ''anthropic'' ''Claude 3 Haiku'' (25 / 100000) (125 / 100000),
     catalog_entry ''anthropic/claude-opus-4'' ''Anthropic: Claude Opus 4'' ''anthropic'' ''Claude Opus 4'' (15 / 1000) (75 / 1000),
     catalog_entry ''google/gemini-2.5-flash'' ''Google: Gemini 2.5 Flash'' ''google'' ''Gemini 2.5 Flash'' (3 / 10000) (25 / 10000),
     catalog_entry ''google/gemini-2.5-flash-lite'' ''Google: Gemini 2.5 Flash Lite'' ''google'' ''Gemini 2.5 Flash Lite'' (75 / 1000000) (3 / 10000),
     catalog_entry ''google/gemini-2.5-pro'' ''Google: Gemini 2.5 Pro'' ''google'' ''Gemini 2.5 Pro'' (125 / 100000) (5 / 1000),
     catalog_entry ''nvidia/nemotron-3-nano-30b-a3b'' ''NVIDIA: Nemotron 3 Nano 30B A3B'' ''nvidia'' ''Nemotron 3 Nano'' (5 / 100000) (2 / 10000),
     catalog_entry ''deepseek/deepseek-chat-v3.1'' ''DeepSeek: DeepSeek Chat v3.1'' ''deepseek'' ''DeepSeek Chat v3.1'' (14 / 100000) (28 / 100000),
     catalog_entry ''meta-llama/llama-3.1-8b-instruct'' ''Meta: Llama 3.1 8B Instruct'' ''meta-llama'' ''Llama 3.1 8B Instruct'' (5 / 100000) (5 / 100000),
     catalog_entry ''openai/gpt-5-mini'' ''OpenAI: GPT-5 mini'' ''openai'' ''GPT-5 mini'' (25 / 100000) (2 / 1000)]"

definition DEFAULT_VENDORS :: "string list" where
  "DEFAULT_VENDORS = [''openai'', ''anthropic'', ''google'', ''nvidia'']"

text \<open>\<^verbatim>\<open>^([^/]+)/(.+)$\<close>: a vendor before the first slash and a name after it. \<^verbatim>\<open>.\<close> is not a
  newline, and \<^verbatim>\<open>$\<close> also stands before a final one.\<close>

definition vendor_match :: "string \<Rightarrow> (string \<times> string) option" where
  "vendor_match m =
     (let v = takeWhile (\<lambda>c. c \<noteq> CHR ''/'') m; rest = dropWhile (\<lambda>c. c \<noteq> CHR ''/'') m
      in if v = [] \<or> rest = [] then None
         else let n = tl rest; n = (if n \<noteq> [] \<and> List.last n = CHR 0x0A then butlast n else n)
              in if n = [] \<or> CHR 0x0A \<in> set n then None else Some (v, n))"

definition vendor_for :: "string \<Rightarrow> string" where
  "vendor_for m = (case vendor_match m of None \<Rightarrow> [] | Some (v, n) \<Rightarrow> lower v)"

definition short_name_for :: "string \<Rightarrow> string" where
  "short_name_for m = (case vendor_match m of None \<Rightarrow> m | Some (v, n) \<Rightarrow> n)"

text \<open>A row of the response whose id and name are strings and whose prices parsed: \<open>None\<close> for a price that is
  missing, not a number, infinite or not a decimal at all.\<close>

definition decimal_from_price :: "rat option \<Rightarrow> usd option" where
  "decimal_from_price price = (case price of None \<Rightarrow> None | Some v \<Rightarrow> if v < 0 then None else Some v)"

definition parse_catalog_row :: "string \<Rightarrow> string \<Rightarrow> rat option \<Rightarrow> rat option \<Rightarrow> model_catalog_entry option" where
  "parse_catalog_row i name prompt completion =
     (case (decimal_from_price prompt, decimal_from_price completion) of
        (Some a, Some b) \<Rightarrow> Some (catalog_entry i name (vendor_for i) (short_name_for i) (a * 1000) (b * 1000))
      | _ \<Rightarrow> None)"

definition catalog_entries :: "model_catalog_entry list option \<Rightarrow> model_catalog_entry list" where
  "catalog_entries live =
     (case live of None \<Rightarrow> FALLBACK_CATALOG | Some es \<Rightarrow> if es = [] then FALLBACK_CATALOG else es)"

text \<open>Display names prefer the fallback catalog's; prices come from the entries in use, the last row winning.\<close>

definition short_name_index :: "model_catalog_entry list option \<Rightarrow> (string, string) dict" where
  "short_name_index live =
     foldl (\<lambda>d e. if ct_model_id e \<in> fst ` set d then d else AList.update (ct_model_id e) (ct_short_name e) d)
       (foldl (\<lambda>d e. AList.update (ct_model_id e) (ct_short_name e) d) [] FALLBACK_CATALOG)
       (catalog_entries live)"

definition price_index :: "model_catalog_entry list option \<Rightarrow> (string, usd \<times> usd) dict" where
  "price_index live =
     foldl (\<lambda>d e. AList.update (ct_model_id e) (ct_input_price_per_1k e, ct_output_price_per_1k e) d) []
       (catalog_entries live)"

text \<open>\<^verbatim>\<open>cheapest_per_vendor\<close>: the first row by price, then by id.\<close>

fun string_le :: "string \<Rightarrow> string \<Rightarrow> bool" where
  "string_le [] t = True"
| "string_le (c # s) [] = False"
| "string_le (c # s) (d # t) = (code c < code d \<or> (c = d \<and> string_le s t))"

definition cheaper :: "model_catalog_entry \<Rightarrow> model_catalog_entry \<Rightarrow> bool" where
  "cheaper e f = (ct_input_price_per_1k e < ct_input_price_per_1k f
     \<or> (ct_input_price_per_1k e = ct_input_price_per_1k f \<and> string_le (ct_model_id e) (ct_model_id f)))"

fun cheapest :: "model_catalog_entry list \<Rightarrow> model_catalog_entry option" where
  "cheapest [] = None"
| "cheapest (e # es) = (case cheapest es of None \<Rightarrow> Some e | Some f \<Rightarrow> Some (if cheaper e f then e else f))"

definition cheapest_per_vendor :: "model_catalog_entry list \<Rightarrow> string list \<Rightarrow> (string, string) dict" where
  "cheapest_per_vendor entries vendors =
     foldl (\<lambda>d v. case cheapest (filter (\<lambda>e. ct_vendor e = v) entries) of
              None \<Rightarrow> d | Some e \<Rightarrow> AList.update v (ct_model_id e) d) [] vendors"

section \<open>Slots\<close>

definition DEFAULT_MODEL_IDS :: "string list" where
  "DEFAULT_MODEL_IDS = [''openai/gpt-4o-mini'', ''anthropic/claude-haiku-4.5'', ''google/gemini-2.5-flash'',
     ''nvidia/nemotron-3-nano-30b-a3b'']"

record model_slot_error =
  me_slot_number :: nat
  me_model_id :: "string option"
  me_message :: string

definition QUICK_SLOT_MESSAGE :: string where "QUICK_SLOT_MESSAGE = ''A quick answer takes exactly one model.''"

definition new_slots :: "string list \<Rightarrow> bool list \<Rightarrow> model_slot list" where
  "new_slots ids flags =
     map (\<lambda>i. \<lparr>ms_slot_number = i + 1, ms_model_id = ids ! i, ms_search = flags ! i\<rparr>) [0..<length ids]"

text \<open>\<^verbatim>\<open>default_model_ids\<close>: the static list, with the ids that a reachable catalog no longer has.\<close>

definition default_model_ids :: "model_catalog_entry list option \<Rightarrow> string list \<times> string list" where
  "default_model_ids live =
     (DEFAULT_MODEL_IDS, filter (\<lambda>i. i \<notin> ct_model_id ` set (catalog_entries live)) DEFAULT_MODEL_IDS)"

definition default_slots :: "model_catalog_entry list option \<Rightarrow> model_slot list" where
  "default_slots live =
     (let ids = fst (default_model_ids live) in new_slots ids (replicate (length ids) True))"

text \<open>\<^verbatim>\<open>_MODEL_ID_RE.match\<close>: \<^verbatim>\<open>[A-Za-z0-9][A-Za-z0-9._:-]{0,62}/[A-Za-z0-9._:-]{1,64}\<close>, then the end or a
  final newline.\<close>

definition id_first :: "char \<Rightarrow> bool" where "id_first c = (is_ascii_letter c \<or> is_digit c)"

definition id_char :: "char \<Rightarrow> bool" where "id_char c = (id_first c \<or> c \<in> set ''._:-'')"

definition id_core :: "string \<Rightarrow> bool" where
  "id_core m =
     (let v = takeWhile (\<lambda>c. c \<noteq> CHR ''/'') m; rest = dropWhile (\<lambda>c. c \<noteq> CHR ''/'') m
      in v \<noteq> [] \<and> id_first (hd v) \<and> list_all id_char (tl v) \<and> length (tl v) \<le> 62
         \<and> rest \<noteq> [] \<and> tl rest \<noteq> [] \<and> list_all id_char (tl rest) \<and> length (tl rest) \<le> 64)"

definition model_id_matches :: "string \<Rightarrow> bool" where
  "model_id_matches m = (id_core m \<or> (m \<noteq> [] \<and> List.last m = CHR 0x0A \<and> id_core (butlast m)))"

text \<open>The ids a request may name: the defaults, the fallback catalog and the live catalog.\<close>

definition known_ids :: "model_catalog_entry list option \<Rightarrow> string list" where
  "known_ids live = DEFAULT_MODEL_IDS @ map ct_model_id FALLBACK_CATALOG
     @ (case live of None \<Rightarrow> [] | Some es \<Rightarrow> map ct_model_id es)"

fun id_errors :: "string list \<Rightarrow> nat \<Rightarrow> string list \<Rightarrow> string list \<Rightarrow> model_slot_error list" where
  "id_errors known index seen [] = []"
| "id_errors known index seen (m # ms) =
     (if m = [] \<or> \<not> model_id_matches m then
        \<lparr>me_slot_number = index, me_model_id = Some m,
         me_message = ''Model id  @ m @  is not a valid vendor/model identifier.''\<rparr> # id_errors known (index + 1) seen ms
      else if m \<notin> set known then
        \<lparr>me_slot_number = index, me_model_id = Some m, me_message = ''Model id  @ m @  is not in the  catalog.''\<rparr>
          # id_errors known (index + 1) seen ms
      else if m \<in> set seen then
        \<lparr>me_slot_number = index, me_model_id = Some m, me_message = ''Model IDs must be unique across all slots.''\<rparr>
          # id_errors known (index + 1) seen ms
      else id_errors known (index + 1) (m # seen) ms)"

definition count_error :: "string \<Rightarrow> model_slot_error" where
  "count_error msg = \<lparr>me_slot_number = 0, me_model_id = None, me_message = msg\<rparr>"

definition validate_model_id_list ::
  "model_catalog_entry list option \<Rightarrow> string list \<Rightarrow> run_mode \<Rightarrow> model_slot_error list" where
  "validate_model_id_list live ids mode =
     (if mode = MODE_QUICK \<and> length ids \<noteq> 1 then [count_error QUICK_SLOT_MESSAGE]
      else if mode \<noteq> MODE_QUICK \<and> \<not> (2 \<le> length ids \<and> length ids \<le> 4)
      then [count_error ''Between 2 and 4 model slots are required.'']
      else id_errors (known_ids live) 1 [] ids)"

text \<open>A non-empty error list is raised as \<^verbatim>\<open>InvalidModelSlotError\<close>, here \<open>Inl\<close>.\<close>

definition validate_model_slots_with_search ::
  "model_catalog_entry list option \<Rightarrow> string list \<Rightarrow> bool list option \<Rightarrow> run_mode \<Rightarrow>
   model_slot_error list + model_slot list" where
  "validate_model_slots_with_search live ids search mode =
     (let errors = validate_model_id_list live ids mode in
      if errors \<noteq> [] then Inl errors
      else case search of
        None \<Rightarrow> Inr (new_slots ids (replicate (length ids) True))
      | Some flags \<Rightarrow>
          if length flags \<noteq> length ids
          then Inl [count_error (''slot_search length must match model_slots length ('' @ nat_str (length ids) @
                 '' expected, '' @ nat_str (length flags) @ '' given).'')]
          else Inr (new_slots ids flags))"

definition validate_model_slots :: "model_catalog_entry list option \<Rightarrow> string list \<Rightarrow> model_slot_error list + model_slot list" where
  "validate_model_slots live ids =
     (let errors = validate_model_id_list live ids MODE_PANEL in
      if errors \<noteq> [] then Inl errors else Inr (new_slots ids (replicate (length ids) True)))"

section \<open>Moderator overlap\<close>

text \<open>\<^verbatim>\<open>rsplit(':', 1)[0]\<close>: what precedes the last colon, or all of it.\<close>

definition drop_variant :: "string \<Rightarrow> string" where
  "drop_variant m = (if CHR '':'' \<in> set m then rev (tl (dropWhile (\<lambda>c. c \<noteq> CHR '':'') (rev m))) else m)"

definition normalised_model_id :: "string \<Rightarrow> string" where
  "normalised_model_id m =
     (let bare = lower (strip m); vendor = takeWhile (\<lambda>c. c \<noteq> CHR ''/'') bare;
          rest = dropWhile (\<lambda>c. c \<noteq> CHR ''/'') bare
      in if rest = [] then bare else vendor @ ''/'' @ drop_variant (tl rest))"

definition moderator_overlap_slots :: "model_slot list \<Rightarrow> string \<Rightarrow> nat list" where
  "moderator_overlap_slots slots moderator_model_id =
     (let moderator = normalised_model_id moderator_model_id
      in if moderator = [] then []
         else map ms_slot_number (filter (\<lambda>s. normalised_model_id (ms_model_id s) = moderator) slots))"

definition is_unauthenticated_variant :: "string \<Rightarrow> bool" where
  "is_unauthenticated_variant m = (ends_with '':free'' (lower m) \<or> ends_with '':preview'' (lower m))"

section \<open>The selection recorder\<close>

record model_slot_event =
  mv_event_type :: string
  mv_account_id :: uuid
  mv_query_run_id :: uuid
  mv_model_slots :: "(nat \<times> string \<times> bool) list"

definition MAX_SLOT_EVENTS :: nat where "MAX_SLOT_EVENTS = 1024"

definition record_slot_event :: "model_slot_event \<Rightarrow> model_slot_event list \<Rightarrow> model_slot_event list" where
  "record_slot_event e events = (let es = events @ [e] in drop (length es - MAX_SLOT_EVENTS) es)"


section \<open>What validation accepts\<close>

lemma model_id_matches_nonempty: "model_id_matches m \<Longrightarrow> m \<noteq> []"
  by (auto simp: model_id_matches_def id_core_def)

lemma id_errors_none:
  "id_errors known index seen ms = [] \<longleftrightarrow>
     (\<forall>m \<in> set ms. model_id_matches m \<and> m \<in> set known \<and> m \<notin> set seen) \<and> distinct ms"
proof (induction ms arbitrary: index seen)
  case Nil
  show ?case by simp
next
  case (Cons m ms)
  show ?case using Cons.IH model_id_matches_nonempty[of m] by auto
qed

definition panel_ids_ok :: "model_catalog_entry list option \<Rightarrow> run_mode \<Rightarrow> string list \<Rightarrow> bool" where
  "panel_ids_ok live mode ids =
     ((if mode = MODE_QUICK then length ids = 1 else 2 \<le> length ids \<and> length ids \<le> 4)
      \<and> distinct ids \<and> (\<forall>m \<in> set ids. model_id_matches m \<and> m \<in> set (known_ids live)))"

lemma validate_list_none: "validate_model_id_list live ids mode = [] \<longleftrightarrow> panel_ids_ok live mode ids"
  by (auto simp: validate_model_id_list_def id_errors_none panel_ids_ok_def)

lemma validated_iff:
  "validate_model_slots_with_search live ids search mode = Inr slots \<longleftrightarrow>
     panel_ids_ok live mode ids \<and> (\<forall>flags. search = Some flags \<longrightarrow> length flags = length ids)
     \<and> slots = new_slots ids (case search of None \<Rightarrow> replicate (length ids) True | Some flags \<Rightarrow> flags)"
  by (auto simp: validate_model_slots_with_search_def Let_def validate_list_none split: option.split)

lemma new_slots_fields [simp]:
  "length (new_slots ids flags) = length ids"
  "map ms_model_id (new_slots ids flags) = ids"
  "map ms_slot_number (new_slots ids flags) = [1..<Suc (length ids)]"
  by (simp_all add: new_slots_def o_def map_nth map_Suc_upt[symmetric] del: upt_Suc)

text \<open>A run's slot list is accepted exactly when it names one model for a quick answer, or two to four for a
  panel, all different, each a well-formed vendor/model id of the known catalog, with as many search
  flags as models if any are given; the slots are then numbered from one in the request's order.\<close>

theorem slots_accepted_exactly:
  "(\<exists>slots. validate_model_slots_with_search live ids search mode = Inr slots) =
     ((if mode = MODE_QUICK then length ids = 1 else 2 \<le> length ids \<and> length ids \<le> 4)
      \<and> distinct ids \<and> list_all (\<lambda>m. model_id_matches m \<and> m \<in> set (known_ids live)) ids
      \<and> (case search of None \<Rightarrow> True | Some flags \<Rightarrow> length flags = length ids))
   \<and> (validate_model_slots_with_search live ids search mode = Inr slots \<longrightarrow>
        map ms_slot_number slots = [1..<Suc (length ids)] \<and> map ms_model_id slots = ids)"
  by (auto simp: validated_iff panel_ids_ok_def list_all_iff simp del: upt_Suc split: option.split)

lemma slots_accepted_exactly_witness:
  "map ms_slot_number (default_slots None) = [1..<Suc (length DEFAULT_MODEL_IDS)]
   \<and> map ms_model_id (default_slots None) = DEFAULT_MODEL_IDS"
proof -
  have "panel_ids_ok None MODE_PANEL DEFAULT_MODEL_IDS" by code_simp
  then have "validate_model_slots_with_search None DEFAULT_MODEL_IDS None MODE_PANEL = Inr (default_slots None)"
    by (simp add: validated_iff default_slots_def default_model_ids_def)
  with slots_accepted_exactly[of None DEFAULT_MODEL_IDS None MODE_PANEL "default_slots None"] show ?thesis by blast
qed

end
