(* ===== verification/Synthesis_Length.thy ===== *)
theory Synthesis_Length
  imports Py_Strings
begin

text \<open>
  Length discipline of the final synthesis: \<^verbatim>\<open>src/product_app/synthesis_length.py\<close>. A section is cut at
  the last sentence boundary in its budget; a recommendation always carries the decision-support caveat.
\<close>

definition RECOMMENDATION_MAX_CHARS :: nat where "RECOMMENDATION_MAX_CHARS = 2000"

definition CAVEAT_MARKER :: string where "CAVEAT_MARKER = ''decision support only''"

definition ELLIPSIS :: string where "ELLIPSIS = [CHR 0x1A]"   \<comment> \<open>U+2026\<close>

definition FULL_CAVEAT :: string where
  "FULL_CAVEAT = ''This summary is decision support only and is not medical, '' @
     ''legal, financial, safety, or regulated professional advice.''"

text \<open>The end of the last match of \<^verbatim>\<open>[.!?] \<close>.\<close>

definition sentence_ends :: "string \<Rightarrow> nat list" where
  "sentence_ends body =
     map (\<lambda>i. i + 2) (filter (\<lambda>i. body ! i \<in> set ''.!?'' \<and> body ! (i + 1) = CHR '' '') [0..<length body - 1])"

definition truncate_section :: "string \<Rightarrow> nat \<Rightarrow> string" where
  "truncate_section s max_chars =
     (if s = [] then s
      else if length s \<le> max_chars then s
      else
        let budget = max_chars - 1 in
        if budget = 0 then ELLIPSIS
        else
          let body = take budget s; ends = sentence_ends body in
          if ends \<noteq> [] then rstrip (take (List.last ends) body) @ ELLIPSIS
          else rstrip body @ ELLIPSIS)"

definition append_if_missing :: "string \<Rightarrow> string" where
  "append_if_missing s =
     (if contains CAVEAT_MARKER (lower s) then s
      else let stripped = rstrip s
           in if stripped = [] then FULL_CAVEAT else stripped @ '' '' @ FULL_CAVEAT)"

definition truncate_with_caveat_present :: "string \<Rightarrow> string" where
  "truncate_with_caveat_present s =
     (let caveat_idx = (case find_sub CAVEAT_MARKER (lower s) of Some i \<Rightarrow> i | None \<Rightarrow> length s - 1);
          pre_caveat = take caveat_idx s; caveat_onward = drop caveat_idx s
      in if length s \<le> RECOMMENDATION_MAX_CHARS then s
         else
           let body_budget = RECOMMENDATION_MAX_CHARS - length caveat_onward - 4 in
           if body_budget = 0 then rstrip caveat_onward
           else
             let body = rstrip (truncate_section pre_caveat body_budget) in
             if ends_with ELLIPSIS body then body @ ''  '' @ lstrip caveat_onward
             else body @ '' '' @ ELLIPSIS @ ''  '' @ lstrip caveat_onward)"

definition truncate_recommendation :: "string \<Rightarrow> string" where
  "truncate_recommendation s =
     (if s = [] then append_if_missing []
      else if contains CAVEAT_MARKER (lower s) then truncate_with_caveat_present s
      else
        let body_budget = RECOMMENDATION_MAX_CHARS - length FULL_CAVEAT - 1 in
        if body_budget = 0 then FULL_CAVEAT
        else if length s \<le> body_budget then append_if_missing s
        else append_if_missing (truncate_section s body_budget))"

section \<open>Sections\<close>

lemma rstrip_take_prefix: "\<exists>n \<le> length s. rstrip s = take n s"
proof -
  obtain w where "s = rstrip s @ w" using rstrip_split by blast
  then have "rstrip s = take (length (rstrip s)) s" by (metis append_eq_conv_conj)
  then show ?thesis using length_rstrip_le[of s] by blast
qed

lemma truncate_section_prefix:
  "truncate_section s m = s \<and> (length s \<le> m \<or> s = [])
   \<or> (\<exists>n < max m 1. truncate_section s m = take n s @ ELLIPSIS)"
proof (cases "s = [] \<or> length s \<le> m")
  case True
  then show ?thesis by (auto simp: truncate_section_def)
next
  case False
  obtain n where n: "rstrip (take (m - 1) s) = take n (take (m - 1) s)" using rstrip_take_prefix by blast
  let ?l = "List.last (sentence_ends (take (m - 1) s))"
  obtain k where k: "rstrip (take ?l (take (m - 1) s)) = take k (take ?l (take (m - 1) s))"
    using rstrip_take_prefix by blast
  show ?thesis
  proof (cases "m - 1 = 0")
    case True
    with False have "truncate_section s m = take 0 s @ ELLIPSIS" by (simp add: truncate_section_def)
    then show ?thesis by (metis less_max_iff_disj zero_less_one)
  next
    case m: False
    show ?thesis
    proof (cases "sentence_ends (take (m - 1) s) = []")
      case True
      with False m n have "truncate_section s m = take (min n (m - 1)) s @ ELLIPSIS"
        by (simp add: truncate_section_def Let_def min.commute)
      moreover have "min n (m - 1) < max m 1" using m by linarith
      ultimately show ?thesis by blast
    next
      case e: False
      with False m k have "truncate_section s m = take (min k (min ?l (m - 1))) s @ ELLIPSIS"
        by (simp add: truncate_section_def Let_def min.commute min.left_commute)
      moreover have "min k (min ?l (m - 1)) < max m 1" using m by linarith
      ultimately show ?thesis by blast
    qed
  qed
qed

lemma truncate_section_length: "length (truncate_section s m) \<le> max m 1"
  using truncate_section_prefix[of s m] by (auto simp: ELLIPSIS_def)


text \<open>Cutting a section keeps it whole when it fits and otherwise keeps a beginning of it, marked with the
  ellipsis, never longer than its budget (of at least the one character the ellipsis needs).\<close>

theorem section_cut_to_budget:
  "(if s = [] \<or> length s \<le> m then truncate_section s m = s
    else \<exists>n < max m 1. truncate_section s m = take n s @ ELLIPSIS)
   \<and> length (truncate_section s m) \<le> max m 1"
proof -
  have "truncate_section s m = s" if "s = [] \<or> length s \<le> m"
    using that by (auto simp: truncate_section_def)
  then show ?thesis using truncate_section_prefix[of s m] truncate_section_length[of s m] by auto
qed

section \<open>The caveat\<close>

lemma caveat_marked: "contains CAVEAT_MARKER (lower FULL_CAVEAT)"
  by code_simp

lemma caveat_length: "length FULL_CAVEAT = 117"
  by code_simp

lemma append_if_missing_marked: "contains CAVEAT_MARKER (lower (append_if_missing s))"
  using contains_append[OF caveat_marked, of "lower (rstrip s) @ '' ''" "[]"] caveat_marked
  by (auto simp: append_if_missing_def Let_def lower_def lower_char_def code_def)

lemma append_if_missing_length: "length (append_if_missing s) \<le> max (length s) (length (rstrip s) + 118)"
  by (auto simp: append_if_missing_def Let_def caveat_length)

lemma caveat_onward:
  assumes "find_sub CAVEAT_MARKER (lower s) = Some i"
  obtains u v where "drop i s = u @ v" "lower u = CAVEAT_MARKER" "rstrip (u @ v) = u @ rstrip v" "lstrip (u @ v) = u @ v"
proof -
  obtain u v where u: "drop i s = u @ v" "lower u = CAVEAT_MARKER" using find_lower[OF assms] by blast
  have n: "u \<noteq> []" using u(2) by (auto simp: CAVEAT_MARKER_def lower_def)
  have "is_space (List.last u) = is_space (List.last (lower u))" "is_space (hd u) = is_space (hd (lower u))"
    using n by (simp_all add: lower_def last_map hd_map)
  then have "\<not> is_space (List.last u)" "\<not> is_space (hd u)"
    by (simp_all add: u(2) CAVEAT_MARKER_def is_space_def code_def)
  then show ?thesis using that[OF u rstrip_keeps lstrip_keeps] n by blast
qed

lemma present_marked_and_bounded:
  assumes i: "find_sub CAVEAT_MARKER (lower s) = Some i"
  shows "contains CAVEAT_MARKER (lower (truncate_with_caveat_present s))
    \<and> length (truncate_with_caveat_present s) \<le> max RECOMMENDATION_MAX_CHARS (length s - i)"
proof -
  obtain u v where u: "drop i s = u @ v" "lower u = CAVEAT_MARKER" "rstrip (u @ v) = u @ rstrip v" "lstrip (u @ v) = u @ v"
    by (rule caveat_onward[OF i])
  let ?b = "2000 - length (u @ v) - 4"
  let ?body = "rstrip (truncate_section (take i s) ?b)"
  have s: "contains CAVEAT_MARKER (lower s)" using i by (simp add: contains_def)
  have m: "contains CAVEAT_MARKER (lower (w @ u @ x))" for w x
    using contains_append[OF starts_contains[of CAVEAT_MARKER "lower x"], of "lower w" "[]"] by (simp add: u(2))
  have b: "?b \<noteq> 0 \<Longrightarrow> length ?body \<le> ?b"
    using order_trans[OF length_rstrip_le truncate_section_length[of "take i s" ?b]] by simp
  have len: "length s - i = length u + length v"
    using arg_cong[OF u(1), of length] by simp
  consider "length s \<le> 2000" | "length s > 2000" "?b = 0" | "length s > 2000" "?b \<noteq> 0" "ends_with ELLIPSIS ?body"
    | "length s > 2000" "?b \<noteq> 0" "\<not> ends_with ELLIPSIS ?body" by linarith
  then show ?thesis
  proof cases
    case 1
    then show ?thesis using s by (simp add: truncate_with_caveat_present_def i Let_def RECOMMENDATION_MAX_CHARS_def)
  next
    case 2
    then have "truncate_with_caveat_present s = u @ rstrip v"
      using u by (simp add: truncate_with_caveat_present_def i Let_def RECOMMENDATION_MAX_CHARS_def len)
    then show ?thesis using m[of "[]" "rstrip v"] len length_rstrip_le[of v] by simp
  next
    case 3
    then have "truncate_with_caveat_present s = (?body @ ''  '') @ u @ v"
      using u by (simp add: truncate_with_caveat_present_def i Let_def RECOMMENDATION_MAX_CHARS_def len)
    then show ?thesis using m[of "?body @ ''  ''" v] b 3 by (simp add: RECOMMENDATION_MAX_CHARS_def)
  next
    case 4
    then have "truncate_with_caveat_present s = (?body @ '' '' @ ELLIPSIS @ ''  '') @ u @ v"
      using u by (simp add: truncate_with_caveat_present_def i Let_def RECOMMENDATION_MAX_CHARS_def len)
    then show ?thesis using m[of "?body @ '' '' @ ELLIPSIS @ ''  ''" v] b 4 by (simp add: RECOMMENDATION_MAX_CHARS_def ELLIPSIS_def)
  qed
qed

text \<open>The mandatory caveat survives every cut: whatever the model wrote, the recommendation that is shown
  contains the decision-support marker, and its length is at most 2000 characters, or what the text holds
  from its own marker on when that alone is longer.\<close>

theorem recommendation_keeps_caveat:
  "contains CAVEAT_MARKER (lower (truncate_recommendation s))
   \<and> length (truncate_recommendation s) \<le>
       (case find_sub CAVEAT_MARKER (lower s) of None \<Rightarrow> 2000 | Some i \<Rightarrow> max 2000 (length s - i))"
proof (cases "find_sub CAVEAT_MARKER (lower s)")
  case (Some i)
  then have "s \<noteq> []" by (auto simp: lower_def CAVEAT_MARKER_def)
  then show ?thesis using Some present_marked_and_bounded[OF Some]
    by (simp add: truncate_recommendation_def contains_def RECOMMENDATION_MAX_CHARS_def)
next
  case None
  have short: "length (append_if_missing x) \<le> 2000" if "length x \<le> 1882" for x
    using append_if_missing_length[of x] length_rstrip_le[of x] that by linarith
  have "length (truncate_recommendation s) \<le> 2000"
    using None truncate_section_length[of s 1882] short[of "[]"] short[of s] short[of "truncate_section s 1882"]
    by (simp add: truncate_recommendation_def contains_def Let_def RECOMMENDATION_MAX_CHARS_def caveat_length)
  moreover have "contains CAVEAT_MARKER (lower (truncate_recommendation s))"
    using None append_if_missing_marked by (auto simp: truncate_recommendation_def contains_def RECOMMENDATION_MAX_CHARS_def caveat_length Let_def)
  ultimately show ?thesis by (simp add: None)
qed

text \<open>The 2000-character cap is not a guarantee: a recommendation that opens with the marker is returned at
  any length.\<close>

theorem recommendation_can_exceed_cap:
  "\<exists>s. length (truncate_recommendation s) > 2000 + n"
proof -
  define s where "s = CAVEAT_MARKER @ replicate (2000 + n) (CHR ''x'')"
  have "starts_with CAVEAT_MARKER (lower s)"
    by (simp add: s_def starts_with_def lower_def CAVEAT_MARKER_def lower_char_def code_def)
  moreover have "lower s \<noteq> []" by (simp add: s_def CAVEAT_MARKER_def lower_def)
  ultimately have f: "find_sub CAVEAT_MARKER (lower s) = Some 0" by (cases "lower s") simp_all
  have r: "rstrip s = s"
    by (simp add: s_def rstrip_def CAVEAT_MARKER_def is_space_def code_def)
  have "length s > 2000 + n" "s \<noteq> []" by (simp_all add: s_def CAVEAT_MARKER_def)
  moreover have "truncate_recommendation s = s"
    using calculation
    by (simp add: truncate_recommendation_def contains_def f truncate_with_caveat_present_def r Let_def
        RECOMMENDATION_MAX_CHARS_def)
  ultimately have "length (truncate_recommendation s) > 2000 + n" by simp
  then show ?thesis by blast
qed

end
