(* ===== verification/Safety.thy ===== *)
theory Safety
  imports Domain Synthesis_Length
begin

text \<open>
  The safety warnings of \<^verbatim>\<open>src/product_app/safety.py\<close>: which warnings a query must acknowledge, the
  scan of the query and its follow-up context for high-stakes wording with the program's own caveat taken
  out first, and the acknowledgement check. The two regular expressions are written out as the matchers
  they are: every alternative and every token consists of word characters, so no match ever backtracks.
\<close>

section \<open>High-stakes wording\<close>

definition HIGH_STAKES_WORDS :: "string list" where
  "HIGH_STAKES_WORDS = [''diagnosis'', ''medical'', ''medicine'', ''doctor'', ''lawyer'', ''legal'', ''lawsuit'',
     ''contract'', ''tax'', ''investment'', ''financial'', ''loan'', ''insurance'', ''safety'', ''hazard'',
     ''regulated'', ''compliance'']"

text \<open>\<^verbatim>\<open>\b\<close> after a word character and before the rest \<open>s\<close>.\<close>

definition at_word_end :: "string \<Rightarrow> bool" where
  "at_word_end s = (case s of [] \<Rightarrow> True | c # cs \<Rightarrow> \<not> is_word c)"

definition word_matches :: "string \<Rightarrow> string \<Rightarrow> bool" where
  "word_matches s w = (starts_with w (lower s) \<and> at_word_end (drop (length w) s))"

text \<open>\<^verbatim>\<open>HIGH_STAKES_PATTERN.search\<close>: the first position preceded by no word character where a word matches.\<close>

fun search_from :: "bool \<Rightarrow> string \<Rightarrow> bool" where
  "search_from after_word [] = False"
| "search_from after_word (c # cs) =
     ((\<not> after_word \<and> list_ex (word_matches (c # cs)) HIGH_STAKES_WORDS) \<or> search_from (is_word c) cs)"

definition high_stakes_search :: "string \<Rightarrow> bool" where "high_stakes_search s = search_from False s"

section \<open>The program's own caveat\<close>

definition is_sep :: "char \<Rightarrow> bool" where "is_sep c = (is_space c \<or> c = CHR '','')"

definition CAVEAT_OPENING :: "string list" where "CAVEAT_OPENING = [''this'', ''summary'', ''is'']"

definition CAVEAT_WORDS :: "string list" where
  "CAVEAT_WORDS = [''decision'', ''support'', ''only'', ''and'', ''is'', ''not'', ''medical'', ''legal'', ''financial'',
     ''safety'', ''or'', ''regulated'', ''professional'', ''advice'']"

text \<open>Literal tokens joined by \<^verbatim>\<open>[\s,]+\<close>, case ignored; the rest of the text after them.\<close>

fun match_tokens :: "string list \<Rightarrow> string \<Rightarrow> string option" where
  "match_tokens [] s = Some s"
| "match_tokens [w] s = (if starts_with w (lower s) then Some (drop (length w) s) else None)"
| "match_tokens (w # v # ws) s =
     (if starts_with w (lower s)
      then let r = drop (length w) s
           in if r \<noteq> [] \<and> is_sep (hd r) then match_tokens (v # ws) (dropWhile is_sep r) else None
      else None)"

text \<open>\<^verbatim>\<open>[\s,]*\.\<close>\<close>

definition match_stop :: "string \<Rightarrow> string option" where
  "match_stop s = (case dropWhile is_sep s of [] \<Rightarrow> None | c # cs \<Rightarrow> if c = CHR ''.'' then Some cs else None)"

definition match_sentence :: "string list \<Rightarrow> string \<Rightarrow> string option" where
  "match_sentence ws s = (case match_tokens ws s of None \<Rightarrow> None | Some r \<Rightarrow> match_stop r)"

definition match_caveat :: "string \<Rightarrow> string option" where
  "match_caveat s =
     (case match_sentence (CAVEAT_OPENING @ CAVEAT_WORDS) s of
        Some r \<Rightarrow> Some r
      | None \<Rightarrow> match_sentence CAVEAT_WORDS s)"

lemma match_tokens_length: "match_tokens ws s = Some r \<Longrightarrow> length r \<le> length s"
proof (induction ws s rule: match_tokens.induct)
  case (3 w v ws s)
  then have "length r \<le> length (dropWhile is_sep (drop (length w) s))" by (auto simp: Let_def split: if_splits)
  also have "\<dots> \<le> length s" using length_dropWhile_le[of is_sep "drop (length w) s"] by simp
  finally show ?case .
qed (auto split: if_splits)

lemma match_stop_length: "match_stop s = Some r \<Longrightarrow> length r < length s"
  using length_dropWhile_le[of is_sep s] by (auto simp: match_stop_def split: list.splits if_splits)

lemma match_caveat_length: "match_caveat s = Some r \<Longrightarrow> length r < length s"
  by (auto simp: match_caveat_def match_sentence_def split: option.splits
      dest!: match_stop_length match_tokens_length)

text \<open>\<^verbatim>\<open>_OWN_CAVEAT_PATTERN.sub(" ", text)\<close>\<close>

function strip_own_caveat :: "string \<Rightarrow> string" where
  "strip_own_caveat [] = []"
| "strip_own_caveat (c # cs) =
     (case match_caveat (c # cs) of
        Some r \<Rightarrow> CHR '' '' # strip_own_caveat r
      | None \<Rightarrow> c # strip_own_caveat cs)"
  by pat_completeness auto

termination
  by (relation "measure length") (auto dest: match_caveat_length)

section \<open>Warnings\<close>

datatype warning_type = SENSITIVE_DATA | HIGH_STAKES

definition WARNING_VERSION :: string where "WARNING_VERSION = ''2026-06-17''"

fun WARNING_COPY :: "warning_type \<Rightarrow> string" where
  "WARNING_COPY SENSITIVE_DATA = ''Do not include sensitive personal data, credentials, or regulated '' @
     ''business data in your prompt. The output is logged for audit and may '' @ ''be reviewed by humans.''"
| "WARNING_COPY HIGH_STAKES = ''Your query mentions a high-stakes topic. The output is decision '' @
     ''support only and is not medical, legal, financial, safety, or '' @
     ''regulated professional advice. A human reviewer must audit it '' @ ''before any action.''"

record safety_warning =
  sw_warning_type :: warning_type
  sw_version :: string
  sw_message :: string
  sw_acknowledgement_required :: bool

record safety_acknowledgement =
  sk_warning_type :: warning_type
  sk_version :: string

definition warning_for :: "warning_type \<Rightarrow> safety_warning" where
  "warning_for t = \<lparr>sw_warning_type = t, sw_version = WARNING_VERSION, sw_message = WARNING_COPY t,
     sw_acknowledgement_required = True\<rparr>"

text \<open>A context value that is null, or empty, carries no wording.\<close>

definition scannable_text :: "string \<Rightarrow> context_map option \<Rightarrow> string" where
  "scannable_text query ctx =
     (case ctx of
        None \<Rightarrow> query
      | Some values \<Rightarrow>
          join [CHR 0x0A] (query # map strip_own_caveat
            (filter (\<lambda>v. v \<noteq> []) (concat (map (\<lambda>(k, v). case v of None \<Rightarrow> [] | Some x \<Rightarrow> [x]) values)))))"

definition required_warnings_for_query :: "string \<Rightarrow> context_map option \<Rightarrow> safety_warning list" where
  "required_warnings_for_query query ctx =
     warning_for SENSITIVE_DATA #
     (if high_stakes_search (scannable_text query ctx) then [warning_for HIGH_STAKES] else [])"

text \<open>The dict comprehension keeps the last acknowledgement of a type.\<close>

definition missing_acknowledgements ::
  "safety_warning list \<Rightarrow> safety_acknowledgement list \<Rightarrow> safety_warning list" where
  "missing_acknowledgements required acks =
     (let by_type = map_of (rev (map (\<lambda>a. (sk_warning_type a, a)) acks))
      in filter (\<lambda>w. case by_type (sw_warning_type w) of None \<Rightarrow> True | Some a \<Rightarrow> sk_version a \<noteq> sw_version w)
           required)"

section \<open>The warning recorder\<close>

record warning_event =
  we_event_type :: string
  we_account_id :: uuid
  we_query_run_id :: "uuid option"
  we_warning_type :: warning_type
  we_warning_version :: string
  we_acknowledged :: bool
  we_warning_types :: "warning_type list"

definition MAX_WARNING_EVENTS :: nat where "MAX_WARNING_EVENTS = 1024"

definition record_warning_event :: "warning_event \<Rightarrow> warning_event list \<Rightarrow> warning_event list" where
  "record_warning_event e events = (let es = events @ [e] in drop (length es - MAX_WARNING_EVENTS) es)"

definition record_warning_impression ::
  "uuid \<Rightarrow> uuid option \<Rightarrow> safety_warning list \<Rightarrow> warning_event list \<Rightarrow> warning_event list" where
  "record_warning_impression account run warnings events =
     foldl (\<lambda>es w. record_warning_event \<lparr>we_event_type = ''safety_warning_impression'', we_account_id = account,
         we_query_run_id = run, we_warning_type = sw_warning_type w, we_warning_version = sw_version w,
         we_acknowledged = False, we_warning_types = []\<rparr> es) events warnings"

text \<open>The acknowledged types in the order of their names.\<close>

definition record_acknowledgement ::
  "uuid \<Rightarrow> uuid option \<Rightarrow> safety_acknowledgement list \<Rightarrow> warning_event list \<Rightarrow> warning_event list" where
  "record_acknowledgement account run acks events =
     (case acks of
        [] \<Rightarrow> events
      | primary # _ \<Rightarrow> record_warning_event \<lparr>we_event_type = ''safety_acknowledgement_recorded'',
          we_account_id = account, we_query_run_id = run, we_warning_type = sk_warning_type primary,
          we_warning_version = sk_version primary, we_acknowledged = True,
          we_warning_types = filter (\<lambda>t. t \<in> sk_warning_type ` set acks) [HIGH_STAKES, SENSITIVE_DATA]\<rparr> events)"

section \<open>The scan finds exactly the listed words\<close>

text \<open>The reference: a text's words are its maximal runs of word characters.\<close>

function words_of :: "string \<Rightarrow> string list" where
  "words_of s =
     (let t = dropWhile (\<lambda>c. \<not> is_word c) s
      in if t = [] then [] else takeWhile is_word t # words_of (dropWhile is_word t))"
  by pat_completeness auto

termination
proof (relation "measure length")
  fix s and t :: string
  assume t: "t = dropWhile (\<lambda>c. \<not> is_word c) s" "t \<noteq> []"
  then have "is_word (hd t)" using hd_dropWhile by blast
  with t(2) have "length (dropWhile is_word t) < length t"
    by (cases t) (simp_all add: less_Suc_eq_le length_dropWhile_le)
  also have "\<dots> \<le> length s" using t(1) by (simp add: length_dropWhile_le)
  finally show "(dropWhile is_word t, s) \<in> measure length" by simp
qed simp

declare words_of.simps [simp del]

lemma words_of_Nil [simp]: "words_of [] = []"
  by (subst words_of.simps) simp

lemma words_of_other [simp]: "\<not> is_word c \<Longrightarrow> words_of (c # s) = words_of s"
  by (subst (1 2) words_of.simps) simp

lemma words_of_word: "is_word c \<Longrightarrow> words_of (c # s) = (c # takeWhile is_word s) # words_of (dropWhile is_word s)"
  by (subst words_of.simps) simp

lemma is_word_lower [simp]: "is_word (lower_char c) = is_word c"
proof -
  have "code c < 256" by (simp add: code_def)
  then show ?thesis by (auto simp: lower_char_def is_word_def is_digit_def is_ascii_letter_def code_def)
qed

lemma stakes_words: "list_all (\<lambda>w. w \<noteq> [] \<and> list_all is_word w) HIGH_STAKES_WORDS"
  by code_simp

lemma word_matches_iff:
  assumes "list_all is_word w"
  shows "word_matches s w \<longleftrightarrow> lower (takeWhile is_word s) = w"
proof
  assume m: "word_matches s w"
  then have l: "take (length w) (lower s) = w" and e: "at_word_end (drop (length w) s)"
    by (auto simp: word_matches_def starts_with_def)
  let ?u = "take (length w) s"
  have u: "lower ?u = w" using l by (simp add: lower_take)
  have "list_all is_word (lower ?u)" using assms unfolding u .
  then have "list_all is_word ?u" unfolding lower_def list.pred_map o_def is_word_lower .
  moreover have "takeWhile is_word (drop (length w) s) = []"
    using e by (simp add: at_word_end_def split: list.splits)
  moreover have "takeWhile is_word (?u @ drop (length w) s) = ?u @ takeWhile is_word (drop (length w) s)"
    using calculation(1) unfolding list_all_iff by (rule takeWhile_append2[OF bspec])
  ultimately have "takeWhile is_word (?u @ drop (length w) s) = ?u" by (simp only: append_Nil2)
  then show "lower (takeWhile is_word s) = w" using u by simp
next
  assume u: "lower (takeWhile is_word s) = w"
  then have n: "length w = length (takeWhile is_word s)" by (metis length_lower)
  have s: "s = takeWhile is_word s @ dropWhile is_word s" by simp
  have "take (length w) (lower s) = w"
    by (metis u n s lower_take takeWhile_eq_take)
  moreover have "drop (length w) s = dropWhile is_word s"
    by (simp add: n dropWhile_eq_drop)
  moreover have "at_word_end (dropWhile is_word s)"
    by (auto simp: at_word_end_def dropWhile_eq_Cons_conv split: list.split)
  ultimately show "word_matches s w" by (simp add: word_matches_def starts_with_def)
qed

lemma search_after_word: "search_from True s = search_from False (dropWhile is_word s)"
proof (induction s)
  case Nil
  show ?case by simp
next
  case (Cons c s)
  show ?case
  proof (cases "is_word c")
    case False
    have "word_matches (c # s) w = (w = [])" if "list_all is_word w" for w
      using word_matches_iff[OF that, of "c # s"] False by (auto simp: lower_def)
    then have "\<not> list_ex (word_matches (c # s)) HIGH_STAKES_WORDS"
      using stakes_words by (auto simp: list_ex_iff list_all_iff)
    then show ?thesis using False by simp
  qed (simp add: Cons.IH)
qed

lemma search_finds_words:
  "search_from False s \<longleftrightarrow> (\<exists>w \<in> set (words_of s). lower w \<in> set HIGH_STAKES_WORDS)"
proof (induction s rule: length_induct)
  case (1 s)
  have m: "list_ex (word_matches t) HIGH_STAKES_WORDS \<longleftrightarrow> lower (takeWhile is_word t) \<in> set HIGH_STAKES_WORDS" for t
    using stakes_words word_matches_iff by (auto simp: list_ex_iff list_all_iff)
  show ?case
  proof (cases s)
    case (Cons c cs)
    show ?thesis
    proof (cases "is_word c")
      case True
      have "length (dropWhile is_word cs) < length s" by (simp add: Cons less_Suc_eq_le length_dropWhile_le)
      with 1 True show ?thesis by (simp add: Cons m search_after_word words_of_word)
    next
      case False
      have "[] \<notin> set HIGH_STAKES_WORDS" using stakes_words by (auto simp: list_all_iff)
      with 1 False show ?thesis by (simp add: Cons m lower_def)
    qed
  qed simp
qed


lemma words_of_newline: "words_of (a @ CHR 0x0A # b) = words_of a @ words_of b"
proof (induction a rule: length_induct)
  case (1 a)
  have nl: "\<not> is_word (CHR 0x0A)" by (simp add: char_eval)
  show ?case
  proof (cases a)
    case Nil
    then show ?thesis using nl by simp
  next
    case (Cons c cs)
    show ?thesis
    proof (cases "is_word c")
      case True
      have t: "takeWhile is_word (cs @ CHR 0x0A # b) = takeWhile is_word cs"
        "dropWhile is_word (cs @ CHR 0x0A # b) = dropWhile is_word cs @ CHR 0x0A # b"
        using nl by (induction cs) simp_all
      have "length (dropWhile is_word cs) < length a" by (simp add: Cons less_Suc_eq_le length_dropWhile_le)
      with 1 True show ?thesis by (simp add: Cons words_of_word t)
    qed (use 1 Cons in simp)
  qed
qed

lemma words_of_join: "words_of (join [CHR 0x0A] parts) = concat (map words_of parts)"
  by (induction "[CHR 0x0A] :: string" parts rule: join.induct) (simp_all add: words_of_newline)

definition context_values :: "context_map option \<Rightarrow> string list" where
  "context_values ctx = (case ctx of None \<Rightarrow> [] | Some values \<Rightarrow>
     filter (\<lambda>v. v \<noteq> []) (concat (map (\<lambda>(k, v). case v of None \<Rightarrow> [] | Some x \<Rightarrow> [x]) values)))"

text \<open>The scan for high-stakes wording agrees with its specification: the acknowledgement is required exactly
  when one of the seventeen words occurs, in any case, as a whole word of the question or of a follow-up value
  outside the program's own caveat.\<close>

theorem high_stakes_required_exactly:
  "(warning_for HIGH_STAKES \<in> set (required_warnings_for_query query ctx)) =
     (\<exists>part \<in> set (query # map strip_own_caveat (context_values ctx)).
        \<exists>w \<in> set (words_of part). lower w \<in> set HIGH_STAKES_WORDS)"
proof -
  have "words_of (scannable_text query ctx) = concat (map words_of (query # map strip_own_caveat (context_values ctx)))"
    by (cases ctx) (simp_all only: scannable_text_def context_values_def option.case words_of_join list.map concat.simps append_Nil2)
  then have "high_stakes_search (scannable_text query ctx) =
      (\<exists>part \<in> set (query # map strip_own_caveat (context_values ctx)). \<exists>w \<in> set (words_of part). lower w \<in> set HIGH_STAKES_WORDS)"
    unfolding high_stakes_search_def search_finds_words by (simp only: set_concat set_map) blast
  then show ?thesis by (simp add: required_warnings_for_query_def warning_for_def)
qed

section \<open>Only the caveat's own words are removed\<close>

text \<open>A caveat sentence: its words, in any case, separated by blanks and commas, up to the full stop.\<close>

function sep_words :: "string \<Rightarrow> string list" where
  "sep_words s =
     (let t = dropWhile is_sep s
      in if t = [] then [] else takeWhile (\<lambda>c. \<not> is_sep c) t # sep_words (dropWhile (\<lambda>c. \<not> is_sep c) t))"
  by pat_completeness auto

termination
proof (relation "measure length")
  fix s and t :: string
  assume t: "t = dropWhile is_sep s" "t \<noteq> []"
  then have "\<not> is_sep (hd t)" using hd_dropWhile by blast
  with t(2) have "length (dropWhile (\<lambda>c. \<not> is_sep c) t) < length t"
    by (cases t) (simp_all add: less_Suc_eq_le length_dropWhile_le)
  also have "\<dots> \<le> length s" using t(1) by (simp add: length_dropWhile_le)
  finally show "(dropWhile (\<lambda>c. \<not> is_sep c) t, s) \<in> measure length" by simp
qed simp

declare sep_words.simps [simp del]

definition caveat_sentence :: "string \<Rightarrow> bool" where
  "caveat_sentence u =
     (u \<noteq> [] \<and> List.last u = CHR ''.''
      \<and> map lower (sep_words (butlast u)) \<in> {CAVEAT_WORDS, CAVEAT_OPENING @ CAVEAT_WORDS})"

text \<open>What a redaction may do to a text: keep a character, or put a blank for a caveat sentence.\<close>

inductive redacts :: "string \<Rightarrow> string \<Rightarrow> bool" where
  none: "redacts [] []"
| keep: "redacts s t \<Longrightarrow> redacts (c # s) (c # t)"
| caveat: "caveat_sentence u \<Longrightarrow> redacts s t \<Longrightarrow> redacts (u @ s) (CHR '' '' # t)"

inductive_cases redacts_NilE: "redacts [] t"

lemma sep_words_Nil [simp]: "sep_words [] = []"
  by (subst sep_words.simps) simp

lemma sep_words_sep: "is_sep c \<Longrightarrow> sep_words (c # s) = sep_words s"
  by (subst (1 2) sep_words.simps) simp

lemma sep_words_seps: "\<forall>c \<in> set u. is_sep c \<Longrightarrow> sep_words (u @ s) = sep_words s"
  by (induction u) (simp_all add: sep_words_sep)

lemma sep_words_word:
  assumes "w \<noteq> []" and "\<forall>c \<in> set w. \<not> is_sep c" and "s = [] \<or> is_sep (hd s)"
  shows "sep_words (w @ s) = w # sep_words s"
proof -
  obtain c w' where w: "w = c # w'" using assms(1) by (cases w) auto
  have d: "dropWhile is_sep (w @ s) = w @ s" using assms(2) by (simp add: w)
  have t: "takeWhile (\<lambda>c. \<not> is_sep c) (w @ s) = w" "dropWhile (\<lambda>c. \<not> is_sep c) (w @ s) = s"
    using assms(2,3) by (cases s; simp add: takeWhile_append dropWhile_append)+
  show ?thesis by (subst sep_words.simps) (simp add: d t Let_def assms(1))
qed

lemma is_sep_lower [simp]: "is_sep (lower_char c) = is_sep c"
proof -
  have comma: "d = CHR '','' \<longleftrightarrow> code d = 44" for d
    using of_char_eq_iff[of d "CHR '',''", where 'a = nat] by (simp add: code_def)
  have "code c < 256" by (simp add: code_def)
  then have "lower_char c = CHR '','' \<longleftrightarrow> c = CHR '',''"
    unfolding comma by (auto simp: lower_char_def code_def)
  then show ?thesis by (simp add: is_sep_def)
qed


definition tokens_ok :: "string list \<Rightarrow> bool" where
  "tokens_ok ws = list_all (\<lambda>w. w \<noteq> [] \<and> list_all (\<lambda>c. \<not> is_sep c) w) ws"

lemma caveat_tokens_ok: "tokens_ok CAVEAT_WORDS" "tokens_ok (CAVEAT_OPENING @ CAVEAT_WORDS)"
  by code_simp+

lemma token_prefix:
  assumes "starts_with w (lower s)" and "list_all (\<lambda>c. \<not> is_sep c) w"
  shows "s = take (length w) s @ drop (length w) s" and "lower (take (length w) s) = w"
    and "\<forall>c \<in> set (take (length w) s). \<not> is_sep c"
proof -
  show l: "lower (take (length w) s) = w" using assms(1) by (simp add: starts_with_def lower_take)
  have "\<forall>c \<in> set (lower (take (length w) s)). \<not> is_sep c" using assms(2) unfolding l list_all_iff .
  then show "\<forall>c \<in> set (take (length w) s). \<not> is_sep c" by (simp add: lower_def)
qed simp

lemma match_tokens_split:
  "match_tokens ws s = Some r \<Longrightarrow> ws \<noteq> [] \<Longrightarrow> tokens_ok ws \<Longrightarrow>
   \<exists>u. s = u @ r \<and> (\<forall>x. (x = [] \<or> is_sep (hd x)) \<longrightarrow> map lower (sep_words (u @ x)) = ws @ map lower (sep_words x))"
proof (induction ws s arbitrary: r rule: match_tokens.induct)
  case (1 s)
  then show ?case by simp
next
  case (2 w s)
  then have w: "starts_with w (lower s)" "r = drop (length w) s" "w \<noteq> []" "list_all (\<lambda>c. \<not> is_sep c) w"
    by (auto simp: tokens_ok_def split: if_splits)
  note p = token_prefix[OF w(1,4)]
  have "take (length w) s \<noteq> []" using p(2) w(3) by (auto simp: lower_def)
  then have "\<forall>x. (x = [] \<or> is_sep (hd x)) \<longrightarrow>
      map lower (sep_words (take (length w) s @ x)) = [w] @ map lower (sep_words x)"
    using sep_words_word[OF _ p(3)] p(2) by simp
  then show ?case using p(1) w(2) by metis
next
  case (3 w v ws s)
  let ?u = "take (length w) s" and ?d = "drop (length w) s"
  from 3(2,4) have w: "starts_with w (lower s)" "w \<noteq> []" "list_all (\<lambda>c. \<not> is_sep c) w" "tokens_ok (v # ws)"
    and d: "?d \<noteq> []" "is_sep (hd ?d)" and m: "match_tokens (v # ws) (dropWhile is_sep ?d) = Some r"
    by (auto simp: tokens_ok_def Let_def split: if_splits)
  obtain u2 where u2: "dropWhile is_sep ?d = u2 @ r"
    "\<forall>x. (x = [] \<or> is_sep (hd x)) \<longrightarrow> map lower (sep_words (u2 @ x)) = (v # ws) @ map lower (sep_words x)"
    using 3(1)[OF w(1) refl] d m w(4) by blast
  note p = token_prefix[OF w(1,3)]
  have n: "?u \<noteq> []" using p(2) w(2) by (auto simp: lower_def)
  let ?q = "takeWhile is_sep ?d"
  have q: "?q \<noteq> []" "\<forall>c \<in> set ?q. is_sep c" using d by (cases ?d; auto dest: set_takeWhileD)+
  have "s = (?u @ ?q @ u2) @ r" using p(1) u2(1) by (metis append.assoc takeWhile_dropWhile_id)
  moreover have "map lower (sep_words ((?u @ ?q @ u2) @ x)) = (w # v # ws) @ map lower (sep_words x)"
    if "x = [] \<or> is_sep (hd x)" for x
  proof -
    have "is_sep (hd (?q @ u2 @ x))" using q by (cases ?q) auto
    then have "sep_words (?u @ ?q @ u2 @ x) = ?u # sep_words (u2 @ x)"
      using sep_words_word[OF n p(3), of "?q @ u2 @ x"] sep_words_seps[OF q(2), of "u2 @ x"] by simp
    then show ?thesis using u2(2)[rule_format, OF that] p(2) by simp
  qed
  ultimately show ?case by blast
qed

lemma match_sentence_split:
  assumes "match_sentence ws s = Some r" and "ws \<noteq> []" and "tokens_ok ws"
  shows "\<exists>u. s = u @ r \<and> u \<noteq> [] \<and> List.last u = CHR ''.'' \<and> map lower (sep_words (butlast u)) = ws"
proof -
  obtain t where t: "match_tokens ws s = Some t" "match_stop t = Some r"
    using assms(1) by (auto simp: match_sentence_def split: option.splits)
  obtain u where u: "s = u @ t"
    "\<forall>x. (x = [] \<or> is_sep (hd x)) \<longrightarrow> map lower (sep_words (u @ x)) = ws @ map lower (sep_words x)"
    using match_tokens_split[OF t(1) assms(2,3)] by blast
  let ?q = "takeWhile is_sep t"
  have d: "dropWhile is_sep t = CHR ''.'' # r" using t(2) by (auto simp: match_stop_def split: list.splits if_splits)
  then have s: "s = (u @ ?q @ [CHR ''.'']) @ r" using u(1) by (metis append.assoc append_Cons append_Nil takeWhile_dropWhile_id)
  have seps: "\<forall>c \<in> set ?q. is_sep c" by (auto dest: set_takeWhileD)
  then have "sep_words ?q = []" using sep_words_seps[of ?q "[]"] by simp
  moreover have "?q = [] \<or> is_sep (hd ?q)" using seps by (cases ?q) auto
  ultimately have "map lower (sep_words (u @ ?q)) = ws" using u(2)[rule_format, of ?q] by simp
  then show ?thesis
    by (intro exI[of _ "u @ ?q @ [CHR ''.'']"] conjI s) (simp_all add: butlast_append)
qed

lemma match_caveat_split: "match_caveat s = Some r \<Longrightarrow> \<exists>u. s = u @ r \<and> caveat_sentence u"
proof -
  assume m: "match_caveat s = Some r"
  have ne: "CAVEAT_WORDS \<noteq> []" "CAVEAT_OPENING @ CAVEAT_WORDS \<noteq> []" by (simp_all add: CAVEAT_WORDS_def)
  from m consider "match_sentence (CAVEAT_OPENING @ CAVEAT_WORDS) s = Some r" | "match_sentence CAVEAT_WORDS s = Some r"
    by (auto simp: match_caveat_def split: option.splits)
  then show ?thesis
    using match_sentence_split[OF _ ne(1) caveat_tokens_ok(1)] match_sentence_split[OF _ ne(2) caveat_tokens_ok(2)]
    by cases (fastforce simp: caveat_sentence_def)+
qed

text \<open>Taking the program's own caveat out of a follow-up can delete nothing else: what is scanned is the text
  with some whole caveat sentences, word for word, replaced by a blank and every other character kept in
  place, so wording put next to or inside a caveat is still scanned.\<close>

theorem strip_removes_only_caveats: "redacts s (strip_own_caveat s)"
proof (induction s rule: strip_own_caveat.induct)
  case 1
  show ?case by (simp add: redacts.none)
next
  case (2 c cs)
  show ?case
  proof (cases "match_caveat (c # cs)")
    case None
    then show ?thesis using 2(1) by (simp add: redacts.keep)
  next
    case (Some r)
    then obtain u where u: "c # cs = u @ r" "caveat_sentence u" using match_caveat_split by blast
    have "strip_own_caveat (c # cs) = CHR '' '' # strip_own_caveat r" using Some by simp
    then show ?thesis using redacts.caveat[OF u(2) 2(2)[OF Some]] u(1) by metis
  qed
qed

lemma last_of_type: "map_of (rev (map (\<lambda>a. (f a, a)) xs)) t = find (\<lambda>a. f a = t) (rev xs)"
proof -
  have "map_of (map (\<lambda>a. (f a, a)) ys) t = find (\<lambda>a. f a = t) ys" for ys by (induction ys) auto
  then show ?thesis by (simp add: rev_map)
qed

lemma none_missing:
  "missing_acknowledgements required acks = [] \<longleftrightarrow>
     (\<forall>w \<in> set required. \<exists>a. find (\<lambda>a. sk_warning_type a = sw_warning_type w) (rev acks) = Some a
        \<and> sk_version a = sw_version w)"
  by (auto simp: missing_acknowledgements_def Let_def filter_empty_conv last_of_type split: option.split)

end
