(* ===== verification/Admission.thy ===== *)
theory Admission
  imports Cost_Guard Pipeline Rate_Limit Model_Slots Safety
begin

text \<open>
  Admission of a run: the handlers of \<^verbatim>\<open>src/product_app/query_runs.py\<close> (estimate, create, warnings, read,
  cancel) and the billing steps of \<^verbatim>\<open>query_run_orchestration.py\<close> they call, over the whole application
  state: the run repository, the spend guard, the account limiter, the capacity semaphore, the event
  recorders and the worker threads started. The handlers are written as the code orders their checks; a
  refusal is \<open>Inl\<close>. What the session layer (CSRF, the end-of-session check, the spend key) answers is
  part of the request's circumstances, the record \<open>circumstances\<close>, with the clocks and whether
  \<^verbatim>\<open>Thread.start\<close> raises.
\<close>

section \<open>State and requests\<close>

record app_state =
  ap_repo :: run_repo
  ap_guard :: cost_guard
  ap_limiter :: account_limiter
  ap_permits :: nat                       \<comment> \<open>\<open>_run_semaphore\<close>\<close>
  ap_warnings :: "warning_event list"
  ap_slot_events :: "model_slot_event list"
  ap_workers :: "(uuid \<times> bool) list"     \<comment> \<open>threads running: run, and whether it holds a permit\<close>

definition MAX_CONCURRENT_RUNS :: nat where "MAX_CONCURRENT_RUNS = 16"

datatype refusal =
    SessionRefused nat string
  | RateLimited
  | InvalidModelSlot "model_slot_error list"
  | AcknowledgementsMissing "safety_warning list"
  | CostLimitExceeded string cost_estimate
  | CostConfirmationRequired cost_estimate
  | RunCapacityExceeded
  | ActiveQueryExists
  | DailyCapReached string "daily_allowance option"
  | RunNotFound
  | Unhandled string

fun refusal_status :: "refusal \<Rightarrow> nat" where
  "refusal_status (SessionRefused status name) = status"
| "refusal_status RateLimited = 429"
| "refusal_status (InvalidModelSlot errors) = 422"
| "refusal_status (AcknowledgementsMissing missing) = 422"
| "refusal_status (CostLimitExceeded msg est) = 402"
| "refusal_status (CostConfirmationRequired est) = 402"
| "refusal_status RunCapacityExceeded = 503"
| "refusal_status ActiveQueryExists = 409"
| "refusal_status (DailyCapReached msg allowance) = 402"
| "refusal_status RunNotFound = 404"
| "refusal_status (Unhandled e) = 500"

record session_context =
  ss_account_id :: uuid
  ss_legacy :: bool

record create_request =
  cq_query_text :: string
  cq_model_slots :: "string list"
  cq_slot_search :: "bool list option"
  cq_context :: "context_map option"
  cq_mode :: run_mode
  cq_acknowledgements :: "safety_acknowledgement list"
  cq_confirmation :: "(usd \<times> string) option"

record circumstances =
  en_csrf :: "refusal option"                 \<comment> \<open>\<open>enforce_csrf\<close> raises\<close>
  en_late :: "refusal option"                 \<comment> \<open>\<open>_refuse_late_run\<close> raises\<close>
  en_late_again :: "refusal option"           \<comment> \<open>the second check, under the repository's lock\<close>
  en_spend :: "refusal + uuid \<times> bool"        \<comment> \<open>\<open>spend_meter_for\<close>: the key, and whether a network's\<close>
  en_epoch :: rat                             \<comment> \<open>\<open>time.time()\<close>\<close>
  en_account_text :: string                   \<comment> \<open>\<open>str(session.account_id)\<close>\<close>
  en_live_catalog :: "model_catalog_entry list option"
  en_follow_up :: "(nat \<times> nat \<times> nat) option"  \<comment> \<open>the lengths a follow-up's context adds\<close>
  en_moment :: moment
  en_new_id :: uuid
  en_thread_starts :: bool

section \<open>The wording of a refusal\<close>

definition larger_than_a_day :: "cost_estimate \<Rightarrow> bool" where
  "larger_than_a_day e = (ce_estimated_cost_usd e > DAILY_CAP_USD)"

definition block_message :: "guard_settings \<Rightarrow> block_reason option \<Rightarrow> bool \<Rightarrow> bool \<Rightarrow> string" where
  "block_message st reason larger shared =
     (let meter = (if shared then ''this network'' else ''the account''); str = st_str st in
      if reason = Some ACCOUNT_RUNNING_TOTAL then
        ''This run would take '' @ meter @ '''s recent spend past its '' @ ''USD '' @ str HARD_LIMIT_USD @ '' running limit.''
      else if reason = Some LEDGER_UNAVAILABLE then
        ''The daily spend ledger cannot be verified right now; this is a '' @ ''storage fault, not a limit '' @
        (if shared then ''this network'' else ''this account'') @ '' has reached.''
      else if reason = Some DAILY_CAP \<and> larger then
        ''This run is larger than '' @ meter @ '''s whole USD '' @ str DAILY_CAP_USD @ '' '' @
        ''allowance for 24 hours, so it will not fit however long you wait; '' @
        ''choose lower-cost models or shorten the question.''
      else if reason = Some DAILY_CAP then
        ''This run would take '' @ meter @ '' past its USD '' @ str DAILY_CAP_USD @ '' cap '' @
        ''for the last 24 hours; spend frees up as each run turns 24 hours old.''
      else ''This run's worst-case cost is above the USD '' @ str HARD_LIMIT_USD @ '' per-run cap.'')"

definition estimate_reasons :: "guard_settings \<Rightarrow> cost_estimate \<Rightarrow> bool \<Rightarrow> string list" where
  "estimate_reasons st e shared =
     (let meter = (if shared then ''this network'' else ''the account''); str = st_str st in
      if ce_threshold_action e = ALLOW then [''Estimated cost is within the normal execution band.'']
      else if ce_threshold_action e = REQUIRE_CONFIRMATION then
        [''Estimated cost exceeds USD '' @ str SOFT_THRESHOLD_USD @ '' and requires explicit confirmation.'']
      else if ce_block_reason e = Some ACCOUNT_RUNNING_TOTAL then
        [''This run would take '' @ meter @ '''s recent spend past its '' @
         ''USD '' @ str HARD_LIMIT_USD @ '' running limit and is blocked.'']
      else if ce_block_reason e = Some LEDGER_UNAVAILABLE then
        [''The daily spend ledger cannot be verified right now, so this run is '' @
         ''blocked. This is a storage fault, not a limit '' @
         (if shared then ''this network'' else ''this account'') @ '' has reached.'']
      else if ce_block_reason e = Some DAILY_CAP then
        [''This run would take '' @ meter @ '' past its USD '' @ str DAILY_CAP_USD @ '' cap '' @
         ''for the last 24 hours and is blocked.'']
      else [''Estimated cost exceeds USD '' @ str HARD_LIMIT_USD @ '' and is blocked for this slice.''])"

section \<open>Billing a run\<close>

definition spend_key_of :: "query_run \<Rightarrow> uuid" where
  "spend_key_of r = (case qr_spend_key r of None \<Rightarrow> qr_account_id r | Some k \<Rightarrow> k)"

definition record_run_billing :: "guard_settings \<Rightarrow> moment \<Rightarrow> query_run \<Rightarrow> bool \<Rightarrow> cost_guard \<Rightarrow> charge_outcome \<times> cost_guard" where
  "record_run_billing st mt r confirmed cg =
     (let e = qr_cost_estimate r in
      try_record_run_charge st mt (spend_key_of r) (qr_query_run_id r) (ce_estimated_cost_usd e)
        (ce_threshold_action e) (confirmed \<and> ce_threshold_action e = REQUIRE_CONFIRMATION)
        (ce_global_ceiling_reached e) cg)"

definition void_run_billing :: "moment \<Rightarrow> query_run \<Rightarrow> cost_guard \<Rightarrow> cost_guard" where
  "void_run_billing mt r cg = void_run_charge mt (spend_key_of r) (qr_query_run_id r) cg"

definition abandon_unstarted_run :: "micros \<Rightarrow> uuid \<Rightarrow> run_repo \<Rightarrow> run_repo" where
  "abandon_unstarted_run now rid repo = snd (transition now rid FAILED None None repo)"

text \<open>An event of another recorder, written to the same store.\<close>

definition record_feedback_event :: "moment \<Rightarrow> string \<Rightarrow> string \<Rightarrow> uuid \<Rightarrow> uuid option \<Rightarrow> cost_guard \<Rightarrow> cost_guard" where
  "record_feedback_event mt recorder type account run cg =
     (case cg_store cg of
        None \<Rightarrow> cg
      | Some fs \<Rightarrow> cg\<lparr>cg_store := Some (snd (insert_event (at_lands mt) (at_mono mt)
          \<lparr>lr_recorder = recorder, lr_event_type = type, lr_account_id = Some account, lr_query_run_id = run,
           lr_recorded_at = at_now mt, lr_estimated_cost_usd = None, lr_actual_cost_usd = None, lr_ip = None,
           lr_payload_account_id = Some account\<rparr> fs))\<rparr>)"

definition show_warnings :: "moment \<Rightarrow> uuid \<Rightarrow> safety_warning list \<Rightarrow> app_state \<Rightarrow> app_state" where
  "show_warnings mt account warnings ap =
     ap\<lparr>ap_warnings := record_warning_impression account None warnings (ap_warnings ap),
        ap_guard := foldl (\<lambda>cg w. record_feedback_event mt ''safety'' ''safety_warning_impression'' account None cg)
          (ap_guard ap) warnings\<rparr>"

definition acknowledge :: "moment \<Rightarrow> uuid \<Rightarrow> uuid \<Rightarrow> safety_acknowledgement list \<Rightarrow> app_state \<Rightarrow> app_state" where
  "acknowledge mt account run acks ap =
     (if acks = [] then ap
      else ap\<lparr>ap_warnings := record_acknowledgement account (Some run) acks (ap_warnings ap),
              ap_guard := record_feedback_event mt ''safety'' ''safety_acknowledgement_recorded'' account (Some run) (ap_guard ap)\<rparr>)"

definition record_selection :: "moment \<Rightarrow> query_run \<Rightarrow> app_state \<Rightarrow> app_state" where
  "record_selection mt r ap =
     ap\<lparr>ap_slot_events := record_slot_event \<lparr>mv_event_type = ''model_slot_selection_recorded'',
          mv_account_id = qr_account_id r, mv_query_run_id = qr_query_run_id r,
          mv_model_slots = map (\<lambda>s. (ms_slot_number s, ms_model_id s, ms_search s)) (qr_model_slots r)\<rparr> (ap_slot_events ap),
        ap_guard := record_feedback_event mt ''model_slot'' ''model_slot_selection_recorded'' (qr_account_id r)
          (Some (qr_query_run_id r)) (ap_guard ap)\<rparr>"

section \<open>Starting a run whose permit is held\<close>

text \<open>
  Creating, billing and launching the run. A charge over the daily cap abandons the run; one over the
  global ceiling, or a ledger that cannot meter, marks the run so that it spends nothing. On the cookie
  path the worker is a thread that takes the permit over; if it cannot be started the charge is voided and
  the run abandoned. The legacy path runs the worker in the request.
\<close>

definition degrade_for :: "micros \<Rightarrow> charge_outcome \<Rightarrow> uuid \<Rightarrow> run_repo \<Rightarrow> (repo_error + query_run) option \<times> run_repo" where
  "degrade_for now charge rid repo =
     (if charge = OVER_GLOBAL_CEILING
      then (let (res, repo) = mark_global_ceiling_reached now rid repo in (Some res, repo))
      else if charge = METERING_UNAVAILABLE
      then (let (res, repo) = mark_spend_metering_unavailable now rid repo in (Some res, repo))
      else (None, repo))"

definition over_daily_cap_detail :: "guard_settings \<Rightarrow> moment \<Rightarrow> uuid \<Rightarrow> bool \<Rightarrow> cost_guard \<Rightarrow> refusal" where
  "over_daily_cap_detail st mt spend_key shared cg =
     DailyCapReached (block_message st (Some DAILY_CAP) False shared) (daily_allowance_for mt spend_key shared cg)"

definition bill_and_launch ::
  "guard_settings \<Rightarrow> circumstances \<Rightarrow> query_run \<Rightarrow> bool \<Rightarrow> bool \<Rightarrow> uuid \<Rightarrow> bool \<Rightarrow> app_state \<Rightarrow>
   (refusal + query_run) \<times> app_state" where
  "bill_and_launch st en r confirmed holds_permit spend_key shared ap =
     (let mt = en_moment en; now = at_now mt; rid = qr_query_run_id r;
          (charge, cg) = record_run_billing st mt r confirmed (ap_guard ap);
          ap = ap\<lparr>ap_guard := cg\<rparr>
      in if charge = OVER_DAILY_CAP then
           let ap = ap\<lparr>ap_repo := abandon_unstarted_run now rid (ap_repo ap)\<rparr>
           in (Inl (over_daily_cap_detail st mt spend_key shared (ap_guard ap)), ap)
         else
           let (marked, repo) = degrade_for now charge rid (ap_repo ap);
               ap = ap\<lparr>ap_repo := repo\<rparr>;
               undo = ap\<lparr>ap_guard := void_run_billing mt r (ap_guard ap),
                         ap_repo := abandon_unstarted_run now rid (ap_repo ap)\<rparr>
           in case marked of
                Some (Inl e) \<Rightarrow> (Inl (Unhandled (error_name (RepoError e))), undo)
              | _ \<Rightarrow>
                let r = (case marked of Some (Inr r') \<Rightarrow> r' | _ \<Rightarrow> r)
                in if en_thread_starts en
                   then (Inr r, ap\<lparr>ap_workers := ap_workers ap @ [(rid, holds_permit)]\<rparr>)
                   else (Inl (Unhandled ''RuntimeError''), undo))"

definition run_legacy ::
  "guard_settings \<Rightarrow> run_services \<Rightarrow> tick list \<Rightarrow> circumstances \<Rightarrow> query_run \<Rightarrow> bool \<Rightarrow> uuid \<Rightarrow> bool \<Rightarrow> app_state \<Rightarrow>
   (refusal + query_run) \<times> app_state" where
  "run_legacy st sv script en r confirmed spend_key shared ap =
     (let mt = en_moment en; now = at_now mt; rid = qr_query_run_id r;
          (charge, cg) = record_run_billing st mt r confirmed (ap_guard ap);
          ap = ap\<lparr>ap_guard := cg\<rparr>
      in if charge = OVER_DAILY_CAP then
           let ap = ap\<lparr>ap_repo := abandon_unstarted_run now rid (ap_repo ap)\<rparr>
           in (Inl (over_daily_cap_detail st mt spend_key shared (ap_guard ap)), ap)
         else
           let (marked, repo) = degrade_for now charge rid (ap_repo ap)
           in case marked of
                Some (Inl e) \<Rightarrow> (Inl (Unhandled (error_name (RepoError e))), ap\<lparr>ap_repo := repo\<rparr>)
              | _ \<Rightarrow>
                (case execute_query_run sv rid \<lparr>pl_repo = repo, pl_script = script, pl_clock = (now, 0)\<rparr> of
                   (Raise e, s) \<Rightarrow> (Inl (Unhandled (error_name e)), ap\<lparr>ap_repo := pl_repo s\<rparr>)
                 | (_, s) \<Rightarrow>
                   (case get_run (fst (pl_clock s)) rid (pl_repo s) of
                      (Inl e, repo) \<Rightarrow> (Inl (Unhandled (error_name (RepoError e))), ap\<lparr>ap_repo := repo\<rparr>)
                    | (Inr r, repo) \<Rightarrow> (Inr r, ap\<lparr>ap_repo := repo\<rparr>))))"

definition start_reserved_query_run ::
  "guard_settings \<Rightarrow> run_services \<Rightarrow> tick list \<Rightarrow> circumstances \<Rightarrow> session_context \<Rightarrow> create_request \<Rightarrow> model_slot list \<Rightarrow>
   cost_estimate \<Rightarrow> bool \<Rightarrow> uuid \<Rightarrow> bool \<Rightarrow> app_state \<Rightarrow> (refusal + query_run) \<times> app_state" where
  "start_reserved_query_run st sv script en ss req slots est confirmed spend_key shared ap =
     (let mt = en_moment en; account = ss_account_id ss;
          (res, repo) = create (at_now mt) (en_new_id en) account (cq_query_text req) slots est (cq_context req)
            (cq_mode req) (Some spend_key) (en_late_again en) (ap_repo ap);
          ap = ap\<lparr>ap_repo := repo\<rparr>
      in case res of
           Inl (Inl refused) \<Rightarrow> (Inl refused, ap)
         | Inl (Inr _) \<Rightarrow> (Inl ActiveQueryExists, ap)
         | Inr r \<Rightarrow>
             let ap = record_selection mt r (acknowledge mt account (qr_query_run_id r) (cq_acknowledgements req) ap)
             in if ss_legacy ss then run_legacy st sv script en r confirmed spend_key shared ap
                else bill_and_launch st en r confirmed True spend_key shared ap)"

section \<open>The handlers\<close>

definition guardrail_refusal ::
  "guard_settings \<Rightarrow> moment \<Rightarrow> uuid \<Rightarrow> cost_estimate \<Rightarrow> app_state \<Rightarrow> app_state" where
  "guardrail_refusal st mt account est ap =
     ap\<lparr>ap_guard := record_guardrail_event st mt account None (ce_estimated_cost_usd est) (ce_threshold_action est)
          False False False (ap_guard ap)\<rparr>"

definition run_estimate ::
  "guard_settings \<Rightarrow> circumstances \<Rightarrow> session_context \<Rightarrow> create_request \<Rightarrow> model_slot list \<Rightarrow> uuid \<Rightarrow> bool \<Rightarrow> cost_guard \<Rightarrow>
   (price_error + cost_estimate) \<times> cost_guard" where
  "run_estimate st en ss req slots key shared cg =
     estimate st (en_moment en)
       \<lparr>er_query_len = length (cq_query_text req), er_follow_up = follow_up_context_tokens (en_follow_up en),
        er_slots = slots, er_mode = cq_mode req, er_account_id = Some (ss_account_id ss), er_query_run_id = None,
        er_spend_key = Some key, er_shared_by_network = shared\<rparr> cg"

text \<open>The session checks and the account's rate limit, then the spend key and the slots: what both money
  routes do before anything is priced.\<close>

definition open_request ::
  "circumstances \<Rightarrow> create_request \<Rightarrow> app_state \<Rightarrow>
   (refusal + model_slot list \<times> uuid \<times> bool) \<times> app_state" where
  "open_request en req ap =
     (case en_csrf en of Some refused \<Rightarrow> (Inl refused, ap) | None \<Rightarrow>
      case en_late en of Some refused \<Rightarrow> (Inl refused, ap) | None \<Rightarrow>
        let (allowed, limiter) = account_allow (en_account_text en) (en_epoch en) (ap_limiter ap);
            ap = ap\<lparr>ap_limiter := limiter\<rparr>
        in if \<not> allowed then (Inl RateLimited, ap)
           else (case en_spend en of
              Inl refused \<Rightarrow> (Inl refused, ap)
            | Inr (key, shared) \<Rightarrow>
                (case validate_model_slots_with_search (en_live_catalog en) (cq_model_slots req) (cq_slot_search req)
                        (cq_mode req) of
                   Inl errors \<Rightarrow> (Inl (InvalidModelSlot errors), ap)
                 | Inr slots \<Rightarrow> (Inr (slots, key, shared), ap))))"

definition estimate_query_run ::
  "guard_settings \<Rightarrow> circumstances \<Rightarrow> session_context \<Rightarrow> create_request \<Rightarrow> app_state \<Rightarrow>
   (refusal + cost_estimate \<times> model_slot list \<times> string list) \<times> app_state" where
  "estimate_query_run st en ss req ap =
     (case open_request en req ap of
        (Inl refused, ap) \<Rightarrow> (Inl refused, ap)
      | (Inr (slots, key, shared), ap) \<Rightarrow>
          (case run_estimate st en ss req slots key shared (ap_guard ap) of
             (Inl e, cg) \<Rightarrow> (Inl (Unhandled ''ValueError''), ap\<lparr>ap_guard := cg\<rparr>)
           | (Inr est, cg) \<Rightarrow>
               (Inr (est, slots, estimate_reasons st est shared),
                ap\<lparr>ap_guard := record_guardrail_event st (en_moment en) (ss_account_id ss) None
                     (ce_estimated_cost_usd est) (ce_threshold_action est) False True False cg\<rparr>)))"

text \<open>After the checks: the permit is taken (not on the legacy path) and given back if the start is refused.\<close>

definition reserve_and_start ::
  "guard_settings \<Rightarrow> run_services \<Rightarrow> tick list \<Rightarrow> circumstances \<Rightarrow> session_context \<Rightarrow> create_request \<Rightarrow> model_slot list \<Rightarrow>
   cost_estimate \<Rightarrow> bool \<Rightarrow> uuid \<Rightarrow> bool \<Rightarrow> app_state \<Rightarrow> (refusal + query_run) \<times> app_state" where
  "reserve_and_start st sv script en ss req slots est confirmed key shared ap =
     (if ss_legacy ss then start_reserved_query_run st sv script en ss req slots est confirmed key shared ap
      else if ap_permits ap = 0 then (Inl RunCapacityExceeded, ap)
      else
        let ap = ap\<lparr>ap_permits := ap_permits ap - 1\<rparr> in
        case start_reserved_query_run st sv script en ss req slots est confirmed key shared ap of
          (Inl refused, ap) \<Rightarrow> (Inl refused, ap\<lparr>ap_permits := ap_permits ap + 1\<rparr>)
        | (Inr r, ap) \<Rightarrow> (Inr r, ap))"

definition create_query_run ::
  "guard_settings \<Rightarrow> run_services \<Rightarrow> tick list \<Rightarrow> circumstances \<Rightarrow> session_context \<Rightarrow> create_request \<Rightarrow> app_state \<Rightarrow>
   (refusal + query_run) \<times> app_state" where
  "create_query_run st sv script en ss req ap =
     (case open_request en req ap of
        (Inl refused, ap) \<Rightarrow> (Inl refused, ap)
      | (Inr (slots, key, shared), ap) \<Rightarrow>
          let mt = en_moment en; account = ss_account_id ss;
              required = required_warnings_for_query (cq_query_text req) (cq_context req);
              missing = missing_acknowledgements required (cq_acknowledgements req)
          in if missing \<noteq> [] then (Inl (AcknowledgementsMissing missing), show_warnings mt account required ap)
             else
               (case run_estimate st en ss req slots key shared (ap_guard ap) of
                  (Inl e, cg) \<Rightarrow> (Inl (Unhandled ''ValueError''), ap\<lparr>ap_guard := cg\<rparr>)
                | (Inr est, cg) \<Rightarrow>
                    let ((confirmed, reasons), cg) = evaluate_confirmation st (at_now mt) est (cq_confirmation req) slots
                          (Some account) (cq_mode req) cg;
                        ap = ap\<lparr>ap_guard := cg\<rparr>
                    in if ce_threshold_action est = BLOCK then
                         (Inl (CostLimitExceeded (block_message st (ce_block_reason est) (larger_than_a_day est) shared) est),
                          guardrail_refusal st mt account est ap)
                       else if ce_threshold_action est = REQUIRE_CONFIRMATION \<and> \<not> confirmed then
                         (Inl (CostConfirmationRequired est), guardrail_refusal st mt account est ap)
                       else reserve_and_start st sv script en ss req slots est confirmed key shared ap))"

definition get_query_run_warnings ::
  "circumstances \<Rightarrow> session_context \<Rightarrow> create_request \<Rightarrow> app_state \<Rightarrow> (refusal + safety_warning list) \<times> app_state" where
  "get_query_run_warnings en ss req ap =
     (case en_csrf en of Some refused \<Rightarrow> (Inl refused, ap) | None \<Rightarrow>
      case en_spend en of Inl refused \<Rightarrow> (Inl refused, ap) | Inr _ \<Rightarrow>
        let (allowed, limiter) = account_allow (en_account_text en) (en_epoch en) (ap_limiter ap);
            ap = ap\<lparr>ap_limiter := limiter\<rparr>
        in if \<not> allowed then (Inl RateLimited, ap)
           else let warnings = required_warnings_for_query (cq_query_text req) (cq_context req)
                in (Inr warnings, show_warnings (en_moment en) (ss_account_id ss) warnings ap))"

definition get_query_run_result ::
  "micros \<Rightarrow> session_context \<Rightarrow> uuid \<Rightarrow> app_state \<Rightarrow> (refusal + query_run) \<times> app_state" where
  "get_query_run_result now ss rid ap =
     (let (r, repo) = get_for_account now rid (ss_account_id ss) (ap_repo ap); ap = ap\<lparr>ap_repo := repo\<rparr>
      in case r of None \<Rightarrow> (Inl RunNotFound, ap) | Some r \<Rightarrow> (Inr r, ap))"

text \<open>Cancelling: another account's run is not found, a finished one is returned as it is, and otherwise the
  transition decides under the lock; the running stage is then annotated.\<close>

definition cancel_query_run ::
  "circumstances \<Rightarrow> session_context \<Rightarrow> uuid \<Rightarrow> app_state \<Rightarrow> (refusal + query_run) \<times> app_state" where
  "cancel_query_run en ss rid ap =
     (case en_csrf en of Some refused \<Rightarrow> (Inl refused, ap) | None \<Rightarrow>
      case en_spend en of Inl refused \<Rightarrow> (Inl refused, ap) | Inr _ \<Rightarrow>
        let now = at_now (en_moment en);
            (allowed, limiter) = account_allow (en_account_text en) (en_epoch en) (ap_limiter ap);
            ap = ap\<lparr>ap_limiter := limiter\<rparr>
        in if \<not> allowed then (Inl RateLimited, ap)
           else
             let (found, repo) = get_for_account now rid (ss_account_id ss) (ap_repo ap) in
             case found of
               None \<Rightarrow> (Inl RunNotFound, ap\<lparr>ap_repo := repo\<rparr>)
             | Some r \<Rightarrow>
                 if is_terminal r then (Inr r, ap\<lparr>ap_repo := repo\<rparr>)
                 else
                   (case transition now rid CANCELLED None None repo of
                      (Inl (InvalidTransition f t), repo) \<Rightarrow>
                        let (again, repo) = get_for_account now rid (ss_account_id ss) repo
                        in (Inr (case again of Some r' \<Rightarrow> r' | None \<Rightarrow> r), ap\<lparr>ap_repo := repo\<rparr>)
                    | (Inl e, repo) \<Rightarrow> (Inl (Unhandled (error_name (RepoError e))), ap\<lparr>ap_repo := repo\<rparr>)
                    | (Inr cancelled, repo) \<Rightarrow>
                        (case update_status now rid ((stage_update None (running_stage_name (qr_progress cancelled))
                               STAGE_SKIPPED ''Cancelled by the user.'')\<lparr>su_allow_terminal := True\<rparr>) repo of
                           (Inl e, repo) \<Rightarrow> (Inl (Unhandled (error_name (RepoError e))), ap\<lparr>ap_repo := repo\<rparr>)
                         | (Inr _, repo) \<Rightarrow>
                             (case get_run now rid repo of
                                (Inl e, repo) \<Rightarrow> (Inl (Unhandled (error_name (RepoError e))), ap\<lparr>ap_repo := repo\<rparr>)
                              | (Inr r, repo) \<Rightarrow> (Inr r, ap\<lparr>ap_repo := repo\<rparr>)))))"

text \<open>The worker thread at place \<open>i\<close> runs to its end and gives back the permit it was handed, if any.\<close>

definition worker_ends :: "run_services \<Rightarrow> tick list \<Rightarrow> micros \<Rightarrow> nat \<Rightarrow> app_state \<Rightarrow> app_state" where
  "worker_ends sv script now i ap =
     (if i < length (ap_workers ap) then
        let (rid, holds) = ap_workers ap ! i;
            s = execute_query_run_safely sv rid \<lparr>pl_repo = ap_repo ap, pl_script = script, pl_clock = (now, 0)\<rparr>
        in ap\<lparr>ap_repo := pl_repo s, ap_workers := take i (ap_workers ap) @ drop (Suc i) (ap_workers ap),
              ap_permits := ap_permits ap + (if holds then 1 else 0)\<rparr>
      else ap)"

end
