(* ===== verification/App_Laws.thy ===== *)
theory App_Laws
  imports Admission
begin

text \<open>
  What the handlers of \<^verbatim>\<open>Admission\<close> guarantee over the whole application state: the capacity permits are
  conserved, a refused request leaves nothing behind, an accepted one was admitted, and a cancel touches
  only the caller's run.
\<close>

section \<open>What the parts of a handler leave alone\<close>

lemma recorders_keep [simp]:
  "ap_repo (show_warnings mt a ws ap) = ap_repo ap" "ap_permits (show_warnings mt a ws ap) = ap_permits ap"
  "ap_workers (show_warnings mt a ws ap) = ap_workers ap"
  "ap_repo (acknowledge mt a run acks ap) = ap_repo ap" "ap_permits (acknowledge mt a run acks ap) = ap_permits ap"
  "ap_workers (acknowledge mt a run acks ap) = ap_workers ap"
  "ap_repo (record_selection mt r ap) = ap_repo ap" "ap_permits (record_selection mt r ap) = ap_permits ap"
  "ap_workers (record_selection mt r ap) = ap_workers ap"
  "ap_repo (guardrail_refusal st mt a est ap) = ap_repo ap" "ap_permits (guardrail_refusal st mt a est ap) = ap_permits ap"
  "ap_workers (guardrail_refusal st mt a est ap) = ap_workers ap"
  by (simp_all add: show_warnings_def acknowledge_def record_selection_def guardrail_refusal_def)

lemma open_request_keeps:
  assumes "open_request en req ap = (res, ap')"
  shows "ap_repo ap' = ap_repo ap \<and> ap_permits ap' = ap_permits ap \<and> ap_workers ap' = ap_workers ap"
  using assms by (auto simp: open_request_def Let_def split: option.splits prod.splits sum.splits if_splits)

definition unfinished :: "run_repo \<Rightarrow> uuid set" where
  "unfinished repo = {rid. \<exists>r. map_of repo rid = Some r \<and> \<not> is_terminal r}"

lemma unfinished_purge: "dict_ok repo \<Longrightarrow> unfinished (purge_expired now repo) \<subseteq> unfinished repo"
  by (auto simp: unfinished_def purge_expired_def map_of_filter split: option.splits if_splits)

lemma held_before_purge:
  "dict_ok repo \<Longrightarrow> map_of (purge_expired now repo) k = Some r \<Longrightarrow> map_of repo k = Some r"
  by (auto simp: purge_expired_def map_of_filter split: option.splits if_splits)

text \<open>What a run was admitted with, which the billing marks do not change.\<close>

definition same_terms :: "query_run \<Rightarrow> query_run \<Rightarrow> bool" where
  "same_terms r r' =
     (qr_query_run_id r' = qr_query_run_id r \<and> qr_account_id r' = qr_account_id r \<and> qr_status r' = qr_status r
      \<and> qr_model_slots r' = qr_model_slots r \<and> qr_spend_key r' = qr_spend_key r
      \<and> ce_estimated_cost_usd (qr_cost_estimate r') = ce_estimated_cost_usd (qr_cost_estimate r)
      \<and> ce_threshold_action (qr_cost_estimate r') = ce_threshold_action (qr_cost_estimate r))"

definition simulated_only :: "query_run \<Rightarrow> bool" where
  "simulated_only r =
     (ce_global_ceiling_reached (qr_cost_estimate r) \<or> ce_spend_metering_unavailable (qr_cost_estimate r))"

text \<open>The charges on the ledger, in order.\<close>

definition is_charge :: "ledger_row \<Rightarrow> bool" where
  "is_charge row = (lr_recorder row = ''cost'' \<and> lr_event_type row \<in> set ACCOUNT_CHARGE_EVENTS)"

definition charges_of :: "cost_guard \<Rightarrow> ledger_row list" where
  "charges_of cg = (case cg_store cg of None \<Rightarrow> [] | Some fs \<Rightarrow> filter is_charge (fs_rows fs))"

lemma charges_feedback_event [simp]:
  "recorder \<noteq> ''cost'' \<Longrightarrow> charges_of (record_feedback_event mt recorder type a run cg) = charges_of cg"
  by (auto simp: charges_of_def record_feedback_event_def is_charge_def split: option.split)

lemma charges_impressions [simp]:
  "charges_of (foldl (\<lambda>cg w. record_feedback_event mt ''safety'' type a run cg) cg ws) = charges_of cg"
  by (induction ws arbitrary: cg) simp_all

lemma charges_recorders [simp]:
  "charges_of (ap_guard (show_warnings mt a ws ap)) = charges_of (ap_guard ap)"
  "charges_of (ap_guard (acknowledge mt a run acks ap)) = charges_of (ap_guard ap)"
  "charges_of (ap_guard (record_selection mt r ap)) = charges_of (ap_guard ap)"
  by (simp_all add: show_warnings_def acknowledge_def record_selection_def)

lemma charges_guardrail:
  assumes "action = BLOCK \<or> action = REQUIRE_CONFIRMATION \<and> \<not> confirmed \<or> preview \<or> over"
  shows "charges_of (record_guardrail_event st mt a run est action confirmed preview over cg) = charges_of cg"
  using assms by (auto simp: charges_of_def record_guardrail_event_def record_cost_event_def is_charge_def guard_row_def
      guardrail_event_type_def ACCOUNT_CHARGE_EVENTS_def event_names split: option.split)

lemma charges_estimate:
  "estimate st mt req cg = (res, cg') \<Longrightarrow> charges_of cg' = charges_of cg"
  by (auto simp: estimate_def Let_def charges_of_def mint_confirmation_token_def case_prod_unfold
      split: sum.splits option.splits if_splits)

lemma charges_confirmation:
  "evaluate_confirmation st now est conf slots a md cg = (res, cg') \<Longrightarrow> charges_of cg' = charges_of cg"
  by (auto simp: evaluate_confirmation_def verify_confirmation_token_def charges_of_def Let_def
      split: option.splits if_splits)

text \<open>Opening a charge appends one row for the run, or none.\<close>

lemma charges_billing:
  assumes "record_run_billing st mt r confirmed cg = (outcome, cg')"
  shows "if outcome = CHARGE_RECORDED
    then charges_of cg' = charges_of cg @ [charge_row (spend_key_of r) (qr_query_run_id r)
           (ce_estimated_cost_usd (qr_cost_estimate r)) (st_live_execution st) (at_now mt)]
    else charges_of cg' = charges_of cg"
proof -
  have row: "is_charge (charge_row k i e live now)" for k i e live now
    by (simp add: is_charge_def charge_row_def charge_event_type_def ACCOUNT_CHARGE_EVENTS_def)
  have ring: "charges_of (record_cost_event mt False ev g) = charges_of g" for ev g
    by (simp add: charges_of_def record_cost_event_def)
  have store: "charges_of (g\<lparr>cg_store := Some fs\<rparr>) = filter is_charge (fs_rows fs)" for g fs
    by (simp add: charges_of_def)
  show ?thesis using assms row
    by (auto simp: record_run_billing_def try_record_run_charge_def try_record_cost_charge_def Let_def ring store
        charges_guardrail charges_of_def[of cg] charges_of_def[of "log_daily_cap_bypassed t cg" for t] insert_event_def
        split: option.splits if_splits)
qed

text \<open>The billing marks find the new run and return it; abandoning it makes it terminal.\<close>

lemma degrade_for_new:
  assumes "map_of repo rid = Some r" and "degrade_for now charge rid repo = (marked, repo')"
  shows "(\<forall>e. marked \<noteq> Some (Inl e)) \<and> (\<exists>r'. map_of repo' rid = Some r' \<and> same_terms r r'
    \<and> (marked = None \<longrightarrow> r' = r \<and> charge \<notin> {OVER_GLOBAL_CEILING, METERING_UNAVAILABLE})
    \<and> (\<forall>m. marked = Some (Inr m) \<longrightarrow> m = r' \<and> simulated_only m
        \<and> charge \<in> {OVER_GLOBAL_CEILING, METERING_UNAVAILABLE}))
    \<and> (\<forall>k. k \<noteq> rid \<longrightarrow> map_of repo' k = map_of repo k)"
  using assms by (auto simp: degrade_for_def mark_global_ceiling_reached_def mark_spend_metering_unavailable_def
      mutate_run_def same_terms_def simulated_only_def split: if_splits)

lemma abandon_new:
  assumes "map_of repo rid = Some r" and "qr_status r = ACCEPTED"
  shows "unfinished (abandon_unstarted_run now rid repo) = unfinished repo - {rid}"
proof -
  have "FAILED \<in> ALLOWED_TRANSITIONS (qr_status r)" using assms(2) by simp
  then show ?thesis using assms
    by (auto simp: abandon_unstarted_run_def transition_def unfinished_def transition_run_def is_terminal_def
        TERMINAL_STATUSES_def Let_def split: if_splits)
qed

lemma create_cases:
  assumes "create now i acct qt slots est ctx mode key adm repo = (res, repo')"
  obtains (refused) e where "res = Inl e" "repo' = repo \<or> repo' = purge_expired now (purge_expired now repo)"
  | (stored) "res = Inr (new_query_run now i acct qt slots est ctx mode key)" "adm = None"
      "repo' = AList.update i (new_query_run now i acct qt slots est ctx mode key) (purge_expired now (purge_expired now repo))"
  using assms by (auto simp: create_def get_active_for_account_def Let_def split: option.splits)

lemma new_run_fields [simp]:
  "qr_status (new_query_run now i a qt slots est ctx mode key) = ACCEPTED"
  "qr_query_run_id (new_query_run now i a qt slots est ctx mode key) = i"
  "qr_account_id (new_query_run now i a qt slots est ctx mode key) = a"
  "qr_cost_estimate (new_query_run now i a qt slots est ctx mode key) = est"
  "qr_model_slots (new_query_run now i a qt slots est ctx mode key) = slots"
  by (simp_all add: new_query_run_def)

text \<open>Launching on the cookie path: a refusal leaves the run finished and starts nothing.\<close>

definition charge_of_run :: "guard_settings \<Rightarrow> micros \<Rightarrow> query_run \<Rightarrow> ledger_row" where
  "charge_of_run st now r = charge_row (spend_key_of r) (qr_query_run_id r) (ce_estimated_cost_usd (qr_cost_estimate r))
     (st_live_execution st) now"

lemma charge_of_same_terms: "same_terms r r' \<Longrightarrow> charge_of_run st now r' = charge_of_run st now r"
  by (auto simp: same_terms_def charge_of_run_def spend_key_of_def split: option.split)

text \<open>A run of those terms, charged on the ledger or marked so that it spends nothing.\<close>

definition paid_or_simulated :: "guard_settings \<Rightarrow> micros \<Rightarrow> query_run \<Rightarrow> cost_guard \<Rightarrow> cost_guard \<Rightarrow> bool" where
  "paid_or_simulated st now r cg cg' =
     (charges_of cg' = charges_of cg @ [charge_of_run st now r] \<or> charges_of cg' = charges_of cg \<and> simulated_only r)"

lemma bill_and_launch_result:
  assumes "bill_and_launch st en r confirmed holds key shared ap = (res, ap')"
    and "map_of (ap_repo ap) (qr_query_run_id r) = Some r" and "qr_status r = ACCEPTED"
  shows "ap_permits ap' = ap_permits ap \<and>
    (case res of
       Inl refused \<Rightarrow> ap_workers ap' = ap_workers ap
         \<and> unfinished (ap_repo ap') = unfinished (ap_repo ap) - {qr_query_run_id r}
         \<and> (refused = Unhandled ''RuntimeError'' \<or> charges_of (ap_guard ap') = charges_of (ap_guard ap))
     | Inr r' \<Rightarrow> ap_workers ap' = ap_workers ap @ [(qr_query_run_id r, holds)]
         \<and> map_of (ap_repo ap') (qr_query_run_id r) = Some r' \<and> same_terms r r'
         \<and> paid_or_simulated st (at_now (en_moment en)) r' (ap_guard ap) (ap_guard ap'))"
proof -
  let ?mt = "en_moment en" and ?rid = "qr_query_run_id r"
  obtain charge cg where b: "record_run_billing st ?mt r confirmed (ap_guard ap) = (charge, cg)" by force
  show ?thesis
  proof (cases "charge = OVER_DAILY_CAP")
    case True
    then show ?thesis using assms b abandon_new[OF assms(2,3)] charges_billing[OF b]
      by (auto simp: bill_and_launch_def Let_def over_daily_cap_detail_def)
  next
    case False
    obtain marked repo where d: "degrade_for (at_now ?mt) charge ?rid (ap_repo ap) = (marked, repo)" by force
    obtain r' where r': "map_of repo ?rid = Some r'" "same_terms r r'"
      "marked = None \<Longrightarrow> r' = r \<and> charge \<notin> {OVER_GLOBAL_CEILING, METERING_UNAVAILABLE}"
      "\<And>m. marked = Some (Inr m) \<Longrightarrow> m = r' \<and> simulated_only m \<and> charge \<in> {OVER_GLOBAL_CEILING, METERING_UNAVAILABLE}"
      and no_error: "\<And>e. marked \<noteq> Some (Inl e)" and others: "\<And>k. k \<noteq> ?rid \<Longrightarrow> map_of repo k = map_of (ap_repo ap) k"
      using degrade_for_new[OF assms(2) d] by auto
    have same: "unfinished repo - {?rid} = unfinished (ap_repo ap) - {?rid}"
      using others by (auto simp: unfinished_def)
    have accepted: "qr_status r' = ACCEPTED" using r'(2) assms(3) by (simp add: same_terms_def)
    let ?ap = "ap\<lparr>ap_guard := cg, ap_repo := repo\<rparr>"
    let ?undo = "?ap\<lparr>ap_guard := void_run_billing ?mt r cg, ap_repo := abandon_unstarted_run (at_now ?mt) ?rid repo\<rparr>"
    have answer: "(marked = None \<and> r' = r \<and> charge = CHARGE_RECORDED)
        \<or> (marked = Some (Inr r') \<and> simulated_only r' \<and> charge \<in> {OVER_GLOBAL_CEILING, METERING_UNAVAILABLE})"
    proof (cases marked)
      case None
      then show ?thesis using r'(3)[OF None] False by (cases charge) auto
    next
      case (Some m)
      then obtain m' where "marked = Some (Inr m')" using no_error by (cases m) auto
      then show ?thesis using r'(4)[of m'] by auto
    qed
    then have paid: "paid_or_simulated st (at_now ?mt) r' (ap_guard ap) cg"
      using charges_billing[OF b] by (auto simp: paid_or_simulated_def charge_of_run_def)
    have go: "bill_and_launch st en r confirmed holds key shared ap =
        (if en_thread_starts en then (Inr r', ?ap\<lparr>ap_workers := ap_workers ap @ [(?rid, holds)]\<rparr>)
         else (Inl (Unhandled ''RuntimeError''), ?undo))"
      using answer False b d by (elim disjE conjE; simp add: bill_and_launch_def Let_def)
    show ?thesis
    proof (cases "en_thread_starts en")
      case True
      then show ?thesis using go assms(1) paid r'(1,2) by auto
    next
      case False
      then have "res = Inl (Unhandled ''RuntimeError'')" "ap' = ?undo" using go assms(1) by auto
      then show ?thesis using abandon_new[OF r'(1) accepted] same by simp
    qed
  qed
qed

text \<open>Starting a run whose permit is held, on the cookie path and on the legacy one.\<close>

lemma held_before_purges:
  "dict_ok repo \<Longrightarrow> map_of (purge_expired now (purge_expired now repo)) k = Some r \<Longrightarrow> map_of repo k = Some r"
  using held_before_purge[of "purge_expired now repo" now k r] held_before_purge[of repo now k r] dict_ok_filter[of repo]
  by (simp add: purge_expired_def)

lemma stored_unfinished:
  assumes "dict_ok repo"
  shows "unfinished (AList.update i r (purge_expired now (purge_expired now repo))) - {i} \<subseteq> unfinished repo"
  using held_before_purges[OF assms] by (fastforce simp: unfinished_def split: if_splits)

text \<open>The run a cookie request asks for.\<close>

definition requested_run ::
  "circumstances \<Rightarrow> session_context \<Rightarrow> create_request \<Rightarrow> model_slot list \<Rightarrow> cost_estimate \<Rightarrow> uuid \<Rightarrow> query_run" where
  "requested_run en ss req slots est key =
     new_query_run (at_now (en_moment en)) (en_new_id en) (ss_account_id ss) (cq_query_text req) slots est
       (cq_context req) (cq_mode req) (Some key)"

lemma requested_run_fields [simp]:
  "qr_status (requested_run en ss req slots est key) = ACCEPTED"
  "qr_query_run_id (requested_run en ss req slots est key) = en_new_id en"
  "qr_account_id (requested_run en ss req slots est key) = ss_account_id ss"
  "qr_cost_estimate (requested_run en ss req slots est key) = est"
  "qr_model_slots (requested_run en ss req slots est key) = slots"
  "qr_spend_key (requested_run en ss req slots est key) = Some key"
  by (simp_all add: requested_run_def) (simp add: new_query_run_def)

lemma start_reserved_result:
  assumes "start_reserved_query_run st sv script en ss req slots est confirmed key shared ap = (res, ap')"
    and "\<not> ss_legacy ss" and "dict_ok (ap_repo ap)" and "map_of (ap_repo ap) (en_new_id en) = None"
  shows "ap_permits ap' = ap_permits ap \<and>
    (case res of
       Inl refused \<Rightarrow> ap_workers ap' = ap_workers ap \<and> unfinished (ap_repo ap') \<subseteq> unfinished (ap_repo ap)
         \<and> (refused = Unhandled ''RuntimeError'' \<or> charges_of (ap_guard ap') = charges_of (ap_guard ap))
     | Inr r \<Rightarrow> ap_workers ap' = ap_workers ap @ [(en_new_id en, True)]
         \<and> map_of (ap_repo ap') (en_new_id en) = Some r \<and> same_terms (requested_run en ss req slots est key) r
         \<and> paid_or_simulated st (at_now (en_moment en)) r (ap_guard ap) (ap_guard ap'))"
proof -
  let ?new = "requested_run en ss req slots est key"
  obtain made repo where c: "create (at_now (en_moment en)) (en_new_id en) (ss_account_id ss) (cq_query_text req) slots est
      (cq_context req) (cq_mode req) (Some key) (en_late_again en) (ap_repo ap) = (made, repo)" by force
  show ?thesis
    using c
  proof (cases rule: create_cases)
    case (refused e)
    have "unfinished repo \<subseteq> unfinished (ap_repo ap)"
      using refused(2) held_before_purges[OF assms(3)] by (fastforce simp: unfinished_def)
    then show ?thesis using assms(1) c refused
      by (auto simp: start_reserved_query_run_def Let_def split: sum.splits)
  next
    case stored
    let ?ap = "record_selection (en_moment en) ?new
      (acknowledge (en_moment en) (ss_account_id ss) (en_new_id en) (cq_acknowledgements req) (ap\<lparr>ap_repo := repo\<rparr>))"
    have go: "bill_and_launch st en ?new confirmed True key shared ?ap = (res, ap')"
      using assms(1,2) c stored(1) by (simp add: start_reserved_query_run_def Let_def requested_run_def)
    have held: "map_of (ap_repo ?ap) (qr_query_run_id ?new) = Some ?new" using stored(3) by (simp add: requested_run_def)
    have sub: "unfinished (ap_repo ?ap) - {en_new_id en} \<subseteq> unfinished (ap_repo ap)"
      using stored_unfinished[OF assms(3)] stored(3) by simp
    show ?thesis
      using bill_and_launch_result[OF go held] sub by (auto simp: paid_or_simulated_def split: sum.splits)
  qed
qed

lemma legacy_starts_nothing:
  assumes "start_reserved_query_run st sv script en ss req slots est confirmed key shared ap = (res, ap')" and "ss_legacy ss"
  shows "ap_permits ap' = ap_permits ap \<and> ap_workers ap' = ap_workers ap"
  using assms by (auto simp: start_reserved_query_run_def run_legacy_def Let_def
      split: prod.splits sum.splits option.splits pl_result.splits if_splits)

text \<open>What \<open>create_query_run\<close> has checked when it goes on to start the run.\<close>

definition admissible ::
  "guard_settings \<Rightarrow> circumstances \<Rightarrow> session_context \<Rightarrow> create_request \<Rightarrow> model_slot list \<Rightarrow> cost_estimate \<Rightarrow> bool" where
  "admissible st en ss req slots est =
     (validate_model_slots_with_search (en_live_catalog en) (cq_model_slots req) (cq_slot_search req) (cq_mode req) = Inr slots
      \<and> missing_acknowledgements (required_warnings_for_query (cq_query_text req) (cq_context req)) (cq_acknowledgements req) = []
      \<and> ce_threshold_action est \<noteq> BLOCK
      \<and> (if ce_threshold_action est = REQUIRE_CONFIRMATION
         then \<exists>token cg. cq_confirmation req = Some (ce_estimated_cost_usd est, token)
           \<and> fst (verify_confirmation_token (at_now (en_moment en)) token (Some (ss_account_id ss)) (ce_estimated_cost_usd est)
               (panel_key slots) (token_shape (st_pricing st) (cq_mode req)) cg)
         else True))"

lemma confirmed_needs_token:
  assumes "evaluate_confirmation st now est conf slots a md cg = ((True, reasons), cg')"
    and "ce_threshold_action est = REQUIRE_CONFIRMATION"
  shows "\<exists>token. conf = Some (ce_estimated_cost_usd est, token)
    \<and> fst (verify_confirmation_token now token a (ce_estimated_cost_usd est) (panel_key slots)
        (token_shape (st_pricing st) md) cg)"
  using assms by (auto simp: evaluate_confirmation_def Let_def case_prod_unfold split: option.splits if_splits)

lemma open_request_slots:
  assumes "open_request en req ap = (Inr (slots, key, shared), ap')"
  shows "validate_model_slots_with_search (en_live_catalog en) (cq_model_slots req) (cq_slot_search req) (cq_mode req) = Inr slots
    \<and> en_spend en = Inr (key, shared) \<and> ap_guard ap' = ap_guard ap"
  using assms by (auto simp: open_request_def Let_def split: option.splits prod.splits sum.splits if_splits)

lemma open_request_guard: "open_request en req ap = (res, ap') \<Longrightarrow> ap_guard ap' = ap_guard ap"
  by (auto simp: open_request_def Let_def split: option.splits prod.splits sum.splits if_splits)

lemma create_decomposed:
  assumes "create_query_run st sv script en ss req ap = (res, ap')"
  obtains (refused) refused where "res = Inl refused" "ap_repo ap' = ap_repo ap" "ap_permits ap' = ap_permits ap"
      "ap_workers ap' = ap_workers ap" "charges_of (ap_guard ap') = charges_of (ap_guard ap)"
  | (admitted) slots key shared est confirmed ap1 where "admissible st en ss req slots est" "en_spend en = Inr (key, shared)"
      "ap_repo ap1 = ap_repo ap" "ap_permits ap1 = ap_permits ap" "ap_workers ap1 = ap_workers ap"
      "charges_of (ap_guard ap1) = charges_of (ap_guard ap)"
      "reserve_and_start st sv script en ss req slots est confirmed key shared ap1 = (res, ap')"
proof -
  obtain opened ap0 where o: "open_request en req ap = (opened, ap0)" by force
  note kept = open_request_keeps[OF o] open_request_guard[OF o]
  let ?required = "required_warnings_for_query (cq_query_text req) (cq_context req)"
  let ?missing = "missing_acknowledgements ?required (cq_acknowledgements req)"
  show thesis
  proof (cases opened)
    case (Inl e)
    then show ?thesis using assms o kept refused by (auto simp: create_query_run_def)
  next
    case (Inr b)
    then obtain slots key shared where b: "opened = Inr (slots, key, shared)" by (cases b) auto
    show ?thesis
    proof (cases "?missing = []")
      case False
      then show ?thesis using assms o b kept refused by (auto simp: create_query_run_def Let_def)
    next
      case True
      obtain priced cg where e: "run_estimate st en ss req slots key shared (ap_guard ap0) = (priced, cg)" by force
      have cg: "charges_of cg = charges_of (ap_guard ap)"
        using charges_estimate[OF e[unfolded run_estimate_def]] kept by simp
      show ?thesis
      proof (cases priced)
        case (Inl x)
        then show ?thesis using assms o b e True kept cg refused by (auto simp: create_query_run_def Let_def)
      next
        case (Inr est)
        obtain confirmed reasons cg2 where v: "evaluate_confirmation st (at_now (en_moment en)) est (cq_confirmation req)
            slots (Some (ss_account_id ss)) (cq_mode req) cg = ((confirmed, reasons), cg2)"
          by (metis prod.collapse)
        have cg2: "charges_of cg2 = charges_of (ap_guard ap)" using charges_confirmation[OF v] cg by simp
        let ?ap = "ap0\<lparr>ap_guard := cg2\<rparr>"
        have whole: "create_query_run st sv script en ss req ap =
            (if ce_threshold_action est = BLOCK then
               (Inl (CostLimitExceeded (block_message st (ce_block_reason est) (larger_than_a_day est) shared) est),
                guardrail_refusal st (en_moment en) (ss_account_id ss) est ?ap)
             else if ce_threshold_action est = REQUIRE_CONFIRMATION \<and> \<not> confirmed then
               (Inl (CostConfirmationRequired est), guardrail_refusal st (en_moment en) (ss_account_id ss) est ?ap)
             else reserve_and_start st sv script en ss req slots est confirmed key shared ?ap)"
          using o b e v True Inr by (simp add: create_query_run_def Let_def)
        show ?thesis
        proof (cases "ce_threshold_action est = BLOCK \<or> ce_threshold_action est = REQUIRE_CONFIRMATION \<and> \<not> confirmed")
          case True
          then have "charges_of (ap_guard (guardrail_refusal st (en_moment en) (ss_account_id ss) est ?ap)) = charges_of cg2"
            by (auto simp: guardrail_refusal_def intro!: charges_guardrail)
          with True assms whole kept cg2 refused show ?thesis by (auto split: if_splits)
        next
          case False
          have "\<exists>token. cq_confirmation req = Some (ce_estimated_cost_usd est, token)
              \<and> fst (verify_confirmation_token (at_now (en_moment en)) token (Some (ss_account_id ss))
                  (ce_estimated_cost_usd est) (panel_key slots) (token_shape (st_pricing st) (cq_mode req)) cg)"
            if "ce_threshold_action est = REQUIRE_CONFIRMATION"
            by (rule confirmed_needs_token[OF _ that, of st _ _ _ _ _ _ reasons cg2]) (use v False that in simp)
          then have "admissible st en ss req slots est"
            unfolding admissible_def using False \<open>?missing = []\<close> open_request_slots[OF o[unfolded b]] by auto
          moreover have "reserve_and_start st sv script en ss req slots est confirmed key shared ?ap = (res, ap')"
            using False assms whole by auto
          ultimately show ?thesis
            using admitted[of slots est key shared ?ap confirmed] open_request_slots[OF o[unfolded b]] kept cg2 by simp
        qed
      qed
    qed
  qed
qed

section \<open>A sample request\<close>

definition sample_circumstances :: circumstances where
  "sample_circumstances = \<lparr>en_csrf = None, en_late = None, en_late_again = None, en_spend = Inr (1, False), en_epoch = 0,
     en_account_text = ''1'', en_live_catalog = None, en_follow_up = None, en_moment = sample_moment, en_new_id = 5,
     en_thread_starts = True\<rparr>"

definition sample_session :: session_context where
  "sample_session = \<lparr>ss_account_id = 1, ss_legacy = False\<rparr>"

definition sample_create :: create_request where
  "sample_create = \<lparr>cq_query_text = ''why?'', cq_model_slots = [''openai/gpt-4o-mini''], cq_slot_search = None,
     cq_context = None, cq_mode = MODE_QUICK,
     cq_acknowledgements = [\<lparr>sk_warning_type = SENSITIVE_DATA, sk_version = WARNING_VERSION\<rparr>], cq_confirmation = None\<rparr>"

text \<open>A store that has taken one write, so that its health is known.\<close>

definition written_guard :: cost_guard where
  "written_guard = new_cost_guard\<lparr>cg_store := Some (snd (insert_event True 0 (mint_row 1 ''a'' 0) new_feedback_store))\<rparr>"

definition sample_app :: "nat \<Rightarrow> app_state" where
  "sample_app permits = \<lparr>ap_repo = [], ap_guard = written_guard, ap_limiter = [], ap_permits = permits,
     ap_warnings = [], ap_slot_events = [], ap_workers = []\<rparr>"

definition sample_slots :: "model_slot list" where
  "sample_slots = [\<lparr>ms_slot_number = 1, ms_model_id = ''openai/gpt-4o-mini'', ms_search = True\<rparr>]"

lemma sample_slots_valid:
  "validate_model_slots_with_search None [''openai/gpt-4o-mini''] None MODE_QUICK = Inr sample_slots"
  by code_simp

lemma sample_acknowledged:
  "missing_acknowledgements (required_warnings_for_query ''why?'' None)
     [\<lparr>sk_warning_type = SENSITIVE_DATA, sk_version = WARNING_VERSION\<rparr>] = []"
  by code_simp

lemmas price_eval = cost_components_def Let_def no_follow_up_def slot_cost_def call_cost_def price_per_1k_def
  judge_call_cost_def judge_input_cap_def judge_reads_pages_def CHARS_PER_TOKEN_def BOUND_WEB_SEARCH_CONTEXT_TOKENS_def
  JUDGE_EVIDENCE_SECTIONS_def JUDGE_MAX_SOURCE_LINES_def JUDGE_MAX_SOURCE_TITLE_LEN_def JUDGE_MAX_SOURCE_URL_LEN_def
  JUDGE_SOURCE_LINE_OVERHEAD_CHARS_def SYNTHESIS_SECTION_MAX_TOKENS_def quantize_half_up_def round_half_up_def
  COST_DISPLAY_QUANTUM_def sample_slots_def sample_config_def

lemma sample_bound: "estimate_bound_usd sample_config 4 sample_slots no_follow_up MODE_QUICK = Inr (363 / 10000)"
  by (simp add: estimate_bound_usd_def price_eval floor_eq_iff)

lemma sample_total:
  obtains b where "estimate_breakdown sample_config 4 sample_slots no_follow_up MODE_QUICK = Inr b" "cb_total b = 79 / 5000"
proof -
  have "slots_allowed MODE_QUICK sample_slots" by (simp add: slots_allowed_def sample_slots_def)
  from allowed_panel_priced[OF sample_config_ok this follow_up_ok_none] obtain b where
    b: "estimate_breakdown sample_config 4 sample_slots no_follow_up MODE_QUICK = Inr b" by blast
  then have "cb_total b = 79 / 5000"
    by (auto simp: estimate_breakdown_def quick_breakdown_def partitions_def price_eval floor_eq_iff split: sum.splits)
  with b that show thesis by blast
qed

lemma sample_estimate:
  obtains est cg where "run_estimate sample_settings sample_circumstances sample_session sample_create sample_slots 1 False
      written_guard = (Inr est, cg)" "ce_threshold_action est = ALLOW" "ce_estimated_cost_usd est = 79 / 5000"
    "\<not> ce_global_ceiling_reached est" "cg_store cg = cg_store written_guard" "cg_ring cg = []"
proof -
  obtain b where b: "estimate_breakdown sample_config 4 sample_slots no_follow_up MODE_QUICK = Inr b" "cb_total b = 79 / 5000"
    by (rule sample_total)
  let ?req = "\<lparr>er_query_len = 4, er_follow_up = no_follow_up, er_slots = sample_slots, er_mode = MODE_QUICK,
     er_account_id = Some 1, er_query_run_id = None, er_spend_key = Some 1, er_shared_by_network = False\<rparr>"
  have "run_estimate sample_settings sample_circumstances sample_session sample_create sample_slots 1 False written_guard
      = estimate sample_settings sample_moment ?req written_guard"
    by (simp add: run_estimate_def sample_circumstances_def sample_session_def sample_create_def
        follow_up_context_tokens_def eval_nat_numeral)
  moreover have "\<exists>est cg. estimate sample_settings sample_moment ?req written_guard = (Inr est, cg)
    \<and> ce_threshold_action est = ALLOW \<and> ce_estimated_cost_usd est = 79 / 5000
    \<and> \<not> ce_global_ceiling_reached est \<and> cg_store cg = cg_store written_guard \<and> cg_ring cg = []"
    using b sample_bound
    by (simp add: estimate_def sample_settings_def Let_def threshold_for_def HARD_LIMIT_USD_def SOFT_THRESHOLD_USD_def
        read_rails_def maybe_reconnect_feedback_store_def feedback_ledger_may_be_metered_def written_guard_def
        new_cost_guard_def new_feedback_store_def write_health_def insert_event_def cumulative_spend_for_def
        daily_spend_for_def global_daily_spend_def spend_total_def DAILY_CAP_USD_def GLOBAL_DAILY_CEILING_USD_def
        block_for_def mint_confirmation_token_def feedback_ledger_is_trustworthy_def)
  ultimately show thesis using that by metis
qed

lemma sample_billing:
  assumes "ce_threshold_action est = ALLOW" and "ce_estimated_cost_usd est = 79 / 5000" and "\<not> ce_global_ceiling_reached est"
    and "cg_store cg = cg_store written_guard" and "rec1 \<noteq> ''cost''" and "rec2 \<noteq> ''cost''"
  shows "fst (record_run_billing sample_settings sample_moment (new_query_run (at_now sample_moment) 5 (Suc 0) qt slots est ctx md (Some (Suc 0))) confirmed
    (record_feedback_event sample_moment rec1 type1 (Suc 0) run1 (record_feedback_event sample_moment rec2 type2 (Suc 0) run2 cg))) = CHARGE_RECORDED"
  using assms
  by (simp add: record_run_billing_def try_record_run_charge_def record_feedback_event_def written_guard_def new_cost_guard_def
      insert_event_def sample_moment_def feedback_ledger_may_be_metered_def new_feedback_store_def write_health_def
      try_record_cost_charge_def daily_spend_for_def spend_total_def global_daily_spend_def 
      in_scope_def[of _ _ _ "ledger_row.make a b c d e f g h i" for a b c d e f g h i, unfolded ledger_row.make_def]
      DAILY_CAP_USD_def GLOBAL_DAILY_CEILING_USD_def
      feedback_ledger_is_stale_def Let_def)

lemma sample_started:
  assumes "ce_threshold_action est = ALLOW" and "ce_estimated_cost_usd est = 79 / 5000" and "\<not> ce_global_ceiling_reached est"
    and "cg_store cg = cg_store written_guard"
  shows "\<exists>r ap'. reserve_and_start sample_settings sample_services [] (sample_circumstances\<lparr>en_thread_starts := b\<rparr>) sample_session
     sample_create sample_slots est confirmed 1 False ((sample_app 16)\<lparr>ap_limiter := l, ap_guard := cg\<rparr>)
     = (if b then Inr r else Inl (Unhandled ''RuntimeError''), ap')"
  by (simp add: reserve_and_start_def sample_session_def sample_app_def start_reserved_query_run_def sample_circumstances_def
     create_def get_active_for_account_def purge_expired_def first_active_def Let_def bill_and_launch_def case_prod_unfold
     degrade_for_def acknowledge_def record_selection_def sample_create_def sample_billing[OF assms]) 

lemma sample_outcome:
  "\<exists>r ap'. create_query_run sample_settings sample_services [] (sample_circumstances\<lparr>en_thread_starts := b\<rparr>) sample_session
     sample_create (sample_app 16) = (if b then Inr r else Inl (Unhandled ''RuntimeError''), ap')"
proof -
  obtain est cg where e: "run_estimate sample_settings sample_circumstances sample_session sample_create sample_slots 1 False
      written_guard = (Inr est, cg)" "ce_threshold_action est = ALLOW" "ce_estimated_cost_usd est = 79 / 5000"
    "\<not> ce_global_ceiling_reached est" "cg_store cg = cg_store written_guard" "cg_ring cg = []"
    by (rule sample_estimate)
  let ?en = "sample_circumstances\<lparr>en_thread_starts := b\<rparr>"
  have e2: "run_estimate sample_settings ?en sample_session sample_create sample_slots 1 False written_guard = (Inr est, cg)"
    using e(1) by (simp add: run_estimate_def)
  obtain l where o: "open_request ?en sample_create (sample_app 16)
      = (Inr (sample_slots, 1, False), (sample_app 16)\<lparr>ap_limiter := l\<rparr>)"
    by (simp add: open_request_def sample_circumstances_def sample_create_def sample_app_def account_allow_def bucket_allow_def
       ACCOUNT_CAPACITY_def ACCOUNT_REFILL_PER_MINUTE_def STALE_BUCKET_SECONDS_def sample_slots_valid Let_def)
  have "ap_guard (sample_app 16) = written_guard" by (simp add: sample_app_def)
  moreover have "missing_acknowledgements (required_warnings_for_query (cq_query_text sample_create) (cq_context sample_create))
      (cq_acknowledgements sample_create) = []"
    using sample_acknowledged by (simp add: sample_create_def)
  ultimately have "create_query_run sample_settings sample_services [] ?en sample_session sample_create (sample_app 16)
     = reserve_and_start sample_settings sample_services [] ?en sample_session sample_create sample_slots est True 1 False
         ((sample_app 16)\<lparr>ap_limiter := l, ap_guard := cg\<rparr>)"
    using e2 o e(2) by (simp add: create_query_run_def evaluate_confirmation_def Let_def)
  with sample_started[OF e(2-5), of b True l] show ?thesis by simp
qed


section \<open>Creating a run\<close>



text \<open>C11. A refused create leaves nothing behind: no worker is started, the permit it took is given back, no run
  is left unfinished that was not unfinished before, and unless the refusal is that the worker thread could
  not be started (whose charge is voided) the charges on the ledger are the same.\<close>

theorem refused_create_leaves_nothing:
  assumes "create_query_run st sv script en ss req ap = (Inl refused, ap')" and "\<not> ss_legacy ss"
    and "dict_ok (ap_repo ap)" and "map_of (ap_repo ap) (en_new_id en) = None"
  shows "ap_workers ap' = ap_workers ap \<and> ap_permits ap' = ap_permits ap
    \<and> unfinished (ap_repo ap') \<subseteq> unfinished (ap_repo ap)
    \<and> (refused = Unhandled ''RuntimeError'' \<or> charges_of (ap_guard ap') = charges_of (ap_guard ap))"
  using assms(1)
proof (cases rule: create_decomposed)
  case (admitted slots key shared est confirmed ap1)
  let ?taken = "ap1\<lparr>ap_permits := ap_permits ap1 - 1\<rparr>"
  show ?thesis
  proof (cases "ap_permits ap1 = 0")
    case True
    then show ?thesis using admitted assms(2) by (auto simp: reserve_and_start_def)
  next
    case False
    with admitted(7) assms(2) obtain ap2 where "ap' = ap2\<lparr>ap_permits := ap_permits ap2 + 1\<rparr>"
      and start: "start_reserved_query_run st sv script en ss req slots est confirmed key shared ?taken = (Inl refused, ap2)"
      by (auto simp: reserve_and_start_def Let_def split: if_splits prod.splits sum.splits)
    with start_reserved_result[OF start assms(2)] assms(3,4) admitted(3-6) False show ?thesis by auto
  qed
qed simp

lemma refused_create_leaves_nothing_witness:
  "\<exists>ap'. create_query_run sample_settings sample_services [] (sample_circumstances\<lparr>en_thread_starts := False\<rparr>) sample_session
      sample_create (sample_app 16) = (Inl (Unhandled ''RuntimeError''), ap')
    \<and> ap_workers ap' = [] \<and> ap_permits ap' = 16 \<and> unfinished (ap_repo ap') = {}"
proof -
  let ?en = "sample_circumstances\<lparr>en_thread_starts := False\<rparr>"
  obtain ap' where c: "create_query_run sample_settings sample_services [] ?en sample_session sample_create (sample_app 16)
      = (Inl (Unhandled ''RuntimeError''), ap')"
    using sample_outcome[of False] by auto
  from refused_create_leaves_nothing[OF c] c show ?thesis
    by (auto simp: sample_session_def sample_app_def sample_circumstances_def unfinished_def)
qed

section \<open>Capacity\<close>

text \<open>The requests the application serves and the workers that end, one after the other.\<close>

inductive app_run :: "guard_settings \<Rightarrow> run_services \<Rightarrow> app_state \<Rightarrow> bool" for st sv where
  fresh: "ap_permits ap = MAX_CONCURRENT_RUNS \<Longrightarrow> ap_workers ap = [] \<Longrightarrow> app_run st sv ap"
| estimated: "app_run st sv ap \<Longrightarrow> app_run st sv (snd (estimate_query_run st en ss req ap))"
| created: "app_run st sv ap \<Longrightarrow> dict_ok (ap_repo ap) \<Longrightarrow> map_of (ap_repo ap) (en_new_id en) = None \<Longrightarrow>
    app_run st sv (snd (create_query_run st sv script en ss req ap))"
| warned: "app_run st sv ap \<Longrightarrow> app_run st sv (snd (get_query_run_warnings en ss req ap))"
| asked: "app_run st sv ap \<Longrightarrow> app_run st sv (snd (get_query_run_result now ss rid ap))"
| cancelled: "app_run st sv ap \<Longrightarrow> app_run st sv (snd (cancel_query_run en ss rid ap))"
| ended: "app_run st sv ap \<Longrightarrow> app_run st sv (worker_ends sv script now i ap)"

definition holding :: "app_state \<Rightarrow> nat" where
  "holding ap = length (filter snd (ap_workers ap))"

lemma estimate_capacity:
  "ap_permits (snd (estimate_query_run st en ss req ap)) = ap_permits ap
   \<and> ap_workers (snd (estimate_query_run st en ss req ap)) = ap_workers ap"
proof -
  obtain opened ap0 where o: "open_request en req ap = (opened, ap0)" by force
  have "snd (estimate_query_run st en ss req ap) = ap0 \<or> (\<exists>cg. snd (estimate_query_run st en ss req ap) = ap0\<lparr>ap_guard := cg\<rparr>)"
    by (cases opened) (auto simp: estimate_query_run_def o split: prod.splits sum.splits)
  then show ?thesis using open_request_keeps[OF o] by auto
qed

lemma create_capacity:
  assumes "dict_ok (ap_repo ap)" and "map_of (ap_repo ap) (en_new_id en) = None"
    and "create_query_run st sv script en ss req ap = (res, ap')"
  shows "ap_permits ap' + holding ap' = ap_permits ap + holding ap"
  using assms(3)
proof (cases rule: create_decomposed)
  case (refused e)
  then show ?thesis by (simp add: holding_def)
next
  case (admitted slots key shared est confirmed ap1)
  show ?thesis
  proof (cases "ss_legacy ss")
    case True
    then show ?thesis using admitted legacy_starts_nothing[of st sv script en ss req slots est confirmed key shared ap1 res ap']
      by (simp add: reserve_and_start_def holding_def)
  next
    case False
    let ?taken = "ap1\<lparr>ap_permits := ap_permits ap1 - 1\<rparr>"
    obtain out ap2 where start: "start_reserved_query_run st sv script en ss req slots est confirmed key shared ?taken = (out, ap2)"
      by force
    have "dict_ok (ap_repo ?taken)" "map_of (ap_repo ?taken) (en_new_id en) = None" using assms(1,2) admitted(3) by simp_all
    note r = start_reserved_result[OF start False this]
    show ?thesis using admitted False start r
      by (auto simp: reserve_and_start_def Let_def holding_def split: if_splits sum.splits)
  qed
qed

lemma cancel_capacity:
  "ap_permits (snd (cancel_query_run en ss rid ap)) = ap_permits ap
   \<and> ap_workers (snd (cancel_query_run en ss rid ap)) = ap_workers ap"
  by (auto simp: cancel_query_run_def Let_def split: option.splits sum.splits prod.splits repo_error.splits if_splits)

lemma worker_capacity:
  "ap_permits (worker_ends sv script now i ap) + holding (worker_ends sv script now i ap) = ap_permits ap + holding ap"
proof (cases "i < length (ap_workers ap)")
  case True
  obtain rid holds where w: "ap_workers ap ! i = (rid, holds)" by force
  have "ap_workers ap = take i (ap_workers ap) @ (rid, holds) # drop (Suc i) (ap_workers ap)"
    using id_take_nth_drop[OF True] w by simp
  then have "holding ap = length (filter snd (take i (ap_workers ap) @ (rid, holds) # drop (Suc i) (ap_workers ap)))"
    unfolding holding_def by metis
  then show ?thesis using True w by (simp add: worker_ends_def holding_def Let_def)
qed (simp add: worker_ends_def)

text \<open>C12. Capacity is conserved: through any sequence of requests and worker ends, the free permits and the
  workers holding one add up to sixteen, so sixteen workers at most hold a permit, none leaks on a refused
  or failed start, and a worker gives back exactly what it was handed.\<close>

theorem permits_are_conserved:
  assumes "app_run st sv ap"
  shows "ap_permits ap + holding ap = MAX_CONCURRENT_RUNS"
  using assms
proof (induction rule: app_run.induct)
  case (created ap en script ss req)
  then show ?case using create_capacity[of ap en st sv script ss req] by (metis prod.collapse)
next
  case (warned ap en ss req)
  then show ?case
    by (auto simp: get_query_run_warnings_def Let_def holding_def split: option.splits sum.splits prod.splits)
next
  case (asked ap now ss rid)
  then show ?case
    by (auto simp: get_query_run_result_def Let_def holding_def split: option.splits prod.splits)
qed (auto simp: holding_def estimate_capacity cancel_capacity worker_capacity[unfolded holding_def])

lemma permits_are_conserved_witness:
  "ap_permits (snd (create_query_run sample_settings sample_services [] sample_circumstances sample_session sample_create (sample_app 16)))
    + holding (snd (create_query_run sample_settings sample_services [] sample_circumstances sample_session sample_create (sample_app 16)))
   = MAX_CONCURRENT_RUNS"
  by (intro permits_are_conserved[where st = sample_settings and sv = sample_services] app_run.created app_run.fresh)
    (simp_all add: sample_app_def MAX_CONCURRENT_RUNS_def dict_ok_def)

section \<open>Cancelling\<close>

lemma get_for_account_result:
  assumes "get_for_account now rid account repo = (found, repo')"
  shows "repo' = purge_expired now repo \<and> (case found of None \<Rightarrow> True
    | Some r \<Rightarrow> map_of repo' rid = Some r \<and> qr_account_id r = account)"
  using assms by (auto simp: get_for_account_def Let_def split: option.splits if_splits)

text \<open>The two writes of a cancel: the transition, then the annotation of the running stage.\<close>

definition cancel_note :: "query_run \<Rightarrow> status_update" where
  "cancel_note r = (stage_update None (running_stage_name (qr_progress r)) STAGE_SKIPPED ''Cancelled by the user.'')
     \<lparr>su_allow_terminal := True\<rparr>"

lemma cancel_note_fields [simp]:
  "qr_account_id (update_run now (cancel_note r) h) = qr_account_id h"
  "qr_status (update_run now (cancel_note r) h) = qr_status h"
  "qr_updated_at (update_run now (cancel_note r) h) = now"
  by (simp_all add: update_run_def cancel_note_def stage_update_def no_update_def Let_def set_steps_def
      split: option.split list.split)

lemma cancel_live_run:
  assumes "map_of repo rid = Some r" and "\<not> is_terminal r" and "dict_ok repo"
  shows "\<exists>h. transition now rid CANCELLED None None repo = (Inr h, dict_adjust rid (transition_run now CANCELLED None None) repo)
    \<and> h = transition_run now CANCELLED None None r
    \<and> update_status now rid (cancel_note h) (dict_adjust rid (transition_run now CANCELLED None None) repo)
        = (Inr (update_run now (cancel_note h) h), dict_adjust rid (\<lambda>r. update_run now (cancel_note h) (transition_run now CANCELLED None None r)) repo)
    \<and> qr_account_id (update_run now (cancel_note h) h) = qr_account_id r
    \<and> qr_status (update_run now (cancel_note h) h) = CANCELLED"
proof -
  have "CANCELLED \<in> ALLOWED_TRANSITIONS (qr_status r)"
    using assms(2) cancel_allowed by (auto simp: is_terminal_def)
  moreover have "dict_adjust rid f (dict_adjust rid g repo) = dict_adjust rid (\<lambda>r. f (g r)) repo" for f g :: "query_run \<Rightarrow> query_run"
    by (auto simp: dict_adjust_def)
  ultimately show ?thesis
    using assms(1) by (simp add: transition_def update_status_def)
qed

lemma cancel_reaches:
  assumes "get_for_account (at_now (en_moment en)) rid (ss_account_id ss) (ap_repo ap) = (Some r, repo)"
    and "\<not> is_terminal r" and "dict_ok (ap_repo ap)" and "en_csrf en = None" and "en_spend en = Inr key"
    and "account_allow (en_account_text en) (en_epoch en) (ap_limiter ap) = (True, l)"
  shows "\<exists>r' f. cancel_query_run en ss rid ap = (Inr r', ap\<lparr>ap_limiter := l,
      ap_repo := purge_expired (at_now (en_moment en)) (dict_adjust rid f repo)\<rparr>)
    \<and> qr_account_id r' = ss_account_id ss \<and> is_terminal r' \<and> f r = r'"
proof -
  let ?now = "at_now (en_moment en)"
  from get_for_account_result[OF assms(1)] have repo: "repo = purge_expired ?now (ap_repo ap)"
    and r: "map_of repo rid = Some r" "qr_account_id r = ss_account_id ss" by auto
  have ok: "dict_ok repo" using assms(3) by (simp add: repo purge_expired_def dict_ok_filter)
  from cancel_live_run[OF r(1) assms(2) ok, of ?now] obtain h where
    h: "transition ?now rid CANCELLED None None repo = (Inr h, dict_adjust rid (transition_run ?now CANCELLED None None) repo)"
    "h = transition_run ?now CANCELLED None None r"
    and u: "update_status ?now rid (cancel_note h) (dict_adjust rid (transition_run ?now CANCELLED None None) repo)
        = (Inr (update_run ?now (cancel_note h) h),
           dict_adjust rid (\<lambda>r. update_run ?now (cancel_note h) (transition_run ?now CANCELLED None None r)) repo)"
    and f: "qr_account_id (update_run ?now (cancel_note h) h) = qr_account_id r"
      "qr_status (update_run ?now (cancel_note h) h) = CANCELLED"
    by blast
  let ?f = "\<lambda>r. update_run ?now (cancel_note h) (transition_run ?now CANCELLED None None r)"
  have kept: "map_of (purge_expired ?now (dict_adjust rid ?f repo)) rid = Some (?f r)"
    using r(1) ok by (simp add: purge_expired_def map_of_filter run_expired_def QUERY_RUN_ACTIVE_TTL_def
        QUERY_RUN_TERMINAL_TTL_def)
  then have g: "get_run ?now rid (dict_adjust rid ?f repo) = (Inr (?f r), purge_expired ?now (dict_adjust rid ?f repo))"
    by (simp add: get_run_def Let_def)
  have "cancel_query_run en ss rid ap = (Inr (?f r), ap\<lparr>ap_limiter := l,
      ap_repo := purge_expired ?now (dict_adjust rid ?f repo)\<rparr>)"
    using assms h(1) u[unfolded cancel_note_def] g[unfolded cancel_note_def] by (simp add: cancel_query_run_def Let_def cancel_note_def)
  moreover have "is_terminal (?f r)" using f(2) h(2) by (simp add: is_terminal_def TERMINAL_STATUSES_def)
  moreover have "qr_account_id (?f r) = ss_account_id ss" using f(1) h(2) r(2) by simp
  ultimately show ?thesis by blast
qed

text \<open>A cancel reaches the caller's run and no other: every other run is as it was or has expired, a run of
  another account is not touched, what is returned is the caller's and terminal, and neither the permits, the
  workers nor the spend guard change.\<close>

theorem cancel_touches_only_the_callers_run:
  assumes "cancel_query_run en ss rid ap = (res, ap')" and "dict_ok (ap_repo ap)"
  shows "(\<forall>k r. map_of (ap_repo ap') k = Some r \<longrightarrow> k \<noteq> rid \<or> qr_account_id r \<noteq> ss_account_id ss \<longrightarrow> map_of (ap_repo ap) k = Some r)
    \<and> (\<forall>r. res = Inr r \<longrightarrow> qr_account_id r = ss_account_id ss \<and> is_terminal r)
    \<and> ap_permits ap' = ap_permits ap \<and> ap_workers ap' = ap_workers ap \<and> ap_guard ap' = ap_guard ap"
proof -
  let ?now = "at_now (en_moment en)"
  obtain allowed l where a: "account_allow (en_account_text en) (en_epoch en) (ap_limiter ap) = (allowed, l)" by force
  obtain found repo where g: "get_for_account ?now rid (ss_account_id ss) (ap_repo ap) = (found, repo)" by force
  note found = get_for_account_result[OF g]
  show ?thesis
  proof (cases "en_csrf en = None \<and> (\<exists>key. en_spend en = Inr key) \<and> allowed \<and> (\<exists>r. found = Some r \<and> \<not> is_terminal r)")
    case True
    then obtain key r where t: "en_csrf en = None" "en_spend en = Inr key" "found = Some r" "\<not> is_terminal r" by blast
    have "account_allow (en_account_text en) (en_epoch en) (ap_limiter ap) = (True, l)" using a True by simp
    from cancel_reaches[OF g[unfolded t(3)] t(4) assms(2) t(1,2) this] obtain r' f where
      c: "cancel_query_run en ss rid ap = (Inr r', ap\<lparr>ap_limiter := l, ap_repo := purge_expired ?now (dict_adjust rid f repo)\<rparr>)"
      "qr_account_id r' = ss_account_id ss" "is_terminal r'" "f r = r'" by blast
    have ok: "dict_ok (dict_adjust rid f repo)" using assms(2) found by (simp add: purge_expired_def dict_ok_filter)
    have rid: "map_of repo rid = Some r" using found t(3) by auto
    have "map_of (ap_repo ap) k = Some q"
      if q: "map_of (purge_expired ?now (dict_adjust rid f repo)) k = Some q" and other: "k \<noteq> rid \<or> qr_account_id q \<noteq> ss_account_id ss" for k q
    proof (cases "k = rid")
      case True
      then have "q = r'" using held_before_purge[OF ok q] rid c(4) by simp
      then show ?thesis using True other c(2) by simp
    next
      case False
      then have "map_of repo k = Some q" using held_before_purge[OF ok q] by simp
      then show ?thesis using found held_before_purge[OF assms(2)] by auto
    qed
    then show ?thesis using assms(1) c(1-3) by auto
  next
    case False
    then have "ap' = ap \<or> ap' = ap\<lparr>ap_limiter := l\<rparr> \<or> ap' = ap\<lparr>ap_limiter := l, ap_repo := repo\<rparr>"
      and "\<forall>r. res = Inr r \<longrightarrow> found = Some r \<and> is_terminal r"
      using assms(1) a g by (auto simp: cancel_query_run_def Let_def split: option.splits sum.splits if_splits)
    then show ?thesis using found held_before_purge[OF assms(2)] by auto
  qed
qed

definition cancelled_app :: app_state where
  "cancelled_app = (sample_app 15)\<lparr>ap_repo := [(5, (accepted_run MODE_PANEL)\<lparr>qr_query_run_id := 5, qr_account_id := 1\<rparr>),
     (6, (accepted_run MODE_PANEL)\<lparr>qr_query_run_id := 6\<rparr>)]\<rparr>"

lemma cancel_touches_only_the_callers_run_witness:
  "map_of (ap_repo (snd (cancel_query_run sample_circumstances sample_session 5 cancelled_app))) 6
     \<in> {None, Some ((accepted_run MODE_PANEL)\<lparr>qr_query_run_id := 6\<rparr>)}"
proof -
  have ok: "dict_ok (ap_repo cancelled_app)" by (simp add: cancelled_app_def dict_ok_def)
  have "map_of (ap_repo cancelled_app) 6 = Some q" if
    "map_of (ap_repo (snd (cancel_query_run sample_circumstances sample_session 5 cancelled_app))) 6 = Some q" for q
    using cancel_touches_only_the_callers_run[OF prod.collapse[symmetric] ok, of sample_circumstances sample_session 5] that by auto
  then show ?thesis by (cases "map_of (ap_repo (snd (cancel_query_run sample_circumstances sample_session 5 cancelled_app))) 6")
    (auto simp: cancelled_app_def)
qed

end
