(* ===== verification/Session_Store.thy ===== *)
theory Session_Store
  imports Prelude "HOL-Library.Product_Lexorder"
begin

text \<open>
  The durable store of \<^verbatim>\<open>src/product_app/session_store.py\<close>: browser sessions, Google accounts with
  their sessions cutoff and spend key, the spend-key carry of a deleted account, the signed-in history and the
  sign-in events. A table is a list of rows (keyed by its primary key where it has one). Every method first
  looks at the readiness flags and at \<open>_closed\<close>, then runs its statements; \<open>io\<close> is false when SQLite raises, and
  a transaction that raises is rolled back. A session is stored under the SHA-256 digest of its id, which here
  is the id itself. Timestamps are compared in the store as ISO text of UTC, which orders as the time does.
\<close>

section \<open>Rows\<close>

record stored_session =
  sd_session_id :: string
  sd_account_id :: uuid
  sd_csrf_token :: string
  sd_created_at :: micros
  sd_last_used_at :: micros

record account_row =
  ac_google_sub :: string
  ac_email :: string
  ac_created_at :: micros
  ac_last_sign_in_at :: micros
  ac_spend_key :: "uuid option"
  ac_valid_after :: "micros option"

record history_entry =
  hy_query_run_id :: uuid
  hy_account_id :: uuid
  hy_question :: string
  hy_status :: string
  hy_mode :: string
  hy_model_count :: nat
  hy_cost_usd :: usd
  hy_completed_at :: micros
  hy_verdict :: "string option"

record sign_in_event =
  si_rowid :: nat
  si_account_id :: uuid
  si_at :: micros
  si_outcome :: string

record session_store =
  sx_sessions :: "(string, stored_session) dict"
  sx_accounts :: "(uuid, account_row) dict"
  sx_carry :: "(uuid, uuid \<times> micros) dict"      \<comment> \<open>\<open>spend_key_carry\<close>: subject key, spend key, until\<close>
  sx_history :: "history_entry list"
  sx_sign_ins :: "sign_in_event list"
  sx_accounts_table :: bool
  sx_accounts_ready :: bool
  sx_safety_ready :: bool
  sx_history_ready :: bool
  sx_closed :: bool

definition SPEND_KEY_CARRY :: micros where "SPEND_KEY_CARRY = 24 * 60 * 60 * 1000000"

definition DAY_MICROS :: micros where "DAY_MICROS = 24 * 60 * 60 * 1000000"

section \<open>Sessions\<close>

text \<open>\<open>None\<close> when the question could not be answered.\<close>

definition no_account_row :: "bool \<Rightarrow> bool \<Rightarrow> uuid \<Rightarrow> session_store \<Rightarrow> bool option" where
  "no_account_row table_may_be_missing io account sx =
     (if sx_closed sx \<or> \<not> io \<or> (\<not> table_may_be_missing \<and> \<not> sx_accounts_table sx) then None
      else Some (\<not> sx_accounts_table sx \<or> map_of (sx_accounts sx) account = None))"

definition is_anonymous :: "bool \<Rightarrow> uuid \<Rightarrow> session_store \<Rightarrow> bool option" where
  "is_anonymous io account sx = (if \<not> sx_accounts_ready sx then None else no_account_row False io account sx)"

definition has_no_account_row :: "bool \<Rightarrow> uuid \<Rightarrow> session_store \<Rightarrow> bool option" where
  "has_no_account_row io account sx = no_account_row True io account sx"

definition write_session :: "bool \<Rightarrow> stored_session \<Rightarrow> session_store \<Rightarrow> bool \<times> session_store" where
  "write_session io s sx =
     (if sx_closed sx \<or> \<not> io then (False, sx)
      else (True, sx\<lparr>sx_sessions := AList.update (sd_session_id s) s (sx_sessions sx)\<rparr>))"

text \<open>A session its account's cutoff covers is not written; without the cutoff column only an anonymous one is.\<close>

definition save_session :: "bool \<Rightarrow> stored_session \<Rightarrow> session_store \<Rightarrow> bool \<times> session_store" where
  "save_session io s sx =
     (if \<not> sx_safety_ready sx then
        (if no_account_row True io (sd_account_id s) sx \<noteq> Some True then (False, sx) else write_session io s sx)
      else if (case map_of (sx_accounts sx) (sd_account_id s) of
                 None \<Rightarrow> False
               | Some a \<Rightarrow> (case ac_valid_after a of None \<Rightarrow> False | Some c \<Rightarrow> c \<ge> sd_created_at s))
      then (False, sx)
      else write_session io s sx)"

definition delete_session :: "bool \<Rightarrow> string \<Rightarrow> session_store \<Rightarrow> bool \<times> session_store" where
  "delete_session io sid sx =
     (if sx_closed sx \<or> \<not> io then (False, sx)
      else (True, sx\<lparr>sx_sessions := filter (\<lambda>(k, s). k \<noteq> sid) (sx_sessions sx)\<rparr>))"

definition delete_all_sessions :: "bool \<Rightarrow> session_store \<Rightarrow> bool \<times> session_store" where
  "delete_all_sessions io sx = (if sx_closed sx \<or> \<not> io then (False, sx) else (True, sx\<lparr>sx_sessions := []\<rparr>))"

definition delete_sessions_of :: "bool \<Rightarrow> uuid \<Rightarrow> session_store \<Rightarrow> bool \<times> session_store" where
  "delete_sessions_of io account sx =
     (if sx_closed sx \<or> \<not> io then (False, sx)
      else (True, sx\<lparr>sx_sessions := filter (\<lambda>(k, s). sd_account_id s \<noteq> account) (sx_sessions sx)\<rparr>))"

definition purge_stored :: "bool \<Rightarrow> micros \<Rightarrow> micros \<Rightarrow> micros option \<Rightarrow> session_store \<Rightarrow> nat \<times> session_store" where
  "purge_stored io now cutoff created_cutoff sx =
     (if sx_closed sx \<or> \<not> io then (0, sx)
      else
        let future = now + (now - cutoff);
            kept = filter (\<lambda>(k, s). \<not> (sd_last_used_at s < cutoff \<or> sd_last_used_at s > future
                     \<or> (case created_cutoff of None \<Rightarrow> False | Some c \<Rightarrow> sd_created_at s < c) \<or> sd_created_at s > future))
                   (sx_sessions sx)
        in (length (sx_sessions sx) - length kept, sx\<lparr>sx_sessions := kept\<rparr>))"

text \<open>Whether the read succeeded, and the row: none if it is too old, or implausibly far in the future.\<close>

definition fetch_checked ::
  "bool \<Rightarrow> micros \<Rightarrow> string \<Rightarrow> micros \<Rightarrow> micros option \<Rightarrow> session_store \<Rightarrow> bool \<times> stored_session option" where
  "fetch_checked io now sid not_used_before not_created_before sx =
     (if sx_closed sx \<or> \<not> io then (False, None)
      else (case map_of (sx_sessions sx) sid of
          None \<Rightarrow> (True, None)
        | Some s \<Rightarrow>
            if \<not> (sd_last_used_at s \<ge> not_used_before
                  \<and> (case not_created_before of None \<Rightarrow> True | Some c \<Rightarrow> sd_created_at s \<ge> c))
            then (True, None)
            else let tolerance = now - not_used_before
                 in if sd_last_used_at s - now > tolerance \<or> sd_created_at s - now > tolerance
                    then (True, None) else (True, Some (s\<lparr>sd_session_id := sid\<rparr>))))"

definition count_sessions :: "bool \<Rightarrow> session_store \<Rightarrow> nat" where
  "count_sessions io sx = (if sx_closed sx \<or> \<not> io then 0 else length (sx_sessions sx))"

section \<open>The sessions cutoff\<close>

datatype end_outcome = END_ENDED | END_NO_ACCOUNT | END_FAILED

text \<open>The cutoff only rises.\<close>

definition end_sessions_before :: "bool \<Rightarrow> uuid \<Rightarrow> micros \<Rightarrow> session_store \<Rightarrow> end_outcome \<times> session_store" where
  "end_sessions_before io account cutoff sx =
     (if \<not> sx_safety_ready sx \<or> sx_closed sx \<or> \<not> io then (END_FAILED, sx)
      else if map_of (sx_accounts sx) account = None then (END_NO_ACCOUNT, sx)
      else (END_ENDED,
        sx\<lparr>sx_accounts := dict_adjust account (\<lambda>a. a\<lparr>ac_valid_after :=
               Some (case ac_valid_after a of None \<Rightarrow> cutoff | Some c \<Rightarrow> max c cutoff)\<rparr>) (sx_accounts sx),
           sx_sessions := filter (\<lambda>(k, s). \<not> (sd_account_id s = account \<and> sd_created_at s \<le> cutoff)) (sx_sessions sx)\<rparr>))"

text \<open>Whether the cutoff was read (the lock was taken in time, the store answered), and the cutoff.\<close>

definition sessions_valid_after :: "bool \<Rightarrow> bool \<Rightarrow> uuid \<Rightarrow> session_store \<Rightarrow> bool \<times> micros option" where
  "sessions_valid_after locked io account sx =
     (if \<not> locked \<or> sx_closed sx then (False, None)
      else if \<not> sx_safety_ready sx then
        (if no_account_row True io account sx = Some True then (True, None) else (False, None))
      else if \<not> io then (False, None)
      else (True, case map_of (sx_accounts sx) account of None \<Rightarrow> None | Some a \<Rightarrow> ac_valid_after a))"

text \<open>What the schema says when asked again; readiness is only ever gained.\<close>

definition refresh_readiness :: "bool \<times> bool \<Rightarrow> session_store \<Rightarrow> session_store" where
  "refresh_readiness schema sx =
     (if sx_safety_ready sx \<or> sx_closed sx then sx
      else let sx = (if fst schema then sx\<lparr>sx_accounts_ready := True\<rparr> else sx)
           in if snd schema then sx\<lparr>sx_safety_ready := True\<rparr> else sx)"

section \<open>Accounts and spend keys\<close>

definition purge_lapsed_carry :: "micros \<Rightarrow> (uuid, uuid \<times> micros) dict \<Rightarrow> (uuid, uuid \<times> micros) dict" where
  "purge_lapsed_carry now carry = filter (\<lambda>(k, key, until). \<not> until \<le> now) carry"

text \<open>\<open>subject\<close> is the keyed hash of the Google subject (\<open>account_id_for\<close> under the deployment's secret).\<close>

definition carry_spend_key ::
  "(string \<Rightarrow> uuid) \<Rightarrow> micros \<Rightarrow> uuid \<Rightarrow> session_store \<Rightarrow> session_store" where
  "carry_spend_key subject now account sx =
     (let sx = sx\<lparr>sx_carry := purge_lapsed_carry now (sx_carry sx)\<rparr> in
      case map_of (sx_accounts sx) account of
        None \<Rightarrow> sx
      | Some a \<Rightarrow> sx\<lparr>sx_carry := AList.update (subject (ac_google_sub a))
          (case ac_spend_key a of None \<Rightarrow> account | Some k \<Rightarrow> k, now + SPEND_KEY_CARRY) (sx_carry sx)\<rparr>)"

definition delete_account_rows ::
  "(string \<Rightarrow> uuid) \<Rightarrow> bool \<Rightarrow> micros \<Rightarrow> uuid \<Rightarrow> session_store \<Rightarrow> bool \<times> session_store" where
  "delete_account_rows subject io now account sx =
     (if \<not> sx_accounts_ready sx \<or> sx_closed sx \<or> \<not> io then (False, sx)
      else
        let sx = carry_spend_key subject now account sx;
            sx = (if sx_history_ready sx
                  then sx\<lparr>sx_history := filter (\<lambda>h. hy_account_id h \<noteq> account) (sx_history sx)\<rparr> else sx);
            sx = (if sx_safety_ready sx
                  then sx\<lparr>sx_sign_ins := filter (\<lambda>e. si_account_id e \<noteq> account) (sx_sign_ins sx)\<rparr> else sx)
        in (True, sx\<lparr>sx_sessions := filter (\<lambda>(k, s). sd_account_id s \<noteq> account) (sx_sessions sx),
                    sx_accounts := filter (\<lambda>(k, a). k \<noteq> account) (sx_accounts sx)\<rparr>))"

definition account_of_subject :: "string \<Rightarrow> session_store \<Rightarrow> uuid option" where
  "account_of_subject sub sx = map_option fst (find (\<lambda>(k, a). ac_google_sub a = sub) (sx_accounts sx))"

text \<open>Signing in: a new account gets a random id, and the spend key its subject carried or else its subject key.\<close>

definition upsert_google_account ::
  "(string \<Rightarrow> uuid) \<Rightarrow> bool \<Rightarrow> micros \<Rightarrow> uuid \<Rightarrow> string \<Rightarrow> string \<Rightarrow> session_store \<Rightarrow> uuid option \<times> session_store" where
  "upsert_google_account subject io now fresh sub email sx =
     (if \<not> (sx_accounts_ready sx \<and> sx_safety_ready sx) \<or> sx_closed sx \<or> \<not> io then (None, sx)
      else
        let found = account_of_subject sub sx;
            sx = sx\<lparr>sx_carry := purge_lapsed_carry now (sx_carry sx)\<rparr>
        in case found of
             None \<Rightarrow>
               let key = (case map_of (sx_carry sx) (subject sub) of None \<Rightarrow> subject sub | Some (k, until) \<Rightarrow> k)
               in (Some fresh, sx\<lparr>sx_accounts := sx_accounts sx @ [(fresh,
                     \<lparr>ac_google_sub = sub, ac_email = email, ac_created_at = now, ac_last_sign_in_at = now,
                      ac_spend_key = Some key, ac_valid_after = None\<rparr>)]\<rparr>)
           | Some account \<Rightarrow>
               (Some account, sx\<lparr>sx_accounts := map (\<lambda>(k, a). if ac_google_sub a = sub
                  then (k, a\<lparr>ac_email := email, ac_last_sign_in_at := now\<rparr>) else (k, a)) (sx_accounts sx)\<rparr>))"

definition stored_spend_key_for :: "bool \<Rightarrow> uuid \<Rightarrow> session_store \<Rightarrow> uuid option" where
  "stored_spend_key_for io account sx =
     (if \<not> sx_accounts_ready sx then Some account
      else if sx_closed sx \<or> \<not> io then None
      else (case map_of (sx_accounts sx) account of
          None \<Rightarrow> Some account
        | Some a \<Rightarrow> (case ac_spend_key a of None \<Rightarrow> Some account | Some k \<Rightarrow> Some k)))"

definition account_for :: "bool \<Rightarrow> uuid \<Rightarrow> session_store \<Rightarrow> (uuid \<times> string) option" where
  "account_for io account sx =
     (if \<not> sx_accounts_ready sx \<or> sx_closed sx \<or> \<not> io then None
      else map_option (\<lambda>a. (account, ac_email a)) (map_of (sx_accounts sx) account))"

section \<open>Sign-in events and history\<close>

text \<open>The newest \<open>keep\<close> of some rows, by \<open>f\<close> descending.\<close>

definition newest :: "nat \<Rightarrow> ('a \<Rightarrow> 'b::linorder) \<Rightarrow> 'a list \<Rightarrow> 'a list" where
  "newest keep f rows = take keep (rev (sort_key f rows))"

definition record_sign_in_event ::
  "bool \<Rightarrow> uuid \<Rightarrow> string \<Rightarrow> micros \<Rightarrow> nat \<Rightarrow> nat \<Rightarrow> session_store \<Rightarrow> bool \<times> session_store" where
  "record_sign_in_event io account outcome now keep_count keep_days sx =
     (if \<not> sx_safety_ready sx \<or> sx_closed sx \<or> \<not> io then (False, sx)
      else
        let cutoff = now - int keep_days * DAY_MICROS;
            rowid = Suc (fold max (map si_rowid (sx_sign_ins sx)) 0);
            events = (if map_of (sx_accounts sx) account = None then sx_sign_ins sx
                      else sx_sign_ins sx @ [\<lparr>si_rowid = rowid, si_account_id = account, si_at = now, si_outcome = outcome\<rparr>]);
            events = filter (\<lambda>e. \<not> (si_account_id e = account \<and> si_at e < cutoff)) events;
            kept = map si_rowid (newest keep_count (\<lambda>e. (si_at e, si_rowid e)) (filter (\<lambda>e. si_account_id e = account) events))
        in (True, sx\<lparr>sx_sign_ins := filter (\<lambda>e. si_account_id e \<noteq> account \<or> si_rowid e \<in> set kept) events\<rparr>))"

definition history_order :: "history_entry \<Rightarrow> micros \<times> uuid" where
  "history_order h = (hy_completed_at h, hy_query_run_id h)"

text \<open>The upsert: an id of another account is left alone, an id of the same account is rewritten.\<close>

definition put_history :: "history_entry \<Rightarrow> history_entry list \<Rightarrow> history_entry list" where
  "put_history e rows =
     (if find (\<lambda>h. hy_query_run_id h = hy_query_run_id e) rows = None then rows @ [e]
      else map (\<lambda>h. if hy_query_run_id h = hy_query_run_id e \<and> hy_account_id h = hy_account_id e then e else h) rows)"

definition record_history :: "bool \<Rightarrow> history_entry \<Rightarrow> nat \<Rightarrow> nat \<Rightarrow> micros \<Rightarrow> session_store \<Rightarrow> bool \<times> session_store" where
  "record_history io e keep_count keep_days now sx =
     (if \<not> sx_history_ready sx \<or> sx_closed sx \<or> \<not> io then (False, sx)
      else
        let account = hy_account_id e; cutoff = now - int keep_days * DAY_MICROS;
            rows = (if map_of (sx_accounts sx) account = None then sx_history sx else put_history e (sx_history sx));
            rows = filter (\<lambda>h. \<not> (hy_account_id h = account \<and> hy_completed_at h < cutoff)) rows;
            kept = map hy_query_run_id (newest keep_count history_order (filter (\<lambda>h. hy_account_id h = account) rows))
        in (True, sx\<lparr>sx_history := filter (\<lambda>h. hy_account_id h \<noteq> account \<or> hy_query_run_id h \<in> set kept) rows\<rparr>))"

definition history_for :: "bool \<Rightarrow> uuid \<Rightarrow> nat \<Rightarrow> nat \<Rightarrow> micros \<Rightarrow> session_store \<Rightarrow> history_entry list option" where
  "history_for io account keep_count keep_days now sx =
     (if \<not> sx_history_ready sx \<or> sx_closed sx \<or> \<not> io then None
      else Some (newest keep_count history_order
        (filter (\<lambda>h. hy_account_id h = account \<and> hy_completed_at h \<ge> now - int keep_days * DAY_MICROS) (sx_history sx))))"

text \<open>Aged rows of every account, then each account's rows past its count.\<close>

definition sweep_history :: "bool \<Rightarrow> nat \<Rightarrow> nat \<Rightarrow> micros \<Rightarrow> session_store \<Rightarrow> (nat \<times> nat) \<times> session_store" where
  "sweep_history io keep_count keep_days now sx =
     (if \<not> sx_history_ready sx \<or> sx_closed sx \<or> \<not> io then ((0, 0), sx)
      else
        let cutoff = now - int keep_days * DAY_MICROS; rows = sx_history sx;
            mine = (\<lambda>rows h. filter (\<lambda>g. hy_account_id g = hy_account_id h) rows);
            due = list_ex (\<lambda>h. hy_completed_at h < cutoff \<or> length (mine rows h) > keep_count) rows
        in if \<not> due then ((0, 0), sx)
           else
             let young = filter (\<lambda>h. \<not> hy_completed_at h < cutoff) rows;
                 kept = filter (\<lambda>h. hy_query_run_id h \<in> hy_query_run_id ` set (newest keep_count history_order (mine young h))) young
             in ((length rows - length young, length young - length kept), sx\<lparr>sx_history := kept\<rparr>))"

end
