(* ===== verification/Store_Laws.thy ===== *)
theory Store_Laws
  imports Session_Store
begin

text \<open>
  Two promises of the durable store: deleting an account and signing in again does not give its owner a new
  spending meter, and the history page reads what was recorded.
\<close>

section \<open>The spend key outlives the account\<close>

datatype account_op = SignIn micros uuid string string | DeleteAccount micros uuid

fun account_step :: "(string \<Rightarrow> uuid) \<Rightarrow> account_op \<Rightarrow> session_store \<Rightarrow> session_store" where
  "account_step subject (SignIn now fresh sub email) sx = snd (upsert_google_account subject True now fresh sub email sx)"
| "account_step subject (DeleteAccount now account) sx = snd (delete_account_rows subject True now account sx)"

fun account_time :: "account_op \<Rightarrow> micros" where
  "account_time (SignIn now fresh sub email) = now"
| "account_time (DeleteAccount now account) = now"

fun signs_in :: "string \<Rightarrow> account_op \<Rightarrow> bool" where
  "signs_in sub (SignIn now fresh sub' email) = (sub' = sub)"
| "signs_in sub (DeleteAccount now account) = False"

definition store_open :: "session_store \<Rightarrow> bool" where
  "store_open sx = (sx_accounts_ready sx \<and> sx_safety_ready sx \<and> \<not> sx_closed sx)"

definition subject_absent :: "string \<Rightarrow> session_store \<Rightarrow> bool" where
  "subject_absent sub sx = (\<forall>(k, a) \<in> set (sx_accounts sx). ac_google_sub a \<noteq> sub)"

lemma account_of_subject_None: "account_of_subject sub sx = None \<longleftrightarrow> subject_absent sub sx"
  by (auto simp: account_of_subject_def subject_absent_def find_None_iff)

text \<open>The key waits in the carry while the subject has no account.\<close>

definition carries :: "(string \<Rightarrow> uuid) \<Rightarrow> string \<Rightarrow> uuid \<Rightarrow> micros \<Rightarrow> session_store \<Rightarrow> bool" where
  "carries subject sub key until sx =
     (store_open sx \<and> subject_absent sub sx \<and> dict_ok (sx_carry sx)
      \<and> map_of (sx_carry sx) (subject sub) = Some (key, until))"

lemma lapsed_keeps:
  "dict_ok carry \<Longrightarrow> map_of carry k = Some (key, until) \<Longrightarrow> now < until \<Longrightarrow>
   map_of (purge_lapsed_carry now carry) k = Some (key, until)"
  by (simp add: purge_lapsed_carry_def map_of_filter)

lemma dict_ok_lapsed [simp]: "dict_ok carry \<Longrightarrow> dict_ok (purge_lapsed_carry now carry)"
  by (simp add: purge_lapsed_carry_def dict_ok_filter)

lemma carry_step:
  assumes "carries subject sub key until sx" and "account_time x < until" and "\<not> signs_in sub x"
    and "\<And>s. subject s = subject sub \<Longrightarrow> s = sub"
  shows "carries subject sub key until (account_step subject x sx)"
proof (cases x)
  case (SignIn now fresh sub' email)
  then have "now < until" "sub' \<noteq> sub" using assms(2,3) by auto
  then show ?thesis using assms(1) SignIn lapsed_keeps[of "sx_carry sx" "subject sub" key until now]
    by (auto simp: carries_def store_open_def subject_absent_def upsert_google_account_def Let_def split: option.split if_splits)
next
  case (DeleteAccount now account)
  then have "now < until" using assms(2) by simp
  have other: "subject (ac_google_sub a) \<noteq> subject sub" if "map_of (sx_accounts sx) account = Some a" for a
  proof -
    have "ac_google_sub a \<noteq> sub"
      using map_of_SomeD[OF that] assms(1) by (fastforce simp: carries_def subject_absent_def)
    then show ?thesis using assms(4) by blast
  qed
  show ?thesis using assms(1) DeleteAccount \<open>now < until\<close> other lapsed_keeps[of "sx_carry sx" "subject sub" key until now]
    by (auto simp: carries_def store_open_def subject_absent_def delete_account_rows_def carry_spend_key_def Let_def
        dict_ok_update split: option.split)
qed

lemma carry_steps:
  assumes "carries subject sub key until sx" and "\<forall>x \<in> set ops. account_time x < until \<and> \<not> signs_in sub x"
    and "\<And>s. subject s = subject sub \<Longrightarrow> s = sub"
  shows "carries subject sub key until (foldl (\<lambda>sx x. account_step subject x sx) sx ops)"
  using assms(1,2) by (induction ops arbitrary: sx) (auto intro: carry_step[OF _ _ _ assms(3)])

lemma deletion_carries:
  assumes "map_of (sx_accounts sx) account = Some a" and "ac_google_sub a = sub" and "stored_spend_key_for True account sx = Some key"
    and "\<And>k b. (k, b) \<in> set (sx_accounts sx) \<Longrightarrow> ac_google_sub b = sub \<Longrightarrow> k = account"
    and "store_open sx" and "dict_ok (sx_carry sx)"
  shows "carries subject sub key (now + SPEND_KEY_CARRY) (snd (delete_account_rows subject True now account sx))"
  using assms by (auto simp: carries_def store_open_def subject_absent_def delete_account_rows_def carry_spend_key_def
      stored_spend_key_for_def Let_def dict_ok_update split: option.splits)

text \<open>Deleting an account does not reset its owner's spending: whoever deletes an account and signs in again
  with the same Google subject within twenty-four hours, whatever other visitors did in between, gets an
  account with another id that is metered under the same spend key.\<close>

theorem spend_key_survives_deletion:
  assumes "map_of (sx_accounts sx) account = Some a" and "ac_google_sub a = sub" and "stored_spend_key_for True account sx = Some key"
    and "\<And>k b. (k, b) \<in> set (sx_accounts sx) \<Longrightarrow> ac_google_sub b = sub \<Longrightarrow> k = account"
    and "store_open sx" and "dict_ok (sx_carry sx)" and "\<And>s. subject s = subject sub \<Longrightarrow> s = sub"
    and "delete_account_rows subject True t account sx = (True, sx1)"
    and "\<forall>x \<in> set ops. account_time x < t + SPEND_KEY_CARRY \<and> \<not> signs_in sub x"
    and "sx2 = foldl (\<lambda>sx x. account_step subject x sx) sx1 ops"
    and "upsert_google_account subject True t' fresh sub email sx2 = (Some account', sx3)" and "t' < t + SPEND_KEY_CARRY"
    and "fresh \<notin> fst ` set (sx_accounts sx2)"
  shows "account' = fresh \<and> stored_spend_key_for True account' sx3 = Some key"
proof -
  have "carries subject sub key (t + SPEND_KEY_CARRY) sx1"
    using deletion_carries[OF assms(1-6), where subject = subject and now = t] assms(8) by simp
  from carry_steps[OF this assms(9) assms(7)] have held: "carries subject sub key (t + SPEND_KEY_CARRY) sx2"
    using assms(10) by simp
  then have "map_of (purge_lapsed_carry t' (sx_carry sx2)) (subject sub) = Some (key, t + SPEND_KEY_CARRY)"
    using assms(12) by (intro lapsed_keeps) (auto simp: carries_def)
  moreover have "account_of_subject sub sx2 = None" using held by (simp add: carries_def account_of_subject_None)
  moreover have "map_of (sx_accounts sx2) fresh = None" using assms(13) by (simp add: map_of_eq_None_iff)
  ultimately show ?thesis using assms(11) held
    by (auto simp: upsert_google_account_def carries_def store_open_def stored_spend_key_for_def Let_def map_add_def)
qed

definition legacy_store :: session_store where
  "legacy_store = \<lparr>sx_sessions = [], sx_accounts = [(7, \<lparr>ac_google_sub = ''g'', ac_email = ''e'', ac_created_at = 0,
     ac_last_sign_in_at = 0, ac_spend_key = None, ac_valid_after = None\<rparr>)], sx_carry = [], sx_history = [], sx_sign_ins = [],
     sx_accounts_table = True, sx_accounts_ready = True, sx_safety_ready = True, sx_history_ready = True, sx_closed = False\<rparr>"

definition one_subject :: "string \<Rightarrow> uuid" where
  "one_subject s = (if s = ''g'' then 1 else 2)"

lemma spend_key_survives_deletion_witness:
  "\<exists>sx3. upsert_google_account one_subject True 60 8 ''g'' ''e'' (snd (delete_account_rows one_subject True 50 7 legacy_store)) = (Some 8, sx3)
     \<and> stored_spend_key_for True 8 sx3 = Some 7"
proof -
  let ?sx1 = "snd (delete_account_rows one_subject True 50 7 legacy_store)"
  obtain account' sx3 where u: "upsert_google_account one_subject True 60 8 ''g'' ''e'' ?sx1 = (Some account', sx3)"
    by (simp add: upsert_google_account_def delete_account_rows_def carry_spend_key_def legacy_store_def account_of_subject_def Let_def)
  have d: "delete_account_rows one_subject True 50 7 legacy_store = (True, ?sx1)"
    by (simp add: delete_account_rows_def legacy_store_def Let_def)
  have "account' = 8 \<and> stored_spend_key_for True account' sx3 = Some 7"
    by (rule spend_key_survives_deletion[where ops = "[]", OF _ _ _ _ _ _ _ d _ _ u])
      (auto simp: legacy_store_def stored_spend_key_for_def store_open_def one_subject_def SPEND_KEY_CARRY_def
        delete_account_rows_def carry_spend_key_def Let_def split: if_splits)
  with u show ?thesis by auto
qed

section \<open>History\<close>

lemma newest_of_newest:
  assumes "distinct (map f rows)"
  shows "newest keep f (filter (\<lambda>r. f r \<in> f ` set (newest keep f rows)) rows) = newest keep f rows"
proof -
  let ?s = "rev (sort_key f rows)"
  have dist: "distinct (map f ?s)" using assms by (simp add: rev_map distinct_map)
  have take: "filter (\<lambda>r. f r \<in> f ` set (take keep ?s)) ?s = take keep ?s"
    if "distinct (map f ?s)" for keep
  proof -
    have "?s = take keep ?s @ drop keep ?s" by simp
    moreover have "f r \<notin> f ` set (take keep ?s)" if "r \<in> set (drop keep ?s)" for r
      using \<open>distinct (map f ?s)\<close> that by (metis append_take_drop_id distinct_append disjoint_iff imageI map_append set_map)
    ultimately show ?thesis
      by (metis (no_types, lifting) append_Nil2 filter_True filter_False filter_append imageI)
  qed
  show ?thesis unfolding newest_def
    by (simp add: filter_sort[symmetric] rev_filter take[OF dist])
qed

lemma ids_order:
  assumes "distinct (map hy_query_run_id rows)"
  shows "distinct (map history_order rows)"
  using assms by (auto simp: distinct_map inj_on_def history_order_def)

text \<open>The rows of an account that a page of a given age may show.\<close>

definition young_rows :: "uuid \<Rightarrow> nat \<Rightarrow> micros \<Rightarrow> history_entry list \<Rightarrow> history_entry list" where
  "young_rows account keep_days now rows =
     filter (\<lambda>h. hy_account_id h = account \<and> hy_completed_at h \<ge> now - int keep_days * DAY_MICROS) rows"

lemma put_history_ids:
  assumes "distinct (map hy_query_run_id rows)"
  shows "distinct (map hy_query_run_id (put_history e rows))"
proof -
  have "map hy_query_run_id (map (\<lambda>h. if hy_query_run_id h = hy_query_run_id e \<and> hy_account_id h = hy_account_id e then e else h) rows)
      = map hy_query_run_id rows"
    by (induction rows) auto
  then show ?thesis using assms
    by (auto simp: put_history_def find_None_iff simp del: map_map)
qed

text \<open>The history page reads what was recorded: after an entry is recorded, the account's page is the newest
  rows within the age limit of the old rows with the entry put in, so trimming on the write never takes a row
  a read would have shown; the entry itself is on it unless as many newer ones are kept, or the id was
  another account's.\<close>

theorem recorded_history_is_read_back:
  assumes "record_history True e keep_count keep_days now sx = (True, sx')" and "hy_account_id e = account"
    and "map_of (sx_accounts sx) account \<noteq> None" and "distinct (map hy_query_run_id (sx_history sx))"
  shows "history_for True account keep_count keep_days now sx'
    = Some (newest keep_count history_order (young_rows account keep_days now (put_history e (sx_history sx))))"
proof -
  let ?rows = "put_history e (sx_history sx)"
  let ?left = "filter (\<lambda>h. \<not> (hy_account_id h = account \<and> hy_completed_at h < now - int keep_days * DAY_MICROS)) ?rows"
  let ?mine = "filter (\<lambda>h. hy_account_id h = account) ?left"
  let ?kept = "newest keep_count history_order ?mine"
  have flags: "sx_history_ready sx" "\<not> sx_closed sx" using assms(1) by (auto simp: record_history_def split: if_splits)
  then have sx': "sx' = sx\<lparr>sx_history := filter (\<lambda>h. hy_account_id h \<noteq> account \<or> hy_query_run_id h \<in> hy_query_run_id ` set ?kept) ?left\<rparr>"
    using assms(1-3) by (auto simp: record_history_def Let_def)
  have mine: "?mine = young_rows account keep_days now ?rows"
    by (auto simp: young_rows_def filter_filter intro!: filter_cong)
  have ids: "distinct (map hy_query_run_id ?mine)"
    using put_history_ids[OF assms(4)] by (simp add: distinct_map_filter)
  have "young_rows account keep_days now (sx_history sx')
      = filter (\<lambda>h. hy_query_run_id h \<in> hy_query_run_id ` set ?kept) ?mine"
    by (auto simp: sx' young_rows_def filter_filter intro!: filter_cong)
  also have "\<dots> = filter (\<lambda>h. history_order h \<in> history_order ` set ?kept) ?mine"
  proof (rule filter_cong[OF refl])
    fix h assume h: "h \<in> set ?mine"
    have sub: "set ?kept \<subseteq> set ?mine" by (auto simp: newest_def dest: in_set_takeD)
    have "hy_query_run_id h = hy_query_run_id g \<Longrightarrow> h = g" if "g \<in> set ?mine" for g
      using ids h that by (auto simp: distinct_map inj_on_def)
    with sub show "(hy_query_run_id h \<in> hy_query_run_id ` set ?kept) = (history_order h \<in> history_order ` set ?kept)"
      by (auto simp: history_order_def)
  qed
  finally show ?thesis
    using flags newest_of_newest[OF ids_order[OF ids]] mine by (simp add: sx' history_for_def young_rows_def)
qed

definition sample_entry :: "uuid \<Rightarrow> micros \<Rightarrow> history_entry" where
  "sample_entry i at_time = \<lparr>hy_query_run_id = i, hy_account_id = 7, hy_question = ''q'', hy_status = ''completed'',
     hy_mode = ''panel'', hy_model_count = 2, hy_cost_usd = 0, hy_completed_at = at_time, hy_verdict = None\<rparr>"

lemma recorded_history_is_read_back_witness:
  "history_for True 7 1 30 9 (snd (record_history True (sample_entry 2 5) 1 30 9 (legacy_store\<lparr>sx_history := [sample_entry 1 3]\<rparr>)))
     = Some [sample_entry 2 5]"
proof -
  let ?sx = "legacy_store\<lparr>sx_history := [sample_entry 1 3]\<rparr>"
  have r: "record_history True (sample_entry 2 5) 1 30 9 ?sx = (True, snd (record_history True (sample_entry 2 5) 1 30 9 ?sx))"
    by (simp add: record_history_def legacy_store_def Let_def)
  have "newest 1 history_order (young_rows 7 30 9 (put_history (sample_entry 2 5) (sx_history ?sx))) = [sample_entry 2 5]"
    by (simp add: newest_def young_rows_def put_history_def sample_entry_def history_order_def DAY_MICROS_def)
  with recorded_history_is_read_back[OF r, of 7] show ?thesis
    by (simp add: sample_entry_def legacy_store_def)
qed

end
