(* ===== verification/Consensus.thy ===== *)
theory Consensus
  imports Safety Untrusted_Text
begin

text \<open>
  \<^verbatim>\<open>synthesis_consensus.py\<close>: how strongly the panel agrees, and how each model stands to the majority. A usable
  panel stance (a reading of who takes which position) decides when there is one; otherwise the overlap of the
  answers' excerpts, a converging critique and opposed words do. The floating-point thresholds 0.1 are compared
  as fractions of the small counts they are applied to. The alignment summary and the wording of
  \<^verbatim>\<open>debate.py\<close> that read the result are here as well.
\<close>

section \<open>Words of a text\<close>

definition CONVERGE_KEYWORDS :: "string list" where
  "CONVERGE_KEYWORDS = [''converge'', ''converged'', ''reach agreement'', ''reached agreement'', ''agreement reached'',
     ''broadly agree'', ''broadly agreeing'']"

definition NEGATION_TOKENS :: "string list" where
  "NEGATION_TOKENS = [''not '', ''no '', ''didn'' @ [CHR 0x27] @ ''t '', ''doesn'' @ [CHR 0x27] @ ''t '', ''did not '', ''does not '',
     ''cannot '', ''can'' @ [CHR 0x27] @ ''t '']"

text \<open>Each pair as \<^verbatim>\<open>sorted(pair)\<close>.\<close>

definition POLAR_PAIRS :: "(string \<times> string) list" where
  "POLAR_PAIRS = [(''no'', ''yes''), (''safe'', ''unsafe''), (''avoid'', ''recommend''), (''false'', ''true''),
     (''decrease'', ''increase''), (''oppose'', ''support''), (''affordable'', ''expensive'')]"

definition OVERLAP_EXCERPT_CHARS :: nat where "OVERLAP_EXCERPT_CHARS = 200"

text \<open>\<^verbatim>\<open>re.findall("[a-z0-9]+", s)\<close>\<close>

definition is_token_char :: "char \<Rightarrow> bool" where
  "is_token_char c = (is_digit c \<or> 97 \<le> code c \<and> code c \<le> 122)"

function tokens :: "string \<Rightarrow> string list" where
  "tokens [] = []"
| "tokens (c # cs) =
     (if is_token_char c then (c # takeWhile is_token_char cs) # tokens (dropWhile is_token_char cs) else tokens cs)"
  by pat_completeness auto

termination
  by (relation "measure length") (auto simp: le_imp_less_Suc length_dropWhile_le)

definition four_grams :: "string \<Rightarrow> string set" where
  "four_grams s =
     (let words = tokens (lower s) in
      if length words < 4 then set words
      else set (map (\<lambda>i. join '' '' (take 4 (drop i words))) [0..<length words - 3]))"

definition excerpt :: "string \<Rightarrow> string" where
  "excerpt s = take OVERLAP_EXCERPT_CHARS (map (\<lambda>c. if c = CHR 0x0A then CHR '' '' else c) s)"

text \<open>\<^verbatim>\<open>re.search(r"\bw\b", s)\<close> for a word of letters.\<close>

fun word_in :: "string \<Rightarrow> bool \<Rightarrow> string \<Rightarrow> bool" where
  "word_in w after_word [] = False"
| "word_in w after_word (c # cs) =
     (\<not> after_word \<and> starts_with w (c # cs) \<and> at_word_end (drop (length w) (c # cs)) \<or> word_in w (is_word c) cs)"

definition has_word :: "string \<Rightarrow> string \<Rightarrow> bool" where "has_word w s = word_in w False s"

text \<open>The starts of \<^verbatim>\<open>re.finditer(re.escape(p), s)\<close>, matches not overlapping.\<close>

function occurrences :: "string \<Rightarrow> nat \<Rightarrow> string \<Rightarrow> nat list" where
  "occurrences p i [] = []"
| "occurrences p i (c # cs) =
     (if p \<noteq> [] \<and> starts_with p (c # cs) then i # occurrences p (i + length p) (drop (length p) (c # cs))
      else occurrences p (i + 1) cs)"
  by pat_completeness auto

termination
  by (relation "measure (\<lambda>(p, i, s). length s)") auto

section \<open>Which answers are evidence\<close>

definition counts_as_evidence :: "initial_answer \<Rightarrow> bool" where
  "counts_as_evidence a =
     (ia_status a = ANSWER_COMPLETED \<and> visible (ia_answer_text a) \<and> model_was_invoked a)"

definition scored_slot_numbers :: "initial_answer list \<Rightarrow> nat set" where
  "scored_slot_numbers answers = set (map ia_slot_number (filter counts_as_evidence answers))"

definition scoring_text :: "initial_answer \<Rightarrow> string" where
  "scoring_text a = strip_own_caveat (ia_answer_text a)"

section \<open>The panel's stance\<close>

definition stance_is_admissible :: "debate_output \<Rightarrow> bool" where
  "stance_is_admissible out =
     (do_panel_stance out \<noteq> None \<and> (do_critique_shape out = CRITIQUE_SHAPE_PEER \<or> do_debate_mode out = DEBATE_MODE_LIVE))"

text \<open>\<^verbatim>\<open>str.casefold\<close> on the modelled characters (U+00B5 folds to a letter outside them, alone, and is kept).\<close>

definition casefold :: "string \<Rightarrow> string" where
  "casefold s = concat (map (\<lambda>c. if code c = 223 then ''ss'' else [lower_char c]) s)"

text \<open>\<^verbatim>\<open>max(rounds, key=round_number)\<close>: the first of the greatest.\<close>

fun latest_round :: "debate_output list \<Rightarrow> debate_output option" where
  "latest_round [] = None"
| "latest_round (r # rs) =
     (case latest_round rs of
        None \<Rightarrow> Some r
      | Some r' \<Rightarrow> if do_round_number r < do_round_number r' then Some r' else Some r)"

fun stance_labels :: "slot_position list \<Rightarrow> (nat, string) dict \<Rightarrow> (nat, string) dict option" where
  "stance_labels [] mapping = Some mapping"
| "stance_labels (p # ps) mapping =
     (let label = casefold (strip (sp_group p)) in
      if label = [] then None else stance_labels ps (AList.update (sp_slot p) label mapping))"

definition usable_stance :: "initial_answer list \<Rightarrow> debate_output list \<Rightarrow> (nat, string) dict option" where
  "usable_stance answers outs =
     (let scored = scored_slot_numbers answers in
      if scored = {} then None
      else (case latest_round (filter stance_is_admissible outs) of
          None \<Rightarrow> None
        | Some latest \<Rightarrow>
            (case do_panel_stance latest of
               None \<Rightarrow> None
             | Some stance \<Rightarrow>
                 (case stance_labels (ps_positions stance) [] of
                    None \<Rightarrow> None
                  | Some mapping \<Rightarrow>
                      if \<not> scored \<subseteq> fst ` set mapping then None
                      else Some (filter (\<lambda>(slot, label). slot \<in> scored) mapping)))))"

text \<open>How many slots hold a label.\<close>

definition label_count :: "(nat, string) dict \<Rightarrow> string \<Rightarrow> nat" where
  "label_count stance label = count_list (map snd stance) label"

definition largest_group :: "(nat, string) dict \<Rightarrow> nat" where
  "largest_group stance = Max (label_count stance ` set (map snd stance))"

definition winners :: "(nat, string) dict \<Rightarrow> string list" where
  "winners stance = filter (\<lambda>l. label_count stance l = largest_group stance) (remdups (map snd stance))"

definition stance_majority_flags :: "(nat, string) dict \<Rightarrow> (nat, bool) dict" where
  "stance_majority_flags stance =
     (case winners stance of
        [w] \<Rightarrow> map (\<lambda>(slot, label). (slot, label = w)) stance
      | _ \<Rightarrow> map (\<lambda>(slot, label). (slot, False)) stance)"

datatype panel_verdict = AGREED | SPLIT | UNDETERMINED

definition panel_agreement :: "initial_answer list \<Rightarrow> debate_output list \<Rightarrow> panel_verdict" where
  "panel_agreement answers outs =
     (case usable_stance answers outs of
        None \<Rightarrow> UNDETERMINED
      | Some stance \<Rightarrow>
          if length stance < 2 then UNDETERMINED
          else if card (set (map snd stance)) = 1 then AGREED else SPLIT)"

section \<open>Overlap, opposed words, convergence\<close>

definition overlaps :: "string \<Rightarrow> string \<Rightarrow> bool" where
  "overlaps s t =
     (let a = four_grams (excerpt s); b = four_grams (excerpt t)
      in card (a \<union> b) \<noteq> 0 \<and> 10 * card (a \<inter> b) \<ge> card (a \<union> b))"

definition overlap_adjacency :: "string list \<Rightarrow> bool list list" where
  "overlap_adjacency texts =
     map (\<lambda>i. map (\<lambda>j. i \<noteq> j \<and> overlaps (texts ! min i j) (texts ! max i j)) [0..<length texts]) [0..<length texts]"

definition overlap_partner_counts :: "string list \<Rightarrow> nat list" where
  "overlap_partner_counts texts = map (\<lambda>row. length (filter id row)) (overlap_adjacency texts)"

definition required_cluster :: "nat \<Rightarrow> nat" where "required_cluster n = n div 2 + 1"

definition has_strong_overlap :: "string list \<Rightarrow> bool" where
  "has_strong_overlap texts =
     (let n = length texts; adjacent = overlap_adjacency texts in
      \<not> n < 3 \<and>
      list_ex (\<lambda>i. list_ex (\<lambda>j. list_ex (\<lambda>k. adjacent ! i ! j \<and> adjacent ! j ! k \<and> adjacent ! i ! k) [j + 1..<n]) [i + 1..<n]) [0..<n])"

definition keyword_negated :: "string \<Rightarrow> string \<Rightarrow> bool" where
  "keyword_negated haystack keyword =
     list_ex (\<lambda>start. let window = lower (take (start - (start - 20)) (drop (start - 20) haystack))
        in list_ex (\<lambda>token. contains token window) NEGATION_TOKENS) (occurrences keyword 0 haystack)"

definition text_signals_convergence :: "string \<Rightarrow> bool" where
  "text_signals_convergence critique =
     list_ex (\<lambda>keyword. contains keyword critique \<and> \<not> keyword_negated critique keyword) CONVERGE_KEYWORDS"

definition peer_round_signals_convergence :: "debate_output \<Rightarrow> bool" where
  "peer_round_signals_convergence out =
     (let eligible = do_eligible_critic_count out in
      \<not> eligible \<le> 0 \<and>
      length (filter (\<lambda>c. sc_critique_mode c = DEBATE_MODE_LIVE \<and> text_signals_convergence (lower (sc_critique_text c)))
        (do_slot_critiques out)) \<ge> eligible div 2 + 1)"

definition debate_signals_convergence :: "debate_output list \<Rightarrow> bool" where
  "debate_signals_convergence outs =
     list_ex (\<lambda>out.
        if do_critique_shape out = CRITIQUE_SHAPE_PEER then peer_round_signals_convergence out
        else if do_debate_mode out \<noteq> DEBATE_MODE_LIVE then False
        else let critique = lower (do_critique_text out)
          in critique \<noteq> [] \<and> text_signals_convergence critique) outs"

fun polar_from :: "(string \<times> string) list \<Rightarrow> string list \<Rightarrow> bool list option" where
  "polar_from [] texts = None"
| "polar_from ((a, b) # pairs) texts =
     (let side_a = map (\<lambda>s. has_word a s \<and> \<not> has_word b s) texts;
          side_b = map (\<lambda>s. has_word b s \<and> \<not> has_word a s) texts;
          count_a = length (filter id side_a); count_b = length (filter id side_b)
      in if count_a \<ge> 1 \<and> count_b \<ge> 1
         then (if count_a > count_b then Some side_a
               else if count_b > count_a then Some side_b
               else Some (replicate (length texts) False))
         else polar_from pairs texts)"

definition polar_split :: "string list \<Rightarrow> bool list option" where
  "polar_split texts = (if length texts < 2 then None else polar_from POLAR_PAIRS (map lower texts))"

definition has_polar_disagreement :: "string list \<Rightarrow> bool" where
  "has_polar_disagreement texts = (polar_split texts \<noteq> None)"

section \<open>The strength of the consensus\<close>

datatype consensus_strength = STRONG | WEAK | DIVIDED

definition classify_divided_or_weak :: "string list \<Rightarrow> consensus_strength" where
  "classify_divided_or_weak texts =
     (if texts = [] then DIVIDED else if has_polar_disagreement texts then DIVIDED else WEAK)"

definition compute_consensus_strength :: "initial_answer list \<Rightarrow> debate_output list \<Rightarrow> consensus_strength" where
  "compute_consensus_strength answers outs =
     (let completed = filter counts_as_evidence answers in
      if completed = [] then classify_divided_or_weak []
      else if length completed = 1 then WEAK
      else (case usable_stance answers outs of
          Some stance \<Rightarrow>
            if length stance = 1 then WEAK
            else if card (set (map snd stance)) = 1 \<or> largest_group stance \<ge> required_cluster (length stance) then STRONG
            else DIVIDED
        | None \<Rightarrow>
            let texts = map scoring_text completed in
            if has_strong_overlap texts then STRONG
            else if debate_signals_convergence outs then STRONG
            else if has_polar_disagreement texts then DIVIDED
            else WEAK))"

section \<open>How each model stands to the majority\<close>

datatype alignment_state = NOT_INVOKED | NO_ANSWER | HELD_WITH_CONSENSUS | MOVED_TO_CONSENSUS | HELD_MINORITY

record model_alignment =
  ma_slot_number :: nat
  ma_completed :: bool
  ma_opening_majority :: bool
  ma_final_aligned :: bool
  ma_revised :: bool
  ma_invoked :: bool

definition alignment_state :: "model_alignment \<Rightarrow> alignment_state" where
  "alignment_state m =
     (if \<not> ma_completed m then NO_ANSWER
      else if \<not> ma_invoked m then NOT_INVOKED
      else if ma_revised m then MOVED_TO_CONSENSUS
      else if ma_final_aligned m then HELD_WITH_CONSENSUS
      else HELD_MINORITY)"

definition opening_reflected_in_final :: "string \<Rightarrow> string \<Rightarrow> bool" where
  "opening_reflected_in_final opening final =
     (let opening_ngrams = four_grams (excerpt opening); final_ngrams = four_grams (strip_own_caveat final)
      in opening_ngrams \<noteq> {} \<and> final_ngrams \<noteq> {} \<and> 10 * card (opening_ngrams \<inter> final_ngrams) \<ge> card opening_ngrams)"

definition opening_majority_flags :: "string list \<Rightarrow> bool list" where
  "opening_majority_flags texts =
     (let n = length texts in
      if n = 0 then []
      else if n = 1 then [True]
      else (case polar_split texts of
          Some flags \<Rightarrow> flags
        | None \<Rightarrow> map (\<lambda>partners. partners \<ge> 1) (overlap_partner_counts texts)))"

text \<open>The flags and texts of the scored answers, in their order, go back to the answers one by one. Whether a final
  answer that no model wrote was templated or missing makes no difference to the result.\<close>

fun align_answers ::
  "bool \<Rightarrow> bool \<Rightarrow> string \<Rightarrow> initial_answer list \<Rightarrow> bool list \<Rightarrow> model_alignment list" where
  "align_answers by_stance final_visible final [] flags = []"
| "align_answers by_stance final_visible final (a # as) flags =
     (let scored = counts_as_evidence a;
          opening_majority = (scored \<and> (case flags of [] \<Rightarrow> False | f # _ \<Rightarrow> f));
          final_aligned =
            (if \<not> scored then False
             else if opening_majority then True
             else if by_stance then False
             else if final_visible then opening_reflected_in_final (scoring_text a) final
             else False)
      in \<lparr>ma_slot_number = ia_slot_number a,
          ma_completed = (ia_status a = ANSWER_COMPLETED \<and> visible (ia_answer_text a)),
          ma_opening_majority = opening_majority, ma_final_aligned = final_aligned,
          ma_revised = (scored \<and> opening_majority \<noteq> final_aligned), ma_invoked = model_was_invoked a\<rparr>
         # align_answers by_stance final_visible final as (if scored then tl flags else flags))"

definition classify_model_alignment ::
  "initial_answer list \<Rightarrow> debate_output list \<Rightarrow> string option \<Rightarrow> model_alignment list" where
  "classify_model_alignment answers outs model_authored_final =
     (let scored = filter counts_as_evidence answers;
          flags = (case usable_stance answers outs of
             None \<Rightarrow> opening_majority_flags (map scoring_text scored)
           | Some stance \<Rightarrow> map (\<lambda>a. map_of (stance_majority_flags stance) (ia_slot_number a) = Some True) scored);
          final = strip (case model_authored_final of None \<Rightarrow> [] | Some s \<Rightarrow> s)
      in align_answers (usable_stance answers outs \<noteq> None) (visible final) final answers flags)"

record agreement_summary =
  as_aligned :: nat
  as_total :: nat
  as_panel_agreement :: panel_verdict

definition summarize_agreement :: "initial_answer list \<Rightarrow> model_alignment list \<Rightarrow> panel_verdict \<Rightarrow> agreement_summary" where
  "summarize_agreement answers alignments verdict =
     \<lparr>as_aligned = min (length (filter ma_final_aligned alignments)) (length answers), as_total = length answers,
      as_panel_agreement = verdict\<rparr>"

section \<open>The stance covers exactly the evidence\<close>

lemma stance_labels_ok: "stance_labels ps m = Some m' \<Longrightarrow> dict_ok m \<Longrightarrow> dict_ok m'"
  by (induction ps arbitrary: m) (auto simp: Let_def intro: dict_intro split: if_splits)

lemma stance_labels_nonempty:
  "stance_labels ps m = Some m' \<Longrightarrow> dict_ok m \<Longrightarrow> [] \<notin> snd ` set m \<Longrightarrow> [] \<notin> snd ` set m'"
proof (induction ps arbitrary: m)
  case (Cons p ps)
  let ?l = "casefold (strip (sp_group p))"
  have "?l \<noteq> []" "stance_labels ps (AList.update (sp_slot p) ?l m) = Some m'" using Cons(2) by (auto simp: Let_def split: if_splits)
  moreover have "[] \<notin> snd ` set (AList.update (sp_slot p) ?l m)"
  proof
    assume "[] \<in> snd ` set (AList.update (sp_slot p) ?l m)"
    then obtain k where "map_of (AList.update (sp_slot p) ?l m) k = Some []"
      using in_set_iff_map_of[OF dict_ok_update[OF Cons(3), of "sp_slot p" ?l]] by force
    then have "(k, []) \<in> set m" using \<open>?l \<noteq> []\<close> by (auto split: if_splits dest: map_of_SomeD)
    then show False using Cons(4) by force
  qed
  ultimately show ?case using Cons(1) Cons(3) by (blast intro: dict_intro)
qed simp

lemma usable_stance_covers:
  assumes "usable_stance answers outs = Some stance"
  shows "dict_ok stance" and "fst ` set stance = scored_slot_numbers answers" and "stance \<noteq> []"
    and "length stance = card (scored_slot_numbers answers)"
proof -
  obtain ps m where m: "stance_labels ps [] = Some m" "scored_slot_numbers answers \<subseteq> fst ` set m"
      "stance = filter (\<lambda>(slot, label). slot \<in> scored_slot_numbers answers) m" "scored_slot_numbers answers \<noteq> {}"
    using assms by (auto simp: usable_stance_def Let_def split: if_splits option.splits)
  show ok: "dict_ok stance" using stance_labels_ok[OF m(1)] m(3) by (auto intro: dict_intro)
  show keys: "fst ` set stance = scored_slot_numbers answers" using m(2,3) by force
  then show "stance \<noteq> []" using m(4) by auto
  show "length stance = card (scored_slot_numbers answers)"
    using ok keys by (metis dict_ok_def distinct_card length_map set_map)
qed

text \<open>The slots of the panel that hold a label.\<close>

definition holders :: "(nat, string) dict \<Rightarrow> string \<Rightarrow> nat set" where
  "holders stance label = {slot. map_of stance slot = Some label}"

lemma label_count_holders: "dict_ok stance \<Longrightarrow> label_count stance label = card (holders stance label)"
proof (induction stance)
  case Nil
  then show ?case by (simp add: label_count_def holders_def)
next
  case (Cons e stance)
  obtain slot l where e: "e = (slot, l)" by force
  have new: "map_of stance slot = None" using Cons(2) by (simp add: dict_ok_def e map_of_eq_None_iff)
  have fin: "finite (holders stance label)"
    by (rule finite_subset[of _ "fst ` set stance"]) (force simp: holders_def dest: map_of_SomeD)+
  have "holders (e # stance) label = (if l = label then insert slot (holders stance label) else holders stance label)"
    using new by (auto simp: holders_def e)
  moreover have "slot \<notin> holders stance label" using new by (simp add: holders_def)
  ultimately show ?case using Cons fin by (simp add: label_count_def dict_ok_def e)
qed

lemma label_count_le: "label_count stance label \<le> length stance"
  by (simp add: label_count_def) (metis count_le_length length_map)

lemma some_label: "stance \<noteq> [] \<Longrightarrow> \<exists>label \<in> set (map snd stance). label_count stance label = largest_group stance"
proof -
  assume "stance \<noteq> []"
  then have "label_count stance ` set (map snd stance) \<noteq> {}" by simp
  then have "Max (label_count stance ` set (map snd stance)) \<in> label_count stance ` set (map snd stance)"
    by (intro Max_in) simp_all
  then show ?thesis unfolding largest_group_def by (metis imageE)
qed

lemma label_count_max: "label_count stance label \<le> largest_group stance \<or> stance = []"
proof (cases "label \<in> set (map snd stance)")
  case True
  then show ?thesis by (simp add: largest_group_def)
next
  case False
  then have "label_count stance label = 0" by (simp add: label_count_def)
  then show ?thesis by simp
qed

lemma count_list_all: "count_list xs l = length xs \<longleftrightarrow> set xs \<subseteq> {l}"
proof (induction xs)
  case (Cons x xs)
  then show ?case using count_le_length[of xs l] by auto
qed simp

lemma one_label:
  assumes "stance \<noteq> []"
  shows "card (set (map snd stance)) = 1 \<longleftrightarrow> largest_group stance = length stance"
proof
  assume "card (set (map snd stance)) = 1"
  then obtain l where l: "set (map snd stance) = {l}" by (auto simp: card_1_singleton_iff)
  then have "label_count stance l = length stance"
    unfolding label_count_def by (metis count_list_all length_map order.refl)
  then show "largest_group stance = length stance" using l by (simp add: largest_group_def)
next
  assume "largest_group stance = length stance"
  then obtain l where l: "l \<in> set (map snd stance)" "count_list (map snd stance) l = length (map snd stance)"
    using some_label[OF assms] by (auto simp: label_count_def)
  then have "set (map snd stance) = {l}" unfolding count_list_all by blast
  then show "card (set (map snd stance)) = 1" by simp
qed

section \<open>What the strength claims\<close>

lemma pairwise_adjacent:
  assumes "i < j" and "j < length texts"
  shows "overlap_adjacency texts ! i ! j = overlaps (texts ! i) (texts ! j)"
  using assms by (simp add: overlap_adjacency_def)

lemma strong_overlap_iff:
  "has_strong_overlap texts \<longleftrightarrow>
     (\<exists>i j k. i < j \<and> j < k \<and> k < length texts \<and> overlaps (texts ! i) (texts ! j) \<and> overlaps (texts ! j) (texts ! k)
        \<and> overlaps (texts ! i) (texts ! k))" (is "_ = ?triple")
proof
  assume "has_strong_overlap texts"
  then obtain i j k where at: "i \<in> set [0..<length texts]" "j \<in> set [i + 1..<length texts]" "k \<in> set [j + 1..<length texts]"
      "overlap_adjacency texts ! i ! j" "overlap_adjacency texts ! j ! k" "overlap_adjacency texts ! i ! k"
    unfolding has_strong_overlap_def Let_def list_ex_iff by blast
  then have lt: "i < j" "j < k" "k < length texts" by simp_all
  then have "i < k" "j < length texts" by simp_all
  then show ?triple using at(4-6) lt pairwise_adjacent by blast
next
  assume ?triple
  then obtain i j k where ijk: "i < j" "j < k" "k < length texts" "overlaps (texts ! i) (texts ! j)" "overlaps (texts ! j) (texts ! k)"
      "overlaps (texts ! i) (texts ! k)" by blast
  then have "overlap_adjacency texts ! i ! j" "overlap_adjacency texts ! j ! k" "overlap_adjacency texts ! i ! k"
    by (auto simp: pairwise_adjacent)
  moreover have "\<not> length texts < 3" "i \<in> set [0..<length texts]" "j \<in> set [i + 1..<length texts]" "k \<in> set [j + 1..<length texts]"
    using ijk(1-3) by auto
  ultimately show "has_strong_overlap texts"
    unfolding has_strong_overlap_def Let_def list_ex_iff by blast
qed

lemma majority_iff:
  assumes "stance \<noteq> []"
  shows "card (set (map snd stance)) = 1 \<or> largest_group stance \<ge> required_cluster (length stance)
    \<longleftrightarrow> (\<exists>label. length stance < 2 * label_count stance label)"
proof -
  have "largest_group stance \<ge> required_cluster (length stance) \<longleftrightarrow> length stance < 2 * largest_group stance"
    by (auto simp: required_cluster_def)
  moreover have "(\<exists>label. length stance < 2 * label_count stance label) \<longleftrightarrow> length stance < 2 * largest_group stance"
    using some_label[OF assms] label_count_max[of stance] assms
    by (metis mult_le_mono2 order.strict_trans2)
  moreover have "0 < length stance" using assms by simp
  ultimately show ?thesis using one_label[OF assms] by auto
qed

text \<open>A strong consensus is claimed exactly on evidence: at least two models must have been asked and answered, and
  then either a usable reading of the panel covers at least two slots and puts more than half of the slots it
  scored behind one position, or, where there is no such reading, three answers overlap pairwise or the debate
  says that it converged.\<close>

theorem strong_exactly_on_evidence:
  "compute_consensus_strength answers outs = STRONG \<longleftrightarrow>
     2 \<le> length (filter counts_as_evidence answers) \<and>
     (case usable_stance answers outs of
        Some stance \<Rightarrow>
          2 \<le> card (scored_slot_numbers answers) \<and>
          (\<exists>label. card (scored_slot_numbers answers) < 2 * card (holders stance label))
      | None \<Rightarrow>
          (let texts = map scoring_text (filter counts_as_evidence answers) in
            \<exists>i j k. i < j \<and> j < k \<and> k < length texts \<and> overlaps (texts ! i) (texts ! j)
              \<and> overlaps (texts ! j) (texts ! k) \<and> overlaps (texts ! i) (texts ! k))
          \<or> debate_signals_convergence outs)"
proof (cases "2 \<le> length (filter counts_as_evidence answers)")
  case False
  then have "compute_consensus_strength answers outs \<noteq> STRONG"
    by (cases "filter counts_as_evidence answers")
      (simp_all add: compute_consensus_strength_def classify_divided_or_weak_def not_less_eq_eq)
  then show ?thesis using False by simp
next
  case two: True
  then have ne: "filter counts_as_evidence answers \<noteq> []" "length (filter counts_as_evidence answers) \<noteq> 1" by auto
  show ?thesis
  proof (cases "usable_stance answers outs")
    case None
    then show ?thesis using two ne
      by (simp add: compute_consensus_strength_def Let_def strong_overlap_iff)
  next
    case (Some stance)
    note cov = usable_stance_covers[OF Some]
    have many: "2 \<le> length stance \<longleftrightarrow> length stance \<noteq> 1" using cov(3)
      by (cases stance; cases "tl stance") auto
    show ?thesis using Some two ne many majority_iff[OF cov(3)] label_count_holders[OF cov(1)]
      by (auto simp: compute_consensus_strength_def Let_def cov(4)[symmetric])
  qed
qed

section \<open>What the alignment counts\<close>

lemma distinct_singleton: "distinct xs \<Longrightarrow> set xs = {w} \<Longrightarrow> xs = [w]"
  by (cases xs; cases "tl xs") auto

lemma winners_iff:
  assumes "stance \<noteq> []"
  shows "winners stance = [w] \<longleftrightarrow> (\<forall>l. l = w \<or> label_count stance l < label_count stance w)"
proof -
  let ?top = "{l \<in> set (map snd stance). label_count stance l = largest_group stance}"
  have w: "set (winners stance) = ?top" "distinct (winners stance)" by (auto simp: winners_def)
  obtain m where m: "m \<in> ?top" using some_label[OF assms] by auto
  have "winners stance = [w] \<longleftrightarrow> ?top = {w}"
    unfolding w(1)[symmetric] using w(2) distinct_singleton[of "winners stance" w] by fastforce
  also have "\<dots> \<longleftrightarrow> (\<forall>l. l = w \<or> label_count stance l < label_count stance w)"
  proof
    assume t: "?top = {w}"
    show "\<forall>l. l = w \<or> label_count stance l < label_count stance w"
    proof
      fix l
      have "label_count stance l \<le> largest_group stance" using label_count_max assms by blast
      moreover have "label_count stance w = largest_group stance" "0 < largest_group stance"
        using t m by (auto simp: label_count_def count_list_0_iff intro: gr0I)
      moreover have "label_count stance l = 0" if "l \<notin> set (map snd stance)" using that by (simp add: label_count_def)
      ultimately show "l = w \<or> label_count stance l < label_count stance w" using t by force
    qed
  next
    assume all: "\<forall>l. l = w \<or> label_count stance l < label_count stance w"
    have "label_count stance w \<le> label_count stance m" using m label_count_max[of stance w] assms by simp
    then have "m = w" using all by (metis not_less)
    then show "?top = {w}" using m all by auto
  qed
  finally show ?thesis .
qed

text \<open>Slots behind the position that strictly more of the scored slots hold than any other.\<close>

definition in_the_lead :: "(nat, string) dict \<Rightarrow> nat \<Rightarrow> bool" where
  "in_the_lead stance slot =
     (\<exists>label. slot \<in> holders stance label \<and> (\<forall>other. other = label \<or> card (holders stance other) < card (holders stance label)))"

lemma stance_flag:
  assumes "dict_ok stance" and "stance \<noteq> []"
  shows "map_of (stance_majority_flags stance) slot = Some True \<longleftrightarrow> in_the_lead stance slot"
proof -
  have map_snd: "map_of (map (\<lambda>(k, v). (k, f v)) d) k = map_option f (map_of d k)" for f :: "string \<Rightarrow> bool" and d and k :: nat
    by (induction d) auto
  show ?thesis
  proof (cases "\<exists>w. winners stance = [w]")
    case True
    then obtain w where w: "winners stance = [w]" by blast
    have lead: "l = w \<longleftrightarrow> (\<forall>other. other = l \<or> label_count stance other < label_count stance l)" for l
      using winners_iff[OF assms(2)] w by (metis order.asym)
    show ?thesis using lead
      by (auto simp: stance_majority_flags_def w map_snd in_the_lead_def holders_def
          label_count_holders[OF assms(1), unfolded holders_def])
  next
    case False
    have "stance_majority_flags stance = map (\<lambda>(slot, label). (slot, False)) stance"
      using False unfolding stance_majority_flags_def by (auto split: list.split)
    then have "map_of (stance_majority_flags stance) slot \<noteq> Some True" by (simp add: map_snd)
    moreover have "\<not> in_the_lead stance slot"
      using False winners_iff[OF assms(2)] label_count_holders[OF assms(1)] unfolding in_the_lead_def by metis
    ultimately show ?thesis by blast
  qed
qed

lemma align_with_flags:
  "align_answers True vis final answers (map g (filter counts_as_evidence answers)) =
     map (\<lambda>a. let aligned = counts_as_evidence a \<and> g a in
       \<lparr>ma_slot_number = ia_slot_number a,
        ma_completed = (ia_status a = ANSWER_COMPLETED \<and> visible (ia_answer_text a)),
        ma_opening_majority = aligned, ma_final_aligned = aligned, ma_revised = False,
        ma_invoked = model_was_invoked a\<rparr>) answers"
  by (induction answers) (simp_all add: Let_def)

text \<open>With a usable reading of the panel, a model is counted in the consensus exactly when it gave evidence and its
  slot is behind the position that strictly more of the scored slots hold than any other (nobody on a tie), and
  no model is reported to have moved, whatever the final answer says.\<close>

theorem alignment_follows_the_stance:
  assumes "usable_stance answers outs = Some stance"
  shows "classify_model_alignment answers outs final =
     map (\<lambda>a. let aligned = counts_as_evidence a \<and> in_the_lead stance (ia_slot_number a) in
       \<lparr>ma_slot_number = ia_slot_number a,
        ma_completed = (ia_status a = ANSWER_COMPLETED \<and> visible (ia_answer_text a)),
        ma_opening_majority = aligned, ma_final_aligned = aligned, ma_revised = False,
        ma_invoked = model_was_invoked a\<rparr>) answers"
  using assms stance_flag[OF usable_stance_covers(1,3)[OF assms]]
  by (simp add: classify_model_alignment_def align_with_flags Let_def)

lemma agreed_panel:
  assumes "panel_agreement answers outs = AGREED"
  shows "compute_consensus_strength answers outs = STRONG"
    and "as_aligned (summarize_agreement answers (classify_model_alignment answers outs final) AGREED)
      = length (filter counts_as_evidence answers)"
proof -
  obtain stance where st: "usable_stance answers outs = Some stance" "2 \<le> length stance" "card (set (map snd stance)) = 1"
    using assms by (auto simp: panel_agreement_def split: option.splits if_splits)
  note cov = usable_stance_covers[OF st(1)]
  have "card (scored_slot_numbers answers) \<le> length (filter counts_as_evidence answers)"
    unfolding scored_slot_numbers_def by (metis card_length length_map)
  then have two: "2 \<le> length (filter counts_as_evidence answers)" using st(2) cov(4) by simp
  then have "filter counts_as_evidence answers \<noteq> []" "length (filter counts_as_evidence answers) \<noteq> 1" by auto
  then show "compute_consensus_strength answers outs = STRONG"
    using st unfolding compute_consensus_strength_def by (simp del: set_map)
  obtain w where w: "set (map snd stance) = {w}" using st(3) by (auto simp: card_1_singleton_iff)
  have lead: "in_the_lead stance slot" if "slot \<in> scored_slot_numbers answers" for slot
  proof -
    have "slot \<in> fst ` set stance" using that cov(2) by blast
    then obtain l where l: "map_of stance slot = Some l" by (metis map_of_eq_None_iff not_None_eq)
    then have "l = w" using w by (metis (no_types, lifting) image_eqI map_of_SomeD set_map singletonD snd_conv)
    have none: "holders stance other = {}" if "other \<noteq> w" for other
      using that w by (auto simp: holders_def dest!: map_of_SomeD) (metis image_eqI singletonD snd_conv)
    have "finite (holders stance w)"
      by (rule finite_subset[of _ "fst ` set stance"]) (force simp: holders_def dest: map_of_SomeD)+
    then have "0 < card (holders stance w)" using l \<open>l = w\<close> by (auto simp: card_gt_0_iff holders_def)
    moreover have "card (holders stance other) = 0" if "other \<noteq> w" for other using none[OF that] by simp
    moreover have "slot \<in> holders stance w" using l \<open>l = w\<close> by (simp add: holders_def)
    ultimately show ?thesis unfolding in_the_lead_def by (metis)
  qed
  have "counts_as_evidence a \<and> in_the_lead stance (ia_slot_number a) \<longleftrightarrow> counts_as_evidence a" if "a \<in> set answers" for a
    using lead that unfolding scored_slot_numbers_def by auto
  then have "filter ma_final_aligned (classify_model_alignment answers outs final)
      = filter ma_final_aligned (map (\<lambda>a. \<lparr>ma_slot_number = ia_slot_number a,
        ma_completed = (ia_status a = ANSWER_COMPLETED \<and> visible (ia_answer_text a)),
        ma_opening_majority = counts_as_evidence a, ma_final_aligned = counts_as_evidence a, ma_revised = False,
        ma_invoked = model_was_invoked a\<rparr>) answers)"
    using stance_flag[OF cov(1,3)] st(1)
    by (simp add: classify_model_alignment_def align_with_flags Let_def cong: map_cong)
  then have "length (filter ma_final_aligned (classify_model_alignment answers outs final))
      = length (filter counts_as_evidence answers)"
    by (simp add: filter_map comp_def)
  then show "as_aligned (summarize_agreement answers (classify_model_alignment answers outs final) AGREED)
      = length (filter counts_as_evidence answers)"
    by (simp add: summarize_agreement_def min_absorb1)
qed

text \<open>The page cannot contradict itself: whenever the panel is reported as agreed, the strength is strong, and the
  agreement tally counts every model that gave evidence.\<close>

theorem agreed_panel_is_strong_and_aligned:
  assumes "panel_agreement answers outs = AGREED"
  shows "compute_consensus_strength answers outs = STRONG
    \<and> as_aligned (summarize_agreement answers (classify_model_alignment answers outs final) AGREED)
      = length (filter counts_as_evidence answers)"
  using agreed_panel[OF assms] by blast

section \<open>Concrete panels\<close>

definition judged_round :: "(nat \<times> string) list \<Rightarrow> debate_output" where
  "judged_round ps =
     \<lparr>do_round_number = 1, do_focus_areas = [], do_critique_text = ''c'', do_status = ROUND_COMPLETED,
      do_debate_mode = DEBATE_MODE_LIVE,
      do_panel_stance = Some \<lparr>ps_author_model_id = ''m'', ps_round_number = 1,
        ps_positions = map (\<lambda>(slot, group). \<lparr>sp_slot = slot, sp_group = group\<rparr>) ps\<rparr>,
      do_critique_shape = CRITIQUE_SHAPE_MODERATOR, do_slot_critiques = [], do_eligible_critic_count = 0\<rparr>"

lemma plain_evidence [simp]: "counts_as_evidence (plain_answer n ''Yes'')"
  by (simp add: counts_as_evidence_def plain_answer_def visible_def is_visible_def text_points_def latin1_tables_def
      is_invisible_char_def INVISIBLE_CATEGORIES_def INVISIBLE_OUTLIERS_def is_variation_selector_def
      VARIATION_SELECTOR_RANGES_def is_noncharacter_def code_def)

lemma labels_fold [simp]: "casefold (strip ''x'') = ''x''" "casefold (strip ''y'') = ''y''"
  by (simp_all add: casefold_def strip_def lstrip_def rstrip_def char_eval)

lemma plain_slot [simp]: "ia_slot_number (plain_answer n t) = n"
  by (simp add: plain_answer_def)

definition three_answers :: "initial_answer list" where
  "three_answers = [plain_answer 1 ''Yes'', plain_answer 2 ''Yes'', plain_answer 3 ''Yes'']"

lemma three_stance: "usable_stance three_answers [judged_round [(1, ''x''), (2, ''y''), (3, ''x'')]]
    = Some [(1, ''x''), (2, ''y''), (3, ''x'')]"
  by (simp add: usable_stance_def three_answers_def scored_slot_numbers_def judged_round_def stance_is_admissible_def Let_def)

lemma alignment_follows_the_stance_witness:
  "map ma_final_aligned (classify_model_alignment three_answers [judged_round [(1, ''x''), (2, ''y''), (3, ''x'')]] None)
     = [True, False, True]"
proof -
  have "map_of (stance_majority_flags [(1, ''x''), (2, ''y''), (3, ''x'')]) slot = Some True \<longleftrightarrow> slot = 1 \<or> slot = 3" for slot :: nat
    by (auto simp: stance_majority_flags_def winners_def largest_group_def label_count_def)
  then have "in_the_lead [(1, ''x''), (2, ''y''), (3, ''x'')] slot \<longleftrightarrow> slot = 1 \<or> slot = 3" for slot
    using stance_flag[of "[(1, ''x''), (2, ''y''), (3, ''x'')]" slot] by (simp add: dict_ok_def)
  then show ?thesis
    using alignment_follows_the_stance[OF three_stance, of None] by (simp add: three_answers_def)
qed

lemma agreed_panel_is_strong_and_aligned_witness:
  "as_aligned (summarize_agreement three_answers
     (classify_model_alignment three_answers [judged_round [(1, ''x''), (2, ''x''), (3, ''x'')]] None) AGREED) = 3"
proof -
  have "usable_stance three_answers [judged_round [(1, ''x''), (2, ''x''), (3, ''x'')]] = Some [(1, ''x''), (2, ''x''), (3, ''x'')]"
    by (simp add: usable_stance_def three_answers_def scored_slot_numbers_def judged_round_def stance_is_admissible_def Let_def)
  then have "panel_agreement three_answers [judged_round [(1, ''x''), (2, ''x''), (3, ''x'')]] = AGREED"
    by (simp add: panel_agreement_def)
  from agreed_panel_is_strong_and_aligned[OF this, of None] show ?thesis by (simp add: three_answers_def)
qed

end
