(* ===== verification/Debate.thy ===== *)
theory Debate
  imports Pipeline Consensus
begin

text \<open>
  The debate service of \<^verbatim>\<open>debate.py\<close>: two rounds of critique, by a moderator model or by the panel itself, each
  falling back to a template when no usable reply comes. The outside world is the record \<open>debate_env\<close>: the
  settings, \<^verbatim>\<open>json.loads\<close> and the pydantic check of one position (library code), and the answers of the
  provider call and of the cancel check, both as functions of everything that happened before (the trace).
\<close>

section \<open>JSON values and the outside world\<close>

datatype json = JNull | JBool bool | JInt int | JFloat rat | JStr string | JList "json list" | JObj "(string, json) dict"

text \<open>\<open>Bad_json\<close>: \<^verbatim>\<open>json.loads\<close> raises \<^verbatim>\<open>ValueError\<close>; \<open>Too_deep\<close>: it raises \<^verbatim>\<open>RecursionError\<close>, as on a deeply nested text.\<close>

datatype loads_result = Parsed json | Bad_json | Too_deep

record live_provider_result =
  lr_answer_text :: string
  lr_usage :: "token_usage option"

record debate_round_event =
  dv_event_type :: string
  dv_account_id :: uuid
  dv_query_run_id :: uuid
  dv_round_number :: nat
  dv_focus_areas :: "string list"
  dv_duration_ms :: int
  dv_status :: debate_round_status
  dv_timed_out :: bool

datatype debate_action =
    STOP_CHECKED
  | CALLED (ca_model: string) (ca_round: nat) (ca_slot: "nat option")
  | ROUND_TWO_ANNOUNCED
  | EVENT debate_round_event

type_synonym trace = "debate_action list"

record debate_env =
  de_live_enabled :: bool
  de_openrouter_key :: string
  de_debate_model_id :: string
  de_peer_enabled :: bool
  de_local :: bool
  de_hard_timeout_ms :: rat
  de_elapsed_ms :: rat
  de_round_ms :: "nat \<Rightarrow> int"
  de_excerpt_chars :: nat
  de_db :: unicode_db
  de_system_prompt :: "nat \<Rightarrow> string"
  de_loads :: "string \<Rightarrow> loads_result"
  de_position :: "json \<Rightarrow> slot_position option"
  de_stop :: "trace \<Rightarrow> bool"
  de_call :: "trace \<Rightarrow> string \<Rightarrow> string \<Rightarrow> codepoint list \<Rightarrow> live_provider_result option"

definition FOCUS_AREAS :: "string list" where "FOCUS_AREAS = [''disagreement'', ''weak_support'', ''missing_reasoning'']"
definition MAX_CRITIC_SOURCES :: nat where "MAX_CRITIC_SOURCES = 6"
definition MAX_SOURCES_PER_ANSWER :: nat where "MAX_SOURCES_PER_ANSWER = 3"
definition MAX_SOURCE_TITLE_LEN :: nat where "MAX_SOURCE_TITLE_LEN = 300"
definition SYNTHESIS_DEBATE_EXCERPT_MAX_CHARS :: nat where "SYNTHESIS_DEBATE_EXCERPT_MAX_CHARS = 4000 * 4"
definition SELF_ASSESSMENTS :: "string list" where
  "SELF_ASSESSMENTS = [''held_agreement'', ''held_solution'', ''amended'', ''changed'']"
definition PEER_PANEL_STANCE_AUTHOR :: string where "PEER_PANEL_STANCE_AUTHOR = ''peer-panel/strict-majority''"
definition DEBATE_MAX_EVENTS :: nat where "DEBATE_MAX_EVENTS = 512"

section \<open>Reading a reply\<close>

text \<open>\<^verbatim>\<open>text.split()\<close>\<close>

function split_ws :: "string \<Rightarrow> string list" where
  "split_ws s =
     (case lstrip s of
        [] \<Rightarrow> []
      | c # cs \<Rightarrow> (c # takeWhile (\<lambda>x. \<not> is_space x) cs) # split_ws (dropWhile (\<lambda>x. \<not> is_space x) cs))"
  by pat_completeness auto

termination
proof (relation "measure length")
  fix s cs and c :: char
  assume "lstrip s = c # cs"
  then have "Suc (length cs) \<le> length s" using length_lstrip_le[of s] by simp
  then show "(dropWhile (\<lambda>x. \<not> is_space x) cs, s) \<in> measure length"
    using length_dropWhile_le[of "\<lambda>x. \<not> is_space x" cs] by simp
qed simp

declare split_ws.simps [simp del]

definition one_line :: "string \<Rightarrow> string" where "one_line s = join '' '' (split_ws s)"

definition is_quote :: "char \<Rightarrow> bool" where "is_quote c = (c = CHR 0x27 \<or> c = CHR 0x22)"

definition envelope_at :: "string \<Rightarrow> bool" where
  "envelope_at s =
     (case s of
        [] \<Rightarrow> False
      | q # rest \<Rightarrow>
          is_quote q \<and> starts_with ''positions'' rest \<and>
          (case drop 9 rest of
             [] \<Rightarrow> False
           | q' # rest' \<Rightarrow> is_quote q' \<and>
               (case lstrip rest' of
                  [] \<Rightarrow> False
                | c # rest'' \<Rightarrow> c = CHR '':'' \<and> starts_with ''['' (lstrip rest''))))"

definition wrapper_removed :: "string \<Rightarrow> string" where
  "wrapper_removed s =
     (let rest = dropWhile (\<lambda>c. is_space c \<or> c = CHR 0x60 \<or> c = CHR ''~'') s;
          rest = (if starts_with ''json'' rest \<or> starts_with ''JSON'' rest then drop 4 rest else rest)
      in lstrip rest)"

definition looks_like_machine_output :: "string \<Rightarrow> bool" where
  "looks_like_machine_output s =
     (list_ex (\<lambda>i. envelope_at (drop i s)) [0..<length s]
      \<or> starts_with ''{'' (wrapper_removed s) \<or> starts_with ''['' (wrapper_removed s))"

definition jget :: "(string, json) dict \<Rightarrow> string \<Rightarrow> json" where
  "jget d k = (case map_of d k of None \<Rightarrow> JNull | Some v \<Rightarrow> v)"

fun all_some :: "'a option list \<Rightarrow> 'a list option" where
  "all_some [] = Some []"
| "all_some (None # xs) = None"
| "all_some (Some x # xs) = map_option (\<lambda>ys. x # ys) (all_some xs)"

text \<open>The prose and the stance of a reply. \<open>Inl\<close>: the exception that escapes, since only \<^verbatim>\<open>ValueError\<close> and
  \<^verbatim>\<open>TypeError\<close> are caught around the parse.\<close>

definition parse_moderator_output ::
  "debate_env \<Rightarrow> string \<Rightarrow> string \<Rightarrow> nat \<Rightarrow> string + (string \<times> panel_stance option)" where
  "parse_moderator_output de raw author rnd =
     (let txt0 = strip raw in
      if txt0 = [] then Inr (txt0, None)
      else (case de_loads de txt0 of
          Too_deep \<Rightarrow> Inl ''RecursionError''
        | Bad_json \<Rightarrow> Inr (if looks_like_machine_output txt0 then [] else txt0, None)
        | Parsed (JObj payload) \<Rightarrow>
            let prose = (case jget payload ''critique'' of JStr s \<Rightarrow> strip s | _ \<Rightarrow> []) in
            (case jget payload ''positions'' of
               JList (e # es) \<Rightarrow>
                 (case all_some (map (de_position de) (e # es)) of
                    None \<Rightarrow> Inr (prose, None)
                  | Some positions \<Rightarrow>
                      if \<not> (1 \<le> length author \<and> length author \<le> 256 \<and> 1 \<le> rnd \<and> rnd \<le> 2) then Inr (prose, None)
                      else if \<not> distinct (map sp_slot positions) then Inr (prose, None)
                      else Inr (prose, Some \<lparr>ps_author_model_id = author, ps_round_number = rnd, ps_positions = positions\<rparr>))
             | _ \<Rightarrow> Inr (prose, None))
        | Parsed _ \<Rightarrow> Inr ([], None)))"

record peer_convergence =
  pc_self_assessment :: "string option"
  pc_rationale :: string
  pc_sources :: "string list"
  pc_revised_answer :: string

definition said_nothing :: peer_convergence where
  "said_nothing = \<lparr>pc_self_assessment = None, pc_rationale = [], pc_sources = [], pc_revised_answer = []\<rparr>"

definition parse_peer_convergence :: "debate_env \<Rightarrow> string \<Rightarrow> peer_convergence" where
  "parse_peer_convergence de raw =
     (if raw = [] then said_nothing
      else (case de_loads de raw of
          Parsed (JObj payload) \<Rightarrow>
            \<lparr>pc_self_assessment = (case jget payload ''self_assessment'' of
                JStr s \<Rightarrow> if s \<in> set SELF_ASSESSMENTS then Some s else None | _ \<Rightarrow> None),
             pc_rationale = (case jget payload ''rationale'' of JStr s \<Rightarrow> s | _ \<Rightarrow> []),
             pc_sources = (case jget payload ''sources'' of
                JList items \<Rightarrow> concat (map (\<lambda>item. case item of
                    JStr s \<Rightarrow> if visible s then [take MAX_SOURCE_URL_LEN (one_line s)] else [] | _ \<Rightarrow> [])
                  (take MAX_CRITIC_SOURCES items))
              | _ \<Rightarrow> []),
             pc_revised_answer = (case jget payload ''revised_answer'' of JStr s \<Rightarrow> s | _ \<Rightarrow> [])\<rparr>
        | _ \<Rightarrow> said_nothing))"

section \<open>The peer panel's own stance\<close>

fun add_votes :: "slot_position list \<Rightarrow> (nat, string list) dict \<Rightarrow> (nat, string list) dict" where
  "add_votes [] votes = votes"
| "add_votes (p # ps) votes =
     add_votes ps (AList.update (sp_slot p)
       ((case map_of votes (sp_slot p) of None \<Rightarrow> [] | Some ls \<Rightarrow> ls) @ [casefold (strip (sp_group p))]) votes)"

definition live_stances :: "slot_critique list \<Rightarrow> panel_stance list" where
  "live_stances critiques =
     concat (map (\<lambda>c. if sc_critique_mode c = DEBATE_MODE_LIVE then (case sc_stance c of None \<Rightarrow> [] | Some st \<Rightarrow> [st]) else [])
       critiques)"

definition peer_votes :: "slot_critique list \<Rightarrow> (nat, string list) dict" where
  "peer_votes critiques = foldl (\<lambda>votes st. add_votes (ps_positions st) votes) [] (live_stances critiques)"

text \<open>The label a slot is given: the only one with the most votes, with a strict majority of the eligible critics, not empty.\<close>

definition slot_winner :: "nat \<Rightarrow> string list \<Rightarrow> string option" where
  "slot_winner threshold labels =
     (let top = Max (count_list labels ` set labels);
          best = filter (\<lambda>l. count_list labels l = top) (remdups labels)
      in case best of
           [w] \<Rightarrow> if top \<ge> threshold \<and> w \<noteq> [] then Some w else None
         | _ \<Rightarrow> None)"

definition peer_positions :: "slot_critique list \<Rightarrow> nat \<Rightarrow> slot_position list" where
  "peer_positions critiques threshold =
     concat (map (\<lambda>(slot, labels). case slot_winner threshold labels of
         None \<Rightarrow> [] | Some w \<Rightarrow> [\<lparr>sp_slot = slot, sp_group = w\<rparr>])
       (sort_key fst (peer_votes critiques)))"

text \<open>A position's group may have at most 64 characters; case folding can make a label longer than the reply's.\<close>

definition derive_peer_stance :: "slot_critique list \<Rightarrow> nat \<Rightarrow> nat \<Rightarrow> string + panel_stance option" where
  "derive_peer_stance critiques rnd eligible_count =
     (if eligible_count \<le> 0 then Inr None
      else if live_stances critiques = [] then Inr None
      else
        let positions = peer_positions critiques (eligible_count div 2 + 1) in
        if list_ex (\<lambda>p. length (sp_group p) > 64) positions then Inl ''ValidationError''
        else if positions = [] then Inr None
        else Inr (Some \<lparr>ps_author_model_id = PEER_PANEL_STANCE_AUTHOR, ps_round_number = rnd, ps_positions = positions\<rparr>))"

section \<open>Prompts and templates\<close>

definition extract_disagreement :: "initial_answer list \<Rightarrow> string" where
  "extract_disagreement answers =
     (let paths = set (map ia_provider_path answers) in
      if FALLBACK_SEARCH \<in> paths \<and> card paths > 1
      then ''Models disagree on whether to rely on the primary provider or the fallback search path; '' @
           ''treat the divergence as material and surface both to the user.''
      else ''Models largely agree on the top-level conclusion but disagree on the supporting evidence; '' @
           ''surface the difference so the user can audit it.'')"

definition all_models_phrase :: "nat \<Rightarrow> string option" where
  "all_models_phrase n =
     (if n = 2 then Some ''Both models''
      else map_option (\<lambda>w. ''All '' @ lower_first w @ '' models'') (panel_size_word n))"

definition extract_weak_support :: "initial_answer list \<Rightarrow> string \<Rightarrow> string" where
  "extract_weak_support answers all_models =
     (let weak = filter (\<lambda>a. ia_sources a = []) answers in
      if weak \<noteq> [] then nat_str (length weak) @ '' model(s) returned no visible source references; treat their claims as unsupported.''
      else all_models @ '' returned at least one source reference; the relative strength of those references still varies.'')"

definition extract_missing_reasoning :: "initial_answer list \<Rightarrow> string" where
  "extract_missing_reasoning answers =
     (let failed = filter (\<lambda>a. ia_status a = ANSWER_FAILED) answers in
      if failed \<noteq> [] then nat_str (length failed) @ '' model(s) failed to return a usable response; do not fill the gap with speculation.''
      else ''No model failed outright, but the explicit decision-support framing is missing from the '' @
           ''raw output and should be re-introduced in the synthesis.'')"

definition templated_critique :: "nat \<Rightarrow> initial_answer list \<Rightarrow> string \<Rightarrow> string" where
  "templated_critique rnd answers all_models =
     (let d = extract_disagreement answers; w = extract_weak_support answers all_models; m = extract_missing_reasoning answers in
      if rnd = 1
      then ''Round 1 critique.'' @ [CHR 0x0A] @ ''Disagreement: '' @ d @ [CHR 0x0A] @ ''Weak support: '' @ w @ [CHR 0x0A] @
           ''Missing reasoning: '' @ m @ [CHR 0x0A] @ ''Query context preserved without re-quoting the user prompt.''
      else ''Round 2 critique, refining round 1.'' @ [CHR 0x0A] @ ''Refined disagreement: '' @ d @ [CHR 0x0A] @
           ''Refined weak support: '' @ w @ [CHR 0x0A] @ ''Refined missing reasoning: '' @ m @ [CHR 0x0A] @
           ''Round 2 narrows to the strongest residual concerns without re-quoting the user prompt.'')"

definition peer_fallback_notice :: "nat \<Rightarrow> nat \<Rightarrow> string" where
  "peer_fallback_notice slot rnd =
     ''Slot '' @ nat_str slot @ '' did not return a usable critique for debate round '' @ nat_str rnd @ ''.''"

definition peer_digest :: "slot_critique list \<Rightarrow> string" where
  "peer_digest critiques =
     (if critiques = [] then []
      else
        let per_critic = SYNTHESIS_DEBATE_EXCERPT_MAX_CHARS div length critiques in
        join [CHR 0x0A] (map (\<lambda>c.
          let label = ''Slot '' @ nat_str (sc_critic_slot_number c) @ '': ''
          in label @ take (per_critic - length label - 1) (one_line (sc_critique_text c))) critiques))"

definition status_value :: "answer_status \<Rightarrow> string" where
  "status_value st = (case st of ANSWER_COMPLETED \<Rightarrow> ''completed'' | ANSWER_FAILED \<Rightarrow> ''failed'')"

definition source_text :: "source_reference \<Rightarrow> codepoint list" where
  "source_text s =
     flatten_for_prompt (Some (text_points (sr_title s))) MAX_SOURCE_TITLE_LEN @ points '' ('' @
     flatten_for_prompt (Some (text_points (sr_url s))) MAX_SOURCE_URL_LEN @ points '')''"

fun join_points :: "codepoint list \<Rightarrow> codepoint list list \<Rightarrow> codepoint list" where
  "join_points sep [] = []"
| "join_points sep [s] = s"
| "join_points sep (s # t # ss) = s @ sep @ join_points sep (t # ss)"

definition answer_lines :: "debate_env \<Rightarrow> initial_answer \<Rightarrow> codepoint list list" where
  "answer_lines de a =
     (let label = (if ia_display_name a \<noteq> [] then ia_display_name a else ia_model_id a);
          sources = join_points (points '', '') (map source_text (take MAX_SOURCES_PER_ANSWER (ia_sources a)))
      in [text_points (''- Slot '' @ nat_str (ia_slot_number a) @ '' '' @ [CHR 0x17] @ '' '' @ label @ '' ('' @ status_value (ia_status a) @
            ''): '' @ take (de_excerpt_chars de) (one_line (ia_answer_text a))),
          (if sources = [] then points ''    sources: none'' else points ''    sources: '' @ sources)])"

definition debate_user_prompt ::
  "debate_env \<Rightarrow> string \<Rightarrow> initial_answer list \<Rightarrow> string option \<Rightarrow> string \<Rightarrow> codepoint list" where
  "debate_user_prompt de query answers prior_round size_word =
     (let directives =
            [text_points (''The user'' @ [CHR 0x27] @ ''s question and the '' @ lower_first size_word @ '' model answers are in the evidence '' @
              ''block below. Do NOT repeat the question verbatim in your response.'')] @
            (if prior_round = None then []
             else [points ''The block also carries the round 1 critique, for context. Do NOT repeat it.'']);
          lines =
            [points ''User query:'', text_points (one_line query), [],
             points (size_word @ '' model answers (model name, status, first '' @ nat_str (de_excerpt_chars de) @ '' chars):'')] @
            concat (map (answer_lines de) answers) @
            (case prior_round of None \<Rightarrow> [] | Some r \<Rightarrow> [[], points ''Round 1 critique:'', text_points r])
      in join_points [0x0A] directives @ [0x0A, 0x0A] @ fence (de_db de) (join_points [0x0A] lines))"

section \<open>One call, one round\<close>

definition call_debate_model ::
  "debate_env \<Rightarrow> string \<Rightarrow> string \<Rightarrow> codepoint list \<Rightarrow> nat \<Rightarrow> nat option \<Rightarrow> trace \<Rightarrow> live_provider_result option \<times> trace" where
  "call_debate_model de model system user rnd slot tr =
     (if \<not> de_live_enabled de then (None, tr)
      else if de_openrouter_key de = [] \<or> model = [] then (None, tr)
      else
        let stop = de_stop de tr; tr = tr @ [STOP_CHECKED] in
        if stop then (None, tr)
        else
          let result = de_call de tr model system user in
          (map_option (\<lambda>r. r\<lparr>lr_usage := map_option (\<lambda>u. u\<lparr>tu_model_id := Some model\<rparr>) (lr_usage r)\<rparr>) result,
           tr @ [CALLED model rnd slot]))"

record round_words =
  rw_size :: string
  rw_all_models :: string

text \<open>What one round yields: its text, mode, stance, shape, critiques, the eligible critics, and the usage of its calls.\<close>

record round_outcome =
  ro_critique :: string
  ro_mode :: debate_mode
  ro_stance :: "panel_stance option"
  ro_shape :: critique_shape
  ro_critiques :: "slot_critique list"
  ro_eligible :: nat
  ro_usages :: "token_usage option list"

definition moderator_round ::
  "debate_env \<Rightarrow> round_words \<Rightarrow> nat \<Rightarrow> initial_answer list \<Rightarrow> string \<Rightarrow> string option \<Rightarrow> trace \<Rightarrow>
   (string + round_outcome) \<times> trace" where
  "moderator_round de rw rnd answers query prior tr =
     (let (live, tr) = call_debate_model de (de_debate_model_id de) (de_system_prompt de rnd)
            (debate_user_prompt de query answers prior (rw_size rw)) rnd None tr;
          usages = (case live of None \<Rightarrow> [] | Some r \<Rightarrow> [lr_usage r]);
          template = \<lparr>ro_critique = templated_critique rnd answers (rw_all_models rw), ro_mode = DEBATE_MODE_FALLBACK, ro_stance = None,
            ro_shape = CRITIQUE_SHAPE_MODERATOR, ro_critiques = [], ro_eligible = 0, ro_usages = usages\<rparr>;
          txt0 = (case live of None \<Rightarrow> [] | Some r \<Rightarrow> strip (lr_answer_text r))
      in if \<not> visible txt0 then (Inr template, tr)
         else (case parse_moderator_output de txt0 (de_debate_model_id de) rnd of
             Inl e \<Rightarrow> (Inl e, tr)
           | Inr (prose, stance) \<Rightarrow>
               if \<not> visible prose then (Inr template, tr)
               else (Inr (template\<lparr>ro_critique := prose, ro_mode := DEBATE_MODE_LIVE, ro_stance := stance\<rparr>), tr)))"

text \<open>The slots that may critique, in slot order.\<close>

definition eligible_critics :: "initial_answer list \<Rightarrow> initial_answer list" where
  "eligible_critics answers =
     filter (\<lambda>a. ia_status a = ANSWER_COMPLETED \<and> model_was_invoked a) (sort_key ia_slot_number answers)"

definition critique_from_reply ::
  "debate_env \<Rightarrow> initial_answer \<Rightarrow> live_provider_result option \<Rightarrow> nat \<Rightarrow> string + slot_critique" where
  "critique_from_reply de critic live rnd =
     (let template = \<lparr>sc_critic_slot_number = ia_slot_number critic, sc_critic_model_id = ia_model_id critic,
            sc_critique_text = peer_fallback_notice (ia_slot_number critic) rnd, sc_focus_areas = FOCUS_AREAS,
            sc_critique_mode = DEBATE_MODE_FALLBACK, sc_stance = None, sc_self_assessment = None,
            sc_position_rationale = [], sc_cited_sources = [], sc_revised_answer = []\<rparr>;
          txt0 = (case live of None \<Rightarrow> [] | Some r \<Rightarrow> strip (lr_answer_text r))
      in if \<not> visible txt0 then Inr template
         else (case parse_moderator_output de txt0 (ia_model_id critic) rnd of
             Inl e \<Rightarrow> Inl e
           | Inr (prose, stance) \<Rightarrow>
               if \<not> visible prose then Inr template
               else
                 let pc = (if rnd = 2 then parse_peer_convergence de txt0 else said_nothing) in
                 Inr (template\<lparr>sc_critique_text := prose, sc_critique_mode := DEBATE_MODE_LIVE, sc_stance := stance,
                   sc_self_assessment := pc_self_assessment pc, sc_position_rationale := pc_rationale pc,
                   sc_cited_sources := pc_sources pc, sc_revised_answer := pc_revised_answer pc\<rparr>)))"

definition peer_critic_directive :: "nat \<Rightarrow> nat \<Rightarrow> string \<Rightarrow> string" where
  "peer_critic_directive slot rnd convergence =
     (let base = [CHR 0x0A, CHR 0x0A] @ ''You are the model that wrote Slot '' @ nat_str slot @ [CHR 0x27] @ ''s answer. Apply the lens above '' @
            ''to the OTHER answers AND to your own. Do not simply restate your answer; assess it.''
      in if rnd = 1 then base else base @ convergence)"

text \<open>Critics are asked one after the other, until a cancel is seen.\<close>

fun ask_critics ::
  "debate_env \<Rightarrow> nat \<Rightarrow> codepoint list \<Rightarrow> initial_answer list \<Rightarrow> slot_critique list \<Rightarrow> token_usage option list \<Rightarrow> trace \<Rightarrow>
   (string + (slot_critique list \<times> token_usage option list)) \<times> trace" where
  "ask_critics de rnd user [] critiques usages tr = (Inr (critiques, usages), tr)"
| "ask_critics de rnd user (critic # critics) critiques usages tr =
     (let stop = de_stop de tr; tr = tr @ [STOP_CHECKED] in
      if stop then (Inr (critiques, usages), tr)
      else
        let (live, tr) = call_debate_model de (ia_model_id critic)
              (de_system_prompt de rnd @ peer_critic_directive (ia_slot_number critic) rnd (de_system_prompt de 3)) user rnd
              (Some (ia_slot_number critic)) tr;
            usages = usages @ (case live of None \<Rightarrow> [] | Some r \<Rightarrow> [lr_usage r])
        in case critique_from_reply de critic live rnd of
             Inl e \<Rightarrow> (Inl e, tr)
           | Inr c \<Rightarrow> ask_critics de rnd user critics (critiques @ [c]) usages tr)"

definition build_peer_round ::
  "debate_env \<Rightarrow> round_words \<Rightarrow> nat \<Rightarrow> initial_answer list \<Rightarrow> string \<Rightarrow> string option \<Rightarrow> trace \<Rightarrow>
   (string + (slot_critique list \<times> token_usage option list \<times> nat) option) \<times> trace" where
  "build_peer_round de rw rnd answers query prior tr =
     (let critics = eligible_critics answers in
      if \<not> de_peer_enabled de \<or> critics = [] then (Inr None, tr)
      else (case ask_critics de rnd (debate_user_prompt de query answers prior (rw_size rw)) critics [] [] tr of
          (Inl e, tr) \<Rightarrow> (Inl e, tr)
        | (Inr (critiques, usages), tr) \<Rightarrow>
            if critiques = [] then (Inr None, tr) else (Inr (Some (critiques, usages, length critics)), tr)))"

definition debate_round ::
  "debate_env \<Rightarrow> round_words \<Rightarrow> nat \<Rightarrow> initial_answer list \<Rightarrow> string \<Rightarrow> string option \<Rightarrow> trace \<Rightarrow>
   (string + round_outcome) \<times> trace" where
  "debate_round de rw rnd answers query prior tr =
     (case build_peer_round de rw rnd answers query prior tr of
        (Inl e, tr) \<Rightarrow> (Inl e, tr)
      | (Inr None, tr) \<Rightarrow> moderator_round de rw rnd answers query prior tr
      | (Inr (Some (critiques, usages, eligible)), tr) \<Rightarrow>
          (case derive_peer_stance critiques rnd eligible of
             Inl e \<Rightarrow> (Inl e, tr)
           | Inr stance \<Rightarrow>
               (Inr \<lparr>ro_critique = peer_digest critiques,
                  ro_mode = (if list_all (\<lambda>c. sc_critique_mode c = DEBATE_MODE_LIVE) critiques then DEBATE_MODE_LIVE else DEBATE_MODE_FALLBACK),
                  ro_stance = stance, ro_shape = CRITIQUE_SHAPE_PEER,
                  ro_critiques = critiques, ro_eligible = eligible, ro_usages = usages\<rparr>, tr)))"

section \<open>The two rounds\<close>

definition should_skip_round_two :: "debate_env \<Rightarrow> string \<Rightarrow> bool" where
  "should_skip_round_two de query =
     (if de_elapsed_ms de > de_hard_timeout_ms de then True
      else if \<not> de_local de then False
      else contains ''force debate timeout'' (lower query))"

definition round_event :: "string \<Rightarrow> uuid \<Rightarrow> uuid \<Rightarrow> nat \<Rightarrow> int \<Rightarrow> debate_round_status \<Rightarrow> bool \<Rightarrow> debate_action" where
  "round_event kind account rid rnd ms status timed_out =
     EVENT \<lparr>dv_event_type = kind, dv_account_id = account, dv_query_run_id = rid, dv_round_number = rnd,
       dv_focus_areas = FOCUS_AREAS, dv_duration_ms = ms, dv_status = status, dv_timed_out = timed_out\<rparr>"

definition round_output :: "nat \<Rightarrow> round_outcome \<Rightarrow> debate_output" where
  "round_output rnd ro =
     \<lparr>do_round_number = rnd, do_focus_areas = FOCUS_AREAS, do_critique_text = ro_critique ro, do_status = ROUND_COMPLETED,
      do_debate_mode = ro_mode ro, do_panel_stance = ro_stance ro, do_critique_shape = ro_shape ro,
      do_slot_critiques = ro_critiques ro, do_eligible_critic_count = ro_eligible ro\<rparr>"

definition run_debate_rounds ::
  "debate_env \<Rightarrow> uuid \<Rightarrow> uuid \<Rightarrow> string \<Rightarrow> initial_answer list \<Rightarrow> nat \<Rightarrow> trace \<Rightarrow> (string + debate_result) \<times> trace" where
  "run_debate_rounds de account rid query answers panel_size tr =
     (case (panel_size_word panel_size, all_models_phrase panel_size) of
        (Some size_word, Some all_models) \<Rightarrow>
          let rw = \<lparr>rw_size = size_word, rw_all_models = all_models\<rparr> in
          (case debate_round de rw 1 answers query None tr of
             (Inl e, tr) \<Rightarrow> (Inl e, tr)
           | (Inr one, tr) \<Rightarrow>
               let tr = tr @ [round_event ''debate_round_completed'' account rid 1 (max 1 (de_round_ms de 1)) ROUND_COMPLETED False];
                   usages = map (\<lambda>u. (1, u)) (ro_usages one)
               in if should_skip_round_two de query
                  then (Inr \<lparr>dr_debate_outputs = [round_output 1 one], dr_failed_steps = [''debate_round_2''],
                          dr_missing_steps = [''debate_round_2'', ''synthesis''], dr_timed_out = True, dr_live_call_usages = usages\<rparr>,
                        tr @ [round_event ''debate_round_skipped'' account rid 2 (max 1 \<lfloor>de_elapsed_ms de\<rfloor>) ROUND_SKIPPED True])
                  else (case debate_round de rw 2 answers query (Some (ro_critique one)) (tr @ [ROUND_TWO_ANNOUNCED]) of
                      (Inl e, tr) \<Rightarrow> (Inl e, tr)
                    | (Inr two, tr) \<Rightarrow>
                        (Inr \<lparr>dr_debate_outputs = [round_output 1 one, round_output 2 two], dr_failed_steps = [],
                           dr_missing_steps = [], dr_timed_out = False,
                           dr_live_call_usages = usages @ map (\<lambda>u. (2, u)) (ro_usages two)\<rparr>,
                         tr @ [round_event ''debate_round_completed'' account rid 2 (max 1 (de_round_ms de 2)) ROUND_COMPLETED False])))
      | _ \<Rightarrow> (Inl ''ValueError'', tr))"

definition record_debate_event :: "debate_round_event \<Rightarrow> debate_round_event list \<Rightarrow> debate_round_event list" where
  "record_debate_event e events = (let es = events @ [e] in drop (length es - DEBATE_MAX_EVENTS) es)"

end
