(* ===== verification/Debate_Laws.thy ===== *)
theory Debate_Laws
  imports Debate
begin

text \<open>
  What the debate promises: the peer panel's stance is a strict majority of the eligible critics, so a cancel can
  only lose positions; every paid call follows a cancel check that said no, and their number is bounded; the
  outputs are well formed; and the one reply that makes the whole debate raise.
\<close>

section \<open>Votes\<close>

text \<open>The labels the live stances give a slot, in order.\<close>

definition votes_of :: "panel_stance list \<Rightarrow> nat \<Rightarrow> string list" where
  "votes_of stances slot =
     map (\<lambda>p. casefold (strip (sp_group p))) (filter (\<lambda>p. sp_slot p = slot) (concat (map ps_positions stances)))"

definition votes_for :: "slot_critique list \<Rightarrow> nat \<Rightarrow> string \<Rightarrow> nat" where
  "votes_for critiques slot label = count_list (votes_of (live_stances critiques) slot) label"

definition one_vote_each :: "slot_critique list \<Rightarrow> bool" where
  "one_vote_each critiques = list_all (\<lambda>st. distinct (map sp_slot (ps_positions st))) (live_stances critiques)"

lemma add_votes_lookup:
  "map_of (add_votes ps votes) slot =
     (let old = (case map_of votes slot of None \<Rightarrow> [] | Some ls \<Rightarrow> ls);
          new = map (\<lambda>p. casefold (strip (sp_group p))) (filter (\<lambda>p. sp_slot p = slot) ps)
      in if new = [] then map_of votes slot else Some (old @ new))"
proof (induction ps arbitrary: votes)
  case (Cons p ps)
  show ?case by (simp add: Cons.IH Let_def split: option.split)
qed simp

lemma add_votes_ok [dict_intro]: "dict_ok votes \<Longrightarrow> dict_ok (add_votes ps votes)"
  by (induction ps arbitrary: votes) (simp_all add: dict_intro)

lemma fold_votes_lookup:
  "map_of (foldl (\<lambda>votes st. add_votes (ps_positions st) votes) v sts) slot =
     (if votes_of sts slot = [] then map_of v slot
      else Some ((case map_of v slot of None \<Rightarrow> [] | Some ls \<Rightarrow> ls) @ votes_of sts slot))"
proof (induction sts arbitrary: v)
  case Nil
  show ?case by (simp add: votes_of_def)
next
  case (Cons st sts)
  have "votes_of (st # sts) slot
      = map (\<lambda>p. casefold (strip (sp_group p))) (filter (\<lambda>p. sp_slot p = slot) (ps_positions st)) @ votes_of sts slot"
    by (simp add: votes_of_def)
  then show ?case by (simp add: Cons.IH add_votes_lookup Let_def split: option.split)
qed

lemma peer_votes_lookup:
  "map_of (peer_votes critiques) slot =
     (if votes_of (live_stances critiques) slot = [] then None else Some (votes_of (live_stances critiques) slot))"
  by (simp add: peer_votes_def fold_votes_lookup)

lemma peer_votes_ok: "dict_ok (peer_votes critiques)"
proof -
  have "dict_ok v \<Longrightarrow> dict_ok (foldl (\<lambda>votes st. add_votes (ps_positions st) votes) v sts)"
    for v and sts :: "panel_stance list"
    by (induction sts arbitrary: v) (simp_all add: dict_intro)
  then show ?thesis by (simp add: peer_votes_def)
qed

lemma live_stances_length: "length (live_stances critiques) \<le> length critiques"
  by (induction critiques) (auto simp: live_stances_def split: option.split)

lemma slot_once: "distinct (map sp_slot ps) \<Longrightarrow> length (filter (\<lambda>p. sp_slot p = slot) ps) \<le> 1"
proof (induction ps)
  case (Cons p ps)
  then show ?case by (auto simp: filter_empty_conv image_iff)
qed simp

lemma votes_bounded:
  assumes "one_vote_each critiques"
  shows "length (votes_of (live_stances critiques) slot) \<le> length critiques"
proof -
  have "list_all (\<lambda>st. distinct (map sp_slot (ps_positions st))) sts \<Longrightarrow> length (votes_of sts slot) \<le> length sts" for sts
  proof (induction sts)
    case (Cons st sts)
    then show ?case using slot_once[of "ps_positions st" slot] by (simp add: votes_of_def)
  qed (simp add: votes_of_def)
  then show ?thesis using assms live_stances_length order.trans unfolding one_vote_each_def by blast
qed

text \<open>With more than half of all possible votes, a label is the only winner.\<close>

lemma two_counts: "l \<noteq> w \<Longrightarrow> count_list xs l + count_list xs w \<le> length xs"
  by (induction xs) auto

lemma slot_winner_majority:
  assumes "length labels \<le> n"
  shows "slot_winner (n div 2 + 1) labels = Some w \<longleftrightarrow> w \<noteq> [] \<and> n < 2 * count_list labels w"
proof -
  let ?top = "Max (count_list labels ` set labels)"
  let ?best = "filter (\<lambda>l. count_list labels l = ?top) (remdups labels)"
  have le: "count_list labels l \<le> ?top" if "l \<in> set labels" for l using that by simp
  show ?thesis
  proof
    assume sw: "slot_winner (n div 2 + 1) labels = Some w"
    then have best: "?best = [w]" "n div 2 + 1 \<le> ?top" "w \<noteq> []"
      by (auto simp: slot_winner_def Let_def split: list.splits if_splits)
    then have "w \<in> set ?best" by simp
    then have "count_list labels w = ?top" by simp
    then show "w \<noteq> [] \<and> n < 2 * count_list labels w" using best(2,3) by simp
  next
    assume w: "w \<noteq> [] \<and> n < 2 * count_list labels w"
    then have "count_list labels w \<noteq> 0" by simp
    then have "w \<in> set labels" by (simp add: count_list_0_iff)
    have small: "count_list labels l < count_list labels w" if "l \<noteq> w" for l
      using two_counts[OF that, of labels] w assms by linarith
    have top: "?top = count_list labels w"
    proof (rule Max_eqI)
      fix y assume "y \<in> count_list labels ` set labels"
      then obtain l where "y = count_list labels l" by blast
      then show "y \<le> count_list labels w" using small[of l] by (cases "l = w") simp_all
    qed (use \<open>w \<in> set labels\<close> in simp_all)
    have "l \<in> set ?best \<longleftrightarrow> l = w" for l
      using \<open>w \<in> set labels\<close> small[of l] top by (cases "l = w") simp_all
    then have "set ?best = {w}" by blast
    then have best: "?best = [w]" by (intro distinct_singleton distinct_filter distinct_remdups)
    have "n div 2 + 1 \<le> ?top" unfolding top using w by linarith
    then show "slot_winner (n div 2 + 1) labels = Some w"
      unfolding slot_winner_def Let_def best using w by (simp only: list.case if_True simp_thms)
  qed
qed

lemma peer_positions_set:
  assumes "one_vote_each critiques" and "length critiques \<le> n"
  shows "set (peer_positions critiques (n div 2 + 1)) =
    {p. sp_group p \<noteq> [] \<and> n < 2 * votes_for critiques (sp_slot p) (sp_group p) \<and> slot_position.more p = ()}"
proof -
  have "p \<in> set (peer_positions critiques (n div 2 + 1)) \<longleftrightarrow>
      (\<exists>labels. (sp_slot p, labels) \<in> set (peer_votes critiques) \<and> slot_winner (n div 2 + 1) labels = Some (sp_group p))" for p
    by (cases p) (force simp: peer_positions_def split: option.splits)
  also have "\<dots> p \<longleftrightarrow> (\<exists>labels. map_of (peer_votes critiques) (sp_slot p) = Some labels
      \<and> slot_winner (n div 2 + 1) labels = Some (sp_group p))" for p
    using in_set_iff_map_of[OF peer_votes_ok] by blast
  finally have "p \<in> set (peer_positions critiques (n div 2 + 1)) \<longleftrightarrow> sp_group p \<noteq> []
      \<and> n < 2 * votes_for critiques (sp_slot p) (sp_group p)" for p
    using slot_winner_majority[OF order.trans[OF votes_bounded[OF assms(1), of "sp_slot p"] assms(2)]]
    by (auto simp: peer_votes_lookup votes_for_def)
  then show ?thesis by auto
qed

text \<open>C16. The panel's own stance is a majority of everyone who could have spoken: when each critic places a slot at most
  once, the stance puts a slot behind a label exactly when more than half of the eligible critics do in a live
  critique, so a critic who was cancelled, refused or unreadable counts as one who did not.\<close>

theorem peer_stance_is_strict_majority:
  assumes "one_vote_each critiques" and "length critiques \<le> eligible" and "derive_peer_stance critiques rnd eligible = Inr (Some st)"
  shows "(slot, label) \<in> (\<lambda>p. (sp_slot p, sp_group p)) ` set (ps_positions st)
    \<longleftrightarrow> label \<noteq> [] \<and> eligible < 2 * votes_for critiques slot label"
proof -
  have "ps_positions st = peer_positions critiques (eligible div 2 + 1)"
    using assms(3) by (auto simp: derive_peer_stance_def Let_def split: if_splits)
  then show ?thesis using peer_positions_set[OF assms(1,2)]
    by (auto simp: image_iff intro: exI[of _ "\<lparr>sp_slot = slot, sp_group = label\<rparr>"])
qed

text \<open>A cancel never makes the panel look more united: the stance read off the critiques that were made before a
  cancel holds no position that the stance of the whole round would not hold.\<close>

theorem cancel_never_adds_agreement:
  assumes "one_vote_each (critiques @ later)" and "length (critiques @ later) \<le> eligible"
    and "derive_peer_stance critiques rnd eligible = Inr (Some st)" and "derive_peer_stance (critiques @ later) rnd eligible = Inr whole"
  shows "\<exists>st'. whole = Some st' \<and> set (ps_positions st) \<subseteq> set (ps_positions st')"
proof -
  have stances: "live_stances (critiques @ later) = live_stances critiques @ live_stances later"
    by (simp add: live_stances_def)
  have one: "one_vote_each critiques" "length critiques \<le> eligible"
    using assms(1,2) by (simp_all add: one_vote_each_def stances)
  have more: "votes_for critiques slot label \<le> votes_for (critiques @ later) slot label" for slot label
    by (simp add: votes_for_def stances votes_of_def)
  have st: "ps_positions st = peer_positions critiques (eligible div 2 + 1)" "ps_positions st \<noteq> []" "0 < eligible"
      "live_stances critiques \<noteq> []"
    using assms(3) by (auto simp: derive_peer_stance_def Let_def split: if_splits)
  have sub: "set (ps_positions st) \<subseteq> set (peer_positions (critiques @ later) (eligible div 2 + 1))"
    unfolding st(1) peer_positions_set[OF one] peer_positions_set[OF assms(1,2)]
  proof (intro subsetI CollectI)
    fix p :: slot_position
    assume "p \<in> {p. sp_group p \<noteq> [] \<and> eligible < 2 * votes_for critiques (sp_slot p) (sp_group p) \<and> slot_position.more p = ()}"
    then show "sp_group p \<noteq> [] \<and> eligible < 2 * votes_for (critiques @ later) (sp_slot p) (sp_group p) \<and> slot_position.more p = ()"
      using more[of "sp_slot p" "sp_group p"] by simp
  qed
  then have "peer_positions (critiques @ later) (eligible div 2 + 1) \<noteq> []" using st(2) by auto
  moreover have "live_stances (critiques @ later) \<noteq> []" using st(4) by (simp add: stances)
  ultimately have "\<exists>st'. whole = Some st' \<and> ps_positions st' = peer_positions (critiques @ later) (eligible div 2 + 1)"
    using assms(4) st(3) unfolding derive_peer_stance_def Let_def
    by (metis Inl_Inr_False Inr_inject gr0_conv_Suc nat_le_0 not_less panel_stance.select_convs(3) less_nat_zero_code)
  then show ?thesis using sub by auto
qed

section \<open>Paid calls\<close>

fun is_call :: "debate_action \<Rightarrow> bool" where
  "is_call (CALLED m rnd slot) = True"
| "is_call _ = False"

definition calls_made :: "trace \<Rightarrow> nat" where "calls_made tr = length (filter is_call tr)"

lemma calls_made_append [simp]: "calls_made (tr @ tr') = calls_made tr + calls_made tr'"
  by (simp add: calls_made_def)

lemma calls_made_action [simp]:
  "calls_made [STOP_CHECKED] = 0" "calls_made [CALLED m rnd slot] = 1" "calls_made [ROUND_TWO_ANNOUNCED] = 0"
  "calls_made [round_event k a rid rnd ms s t] = 0"
  by (simp_all add: calls_made_def round_event_def)

text \<open>Every call follows at once a cancel check that said no.\<close>

definition calls_checked :: "debate_env \<Rightarrow> trace \<Rightarrow> bool" where
  "calls_checked de tr = (\<forall>i < length tr. is_call (tr ! i) \<longrightarrow>
     0 < i \<and> tr ! (i - 1) = STOP_CHECKED \<and> \<not> de_stop de (take (i - 1) tr))"

lemma calls_checked_other: "calls_checked de tr \<Longrightarrow> \<not> is_call x \<Longrightarrow> calls_checked de (tr @ [x])"
  by (auto simp: calls_checked_def nth_append less_Suc_eq)

lemma calls_checked_call:
  "calls_checked de tr \<Longrightarrow> \<not> de_stop de tr \<Longrightarrow> calls_checked de (tr @ [STOP_CHECKED, CALLED m rnd slot])"
  by (auto simp: calls_checked_def nth_append less_Suc_eq nth_Cons split: nat.split)

text \<open>A part of the debate whose calls are all checked, at least \<open>u\<close> and at most \<open>n\<close> of them.\<close>

definition spends :: "debate_env \<Rightarrow> trace \<Rightarrow> trace \<Rightarrow> nat \<Rightarrow> nat \<Rightarrow> bool" where
  "spends de tr tr' u n =
     ((calls_checked de tr \<longrightarrow> calls_checked de tr') \<and> calls_made tr + u \<le> calls_made tr' \<and> calls_made tr' \<le> calls_made tr + n)"

lemma spends_refl: "spends de tr tr 0 0"
  by (simp add: spends_def)

lemma spends_trans: "spends de tr tr' u m \<Longrightarrow> spends de tr' tr'' v n \<Longrightarrow> spends de tr tr'' (u + v) (m + n)"
  by (auto simp: spends_def)

lemma spends_more: "spends de tr tr' u m \<Longrightarrow> v \<le> u \<Longrightarrow> m \<le> n \<Longrightarrow> spends de tr tr' v n"
  by (auto simp: spends_def)

lemma spends_other: "\<not> is_call x \<Longrightarrow> spends de tr (tr @ [x]) 0 0"
  by (cases x) (auto simp: spends_def calls_made_def intro: calls_checked_other)

definition pays :: "debate_env \<Rightarrow> bool" where "pays de = (de_live_enabled de \<and> de_openrouter_key de \<noteq> [])"

definition allowed :: "debate_env \<Rightarrow> nat \<Rightarrow> nat" where "allowed de n = (if pays de then n else 0)"

lemma call_spends:
  assumes "call_debate_model de model system user rnd slot tr = (live, tr')"
  shows "spends de tr tr' (case live of None \<Rightarrow> 0 | Some r \<Rightarrow> 1) (allowed de 1)"
proof (cases "pays de \<and> model \<noteq> [] \<and> \<not> de_stop de tr")
  case True
  have "calls_checked de tr \<Longrightarrow> calls_checked de (tr @ [STOP_CHECKED, CALLED model rnd slot])"
    using calls_checked_call True by blast
  moreover have "tr' = tr @ [STOP_CHECKED, CALLED model rnd slot]"
    using assms True by (auto simp: call_debate_model_def pays_def Let_def)
  moreover have "calls_made [STOP_CHECKED, CALLED model rnd slot] = 1" by (simp add: calls_made_def)
  ultimately show ?thesis using True by (auto simp: spends_def allowed_def split: option.split)
next
  case False
  then have "live = None" "tr' = tr \<or> tr' = tr @ [STOP_CHECKED]"
    using assms by (auto simp: call_debate_model_def pays_def Let_def split: if_splits)
  then show ?thesis using spends_more[OF spends_refl] spends_more[OF spends_other[of STOP_CHECKED]] by auto
qed

lemma ask_critics_spends:
  assumes "ask_critics de rnd user critics critiques usages tr = (res, tr')"
  shows "case res of
      Inl e \<Rightarrow> spends de tr tr' 0 (allowed de (length critics))
    | Inr (cs, us) \<Rightarrow> spends de tr tr' (length us - length usages) (allowed de (length critics)) \<and> length usages \<le> length us
        \<and> length critiques \<le> length cs \<and> length cs \<le> length critiques + length critics
        \<and> (cs = critiques \<longrightarrow> spends de tr tr' 0 0)"
  using assms
proof (induction critics arbitrary: critiques usages tr)
  case Nil
  then show ?case by (auto simp: spends_refl allowed_def)
next
  case (Cons critic critics)
  let ?tr = "tr @ [STOP_CHECKED]"
  have check: "spends de tr ?tr 0 0" by (rule spends_other) simp
  show ?case
  proof (cases "de_stop de tr")
    case True
    then have "res = Inr (critiques, usages)" "tr' = ?tr" using Cons(2) by auto
    then show ?thesis using check spends_more[OF check] by auto
  next
    case False
    obtain live tr1 where call: "call_debate_model de (ia_model_id critic)
        (de_system_prompt de rnd @ peer_critic_directive (ia_slot_number critic) rnd (de_system_prompt de 3)) user rnd
        (Some (ia_slot_number critic)) ?tr = (live, tr1)" by force
    let ?us = "usages @ (case live of None \<Rightarrow> [] | Some r \<Rightarrow> [lr_usage r])"
    have one: "spends de tr tr1 (length ?us - length usages) (allowed de 1)"
      using spends_trans[OF check call_spends[OF call]] by (cases live) auto
    have add: "allowed de (length (critic # critics)) = allowed de 1 + allowed de (length critics)" by (simp add: allowed_def)
    show ?thesis
    proof (cases "critique_from_reply de critic live rnd")
      case (Inl e)
      then have "res = Inl e" "tr' = tr1" using Cons(2) False call by (auto simp: Let_def)
      then show ?thesis using spends_more[OF one, of 0] add by auto
    next
      case (Inr c)
      then have rest: "ask_critics de rnd user critics (critiques @ [c]) ?us tr1 = (res, tr')"
        using Cons(2) False call by (auto simp: Let_def)
      show ?thesis
      proof (cases res)
        case (Inl e)
        then have "spends de tr1 tr' 0 (allowed de (length critics))" using Cons.IH[OF rest] by simp
        from spends_more[OF spends_trans[OF one this], of 0] show ?thesis using Inl add by simp
      next
        case (Inr p)
        obtain cs us where p: "p = (cs, us)" by force
        then have IH: "spends de tr1 tr' (length us - length ?us) (allowed de (length critics))" "length ?us \<le> length us"
            "length (critiques @ [c]) \<le> length cs" "length cs \<le> length (critiques @ [c]) + length critics"
          using Cons.IH[OF rest] Inr by auto
        have "length usages \<le> length ?us" by simp
        then have "length us - length usages = (length ?us - length usages) + (length us - length ?us)" using IH(2) by linarith
        then have "spends de tr tr' (length us - length usages) (allowed de (length (critic # critics)))"
          using spends_trans[OF one IH(1)] add by metis
        then show ?thesis using Inr p IH \<open>length usages \<le> length ?us\<close> by auto
      qed
    qed
  qed
qed

lemma moderator_spends:
  assumes "moderator_round de rw rnd answers query prior tr = (res, tr')"
  shows "spends de tr tr' (case res of Inl e \<Rightarrow> 0 | Inr ro \<Rightarrow> length (ro_usages ro)) (allowed de 1)"
proof -
  obtain live tr1 where call: "call_debate_model de (de_debate_model_id de) (de_system_prompt de rnd)
      (debate_user_prompt de query answers prior (rw_size rw)) rnd None tr = (live, tr1)" by force
  have tr': "tr' = tr1" using assms call
    by (auto simp: moderator_round_def Let_def split: if_splits sum.splits)
  have us: "ro_usages ro = (case live of None \<Rightarrow> [] | Some r \<Rightarrow> [lr_usage r])" if "res = Inr ro" for ro
    using assms call that by (auto simp: moderator_round_def Let_def split: if_splits sum.splits)
  show ?thesis unfolding tr'
    by (rule spends_more[OF call_spends[OF call]]) (auto simp: us split: sum.split option.split)
qed

lemma round_spends:
  assumes "debate_round de rw rnd answers query prior tr = (res, tr')"
  shows "spends de tr tr' (case res of Inl e \<Rightarrow> 0 | Inr ro \<Rightarrow> length (ro_usages ro)) (allowed de (max 1 (length (eligible_critics answers))))"
proof -
  let ?n = "length (eligible_critics answers)"
  have le: "allowed de ?n \<le> allowed de (max 1 ?n)" "allowed de 1 \<le> allowed de (max 1 ?n)" by (simp_all add: allowed_def)
  obtain pres tr1 where peer: "build_peer_round de rw rnd answers query prior tr = (pres, tr1)" by force
  obtain ares tr2 where ask: "ask_critics de rnd (debate_user_prompt de query answers prior (rw_size rw)) (eligible_critics answers) [] [] tr
      = (ares, tr2)" by force
  note asks = ask_critics_spends[OF ask]
  show ?thesis
  proof (cases "\<not> de_peer_enabled de \<or> eligible_critics answers = []")
    case True
    then have "moderator_round de rw rnd answers query prior tr = (res, tr')"
      using assms by (auto simp: debate_round_def build_peer_round_def)
    from spends_more[OF moderator_spends[OF this] order.refl le(2)] show ?thesis .
  next
    case peers: False
    show ?thesis
    proof (cases ares)
      case (Inl e)
      then have "res = Inl e" "tr' = tr2" using assms peers ask by (auto simp: debate_round_def build_peer_round_def)
      then show ?thesis using asks Inl spends_more[OF _ order.refl le(1)] by auto
    next
      case (Inr p)
      obtain cs us where p: "p = (cs, us)" by force
      have cs: "spends de tr tr2 (length us) (allowed de ?n)" "cs = [] \<Longrightarrow> spends de tr tr2 0 0" using asks Inr p by auto
      show ?thesis
      proof (cases "cs = []")
        case True
        then have "moderator_round de rw rnd answers query prior tr2 = (res, tr')"
          using assms peers ask Inr p by (auto simp: debate_round_def build_peer_round_def)
        from spends_trans[OF cs(2)[OF True] moderator_spends[OF this]] show ?thesis
          using le(2) by (auto intro: spends_more)
      next
        case False
        then have "tr' = tr2" "\<And>ro. res = Inr ro \<Longrightarrow> ro_usages ro = us"
          using assms peers ask Inr p by (auto simp: debate_round_def build_peer_round_def split: sum.splits)
        then show ?thesis using spends_more[OF cs(1) _ le(1)] by (auto split: sum.split)
      qed
    qed
  qed
qed

text \<open>C15. The debate pays only as it may: every paid call comes right after a cancel check that said no, no call is made
  with live execution off or without a key, the calls are at most two per critic that may speak (two when none
  may), and every usage the run is charged for belongs to a call.\<close>

theorem debate_pays_within_bounds:
  assumes "run_debate_rounds de account rid query answers n [] = (res, tr)"
  shows "calls_checked de tr \<and> calls_made tr \<le> (if pays de then 2 * max 1 (length (eligible_critics answers)) else 0)
    \<and> (case res of Inl e \<Rightarrow> True | Inr dr \<Rightarrow> length (dr_live_call_usages dr) \<le> calls_made tr)"
proof -
  let ?n = "max 1 (length (eligible_critics answers))"
  have other: "spends de t (t @ [x]) 0 0" if "\<not> is_call x" for t x using that by (rule spends_other)
  have event: "\<not> is_call (round_event k a r i ms st b)" for k a r i ms st b by (simp add: round_event_def)
  have "spends de [] tr (case res of Inl e \<Rightarrow> 0 | Inr dr \<Rightarrow> length (dr_live_call_usages dr)) (allowed de ?n + allowed de ?n)"
  proof (cases "panel_size_word n = None \<or> all_models_phrase n = None")
    case True
    then have "res = Inl ''ValueError''" "tr = []" using assms by (auto simp: run_debate_rounds_def split: option.splits)
    then show ?thesis using spends_more[OF spends_refl] by auto
  next
    case False
    then obtain sw am where words: "panel_size_word n = Some sw" "all_models_phrase n = Some am" by auto
    define rw where "rw = \<lparr>rw_size = sw, rw_all_models = am\<rparr>"
    obtain r1 t1 where one: "debate_round de rw 1 answers query None [] = (r1, t1)" by force
    show ?thesis
    proof (cases r1)
      case (Inl e)
      then have "res = Inl e" "tr = t1" using assms words one by (auto simp: run_debate_rounds_def rw_def)
      then show ?thesis using spends_more[OF round_spends[OF one], of 0] Inl by auto
    next
      case (Inr o1)
      define t2 where "t2 = t1 @ [round_event ''debate_round_completed'' account rid 1 (max 1 (de_round_ms de 1)) ROUND_COMPLETED False]"
      have s1: "spends de [] t2 (length (ro_usages o1)) (allowed de ?n)"
        using spends_trans[OF round_spends[OF one] other[OF event]] Inr by (simp add: t2_def)
      show ?thesis
      proof (cases "should_skip_round_two de query")
        case True
        then obtain x where "tr = t2 @ [x]" "\<not> is_call x" "res = Inr dr \<Longrightarrow> length (dr_live_call_usages dr) = length (ro_usages o1)"
            "\<exists>dr. res = Inr dr" for dr
          using assms words one Inr event by (fastforce simp: run_debate_rounds_def rw_def t2_def)
        then show ?thesis using spends_more[OF spends_trans[OF s1 other]] by (auto split: sum.split)
      next
        case skip: False
        obtain r2 t3 where two: "debate_round de rw 2 answers query (Some (ro_critique o1)) (t2 @ [ROUND_TWO_ANNOUNCED]) = (r2, t3)" by force
        have s2: "spends de [] t3 (length (ro_usages o1) + (case r2 of Inl e \<Rightarrow> 0 | Inr ro \<Rightarrow> length (ro_usages ro))) (allowed de ?n + allowed de ?n)"
          using spends_trans[OF spends_trans[OF s1 other[of ROUND_TWO_ANNOUNCED]] round_spends[OF two]] by simp
        show ?thesis
        proof (cases r2)
          case (Inl e)
          then have "res = Inl e" "tr = t3" using assms words one Inr skip two by (auto simp: run_debate_rounds_def rw_def t2_def Let_def)
          then show ?thesis using spends_more[OF s2, of 0] by auto
        next
          case (Inr o2)
          then obtain x where "tr = t3 @ [x]" "\<not> is_call x" "\<exists>dr. res = Inr dr \<and> length (dr_live_call_usages dr) = length (ro_usages o1) + length (ro_usages o2)"
            using assms words one \<open>r1 = Inr o1\<close> skip two event by (fastforce simp: run_debate_rounds_def rw_def t2_def Let_def)
          then show ?thesis using spends_more[OF spends_trans[OF s2 other]] Inr by auto
        qed
      qed
    qed
  qed
  moreover have "calls_checked de []" "calls_made [] = 0" by (simp_all add: calls_checked_def calls_made_def)
  ultimately show ?thesis by (auto simp: spends_def allowed_def split: sum.splits)
qed

section \<open>Well-formed outputs\<close>

text \<open>What the API models demand of a stance and of an output, and how the parts of an output go together.\<close>

definition stance_ok :: "panel_stance \<Rightarrow> bool" where
  "stance_ok st =
     (1 \<le> length (ps_author_model_id st) \<and> length (ps_author_model_id st) \<le> 256 \<and> ps_round_number st \<in> {1, 2}
      \<and> ps_positions st \<noteq> [] \<and> distinct (map sp_slot (ps_positions st))
      \<and> list_all (\<lambda>p. 1 \<le> sp_slot p \<and> sp_slot p \<le> 4 \<and> 1 \<le> length (sp_group p) \<and> length (sp_group p) \<le> 64) (ps_positions st))"

definition critique_ok :: "slot_critique \<Rightarrow> bool" where
  "critique_ok c =
     (case sc_stance c of None \<Rightarrow> True | Some st \<Rightarrow> stance_ok st \<and> sc_critique_mode c = DEBATE_MODE_LIVE)"

text \<open>A critique is that of one eligible answer: its slot and model; a live one shows visible prose, and its stance is the
  critic's own, of this round; one that is not live shows the fixed notice and says nothing else.\<close>

definition critique_shown :: "nat \<Rightarrow> initial_answer \<Rightarrow> slot_critique \<Rightarrow> bool" where
  "critique_shown rnd a c =
     (sc_critic_slot_number c = ia_slot_number a \<and> sc_critic_model_id c = ia_model_id a \<and> sc_focus_areas c = FOCUS_AREAS
      \<and> (case sc_critique_mode c of
           DEBATE_MODE_LIVE \<Rightarrow> visible (sc_critique_text c)
             \<and> (case sc_stance c of None \<Rightarrow> True | Some st \<Rightarrow> ps_author_model_id st = ia_model_id a \<and> ps_round_number st = rnd)
         | DEBATE_MODE_FALLBACK \<Rightarrow> sc_critique_text c = peer_fallback_notice (ia_slot_number a) rnd \<and> sc_stance c = None
             \<and> sc_self_assessment c = None \<and> sc_position_rationale c = [] \<and> sc_cited_sources c = [] \<and> sc_revised_answer c = []))"

definition output_ok :: "initial_answer list \<Rightarrow> debate_output \<Rightarrow> bool" where
  "output_ok answers out =
     (do_round_number out \<in> {1, 2} \<and> do_focus_areas out = FOCUS_AREAS
      \<and> (case do_panel_stance out of None \<Rightarrow> True | Some st \<Rightarrow> stance_ok st \<and> ps_round_number st = do_round_number out)
      \<and> (case do_critique_shape out of
           CRITIQUE_SHAPE_PEER \<Rightarrow>
             (let cs = do_slot_critiques out; critics = eligible_critics answers in
              cs \<noteq> [] \<and> length cs \<le> length critics \<and> do_eligible_critic_count out = length critics
              \<and> list_all2 (critique_shown (do_round_number out)) (take (length cs) critics) cs \<and> list_all critique_ok cs
              \<and> (do_debate_mode out = DEBATE_MODE_LIVE \<longleftrightarrow> (\<forall>c \<in> set cs. sc_critique_mode c = DEBATE_MODE_LIVE))
              \<and> do_critique_text out = peer_digest cs)
         | CRITIQUE_SHAPE_MODERATOR \<Rightarrow> do_slot_critiques out = [] \<and> do_eligible_critic_count out = 0
             \<and> (case do_debate_mode out of DEBATE_MODE_LIVE \<Rightarrow> visible (do_critique_text out) | DEBATE_MODE_FALLBACK \<Rightarrow> do_panel_stance out = None)
         | CRITIQUE_SHAPE_QUICK \<Rightarrow> False))"

text \<open>What the pydantic model of a position accepts.\<close>

definition positions_checked :: "debate_env \<Rightarrow> bool" where
  "positions_checked de = (\<forall>e p. de_position de e = Some p \<longrightarrow>
     1 \<le> sp_slot p \<and> sp_slot p \<le> 4 \<and> 1 \<le> length (sp_group p) \<and> length (sp_group p) \<le> 64)"

lemma all_some_set: "all_some xs = Some ys \<Longrightarrow> y \<in> set ys \<Longrightarrow> Some y \<in> set xs"
  by (induction xs arbitrary: ys rule: all_some.induct) auto

lemma all_some_length: "all_some xs = Some ys \<Longrightarrow> length ys = length xs"
  by (induction xs arbitrary: ys rule: all_some.induct) auto

lemma parsed_stance_ok:
  assumes "positions_checked de" and "parse_moderator_output de raw author rnd = Inr (prose, Some st)"
  shows "stance_ok st \<and> ps_round_number st = rnd"
proof -
  obtain e es ps where p: "all_some (map (de_position de) (e # es)) = Some ps" "1 \<le> length author" "length author \<le> 256"
      "1 \<le> rnd" "rnd \<le> 2" "distinct (map sp_slot ps)"
      "st = \<lparr>ps_author_model_id = author, ps_round_number = rnd, ps_positions = ps\<rparr>"
    using assms(2) by (auto simp: parse_moderator_output_def Let_def split: if_splits loads_result.splits json.splits list.splits option.splits)
  have "1 \<le> sp_slot q \<and> sp_slot q \<le> 4 \<and> 1 \<le> length (sp_group q) \<and> length (sp_group q) \<le> 64" if "q \<in> set ps" for q
    using all_some_set[OF p(1) that] assms(1) unfolding positions_checked_def by (auto simp del: map_map)
  moreover have "ps \<noteq> []" using all_some_length[OF p(1)] by auto
  moreover have "rnd = 1 \<or> rnd = 2" using p(4,5) by linarith
  ultimately show ?thesis using p(2,3,6) unfolding p(7) stance_ok_def by (auto simp: list_all_iff)
qed

lemma reply_critique_ok:
  assumes "positions_checked de" and "critique_from_reply de critic live rnd = Inr c"
  shows "critique_ok c"
proof (cases "sc_stance c")
  case (Some st)
  obtain prose where "parse_moderator_output de (case live of None \<Rightarrow> [] | Some r \<Rightarrow> strip (lr_answer_text r)) (ia_model_id critic) rnd = Inr (prose, Some st)"
      "sc_critique_mode c = DEBATE_MODE_LIVE"
    using assms(2) Some by (auto simp: critique_from_reply_def Let_def split: if_splits sum.splits)
  then show ?thesis using parsed_stance_ok[OF assms(1)] Some by (auto simp: critique_ok_def)
qed (simp add: critique_ok_def)

lemma asked_critiques_ok:
  "positions_checked de \<Longrightarrow> ask_critics de rnd user critics critiques usages tr = (Inr (cs, us), tr') \<Longrightarrow> list_all critique_ok critiques
    \<Longrightarrow> list_all critique_ok cs"
proof (induction critics arbitrary: critiques usages tr)
  case (Cons critic critics)
  then show ?case using reply_critique_ok
    by (auto simp: Let_def split: if_splits prod.splits sum.splits)
qed simp

lemma reply_critique_shown:
  assumes "critique_from_reply de critic live rnd = Inr c"
  shows "critique_shown rnd critic c"
proof -
  have "ps_author_model_id st = ia_model_id critic \<and> ps_round_number st = rnd"
    if "parse_moderator_output de raw (ia_model_id critic) rnd = Inr (prose, Some st)" for raw prose st
    using that by (auto simp: parse_moderator_output_def Let_def split: if_splits loads_result.splits json.splits list.splits option.splits)
  then show ?thesis using assms
    by (auto simp: critique_from_reply_def critique_shown_def Let_def split: if_splits sum.splits option.splits)
qed

lemma asked_critiques_shown:
  "ask_critics de rnd user critics critiques usages tr = (Inr (cs, us), tr') \<Longrightarrow>
   \<exists>ds. cs = critiques @ ds \<and> length ds \<le> length critics \<and> list_all2 (critique_shown rnd) (take (length ds) critics) ds"
proof (induction critics arbitrary: critiques usages tr)
  case (Cons critic critics)
  obtain live tr1 where call: "call_debate_model de (ia_model_id critic)
      (de_system_prompt de rnd @ peer_critic_directive (ia_slot_number critic) rnd (de_system_prompt de 3)) user rnd
      (Some (ia_slot_number critic)) (tr @ [STOP_CHECKED]) = (live, tr1)" by force
  show ?case
  proof (cases "de_stop de tr")
    case True
    then show ?thesis using Cons.prems by simp
  next
    case False
    obtain c us' where c: "critique_from_reply de critic live rnd = Inr c"
      and rest: "ask_critics de rnd user critics (critiques @ [c]) us' tr1 = (Inr (cs, us), tr')"
      using Cons.prems False call by (auto simp: Let_def split: sum.splits)
    from Cons.IH[OF rest] obtain ds where "cs = (critiques @ [c]) @ ds" "length ds \<le> length critics"
      "list_all2 (critique_shown rnd) (take (length ds) critics) ds" by blast
    then show ?thesis using reply_critique_shown[OF c] by (intro exI[of _ "c # ds"]) simp
  qed
qed simp

lemma vote_slot:
  assumes "map_of (peer_votes critiques) slot = Some labels" and "list_all critique_ok critiques"
  shows "1 \<le> slot \<and> slot \<le> 4"
proof -
  have "votes_of (live_stances critiques) slot \<noteq> []" using assms(1) by (auto simp: peer_votes_lookup split: if_splits)
  then obtain st q where "st \<in> set (live_stances critiques)" "q \<in> set (ps_positions st)" "sp_slot q = slot"
    by (auto simp: votes_of_def filter_empty_conv)
  then obtain c where "c \<in> set critiques" "sc_stance c = Some st"
    by (auto simp: live_stances_def split: if_splits option.splits)
  then have "stance_ok st" using assms(2) by (auto simp: critique_ok_def list_all_iff)
  then show ?thesis using \<open>q \<in> set (ps_positions st)\<close> \<open>sp_slot q = slot\<close> by (auto simp: stance_ok_def list_all_iff)
qed

lemma peer_position_votes:
  assumes "p \<in> set (peer_positions critiques thr)"
  shows "\<exists>labels. map_of (peer_votes critiques) (sp_slot p) = Some labels \<and> slot_winner thr labels = Some (sp_group p)"
proof -
  have "p \<in> set (peer_positions critiques thr) \<longleftrightarrow>
      (\<exists>labels. (sp_slot p, labels) \<in> set (peer_votes critiques) \<and> slot_winner thr labels = Some (sp_group p))"
    by (cases p) (force simp: peer_positions_def split: option.splits)
  then show ?thesis using assms in_set_iff_map_of[OF peer_votes_ok] by blast
qed

lemma peer_positions_distinct: "distinct (map sp_slot (peer_positions critiques thr))"
proof -
  have "map sp_slot (concat (map (\<lambda>(slot, labels).
      case slot_winner thr labels of None \<Rightarrow> [] | Some w \<Rightarrow> [\<lparr>sp_slot = slot, sp_group = w\<rparr>]) vs))
    = map fst (filter (\<lambda>(slot, labels). slot_winner thr labels \<noteq> None) vs)" for vs :: "(nat \<times> string list) list"
    by (induction vs) (auto split: option.splits)
  moreover have "distinct (map fst (sort_key fst (peer_votes critiques)))"
    using peer_votes_ok[of critiques] by (metis dict_ok_def distinct_map distinct_sort set_sort)
  ultimately show ?thesis unfolding peer_positions_def by (simp only: distinct_map_filter)
qed

lemma derived_stance_ok:
  assumes "derive_peer_stance critiques rnd eligible = Inr (Some st)" and "list_all critique_ok critiques" and "rnd \<in> {1, 2}"
  shows "stance_ok st \<and> ps_round_number st = rnd"
proof -
  have st: "st = \<lparr>ps_author_model_id = PEER_PANEL_STANCE_AUTHOR, ps_round_number = rnd, ps_positions = peer_positions critiques (eligible div 2 + 1)\<rparr>"
      "peer_positions critiques (eligible div 2 + 1) \<noteq> []" "list_all (\<lambda>p. length (sp_group p) \<le> 64) (peer_positions critiques (eligible div 2 + 1))"
    using assms(1) by (auto simp: derive_peer_stance_def Let_def list_all_iff list_ex_iff not_less split: if_splits)
  have "1 \<le> sp_slot p \<and> sp_slot p \<le> 4 \<and> 1 \<le> length (sp_group p)" if p: "p \<in> set (peer_positions critiques (eligible div 2 + 1))" for p
  proof -
    obtain labels where l: "map_of (peer_votes critiques) (sp_slot p) = Some labels" "slot_winner (eligible div 2 + 1) labels = Some (sp_group p)"
      using peer_position_votes[OF p] by blast
    from l(2) have "sp_group p \<noteq> []" by (auto simp: slot_winner_def Let_def split: list.splits if_splits)
    then show ?thesis using vote_slot[OF l(1) assms(2)] by (cases "sp_group p") auto
  qed
  then show ?thesis using st peer_positions_distinct assms(3)
    by (auto simp: stance_ok_def list_all_iff PEER_PANEL_STANCE_AUTHOR_def)
qed

lemma moderator_output_ok:
  assumes "positions_checked de" and "moderator_round de rw rnd answers query prior tr = (Inr ro, tr')" and "rnd \<in> {1, 2}"
  shows "output_ok answers (round_output rnd ro)"
  using assms parsed_stance_ok
  by (auto simp: moderator_round_def output_ok_def round_output_def Let_def split: if_splits sum.splits prod.splits option.splits)

lemma round_output_ok:
  assumes "positions_checked de" and "debate_round de rw rnd answers query prior tr = (Inr ro, tr')" and "rnd \<in> {1, 2}"
  shows "output_ok answers (round_output rnd ro)"
proof -
  obtain pres tr1 where peer: "build_peer_round de rw rnd answers query prior tr = (pres, tr1)" by force
  show ?thesis
  proof (cases "\<exists>cs us k. pres = Inr (Some (cs, us, k))")
    case False
    then have "moderator_round de rw rnd answers query prior tr1 = (Inr ro, tr')"
      using assms(2) peer by (auto simp: debate_round_def split: sum.splits option.splits)
    then show ?thesis using moderator_output_ok assms(1,3) by blast
  next
    case True
    then obtain cs us k where p: "pres = Inr (Some (cs, us, k))" by blast
    then have ask: "ask_critics de rnd (debate_user_prompt de query answers prior (rw_size rw)) (eligible_critics answers) [] [] tr = (Inr (cs, us), tr1)"
        "cs \<noteq> []" "k = length (eligible_critics answers)"
      using peer by (auto simp: build_peer_round_def Let_def split: if_splits prod.splits sum.splits)
    have ok: "list_all critique_ok cs" using asked_critiques_ok[OF assms(1) ask(1)] by simp
    have sh: "length cs \<le> k" "list_all2 (critique_shown rnd) (take (length cs) (eligible_critics answers)) cs"
      using asked_critiques_shown[OF ask(1)] ask(3) by auto
    obtain stance where st: "derive_peer_stance cs rnd k = Inr stance"
      and ro: "ro = \<lparr>ro_critique = peer_digest cs,
                  ro_mode = (if list_all (\<lambda>c. sc_critique_mode c = DEBATE_MODE_LIVE) cs then DEBATE_MODE_LIVE else DEBATE_MODE_FALLBACK),
                  ro_stance = stance, ro_shape = CRITIQUE_SHAPE_PEER, ro_critiques = cs, ro_eligible = k, ro_usages = us\<rparr>"
      using assms(2) peer p by (auto simp: debate_round_def split: sum.splits)
    have "case stance of None \<Rightarrow> True | Some s \<Rightarrow> stance_ok s \<and> ps_round_number s = rnd"
      using derived_stance_ok[OF _ ok assms(3)] st by (auto split: option.split)
    moreover have "(if list_all (\<lambda>c. sc_critique_mode c = DEBATE_MODE_LIVE) cs then DEBATE_MODE_LIVE else DEBATE_MODE_FALLBACK) = DEBATE_MODE_LIVE
        \<longleftrightarrow> (\<forall>c \<in> set cs. sc_critique_mode c = DEBATE_MODE_LIVE)" by (simp add: list_all_iff)
    ultimately show ?thesis using ok sh ask(2,3) assms(3) by (cases stance) (simp_all add: ro output_ok_def round_output_def Let_def)
  qed
qed

text \<open>C17. Every output of a debate is well formed: rounds 1 and perhaps 2 in order; a stance has a bounded author, the
  round's number, and distinct slots with bounded labels. A peer round holds the critiques of the first of the eligible
  answers in slot order, each under its answer's slot and model, live with visible prose or the fixed notice with nothing
  else; it counts every eligible critic, and is live exactly when all of its critiques are. A moderator round has no critiques,
  shows visible prose when it is live, and no stance when it is not.\<close>

theorem debate_outputs_are_well_formed:
  assumes "positions_checked de" and "run_debate_rounds de account rid query answers n tr = (Inr dr, tr')"
  shows "map do_round_number (dr_debate_outputs dr) = (if dr_timed_out dr then [1] else [1, 2])
    \<and> list_all (output_ok answers) (dr_debate_outputs dr)"
proof -
  obtain rw one t1 where one: "debate_round de rw 1 answers query None tr = (Inr one, t1)"
    and two: "dr_timed_out dr \<and> dr_debate_outputs dr = [round_output 1 one] \<or> \<not> dr_timed_out dr \<and> (\<exists>two t2 t3 prior.
      debate_round de rw 2 answers query prior t2 = (Inr two, t3) \<and> dr_debate_outputs dr = [round_output 1 one, round_output 2 two])"
    using assms(2) by (auto simp: run_debate_rounds_def Let_def split: option.splits prod.splits sum.splits if_splits) blast
  have "do_round_number (round_output k ro) = k" for k ro by (simp add: round_output_def)
  then show ?thesis using two round_output_ok[OF assms(1) one] round_output_ok[OF assms(1), where rnd = 2] by auto
qed

section \<open>Replies that break the debate\<close>

lemma visible_strip: "visible s \<Longrightarrow> strip s \<noteq> []"
proof
  assume v: "visible s" and e: "strip s = []"
  obtain w where "lstrip s = strip s @ w" "\<forall>c \<in> set w. is_space c" using rstrip_split[of "lstrip s"] by (auto simp: strip_def)
  then have "\<forall>c \<in> set (lstrip s). is_space c" using e by simp
  moreover obtain u where "s = u @ lstrip s" "\<forall>c \<in> set u. is_space c" using lstrip_split by blast
  ultimately have sp: "\<forall>c \<in> set s. is_space c" by (metis Un_iff set_append)
  have "ud_isspace latin1_tables (code c)" if "is_space c" for c
    using that by (auto simp: latin1_tables_def is_space_def code_def)
  moreover have "\<not> is_space (CHR 0x1A)" "\<not> is_space (CHR 0x17)" "\<not> is_space (CHR 0x16)" by (simp_all add: is_space_def code_def)
  ultimately show False using v sp by (auto simp: visible_def is_visible_def text_points_def list_all_iff)
qed

text \<open>One reply can end the whole debate: when the moderator's live reply is text that \<^verbatim>\<open>json.loads\<close> refuses as too
  deeply nested, the exception leaves the first round and no critique, template or usage of the debate is returned.\<close>

theorem deep_reply_ends_the_debate:
  assumes "\<not> de_peer_enabled de \<or> eligible_critics answers = []" and "n \<in> {2, 3, 4}"
    and "pays de" and "de_debate_model_id de \<noteq> []" and "\<not> de_stop de tr"
    and "\<And>system user. de_call de (tr @ [STOP_CHECKED]) (de_debate_model_id de) system user = Some reply"
    and "visible (strip (lr_answer_text reply))" and "de_loads de (strip (strip (lr_answer_text reply))) = Too_deep"
  shows "fst (run_debate_rounds de account rid query answers n tr) = Inl ''RecursionError''"
proof -
  have "strip (strip (lr_answer_text reply)) \<noteq> [] \<or> strip (strip (lr_answer_text reply)) = []" by blast
  obtain sw am where words: "panel_size_word n = Some sw" "all_models_phrase n = Some am"
    using assms(2) by (auto simp: panel_size_word_def all_models_phrase_def)
  have ne: "strip (strip (lr_answer_text reply)) \<noteq> []" using visible_strip[OF assms(7)] .
  have call: "call_debate_model de (de_debate_model_id de) system user 1 None tr
      = (Some (reply\<lparr>lr_usage := map_option (\<lambda>u. u\<lparr>tu_model_id := Some (de_debate_model_id de)\<rparr>) (lr_usage reply)\<rparr>),
         tr @ [STOP_CHECKED] @ [CALLED (de_debate_model_id de) 1 None])" for system user
    using assms(3-6) by (simp add: call_debate_model_def pays_def)
  have "fst (moderator_round de rw 1 answers query prior tr) = Inl ''RecursionError''" for rw prior
    using assms(7,8) ne by (simp add: moderator_round_def call[unfolded One_nat_def] parse_moderator_output_def)
  then have "fst (debate_round de rw 1 answers query None tr) = Inl ''RecursionError''" for rw
    using assms(1) by (auto simp: debate_round_def build_peer_round_def)
  then obtain t where "debate_round de \<lparr>rw_size = sw, rw_all_models = am\<rparr> 1 answers query None tr = (Inl ''RecursionError'', t)"
    by (metis prod.collapse)
  then show ?thesis using words by (simp add: run_debate_rounds_def)
qed

section \<open>Concrete debates\<close>

text \<open>A provider that always answers the same reply, and a reader of JSON that finds every text too deep.\<close>

definition sample_debate :: debate_env where
  "sample_debate =
     \<lparr>de_live_enabled = True, de_openrouter_key = ''k'', de_debate_model_id = ''m'', de_peer_enabled = False, de_local = False,
      de_hard_timeout_ms = 180000, de_elapsed_ms = 10, de_round_ms = (\<lambda>n. 5), de_excerpt_chars = 100, de_db = ascii_db,
      de_system_prompt = (\<lambda>n. ''s''), de_loads = (\<lambda>s. Too_deep), de_position = (\<lambda>e. None),
      de_stop = (\<lambda>tr. False), de_call = (\<lambda>tr m sy u. Some \<lparr>lr_answer_text = ''x'', lr_usage = None\<rparr>)\<rparr>"

definition vote :: "nat \<Rightarrow> string \<Rightarrow> slot_critique" where
  "vote critic label =
     \<lparr>sc_critic_slot_number = critic, sc_critic_model_id = ''m'', sc_critique_text = ''t'', sc_focus_areas = FOCUS_AREAS,
      sc_critique_mode = DEBATE_MODE_LIVE,
      sc_stance = Some \<lparr>ps_author_model_id = ''m'', ps_round_number = 1, ps_positions = [\<lparr>sp_slot = 1, sp_group = label\<rparr>]\<rparr>,
      sc_self_assessment = None, sc_position_rationale = [], sc_cited_sources = [], sc_revised_answer = []\<rparr>"

lemma vote_stance [simp]: "live_stances (vote k l # cs) =
    \<lparr>ps_author_model_id = ''m'', ps_round_number = 1, ps_positions = [\<lparr>sp_slot = 1, sp_group = l\<rparr>]\<rparr> # live_stances cs"
  "live_stances [] = []"
  by (simp_all add: live_stances_def vote_def)

lemma votes_agree:
  "derive_peer_stance [vote 1 ''x'', vote 2 ''x'', vote 3 ''y''] 1 3
     = Inr (Some \<lparr>ps_author_model_id = PEER_PANEL_STANCE_AUTHOR, ps_round_number = 1, ps_positions = [\<lparr>sp_slot = 1, sp_group = ''x''\<rparr>]\<rparr>)"
  "derive_peer_stance [vote 1 ''x'', vote 2 ''x''] 1 3
     = Inr (Some \<lparr>ps_author_model_id = PEER_PANEL_STANCE_AUTHOR, ps_round_number = 1, ps_positions = [\<lparr>sp_slot = 1, sp_group = ''x''\<rparr>]\<rparr>)"
  by (simp_all add: derive_peer_stance_def peer_positions_def peer_votes_def slot_winner_def Let_def)

lemma peer_stance_is_strict_majority_witness:
  "3 < 2 * votes_for [vote 1 ''x'', vote 2 ''x'', vote 3 ''y''] 1 ''x''"
  using peer_stance_is_strict_majority[OF _ _ votes_agree(1), of 1 "''x''"] by (simp add: one_vote_each_def)

lemma cancel_never_adds_agreement_witness:
  "\<exists>st'. Inr (Some st') = derive_peer_stance ([vote 1 ''x'', vote 2 ''x''] @ [vote 3 ''y'']) 1 3
    \<and> {\<lparr>sp_slot = 1, sp_group = ''x''\<rparr>} \<subseteq> set (ps_positions st')"
  using cancel_never_adds_agreement[of "[vote 1 ''x'', vote 2 ''x'']" "[vote 3 ''y'']" 3 1, OF _ _ votes_agree(2)] votes_agree(1)
  by (simp add: one_vote_each_def)

lemma debate_pays_within_bounds_witness:
  "calls_made (snd (run_debate_rounds sample_debate 1 2 ''q'' [] 2 [])) \<le> 2"
  using debate_pays_within_bounds[of sample_debate 1 2 "''q''" "[]" 2, OF prod.collapse[symmetric]]
  by (simp add: pays_def sample_debate_def eligible_critics_def)

definition plain_debate :: debate_env where
  "plain_debate = sample_debate\<lparr>de_live_enabled := False\<rparr>"

lemma plain_debate_result: "\<exists>dr tr. run_debate_rounds plain_debate 1 2 ''q'' [] 2 [] = (Inr dr, tr) \<and> \<not> dr_timed_out dr"
proof -
  have "call_debate_model plain_debate m s u r k t = (None, t)" for m s u r k t
    by (simp add: call_debate_model_def plain_debate_def sample_debate_def)
  moreover have "\<not> visible []" by (simp add: visible_def is_visible_def text_points_def)
  moreover have "\<not> should_skip_round_two plain_debate ''q''" "\<not> de_peer_enabled plain_debate"
    by (simp_all add: should_skip_round_two_def plain_debate_def sample_debate_def)
  ultimately show ?thesis
    by (simp add: run_debate_rounds_def panel_size_word_def all_models_phrase_def debate_round_def build_peer_round_def
        moderator_round_def Let_def)
qed

lemma debate_outputs_are_well_formed_witness:
  "\<exists>dr. fst (run_debate_rounds plain_debate 1 2 ''q'' [] 2 []) = Inr dr \<and> map do_round_number (dr_debate_outputs dr) = [1, 2]"
proof -
  obtain dr tr where r: "run_debate_rounds plain_debate 1 2 ''q'' [] 2 [] = (Inr dr, tr)" "\<not> dr_timed_out dr"
    using plain_debate_result by blast
  have "positions_checked plain_debate" by (simp add: positions_checked_def plain_debate_def sample_debate_def)
  from debate_outputs_are_well_formed[OF this r(1)] show ?thesis using r by simp
qed

lemma deep_reply_ends_the_debate_witness:
  "fst (run_debate_rounds sample_debate 1 2 ''q'' [] 2 []) = Inl ''RecursionError''"
proof (rule deep_reply_ends_the_debate[where reply = "\<lparr>lr_answer_text = ''x'', lr_usage = None\<rparr>"])
  show "visible (strip (lr_answer_text \<lparr>lr_answer_text = ''x'', lr_usage = None\<rparr>))"
    by (simp add: strip_def lstrip_def rstrip_def visible_def is_visible_def text_points_def latin1_tables_def
      is_invisible_char_def INVISIBLE_CATEGORIES_def INVISIBLE_OUTLIERS_def is_variation_selector_def
      VARIATION_SELECTOR_RANGES_def is_noncharacter_def char_eval)
qed (simp_all add: sample_debate_def pays_def)

end
