(* ===== verification/Edge.thy ===== *)
theory Edge
  imports Py_Strings
begin

text \<open>
  The edge of the application: the request body limit with its replay (\<^verbatim>\<open>request_limits.py\<close>), the refusal of
  another site's requests (\<^verbatim>\<open>fetch_site.py\<close>) and the request id (\<^verbatim>\<open>request_id.py\<close>). What the
  server hands to the application is a stream of messages, a function of the position; reading a body may wait for
  ever, so the loops that read one are partial functions and \<open>None\<close> is a read that never ends. Bytes are strings.
\<close>

section \<open>The body limit\<close>

type_synonym bytes = string

datatype asgi_message =
    HttpRequest (am_body: "bytes option") (am_more: "bool option")
  | OtherMessage string                         \<comment> \<open>\<^verbatim>\<open>http.disconnect\<close> and the like\<close>

type_synonym receive = "nat \<Rightarrow> asgi_message"

definition MAX_REQUEST_BODY_BYTES :: nat where "MAX_REQUEST_BODY_BYTES = 1048576"

definition LIMIT_DIGITS :: nat where "LIMIT_DIGITS = length (nat_str MAX_REQUEST_BODY_BYTES)"

definition chunk :: "asgi_message \<Rightarrow> bytes" where "chunk m = (case am_body m of None \<Rightarrow> [] | Some b \<Rightarrow> b)"

definition goes_on :: "asgi_message \<Rightarrow> bool" where "goes_on m = (am_more m = Some True)"

text \<open>\<^verbatim>\<open>int(...)\<close> of ASCII digits.\<close>

definition digits_value :: "string \<Rightarrow> nat" where
  "digits_value s = foldl (\<lambda>n c. 10 * n + (code c - 48)) 0 s"

definition is_digits :: "string \<Rightarrow> bool" where "is_digits s = (s \<noteq> [] \<and> list_all is_digit s)"

definition declared_too_large :: "string \<times> bytes \<Rightarrow> bool" where
  "declared_too_large h =
     (case h of (name, v) \<Rightarrow>
       if ascii_lower name \<noteq> ''content-length'' \<or> \<not> is_digits v then False
       else let digits = dropWhile (\<lambda>c. c = CHR ''0'') v
            in length digits > LIMIT_DIGITS \<or> digits_value digits > MAX_REQUEST_BODY_BYTES)"

definition declares_too_large :: "(string \<times> bytes) list \<Rightarrow> bool" where
  "declares_too_large headers = list_ex declared_too_large headers"

text \<open>What the middleware does with a request: 413, or the application with the stream it will read. The replayed
  messages come first, then whatever the server still sends.\<close>

datatype body_verdict = TooLarge | Forward "asgi_message list" nat

partial_function (option) buffer_body :: "receive \<Rightarrow> nat \<Rightarrow> bytes \<Rightarrow> body_verdict option" where
  "buffer_body recv n buf =
     (case recv n of
        OtherMessage t \<Rightarrow>
          Some (Forward ((if buf \<noteq> [] then [HttpRequest (Some buf) (Some True)] else []) @ [OtherMessage t]) (n + 1))
      | HttpRequest b goes \<Rightarrow>
          (let buf = buf @ (case b of None \<Rightarrow> [] | Some x \<Rightarrow> x) in
           if length buf > MAX_REQUEST_BODY_BYTES then Some TooLarge
           else if goes \<noteq> Some True then Some (Forward [HttpRequest (Some buf) (Some False)] (n + 1))
           else buffer_body recv (n + 1) buf))"

definition replay :: "asgi_message list \<Rightarrow> receive \<Rightarrow> nat \<Rightarrow> receive" where
  "replay pending recv n i = (if i < length pending then pending ! i else recv (n + (i - length pending)))"

datatype edge_outcome = Refused413 | Handed receive

definition body_limit :: "string \<Rightarrow> (string \<times> bytes) list \<Rightarrow> receive \<Rightarrow> edge_outcome option" where
  "body_limit scope_type headers recv =
     (if scope_type \<noteq> ''http'' then Some (Handed recv)
      else if declares_too_large headers then Some Refused413
      else (case buffer_body recv 0 [] of
          None \<Rightarrow> None
        | Some TooLarge \<Rightarrow> Some Refused413
        | Some (Forward pending n) \<Rightarrow> Some (Handed (replay pending recv n))))"

text \<open>\<open>refuse_unknown_fields\<close>: a JSON object with a key the model does not have is one error.\<close>

definition UNKNOWN_FIELD_MESSAGE :: string where
  "UNKNOWN_FIELD_MESSAGE = ''The request holds a field this endpoint does not accept.''"

definition refuse_unknown_fields :: "string list \<Rightarrow> (string, 'v) dict \<Rightarrow> string + (string, 'v) dict" where
  "refuse_unknown_fields fields data =
     (if list_ex (\<lambda>(k, v). k \<notin> set fields) data then Inl UNKNOWN_FIELD_MESSAGE else Inr data)"

section \<open>Another site's requests\<close>

text \<open>\<^verbatim>\<open>s.split(sep)\<close> for one character.\<close>

fun split_at :: "char \<Rightarrow> string \<Rightarrow> string list" where
  "split_at sep [] = [[]]"
| "split_at sep (c # s) = (if c = sep then [] # split_at sep s else (c # hd (split_at sep s)) # tl (split_at sep s))"

type_synonym headers = "(string \<times> string) list"

definition getlist :: "string \<Rightarrow> headers \<Rightarrow> string list" where
  "getlist name hs = map snd (filter (\<lambda>(k, v). ascii_lower k = name) hs)"

definition header_set :: "headers \<Rightarrow> string \<Rightarrow> string list" where
  "header_set hs name =
     filter (\<lambda>v. v \<noteq> []) (map (\<lambda>part. lower (strip part)) (concat (map (split_at CHR '','') (getlist name hs))))"

definition OURS :: "string list" where "OURS = [''same-origin'', ''none'']"
definition ANOTHER_SITE :: "string list" where "ANOTHER_SITE = [''cross-site'', ''same-site'']"
definition FRAME_DESTS :: "string list" where "FRAME_DESTS = [''iframe'', ''frame'', ''object'', ''embed'', ''fencedframe'']"
definition PURPOSE_HEADERS :: "string list" where "PURPOSE_HEADERS = [''sec-purpose'', ''purpose'']"

datatype refusal_class = SUBRESOURCE | FRAME | NAVIGATION | UNKNOWN | ORIGIN_FALLBACK | PREFETCH

definition CLASSES :: "refusal_class list" where
  "CLASSES = [SUBRESOURCE, FRAME, NAVIGATION, UNKNOWN, ORIGIN_FALLBACK, PREFETCH]"

text \<open>What \<^verbatim>\<open>urlsplit\<close> makes of an origin; \<open>None\<close> when it, or reading the port, raises.\<close>

record url_parts =
  up_scheme :: string
  up_hostname :: "string option"
  up_port :: "nat option"
  up_username :: "string option"
  up_path :: string
  up_query :: string

definition default_port :: "string \<Rightarrow> nat option" where
  "default_port scheme = (if scheme = ''http'' then Some 80 else if scheme = ''https'' then Some 443 else None)"

definition origin_of :: "string \<Rightarrow> string option \<Rightarrow> nat option \<Rightarrow> string \<times> nat option" where
  "origin_of scheme host port =
     (lower (case host of None \<Rightarrow> [] | Some h \<Rightarrow> h), if port = default_port (lower scheme) then None else port)"

definition normalised :: "(string \<Rightarrow> url_parts option) \<Rightarrow> string \<Rightarrow> (string \<times> string \<times> nat option) option" where
  "normalised urlsplit origin =
     (case urlsplit origin of
        None \<Rightarrow> None
      | Some u \<Rightarrow>
          let scheme = lower (up_scheme u) in
          if scheme \<noteq> ''http'' \<and> scheme \<noteq> ''https'' \<or> up_hostname u = None \<or> up_hostname u = Some [] then None
          else if up_username u \<noteq> None \<or> (up_path u \<noteq> [] \<and> up_path u \<noteq> ''/'') \<or> up_query u \<noteq> [] then None
          else (case origin_of scheme (up_hostname u) (up_port u) of (host, port) \<Rightarrow> Some (scheme, host, port)))"

definition is_prefetch :: "headers \<Rightarrow> bool" where
  "is_prefetch hs =
     list_ex (\<lambda>name. list_ex (\<lambda>v. list_ex (\<lambda>token. strip token = ''prefetch'') (split_at CHR '';'' v)) (header_set hs name))
       PURPOSE_HEADERS"

definition all_ours :: "(string \<Rightarrow> url_parts option) \<Rightarrow> string list \<Rightarrow> string \<Rightarrow> bool" where
  "all_ours urlsplit origins own =
     (normalised urlsplit own \<noteq> None \<and> list_all (\<lambda>x. normalised urlsplit x = normalised urlsplit own) origins)"

definition classify :: "(string \<Rightarrow> url_parts option) \<Rightarrow> headers \<Rightarrow> string \<Rightarrow> bool \<Rightarrow> refusal_class option" where
  "classify urlsplit hs own page =
     (if is_prefetch hs then Some PREFETCH
      else
        let sites = set (header_set hs ''sec-fetch-site'') in
        if sites = {} then
          let origins = header_set hs ''origin'' in
          if origins = [] \<or> all_ours urlsplit origins own then None else Some ORIGIN_FALLBACK
        else if \<not> sites \<subseteq> set (OURS @ ANOTHER_SITE) then Some UNKNOWN
        else if sites \<subseteq> set OURS then None
        else
          let modes = set (header_set hs ''sec-fetch-mode''); dests = set (header_set hs ''sec-fetch-dest'') in
          if dests \<inter> set FRAME_DESTS \<noteq> {} then Some FRAME
          else if page \<and> modes = {''navigate''} \<and> dests = {''document''} then None
          else if ''navigate'' \<in> modes then Some NAVIGATION
          else Some SUBRESOURCE)"

type_synonym refusal_counts = "(bool \<times> refusal_class, nat) dict"   \<comment> \<open>by route (\<open>True\<close> is the page) and class\<close>

definition count_refusal :: "bool \<Rightarrow> refusal_class \<Rightarrow> refusal_counts \<Rightarrow> refusal_counts" where
  "count_refusal page kind counts =
     AList.update (page, kind) ((case map_of counts (page, kind) of None \<Rightarrow> 0 | Some n \<Rightarrow> n) + 1) counts"

definition status_snapshot :: "refusal_counts \<Rightarrow> (bool \<times> refusal_class \<times> nat) list" where
  "status_snapshot counts = concat (map (\<lambda>page. map (\<lambda>kind.
     (page, kind, case map_of counts (page, kind) of None \<Rightarrow> 0 | Some n \<Rightarrow> n)) CLASSES) [True, False])"

datatype site_response = PageRefusal | SessionRefusal     \<comment> \<open>both 403, \<open>no-store\<close>\<close>

definition cross_site_refusal ::
  "(string \<Rightarrow> url_parts option) \<Rightarrow> headers \<Rightarrow> string \<Rightarrow> bool \<Rightarrow> refusal_counts \<Rightarrow> site_response option \<times> refusal_counts" where
  "cross_site_refusal urlsplit hs own page counts =
     (case classify urlsplit hs own page of
        None \<Rightarrow> (None, counts)
      | Some kind \<Rightarrow> (Some (if page then PageRefusal else SessionRefusal), count_refusal page kind counts))"

section \<open>The request id\<close>

definition safe_id_char :: "char \<Rightarrow> bool" where
  "safe_id_char c = (is_ascii_letter c \<or> is_digit c \<or> c = CHR ''.'' \<or> c = CHR ''_'' \<or> c = CHR ''-'')"

definition safe_request_id :: "string \<Rightarrow> bool" where
  "safe_request_id s = (1 \<le> length s \<and> length s \<le> 128 \<and> list_all safe_id_char s)"

text \<open>The first \<^verbatim>\<open>X-Request-ID\<close> if it is safe to echo, else \<open>fresh\<close>, a new UUID.\<close>

definition request_id_of :: "string \<Rightarrow> headers \<Rightarrow> string" where
  "request_id_of fresh hs =
     (let inbound = (case find (\<lambda>(k, v). ascii_lower k = ''x-request-id'') hs of None \<Rightarrow> [] | Some (k, v) \<Rightarrow> v)
      in if safe_request_id inbound then inbound else fresh)"

definition response_headers :: "string \<Rightarrow> headers \<Rightarrow> headers" where
  "response_headers rid hs = filter (\<lambda>(k, v). ascii_lower k \<noteq> ''x-request-id'') hs @ [(''x-request-id'', rid)]"

text \<open>A log record gets the id of the request it was written in, unless it already has one.\<close>

definition stamp_record :: "string option \<Rightarrow> (string, string) dict \<Rightarrow> (string, string) dict" where
  "stamp_record rid attrs =
     (case rid of None \<Rightarrow> attrs
      | Some r \<Rightarrow> if map_of attrs ''request_id'' \<noteq> None then attrs else AList.update ''request_id'' r attrs)"

section \<open>Reading a body, as a specification\<close>

text \<open>What a reader makes of a stream: the bytes up to the end, and whether the body was complete.\<close>

partial_function (option) read_body :: "receive \<Rightarrow> nat \<Rightarrow> bytes \<Rightarrow> (bytes \<times> bool) option" where
  "read_body recv n buf =
     (case recv n of
        OtherMessage t \<Rightarrow> Some (buf, False)
      | HttpRequest b goes \<Rightarrow>
          (let buf = buf @ (case b of None \<Rightarrow> [] | Some x \<Rightarrow> x) in
           if goes \<noteq> Some True then Some (buf, True) else read_body recv (n + 1) buf))"

lemma read_step:
  "recv n = OtherMessage t \<Longrightarrow> read_body recv n buf = Some (buf, False)"
  "recv n = HttpRequest b goes \<Longrightarrow> \<not> goes_on (recv n) \<Longrightarrow> read_body recv n buf = Some (buf @ chunk (recv n), True)"
  "recv n = HttpRequest b goes \<Longrightarrow> goes_on (recv n) \<Longrightarrow> read_body recv n buf = read_body recv (n + 1) (buf @ chunk (recv n))"
  by (subst read_body.simps; simp add: goes_on_def chunk_def Let_def)+

lemma buffer_step:
  "recv n = OtherMessage t \<Longrightarrow> buffer_body recv n buf =
     Some (Forward ((if buf \<noteq> [] then [HttpRequest (Some buf) (Some True)] else []) @ [OtherMessage t]) (n + 1))"
  "recv n = HttpRequest b goes \<Longrightarrow> length (buf @ chunk (recv n)) > MAX_REQUEST_BODY_BYTES \<Longrightarrow> buffer_body recv n buf = Some TooLarge"
  "recv n = HttpRequest b goes \<Longrightarrow> \<not> length (buf @ chunk (recv n)) > MAX_REQUEST_BODY_BYTES \<Longrightarrow> \<not> goes_on (recv n) \<Longrightarrow>
     buffer_body recv n buf = Some (Forward [HttpRequest (Some (buf @ chunk (recv n))) (Some False)] (n + 1))"
  "recv n = HttpRequest b goes \<Longrightarrow> \<not> length (buf @ chunk (recv n)) > MAX_REQUEST_BODY_BYTES \<Longrightarrow> goes_on (recv n) \<Longrightarrow>
     buffer_body recv n buf = buffer_body recv (n + 1) (buf @ chunk (recv n))"
  by (subst buffer_body.simps; simp add: goes_on_def chunk_def Let_def)+

lemma read_body_cases:
  assumes "read_body recv n buf = Some r"
    and "\<And>n buf t. recv n = OtherMessage t \<Longrightarrow> P n buf (buf, False)"
    and "\<And>n buf b goes. recv n = HttpRequest b goes \<Longrightarrow> \<not> goes_on (recv n) \<Longrightarrow> P n buf (buf @ chunk (recv n), True)"
    and "\<And>n buf b goes r. recv n = HttpRequest b goes \<Longrightarrow> goes_on (recv n) \<Longrightarrow>
      P (n + 1) (buf @ chunk (recv n)) r \<Longrightarrow> P n buf r"
  shows "P n buf r"
proof -
  have "recv' = recv \<longrightarrow> P n buf r" if "read_body recv' n buf = Some r" for recv' n buf r
  proof (rule read_body.raw_induct[OF _ that])
    fix f :: "receive \<Rightarrow> nat \<Rightarrow> bytes \<Rightarrow> (bytes \<times> bool) option" and recv' n buf r
    assume IH: "\<And>recv' n buf r. f recv' n buf = Some r \<Longrightarrow> recv' = recv \<longrightarrow> P n buf r"
      and now: "(case recv' n of OtherMessage t \<Rightarrow> Some (buf, False)
        | HttpRequest b goes \<Rightarrow> (let buf = buf @ (case b of None \<Rightarrow> [] | Some x \<Rightarrow> x) in
             if goes \<noteq> Some True then Some (buf, True) else f recv' (n + 1) buf)) = Some r"
    show "recv' = recv \<longrightarrow> P n buf r"
    proof
      assume eq: "recv' = recv"
      show "P n buf r"
      proof (cases "recv n")
        case (OtherMessage t)
        then have "r = (buf, False)" using now eq by simp
        then show ?thesis using assms(2)[OF OtherMessage] by simp
      next
        case (HttpRequest b goes)
        show ?thesis
        proof (cases "goes = Some True")
          case True
          then have g: "goes_on (recv n)" using HttpRequest by (simp add: goes_on_def)
          have "f recv (n + 1) (buf @ chunk (recv n)) = Some r" using now eq HttpRequest True by (simp add: chunk_def Let_def)
          then have "P (n + 1) (buf @ chunk (recv n)) r" using IH by blast
          then show ?thesis by (rule assms(4)[OF HttpRequest g])
        next
          case False
          then have g: "\<not> goes_on (recv n)" using HttpRequest by (simp add: goes_on_def)
          have "r = (buf @ chunk (recv n), True)" using now eq HttpRequest False by (simp add: chunk_def Let_def)
          then show ?thesis using assms(3)[OF HttpRequest g] by simp
        qed
      qed
    qed
  qed
  with assms(1) show ?thesis by blast
qed

lemma read_body_grows: "read_body recv n buf = Some r \<Longrightarrow> length buf \<le> length (fst r)"
  by (erule read_body_cases[where P = "\<lambda>n buf r. length buf \<le> length (fst r)"]) simp_all

lemma replayed_whole: "read_body (replay [HttpRequest (Some b) (Some False)] recv m) 0 [] = Some (b, True)"
  using read_step(2)[of "replay [HttpRequest (Some b) (Some False)] recv m" 0 "Some b" "Some False" "[]"]
  by (simp add: replay_def goes_on_def chunk_def)

lemma replayed_cut:
  "read_body (replay ((if b \<noteq> [] then [HttpRequest (Some b) (Some True)] else []) @ [OtherMessage t]) recv m) 0 [] = Some (b, False)"
proof (cases "b = []")
  case True
  then show ?thesis by (simp add: read_step(1)[of _ 0 t] replay_def)
next
  case False
  define r where "r = replay [HttpRequest (Some b) (Some True), OtherMessage t] recv m"
  have r: "r 0 = HttpRequest (Some b) (Some True)" "r 1 = OtherMessage t" by (simp_all add: r_def replay_def)
  have "read_body r 0 [] = read_body r 1 b" using read_step(3)[of r 0 "Some b" "Some True" "[]"] r(1) by (simp add: goes_on_def chunk_def)
  also have "\<dots> = Some (b, False)" using read_step(1)[of r 1 t b] r(2) by simp
  finally show ?thesis using False by (simp add: r_def)
qed

text \<open>The two loops in step: what the middleware decides about a body that ends.\<close>

definition decides :: "receive \<Rightarrow> nat \<Rightarrow> bytes \<Rightarrow> bytes \<times> bool \<Rightarrow> bool" where
  "decides recv n buf r =
     (if length (fst r) > MAX_REQUEST_BODY_BYTES then buffer_body recv n buf = Some TooLarge
      else \<exists>pending m. buffer_body recv n buf = Some (Forward pending m) \<and> read_body (replay pending recv m) 0 [] = Some r)"

lemma buffered:
  assumes "read_body recv n buf = Some r"
  shows "length buf \<le> length (fst r) \<and> (length buf \<le> MAX_REQUEST_BODY_BYTES \<longrightarrow> decides recv n buf r)"
  using assms
proof (rule read_body_cases)
  fix n buf t
  assume n: "recv n = OtherMessage t"
  show "length buf \<le> length (fst (buf, False)) \<and> (length buf \<le> MAX_REQUEST_BODY_BYTES \<longrightarrow> decides recv n buf (buf, False))"
    using replayed_cut[of buf t recv "n + 1"] by (simp add: decides_def buffer_step(1)[of recv n t, OF n])
next
  fix n buf b goes
  assume n: "recv n = HttpRequest b goes" "\<not> goes_on (recv n)"
  show "length buf \<le> length (fst (buf @ chunk (recv n), True))
    \<and> (length buf \<le> MAX_REQUEST_BODY_BYTES \<longrightarrow> decides recv n buf (buf @ chunk (recv n), True))"
  proof (cases "length (buf @ chunk (recv n)) > MAX_REQUEST_BODY_BYTES")
    case True
    then show ?thesis using buffer_step(2)[of recv n b goes buf, OF n(1) True] by (simp add: decides_def)
  next
    case False
    then show ?thesis using buffer_step(3)[of recv n b goes buf, OF n(1) False n(2)] replayed_whole by (simp add: decides_def)
  qed
next
  fix n buf b goes r
  assume n: "recv n = HttpRequest b goes" "goes_on (recv n)"
    and IH: "length (buf @ chunk (recv n)) \<le> length (fst r)
      \<and> (length (buf @ chunk (recv n)) \<le> MAX_REQUEST_BODY_BYTES \<longrightarrow> decides recv (n + 1) (buf @ chunk (recv n)) r)"
  show "length buf \<le> length (fst r) \<and> (length buf \<le> MAX_REQUEST_BODY_BYTES \<longrightarrow> decides recv n buf r)"
  proof (cases "length (buf @ chunk (recv n)) > MAX_REQUEST_BODY_BYTES")
    case True
    then have "length (fst r) > MAX_REQUEST_BODY_BYTES" using IH by linarith
    then show ?thesis using IH buffer_step(2)[of recv n b goes buf, OF n(1) True] by (simp add: decides_def)
  next
    case False
    then show ?thesis using IH buffer_step(4)[of recv n b goes buf, OF n(1) False n(2)] by (simp add: decides_def)
  qed
qed

text \<open>A declared length is read exactly, without ever converting a long one.\<close>

lemma digits_value_bounds:
  assumes "list_all is_digit s"
  shows "foldl (\<lambda>n c. 10 * n + (code c - 48)) a s \<ge> a * 10 ^ length s"
    and "foldl (\<lambda>n c. 10 * n + (code c - 48)) a s < (a + 1) * 10 ^ length s"
proof -
  show "foldl (\<lambda>n c. 10 * n + (code c - 48)) a s \<ge> a * 10 ^ length s"
  proof (induction s arbitrary: a)
    case (Cons c s)
    have "a * 10 ^ length (c # s) \<le> (10 * a + (code c - 48)) * 10 ^ length s" by (simp add: algebra_simps)
    also have "\<dots> \<le> foldl (\<lambda>n c. 10 * n + (code c - 48)) (10 * a + (code c - 48)) s" by (rule Cons.IH)
    finally show ?case by simp
  qed simp
  show "foldl (\<lambda>n c. 10 * n + (code c - 48)) a s < (a + 1) * 10 ^ length s"
    using assms
  proof (induction s arbitrary: a)
    case (Cons c s)
    have "foldl (\<lambda>n c. 10 * n + (code c - 48)) (10 * a + (code c - 48)) s < (10 * a + (code c - 48) + 1) * 10 ^ length s"
      using Cons by simp
    also have "\<dots> \<le> ((a + 1) * 10) * 10 ^ length s" using Cons.prems by (intro mult_right_mono) (auto simp: is_digit_def)
    finally show ?case by (simp add: algebra_simps)
  qed simp
qed

lemma LIMIT_DIGITS_value: "LIMIT_DIGITS = 7"
  by (simp add: LIMIT_DIGITS_def MAX_REQUEST_BODY_BYTES_def nat_str.simps)

lemma declared_length_exact:
  "declared_too_large (name, v) \<longleftrightarrow>
     ascii_lower name = ''content-length'' \<and> is_digits v \<and> digits_value v > MAX_REQUEST_BODY_BYTES"
proof (cases "is_digits v")
  case True
  let ?d = "dropWhile (\<lambda>c. c = CHR ''0'') v"
  have lead: "digits_value v = digits_value ?d"
    unfolding digits_value_def by (induction v) (auto simp: code_def)
  have digits: "list_all is_digit ?d" using True by (auto simp: is_digits_def list_all_iff dest: set_dropWhileD)
  have "digits_value ?d > MAX_REQUEST_BODY_BYTES" if long: "length ?d > LIMIT_DIGITS"
  proof -
    obtain c s where d: "?d = c # s" using long by (cases ?d) auto
    then have "c \<noteq> CHR ''0''" using hd_dropWhile[of "\<lambda>c. c = CHR ''0''" v] by auto
    moreover have "c = CHR ''0''" if "code c = 48"
    proof -
      have "(of_char c :: nat) = of_char (CHR ''0'')" using that by (simp add: code_def)
      then show ?thesis by (simp only: of_char_eq_iff)
    qed
    ultimately have "code c \<noteq> 48" by blast
    then have "1 \<le> code c - 48" using digits d by (auto simp: is_digit_def)
    then have "1 * 10 ^ length s \<le> (code c - 48) * 10 ^ length s" by (rule mult_le_mono1)
    also have "\<dots> \<le> foldl (\<lambda>n c. 10 * n + (code c - 48)) (code c - 48) s"
      using digits d by (intro digits_value_bounds(1)) simp
    also have "\<dots> = digits_value ?d" by (simp add: digits_value_def d)
    finally have "10 ^ length s \<le> digits_value ?d" by simp
    moreover have "7 \<le> length s" using long d by (simp add: LIMIT_DIGITS_value)
    then have "(10::nat) ^ 7 \<le> 10 ^ length s" by (rule power_increasing) simp
    ultimately have "(10::nat) ^ 7 \<le> digits_value ?d" by (rule order_trans[rotated])
    then show ?thesis by (simp add: MAX_REQUEST_BODY_BYTES_def)
  qed
  then show ?thesis using True lead by (auto simp: declared_too_large_def Let_def)
qed (simp add: declared_too_large_def)

text \<open>C21. The body limit is invisible to a request within it: whatever way the server cuts a body that ends (complete or
  by a disconnect), a reader of the stream the application is handed reads exactly what it would have read from the
  server. It is refused 413 exactly when it holds more than 1,048,576 bytes or a \<^verbatim>\<open>Content-Length\<close> of digits says so.\<close>

theorem body_limit_is_transparent:
  assumes "read_body recv 0 [] = Some (body, whole)"
  shows "if length body > MAX_REQUEST_BODY_BYTES
       \<or> list_ex (\<lambda>(name, v). ascii_lower name = ''content-length'' \<and> is_digits v \<and> digits_value v > MAX_REQUEST_BODY_BYTES) headers
     then body_limit ''http'' headers recv = Some Refused413
     else \<exists>r. body_limit ''http'' headers recv = Some (Handed r) \<and> read_body r 0 [] = Some (body, whole)"
proof -
  have "declares_too_large headers =
      list_ex (\<lambda>(name, v). ascii_lower name = ''content-length'' \<and> is_digits v \<and> digits_value v > MAX_REQUEST_BODY_BYTES) headers"
    unfolding declares_too_large_def by (rule list_ex_cong[OF refl]) (auto simp: declared_length_exact)
  moreover have "decides recv 0 [] (body, whole)" using buffered[OF assms] by simp
  ultimately show ?thesis by (auto simp: body_limit_def decides_def)
qed

definition two_chunks :: receive where
  "two_chunks n = (if n = 0 then HttpRequest (Some ''ab'') (Some True) else if n = 1 then HttpRequest (Some ''c'') None
     else OtherMessage ''http.disconnect'')"

lemma body_limit_is_transparent_witness:
  "\<exists>r. body_limit ''http'' [(''Content-Length'', ''3'')] two_chunks = Some (Handed r) \<and> read_body r 0 [] = Some (''abc'', True)"
proof -
  have "read_body two_chunks 0 [] = read_body two_chunks 1 ''ab''"
    using read_step(3)[of two_chunks 0 "Some ''ab''" "Some True" "[]"] by (simp add: two_chunks_def goes_on_def chunk_def)
  also have "\<dots> = Some (''abc'', True)"
    using read_step(2)[of two_chunks 1 "Some ''c''" None "''ab''"] by (simp add: two_chunks_def goes_on_def chunk_def)
  finally show ?thesis using body_limit_is_transparent[of two_chunks "''abc''" True "[(''Content-Length'', ''3'')]"]
    by (simp add: MAX_REQUEST_BODY_BYTES_def digits_value_def code_def)
qed

section \<open>What the site check lets through\<close>

text \<open>Another site cannot open or renew a session here: with a \<^verbatim>\<open>Sec-Fetch-Site\<close> header, the session route
  answers exactly the requests whose every value is this site's own, and the page only those or a navigation that
  loads a document; no further header lets a request in, and a prefetch is let in by neither. Without one the
  \<^verbatim>\<open>Origin\<close> values decide, all of which must be this site's own.\<close>

theorem other_sites_only_navigate:
  "classify urlsplit hs own page = None \<longleftrightarrow>
     \<not> is_prefetch hs \<and>
     (if header_set hs ''sec-fetch-site'' = [] then
        list_all (\<lambda>x. normalised urlsplit own \<noteq> None \<and> normalised urlsplit x = normalised urlsplit own) (header_set hs ''origin'')
      else set (header_set hs ''sec-fetch-site'') \<subseteq> set OURS \<or>
        (page \<and> set (header_set hs ''sec-fetch-site'') \<subseteq> set (OURS @ ANOTHER_SITE)
         \<and> set (header_set hs ''sec-fetch-mode'') = {''navigate''} \<and> set (header_set hs ''sec-fetch-dest'') = {''document''}))"
proof -
  have fallback: "(header_set hs ''origin'' = [] \<or> all_ours urlsplit (header_set hs ''origin'') own) \<longleftrightarrow>
      list_all (\<lambda>x. normalised urlsplit own \<noteq> None \<and> normalised urlsplit x = normalised urlsplit own) (header_set hs ''origin'')"
    by (cases "header_set hs ''origin''") (auto simp: all_ours_def list_all_iff)
  let ?S = "set (header_set hs ''sec-fetch-site'')" and ?D = "set (header_set hs ''sec-fetch-dest'')"
  have frames: "\<not> ?D \<inter> set FRAME_DESTS \<noteq> {}" if "?D = {''document''}" using that by (simp add: FRAME_DESTS_def)
  show ?thesis
  proof (cases "is_prefetch hs \<or> ?S = {}")
    case True
    then show ?thesis using fallback by (auto simp: classify_def Let_def)
  next
    case False
    then have site: "classify urlsplit hs own page = None \<longleftrightarrow> ?S \<subseteq> set (OURS @ ANOTHER_SITE) \<and>
        (?S \<subseteq> set OURS \<or> \<not> ?D \<inter> set FRAME_DESTS \<noteq> {} \<and> page \<and> set (header_set hs ''sec-fetch-mode'') = {''navigate''} \<and> ?D = {''document''})"
      by (simp add: classify_def Let_def)
    have wider: "?S \<subseteq> set OURS \<Longrightarrow> ?S \<subseteq> set (OURS @ ANOTHER_SITE)" by auto
    have "header_set hs ''sec-fetch-site'' \<noteq> []" "\<not> is_prefetch hs" using False by auto
    then show ?thesis unfolding site using frames wider by metis
  qed
qed

fun site_run :: "(string \<Rightarrow> url_parts option) \<Rightarrow> string \<Rightarrow> refusal_counts \<Rightarrow> (headers \<times> bool) list \<Rightarrow> site_response option list \<times> refusal_counts" where
  "site_run urlsplit own counts [] = ([], counts)"
| "site_run urlsplit own counts ((hs, page) # xs) =
     (let (r, counts) = cross_site_refusal urlsplit hs own page counts; (rs, counts) = site_run urlsplit own counts xs in (r # rs, counts))"

definition snapshot_total :: "refusal_counts \<Rightarrow> nat" where
  "snapshot_total counts = sum_list (map (snd \<circ> snd) (status_snapshot counts))"

lemma snapshot_total_count: "snapshot_total (count_refusal page kind counts) = Suc (snapshot_total counts)"
  by (cases page; cases kind) (simp_all add: snapshot_total_def status_snapshot_def CLASSES_def count_refusal_def)

text \<open>The status page counts every refusal and nothing else: after any requests to both routes, the counters it
  lists add up to the refusals answered.\<close>

theorem every_refusal_is_counted:
  "snapshot_total (snd (site_run urlsplit own [] xs)) = length (filter (\<lambda>r. r \<noteq> None) (fst (site_run urlsplit own [] xs)))"
proof -
  have "snapshot_total (snd (site_run urlsplit own counts xs)) =
      snapshot_total counts + length (filter (\<lambda>r. r \<noteq> None) (fst (site_run urlsplit own counts xs)))" for counts
  proof (induction xs arbitrary: counts)
    case (Cons x xs)
    obtain hs page where x: "x = (hs, page)" by force
    have one: "snapshot_total (snd (cross_site_refusal urlsplit hs own page counts)) =
        snapshot_total counts + (if fst (cross_site_refusal urlsplit hs own page counts) \<noteq> None then 1 else 0)"
      by (simp add: cross_site_refusal_def snapshot_total_count split: option.split)
    show ?case using one Cons.IH[of "snd (cross_site_refusal urlsplit hs own page counts)"]
      by (simp add: x Let_def case_prod_unfold)
  qed simp
  moreover have "snapshot_total [] = 0" by (simp add: snapshot_total_def status_snapshot_def CLASSES_def)
  ultimately show ?thesis by simp
qed

text \<open>A response carries exactly one request id, and it is one no header or log line can be forged with: up to 128
  letters, digits, dots, underscores and dashes, whatever the client sent and the application set.\<close>

theorem one_safe_request_id:
  assumes "safe_request_id fresh"
  shows "getlist ''x-request-id'' (response_headers (request_id_of fresh hs) out) = [request_id_of fresh hs]
    \<and> safe_request_id (request_id_of fresh hs)"
proof -
  have "ascii_lower ''x-request-id'' = ''x-request-id''" by (simp add: ascii_lower_def code_def)
  then have "getlist ''x-request-id'' (response_headers rid out) = [rid]" for rid
    by (auto simp: getlist_def response_headers_def filter_empty_conv)
  then show ?thesis using assms by (simp add: request_id_of_def Let_def)
qed

lemma one_safe_request_id_witness:
  "getlist ''x-request-id'' (response_headers (request_id_of ''a-1'' [(''X-Request-ID'', ''b c'')]) [(''X-REQUEST-ID'', ''z'')]) = [''a-1'']"
proof -
  have "safe_request_id ''a-1''" by (simp add: safe_request_id_def safe_id_char_def is_ascii_letter_def is_digit_def code_def)
  moreover have "request_id_of ''a-1'' [(''X-Request-ID'', ''b c'')] = ''a-1''"
    by (simp add: request_id_of_def safe_request_id_def safe_id_char_def is_ascii_letter_def is_digit_def code_def ascii_lower_def)
  ultimately show ?thesis using one_safe_request_id[of "''a-1''" "[(''X-Request-ID'', ''b c'')]" "[(''X-REQUEST-ID'', ''z'')]"] by simp
qed

end
