(* ===== verification/Sessions.thy ===== *)
theory Sessions
  imports Session_Store Ledger
begin

text \<open>
  The session repository of \<^verbatim>\<open>src/product_app/auth.py\<close> over the durable store: creating, looking up and using a
  session, ending it (sign-out, account deletion, a durable cutoff), restoring it from its row after a restart,
  and the callers that issue, resume and meter by it. A session object is identified by \<open>se_ref\<close>, so that the
  code's \<^verbatim>\<open>is\<close> tests can be stated; a caller holds the object as it was when it was handed out. Restoring
  reads the store outside the lock and caches under it, in two steps here (\<open>restore_read\<close>, \<open>restore_commit\<close>),
  so that other requests can come in between.
\<close>

section \<open>State\<close>

definition SESSION_TTL :: micros where "SESSION_TTL = 2 * 60 * 60 * 1000000"
definition SIGNED_IN_MAX_AGE :: micros where "SIGNED_IN_MAX_AGE = 12 * 60 * 60 * 1000000"
definition ANONYMOUS_MAX_AGE :: micros where "ANONYMOUS_MAX_AGE = 24 * 60 * 60 * 1000000"
definition LATE_RUN_REFUSAL :: micros where "LATE_RUN_REFUSAL = 720 * 1000000"
definition SESSION_TOUCH_PERSIST_INTERVAL :: micros where "SESSION_TOUCH_PERSIST_INTERVAL = 300 * 1000000"

record session =
  se_ref :: nat
  se_session_id :: string
  se_account_id :: uuid
  se_csrf_token :: string
  se_created_at :: micros
  se_last_used_at :: micros
  se_persisted_last_used_at :: "micros option"
  se_idle_limit :: micros
  se_sign_in_only :: bool
  se_max_age :: micros
  se_kind_known :: bool

record session_repo =
  sr_sessions :: "(string, session) dict"
  sr_deleted_accounts :: "(uuid, micros) dict"
  sr_deleting :: "(uuid, nat) dict"
  sr_valid_after :: "(uuid, micros) dict"
  sr_ended_last_used :: "(string, micros) dict"
  sr_ended_ids :: "(string, micros) dict"
  sr_signed_out_ids :: "(string, micros) dict"

record auth_state =
  au_repo :: session_repo
  au_store :: "session_store option"
  au_next_ref :: nat
  au_restoring :: "session list"     \<comment> \<open>read from the store, not cached yet\<close>

datatype unchecked_kind = UNCHECKED_SIGNED_IN | UNCHECKED_UNKNOWN_KIND

datatype lookup_result = Lookup (lu_session: "session option") (lu_unchecked: "unchecked_kind option")

definition is_expired :: "micros \<Rightarrow> session \<Rightarrow> bool" where
  "is_expired now s = (now - se_last_used_at s > se_idle_limit s \<or> now - se_created_at s > se_max_age s)"

definition idle_end :: "session \<Rightarrow> micros" where "idle_end s = se_last_used_at s + se_idle_limit s"
definition max_age_end :: "session \<Rightarrow> micros" where "max_age_end s = se_created_at s + se_max_age s"
definition ends_at :: "session \<Rightarrow> micros" where "ends_at s = min (idle_end s) (max_age_end s)"
definition ends_by_max_age :: "session \<Rightarrow> bool" where "ends_by_max_age s = (max_age_end s \<le> idle_end s)"

definition to_stored :: "session \<Rightarrow> stored_session" where
  "to_stored s = \<lparr>sd_session_id = se_session_id s, sd_account_id = se_account_id s, sd_csrf_token = se_csrf_token s,
     sd_created_at = se_created_at s, sd_last_used_at = se_last_used_at s\<rparr>"

definition new_session_repo :: session_repo where
  "new_session_repo = \<lparr>sr_sessions = [], sr_deleted_accounts = [], sr_deleting = [], sr_valid_after = [],
     sr_ended_last_used = [], sr_ended_ids = [], sr_signed_out_ids = []\<rparr>"

section \<open>Ending sessions in the cache\<close>

definition record_ended :: "session \<Rightarrow> micros \<Rightarrow> session_repo \<Rightarrow> session_repo" where
  "record_ended s now sr =
     (if se_sign_in_only s then sr
      else sr\<lparr>sr_ended_ids := AList.update (se_session_id s) now (sr_ended_ids sr)\<rparr>)"

definition drop_session :: "string \<Rightarrow> session_repo \<Rightarrow> session_repo" where
  "drop_session sid sr = sr\<lparr>sr_sessions := AList.delete sid (sr_sessions sr)\<rparr>"

definition drop_ended :: "micros \<Rightarrow> session \<Rightarrow> session_repo \<Rightarrow> session_repo" where
  "drop_ended now s sr =
     (let sr = drop_session (se_session_id s) sr;
          sr = (if se_kind_known s then record_ended s now sr else sr)
      in if se_max_age s \<noteq> ANONYMOUS_MAX_AGE
         then sr\<lparr>sr_ended_last_used := AList.update (se_session_id s) (se_last_used_at s) (sr_ended_last_used sr)\<rparr>
         else sr)"

definition purge_cached :: "micros \<Rightarrow> session_repo \<Rightarrow> nat \<times> session_repo" where
  "purge_cached now sr =
     (let expired = filter (is_expired now) (map snd (sr_sessions sr));
          sr = foldl (\<lambda>sr s. drop_ended now s sr) sr expired
      in (length expired, sr\<lparr>sr_ended_last_used := filter (\<lambda>(k, used). \<not> now - used > SESSION_TTL) (sr_ended_last_used sr)\<rparr>))"

definition prune_ended_ids :: "micros \<Rightarrow> session_repo \<Rightarrow> session_repo" where
  "prune_ended_ids now sr =
     (let young = filter (\<lambda>(k, ended). \<not> now - ended > ANONYMOUS_MAX_AGE)
      in sr\<lparr>sr_ended_ids := young (sr_ended_ids sr), sr_signed_out_ids := young (sr_signed_out_ids sr)\<rparr>)"

definition end_listed :: "micros \<Rightarrow> (session \<Rightarrow> bool) \<Rightarrow> session_repo \<Rightarrow> session_repo" where
  "end_listed now P sr =
     foldl (\<lambda>sr s. record_ended s now (drop_session (se_session_id s) sr)) sr (filter P (map snd (sr_sessions sr)))"

definition end_sessions_of :: "micros \<Rightarrow> uuid \<Rightarrow> micros \<Rightarrow> session_repo \<Rightarrow> session_repo" where
  "end_sessions_of now account cutoff sr =
     (let held = filter (\<lambda>(a, c). \<not> c + SESSION_TTL \<le> now) (sr_valid_after sr);
          raised = (case map_of held account of None \<Rightarrow> cutoff | Some c \<Rightarrow> max c cutoff)
      in end_listed now (\<lambda>s. se_account_id s = account \<and> se_created_at s \<le> cutoff)
           (sr\<lparr>sr_valid_after := AList.update account raised held\<rparr>))"

definition revoke_account :: "micros \<Rightarrow> uuid \<Rightarrow> session_repo \<Rightarrow> session_repo" where
  "revoke_account now account sr =
     end_listed now (\<lambda>s. se_account_id s = account)
       (sr\<lparr>sr_deleted_accounts := AList.update account (now + SESSION_TTL)
             (filter (\<lambda>(a, until). \<not> until \<le> now) (sr_deleted_accounts sr))\<rparr>)"

definition account_was_deleted :: "micros \<Rightarrow> uuid \<Rightarrow> session_repo \<Rightarrow> bool" where
  "account_was_deleted now account sr =
     (case map_of (sr_deleted_accounts sr) account of None \<Rightarrow> False | Some until \<Rightarrow> until > now)"

definition begin_deletion :: "uuid \<Rightarrow> session_repo \<Rightarrow> session_repo" where
  "begin_deletion account sr =
     sr\<lparr>sr_deleting := AList.update account ((case map_of (sr_deleting sr) account of None \<Rightarrow> 0 | Some n \<Rightarrow> n) + 1) (sr_deleting sr)\<rparr>"

definition end_deletion :: "uuid \<Rightarrow> session_repo \<Rightarrow> session_repo" where
  "end_deletion account sr =
     (let left = int (case map_of (sr_deleting sr) account of None \<Rightarrow> 0 | Some n \<Rightarrow> n) - 1
      in if left > 0 then sr\<lparr>sr_deleting := AList.update account (nat left) (sr_deleting sr)\<rparr>
         else sr\<lparr>sr_deleting := AList.delete account (sr_deleting sr)\<rparr>)"

definition account_is_going :: "micros \<Rightarrow> uuid \<Rightarrow> session_repo \<Rightarrow> bool" where
  "account_is_going now account sr =
     (map_of (sr_deleting sr) account \<noteq> None \<or> account_was_deleted now account sr)"

definition before_cutoff :: "session \<Rightarrow> session_repo \<Rightarrow> bool" where
  "before_cutoff s sr =
     (case map_of (sr_valid_after sr) (se_account_id s) of None \<Rightarrow> False | Some c \<Rightarrow> se_created_at s \<le> c)"

section \<open>Writing through\<close>

text \<open>The cached object, when the caller's is still it.\<close>

definition cached_same :: "session \<Rightarrow> session_repo \<Rightarrow> session option" where
  "cached_same s sr =
     (case map_of (sr_sessions sr) (se_session_id s) of
        None \<Rightarrow> None | Some c \<Rightarrow> if se_ref c = se_ref s then Some c else None)"

definition persist :: "bool \<Rightarrow> session \<Rightarrow> auth_state \<Rightarrow> auth_state" where
  "persist io s au =
     (case au_store au of
        None \<Rightarrow> au
      | Some sx \<Rightarrow>
          if se_sign_in_only s then au
          else (case cached_same s (au_repo au) of
              None \<Rightarrow> au
            | Some c \<Rightarrow>
                let sr = au_repo au;
                    c = c\<lparr>se_persisted_last_used_at := Some (se_last_used_at c)\<rparr>
                in au\<lparr>au_repo := sr\<lparr>sr_sessions := AList.update (se_session_id c) c (sr_sessions sr)\<rparr>,
                      au_store := Some (snd (save_session io (to_stored c) sx))\<rparr>))"

definition persist_touch :: "bool \<Rightarrow> session \<Rightarrow> auth_state \<Rightarrow> auth_state" where
  "persist_touch io s au =
     (case se_persisted_last_used_at s of
        None \<Rightarrow> persist io s au
      | Some persisted \<Rightarrow>
          if se_last_used_at s - persisted < SESSION_TOUCH_PERSIST_INTERVAL then au else persist io s au)"

definition flush_session :: "bool \<Rightarrow> session \<Rightarrow> auth_state \<Rightarrow> auth_state" where
  "flush_session io s au =
     (if se_persisted_last_used_at s \<noteq> Some (se_last_used_at s) then persist io s au else au)"

section \<open>Creating, using and revoking\<close>

definition create_session ::
  "micros \<Rightarrow> bool \<Rightarrow> string \<Rightarrow> string \<Rightarrow> uuid \<Rightarrow> micros \<Rightarrow> bool \<Rightarrow> micros \<Rightarrow> auth_state \<Rightarrow> session \<times> auth_state" where
  "create_session now io sid csrf account idle_limit sign_in_only max_age au =
     (let sr = snd (purge_cached now (au_repo au));
          s = \<lparr>se_ref = au_next_ref au, se_session_id = sid, se_account_id = account, se_csrf_token = csrf,
               se_created_at = now, se_last_used_at = now, se_persisted_last_used_at = None,
               se_idle_limit = idle_limit, se_sign_in_only = sign_in_only, se_max_age = max_age, se_kind_known = True\<rparr>;
          au = au\<lparr>au_repo := sr\<lparr>sr_sessions := AList.update sid s (sr_sessions sr)\<rparr>, au_next_ref := au_next_ref au + 1\<rparr>
      in (s, persist io s au))"

text \<open>\<open>use\<close>: touches the very object the lookup returned, or refuses it.\<close>

definition use_session :: "micros \<Rightarrow> bool \<Rightarrow> string option \<Rightarrow> session \<Rightarrow> auth_state \<Rightarrow> session option \<times> auth_state" where
  "use_session now io new_csrf s au =
     (case cached_same s (au_repo au) of
        None \<Rightarrow> (None, au)
      | Some c \<Rightarrow>
          if is_expired now c then (None, au\<lparr>au_repo := drop_ended now c (au_repo au)\<rparr>)
          else
            let sr = au_repo au;
                c = c\<lparr>se_last_used_at := now\<rparr>;
                c = (case new_csrf of None \<Rightarrow> c | Some t \<Rightarrow> c\<lparr>se_csrf_token := t\<rparr>);
                au = au\<lparr>au_repo := sr\<lparr>sr_sessions := AList.update (se_session_id c) c (sr_sessions sr)\<rparr>\<rparr>;
                au = (if new_csrf \<noteq> None then persist io c au else persist_touch io c au)
            in (Some c, au))"

definition revoke :: "micros \<Rightarrow> bool \<Rightarrow> string \<Rightarrow> auth_state \<Rightarrow> auth_state" where
  "revoke now io sid au =
     (let sr = au_repo au; dropped = map_of (sr_sessions sr) sid;
          sr = drop_session sid sr;
          sr = (case dropped of None \<Rightarrow> sr | Some s \<Rightarrow> record_ended s now sr);
          sr = (if dropped = None \<or> (case dropped of None \<Rightarrow> True | Some s \<Rightarrow> \<not> se_sign_in_only s)
                then sr\<lparr>sr_signed_out_ids := AList.update sid now (sr_signed_out_ids sr)\<rparr> else sr)
      in au\<lparr>au_repo := sr,
            au_store := map_option (\<lambda>sx. snd (delete_session io sid sx)) (au_store au)\<rparr>)"

definition was_revoked :: "string \<Rightarrow> auth_state \<Rightarrow> bool" where
  "was_revoked sid au = (map_of (sr_signed_out_ids (au_repo au)) sid \<noteq> None)"

definition purge_expired_sessions :: "micros \<Rightarrow> bool \<Rightarrow> auth_state \<Rightarrow> auth_state" where
  "purge_expired_sessions now io au =
     au\<lparr>au_repo := prune_ended_ids now (snd (purge_cached now (au_repo au))),
        au_store := map_option (\<lambda>sx. snd (purge_stored io now (now - SESSION_TTL) (Some (now - ANONYMOUS_MAX_AGE)) sx)) (au_store au)\<rparr>"

section \<open>Looking up\<close>

text \<open>How the store answers the reads of one lookup, and the configured idle limit of a signed-in session.\<close>

record look_env =
  lk_now :: micros
  lk_fetch_io :: bool
  lk_kind_io :: bool
  lk_cutoff_locked :: bool
  lk_cutoff_io :: bool
  lk_signed_in_idle :: micros

definition kind_of :: "session \<Rightarrow> unchecked_kind" where
  "kind_of s = (if se_kind_known s then UNCHECKED_SIGNED_IN else UNCHECKED_UNKNOWN_KIND)"

definition check_cached :: "look_env \<Rightarrow> session \<Rightarrow> auth_state \<Rightarrow> lookup_result \<times> auth_state" where
  "check_cached lk s au =
     (if se_max_age s = ANONYMOUS_MAX_AGE then (Lookup (Some s) None, au)
      else (case au_store au of
          None \<Rightarrow> (Lookup (Some s) None, au)
        | Some sx \<Rightarrow>
            (case sessions_valid_after (lk_cutoff_locked lk) (lk_cutoff_io lk) (se_account_id s) sx of
               (True, Some cutoff) \<Rightarrow>
                 if se_created_at s \<le> cutoff
                 then (Lookup None None,
                       au\<lparr>au_repo := end_sessions_of (lk_now lk) (se_account_id s) cutoff (au_repo au)\<rparr>)
                 else (Lookup (Some s) None, au)
             | (True, None) \<Rightarrow> (Lookup (Some s) None, au)
             | (False, _) \<Rightarrow>
                 if se_kind_known s \<and> is_expired (lk_now lk) s
                 then (Lookup None None,
                       (if cached_same s (au_repo au) = None then au
                        else au\<lparr>au_repo := drop_ended (lk_now lk) s (au_repo au)\<rparr>))
                 else if map_of (sr_ended_ids (au_repo au)) (se_session_id s) \<noteq> None then (Lookup None None, au)
                 else (Lookup None (Some (kind_of s)), au))))"

text \<open>The reads of a restore: a refusal, or the session to cache.\<close>

definition restored_session :: "look_env \<Rightarrow> nat \<Rightarrow> bool option \<Rightarrow> stored_session \<Rightarrow> session" where
  "restored_session lk ref anonymous sd =
     \<lparr>se_ref = ref, se_session_id = sd_session_id sd, se_account_id = sd_account_id sd, se_csrf_token = sd_csrf_token sd,
      se_created_at = sd_created_at sd, se_last_used_at = sd_last_used_at sd,
      se_persisted_last_used_at = Some (sd_last_used_at sd),
      se_idle_limit = (if anonymous = Some True then SESSION_TTL else lk_signed_in_idle lk), se_sign_in_only = False,
      se_max_age = (if anonymous = Some True then ANONYMOUS_MAX_AGE else SIGNED_IN_MAX_AGE),
      se_kind_known = (anonymous \<noteq> None)\<rparr>"

text \<open>The account's cutoff, for a session that may be signed in: \<open>Some\<close> refusal, or none.\<close>

definition cutoff_refusal :: "look_env \<Rightarrow> bool option \<Rightarrow> session \<Rightarrow> session_store \<Rightarrow> lookup_result option" where
  "cutoff_refusal lk anonymous s sx =
     (if anonymous = Some True then None
      else if \<not> sx_safety_ready sx then Some (Lookup None (Some (kind_of s)))
      else (case sessions_valid_after True (lk_cutoff_io lk) (se_account_id s) sx of
          (read, Some cutoff) \<Rightarrow> (if se_created_at s \<le> cutoff then Some (Lookup None None)
             else if read then None
             else if anonymous = Some False \<and> is_expired (lk_now lk) s then Some (Lookup None None)
             else Some (Lookup None (Some (kind_of s))))
        | (read, None) \<Rightarrow>
            (if read then None
             else if anonymous = Some False \<and> is_expired (lk_now lk) s then Some (Lookup None None)
             else Some (Lookup None (Some (kind_of s))))))"

definition restore_read :: "look_env \<Rightarrow> string \<Rightarrow> auth_state \<Rightarrow> (lookup_result + session) \<times> auth_state" where
  "restore_read lk sid au =
     (case au_store au of
        None \<Rightarrow> (Inl (Lookup None None), au)
      | Some sx \<Rightarrow>
          let now = lk_now lk in
          (case fetch_checked (lk_fetch_io lk) now sid (now - SESSION_TTL) (Some (now - ANONYMOUS_MAX_AGE)) sx of
             (False, _) \<Rightarrow> (Inl (Lookup None (Some UNCHECKED_UNKNOWN_KIND)), au)
           | (True, None) \<Rightarrow> (Inl (Lookup None None), au)
           | (True, Some sd) \<Rightarrow>
               let anonymous = (if sx_accounts_ready sx then is_anonymous (lk_kind_io lk) (sd_account_id sd) sx
                                else has_no_account_row (lk_kind_io lk) (sd_account_id sd) sx);
                   s = restored_session lk (au_next_ref au) anonymous sd;
                   au = au\<lparr>au_next_ref := au_next_ref au + 1\<rparr>
               in if anonymous = Some False \<and> is_expired now s then (Inl (Lookup None None), au)
                  else if account_was_deleted now (se_account_id s) (au_repo au) \<or> before_cutoff s (au_repo au)
                  then (Inl (Lookup None None), au)
                  else (case cutoff_refusal lk anonymous s sx of
                      Some refused \<Rightarrow> (Inl refused, au)
                    | None \<Rightarrow>
                        if is_expired now s
                        then (Inl (Lookup None (if anonymous = None then Some UNCHECKED_UNKNOWN_KIND else None)), au)
                        else (Inr s, au))))"

text \<open>Under the lock: an id that ended meanwhile is refused, an object cached meanwhile wins.\<close>

definition restore_commit :: "micros \<Rightarrow> session \<Rightarrow> auth_state \<Rightarrow> lookup_result \<times> auth_state" where
  "restore_commit now s au =
     (let sr = au_repo au; sid = se_session_id s in
      if account_was_deleted now (se_account_id s) sr \<or> before_cutoff s sr
         \<or> map_of (sr_ended_ids sr) sid \<noteq> None \<or> map_of (sr_signed_out_ids sr) sid \<noteq> None
      then (Lookup None None, au)
      else (case map_of (sr_sessions sr) sid of
          Some c \<Rightarrow> (Lookup (Some c) None, au)
        | None \<Rightarrow> (Lookup (Some s) None, au\<lparr>au_repo := sr\<lparr>sr_sessions := AList.update sid s (sr_sessions sr)\<rparr>\<rparr>)))"

definition lookup :: "look_env \<Rightarrow> string \<Rightarrow> auth_state \<Rightarrow> lookup_result \<times> auth_state" where
  "lookup lk sid au =
     (let au = au\<lparr>au_repo := snd (purge_cached (lk_now lk) (au_repo au))\<rparr> in
      case map_of (sr_sessions (au_repo au)) sid of
        Some s \<Rightarrow> check_cached lk s au
      | None \<Rightarrow>
          if map_of (sr_ended_ids (au_repo au)) sid \<noteq> None then (Lookup None None, au)
          else (case restore_read lk sid au of
              (Inl refused, au) \<Rightarrow> (refused, au)
            | (Inr s, au) \<Rightarrow> restore_commit (lk_now lk) s au))"

end
