(* ===== verification/Auth_Requests.thy ===== *)
theory Auth_Requests
  imports Sessions Py_Strings "HOL-Library.Word"
begin

text \<open>
  What \<^verbatim>\<open>src/product_app/auth.py\<close> does with a request: the visitor's address behind the proxy and the
  key it is limited by, the configuration guards, minting, issuing and resuming a session, authenticating a
  request (cookie or legacy header), the CSRF check, the refusals (ended, unchecked, sign-in only, too late for a
  run) and the meter a run is charged to. A refusal is \<open>Inl\<close>. Parsing and printing of addresses
  (\<^verbatim>\<open>ipaddress\<close>) is the argument \<open>address_lib\<close>, UUID parsing and the keyed hash of a network are
  arguments too; an address itself is a machine word.
\<close>

section \<open>Settings\<close>

datatype runtime_environment = ENV_LOCAL | ENV_STAGING | ENV_PRODUCTION

record auth_settings =
  as_environment :: runtime_environment
  as_cookie_secure :: bool
  as_legacy_enabled :: bool
  as_mint_override :: "nat option"
  as_spend_per_session :: bool
  as_signed_in_idle_minutes :: nat

definition signed_in_idle_limit :: "auth_settings \<Rightarrow> micros" where
  "signed_in_idle_limit cfg = int (as_signed_in_idle_minutes cfg) * 60 * 1000000"

definition SESSION_MINT_CAP_PER_IP :: nat where "SESSION_MINT_CAP_PER_IP = 2"

definition effective_session_mint_cap :: "auth_settings \<Rightarrow> nat" where
  "effective_session_mint_cap cfg =
     (if as_environment cfg = ENV_LOCAL
      then (case as_mint_override cfg of Some n \<Rightarrow> if n \<noteq> 0 then n else SESSION_MINT_CAP_PER_IP | None \<Rightarrow> SESSION_MINT_CAP_PER_IP)
      else SESSION_MINT_CAP_PER_IP)"

definition get_session_cookie_name :: "auth_settings \<Rightarrow> string" where
  "get_session_cookie_name cfg = (if as_environment cfg = ENV_LOCAL then ''quorum_session'' else ''__Host-quorum_session'')"

definition legacy_path_allowed :: "auth_settings \<Rightarrow> bool" where
  "legacy_path_allowed cfg = (as_environment cfg \<noteq> ENV_PRODUCTION \<and> as_legacy_enabled cfg)"

section \<open>The visitor's address\<close>

datatype ip_addr = IPv4 "32 word" | IPv6 "128 word"

record address_lib =
  al_parse :: "string \<Rightarrow> ip_addr option"
  al_text :: "ip_addr \<Rightarrow> string"
  al_net_text :: "128 word \<Rightarrow> string"       \<comment> \<open>the text of a /64 network\<close>
  al_is_network :: "string \<Rightarrow> bool"

text \<open>\<^verbatim>\<open>172.16.0.0/12\<close> and \<^verbatim>\<open>fdaa::/16\<close>.\<close>

definition peer_is_trusted :: "address_lib \<Rightarrow> string \<Rightarrow> bool" where
  "peer_is_trusted al host =
     (case al_parse al host of
        None \<Rightarrow> False
      | Some (IPv4 a) \<Rightarrow> drop_bit 20 a = 0xAC1
      | Some (IPv6 a) \<Rightarrow> drop_bit 112 a = 0xFDAA)"

record http_scope =
  hs_client :: "(string \<times> nat) option"
  hs_headers :: "(string \<times> string) list"
  hs_scheme :: string

definition header_values :: "string \<Rightarrow> http_scope \<Rightarrow> string list" where
  "header_values name hs = map snd (filter (\<lambda>(k, v). ascii_lower k = name) (hs_headers hs))"

definition visitor_address :: "address_lib \<Rightarrow> http_scope \<Rightarrow> http_scope" where
  "visitor_address al hs =
     (case hs_client hs of
        None \<Rightarrow> hs
      | Some (host, port) \<Rightarrow>
          if \<not> peer_is_trusted al host then hs
          else
            let fly = header_values ''fly-client-ip'' hs;
                proto = header_values ''x-forwarded-proto'' hs;
                client = (case fly of
                    [v] \<Rightarrow> (case al_parse al (strip v) of Some a \<Rightarrow> Some (al_text al a, 0) | None \<Rightarrow> hs_client hs)
                  | _ \<Rightarrow> hs_client hs);
                scheme = (case proto of
                    [p] \<Rightarrow> (let q = ascii_lower (bytes_strip p) in if q = ''http'' \<or> q = ''https'' then q else hs_scheme hs)
                  | _ \<Rightarrow> hs_scheme hs)
            in hs\<lparr>hs_client := client, hs_scheme := scheme\<rparr>)"

definition ipv4_mapped :: "128 word \<Rightarrow> 32 word option" where
  "ipv4_mapped a = (if drop_bit 32 a = 0xFFFF then Some (ucast a) else None)"

definition network_of :: "128 word \<Rightarrow> 128 word" where "network_of a = push_bit 64 (drop_bit 64 a)"

definition client_ip_of :: "address_lib \<Rightarrow> http_scope \<Rightarrow> string option" where
  "client_ip_of al hs =
     (case hs_client hs of
        None \<Rightarrow> None
      | Some (host, port) \<Rightarrow>
          (case al_parse al host of
             None \<Rightarrow> Some host
           | Some (IPv6 a) \<Rightarrow>
               (case ipv4_mapped a of Some b \<Rightarrow> Some (al_text al (IPv4 b)) | None \<Rightarrow> Some (al_net_text al (network_of a)))
           | Some (IPv4 a) \<Rightarrow> Some (al_text al (IPv4 a))))"

section \<open>Errors\<close>

datatype auth_error =
    AUTH_REQUIRED
  | SESSION_EXPIRED
  | CSRF_INVALID
  | SESSION_MAX_AGE
  | SESSION_ENDS_SOON string
  | SESSION_UNCHECKED unchecked_kind
  | SIGN_IN_REQUIRED
  | SPEND_KEY_UNAVAILABLE
  | CONFIG_REFUSED string
  | MINT_CAP_EXCEEDED "int option"     \<comment> \<open>\<open>retry_after_seconds\<close>\<close>
  | PREVIOUS_SESSION_REVOKED

fun auth_status :: "auth_error \<Rightarrow> nat option" where
  "auth_status AUTH_REQUIRED = Some 401"
| "auth_status SESSION_EXPIRED = Some 401"
| "auth_status CSRF_INVALID = Some 403"
| "auth_status SESSION_MAX_AGE = Some 401"
| "auth_status (SESSION_ENDS_SOON m) = Some 409"
| "auth_status (SESSION_UNCHECKED k) = Some 401"
| "auth_status SIGN_IN_REQUIRED = Some 403"
| "auth_status SPEND_KEY_UNAVAILABLE = Some 503"
| "auth_status (CONFIG_REFUSED m) = Some 500"
| "auth_status (MINT_CAP_EXCEEDED r) = None"
| "auth_status PREVIOUS_SESSION_REVOKED = None"

definition enforce_production_guards :: "auth_settings \<Rightarrow> bool \<Rightarrow> auth_error option" where
  "enforce_production_guards cfg require_legacy_disabled =
     (if as_environment cfg \<noteq> ENV_LOCAL then
        if \<not> as_cookie_secure cfg then Some (CONFIG_REFUSED ''SESSION_COOKIE_SECURE'')
        else if require_legacy_disabled \<and> as_legacy_enabled cfg then Some (CONFIG_REFUSED ''ACCOUNT_LEGACY_HEADER_ENABLED'')
        else None
      else None)"

section \<open>Why a session ended\<close>

text \<open>The account of a signed-in session that reached its age limit (and nothing else ended it), for the message
  and for the renewal of its account row.\<close>

definition max_age_account :: "look_env \<Rightarrow> string \<Rightarrow> auth_state \<Rightarrow> uuid option" where
  "max_age_account lk sid au =
     (case au_store au of
        None \<Rightarrow> None
      | Some sx \<Rightarrow>
          (case fetch_checked (lk_fetch_io lk) (lk_now lk) sid 0 None sx of
             (_, None) \<Rightarrow> None
           | (_, Some sd) \<Rightarrow>
               let account = sd_account_id sd; sr = au_repo au;
                   (read, cutoff) = sessions_valid_after True (lk_cutoff_io lk) account sx;
                   covers = (\<lambda>c. case c of None \<Rightarrow> False | Some c \<Rightarrow> sd_created_at sd \<le> c)
               in if \<not> read \<or> covers cutoff then None
                  else if map_of (sr_signed_out_ids sr) sid \<noteq> None \<or> account_is_going (lk_now lk) account sr
                       \<or> covers (map_of (sr_valid_after sr) account) then None
                  else if is_anonymous (lk_kind_io lk) account sx \<noteq> Some False then None
                  else
                    let last_used = (case map_of (sr_ended_last_used sr) sid of None \<Rightarrow> sd_last_used_at sd
                                     | Some held \<Rightarrow> max (sd_last_used_at sd) held);
                        max_age_end = sd_created_at sd + SIGNED_IN_MAX_AGE;
                        idle_end = last_used + lk_signed_in_idle lk
                    in if lk_now lk > max_age_end \<and> max_age_end \<le> idle_end then Some account else None))"

definition end_reason :: "look_env \<Rightarrow> string \<Rightarrow> auth_state \<Rightarrow> auth_error" where
  "end_reason lk sid au = (if max_age_account lk sid au \<noteq> None then SESSION_MAX_AGE else SESSION_EXPIRED)"

definition session_ended :: "look_env \<Rightarrow> string \<Rightarrow> auth_state \<Rightarrow> auth_error" where
  "session_ended lk sid au = (if end_reason lk sid au = SESSION_MAX_AGE then SESSION_MAX_AGE else SESSION_EXPIRED)"

definition upsert_if_recoverable ::
  "look_env \<Rightarrow> string \<Rightarrow> uuid \<Rightarrow> (auth_state \<Rightarrow> uuid option \<times> auth_state) \<Rightarrow> auth_state \<Rightarrow> uuid option \<times> auth_state" where
  "upsert_if_recoverable lk sid account upsert au =
     (if max_age_account lk sid au \<noteq> Some account then (None, au) else upsert au)"

section \<open>Issuing\<close>

record issue_response =
  ir_account_id :: uuid
  ir_session_id :: string
  ir_csrf_token :: string
  ir_expires_at :: micros
  ir_session_expires_in_seconds :: int

text \<open>\<^verbatim>\<open>int(...)\<close> of a number of seconds truncates toward zero.\<close>

definition whole_seconds :: "micros \<Rightarrow> int" where "whole_seconds d = sgn d * (\<bar>d\<bar> div 1000000)"

definition issued :: "session \<Rightarrow> issue_response" where
  "issued s = \<lparr>ir_account_id = se_account_id s, ir_session_id = se_session_id s, ir_csrf_token = se_csrf_token s,
     ir_expires_at = ends_at s, ir_session_expires_in_seconds = max 0 (whole_seconds (ends_at s - se_last_used_at s))\<rparr>"

definition max_age_seconds_left_of :: "micros \<Rightarrow> session \<Rightarrow> int" where
  "max_age_seconds_left_of now s = max 0 (whole_seconds (max_age_end s - now))"

text \<open>What one request brings: its clock, the random ids it would draw, how the two stores answer.\<close>

record issue_env =
  ie_look :: look_env          \<comment> \<open>the reads of the lookup\<close>
  ie_now :: micros             \<comment> \<open>when it uses or creates the session\<close>
  ie_io :: bool                \<comment> \<open>whether a write to the session store lands\<close>
  ie_session_id :: string
  ie_csrf :: string
  ie_account :: uuid           \<comment> \<open>\<open>uuid4()\<close>\<close>
  ie_lands :: bool             \<comment> \<open>whether the ledger write lands\<close>
  ie_clk :: rat
  ie_readable :: bool

text \<open>The mint: guards, then the durable count for the address, then the session. \<open>fs\<close> is the feedback store.\<close>

definition mint_session ::
  "auth_settings \<Rightarrow> issue_env \<Rightarrow> uuid option \<Rightarrow> string option \<Rightarrow> nat option \<Rightarrow> auth_state \<times> feedback_store option
   \<Rightarrow> (auth_error + session) \<times> auth_state \<times> feedback_store option" where
  "mint_session cfg ie account client_ip mint_cap st =
     (case enforce_production_guards cfg True of
        Some e \<Rightarrow> (Inl e, st)
      | None \<Rightarrow>
          let (au, fs) = st;
              account = (case account of None \<Rightarrow> ie_account ie | Some a \<Rightarrow> a);
              cap = (case mint_cap of None \<Rightarrow> effective_session_mint_cap cfg | Some n \<Rightarrow> n);
              create = (\<lambda>fs. let (s, au) = create_session (ie_now ie) (ie_io ie) (ie_session_id ie) (ie_csrf ie) account
                                SESSION_TTL False ANONYMOUS_MAX_AGE au in (Inr s, au, fs))
          in (case (client_ip, fs) of
              (Some ip, Some store) \<Rightarrow>
                (case try_record_session_mint ip account cap (ie_now ie) (ie_lands ie) (ie_clk ie) store of
                   (True, store) \<Rightarrow> create (Some store)
                 | (False, store) \<Rightarrow>
                     (Inl (MINT_CAP_EXCEEDED (seconds_until_a_session_mint_frees (ie_readable ie) ip cap (ie_now ie) store)),
                      au, Some store))
            | _ \<Rightarrow> create fs))"

text \<open>\<open>use\<close> rotates the CSRF token when asked.\<close>

definition issue_or_resume_checked_session ::
  "auth_settings \<Rightarrow> issue_env \<Rightarrow> string option \<Rightarrow> string option \<Rightarrow> bool \<Rightarrow> nat option \<Rightarrow> auth_state \<times> feedback_store option
   \<Rightarrow> (auth_error + session) \<times> auth_state \<times> feedback_store option" where
  "issue_or_resume_checked_session cfg ie presented client_ip renew mint_cap st =
     (case enforce_production_guards cfg True of
        Some e \<Rightarrow> (Inl e, st)
      | None \<Rightarrow>
          let (au, fs) = st in
          if presented = None \<or> presented = Some [] then mint_session cfg ie None client_ip mint_cap st
          else
            (case lookup (ie_look ie) (the presented) au of
               (found, au) \<Rightarrow>
                 (case lu_unchecked found of
                    Some kind \<Rightarrow> (Inl (SESSION_UNCHECKED kind), au, fs)
                  | None \<Rightarrow>
                      (case lu_session found of
                         None \<Rightarrow> mint_session cfg ie None client_ip mint_cap (au, fs)
                       | Some s \<Rightarrow>
                           if se_sign_in_only s \<or> is_expired (ie_now ie) s
                           then mint_session cfg ie None client_ip mint_cap (au, fs)
                           else (case use_session (ie_now ie) (ie_io ie) (if renew then Some (ie_csrf ie) else None) s au of
                               (Some s, au) \<Rightarrow> (Inr s, au, fs)
                             | (None, au) \<Rightarrow> mint_session cfg ie None client_ip mint_cap (au, fs))))))"

definition issue_or_resume_session ::
  "auth_settings \<Rightarrow> issue_env \<Rightarrow> string option \<Rightarrow> string option \<Rightarrow> bool \<Rightarrow> nat option \<Rightarrow> auth_state \<times> feedback_store option
   \<Rightarrow> (auth_error + issue_response) \<times> auth_state \<times> feedback_store option" where
  "issue_or_resume_session cfg ie presented client_ip renew mint_cap st =
     (case issue_or_resume_checked_session cfg ie presented client_ip renew mint_cap st of
        (Inl e, st) \<Rightarrow> (Inl e, st) | (Inr s, st) \<Rightarrow> (Inr (issued s), st))"

definition issue_session ::
  "auth_settings \<Rightarrow> issue_env \<Rightarrow> uuid option \<Rightarrow> string option \<Rightarrow> nat option \<Rightarrow> auth_state \<times> feedback_store option
   \<Rightarrow> (auth_error + issue_response) \<times> auth_state \<times> feedback_store option" where
  "issue_session cfg ie account client_ip mint_cap st =
     (case mint_session cfg ie account client_ip mint_cap st of
        (Inl e, st) \<Rightarrow> (Inl e, st) | (Inr s, st) \<Rightarrow> (Inr (issued s), st))"

text \<open>Signing in replaces the browser's session: the check and the revocation are one locked step.\<close>

definition issue_signed_in_session ::
  "auth_settings \<Rightarrow> issue_env \<Rightarrow> string \<Rightarrow> uuid \<Rightarrow> bool \<Rightarrow> auth_state \<Rightarrow> (auth_error + issue_response) \<times> auth_state" where
  "issue_signed_in_session cfg ie previous account from_sign_in_only au =
     (case enforce_production_guards cfg True of
        Some e \<Rightarrow> (Inl e, au)
      | None \<Rightarrow>
          if was_revoked previous au \<or> (from_sign_in_only \<and> map_of (sr_sessions (au_repo au)) previous = None)
          then (Inl PREVIOUS_SESSION_REVOKED, au)
          else
            let au = revoke (ie_now ie) (ie_io ie) previous au;
                (s, au) = create_session (ie_now ie) (ie_io ie) (ie_session_id ie) (ie_csrf ie) account
                            (signed_in_idle_limit cfg) False SIGNED_IN_MAX_AGE au
            in (Inr (issued s), au))"

text \<open>\<open>touch\<close>: look up and use.\<close>

definition touch_session :: "issue_env \<Rightarrow> string \<Rightarrow> auth_state \<Rightarrow> session option \<times> auth_state" where
  "touch_session ie sid au =
     (case lookup (ie_look ie) sid au of
        (found, au) \<Rightarrow> (case lu_session found of
             None \<Rightarrow> (None, au)
           | Some s \<Rightarrow> use_session (ie_now ie) (ie_io ie) None s au))"

definition resume_sign_in_only_session :: "issue_env \<Rightarrow> string option \<Rightarrow> auth_state \<Rightarrow> issue_response option \<times> auth_state" where
  "resume_sign_in_only_session ie presented au =
     (if presented = None \<or> presented = Some [] then (None, au)
      else (case touch_session ie (the presented) au of
          (None, au) \<Rightarrow> (None, au)
        | (Some s, au) \<Rightarrow> if \<not> se_sign_in_only s then (None, au) else (Some (issued s), au)))"

definition issue_sign_in_only_session :: "auth_settings \<Rightarrow> issue_env \<Rightarrow> auth_state \<Rightarrow> (auth_error + issue_response) \<times> auth_state" where
  "issue_sign_in_only_session cfg ie au =
     (case enforce_production_guards cfg True of
        Some e \<Rightarrow> (Inl e, au)
      | None \<Rightarrow>
          let (s, au) = create_session (ie_now ie) (ie_io ie) (ie_session_id ie) (ie_csrf ie) (ie_account ie)
                          SESSION_TTL True ANONYMOUS_MAX_AGE au
          in (Inr (issued s), au))"

section \<open>Authenticating a request\<close>

record auth_request =
  rq_cookies :: "(string, string) dict"
  rq_account_header :: "string option"     \<comment> \<open>\<open>X-Account-Id\<close>\<close>
  rq_csrf_header :: "string option"        \<comment> \<open>\<open>X-CSRF-Token\<close>\<close>
  rq_csrf_alias :: "string option"         \<comment> \<open>\<open>X-CSRF\<close>\<close>
  rq_scope :: http_scope

record session_ctx =
  sc_account_id :: uuid
  sc_session_id :: string
  sc_csrf_token :: string
  sc_legacy :: bool
  sc_created_at :: "micros option"
  sc_sign_in_only :: bool

definition LEGACY_CSRF_PLACEHOLDER :: string where "LEGACY_CSRF_PLACEHOLDER = ''legacy-csrf-placeholder''"

text \<open>\<open>parse_uuid\<close> is \<^verbatim>\<open>UUID(...)\<close>; \<open>legacy_id\<close> the digits of the SHA-256 of the account's text.\<close>

definition legacy_context :: "(uuid \<Rightarrow> string) \<Rightarrow> micros \<Rightarrow> uuid \<Rightarrow> session_ctx" where
  "legacy_context legacy_id now account =
     \<lparr>sc_account_id = account, sc_session_id = ''legacy-'' @ legacy_id account, sc_csrf_token = LEGACY_CSRF_PLACEHOLDER,
      sc_legacy = True, sc_created_at = Some now, sc_sign_in_only = False\<rparr>"

definition context_of :: "session \<Rightarrow> session_ctx" where
  "context_of s = \<lparr>sc_account_id = se_account_id s, sc_session_id = se_session_id s, sc_csrf_token = se_csrf_token s,
     sc_legacy = False, sc_created_at = Some (se_created_at s), sc_sign_in_only = se_sign_in_only s\<rparr>"

definition require_session ::
  "auth_settings \<Rightarrow> (string \<Rightarrow> uuid option) \<Rightarrow> (uuid \<Rightarrow> string) \<Rightarrow> issue_env \<Rightarrow> look_env \<Rightarrow> auth_request \<Rightarrow> auth_state
   \<Rightarrow> (auth_error + session_ctx) \<times> auth_state" where
  "require_session cfg parse_uuid legacy_id ie reason_lk rq au =
     (let cookie = map_of (rq_cookies rq) (get_session_cookie_name cfg) in
      if cookie \<noteq> None \<and> cookie \<noteq> Some [] then
        let sid = the cookie in
        (case lookup (ie_look ie) sid au of
           (found, au) \<Rightarrow>
             (case lu_unchecked found of
                Some kind \<Rightarrow> (Inl (SESSION_UNCHECKED kind), au)
              | None \<Rightarrow>
                  (case (case lu_session found of None \<Rightarrow> (None, au)
                         | Some s \<Rightarrow> use_session (ie_now ie) (ie_io ie) None s au) of
                     (None, au) \<Rightarrow> (Inl (session_ended reason_lk sid au), au)
                   | (Some s, au) \<Rightarrow> (Inr (context_of s), au))))
      else if legacy_path_allowed cfg \<and> rq_account_header rq \<noteq> None \<and> rq_account_header rq \<noteq> Some [] then
        (case parse_uuid (the (rq_account_header rq)) of
           None \<Rightarrow> (Inl AUTH_REQUIRED, au)
         | Some account \<Rightarrow> (Inr (legacy_context legacy_id (ie_now ie) account), au))
      else (Inl AUTH_REQUIRED, au))"

text \<open>\<open>None\<close> when the request is let through. \<^verbatim>\<open>secrets.compare_digest\<close> of two texts takes ASCII only and raises
  \<^verbatim>\<open>TypeError\<close> otherwise, which nothing catches.\<close>

datatype csrf_verdict = CSRF_OK | CSRF_REFUSED auth_error | CSRF_RAISES

definition is_ascii :: "string \<Rightarrow> bool" where "is_ascii s = (\<forall>c \<in> set s. code c < 128)"

definition enforce_csrf :: "auth_settings \<Rightarrow> auth_request \<Rightarrow> session_ctx \<Rightarrow> csrf_verdict" where
  "enforce_csrf cfg rq sc =
     (if sc_legacy sc then (if as_legacy_enabled cfg then CSRF_OK else CSRF_REFUSED CSRF_INVALID)
      else
        let presented = (case rq_csrf_header rq of Some t \<Rightarrow> if t \<noteq> [] then Some t else rq_csrf_alias rq | None \<Rightarrow> rq_csrf_alias rq)
        in (case presented of
              None \<Rightarrow> CSRF_REFUSED CSRF_INVALID
            | Some t \<Rightarrow>
                if t = [] then CSRF_REFUSED CSRF_INVALID
                else if \<not> is_ascii t \<or> \<not> is_ascii (sc_csrf_token sc) then CSRF_RAISES
                else if t \<noteq> sc_csrf_token sc then CSRF_REFUSED CSRF_INVALID
                else CSRF_OK))"

section \<open>Refusals before a run\<close>

definition refuse_sign_in_only :: "session_ctx \<Rightarrow> auth_error option" where
  "refuse_sign_in_only sc = (if sc_sign_in_only sc then Some SIGN_IN_REQUIRED else None)"

definition SESSION_ENDS_SOON_SIGNED_IN_MESSAGE :: string where
  "SESSION_ENDS_SOON_SIGNED_IN_MESSAGE = ''Your session ends in less than 12 minutes. Sign in again, then run this question.''"

definition SESSION_ENDS_SOON_ANONYMOUS_MESSAGE :: string where
  "SESSION_ENDS_SOON_ANONYMOUS_MESSAGE = ''This session ends in less than 12 minutes, so this question cannot run now. '' @
     ''Sign in to keep going, or reload the page after the session ends.''"

definition SESSION_ENDS_SOON_NO_SIGN_IN_MESSAGE :: string where
  "SESSION_ENDS_SOON_NO_SIGN_IN_MESSAGE = ''This session ends in less than 12 minutes, so this question cannot run now. '' @
     ''Reload the page after the session ends.''"

definition ends_soon_message :: "bool \<Rightarrow> session \<Rightarrow> string" where
  "ends_soon_message sign_in_offered s =
     (if \<not> sign_in_offered then SESSION_ENDS_SOON_NO_SIGN_IN_MESSAGE
      else if se_max_age s \<noteq> ANONYMOUS_MAX_AGE then SESSION_ENDS_SOON_SIGNED_IN_MESSAGE
      else SESSION_ENDS_SOON_ANONYMOUS_MESSAGE)"

definition refuse_if_session_ends_soon ::
  "look_env \<Rightarrow> look_env \<Rightarrow> micros \<Rightarrow> bool \<Rightarrow> bool \<Rightarrow> session_ctx \<Rightarrow> auth_state \<Rightarrow> auth_error option \<times> auth_state" where
  "refuse_if_session_ends_soon lk reason_lk now sign_in_offered ended_refuses sc au =
     (if sc_legacy sc then (None, au)
      else (case lookup lk (sc_session_id sc) au of
          (found, au) \<Rightarrow>
            (case lu_unchecked found of
               Some kind \<Rightarrow> (Some (SESSION_UNCHECKED kind), au)
             | None \<Rightarrow>
                 (case lu_session found of
                    None \<Rightarrow> ((if ended_refuses then Some (session_ended reason_lk (sc_session_id sc) au) else None), au)
                  | Some s \<Rightarrow>
                      if max_age_end s - now \<ge> LATE_RUN_REFUSAL then (None, au)
                      else (Some (SESSION_ENDS_SOON (ends_soon_message sign_in_offered s)), au)))))"

section \<open>Whose allowance a run is charged to\<close>

record spend_meter =
  sm_key :: uuid
  sm_shared_by_network :: bool

text \<open>\<open>key_of\<close> is \<open>network_spend_key\<close>: the keyed hash of the network's text.\<close>

definition anonymous_spend_text :: "auth_settings \<Rightarrow> address_lib \<Rightarrow> (uuid \<Rightarrow> string) \<Rightarrow> session_ctx \<Rightarrow> http_scope \<Rightarrow> string" where
  "anonymous_spend_text cfg al uuid_text sc hs =
     (let network = (case client_ip_of al hs of None \<Rightarrow> [] | Some n \<Rightarrow> n);
          network = (if al_is_network al network then network else [])
      in if as_spend_per_session cfg \<and> as_environment cfg = ENV_LOCAL
         then network @ '' session:'' @ uuid_text (sc_account_id sc) else network)"

definition anonymous_spend_key ::
  "auth_settings \<Rightarrow> address_lib \<Rightarrow> (uuid \<Rightarrow> string) \<Rightarrow> (string \<Rightarrow> uuid) \<Rightarrow> session_ctx \<Rightarrow> http_scope \<Rightarrow> uuid" where
  "anonymous_spend_key cfg al uuid_text key_of sc hs = key_of (anonymous_spend_text cfg al uuid_text sc hs)"

record spend_env =
  sv_look :: look_env
  sv_reason :: look_env
  sv_key_io :: bool
  sv_kind_io :: bool
  sv_now :: micros

definition spend_meter_for ::
  "auth_settings \<Rightarrow> address_lib \<Rightarrow> (uuid \<Rightarrow> string) \<Rightarrow> (string \<Rightarrow> uuid) \<Rightarrow> spend_env \<Rightarrow> session_ctx \<Rightarrow> http_scope \<Rightarrow> auth_state
   \<Rightarrow> (auth_error + spend_meter) \<times> auth_state" where
  "spend_meter_for cfg al uuid_text key_of sv sc hs au =
     (if sc_legacy sc then (Inr \<lparr>sm_key = sc_account_id sc, sm_shared_by_network = False\<rparr>, au)
      else (case refuse_sign_in_only sc of
          Some e \<Rightarrow> (Inl e, au)
        | None \<Rightarrow>
            (case lookup (sv_look sv) (sc_session_id sc) au of
               (found, au) \<Rightarrow>
                 (case (lu_unchecked found, lu_session found) of
                    (Some kind, _) \<Rightarrow> (Inl (SESSION_UNCHECKED kind), au)
                  | (None, None) \<Rightarrow> (Inl (session_ended (sv_reason sv) (sc_session_id sc) au), au)
                  | (None, Some s) \<Rightarrow>
                      let account = sc_account_id sc;
                          personal = (\<lambda>k. (Inr \<lparr>sm_key = k, sm_shared_by_network = False\<rparr>, au));
                          decide = (\<lambda>anonymous.
                            if account_is_going (sv_now sv) account (au_repo au) then (Inl SESSION_EXPIRED, au)
                            else (case anonymous of
                                None \<Rightarrow> (Inl SPEND_KEY_UNAVAILABLE, au)
                              | Some False \<Rightarrow> personal account
                              | Some True \<Rightarrow> (Inr \<lparr>sm_key = anonymous_spend_key cfg al uuid_text key_of sc hs,
                                                   sm_shared_by_network = True\<rparr>, au)))
                      in (case au_store au of
                            None \<Rightarrow> decide (Some True)
                          | Some sx \<Rightarrow>
                              (case stored_spend_key_for (sv_key_io sv) account sx of
                                 None \<Rightarrow> (Inl SPEND_KEY_UNAVAILABLE, au)
                               | Some key \<Rightarrow>
                                   if key \<noteq> account then personal key
                                   else decide (if sx_accounts_ready sx then is_anonymous (sv_kind_io sv) account sx
                                                else has_no_account_row (sv_kind_io sv) account sx)))))))"

section \<open>The session garbage collector\<close>

definition HISTORY_SWEEP_INTERVAL_S :: rat where "HISTORY_SWEEP_INTERVAL_S = 3600"

text \<open>One tick: purge, readiness, and the history sweep once an hour. The state is the last sweep's monotonic time.\<close>

definition gc_tick :: "bool \<Rightarrow> bool \<times> bool \<Rightarrow> bool \<Rightarrow> nat \<Rightarrow> nat \<Rightarrow> micros \<Rightarrow> rat \<Rightarrow> rat \<times> auth_state \<Rightarrow> rat \<times> auth_state" where
  "gc_tick io schema sweep_io keep_count keep_days now monotonic st =
     (let (last_run, au) = st;
          au = purge_expired_sessions now io au;
          au = au\<lparr>au_store := map_option (refresh_readiness schema) (au_store au)\<rparr>
      in if monotonic - last_run < HISTORY_SWEEP_INTERVAL_S then (last_run, au)
         else (monotonic, au\<lparr>au_store := map_option (\<lambda>sx. snd (sweep_history sweep_io keep_count keep_days now sx)) (au_store au)\<rparr>))"

section \<open>The refusal line\<close>

text \<open>\<open>_UncheckedRefusals\<close>: the refusals since the last log line, at most one line a minute.\<close>

record unchecked_refusals =
  ur_last_line :: "rat option"
  ur_not_ready :: nat
  ur_not_read :: nat

definition take_line :: "rat \<Rightarrow> unchecked_refusals \<Rightarrow> (nat \<times> nat) option \<times> unchecked_refusals" where
  "take_line now ur =
     (let due = (case ur_last_line ur of None \<Rightarrow> True | Some t \<Rightarrow> now - t \<ge> 60) in
      if \<not> due \<or> (ur_not_ready ur = 0 \<and> ur_not_read ur = 0) then (None, ur)
      else (Some (ur_not_ready ur, ur_not_read ur), \<lparr>ur_last_line = Some now, ur_not_ready = 0, ur_not_read = 0\<rparr>))"

definition note_refusal :: "rat \<Rightarrow> bool \<Rightarrow> unchecked_refusals \<Rightarrow> (nat \<times> nat) option \<times> unchecked_refusals" where
  "note_refusal now not_ready ur =
     take_line now (if not_ready then ur\<lparr>ur_not_ready := ur_not_ready ur + 1\<rparr> else ur\<lparr>ur_not_read := ur_not_read ur + 1\<rparr>)"

definition flush_refusals :: "rat \<Rightarrow> unchecked_refusals \<Rightarrow> (nat \<times> nat) option \<times> unchecked_refusals" where
  "flush_refusals now ur = take_line now ur"

end
