(* ===== verification/Accounts.thy ===== *)
theory Accounts
  imports Auth_Requests Run_State
begin

text \<open>
  Accounts beyond their sessions: the signed-in history with the links that carry an anonymous session's runs over
  (\<^verbatim>\<open>account_history.py\<close>), the run-history rows (\<^verbatim>\<open>run_history_store.py\<close>), deleting an account
  (\<^verbatim>\<open>account_deletion.py\<close>) and ending sessions from the operator's shell (\<^verbatim>\<open>end_sessions.py\<close>).
  JSON columns are strings here; \<open>casefold\<close> is \<^verbatim>\<open>str.casefold\<close>.
\<close>

section \<open>Run history\<close>

record run_history_row =
  rh_query_run_id :: string
  rh_account_id :: "string option"
  rh_correlation_id :: string
  rh_status :: string
  rh_created_at :: micros
  rh_completed_at :: micros
  rh_elapsed_time_ms :: nat
  rh_model_ids :: "string list"
  rh_demo_mode :: bool
  rh_live_count :: nat
  rh_local_count :: nat
  rh_material_claim_count :: nat
  rh_agreement_aligned :: nat
  rh_agreement_total :: nat
  rh_citation_ratio :: "rat option"
  rh_cost_source :: string
  rh_estimated_cost_usd :: usd
  rh_actual_cost_usd :: usd
  rh_failed_steps :: "string list"
  rh_missing_steps :: "string list"
  rh_eval_json :: "string option"
  rh_trust_json :: "string option"
  rh_mode :: string

type_synonym run_history = "(string, run_history_row) dict"

text \<open>The upsert of a terminal run leaves the evaluation columns of a row that is already there.\<close>

definition record_terminal_row :: "run_history_row \<Rightarrow> run_history \<Rightarrow> run_history" where
  "record_terminal_row row rows =
     (case map_of rows (rh_query_run_id row) of
        None \<Rightarrow> AList.update (rh_query_run_id row) row rows
      | Some old \<Rightarrow> AList.update (rh_query_run_id row)
          (row\<lparr>rh_eval_json := rh_eval_json old, rh_trust_json := rh_trust_json old\<rparr>) rows)"

definition update_evaluation :: "string \<Rightarrow> string option \<Rightarrow> string option \<Rightarrow> run_history \<Rightarrow> run_history" where
  "update_evaluation rid eval trust rows = dict_adjust rid (\<lambda>r. r\<lparr>rh_eval_json := eval, rh_trust_json := trust\<rparr>) rows"

definition fill_layer_a_evaluation_if_absent :: "string \<Rightarrow> string option \<Rightarrow> run_history \<Rightarrow> run_history" where
  "fill_layer_a_evaluation_if_absent rid eval rows =
     dict_adjust rid (\<lambda>r. if rh_eval_json r = None then r\<lparr>rh_eval_json := eval\<rparr> else r) rows"

definition get_run_row :: "string \<Rightarrow> run_history \<Rightarrow> run_history_row option" where
  "get_run_row rid rows = map_of rows rid"

text \<open>Newest first, the id breaking ties; text ids are compared as SQLite does, by \<open>ord_of\<close>.\<close>

definition iter_runs ::
  "(string \<Rightarrow> nat) \<Rightarrow> micros option \<Rightarrow> string option \<Rightarrow> nat option \<Rightarrow> run_history \<Rightarrow> run_history_row list" where
  "iter_runs ord_of since account limit rows =
     (let found = filter (\<lambda>r. (case since of None \<Rightarrow> True | Some t \<Rightarrow> t \<le> rh_completed_at r)
                            \<and> (account = None \<or> rh_account_id r = account)) (map snd rows);
          sorted = rev (sort_key (\<lambda>r. (rh_completed_at r, ord_of (rh_query_run_id r))) found)
      in (case limit of None \<Rightarrow> sorted | Some n \<Rightarrow> take n sorted))"

definition forget_run_account :: "string \<Rightarrow> run_history \<Rightarrow> nat \<times> run_history" where
  "forget_run_account account rows =
     (length (filter (\<lambda>(k, r). rh_account_id r = Some account) rows),
      map (\<lambda>(k, r). (k, if rh_account_id r = Some account then r\<lparr>rh_account_id := None\<rparr> else r)) rows)"

definition run_count :: "run_history \<Rightarrow> nat" where "run_count rows = length rows"

section \<open>The signed-in history\<close>

text \<open>\<open>_carried\<close>: from an anonymous account to the account its runs join, and until when.\<close>

type_synonym carried = "(uuid, uuid \<times> micros) dict"

record account_state =
  acs_auth :: auth_state
  acs_carried :: carried
  acs_runs :: run_repo
  acs_run_history :: "run_history option"

record history_env =
  he_now :: micros
  he_account_io :: bool
  he_kind_io :: bool
  he_write_io :: bool
  he_keep_count :: nat
  he_keep_days :: nat
  he_link_lifetime :: micros     \<comment> \<open>\<open>_link_lifetime()\<close>: the longer of the active TTL and the run deadline\<close>

definition history_owner :: "history_env \<Rightarrow> uuid \<Rightarrow> session_store option \<Rightarrow> carried \<Rightarrow> uuid option \<times> carried" where
  "history_owner he account store links =
     (if (case store of None \<Rightarrow> False | Some sx \<Rightarrow> account_for (he_account_io he) account sx \<noteq> None) then (Some account, links)
      else (case map_of links account of
          None \<Rightarrow> (None, links)
        | Some (target, until) \<Rightarrow> if until < he_now he then (None, AList.delete account links) else (Some target, links)))"

definition run_status_value :: "run_status \<Rightarrow> string" where
  "run_status_value st = (case st of
     DRAFT \<Rightarrow> ''draft'' | COST_REVIEW \<Rightarrow> ''cost_review'' | ACCEPTED \<Rightarrow> ''accepted''
   | INITIAL_ANSWERS_RUNNING \<Rightarrow> ''initial_answers_running'' | DEBATE_ROUND_1_RUNNING \<Rightarrow> ''debate_round_1_running''
   | DEBATE_ROUND_2_RUNNING \<Rightarrow> ''debate_round_2_running'' | SYNTHESIS_RUNNING \<Rightarrow> ''synthesis_running''
   | COMPLETED \<Rightarrow> ''completed'' | PARTIAL \<Rightarrow> ''partial'' | FAILED \<Rightarrow> ''failed'' | TIMED_OUT \<Rightarrow> ''timed_out''
   | BLOCKED_BY_COST \<Rightarrow> ''blocked_by_cost'' | CANCELLED \<Rightarrow> ''cancelled'')"

definition history_entry_of :: "query_run \<Rightarrow> uuid \<Rightarrow> history_entry" where
  "history_entry_of r owner =
     \<lparr>hy_query_run_id = qr_query_run_id r, hy_account_id = owner, hy_question = qr_query_text r,
      hy_status = run_status_value (qr_status r), hy_mode = (case qr_mode r of MODE_PANEL \<Rightarrow> ''panel'' | MODE_QUICK \<Rightarrow> ''quick''),
      hy_model_count = length (qr_model_slots r), hy_cost_usd = ce_estimated_cost_usd (qr_cost_estimate r),
      hy_completed_at = qr_updated_at r, hy_verdict = qr_history_verdict r\<rparr>"

definition write_history :: "history_env \<Rightarrow> history_entry \<Rightarrow> session_store option \<Rightarrow> session_store option" where
  "write_history he e store =
     map_option (\<lambda>sx. snd (record_history (he_write_io he) e (he_keep_count he) (he_keep_days he) (he_now he) sx)) store"

definition put_store :: "session_store option \<Rightarrow> account_state \<Rightarrow> account_state" where
  "put_store sx acs = acs\<lparr>acs_auth := acs_auth acs\<lparr>au_store := sx\<rparr>\<rparr>"

definition record_finished_run :: "history_env \<Rightarrow> query_run \<Rightarrow> account_state \<Rightarrow> account_state" where
  "record_finished_run he r acs =
     (if \<not> is_terminal r then acs
      else
        let store = au_store (acs_auth acs);
            (owner, links) = history_owner he (qr_account_id r) store (acs_carried acs);
            acs = acs\<lparr>acs_carried := links\<rparr>
        in (case owner of None \<Rightarrow> acs
            | Some owner \<Rightarrow> put_store (write_history he (history_entry_of r owner) store) acs))"

definition carry_over :: "history_env \<Rightarrow> uuid \<Rightarrow> uuid \<Rightarrow> account_state \<Rightarrow> account_state" where
  "carry_over he anonymous account acs =
     (let store = au_store (acs_auth acs) in
      if (case store of None \<Rightarrow> True | Some sx \<Rightarrow> is_anonymous (he_kind_io he) anonymous sx \<noteq> Some True) then acs
      else if account_is_going (he_now he) anonymous (au_repo (acs_auth acs)) then acs
      else
        let acs = acs\<lparr>acs_carried := AList.update anonymous (account, he_now he + he_link_lifetime he) (acs_carried acs)\<rparr>;
            (runs, repo) = terminal_runs_for_account (he_now he) anonymous (acs_runs acs);
            store = foldl (\<lambda>store r. write_history he (history_entry_of r account) store) store runs
        in put_store store (acs\<lparr>acs_runs := repo\<rparr>))"

definition account_history_for :: "history_env \<Rightarrow> uuid \<Rightarrow> account_state \<Rightarrow> history_entry list option" where
  "account_history_for he account acs =
     (case au_store (acs_auth acs) of
        None \<Rightarrow> None | Some sx \<Rightarrow> history_for (he_write_io he) account (he_keep_count he) (he_keep_days he) (he_now he) sx)"

definition forget_account :: "uuid \<Rightarrow> carried \<Rightarrow> carried" where
  "forget_account account links = filter (\<lambda>(a, target, until). \<not> (a = account \<or> target = account)) links"

section \<open>Deleting an account\<close>

definition RECENT_SIGN_IN_FOR_DELETION :: micros where "RECENT_SIGN_IN_FOR_DELETION = 10 * 60 * 1000000"

definition recent_sign_in_seconds_left_of :: "micros \<Rightarrow> session \<Rightarrow> int" where
  "recent_sign_in_seconds_left_of now s = max 0 (whole_seconds (se_created_at s + RECENT_SIGN_IN_FOR_DELETION - now))"

definition recent_sign_in_seconds_left :: "look_env \<Rightarrow> micros \<Rightarrow> string \<Rightarrow> auth_state \<Rightarrow> int \<times> auth_state" where
  "recent_sign_in_seconds_left lk now sid au =
     (case lookup lk sid au of (found, au) \<Rightarrow>
        (case lu_session found of None \<Rightarrow> 0 | Some s \<Rightarrow> recent_sign_in_seconds_left_of now s, au))"

text \<open>The run-history rows are forgotten at best effort: a failure (\<open>history_io\<close> false) is logged and leaves them.\<close>

definition forget_run_history :: "bool \<Rightarrow> string \<Rightarrow> run_history option \<Rightarrow> run_history option" where
  "forget_run_history history_io account store =
     (case store of
        None \<Rightarrow> None
      | Some rows \<Rightarrow> if history_io then Some (snd (forget_run_account account rows)) else Some rows)"

text \<open>\<open>delete_io\<close> and \<open>rows_io\<close> say whether the two deletes reach the store, \<open>uuid_text\<close> is \<^verbatim>\<open>str\<close> of a UUID.\<close>

definition delete_account ::
  "(string \<Rightarrow> uuid) \<Rightarrow> (uuid \<Rightarrow> string) \<Rightarrow> bool \<Rightarrow> bool \<Rightarrow> bool \<Rightarrow> micros \<Rightarrow> uuid \<Rightarrow> account_state \<Rightarrow> bool \<times> account_state" where
  "delete_account subject uuid_text delete_io rows_io history_io now account acs =
     (let repo = (\<lambda>f acs. acs\<lparr>acs_auth := acs_auth acs\<lparr>au_repo := f (au_repo (acs_auth acs))\<rparr>\<rparr>);
          acs = repo (begin_deletion account) acs
      in (case au_store (acs_auth acs) of
            None \<Rightarrow> (False, repo (end_deletion account) acs)
          | Some sx \<Rightarrow>
              (case delete_account_rows subject delete_io now account sx of
                 (False, sx) \<Rightarrow> (False, repo (end_deletion account) (put_store (Some sx) acs))
               | (True, sx) \<Rightarrow>
                   let acs = repo (revoke_account now account) (put_store (Some sx) acs);
                       acs = put_store (Some (snd (delete_sessions_of rows_io account sx))) acs;
                       acs = acs\<lparr>acs_carried := forget_account account (acs_carried acs),
                                 acs_run_history := forget_run_history history_io (uuid_text account) (acs_run_history acs)\<rparr>
                   in (True, repo (end_deletion account) acs))))"

datatype deletion_refusal =
    DeletionAuth auth_error | DeletionCsrfRaises
  | NOT_SIGNED_IN | RECENT_SIGN_IN_REQUIRED | CONFIRMATION_MISMATCH | DELETION_FAILED

record deletion_env =
  de_issue :: issue_env
  de_reason :: look_env
  de_account_io :: bool
  de_delete_io :: bool
  de_rows_io :: bool
  de_history_io :: bool
  de_now :: micros

definition delete_signed_in_account ::
  "auth_settings \<Rightarrow> (string \<Rightarrow> string) \<Rightarrow> (string \<Rightarrow> uuid option) \<Rightarrow> (uuid \<Rightarrow> string) \<Rightarrow> (string \<Rightarrow> uuid) \<Rightarrow> (uuid \<Rightarrow> string)
   \<Rightarrow> deletion_env \<Rightarrow> auth_request \<Rightarrow> string \<Rightarrow> account_state \<Rightarrow> (deletion_refusal + unit) \<times> account_state" where
  "delete_signed_in_account cfg casefold parse_uuid legacy_id subject uuid_text de rq confirm acs =
     (case require_session cfg parse_uuid legacy_id (de_issue de) (de_reason de) rq (acs_auth acs) of
        (Inl e, au) \<Rightarrow> (Inl (DeletionAuth e), acs\<lparr>acs_auth := au\<rparr>)
      | (Inr sc, au) \<Rightarrow>
          let acs = acs\<lparr>acs_auth := au\<rparr> in
          (case enforce_csrf cfg rq sc of
             CSRF_REFUSED e \<Rightarrow> (Inl (DeletionAuth e), acs)
           | CSRF_RAISES \<Rightarrow> (Inl DeletionCsrfRaises, acs)
           | CSRF_OK \<Rightarrow>
               (case (if sc_legacy sc then None
                      else case au_store au of None \<Rightarrow> None | Some sx \<Rightarrow> account_for (de_account_io de) (sc_account_id sc) sx) of
                  None \<Rightarrow> (Inl NOT_SIGNED_IN, acs)
                | Some (account, email) \<Rightarrow>
                    if (case sc_created_at sc of None \<Rightarrow> True | Some started \<Rightarrow> de_now de - started > RECENT_SIGN_IN_FOR_DELETION)
                    then (Inl RECENT_SIGN_IN_REQUIRED, acs)
                    else if casefold (strip confirm) \<noteq> casefold (strip email) then (Inl CONFIRMATION_MISMATCH, acs)
                    else (case delete_account subject uuid_text (de_delete_io de) (de_rows_io de) (de_history_io de) (de_now de) account acs of
                        (False, acs) \<Rightarrow> (Inl DELETION_FAILED, acs)
                      | (True, acs) \<Rightarrow> (Inr (), acs)))))"

section \<open>Ending sessions from the shell\<close>

datatype end_target = EndAll | EndEmail string

text \<open>How the run of the command goes: whether each transaction commits, and what other processes do to the store
  between the two.\<close>

record shell_env =
  sh_first_io :: bool
  sh_second_io :: bool
  sh_between :: "session_store \<Rightarrow> session_store"

text \<open>Raise the cutoff of the matched accounts and delete their covered rows.\<close>

definition raise_cutoffs :: "uuid list \<Rightarrow> micros \<Rightarrow> session_store \<Rightarrow> session_store" where
  "raise_cutoffs accounts cutoff sx =
     sx\<lparr>sx_accounts := map (\<lambda>(k, a). (k, if k \<in> set accounts then a\<lparr>ac_valid_after :=
           Some (case ac_valid_after a of None \<Rightarrow> cutoff | Some c \<Rightarrow> max c cutoff)\<rparr> else a)) (sx_accounts sx)\<rparr>"

definition delete_covered :: "uuid list \<Rightarrow> micros \<Rightarrow> session_store \<Rightarrow> nat \<times> session_store" where
  "delete_covered accounts cutoff sx =
     (let covered = (\<lambda>(k, s). sd_created_at s \<le> cutoff \<and> sd_account_id s \<in> set accounts)
      in (length (filter covered (sx_sessions sx)), sx\<lparr>sx_sessions := filter (\<lambda>e. \<not> covered e) (sx_sessions sx)\<rparr>))"

definition matched_accounts :: "(string \<Rightarrow> string) \<Rightarrow> end_target \<Rightarrow> session_store \<Rightarrow> uuid list" where
  "matched_accounts casefold target sx =
     (case target of
        EndAll \<Rightarrow> map fst (sx_accounts sx)
      | EndEmail wanted \<Rightarrow> map fst (filter (\<lambda>(k, a). casefold (strip (ac_email a)) = wanted) (sx_accounts sx)))"

text \<open>The read-back: the rows put back (deleted again) and the accounts with a lower cutoff; with \<open>EndAll\<close> the second
  delete takes every account there is by then.\<close>

definition end_read_back ::
  "bool \<Rightarrow> end_target \<Rightarrow> uuid list \<Rightarrow> micros \<Rightarrow> session_store \<Rightarrow> (nat \<times> nat) option \<times> session_store" where
  "end_read_back io target matched cutoff sx =
     (if \<not> io then (None, sx)
      else
        let (found, sx') = delete_covered (if target = EndAll then map fst (sx_accounts sx) else matched) cutoff sx;
            below = length (filter (\<lambda>k. case map_of (sx_accounts sx) k of None \<Rightarrow> False
                | Some a \<Rightarrow> (case ac_valid_after a of None \<Rightarrow> True | Some c \<Rightarrow> c < cutoff)) matched)
        in (Some (found, below), sx'))"

text \<open>The exit code. The schema marker is \<open>sx_safety_ready\<close> of the file.\<close>

definition end_from_shell :: "(string \<Rightarrow> string) \<Rightarrow> shell_env \<Rightarrow> end_target \<Rightarrow> micros \<Rightarrow> session_store \<Rightarrow> nat \<times> session_store" where
  "end_from_shell casefold sh target cutoff sx =
     (if \<not> sx_safety_ready sx then (3, sx)
      else
        let matched = matched_accounts casefold target sx in
        if \<not> sh_first_io sh then (3, sx)
        else if matched = [] then (1, sx)
        else
          let sx = snd (delete_covered matched cutoff (raise_cutoffs matched cutoff sx));
              (back, sx) = end_read_back (sh_second_io sh) target matched cutoff (sh_between sh sx)
          in (case back of
                Some (found, below) \<Rightarrow> if found \<noteq> 0 \<or> below \<noteq> 0 then (4, sx) else (0, sx)
              | None \<Rightarrow> (4, sx)))"

text \<open>The command line: exactly one \<^verbatim>\<open>--email\<close> with one \<^verbatim>\<open>@\<close>, or \<^verbatim>\<open>--all\<close>.\<close>

definition wanted_email :: "(string \<Rightarrow> string) \<Rightarrow> string list \<Rightarrow> string option" where
  "wanted_email casefold emails =
     (case emails of
        [] \<Rightarrow> None
      | e # rest \<Rightarrow> let wanted = casefold (strip e) in
          if rest \<noteq> [] \<or> length (filter (\<lambda>c. c = CHR ''@'') wanted) \<noteq> 1 then None else Some wanted)"

end
