(* ===== verification/Session_Laws.thy ===== *)
theory Session_Laws
  imports Sessions
begin

text \<open>
  What the session repository guarantees, over any interleaving of its locked sections: an ended session never
  authenticates again, a signed-in session is only ever served once its account's cutoff has been read, and a
  session survives a restart as it was stored.
\<close>

section \<open>Locked sections as steps\<close>

text \<open>A lookup that restores is two steps: other requests may run between its reads and its commit.\<close>

datatype auth_op =
    ACreate micros bool string string uuid micros bool micros
  | AUse micros bool "string option" session
  | ARevoke micros bool string
  | APurge micros bool
  | ALookupStart micros
  | ACheckCached look_env session
  | ARestoreRead look_env string
  | ARestoreCommit micros nat
  | AEndSessions micros uuid micros
  | ARevokeAccount micros uuid
  | AFlush micros bool session
  | AStore micros "session_store \<Rightarrow> session_store"

definition with_repo :: "(session_repo \<Rightarrow> session_repo) \<Rightarrow> auth_state \<Rightarrow> auth_state" where
  "with_repo f au = au\<lparr>au_repo := f (au_repo au)\<rparr>"

text \<open>The answer is the session a use authenticates.\<close>

fun auth_step :: "auth_op \<Rightarrow> auth_state \<Rightarrow> session option \<times> auth_state" where
  "auth_step (ACreate now io sid csrf account idle only max_age) au =
     (None, snd (create_session now io sid csrf account idle only max_age au))"
| "auth_step (AUse now io csrf s) au = use_session now io csrf s au"
| "auth_step (ARevoke now io sid) au = (None, revoke now io sid au)"
| "auth_step (APurge now io) au = (None, purge_expired_sessions now io au)"
| "auth_step (ALookupStart now) au = (None, with_repo (\<lambda>sr. snd (purge_cached now sr)) au)"
| "auth_step (ACheckCached lk s) au = (None, snd (check_cached lk s au))"
| "auth_step (ARestoreRead lk sid) au =
     (case restore_read lk sid au of
        (Inl _, au) \<Rightarrow> (None, au) | (Inr s, au) \<Rightarrow> (None, au\<lparr>au_restoring := au_restoring au @ [s]\<rparr>))"
| "auth_step (ARestoreCommit now n) au =
     (if n < length (au_restoring au) then (None, snd (restore_commit now (au_restoring au ! n) au)) else (None, au))"
| "auth_step (AEndSessions now account cutoff) au = (None, with_repo (end_sessions_of now account cutoff) au)"
| "auth_step (ARevokeAccount now account) au = (None, with_repo (revoke_account now account) au)"
| "auth_step (AFlush now io s) au = (None, flush_session io s au)"
| "auth_step (AStore now f) au = (None, au\<lparr>au_store := map_option f (au_store au)\<rparr>)"

fun op_time :: "auth_op \<Rightarrow> micros" where
  "op_time (ACreate now io sid csrf account idle only max_age) = now"
| "op_time (AUse now io csrf s) = now"
| "op_time (ARevoke now io sid) = now"
| "op_time (APurge now io) = now"
| "op_time (ALookupStart now) = now"
| "op_time (ACheckCached lk s) = lk_now lk"
| "op_time (ARestoreRead lk sid) = lk_now lk"
| "op_time (ARestoreCommit now n) = now"
| "op_time (AEndSessions now account cutoff) = now"
| "op_time (ARevokeAccount now account) = now"
| "op_time (AFlush now io s) = now"
| "op_time (AStore now f) = now"

text \<open>Store methods that only remove session rows (another process's deletes and cutoffs included).\<close>

definition removes_sessions :: "(session_store \<Rightarrow> session_store) \<Rightarrow> bool" where
  "removes_sessions f = (\<forall>sx. set (sx_sessions (f sx)) \<subseteq> set (sx_sessions sx) \<and>
     (dict_ok (sx_sessions sx) \<longrightarrow> dict_ok (sx_sessions (f sx))))"

text \<open>Random ids are new, a created session lasts a day at most, and a caller's object is one it was handed.\<close>

fun op_fair :: "string \<Rightarrow> auth_op \<Rightarrow> bool" where
  "op_fair sid (ACreate now io new csrf account idle only max_age) = (new \<noteq> sid \<and> max_age \<le> ANONYMOUS_MAX_AGE)"
| "op_fair sid (AStore now f) = removes_sessions f"
| "op_fair sid _ = True"

fun clocked :: "micros \<Rightarrow> auth_op list \<Rightarrow> bool" where
  "clocked now [] = True"
| "clocked now (x # xs) = (now \<le> op_time x \<and> clocked (op_time x) xs)"

fun auth_run :: "auth_state \<Rightarrow> auth_op list \<Rightarrow> (auth_op \<times> session option) list" where
  "auth_run au [] = []"
| "auth_run au (x # xs) = (x, fst (auth_step x au)) # auth_run (snd (auth_step x au)) xs"

section \<open>The invariant\<close>

definition stored_rows :: "auth_state \<Rightarrow> (string, stored_session) dict" where
  "stored_rows au = (case au_store au of None \<Rightarrow> [] | Some sx \<Rightarrow> sx_sessions sx)"

definition auth_ok :: "micros \<Rightarrow> auth_state \<Rightarrow> bool" where
  "auth_ok now au =
     ((\<forall>k s. map_of (sr_sessions (au_repo au)) k = Some s \<longrightarrow>
         se_session_id s = k \<and> se_created_at s \<le> now \<and> se_max_age s \<le> ANONYMOUS_MAX_AGE)
      \<and> dict_ok (stored_rows au)
      \<and> (\<forall>(k, r) \<in> set (stored_rows au). sd_session_id r = k \<and> sd_created_at r \<le> now)
      \<and> (\<forall>s \<in> set (au_restoring au). se_created_at s \<le> now \<and> se_max_age s \<le> ANONYMOUS_MAX_AGE))"

text \<open>What keeps a row or a read session of that id out: too old by now, or its id ended after it was made.\<close>

definition shut :: "string \<Rightarrow> micros \<Rightarrow> session_repo \<Rightarrow> micros \<Rightarrow> bool" where
  "shut sid now sr created =
     (created < now - ANONYMOUS_MAX_AGE
      \<or> (\<exists>t \<ge> created. map_of (sr_ended_ids sr) sid = Some t \<or> map_of (sr_signed_out_ids sr) sid = Some t))"

definition barred :: "string \<Rightarrow> micros \<Rightarrow> auth_state \<Rightarrow> bool" where
  "barred sid now au =
     ((\<forall>s. map_of (sr_sessions (au_repo au)) sid = Some s \<longrightarrow> se_created_at s < now - ANONYMOUS_MAX_AGE)
      \<and> (\<forall>r. (sid, r) \<in> set (stored_rows au) \<longrightarrow> shut sid now (au_repo au) (sd_created_at r))
      \<and> (\<forall>s \<in> set (au_restoring au). se_session_id s = sid \<longrightarrow> shut sid now (au_repo au) (se_created_at s)))"

text \<open>Ending only drops cached sessions and only adds ended ids.\<close>

definition ends_only :: "micros \<Rightarrow> session_repo \<Rightarrow> session_repo \<Rightarrow> bool" where
  "ends_only now sr sr' =
     ((\<forall>k s. map_of (sr_sessions sr') k = Some s \<longrightarrow> map_of (sr_sessions sr) k = Some s)
      \<and> (\<forall>k. map_of (sr_ended_ids sr') k \<in> {map_of (sr_ended_ids sr) k, Some now})
      \<and> (\<forall>k. map_of (sr_signed_out_ids sr') k \<in> {map_of (sr_signed_out_ids sr) k, Some now}))"

lemma ends_only_refl: "ends_only now sr sr"
  by (simp add: ends_only_def)

lemma ends_only_trans: "ends_only now a b \<Longrightarrow> ends_only now b c \<Longrightarrow> ends_only now a c"
  unfolding ends_only_def by (metis insert_iff singletonD)

lemma ends_only_foldl: "(\<And>x sr. ends_only now sr (f sr x)) \<Longrightarrow> ends_only now sr (foldl f sr xs)"
  by (induction xs arbitrary: sr) (auto intro: ends_only_refl ends_only_trans)

lemma ends_only_steps:
  "ends_only now sr (drop_session sid sr)" "ends_only now sr (record_ended s now sr)"
  "ends_only now sr (drop_ended now s sr)"
  by (auto simp: ends_only_def drop_session_def record_ended_def drop_ended_def Let_def split: if_splits)

lemma ends_only_listed: "ends_only now sr (end_listed now P sr)"
  unfolding end_listed_def by (rule ends_only_foldl) (rule ends_only_trans; rule ends_only_steps)

lemma ends_only_fields:
  "sr_sessions sr' = sr_sessions sr \<Longrightarrow> sr_ended_ids sr' = sr_ended_ids sr \<Longrightarrow> sr_signed_out_ids sr' = sr_signed_out_ids sr \<Longrightarrow>
   ends_only now sr sr'"
  by (simp add: ends_only_def)

lemma ends_only_purge: "ends_only now sr (snd (purge_cached now sr))"
proof -
  let ?sr = "foldl (\<lambda>sr s. drop_ended now s sr) sr (filter (is_expired now) (map snd (sr_sessions sr)))"
  have "ends_only now sr ?sr" by (rule ends_only_foldl) (rule ends_only_steps)
  moreover have "ends_only now ?sr (snd (purge_cached now sr))"
    by (rule ends_only_fields) (simp_all add: purge_cached_def Let_def)
  ultimately show ?thesis by (rule ends_only_trans)
qed

lemma ends_only_end_sessions: "ends_only now sr (end_sessions_of now account cutoff sr)"
  unfolding end_sessions_of_def Let_def by (rule ends_only_trans[OF ends_only_fields ends_only_listed]) simp_all

lemma ends_only_revoke_account: "ends_only now sr (revoke_account now account sr)"
  unfolding revoke_account_def by (rule ends_only_trans[OF ends_only_fields ends_only_listed]) simp_all

lemmas ends_only_intros = ends_only_refl ends_only_steps ends_only_purge ends_only_end_sessions ends_only_revoke_account

lemma shut_ends:
  "ends_only now sr sr' \<Longrightarrow> shut sid now sr created \<Longrightarrow> created \<le> now \<Longrightarrow> shut sid now sr' created"
  unfolding shut_def ends_only_def by (metis insertE singletonD)

lemma shut_later: "shut sid now sr created \<Longrightarrow> now \<le> now' \<Longrightarrow> shut sid now' sr created"
  by (auto simp: shut_def)

lemma shut_cong:
  "sr_ended_ids sr' = sr_ended_ids sr \<Longrightarrow> sr_signed_out_ids sr' = sr_signed_out_ids sr \<Longrightarrow>
   shut sid now sr' created = shut sid now sr created"
  by (simp add: shut_def)

lemma auth_ok_later: "auth_ok now au \<Longrightarrow> now \<le> now' \<Longrightarrow> auth_ok now' au"
  unfolding auth_ok_def by fastforce

lemma barred_later: "barred sid now au \<Longrightarrow> now \<le> now' \<Longrightarrow> barred sid now' au"
  unfolding barred_def by (fastforce dest: shut_later)

text \<open>A step that only ends sessions in the cache.\<close>

lemma ends_keeps:
  assumes "auth_ok now au" and "ends_only now (au_repo au) sr"
  shows "auth_ok now (au\<lparr>au_repo := sr\<rparr>)" and "barred sid now au \<Longrightarrow> barred sid now (au\<lparr>au_repo := sr\<rparr>)"
proof -
  show "auth_ok now (au\<lparr>au_repo := sr\<rparr>)"
    using assms by (auto simp: auth_ok_def ends_only_def stored_rows_def)
  assume b: "barred sid now au"
  have rows: "stored_rows (au\<lparr>au_repo := sr\<rparr>) = stored_rows au" by (simp add: stored_rows_def)
  have "shut sid now sr (sd_created_at r)" if "(sid, r) \<in> set (stored_rows au)" for r
    using b assms that by (intro shut_ends[OF assms(2)]) (auto simp: barred_def auth_ok_def)
  moreover have "shut sid now sr (se_created_at s)" if "s \<in> set (au_restoring au)" "se_session_id s = sid" for s
    using b assms that by (intro shut_ends[OF assms(2)]) (auto simp: barred_def auth_ok_def)
  ultimately show "barred sid now (au\<lparr>au_repo := sr\<rparr>)"
    using b assms(2) unfolding barred_def rows ends_only_def by auto
qed

text \<open>A step that only removes rows of the store.\<close>

lemma removal_keeps:
  assumes "auth_ok now au" and "removes_sessions f"
  shows "auth_ok now (au\<lparr>au_store := map_option f (au_store au)\<rparr>)"
    and "barred sid now au \<Longrightarrow> barred sid now (au\<lparr>au_store := map_option f (au_store au)\<rparr>)"
proof -
  have sub: "set (stored_rows (au\<lparr>au_store := map_option f (au_store au)\<rparr>)) \<subseteq> set (stored_rows au)"
    "dict_ok (stored_rows (au\<lparr>au_store := map_option f (au_store au)\<rparr>))"
    using assms by (auto simp: removes_sessions_def stored_rows_def auth_ok_def split: option.split)
  then show "auth_ok now (au\<lparr>au_store := map_option f (au_store au)\<rparr>)"
    using assms(1) by (auto simp: auth_ok_def)
  show "barred sid now au \<Longrightarrow> barred sid now (au\<lparr>au_store := map_option f (au_store au)\<rparr>)"
    using sub(1) by (auto simp: barred_def)
qed

lemma removals [simp]:
  "removes_sessions (\<lambda>sx. snd (delete_session io sid sx))" "removes_sessions (\<lambda>sx. snd (delete_sessions_of io account sx))"
  "removes_sessions (\<lambda>sx. snd (purge_stored io now c cc sx))" "removes_sessions (\<lambda>sx. snd (end_sessions_before io account cutoff sx))"
  "removes_sessions (\<lambda>sx. snd (delete_account_rows subject io now account sx))"
  by (auto simp: removes_sessions_def delete_session_def delete_sessions_of_def purge_stored_def end_sessions_before_def
      delete_account_rows_def carry_spend_key_def Let_def dict_ok_filter split: option.split)

text \<open>A step that rewrites a cached session in place, and may write it through.\<close>

lemma save_rows:
  "sx_sessions (snd (save_session io s sx)) = sx_sessions sx
   \<or> sx_sessions (snd (save_session io s sx)) = AList.update (sd_session_id s) s (sx_sessions sx)"
  by (simp add: save_session_def write_session_def split: option.split)

lemma set_update_dict: "dict_ok d \<Longrightarrow> (j, v) \<in> set (AList.update k x d) \<longleftrightarrow> (if j = k then v = x else (j, v) \<in> set d)"
  using in_set_iff_map_of[of d j v] in_set_iff_map_of[of "AList.update k x d" j v] dict_ok_update[of d k x] by auto

lemma rewrite_keeps:
  assumes "auth_ok now au" and "map_of (sr_sessions (au_repo au)) k = Some c"
    and "se_session_id c' = k" "se_created_at c' = se_created_at c" "se_max_age c' = se_max_age c"
    and "au_repo au' = (au_repo au)\<lparr>sr_sessions := AList.update k c' (sr_sessions (au_repo au))\<rparr>"
    and "au_restoring au' = au_restoring au"
    and "stored_rows au' = stored_rows au \<or> stored_rows au' = AList.update k (to_stored c') (stored_rows au)"
  shows "auth_ok now au'" and "barred sid now au \<Longrightarrow> barred sid now au'"
proof -
  have ok: "dict_ok (stored_rows au)" using assms(1) by (simp add: auth_ok_def)
  have c: "se_session_id c = k" "se_created_at c \<le> now" "se_max_age c \<le> ANONYMOUS_MAX_AGE"
    using assms(1,2) by (auto simp: auth_ok_def)
  have row: "sd_session_id (to_stored c') = k" "sd_created_at (to_stored c') = se_created_at c"
    using assms(3,4) by (simp_all add: to_stored_def)
  have rows: "dict_ok (stored_rows au')" using assms(8) ok dict_ok_update by auto
  show "auth_ok now au'"
    using assms(1,3-7) assms(8) rows row c unfolding auth_ok_def
    by (auto simp: set_update_dict[OF ok] split: if_splits)
  assume b: "barred sid now au"
  have old: "k = sid \<Longrightarrow> se_created_at c < now - ANONYMOUS_MAX_AGE" using b assms(2) by (auto simp: barred_def)
  have shut: "shut sid now (au_repo au') t = shut sid now (au_repo au) t" for t using assms(6) by (intro shut_cong) simp_all
  have "shut sid now (au_repo au) (sd_created_at r)" if "(sid, r) \<in> set (stored_rows au')" for r
    using assms(8) that b old row by (auto simp: set_update_dict[OF ok] barred_def shut_def split: if_splits)
  with b old assms(4,6,7) show "barred sid now au'"
    unfolding barred_def shut by (auto split: if_splits)
qed

lemma same_keeps:
  assumes "au_repo au' = au_repo au" and "au_restoring au' = au_restoring au" and "stored_rows au' = stored_rows au"
  shows "auth_ok now au' = auth_ok now au" and "barred sid now au' = barred sid now au"
  using assms by (simp_all add: auth_ok_def barred_def)

lemma cached_same_Some:
  "cached_same s sr = Some c \<Longrightarrow> map_of (sr_sessions sr) (se_session_id s) = Some c"
  by (auto simp: cached_same_def split: option.splits if_splits)

lemma persist_keeps:
  assumes "auth_ok now au"
  shows "auth_ok now (persist io s au) \<and> (barred sid now au \<longrightarrow> barred sid now (persist io s au))"
proof (cases "au_store au = None \<or> se_sign_in_only s \<or> cached_same s (au_repo au) = None")
  case True
  then have "persist io s au = au" by (auto simp: persist_def split: option.split)
  then show ?thesis using assms by simp
next
  case False
  then obtain sx c where d: "au_store au = Some sx" "cached_same s (au_repo au) = Some c" "\<not> se_sign_in_only s" by auto
  let ?c = "c\<lparr>se_persisted_last_used_at := Some (se_last_used_at c)\<rparr>"
  from cached_same_Some[OF d(2)] have held: "map_of (sr_sessions (au_repo au)) (se_session_id s) = Some c" .
  with assms have id: "se_session_id c = se_session_id s" by (auto simp: auth_ok_def)
  let ?au = "persist io s au"
  have parts: "au_repo ?au = (au_repo au)\<lparr>sr_sessions := AList.update (se_session_id s) ?c (sr_sessions (au_repo au))\<rparr>"
    "au_restoring ?au = au_restoring au"
    "stored_rows ?au = stored_rows au \<or> stored_rows ?au = AList.update (se_session_id s) (to_stored ?c) (stored_rows au)"
    using d id save_rows[of io "to_stored ?c" sx]
    by (auto simp: persist_def Let_def stored_rows_def to_stored_def)
  show ?thesis
    using rewrite_keeps[OF assms held _ _ _ parts, simplified] id by blast
qed

lemma persist_touch_keeps:
  "auth_ok now au \<Longrightarrow> auth_ok now (persist_touch io s au) \<and> (barred sid now au \<longrightarrow> barred sid now (persist_touch io s au))"
  using persist_keeps[of now au io s sid] by (simp add: persist_touch_def split: option.split)

lemma use_keeps:
  assumes "auth_ok now au"
  shows "auth_ok now (snd (use_session now io csrf s au)) \<and> (barred sid now au \<longrightarrow> barred sid now (snd (use_session now io csrf s au)))"
proof (cases "cached_same s (au_repo au)")
  case None
  then show ?thesis using assms by (simp add: use_session_def)
next
  case (Some c)
  from cached_same_Some[OF this] have held: "map_of (sr_sessions (au_repo au)) (se_session_id s) = Some c" .
  with assms have id: "se_session_id c = se_session_id s" by (auto simp: auth_ok_def)
  show ?thesis
  proof (cases "is_expired now c")
    case True
    then show ?thesis using Some ends_keeps[OF assms ends_only_steps(3)] by (simp add: use_session_def)
  next
    case False
    let ?c = "(case csrf of None \<Rightarrow> c\<lparr>se_last_used_at := now\<rparr> | Some t \<Rightarrow> c\<lparr>se_last_used_at := now, se_csrf_token := t\<rparr>)"
    let ?au = "au\<lparr>au_repo := (au_repo au)\<lparr>sr_sessions := AList.update (se_session_id s) ?c (sr_sessions (au_repo au))\<rparr>\<rparr>"
    have fields: "se_session_id ?c = se_session_id s" "se_created_at ?c = se_created_at c" "se_max_age ?c = se_max_age c"
      using id by (simp_all split: option.split)
    have k: "auth_ok now ?au" "barred sid now au \<Longrightarrow> barred sid now ?au"
      using rewrite_keeps[OF assms held fields, of ?au] by (simp_all add: stored_rows_def)
    have "snd (use_session now io csrf s au) = (if csrf \<noteq> None then persist io ?c ?au else persist_touch io ?c ?au)"
      using Some False id by (simp add: use_session_def Let_def split: option.split)
    then show ?thesis using persist_keeps[OF k(1)] persist_touch_keeps[OF k(1)] k(2) by auto
  qed
qed

text \<open>Caching an object under its own id.\<close>

definition cache_session :: "session \<Rightarrow> session_repo \<Rightarrow> session_repo" where
  "cache_session s sr = sr\<lparr>sr_sessions := AList.update (se_session_id s) s (sr_sessions sr)\<rparr>"

lemma cache_keeps:
  assumes "auth_ok now au" and "se_created_at s \<le> now" and "se_max_age s \<le> ANONYMOUS_MAX_AGE"
    and "se_session_id s = sid \<Longrightarrow> se_created_at s < now - ANONYMOUS_MAX_AGE"
    and "au_repo au' = cache_session s (au_repo au)" and "au_restoring au' = au_restoring au" and "au_store au' = au_store au"
  shows "auth_ok now au'" and "barred sid now au \<Longrightarrow> barred sid now au'"
proof -
  have rows: "stored_rows au' = stored_rows au" using assms(7) by (simp add: stored_rows_def)
  have held: "map_of (sr_sessions (au_repo au')) k = (if k = se_session_id s then Some s else map_of (sr_sessions (au_repo au)) k)" for k
    using assms(5) by (simp add: cache_session_def)
  have shut: "shut sid now (au_repo au') t = shut sid now (au_repo au) t" for t
    using assms(5) by (intro shut_cong) (simp_all add: cache_session_def)
  show "auth_ok now au'" using assms(1-3,6) unfolding auth_ok_def rows held by auto
  assume "barred sid now au"
  then show "barred sid now au'" using assms(4,6) unfolding barred_def rows held shut by auto
qed

lemma create_keeps:
  assumes "auth_ok now au" and "max_age \<le> ANONYMOUS_MAX_AGE" and "new \<noteq> sid"
  shows "auth_ok now (snd (create_session now io new csrf account idle only max_age au))
    \<and> (barred sid now au \<longrightarrow> barred sid now (snd (create_session now io new csrf account idle only max_age au)))"
proof -
  let ?sr = "snd (purge_cached now (au_repo au))"
  define s where "s = \<lparr>se_ref = au_next_ref au, se_session_id = new, se_account_id = account, se_csrf_token = csrf,
       se_created_at = now, se_last_used_at = now, se_persisted_last_used_at = None,
       se_idle_limit = idle, se_sign_in_only = only, se_max_age = max_age, se_kind_known = True\<rparr>"
  define a where "a = au\<lparr>au_repo := ?sr\<rparr>"
  define b where "b = au\<lparr>au_repo := cache_session s ?sr, au_next_ref := au_next_ref au + 1\<rparr>"
  have a: "auth_ok now a" "barred sid now au \<Longrightarrow> barred sid now a"
    using ends_keeps[OF assms(1) ends_only_purge] by (auto simp: a_def)
  have b: "auth_ok now b" "barred sid now a \<Longrightarrow> barred sid now b"
    using cache_keeps[OF a(1), of s sid b] assms(2,3) by (auto simp: a_def b_def s_def)
  have "snd (create_session now io new csrf account idle only max_age au) = persist io s b"
    by (simp add: create_session_def Let_def b_def s_def cache_session_def)
  then show ?thesis using persist_keeps[OF b(1), of io s sid] a b by auto
qed

lemma shut_pruned:
  assumes "shut sid now sr created"
  shows "shut sid now (prune_ended_ids now sr) created"
proof (cases "created < now - ANONYMOUS_MAX_AGE")
  case True
  then show ?thesis by (simp add: shut_def)
next
  case False
  have kept: "map_of (filter (\<lambda>(k, ended). \<not> now - ended > ANONYMOUS_MAX_AGE) d) sid = Some t"
    if "map_of d sid = Some t" "created \<le> t" for d t
    using that False by (induction d) (auto split: if_splits)
  from assms False obtain t where t: "created \<le> t" "map_of (sr_ended_ids sr) sid = Some t \<or> map_of (sr_signed_out_ids sr) sid = Some t"
    by (auto simp: shut_def)
  then have "map_of (sr_ended_ids (prune_ended_ids now sr)) sid = Some t \<or> map_of (sr_signed_out_ids (prune_ended_ids now sr)) sid = Some t"
    using kept[of "sr_ended_ids sr" t] kept[of "sr_signed_out_ids sr" t] by (auto simp: prune_ended_ids_def Let_def)
  with t(1) show ?thesis by (auto simp: shut_def)
qed

lemma prune_keeps:
  assumes "auth_ok now au"
  shows "auth_ok now (with_repo (prune_ended_ids now) au) \<and> (barred sid now au \<longrightarrow> barred sid now (with_repo (prune_ended_ids now) au))"
proof -
  have "stored_rows (with_repo (prune_ended_ids now) au) = stored_rows au" by (simp add: with_repo_def stored_rows_def)
  moreover have "sr_sessions (prune_ended_ids now (au_repo au)) = sr_sessions (au_repo au)" by (simp add: prune_ended_ids_def Let_def)
  ultimately show ?thesis using assms shut_pruned by (simp add: auth_ok_def barred_def with_repo_def)
qed

lemma revoke_keeps:
  assumes "auth_ok now au"
  shows "auth_ok now (revoke now io other au) \<and> (barred sid now au \<longrightarrow> barred sid now (revoke now io other au))"
proof -
  let ?sr = "au_repo (revoke now io other au)"
  have "ends_only now (au_repo au) ?sr"
    by (auto simp: revoke_def Let_def ends_only_def drop_session_def record_ended_def split: option.split)
  note k = ends_keeps[OF assms this]
  have "revoke now io other au = (au\<lparr>au_repo := ?sr\<rparr>)\<lparr>au_store := map_option (\<lambda>sx. snd (delete_session io other sx))
      (au_store (au\<lparr>au_repo := ?sr\<rparr>))\<rparr>"
    by (simp add: revoke_def Let_def)
  then show ?thesis using removal_keeps[OF k(1) removals(1)[of io other]] k(2) by metis
qed

lemma purge_sessions_keeps:
  assumes "auth_ok now au"
  shows "auth_ok now (purge_expired_sessions now io au) \<and> (barred sid now au \<longrightarrow> barred sid now (purge_expired_sessions now io au))"
proof -
  let ?a = "au\<lparr>au_repo := snd (purge_cached now (au_repo au))\<rparr>"
  have a: "auth_ok now ?a" "barred sid now au \<Longrightarrow> barred sid now ?a" using ends_keeps[OF assms ends_only_purge] by blast+
  let ?b = "with_repo (prune_ended_ids now) ?a"
  have b: "auth_ok now ?b" "barred sid now ?a \<Longrightarrow> barred sid now ?b" using prune_keeps[OF a(1), of sid] by blast+
  have "purge_expired_sessions now io au = ?b\<lparr>au_store := map_option (\<lambda>sx. snd (purge_stored io now (now - SESSION_TTL)
      (Some (now - ANONYMOUS_MAX_AGE)) sx)) (au_store ?b)\<rparr>"
    by (simp add: purge_expired_sessions_def with_repo_def)
  then show ?thesis using removal_keeps[OF b(1) removals(3)] a b by metis
qed

lemma check_cached_keeps:
  assumes "auth_ok (lk_now lk) au"
  shows "auth_ok (lk_now lk) (snd (check_cached lk s au)) \<and> (barred sid (lk_now lk) au \<longrightarrow> barred sid (lk_now lk) (snd (check_cached lk s au)))"
proof -
  have "snd (check_cached lk s au) = au \<or> (\<exists>sr. snd (check_cached lk s au) = au\<lparr>au_repo := sr\<rparr> \<and> ends_only (lk_now lk) (au_repo au) sr)"
    by (auto simp: check_cached_def split: option.split prod.split bool.split intro: ends_only_intros)
  then show ?thesis using assms ends_keeps[OF assms] by auto
qed

lemma restored_candidate:
  assumes "restore_read lk sid' au = (Inr s, au')"
  shows "\<exists>sx r. au_store au = Some sx \<and> map_of (sx_sessions sx) sid' = Some r \<and> se_session_id s = sid'
    \<and> se_created_at s = sd_created_at r \<and> se_max_age s \<le> ANONYMOUS_MAX_AGE \<and> \<not> is_expired (lk_now lk) s"
  using assms by (auto simp: restore_read_def restored_session_def fetch_checked_def Let_def ANONYMOUS_MAX_AGE_def SIGNED_IN_MAX_AGE_def
      split: option.splits prod.splits bool.splits if_splits)

lemma restore_read_state:
  "restore_read lk sid' au = (res, au') \<Longrightarrow> au_repo au' = au_repo au \<and> au_restoring au' = au_restoring au \<and> au_store au' = au_store au"
  by (auto simp: restore_read_def Let_def split: option.splits prod.splits bool.splits if_splits)

lemma queue_keeps:
  assumes "auth_ok now a" and "se_created_at s \<le> now" and "se_max_age s \<le> ANONYMOUS_MAX_AGE"
  shows "auth_ok now (a\<lparr>au_restoring := au_restoring a @ [s]\<rparr>)
    \<and> (barred sid now a \<and> (se_session_id s = sid \<longrightarrow> shut sid now (au_repo a) (se_created_at s)) \<longrightarrow>
       barred sid now (a\<lparr>au_restoring := au_restoring a @ [s]\<rparr>))"
  using assms by (auto simp: auth_ok_def barred_def stored_rows_def)

lemma restore_keeps:
  assumes "auth_ok (lk_now lk) au"
  shows "auth_ok (lk_now lk) (snd (auth_step (ARestoreRead lk sid') au))
    \<and> (barred sid (lk_now lk) au \<longrightarrow> barred sid (lk_now lk) (snd (auth_step (ARestoreRead lk sid') au)))"
proof -
  obtain res a where r: "restore_read lk sid' au = (res, a)" by force
  note same = restore_read_state[OF r]
  then have rows: "stored_rows a = stored_rows au" by (simp add: stored_rows_def)
  have a: "auth_ok (lk_now lk) a" "barred sid (lk_now lk) au \<Longrightarrow> barred sid (lk_now lk) a"
    using same_keeps[of a au] same rows assms by simp_all
  show ?thesis
  proof (cases res)
    case (Inl x)
    then show ?thesis using r a by simp
  next
    case (Inr s)
    from restored_candidate[OF r[unfolded Inr]] obtain sx row where c: "au_store au = Some sx"
      "map_of (sx_sessions sx) sid' = Some row" "se_session_id s = sid'" "se_created_at s = sd_created_at row"
      "se_max_age s \<le> ANONYMOUS_MAX_AGE" by blast
    then have held: "(sid', row) \<in> set (stored_rows au)" by (auto simp: stored_rows_def dest: map_of_SomeD)
    then have id: "se_session_id s = sid'" "se_created_at s \<le> lk_now lk" using assms c(3,4) by (auto simp: auth_ok_def)
    have "shut sid (lk_now lk) (au_repo au) (se_created_at s)" if "barred sid (lk_now lk) au" "se_session_id s = sid"
      using that held id c(4) by (simp add: barred_def)
    moreover have step: "snd (auth_step (ARestoreRead lk sid') au) = a\<lparr>au_restoring := au_restoring a @ [s]\<rparr>"
      using r Inr by simp
    ultimately show ?thesis unfolding step using queue_keeps[OF a(1) id(2) c(5)] a(2) same by simp
  qed
qed

lemma commit_keeps:
  assumes "auth_ok now au" and "s \<in> set (au_restoring au)"
  shows "auth_ok now (snd (restore_commit now s au)) \<and> (barred sid now au \<longrightarrow> barred sid now (snd (restore_commit now s au)))"
proof (cases "snd (restore_commit now s au) = au")
  case False
  then have fresh: "map_of (sr_ended_ids (au_repo au)) (se_session_id s) = None" "map_of (sr_signed_out_ids (au_repo au)) (se_session_id s) = None"
    and res: "snd (restore_commit now s au) = au\<lparr>au_repo := cache_session s (au_repo au)\<rparr>"
    by (auto simp: restore_commit_def Let_def cache_session_def split: if_splits option.splits)
  have s: "se_created_at s \<le> now" "se_max_age s \<le> ANONYMOUS_MAX_AGE" using assms by (auto simp: auth_ok_def)
  have old: "se_created_at s < now - ANONYMOUS_MAX_AGE" if "barred sid now au" "se_session_id s = sid"
    using that fresh assms(2) by (auto simp: barred_def shut_def)
  show ?thesis
  proof (cases "barred sid now au")
    case True
    then show ?thesis using cache_keeps[OF assms(1) s old, of sid "snd (restore_commit now s au)"] by (simp add: res)
  next
    case False
    obtain other where "other \<noteq> se_session_id s" by (metis not_Cons_self)
    then show ?thesis using cache_keeps(1)[OF assms(1) s, of other "snd (restore_commit now s au)"] False by (simp add: res)
  qed
qed (use assms in simp)

lemma auth_step_keeps:
  assumes "auth_ok now au" and "now \<le> op_time x" and "op_fair sid x"
  shows "auth_ok (op_time x) (snd (auth_step x au)) \<and> (barred sid now au \<longrightarrow> barred sid (op_time x) (snd (auth_step x au)))"
proof -
  let ?t = "op_time x"
  have ok: "auth_ok ?t au" and b: "barred sid now au \<Longrightarrow> barred sid ?t au"
    using auth_ok_later[OF assms(1,2)] barred_later[OF _ assms(2)] by blast+
  have "auth_ok ?t (snd (auth_step x au)) \<and> (barred sid ?t au \<longrightarrow> barred sid ?t (snd (auth_step x au)))"
  proof (cases x)
    case (ALookupStart now')
    then show ?thesis using ends_keeps(1)[OF _ ends_only_purge, of now' au] ends_keeps(2)[OF _ ends_only_purge, of now' au] ok by (simp add: with_repo_def)
  next
    case (AEndSessions now' account cutoff)
    then show ?thesis using ends_keeps(1)[OF _ ends_only_end_sessions, of now' au] ends_keeps(2)[OF _ ends_only_end_sessions, of now' au] ok by (simp add: with_repo_def)
  next
    case (ARevokeAccount now' account)
    then show ?thesis using ends_keeps(1)[OF _ ends_only_revoke_account, of now' au] ends_keeps(2)[OF _ ends_only_revoke_account, of now' au] ok by (simp add: with_repo_def)
  next
    case (ARestoreRead lk sid')
    then show ?thesis using restore_keeps[of lk au sid' sid] ok by simp
  next
    case (ARestoreCommit now' n)
    then show ?thesis using commit_keeps[of now' au "au_restoring au ! n" sid] ok by simp
  next
    case (AStore now' f)
    then show ?thesis using removal_keeps(1)[of now' au f] removal_keeps(2)[of now' au f sid] ok assms(3) by simp
  next
    case (ACreate now' io new csrf account idle only max_age)
    then show ?thesis using create_keeps[of now' au max_age new sid] ok assms(3) by simp
  next
    case (AFlush now' io s)
    then show ?thesis using persist_keeps[of now' au io s sid] ok by (simp add: flush_session_def)
  qed (use ok use_keeps revoke_keeps purge_sessions_keeps check_cached_keeps in auto)
  with b show ?thesis by blast
qed

lemma barred_use:
  assumes "auth_ok now au" and "barred sid now au" and "se_session_id s = sid"
  shows "fst (use_session now io csrf s au) = None"
proof (cases "cached_same s (au_repo au)")
  case (Some c)
  from cached_same_Some[OF this] assms have "se_created_at c < now - ANONYMOUS_MAX_AGE" "se_max_age c \<le> ANONYMOUS_MAX_AGE"
    by (auto simp: barred_def auth_ok_def)
  then show ?thesis using Some by (simp add: use_session_def is_expired_def)
qed (simp add: use_session_def)

lemma barred_run:
  assumes "auth_ok now au" and "barred sid now au" and "clocked now ops" and "\<forall>x \<in> set ops. op_fair sid x"
    and "(AUse t io csrf s, Some c) \<in> set (auth_run au ops)"
  shows "se_session_id s \<noteq> sid"
  using assms
proof (induction ops arbitrary: now au)
  case (Cons x xs)
  have k: "auth_ok (op_time x) (snd (auth_step x au))" "barred sid (op_time x) (snd (auth_step x au))"
    using auth_step_keeps[of now au x sid] Cons.prems by auto
  from Cons.prems(5) consider "x = AUse t io csrf s" "fst (auth_step x au) = Some c"
    | "(AUse t io csrf s, Some c) \<in> set (auth_run (snd (auth_step x au)) xs)" by auto
  then show ?case
  proof cases
    case 1
    have "auth_ok (op_time x) au" "barred sid (op_time x) au"
      using Cons.prems(1-3) auth_ok_later barred_later by auto
    with 1 barred_use[of t au sid s io csrf] show ?thesis by auto
  next
    case 2
    with Cons.IH[OF k] Cons.prems(3,4) show ?thesis by simp
  qed
qed simp

section \<open>A signed-out session stays out\<close>

lemma revoked_barred:
  assumes "auth_ok now au" and "\<And>s. map_of (sr_sessions (au_repo au)) sid = Some s \<Longrightarrow> \<not> se_sign_in_only s"
  shows "barred sid now (revoke now io sid au)"
proof -
  let ?au = "revoke now io sid au"
  have out: "map_of (sr_signed_out_ids (au_repo ?au)) sid = Some now"
    and gone: "map_of (sr_sessions (au_repo ?au)) sid = None"
    using assms(2) by (auto simp: revoke_def Let_def drop_session_def record_ended_def split: option.split)
  have shut: "shut sid now (au_repo ?au) t" if "t \<le> now" for t using that out by (auto simp: shut_def)
  have ok: "auth_ok now ?au" using revoke_keeps[OF assms(1)] by blast
  then have "sd_created_at r \<le> now" if "(sid, r) \<in> set (stored_rows ?au)" for r using that by (auto simp: auth_ok_def)
  moreover have "se_created_at s \<le> now" if "s \<in> set (au_restoring ?au)" for s using that ok by (auto simp: auth_ok_def)
  ultimately show ?thesis unfolding barred_def gone using shut by simp
qed

text \<open>C13. Signing out is final: once a session's id is revoked, no later request authenticates it, whatever the
  store answers, whether or not the delete of its row reached the store, and however requests interleave,
  a restore that read the row before the sign-out and caches it after included; nor does the daily pruning of
  the signed-out ids let it back, since by then the session is past its greatest age.\<close>

theorem signed_out_stays_out:
  assumes "auth_ok now au" and "\<And>s. map_of (sr_sessions (au_repo au)) sid = Some s \<Longrightarrow> \<not> se_sign_in_only s"
    and "clocked now ops" and "\<forall>x \<in> set ops. op_fair sid x"
    and "(AUse t io' csrf s, Some c) \<in> set (auth_run (revoke now io sid au) ops)"
  shows "se_session_id s \<noteq> sid"
proof -
  have "auth_ok now (revoke now io sid au)" using revoke_keeps[OF assms(1)] by blast
  from barred_run[OF this revoked_barred[OF assms(1,2)] assms(3-5)] show ?thesis by blast
qed

definition open_store :: session_store where
  "open_store = \<lparr>sx_sessions = [], sx_accounts = [], sx_carry = [], sx_history = [], sx_sign_ins = [], sx_accounts_table = True,
     sx_accounts_ready = True, sx_safety_ready = True, sx_history_ready = True, sx_closed = False\<rparr>"

definition fresh_auth :: auth_state where
  "fresh_auth = \<lparr>au_repo = new_session_repo, au_store = Some open_store, au_next_ref = 0, au_restoring = []\<rparr>"

definition calm_look :: "micros \<Rightarrow> look_env" where
  "calm_look now = \<lparr>lk_now = now, lk_fetch_io = True, lk_kind_io = True, lk_cutoff_locked = True, lk_cutoff_io = True,
     lk_signed_in_idle = SESSION_TTL\<rparr>"

text \<open>A restart: the same store, an empty process.\<close>

definition restarted :: "auth_state \<Rightarrow> auth_state" where
  "restarted au = au\<lparr>au_repo := new_session_repo, au_restoring := []\<rparr>"

lemmas session_eval = create_session_def purge_cached_def persist_def cached_same_def save_session_def write_session_def
  to_stored_def restarted_def new_session_repo_def Let_def

text \<open>The row is read before the sign-out, whose delete fails, and cached after it.\<close>

definition racing_auth :: auth_state where
  "racing_auth = snd (auth_step (ARestoreRead (calm_look 1) ''a'')
     (restarted (snd (create_session 0 True ''a'' ''t'' 1 SESSION_TTL False ANONYMOUS_MAX_AGE fresh_auth))))"

lemma racing_auth_state:
  "map_of (sr_sessions (au_repo racing_auth)) k = None" "stored_rows racing_auth = [(''a'', \<lparr>sd_session_id = ''a'',
     sd_account_id = 1, sd_csrf_token = ''t'', sd_created_at = 0, sd_last_used_at = 0\<rparr>)]"
  "map se_session_id (au_restoring racing_auth) = [''a'']"
  "\<forall>s \<in> set (au_restoring racing_auth). se_created_at s = 0 \<and> se_max_age s = ANONYMOUS_MAX_AGE"
  by (simp_all add: racing_auth_def session_eval fresh_auth_def open_store_def calm_look_def restore_read_def fetch_checked_def
      SESSION_TTL_def ANONYMOUS_MAX_AGE_def is_anonymous_def no_account_row_def restored_session_def account_was_deleted_def
      before_cutoff_def cutoff_refusal_def is_expired_def stored_rows_def)

lemma signed_out_stays_out_witness:
  "\<forall>c. (AUse 3 True None (hd (au_restoring racing_auth)), Some c)
     \<notin> set (auth_run (revoke 2 False ''a'' racing_auth) [ARestoreCommit 3 0, AUse 3 True None (hd (au_restoring racing_auth))])"
proof (intro allI notI)
  fix c
  let ?ops = "[ARestoreCommit 3 0, AUse 3 True None (hd (au_restoring racing_auth))]"
  assume use: "(AUse 3 True None (hd (au_restoring racing_auth)), Some c) \<in> set (auth_run (revoke 2 False ''a'' racing_auth) ?ops)"
  have "auth_ok 2 racing_auth"
    using racing_auth_state by (auto simp: auth_ok_def dict_ok_def)
  moreover have "se_session_id (hd (au_restoring racing_auth)) = ''a''"
    using racing_auth_state(3) by (cases "au_restoring racing_auth") auto
  ultimately show False
    using signed_out_stays_out[of 2 racing_auth "''a''" ?ops, OF _ _ _ _ use] racing_auth_state(1) by auto
qed

section \<open>A durable cutoff\<close>

lemma check_signed_in:
  assumes "check_cached lk s0 au = (Lookup (Some s) u, au')" and "au_store au = Some sx" and "se_max_age s \<noteq> ANONYMOUS_MAX_AGE"
  shows "\<exists>cutoff. sessions_valid_after True (lk_cutoff_io lk) (se_account_id s) sx = (True, cutoff)
    \<and> (\<forall>c. cutoff = Some c \<longrightarrow> c < se_created_at s)"
proof -
  obtain read co where r: "sessions_valid_after (lk_cutoff_locked lk) (lk_cutoff_io lk) (se_account_id s0) sx = (read, co)" by force
  have s: "s = s0" and read and "\<forall>c. co = Some c \<longrightarrow> c < se_created_at s"
    using assms r by (auto simp: check_cached_def split: if_splits option.splits bool.splits)
  moreover have "sessions_valid_after True (lk_cutoff_io lk) (se_account_id s0) sx = (True, co)"
    using r \<open>read\<close> by (cases "lk_cutoff_locked lk") (simp_all add: sessions_valid_after_def)
  ultimately show ?thesis by blast
qed

lemma restore_signed_in:
  assumes "restore_read lk sid au = (Inr s, au')" and "au_store au = Some sx" and "se_max_age s \<noteq> ANONYMOUS_MAX_AGE"
  shows "\<exists>cutoff. sessions_valid_after True (lk_cutoff_io lk) (se_account_id s) sx = (True, cutoff)
    \<and> (\<forall>c. cutoff = Some c \<longrightarrow> c < se_created_at s)"
proof -
  from assms(1,2) obtain ref anonymous sd where s: "s = restored_session lk ref anonymous sd" "cutoff_refusal lk anonymous s sx = None"
    by (auto simp: restore_read_def Let_def split: option.splits prod.splits bool.splits if_splits)
  with assms(3) have "anonymous \<noteq> Some True" by (auto simp: restored_session_def)
  moreover obtain read co where "sessions_valid_after True (lk_cutoff_io lk) (se_account_id s) sx = (read, co)" by force
  ultimately show ?thesis using s(2)
    by (auto simp: cutoff_refusal_def split: if_splits option.splits)
qed

lemma restore_refusals:
  "restore_read lk sid au = (Inl res, au') \<Longrightarrow> lu_session res = None"
  by (auto simp: restore_read_def cutoff_refusal_def Let_def split: option.splits prod.splits bool.splits if_splits)

lemma look_signed_in:
  assumes "lookup lk sid au = (Lookup (Some s) u, au')" and "au_store au = Some sx" and "se_max_age s \<noteq> ANONYMOUS_MAX_AGE"
  shows "\<exists>cutoff. sessions_valid_after True (lk_cutoff_io lk) (se_account_id s) sx = (True, cutoff)
    \<and> (\<forall>c. cutoff = Some c \<longrightarrow> c < se_created_at s)"
proof -
  let ?au = "au\<lparr>au_repo := snd (purge_cached (lk_now lk) (au_repo au))\<rparr>"
  have store: "au_store ?au = Some sx" using assms(2) by simp
  show ?thesis
  proof (cases "map_of (sr_sessions (au_repo ?au)) sid")
    case (Some s0)
    then have "check_cached lk s0 ?au = (Lookup (Some s) u, au')" using assms(1) by (simp add: lookup_def Let_def)
    from check_signed_in[OF this store assms(3)] show ?thesis .
  next
    case None
    obtain res a where r0: "restore_read lk sid ?au = (res, a)" by force
    with None assms(1) restore_refusals[of lk sid ?au _ a] obtain s0 where res: "res = Inr s0"
      and c: "restore_commit (lk_now lk) s0 a = (Lookup (Some s) u, au')"
      by (cases res) (auto simp: lookup_def Let_def split: if_splits)
    note r = r0[unfolded res]
    from restored_candidate[OF r] have "map_of (sr_sessions (au_repo a)) (se_session_id s0) = None"
      using None restore_read_state[OF r] by auto
    then have "s = s0" using c by (auto simp: restore_commit_def Let_def split: if_splits option.splits)
    with restore_signed_in[OF r store] assms(3) show ?thesis by simp
  qed
qed

text \<open>Ending an account's sessions ends them everywhere: once the cutoff is in the store, a signed-in session of
  the account is served only if it was made after it, cached in this process or restored from its row; and it
  is served only where the store answered the cutoff's read, so a store that cannot answer refuses.\<close>

theorem cutoff_ends_signed_in_sessions:
  assumes "end_sessions_before io account cutoff sx = (END_ENDED, sx')" and "au_store au = Some sx'"
    and "lookup lk sid au = (Lookup (Some s) u, au')" and "se_account_id s = account" and "se_max_age s \<noteq> ANONYMOUS_MAX_AGE"
  shows "cutoff < se_created_at s \<and> lk_cutoff_io lk"
proof -
  from look_signed_in[OF assms(3,2,5)] obtain co where co: "sessions_valid_after True (lk_cutoff_io lk) account sx' = (True, co)"
    "\<And>c. co = Some c \<Longrightarrow> c < se_created_at s" using assms(4) by blast
  have "sx_safety_ready sx'" "\<exists>a c. map_of (sx_accounts sx') account = Some a \<and> ac_valid_after a = Some c \<and> cutoff \<le> c"
    using assms(1) by (auto simp: end_sessions_before_def split: if_splits option.split)
  then obtain a c where "sx_safety_ready sx'" "map_of (sx_accounts sx') account = Some a" "ac_valid_after a = Some c" "cutoff \<le> c"
    by blast
  then have "co = Some c" "cutoff \<le> c" "lk_cutoff_io lk"
    using co(1) by (simp_all add: sessions_valid_after_def split: if_splits)
  with co(2) show ?thesis by fastforce
qed

definition account_store :: session_store where
  "account_store = open_store\<lparr>sx_accounts := [(1, \<lparr>ac_google_sub = ''g'', ac_email = ''e'', ac_created_at = 0,
     ac_last_sign_in_at = 0, ac_spend_key = None, ac_valid_after = None\<rparr>)]\<rparr>"

definition signed_in_session :: session where
  "signed_in_session = \<lparr>se_ref = 0, se_session_id = ''a'', se_account_id = 1, se_csrf_token = ''t'', se_created_at = 4,
     se_last_used_at = 4, se_persisted_last_used_at = None, se_idle_limit = SESSION_TTL, se_sign_in_only = False,
     se_max_age = SIGNED_IN_MAX_AGE, se_kind_known = True\<rparr>"

definition cut_auth :: auth_state where
  "cut_auth = \<lparr>au_repo = new_session_repo\<lparr>sr_sessions := [(''a'', signed_in_session)]\<rparr>,
     au_store = Some (snd (end_sessions_before True 1 3 account_store)), au_next_ref = 1, au_restoring = []\<rparr>"

lemma cutoff_ends_signed_in_sessions_witness:
  "lu_session (fst (lookup (calm_look 5) ''a'' cut_auth)) = Some signed_in_session
   \<and> 3 < se_created_at signed_in_session \<and> lk_cutoff_io (calm_look 5)"
proof -
  have e: "end_sessions_before True 1 3 account_store = (END_ENDED, snd (end_sessions_before True 1 3 account_store))"
    by (simp add: end_sessions_before_def account_store_def open_store_def)
  have look: "lookup (calm_look 5) ''a'' cut_auth = (Lookup (Some signed_in_session) None, snd (lookup (calm_look 5) ''a'' cut_auth))"
    by (simp add: lookup_def cut_auth_def purge_cached_def new_session_repo_def is_expired_def signed_in_session_def calm_look_def
        SESSION_TTL_def SIGNED_IN_MAX_AGE_def ANONYMOUS_MAX_AGE_def check_cached_def sessions_valid_after_def
        end_sessions_before_def account_store_def open_store_def dict_adjust_def Let_def)
  have "3 < se_created_at signed_in_session \<and> lk_cutoff_io (calm_look 5)"
    by (rule cutoff_ends_signed_in_sessions[OF e _ look])
      (simp_all add: cut_auth_def signed_in_session_def SIGNED_IN_MAX_AGE_def ANONYMOUS_MAX_AGE_def)
  with look show ?thesis by (metis fst_conv lookup_result.sel(1))
qed

section \<open>A restart\<close>

lemma created_store:
  assumes "au_store au = Some sx" and "\<not> sx_closed sx" and "sx_safety_ready sx"
    and "\<And>a c. map_of (sx_accounts sx) account = Some a \<Longrightarrow> ac_valid_after a = Some c \<Longrightarrow> c < now"
    and "create_session now True sid csrf account idle False max_age au = (s, au1)"
  shows "au_store au1 = Some (sx\<lparr>sx_sessions := AList.update sid (to_stored s) (sx_sessions sx)\<rparr>)
    \<and> to_stored s = \<lparr>sd_session_id = sid, sd_account_id = account, sd_csrf_token = csrf, sd_created_at = now, sd_last_used_at = now\<rparr>"
proof -
  let ?row = "\<lparr>sd_session_id = sid, sd_account_id = account, sd_csrf_token = csrf, sd_created_at = now, sd_last_used_at = now\<rparr>"
  have save: "save_session True ?row sx = (True, sx\<lparr>sx_sessions := AList.update sid ?row (sx_sessions sx)\<rparr>)"
    using assms(2,3,4) by (fastforce simp: save_session_def write_session_def split: option.splits)
  from assms(1,5) show ?thesis
    by (auto simp: create_session_def persist_def cached_same_def to_stored_def Let_def save)
qed

lemma new_repo_empty [simp]:
  "sr_sessions new_session_repo = []" "sr_ended_ids new_session_repo = []" "sr_signed_out_ids new_session_repo = []"
  "sr_deleted_accounts new_session_repo = []" "sr_valid_after new_session_repo = []"
  by (simp_all add: new_session_repo_def)

lemma restored_lookup:
  assumes "map_of (sx_sessions sx) sid = Some \<lparr>sd_session_id = sid, sd_account_id = account, sd_csrf_token = csrf,
      sd_created_at = now, sd_last_used_at = now\<rparr>"
    and "\<not> sx_closed sx" and "sx_accounts_table sx" and "sx_accounts_ready sx" and "sx_safety_ready sx"
    and "\<And>a c. map_of (sx_accounts sx) account = Some a \<Longrightarrow> ac_valid_after a = Some c \<Longrightarrow> c < now"
    and "lk_fetch_io lk" and "lk_kind_io lk" and "lk_cutoff_io lk" and "now \<le> lk_now lk" and "lk_now lk - now \<le> SESSION_TTL"
    and "map_of (sx_accounts sx) account \<noteq> None \<Longrightarrow> lk_now lk - now \<le> lk_signed_in_idle lk"
    and "au_repo au = new_session_repo" and "au_store au = Some sx"
  shows "\<exists>au2. lookup lk sid au = (Lookup (Some (restored_session lk (au_next_ref au)
      (Some (map_of (sx_accounts sx) account = None)) (the (map_of (sx_sessions sx) sid)))) None, au2)"
proof -
  let ?anon = "Some (map_of (sx_accounts sx) account = None)"
  let ?s = "restored_session lk (au_next_ref au) ?anon (the (map_of (sx_sessions sx) sid))"
  have fetched: "fetch_checked (lk_fetch_io lk) (lk_now lk) sid (lk_now lk - SESSION_TTL) (Some (lk_now lk - ANONYMOUS_MAX_AGE)) sx
      = (True, map_of (sx_sessions sx) sid)"
    using assms(1,2,7,10,11) by (simp add: fetch_checked_def SESSION_TTL_def ANONYMOUS_MAX_AGE_def Let_def)
  have kind: "is_anonymous (lk_kind_io lk) account sx = ?anon"
    using assms(2,3,4,8) by (simp add: is_anonymous_def no_account_row_def)
  have fresh: "\<not> is_expired (lk_now lk) ?s"
    using assms(1,10-12) by (auto simp: is_expired_def restored_session_def SESSION_TTL_def ANONYMOUS_MAX_AGE_def SIGNED_IN_MAX_AGE_def)
  have uncut: "cutoff_refusal lk ?anon ?s sx = None"
    using assms(1,2,5,6,9) by (fastforce simp: cutoff_refusal_def sessions_valid_after_def restored_session_def split: option.splits)
  have repo: "snd (purge_cached (lk_now lk) new_session_repo) = new_session_repo"
    by (simp add: purge_cached_def new_session_repo_def Let_def)
  have "restore_read lk sid au = (Inr ?s, au\<lparr>au_next_ref := au_next_ref au + 1\<rparr>)"
    using fetched kind fresh uncut assms(1,4,13,14)
    by (simp add: restore_read_def Let_def account_was_deleted_def before_cutoff_def new_session_repo_def)
  moreover have same: "au\<lparr>au_repo := snd (purge_cached (lk_now lk) (au_repo au))\<rparr> = au"
    using assms(13) repo by simp
  ultimately show ?thesis using assms(1,13)
    unfolding lookup_def Let_def same by (simp add: restore_commit_def account_was_deleted_def before_cutoff_def)
qed

text \<open>A session survives a restart as it was stored: when the process that made it stops right after, the next
  one finds the session under the same id with the same account, CSRF token and times, anonymous or signed in
  as its account says, for as long as its idle limit (and two hours, the row's limit) has not passed.\<close>

theorem session_survives_restart:
  assumes "au_store au = Some sx" and "\<not> sx_closed sx" and "sx_accounts_table sx" and "sx_accounts_ready sx" and "sx_safety_ready sx"
    and "\<And>a c. map_of (sx_accounts sx) account = Some a \<Longrightarrow> ac_valid_after a = Some c \<Longrightarrow> c < now"
    and "create_session now True sid csrf account idle False max_age au = (s, au1)"
    and "lk_fetch_io lk" and "lk_kind_io lk" and "lk_cutoff_io lk" and "now \<le> lk_now lk" and "lk_now lk - now \<le> SESSION_TTL"
    and "map_of (sx_accounts sx) account \<noteq> None \<Longrightarrow> lk_now lk - now \<le> lk_signed_in_idle lk"
  shows "\<exists>s' au2. lookup lk sid (restarted au1) = (Lookup (Some s') None, au2) \<and> to_stored s' = to_stored s
    \<and> se_max_age s' = (if map_of (sx_accounts sx) account = None then ANONYMOUS_MAX_AGE else SIGNED_IN_MAX_AGE)"
proof -
  let ?row = "\<lparr>sd_session_id = sid, sd_account_id = account, sd_csrf_token = csrf, sd_created_at = now, sd_last_used_at = now\<rparr>"
  let ?sx = "sx\<lparr>sx_sessions := AList.update sid ?row (sx_sessions sx)\<rparr>"
  from created_store[OF assms(1,2,5,6,7)] have store: "au_store au1 = Some ?sx" and row: "to_stored s = ?row" by auto
  have "\<exists>au2. lookup lk sid (restarted au1) = (Lookup (Some (restored_session lk (au_next_ref (restarted au1))
      (Some (map_of (sx_accounts ?sx) account = None)) (the (map_of (sx_sessions ?sx) sid)))) None, au2)"
    by (rule restored_lookup) (use assms(2-6,8-13) store in \<open>simp_all add: restarted_def\<close>)
  moreover have "to_stored (restored_session lk ref kind ?row) = ?row"
    "se_max_age (restored_session lk ref kind ?row) = (if kind = Some True then ANONYMOUS_MAX_AGE else SIGNED_IN_MAX_AGE)" for ref kind
    by (simp_all add: to_stored_def restored_session_def)
  ultimately show ?thesis by (auto simp: row)
qed

lemma session_survives_restart_witness:
  "\<exists>s s' au1 au2. create_session 5 True ''a'' ''t'' 1 SESSION_TTL False ANONYMOUS_MAX_AGE fresh_auth = (s, au1)
    \<and> lookup (calm_look 9) ''a'' (restarted au1) = (Lookup (Some s') None, au2) \<and> to_stored s' = to_stored s"
proof -
  obtain s au1 where c: "create_session 5 True ''a'' ''t'' 1 SESSION_TTL False ANONYMOUS_MAX_AGE fresh_auth = (s, au1)" by force
  have "\<exists>s' au2. lookup (calm_look 9) ''a'' (restarted au1) = (Lookup (Some s') None, au2) \<and> to_stored s' = to_stored s
      \<and> se_max_age s' = (if map_of (sx_accounts open_store) 1 = None then ANONYMOUS_MAX_AGE else SIGNED_IN_MAX_AGE)"
    by (rule session_survives_restart[OF _ _ _ _ _ _ c])
      (simp_all add: fresh_auth_def open_store_def calm_look_def SESSION_TTL_def)
  with c show ?thesis by blast
qed

end
