(* ===== verification/Auth_Laws.thy ===== *)
theory Auth_Laws
  imports Auth_Requests Session_Laws
begin

text \<open>
  What the request side of \<^verbatim>\<open>auth.py\<close> guarantees: who a request is authenticated as, that a session just
  issued lets its own browser back in, how many sessions a network is given a day, what an anonymous run is charged
  to, when a run is refused as too late, and that signing in uses up the session it replaces.
\<close>

section \<open>Lookups\<close>

lemma purged_sessions: "map_of (sr_sessions (snd (purge_cached now sr))) k = Some s \<Longrightarrow> map_of (sr_sessions sr) k = Some s"
  using ends_only_purge[of now sr] by (auto simp: ends_only_def)

lemma drop_ended_sessions: "sr_sessions (drop_ended now s sr) = AList.delete (se_session_id s) (sr_sessions sr)"
  by (simp add: drop_ended_def record_ended_def drop_session_def Let_def)

lemma dropped_sessions:
  "map_of (sr_sessions (foldl (\<lambda>sr s. drop_ended now s sr) sr xs)) k =
     (if k \<in> se_session_id ` set xs then None else map_of (sr_sessions sr) k)"
  by (induction xs arbitrary: sr) (auto simp: drop_ended_sessions)

lemma dict_ok_dropped:
  "dict_ok (sr_sessions sr) \<Longrightarrow> dict_ok (sr_sessions (foldl (\<lambda>sr s. drop_ended now s sr) sr xs))"
  by (induction xs arbitrary: sr) (simp_all add: drop_ended_sessions dict_ok_delete)

lemma dict_ok_purged: "dict_ok (sr_sessions sr) \<Longrightarrow> dict_ok (sr_sessions (snd (purge_cached now sr)))"
  by (simp add: purge_cached_def Let_def dict_ok_dropped)

text \<open>A live session outlives the purge of the others.\<close>

lemma purge_spares:
  assumes "dict_ok (sr_sessions sr)" and "\<And>k s. map_of (sr_sessions sr) k = Some s \<Longrightarrow> se_session_id s = k"
    and "map_of (sr_sessions sr) k = Some s" and "\<not> is_expired now s"
  shows "map_of (sr_sessions (snd (purge_cached now sr))) k = Some s"
proof -
  have "k \<notin> se_session_id ` set (filter (is_expired now) (map snd (sr_sessions sr)))"
  proof
    assume "k \<in> se_session_id ` set (filter (is_expired now) (map snd (sr_sessions sr)))"
    then obtain j c where c: "(j, c) \<in> set (sr_sessions sr)" "is_expired now c" "se_session_id c = k" by auto
    then have "map_of (sr_sessions sr) j = Some c" using assms(1) by (simp add: in_set_iff_map_of)
    with assms(2) c(3) have "map_of (sr_sessions sr) k = Some c" by auto
    with assms(3,4) c(2) show False by simp
  qed
  then show ?thesis using assms(3) by (simp add: purge_cached_def Let_def dropped_sessions)
qed

lemma restore_commit_keeps_ok:
  assumes "auth_ok now au" and "se_created_at s \<le> now" and "se_max_age s \<le> ANONYMOUS_MAX_AGE"
  shows "auth_ok now (snd (restore_commit now s au))"
proof (cases "snd (restore_commit now s au) = au")
  case False
  then have res: "snd (restore_commit now s au) = au\<lparr>au_repo := cache_session s (au_repo au)\<rparr>"
    by (auto simp: restore_commit_def Let_def cache_session_def split: if_splits option.splits)
  obtain other where "other \<noteq> se_session_id s" by (metis not_Cons_self)
  then show ?thesis using cache_keeps(1)[OF assms, of other "snd (restore_commit now s au)"] by (simp add: res)
qed (use assms in simp)

text \<open>A lookup keeps the invariant, and the session it answers with has the id that was asked for.\<close>

lemma lookup_keeps:
  assumes "auth_ok (lk_now lk) au"
  shows "auth_ok (lk_now lk) (snd (lookup lk sid au))
    \<and> (\<forall>s. lu_session (fst (lookup lk sid au)) = Some s \<longrightarrow> se_session_id s = sid)"
proof -
  let ?now = "lk_now lk"
  define a where "a = au\<lparr>au_repo := snd (purge_cached ?now (au_repo au))\<rparr>"
  have a: "auth_ok ?now a" using ends_keeps(1)[OF assms ends_only_purge] by (simp add: a_def)
  show ?thesis
  proof (cases "map_of (sr_sessions (au_repo a)) sid")
    case (Some s)
    then have id: "se_session_id s = sid" using a by (auto simp: auth_ok_def)
    have eq: "lookup lk sid au = check_cached lk s a" using Some by (simp add: lookup_def a_def Let_def)
    have "lu_session (fst (check_cached lk s a)) \<in> {None, Some s}"
      by (auto simp: check_cached_def split: option.split prod.split bool.split)
    then show ?thesis using check_cached_keeps[OF a, of s] id unfolding eq by auto
  next
    case None
    show ?thesis
    proof (cases "map_of (sr_ended_ids (au_repo a)) sid = None")
      case False
      then show ?thesis using None a by (simp add: lookup_def a_def Let_def)
    next
      case True
      obtain res b where r: "restore_read lk sid a = (res, b)" by force
      have "au_repo b = au_repo a" "au_restoring b = au_restoring a" "stored_rows b = stored_rows a"
        using restore_read_state[OF r] by (simp_all add: stored_rows_def)
      then have b: "auth_ok ?now b" using same_keeps(1) a by metis
      show ?thesis
      proof (cases res)
        case (Inl refused)
        then have "lookup lk sid au = (refused, b)" using None True r by (simp add: lookup_def a_def Let_def)
        moreover have "lu_session refused = None" using r Inl
          by (auto simp: restore_read_def cutoff_refusal_def Let_def split: option.splits prod.splits bool.splits if_splits)
        ultimately show ?thesis using b by simp
      next
        case (Inr s)
        have eq: "lookup lk sid au = restore_commit ?now s b" using None True r Inr by (simp add: lookup_def a_def Let_def)
        from restored_candidate[OF r[unfolded Inr]] obtain sx row where c: "au_store a = Some sx"
          "map_of (sx_sessions sx) sid = Some row" "se_session_id s = sid" "se_created_at s = sd_created_at row"
          "se_max_age s \<le> ANONYMOUS_MAX_AGE" by blast
        then have "(sid, row) \<in> set (stored_rows a)" by (auto simp: stored_rows_def dest: map_of_SomeD)
        then have old: "se_created_at s \<le> ?now" using a c(4) by (auto simp: auth_ok_def)
        have "se_session_id s' = sid" if "lu_session (fst (restore_commit ?now s b)) = Some s'" for s'
          using that b c(3) by (auto simp: restore_commit_def Let_def auth_ok_def split: if_splits option.splits)
        then show ?thesis unfolding eq using restore_commit_keeps_ok[OF b old c(5)] by simp
      qed
    qed
  qed
qed

text \<open>What a session that was used looks like in the cache.\<close>

lemma persist_cached:
  assumes "map_of (sr_sessions (au_repo au)) k = Some c"
    and "\<And>k s. map_of (sr_sessions (au_repo au)) k = Some s \<Longrightarrow> se_session_id s = k"
  shows "\<exists>p. map_of (sr_sessions (au_repo (persist io s au))) k = Some (c\<lparr>se_persisted_last_used_at := p\<rparr>)"
proof (cases "persist io s au = au")
  case True
  have "c = c\<lparr>se_persisted_last_used_at := se_persisted_last_used_at c\<rparr>" by simp
  then show ?thesis using assms(1) True by metis
next
  case False
  then obtain sx c' where d: "au_store au = Some sx" "cached_same s (au_repo au) = Some c'" "\<not> se_sign_in_only s"
    by (auto simp: persist_def split: option.splits if_splits)
  from cached_same_Some[OF d(2)] have held: "map_of (sr_sessions (au_repo au)) (se_session_id s) = Some c'" .
  then have id: "se_session_id c' = se_session_id s" by (rule assms(2))
  let ?c = "c'\<lparr>se_persisted_last_used_at := Some (se_last_used_at c')\<rparr>"
  have repo: "sr_sessions (au_repo (persist io s au)) = AList.update (se_session_id s) ?c (sr_sessions (au_repo au))"
    using d id by (simp add: persist_def Let_def)
  show ?thesis
  proof (cases "k = se_session_id s")
    case True
    then have "c' = c" using held assms(1) by simp
    then show ?thesis unfolding repo using True by auto
  next
    case False
    have "c = c\<lparr>se_persisted_last_used_at := se_persisted_last_used_at c\<rparr>" by simp
    then show ?thesis unfolding repo using False assms(1) by (metis map_of_update)
  qed
qed

lemma persist_touch_cached:
  assumes "map_of (sr_sessions (au_repo au)) k = Some c"
    and "\<And>k s. map_of (sr_sessions (au_repo au)) k = Some s \<Longrightarrow> se_session_id s = k"
  shows "\<exists>p. map_of (sr_sessions (au_repo (persist_touch io s au))) k = Some (c\<lparr>se_persisted_last_used_at := p\<rparr>)"
proof (cases "persist_touch io s au = au")
  case True
  have "c = c\<lparr>se_persisted_last_used_at := se_persisted_last_used_at c\<rparr>" by simp
  then show ?thesis using assms(1) True by metis
next
  case False
  then have "persist_touch io s au = persist io s au" by (auto simp: persist_touch_def split: option.splits if_splits)
  then show ?thesis using persist_cached[OF assms] by simp
qed

lemma used_session:
  assumes "auth_ok now au" and "use_session now io csrf s au = (Some c, au')"
  shows "se_session_id c = se_session_id s \<and>
    (\<exists>c0. map_of (sr_sessions (au_repo au)) (se_session_id s) = Some c0 \<and> \<not> is_expired now c0 \<and> se_ref c0 = se_ref s \<and>
       c = (case csrf of None \<Rightarrow> c0\<lparr>se_last_used_at := now\<rparr> | Some t \<Rightarrow> c0\<lparr>se_last_used_at := now, se_csrf_token := t\<rparr>)) \<and>
    (\<exists>p. map_of (sr_sessions (au_repo au')) (se_session_id s) = Some (c\<lparr>se_persisted_last_used_at := p\<rparr>))"
proof -
  from assms(2) obtain c0 where c0: "cached_same s (au_repo au) = Some c0" "\<not> is_expired now c0"
    by (auto simp: use_session_def split: option.splits if_splits)
  have id: "se_session_id c0 = se_session_id s" using cached_same_Some[OF c0(1)] assms(1) by (auto simp: auth_ok_def)
  let ?c = "(case csrf of None \<Rightarrow> c0\<lparr>se_last_used_at := now\<rparr> | Some t \<Rightarrow> c0\<lparr>se_last_used_at := now, se_csrf_token := t\<rparr>)"
  let ?au = "au\<lparr>au_repo := (au_repo au)\<lparr>sr_sessions := AList.update (se_session_id s) ?c (sr_sessions (au_repo au))\<rparr>\<rparr>"
  have eq: "use_session now io csrf s au = (Some ?c, if csrf \<noteq> None then persist io ?c ?au else persist_touch io ?c ?au)"
    using c0 id by (simp add: use_session_def Let_def split: option.split)
  have cid: "se_session_id ?c = se_session_id s" using id by (simp split: option.split)
  have held: "map_of (sr_sessions (au_repo ?au)) (se_session_id s) = Some ?c" by simp
  have keys: "se_session_id s' = k" if "map_of (sr_sessions (au_repo ?au)) k = Some s'" for k s'
    using that assms(1) cid by (auto simp: auth_ok_def split: if_splits)
  have "\<exists>p. map_of (sr_sessions (au_repo (if csrf \<noteq> None then persist io ?c ?au else persist_touch io ?c ?au))) (se_session_id s)
      = Some (?c\<lparr>se_persisted_last_used_at := p\<rparr>)"
  proof (cases "csrf = None")
    case True
    show ?thesis using persist_touch_cached[OF held keys, of io ?c] by (subst if_not_P) (use True in simp_all)
  next
    case False
    show ?thesis using persist_cached[OF held keys, of io ?c] by (subst if_P) (use False in simp_all)
  qed
  moreover have "se_ref c0 = se_ref s" using c0(1) by (auto simp: cached_same_def split: option.splits if_splits)
  ultimately show ?thesis using assms(2) cid cached_same_Some[OF c0(1)] c0(2) unfolding eq by auto
qed

section \<open>Who a request is\<close>

lemma use_keeps_ok: "auth_ok now au \<Longrightarrow> auth_ok now (snd (use_session now io csrf s au))"
  using use_keeps by blast

text \<open>C18. A request is only ever authenticated in two ways. With a session cookie: by the session cached under exactly
  that id once it was looked up, which at the time of use was past neither its idle limit (since its last use) nor its age
  limit (since it was created); the use is recorded on that session and nothing else of it changes. Without a cookie: the
  legacy header, only where the deployment is not production and switched it on. Every other request is answered 401.\<close>

theorem authenticated_requests:
  assumes "auth_ok (lk_now (ie_look ie)) au" and "lk_now (ie_look ie) \<le> ie_now ie"
  shows "case require_session cfg parse_uuid legacy_id ie reason_lk rq au of
     (Inr sc, au') \<Rightarrow>
       (if sc_legacy sc then
          as_environment cfg \<noteq> ENV_PRODUCTION \<and> as_legacy_enabled cfg
          \<and> map_of (rq_cookies rq) (get_session_cookie_name cfg) \<in> {None, Some []}
          \<and> (\<exists>h. rq_account_header rq = Some h \<and> parse_uuid h = Some (sc_account_id sc)) \<and> au' = au
        else
          map_of (rq_cookies rq) (get_session_cookie_name cfg) = Some (sc_session_id sc)
          \<and> (\<exists>s p. map_of (sr_sessions (au_repo (snd (lookup (ie_look ie) (sc_session_id sc) au)))) (sc_session_id sc) = Some s
               \<and> ie_now ie - se_last_used_at s \<le> se_idle_limit s \<and> ie_now ie - se_created_at s \<le> se_max_age s
               \<and> sc = context_of (s\<lparr>se_last_used_at := ie_now ie\<rparr>)
               \<and> map_of (sr_sessions (au_repo au')) (sc_session_id sc)
                   = Some (s\<lparr>se_last_used_at := ie_now ie, se_persisted_last_used_at := p\<rparr>)))
   | (Inl e, au') \<Rightarrow> auth_status e = Some 401"
proof (cases "map_of (rq_cookies rq) (get_session_cookie_name cfg) \<in> {None, Some []}")
  case True
  then show ?thesis by (auto simp: require_session_def Let_def legacy_path_allowed_def legacy_context_def split: option.splits)
next
  case False
  then obtain sid where sid: "map_of (rq_cookies rq) (get_session_cookie_name cfg) = Some sid" "sid \<noteq> []" by auto
  obtain found a where l: "lookup (ie_look ie) sid au = (found, a)" by force
  have a: "auth_ok (ie_now ie) a" and id: "\<And>s. lu_session found = Some s \<Longrightarrow> se_session_id s = sid"
    using lookup_keeps[OF assms(1), of sid] auth_ok_later[OF _ assms(2)] by (auto simp: l)
  show ?thesis
  proof (cases "lu_unchecked found = None \<and> lu_session found \<noteq> None")
    case False
    then show ?thesis using sid l
      by (auto simp: require_session_def Let_def session_ended_def split: option.splits)
  next
    case True
    then obtain s where s: "lu_unchecked found = None" "lu_session found = Some s" by auto
    show ?thesis
    proof (cases "use_session (ie_now ie) (ie_io ie) None s a")
      case (Pair r b)
      show ?thesis
      proof (cases r)
        case None
        then show ?thesis using sid l s Pair by (simp add: require_session_def session_ended_def)
      next
        case (Some c)
        note u = used_session[OF a Pair[unfolded Some]]
        then obtain c0 p where c0: "\<not> is_expired (ie_now ie) c0" "c = c0\<lparr>se_last_used_at := ie_now ie\<rparr>"
          "map_of (sr_sessions (au_repo a)) (se_session_id s) = Some c0"
          "map_of (sr_sessions (au_repo b)) (se_session_id s) = Some (c\<lparr>se_persisted_last_used_at := p\<rparr>)"
          "se_session_id c = se_session_id s" by auto
        have res: "require_session cfg parse_uuid legacy_id ie reason_lk rq au = (Inr (context_of c), b)"
          using sid l s Pair Some by (simp add: require_session_def)
        moreover have "sc_session_id (context_of c) = sid" "\<not> sc_legacy (context_of c)"
          using c0(5) id[OF s(2)] by (simp_all add: context_of_def)
        moreover have "ie_now ie - se_last_used_at c0 \<le> se_idle_limit c0 \<and> ie_now ie - se_created_at c0 \<le> se_max_age c0"
          using c0(1) by (simp add: is_expired_def)
        ultimately show ?thesis unfolding res using c0(2-4) id[OF s(2)] sid(1) l by auto
      qed
    qed
  qed
qed

definition sample_env :: "micros \<Rightarrow> string \<Rightarrow> issue_env" where
  "sample_env now sid = \<lparr>ie_look = calm_look now, ie_now = now, ie_io = True, ie_session_id = sid, ie_csrf = ''tok'', ie_account = 7,
     ie_lands = True, ie_clk = 0, ie_readable = True\<rparr>"

definition sample_settings :: auth_settings where
  "sample_settings = \<lparr>as_environment = ENV_PRODUCTION, as_cookie_secure = True, as_legacy_enabled = False, as_mint_override = None,
     as_spend_per_session = False, as_signed_in_idle_minutes = 120\<rparr>"

definition sample_scope :: http_scope where
  "sample_scope = \<lparr>hs_client = Some (''h'', 1), hs_headers = [], hs_scheme = ''https''\<rparr>"

definition sample_request :: "string \<Rightarrow> auth_request" where
  "sample_request sid = \<lparr>rq_cookies = [(''__Host-quorum_session'', sid)], rq_account_header = None, rq_csrf_header = Some ''tok'',
     rq_csrf_alias = None, rq_scope = sample_scope\<rparr>"

lemmas auth_sample = sample_env_def sample_settings_def sample_request_def calm_look_def get_session_cookie_name_def

lemma fresh_auth_ok: "auth_ok now fresh_auth"
  by (simp add: auth_ok_def fresh_auth_def new_session_repo_def stored_rows_def open_store_def)

lemma authenticated_requests_witness:
  "case require_session sample_settings (\<lambda>h. None) (\<lambda>a. []) (sample_env 5 ''new'') (calm_look 5) (sample_request ''sid'') fresh_auth of
     (Inr sc, au') \<Rightarrow> sc_session_id sc = ''sid'' | (Inl e, au') \<Rightarrow> auth_status e = Some 401"
proof -
  have "auth_ok (lk_now (ie_look (sample_env 5 ''new''))) fresh_auth" by (rule fresh_auth_ok)
  from authenticated_requests[OF this, where cfg = sample_settings and parse_uuid = "\<lambda>h. None" and legacy_id = "\<lambda>a. []"
      and reason_lk = "calm_look 5" and rq = "sample_request ''sid''"]
  show ?thesis by (auto simp: auth_sample split: prod.splits sum.splits if_splits)
qed

section \<open>The session just issued\<close>

lemma created_session:
  assumes "auth_ok now au" and "create_session now io sid csrf account idle only max_age au = (s, au')" and "max_age \<le> ANONYMOUS_MAX_AGE"
  shows "s = \<lparr>se_ref = au_next_ref au, se_session_id = sid, se_account_id = account, se_csrf_token = csrf,
               se_created_at = now, se_last_used_at = now, se_persisted_last_used_at = None,
               se_idle_limit = idle, se_sign_in_only = only, se_max_age = max_age, se_kind_known = True\<rparr>
    \<and> auth_ok now au' \<and> (\<exists>p. map_of (sr_sessions (au_repo au')) sid = Some (s\<lparr>se_persisted_last_used_at := p\<rparr>))"
proof -
  have s: "s = \<lparr>se_ref = au_next_ref au, se_session_id = sid, se_account_id = account, se_csrf_token = csrf,
               se_created_at = now, se_last_used_at = now, se_persisted_last_used_at = None,
               se_idle_limit = idle, se_sign_in_only = only, se_max_age = max_age, se_kind_known = True\<rparr>"
    using assms(2) by (simp add: create_session_def Let_def)
  let ?sr = "snd (purge_cached now (au_repo au))"
  let ?b = "au\<lparr>au_repo := ?sr\<lparr>sr_sessions := AList.update sid s (sr_sessions ?sr)\<rparr>, au_next_ref := au_next_ref au + 1\<rparr>"
  have eq: "au' = persist io s ?b" using assms(2) by (auto simp: create_session_def Let_def)
  have keys: "se_session_id s' = k" if "map_of (sr_sessions (au_repo ?b)) k = Some s'" for k s'
    using that purged_sessions[of now "au_repo au"] assms(1) s by (auto simp: auth_ok_def split: if_splits)
  have held: "map_of (sr_sessions (au_repo ?b)) sid = Some s" by simp
  obtain other where "sid \<noteq> other" by (metis not_Cons_self)
  then have "auth_ok now au'" using create_keeps[OF assms(1,3), of sid other io csrf account idle only] assms(2) by simp
  then show ?thesis using s persist_cached[OF held keys, of io s] by (simp add: eq)
qed

lemma dict_ok_persist: "dict_ok (sr_sessions (au_repo au)) \<Longrightarrow> dict_ok (sr_sessions (au_repo (persist io s au)))"
  by (simp add: persist_def Let_def dict_ok_update split: option.split)

lemma dict_ok_created:
  "dict_ok (sr_sessions (au_repo au)) \<Longrightarrow>
   dict_ok (sr_sessions (au_repo (snd (create_session now io sid csrf account idle only max_age au))))"
  by (simp add: create_session_def Let_def dict_ok_persist dict_ok_update dict_ok_purged)

text \<open>A cached anonymous session within its limits is found and used.\<close>

lemma live_session_is_used:
  assumes "auth_ok t0 au" and "dict_ok (sr_sessions (au_repo au))" and "map_of (sr_sessions (au_repo au)) sid = Some s"
    and "se_max_age s = ANONYMOUS_MAX_AGE" and "\<not> is_expired (lk_now lk) s" and "\<not> is_expired now s" and "t0 \<le> lk_now lk"
  shows "\<exists>au'. lookup lk sid au = (Lookup (Some s) None, au') \<and> map_of (sr_sessions (au_repo au')) sid = Some s \<and>
    fst (use_session now io None s au') = Some (s\<lparr>se_last_used_at := now\<rparr>)"
proof -
  let ?a = "au\<lparr>au_repo := snd (purge_cached (lk_now lk) (au_repo au))\<rparr>"
  have id: "se_session_id s = sid" using assms(1,3) by (auto simp: auth_ok_def)
  have held: "map_of (sr_sessions (au_repo ?a)) sid = Some s"
    using purge_spares[OF assms(2) _ assms(3,5)] assms(1) by (auto simp: auth_ok_def)
  have look: "lookup lk sid au = (Lookup (Some s) None, ?a)"
    using held assms(4) by (simp add: lookup_def Let_def check_cached_def)
  have "cached_same s (au_repo ?a) = Some s" using held id by (simp add: cached_same_def)
  then have "fst (use_session now io None s ?a) = Some (s\<lparr>se_last_used_at := now\<rparr>)"
    using assms(6) by (simp add: use_session_def Let_def)
  with look held show ?thesis by blast
qed

text \<open>C19. What a visitor is issued works: the cookie and the CSRF token of a session just minted authenticate the
  browser's next request as that account for the two hours the session may idle, whatever the session store
  answers, pass the CSRF check, and are refused neither as sign-in only nor as too late for a run.\<close>

theorem issued_session_comes_back:
  assumes "auth_ok (ie_now ie) au" and "dict_ok (sr_sessions (au_repo au))"
    and "issue_or_resume_checked_session cfg ie None client_ip renew mint_cap (au, fs) = (Inr s, au', fs')"
    and "ie_session_id ie \<noteq> []" and "ie_csrf ie \<noteq> []" and "is_ascii (ie_csrf ie)"
    and "ie_now ie \<le> lk_now (ie_look ie')" and "lk_now (ie_look ie') \<le> ie_now ie'"
    and "ie_now ie' \<le> ie_now ie + SESSION_TTL"
    and "map_of (rq_cookies rq) (get_session_cookie_name cfg) = Some (ir_session_id (issued s))"
    and "rq_csrf_header rq = Some (ir_csrf_token (issued s))"
  shows "\<exists>sc. fst (require_session cfg parse_uuid legacy_id ie' reason_lk rq au') = Inr sc
      \<and> sc_account_id sc = ir_account_id (issued s)
      \<and> enforce_csrf cfg rq sc = CSRF_OK \<and> refuse_sign_in_only sc = None
      \<and> fst (refuse_if_session_ends_soon (ie_look ie') reason_lk (ie_now ie') offered ended sc au') = None"
proof -
  obtain account fs0 where c: "create_session (ie_now ie) (ie_io ie) (ie_session_id ie) (ie_csrf ie) account
      SESSION_TTL False ANONYMOUS_MAX_AGE au = (s, au')"
    using assms(3) by (auto simp: issue_or_resume_checked_session_def mint_session_def Let_def
        split: option.splits prod.splits bool.splits)
  note k = created_session[OF assms(1) c order.refl]
  then obtain p where s: "s = \<lparr>se_ref = au_next_ref au, se_session_id = ie_session_id ie, se_account_id = account,
      se_csrf_token = ie_csrf ie, se_created_at = ie_now ie, se_last_used_at = ie_now ie, se_persisted_last_used_at = None,
      se_idle_limit = SESSION_TTL, se_sign_in_only = False, se_max_age = ANONYMOUS_MAX_AGE, se_kind_known = True\<rparr>"
    and ok: "auth_ok (ie_now ie) au'"
    and held: "map_of (sr_sessions (au_repo au')) (ie_session_id ie) = Some (s\<lparr>se_persisted_last_used_at := p\<rparr>)" by blast
  let ?s = "s\<lparr>se_persisted_last_used_at := p\<rparr>"
  have d: "dict_ok (sr_sessions (au_repo au'))" using dict_ok_created[OF assms(2)] c by (metis snd_conv)
  have live: "\<not> is_expired (lk_now (ie_look ie')) ?s" "\<not> is_expired (ie_now ie') ?s"
    using assms(7-9) s by (simp_all add: is_expired_def SESSION_TTL_def ANONYMOUS_MAX_AGE_def)
  obtain b where b: "lookup (ie_look ie') (ie_session_id ie) au' = (Lookup (Some ?s) None, b)"
    "fst (use_session (ie_now ie') (ie_io ie') None ?s b) = Some (?s\<lparr>se_last_used_at := ie_now ie'\<rparr>)"
    using live_session_is_used[OF ok d held _ live(1,2) assms(7), of "ie_io ie'"] s by auto
  let ?sc = "context_of (?s\<lparr>se_last_used_at := ie_now ie'\<rparr>)"
  have "fst (require_session cfg parse_uuid legacy_id ie' reason_lk rq au') = Inr ?sc"
  proof -
    obtain r where r: "use_session (ie_now ie') (ie_io ie') None ?s b = (Some (?s\<lparr>se_last_used_at := ie_now ie'\<rparr>), r)"
      using b(2) by (metis prod.collapse)
    show ?thesis using assms(4,10) b(1) r s by (simp add: require_session_def issued_def)
  qed
  moreover have "sc_account_id ?sc = ir_account_id (issued s)" by (simp add: context_of_def issued_def)
  moreover have "enforce_csrf cfg rq ?sc = CSRF_OK" using assms(5,6,11) s
    by (simp add: enforce_csrf_def context_of_def issued_def)
  moreover have "refuse_sign_in_only ?sc = None" using s by (simp add: refuse_sign_in_only_def context_of_def)
  moreover have "fst (refuse_if_session_ends_soon (ie_look ie') reason_lk (ie_now ie') offered ended ?sc au') = None"
    using b(1) assms(7-9) s
    by (simp add: refuse_if_session_ends_soon_def context_of_def max_age_end_def LATE_RUN_REFUSAL_def SESSION_TTL_def ANONYMOUS_MAX_AGE_def)
  ultimately show ?thesis by blast
qed

lemma issued_session_comes_back_witness:
  "case issue_or_resume_checked_session sample_settings (sample_env 5 ''new'') None (Some ''9.9.9.9'') False None (fresh_auth, Some new_feedback_store) of
     (Inl e, st) \<Rightarrow> False
   | (Inr s, au', fs') \<Rightarrow> \<exists>sc. fst (require_session sample_settings (\<lambda>h. None) (\<lambda>a. []) (sample_env 9 ''other'') (calm_look 9)
       (sample_request ''new'') au') = Inr sc \<and> sc_account_id sc = 7"
proof -
  have d: "dict_ok (sr_sessions (au_repo fresh_auth))" by (simp add: fresh_auth_def new_session_repo_def)
  obtain s au' fs' where e: "issue_or_resume_checked_session sample_settings (sample_env 5 ''new'') None (Some ''9.9.9.9'') False None
      (fresh_auth, Some new_feedback_store) = (Inr s, au', fs')" and s: "se_session_id s = ''new''" "se_csrf_token s = ''tok''" "se_account_id s = 7"
    by (simp add: issue_or_resume_checked_session_def mint_session_def auth_sample enforce_production_guards_def
        effective_session_mint_cap_def SESSION_MINT_CAP_PER_IP_def try_record_session_mint_def mints_of_def new_feedback_store_def
        create_session_def Let_def)
  have "\<exists>sc. fst (require_session sample_settings (\<lambda>h. None) (\<lambda>a. []) (sample_env 9 ''other'') (calm_look 9)
       (sample_request ''new'') au') = Inr sc \<and> sc_account_id sc = ir_account_id (issued s)
      \<and> enforce_csrf sample_settings (sample_request ''new'') sc = CSRF_OK \<and> refuse_sign_in_only sc = None
      \<and> fst (refuse_if_session_ends_soon (ie_look (sample_env 9 ''other'')) (calm_look 9) (ie_now (sample_env 9 ''other'')) True True sc au') = None"
    by (rule issued_session_comes_back[OF _ d e]) (simp_all add: auth_sample fresh_auth_ok is_ascii_def code_def SESSION_TTL_def issued_def s)
  then show ?thesis using s e by (auto simp: issued_def)
qed

section \<open>The CSRF check\<close>

text \<open>A request of a browser session passes the CSRF check exactly when it presents that session's own token, in
  \<^verbatim>\<open>X-CSRF-Token\<close> or, where that is missing or empty, in \<^verbatim>\<open>X-CSRF\<close>; with any other ASCII value or none it is
  refused 403. A value with a character above 127 is neither: the comparison raises and nothing catches it.\<close>

theorem csrf_needs_the_token:
  assumes "\<not> sc_legacy sc" and "sc_csrf_token sc \<noteq> []" and "is_ascii (sc_csrf_token sc)"
  shows "enforce_csrf cfg rq sc =
    (let shown = (if rq_csrf_header rq \<in> {None, Some []} then rq_csrf_alias rq else rq_csrf_header rq) in
     if shown = Some (sc_csrf_token sc) then CSRF_OK
     else if (\<exists>t c. shown = Some t \<and> c \<in> set t \<and> 128 \<le> code c) then CSRF_RAISES
     else CSRF_REFUSED CSRF_INVALID)"
proof -
  let ?shown = "if rq_csrf_header rq \<in> {None, Some []} then rq_csrf_alias rq else rq_csrf_header rq"
  have "(case rq_csrf_header rq of Some t \<Rightarrow> if t \<noteq> [] then Some t else rq_csrf_alias rq | None \<Rightarrow> rq_csrf_alias rq) = ?shown"
    by (simp split: option.split)
  then show ?thesis using assms
    by (cases ?shown) (auto simp: enforce_csrf_def Let_def is_ascii_def not_less)
qed

lemma csrf_needs_the_token_witness:
  "enforce_csrf sample_settings (sample_request ''x'') (context_of (restored_session (calm_look 0) 0 None
     \<lparr>sd_session_id = ''x'', sd_account_id = 1, sd_csrf_token = ''tok'', sd_created_at = 0, sd_last_used_at = 0\<rparr>)) = CSRF_OK"
  by (subst csrf_needs_the_token) (simp_all add: context_of_def restored_session_def is_ascii_def code_def sample_request_def)

section \<open>How many sessions a network is given\<close>

datatype visit = Visit (vi_env: issue_env) (vi_presented: "string option") (vi_ip: "string option") (vi_renew: bool)

text \<open>\<open>caps\<close> gives the cap of a key where it is not the default: an invite link counts under its own key and cap.\<close>

definition cap_for :: "auth_settings \<Rightarrow> (string \<Rightarrow> nat option) \<Rightarrow> string \<Rightarrow> nat" where
  "cap_for cfg caps ip = (case caps ip of None \<Rightarrow> effective_session_mint_cap cfg | Some n \<Rightarrow> n)"

definition visit_step :: "auth_settings \<Rightarrow> (string \<Rightarrow> nat option) \<Rightarrow> visit \<Rightarrow> auth_state \<times> feedback_store option
    \<Rightarrow> (auth_error + session) \<times> auth_state \<times> feedback_store option" where
  "visit_step cfg caps v st =
     issue_or_resume_checked_session cfg (vi_env v) (vi_presented v) (vi_ip v) (vi_renew v) (Option.bind (vi_ip v) caps) st"

text \<open>A visit from that address that is handed another session than the one it presented.\<close>

definition is_new :: "string \<Rightarrow> visit \<Rightarrow> auth_error + session \<Rightarrow> bool" where
  "is_new ip v res = (vi_ip v = Some ip \<and> (case res of Inl e \<Rightarrow> False | Inr s \<Rightarrow> vi_presented v \<noteq> Some (se_session_id s)))"

fun visits_new :: "string \<Rightarrow> auth_settings \<Rightarrow> (string \<Rightarrow> nat option) \<Rightarrow> auth_state \<times> feedback_store option \<Rightarrow> visit list \<Rightarrow> nat" where
  "visits_new ip cfg caps st [] = 0"
| "visits_new ip cfg caps st (v # vs) =
     (case visit_step cfg caps v st of (res, st') \<Rightarrow> (if is_new ip v res then 1 else 0) + visits_new ip cfg caps st' vs)"

fun visits_clocked :: "micros \<Rightarrow> visit list \<Rightarrow> bool" where
  "visits_clocked t [] = True"
| "visits_clocked t (v # vs) =
     (t \<le> lk_now (ie_look (vi_env v)) \<and> lk_now (ie_look (vi_env v)) \<le> ie_now (vi_env v) \<and> visits_clocked (ie_now (vi_env v)) vs)"

lemma mint_session_step:
  assumes "auth_ok (ie_now ie) au" and "mint_session cfg ie None client_ip (Option.bind client_ip caps) (au, Some fs) = (res, au', fo)"
  shows "auth_ok (ie_now ie) au' \<and>
    (\<exists>fs'. fo = Some fs' \<and>
      (fs' = fs \<and> (client_ip = None \<or> (\<exists>e. res = Inl e)) \<or>
       (\<exists>ip account. client_ip = Some ip \<and>
          length (mints_of ip (ie_now ie - DAY) (fs_rows fs)) < cap_for cfg caps ip \<and>
          fs_rows fs' = (if ie_lands ie then fs_rows fs @ [mint_row account ip (ie_now ie)] else fs_rows fs))))"
proof -
  let ?create = "create_session (ie_now ie) (ie_io ie) (ie_session_id ie) (ie_csrf ie) (ie_account ie)
      SESSION_TTL False ANONYMOUS_MAX_AGE au"
  have ok: "auth_ok (ie_now ie) (snd ?create)"
    using created_session[OF assms(1), of _ _ _ _ _ _ _ "fst ?create" "snd ?create"] by simp
  show ?thesis
  proof (cases "enforce_production_guards cfg True")
    case (Some e)
    then show ?thesis using assms by (auto simp: mint_session_def)
  next
    case None
    show ?thesis
    proof (cases client_ip)
      case n: None
      then show ?thesis using None assms(2) ok by (auto simp: mint_session_def Let_def split: prod.splits)
    next
      case (Some ip)
      show ?thesis
      proof (cases "cap_for cfg caps ip \<le> length (mints_of ip (ie_now ie - DAY) (fs_rows fs))")
        case True
        then show ?thesis using None Some assms by (auto simp: mint_session_def Let_def try_record_session_mint_def cap_for_def)
      next
        case False
        let ?fs = "snd (insert_event (ie_lands ie) (ie_clk ie) (mint_row (ie_account ie) ip (ie_now ie)) fs)"
        have "au' = snd ?create \<and> fo = Some ?fs"
          using None Some False assms(2) by (auto simp: mint_session_def Let_def try_record_session_mint_def cap_for_def split: prod.splits)
        then show ?thesis using Some False ok insert_event_rows(1)[of "ie_lands ie" "ie_clk ie" "mint_row (ie_account ie) ip (ie_now ie)" fs] by fastforce
      qed
    qed
  qed
qed

lemma visit_keeps:
  assumes ok: "auth_ok (lk_now (ie_look (vi_env v))) au" and t: "lk_now (ie_look (vi_env v)) \<le> ie_now (vi_env v)"
    and step: "visit_step cfg caps v (au, Some fs) = (res, au', fo)"
  shows "auth_ok (ie_now (vi_env v)) au' \<and>
    (\<exists>fs'. fo = Some fs' \<and>
      (fs' = fs \<and> \<not> is_new ip v res \<or>
       (\<exists>ip' account. vi_ip v = Some ip' \<and>
          length (mints_of ip' (ie_now (vi_env v) - DAY) (fs_rows fs)) < cap_for cfg caps ip' \<and>
          fs_rows fs' = (if ie_lands (vi_env v) then fs_rows fs @ [mint_row account ip' (ie_now (vi_env v))] else fs_rows fs))))"
proof -
  let ?ie = "vi_env v"
  have minted: ?thesis if a: "auth_ok (ie_now ?ie) a" and m: "mint_session cfg ?ie None (vi_ip v) (Option.bind (vi_ip v) caps) (a, Some fs) = (res, au', fo)" for a
    using mint_session_step[OF a m] by (auto simp: is_new_def)
  have ok': "auth_ok (ie_now ?ie) au" using auth_ok_later[OF ok t] .
  show ?thesis
  proof (cases "enforce_production_guards cfg True \<noteq> None \<or> vi_presented v = None \<or> vi_presented v = Some []")
    case True
    then show ?thesis
      using step ok' minted[OF ok'] by (auto simp: visit_step_def issue_or_resume_checked_session_def Let_def is_new_def split: option.splits)
  next
    case False
    then obtain sid where sid: "vi_presented v = Some sid" "sid \<noteq> []" "enforce_production_guards cfg True = None" by auto
    obtain found a where l: "lookup (ie_look ?ie) sid au = (found, a)" by force
    have a: "auth_ok (ie_now ?ie) a" and id: "\<And>s. lu_session found = Some s \<Longrightarrow> se_session_id s = sid"
      using lookup_keeps[OF ok, of sid] auth_ok_later[OF _ t] by (auto simp: l)
    show ?thesis
    proof (cases "lu_unchecked found = None")
      case False
      then show ?thesis using step sid l a
        by (auto simp: visit_step_def issue_or_resume_checked_session_def is_new_def)
    next
      case True
      show ?thesis
      proof (cases "lu_session found")
        case None
        then show ?thesis using step sid l True minted[OF a]
          by (simp add: visit_step_def issue_or_resume_checked_session_def)
      next
        case (Some s)
        let ?u = "use_session (ie_now ?ie) (ie_io ?ie) (if vi_renew v then Some (ie_csrf ?ie) else None) s a"
        have u: "auth_ok (ie_now ?ie) (snd ?u)" by (rule use_keeps_ok[OF a])
        show ?thesis
        proof (cases "se_sign_in_only s \<or> is_expired (ie_now ?ie) s \<or> fst ?u = None")
          case True
          then have "mint_session cfg ?ie None (vi_ip v) (Option.bind (vi_ip v) caps) (a, Some fs) = (res, au', fo)
              \<or> mint_session cfg ?ie None (vi_ip v) (Option.bind (vi_ip v) caps) (snd ?u, Some fs) = (res, au', fo)"
            using step sid l \<open>lu_unchecked found = None\<close> Some
            by (cases ?u) (auto simp: visit_step_def issue_or_resume_checked_session_def split: if_splits)
          then show ?thesis using minted[OF a] minted[OF u] by blast
        next
          case False
          then obtain c b where c: "?u = (Some c, b)" by (cases ?u) auto
          then have "se_session_id c = sid" using used_session[OF a c] id[OF Some] by simp
          moreover have "res = Inr c" "au' = b" "fo = Some fs"
            using step sid l \<open>lu_unchecked found = None\<close> Some False c
            by (auto simp: visit_step_def issue_or_resume_checked_session_def)
          ultimately show ?thesis using u c sid(1) by (simp add: is_new_def)
        qed
      qed
    qed
  qed
qed

lemma mints_of_one: "c \<le> now \<Longrightarrow> mints_of ip c [mint_row account ip now] = [mint_row account ip now]"
  by (simp add: mints_of_def mint_row_def)

text \<open>The visits of a key whose row the ledger lost.\<close>

definition lost_mints :: "string \<Rightarrow> visit list \<Rightarrow> nat" where
  "lost_mints ip vs = length (filter (\<lambda>v. vi_ip v = Some ip \<and> \<not> ie_lands (vi_env v)) vs)"

lemma visits_new_counted:
  assumes "auth_ok t au" and "visits_clocked t vs" and "\<forall>v \<in> set vs. T - DAY \<le> ie_now (vi_env v) \<and> ie_now (vi_env v) \<le> T"
  shows "visits_new ip cfg caps (au, Some fs) vs + length (mints_of ip (T - DAY) (fs_rows fs))
    \<le> max (cap_for cfg caps ip) (length (mints_of ip (T - DAY) (fs_rows fs))) + lost_mints ip vs"
  using assms
proof (induction vs arbitrary: t au fs)
  case (Cons v vs)
  obtain res au' fo where step: "visit_step cfg caps v (au, Some fs) = (res, au', fo)" by (metis prod.exhaust)
  have "auth_ok (lk_now (ie_look (vi_env v))) au" using Cons.prems(1,2) auth_ok_later by auto
  note k = visit_keeps[OF this _ step, of ip]
  then obtain fs' where fs': "fo = Some fs'" and ok: "auth_ok (ie_now (vi_env v)) au'" using Cons.prems(2) by auto
  let ?cap = "cap_for cfg caps ip" and ?m = "\<lambda>fs. length (mints_of ip (T - DAY) (fs_rows fs))"
  let ?lost = "if vi_ip v = Some ip \<and> \<not> ie_lands (vi_env v) then 1 else 0 :: nat"
  have rest: "visits_new ip cfg caps (au', Some fs') vs + ?m fs' \<le> max ?cap (?m fs') + lost_mints ip vs"
    using Cons.IH[OF ok, of fs'] Cons.prems(2,3) by simp
  have here: "visits_new ip cfg caps (au, Some fs) (v # vs) = (if is_new ip v res then 1 else 0) + visits_new ip cfg caps (au', Some fs') vs"
    and lost: "lost_mints ip (v # vs) = ?lost + lost_mints ip vs"
    using step fs' by (simp_all add: lost_mints_def)
  from k fs' Cons.prems(2) consider "fs' = fs" "\<not> is_new ip v res"
    | ip' account where "vi_ip v = Some ip'" "length (mints_of ip' (ie_now (vi_env v) - DAY) (fs_rows fs)) < cap_for cfg caps ip'"
      "fs_rows fs' = (if ie_lands (vi_env v) then fs_rows fs @ [mint_row account ip' (ie_now (vi_env v))] else fs_rows fs)" by auto
  then show ?case
  proof cases
    case 1
    then show ?thesis unfolding here lost using rest by simp
  next
    case (2 ip' account)
    show ?thesis
    proof (cases "ip' = ip")
      case True
      have "?m fs \<le> length (mints_of ip (ie_now (vi_env v) - DAY) (fs_rows fs))" using Cons.prems(3) by (intro length_mints_later) simp
      then have room: "?m fs < ?cap" using 2(2) True by simp
      show ?thesis
      proof (cases "ie_lands (vi_env v)")
        case l: True
        have "?m fs' = Suc (?m fs)" using 2(3) l True Cons.prems(3) by (simp add: mints_of_append mints_of_one)
        then show ?thesis unfolding here lost using rest room by simp
      next
        case False
        then show ?thesis unfolding here lost using rest 2(1,3) True by simp
      qed
    next
      case False
      then have "?m fs' = ?m fs" using 2(3) by (auto simp: mints_of_append) (simp add: mints_of_def mint_row_def)
      moreover have "\<not> is_new ip v res" using 2(1) False by (simp add: is_new_def)
      ultimately show ?thesis unfolding here lost using rest by simp
    qed
  qed
qed (simp add: lost_mints_def)

text \<open>C20. In any 24 hours, with the ledger open, the visitors that count under one key (an address with the default cap, an
  invite link with its own) are handed at most that key's cap of new sessions, plus one for every visit whose row the ledger
  failed to write: whatever cookies they present (none, ended, unknown, of another browser), whichever other visitors come in
  between and however the session store answers. Every other visit resumes the session it presents or is refused. A visit with
  no key, and every visit while no ledger is open, is not counted.\<close>

theorem new_sessions_capped:
  assumes "auth_ok t au" and "visits_clocked t vs"
    and "\<forall>v \<in> set vs. T - DAY \<le> ie_now (vi_env v) \<and> ie_now (vi_env v) \<le> T"
  shows "visits_new ip cfg caps (au, Some fs) vs \<le> cap_for cfg caps ip + lost_mints ip vs"
  using visits_new_counted[OF assms, of ip cfg caps fs] by linarith

lemma new_sessions_capped_witness:
  "visits_new ''9.9.9.9'' sample_settings (\<lambda>ip. None) (fresh_auth, Some new_feedback_store)
     [Visit (sample_env 5 ''a'') None (Some ''9.9.9.9'') False, Visit (sample_env 6 ''b'') (Some ''zz'') (Some ''9.9.9.9'') True,
      Visit (sample_env 7 ''c'') None (Some ''9.9.9.9'') False] \<le> 2"
proof -
  let ?vs = "[Visit (sample_env 5 ''a'') None (Some ''9.9.9.9'') False, Visit (sample_env 6 ''b'') (Some ''zz'') (Some ''9.9.9.9'') True,
      Visit (sample_env 7 ''c'') None (Some ''9.9.9.9'') False]"
  have "visits_new ''9.9.9.9'' sample_settings (\<lambda>ip. None) (fresh_auth, Some new_feedback_store) ?vs
      \<le> cap_for sample_settings (\<lambda>ip. None) ''9.9.9.9'' + lost_mints ''9.9.9.9'' ?vs"
    by (rule new_sessions_capped[where t = 0 and T = 10]) (simp_all add: fresh_auth_ok auth_sample DAY_def)
  then show ?thesis
    by (simp add: cap_for_def lost_mints_def sample_env_def effective_session_mint_cap_def sample_settings_def SESSION_MINT_CAP_PER_IP_def)
qed

section \<open>Whose allowance a run draws on\<close>

lemma lookup_store [simp]: "au_store (snd (lookup lk sid au)) = au_store au"
proof -
  have "au_store (snd (restore_commit now s a)) = au_store a" for now s a
    by (simp add: restore_commit_def Let_def split: option.split)
  moreover have "au_store (snd (check_cached lk s a)) = au_store a" for s a
    by (simp add: check_cached_def split: option.split prod.split bool.split)
  moreover have "restore_read lk sid a = (r, b) \<Longrightarrow> au_store b = au_store a" for a b r
    using restore_read_state by blast
  ultimately show ?thesis by (simp add: lookup_def Let_def split: option.split prod.split sum.split)
qed

definition account_row_of :: "uuid \<Rightarrow> auth_state \<Rightarrow> account_row option" where
  "account_row_of account au = (case au_store au of None \<Rightarrow> None | Some sx \<Rightarrow> map_of (sx_accounts sx) account)"

definition accounts_readable :: "auth_state \<Rightarrow> bool" where
  "accounts_readable au = (case au_store au of None \<Rightarrow> True | Some sx \<Rightarrow> sx_accounts_ready sx \<and> sx_accounts_table sx)"

text \<open>A run of a browser session draws on the allowance it should: the account's own where the account is signed in
  (the key its row carries, so that signing in again does not start a new allowance), the network's where it is
  anonymous; a session that may only sign in draws on none, nor does a session of an account being deleted that no
  longer has its row.\<close>

theorem meter_is_the_owners:
  assumes "\<not> sc_legacy sc" and "accounts_readable au"
    and "fst (spend_meter_for cfg al uuid_text key_of sv sc hs au) = Inr meter"
  shows "\<not> sc_sign_in_only sc \<and>
    (case account_row_of (sc_account_id sc) au of
       Some row \<Rightarrow> \<not> sm_shared_by_network meter
         \<and> sm_key meter = (case ac_spend_key row of None \<Rightarrow> sc_account_id sc | Some k \<Rightarrow> k)
     | None \<Rightarrow> sm_shared_by_network meter \<and> sm_key meter = anonymous_spend_key cfg al uuid_text key_of sc hs
         \<and> \<not> account_is_going (sv_now sv) (sc_account_id sc)
               (au_repo (snd (lookup (sv_look sv) (sc_session_id sc) au))))"
proof -
  obtain found a where l: "lookup (sv_look sv) (sc_session_id sc) au = (found, a)" by force
  then have store: "au_store a = au_store au" using lookup_store[of "sv_look sv" "sc_session_id sc" au] by simp
  have only: "\<not> sc_sign_in_only sc" using assms(1,3) by (auto simp: spend_meter_for_def refuse_sign_in_only_def split: if_splits)
  obtain s where s: "lu_unchecked found = None" "lu_session found = Some s"
    using assms(1,3) l only by (auto simp: spend_meter_for_def refuse_sign_in_only_def split: option.splits)
  show ?thesis
  proof (cases "au_store au")
    case None
    then show ?thesis using assms(1,3) l s only store
      by (auto simp: spend_meter_for_def refuse_sign_in_only_def account_row_of_def Let_def split: if_splits)
  next
    case (Some sx)
    then have r: "sx_accounts_ready sx" "sx_accounts_table sx" using assms(2) by (simp_all add: accounts_readable_def)
    show ?thesis using assms(1,3) l s only store Some r
      by (auto simp: spend_meter_for_def refuse_sign_in_only_def account_row_of_def Let_def stored_spend_key_for_def
          is_anonymous_def no_account_row_def split: if_splits option.splits bool.splits)
  qed
qed

definition sample_lib :: address_lib where
  "sample_lib = \<lparr>al_parse = (\<lambda>h. if h = ''h'' then Some (IPv6 (push_bit 112 0xFDAA)) else None), al_text = (\<lambda>a. ''t''),
     al_net_text = (\<lambda>w. nat_str (unat (drop_bit 64 w))), al_is_network = (\<lambda>s. s \<noteq> [])\<rparr>"

lemma meter_is_the_owners_witness:
  "case issue_or_resume_checked_session sample_settings (sample_env 5 ''new'') None None False None (fresh_auth, None) of
     (Inl e, st) \<Rightarrow> False
   | (Inr s, au', fs') \<Rightarrow> (case fst (spend_meter_for sample_settings sample_lib nat_str length \<lparr>sv_look = calm_look 6, sv_reason = calm_look 6,
         sv_key_io = True, sv_kind_io = True, sv_now = 6\<rparr> (context_of s) sample_scope au') of
       Inl e \<Rightarrow> False | Inr meter \<Rightarrow> sm_shared_by_network meter)"
proof -
  let ?sv = "\<lparr>sv_look = calm_look 6, sv_reason = calm_look 6, sv_key_io = True, sv_kind_io = True, sv_now = 6\<rparr>"
  obtain s au' fs' where e: "issue_or_resume_checked_session sample_settings (sample_env 5 ''new'') None None False None
      (fresh_auth, None) = (Inr s, au', fs')"
    by (simp add: issue_or_resume_checked_session_def mint_session_def auth_sample enforce_production_guards_def create_session_def Let_def)
  then have c: "create_session 5 True ''new'' ''tok'' 7 SESSION_TTL False ANONYMOUS_MAX_AGE fresh_auth = (s, au')"
    by (auto simp: issue_or_resume_checked_session_def mint_session_def auth_sample enforce_production_guards_def Let_def split: prod.splits)
  note k = created_session[OF fresh_auth_ok c order.refl]
  have d: "dict_ok (sr_sessions (au_repo au'))"
    using dict_ok_created[of fresh_auth] c by (metis dict_ok_Nil fresh_auth_def new_session_repo_def session_repo.select_convs(1) auth_state.select_convs(1) snd_conv)
  have store: "\<exists>sx. au_store au' = Some sx \<and> sx_accounts sx = [] \<and> sx_accounts_ready sx \<and> sx_accounts_table sx \<and> \<not> sx_closed sx"
    using c by (auto simp: session_eval fresh_auth_def open_store_def Let_def new_session_repo_def)
  from k obtain p where held: "map_of (sr_sessions (au_repo au')) ''new'' = Some (s\<lparr>se_persisted_last_used_at := p\<rparr>)" by blast
  obtain b where b: "lookup (calm_look 6) ''new'' au' = (Lookup (Some (s\<lparr>se_persisted_last_used_at := p\<rparr>)) None, b)"
    using live_session_is_used[OF conjunct1[OF conjunct2[OF k]] d held, of "calm_look 6" 6 True] k
    by (auto simp: calm_look_def is_expired_def SESSION_TTL_def ANONYMOUS_MAX_AGE_def)
  have repo: "account_is_going 6 7 (au_repo b) = False" using b c
    by (auto simp: lookup_def check_cached_def session_eval fresh_auth_def open_store_def Let_def new_session_repo_def calm_look_def
        account_is_going_def account_was_deleted_def is_expired_def SESSION_TTL_def ANONYMOUS_MAX_AGE_def)
  have m: "\<exists>meter. fst (spend_meter_for sample_settings sample_lib nat_str length ?sv (context_of s) sample_scope au') = Inr meter"
  proof -
    have "au_store b = au_store au'" using lookup_store[of "calm_look 6" "''new''" au'] b by simp
    then show ?thesis using b store repo k
      by (auto simp: spend_meter_for_def context_of_def refuse_sign_in_only_def Let_def stored_spend_key_for_def is_anonymous_def no_account_row_def)
  qed
  then obtain meter where m: "fst (spend_meter_for sample_settings sample_lib nat_str length ?sv (context_of s) sample_scope au') = Inr meter" by blast
  have "accounts_readable au'" using store by (auto simp: accounts_readable_def)
  from meter_is_the_owners[OF _ this m] store have "sm_shared_by_network meter"
    by (auto simp: context_of_def account_row_of_def)
  with m e show ?thesis by simp
qed

lemma same_network_key:
  assumes "drop_bit 64 a = drop_bit 64 (b :: 128 word)" and "drop_bit 64 a \<noteq> 0"
  shows "network_of a = network_of b" "ipv4_mapped a = None" "ipv4_mapped b = None"
proof -
  show "network_of a = network_of b" using assms(1) by (simp add: network_of_def)
  have unmapped: "ipv4_mapped c = None" if "drop_bit 64 c \<noteq> 0" for c :: "128 word"
  proof (rule ccontr)
    assume "ipv4_mapped c \<noteq> None"
    then have mapped: "drop_bit 32 c = 0xFFFF" by (simp add: ipv4_mapped_def split: if_splits)
    have "drop_bit 64 c = drop_bit 32 (drop_bit 32 c)" by (simp add: drop_bit_drop_bit)
    also have "\<dots> = drop_bit 32 (0xFFFF :: 128 word)" by (simp only: mapped)
    also have "\<dots> = 0" by simp
    finally have "drop_bit 64 c = 0" .
    with that show False by blast
  qed
  show "ipv4_mapped a = None" "ipv4_mapped b = None" using assms unmapped by metis+
qed

text \<open>Nobody gets a new allowance by coming back: two anonymous visitors from one IPv6 /64 network (or one visitor
  with another session, another account id or another address in it) draw on one and the same key, and the same
  holds for their mint counts, unless the local-only test setting is on.\<close>

theorem network_shares_one_meter:
  assumes "hs_client hs = Some (h, p)" and "al_parse al h = Some (IPv6 a)"
    and "hs_client hs' = Some (h', p')" and "al_parse al h' = Some (IPv6 b)"
    and "drop_bit 64 a = drop_bit 64 b" and "drop_bit 64 a \<noteq> 0"
    and "\<not> (as_spend_per_session cfg \<and> as_environment cfg = ENV_LOCAL)"
  shows "anonymous_spend_key cfg al uuid_text key_of sc hs = anonymous_spend_key cfg al uuid_text key_of sc' hs'
    \<and> client_ip_of al hs = client_ip_of al hs'"
proof -
  have "client_ip_of al hs = client_ip_of al hs'"
    using assms(1-4) same_network_key[OF assms(5,6)] by (simp add: client_ip_of_def)
  moreover have "(as_spend_per_session cfg \<and> as_environment cfg = ENV_LOCAL) = False" using assms(7) by simp
  ultimately show ?thesis by (simp only: anonymous_spend_key_def anonymous_spend_text_def Let_def if_False)
qed

lemma network_shares_one_meter_witness:
  "anonymous_spend_key sample_settings (sample_lib\<lparr>al_parse := \<lambda>h. Some (IPv6 (push_bit 112 0x2001 + (if h = ''h'' then 1 else 2)))\<rparr>) nat_str length
     (legacy_context nat_str 0 1) sample_scope
   = anonymous_spend_key sample_settings (sample_lib\<lparr>al_parse := \<lambda>h. Some (IPv6 (push_bit 112 0x2001 + (if h = ''h'' then 1 else 2)))\<rparr>) nat_str length
     (legacy_context nat_str 0 2) (sample_scope\<lparr>hs_client := Some (''other'', 4)\<rparr>)"
  by (rule network_shares_one_meter[where h = "''h''" and p = 1 and h' = "''other''" and p' = 4
        and a = "push_bit 112 0x2001 + 1" and b = "push_bit 112 0x2001 + 2", THEN conjunct1])
    (simp_all add: sample_scope_def sample_settings_def)

section \<open>The visitor's address\<close>

text \<open>No visitor chooses the address it is limited by: a connection that does not come from the platform's proxy
  keeps its own address whatever headers it sends, and one that does is known by \<^verbatim>\<open>Fly-Client-IP\<close> only when
  the proxy sent exactly one and it is an address.\<close>

theorem address_is_not_chosen:
  assumes "hs_client hs = Some (host, port)"
  shows "(if \<not> peer_is_trusted al host then visitor_address al hs = hs
    else hs_client (visitor_address al hs) =
      (case header_values ''fly-client-ip'' hs of
         [v] \<Rightarrow> (case al_parse al (strip v) of Some a \<Rightarrow> Some (al_text al a, 0) | None \<Rightarrow> Some (host, port))
       | _ \<Rightarrow> Some (host, port)))"
  using assms by (auto simp: visitor_address_def Let_def split: list.split option.split)

lemma address_is_not_chosen_witness:
  "visitor_address (sample_lib\<lparr>al_parse := \<lambda>h. Some (IPv4 0x08080808)\<rparr>) (sample_scope\<lparr>hs_headers := [(''Fly-Client-IP'', ''1.2.3.4'')]\<rparr>)
     = sample_scope\<lparr>hs_headers := [(''Fly-Client-IP'', ''1.2.3.4'')]\<rparr>"
  using address_is_not_chosen[of "sample_scope\<lparr>hs_headers := [(''Fly-Client-IP'', ''1.2.3.4'')]\<rparr>" "''h''" 1
      "sample_lib\<lparr>al_parse := \<lambda>h. Some (IPv4 0x08080808)\<rparr>"]
  by (simp add: sample_scope_def peer_is_trusted_def)

section \<open>Signing in\<close>

lemma created_repo:
  "sr_signed_out_ids (au_repo (snd (create_session now io sid csrf account idle only max_age au))) = sr_signed_out_ids (au_repo au)"
proof -
  have "sr_signed_out_ids (foldl (\<lambda>sr s. drop_ended now s sr) sr xs) = sr_signed_out_ids sr" for sr xs
    by (induction xs arbitrary: sr) (simp_all add: drop_ended_def record_ended_def drop_session_def Let_def)
  then show ?thesis by (simp add: create_session_def Let_def persist_def purge_cached_def split: option.split)
qed

lemma created_cache:
  assumes "map_of (sr_sessions (au_repo au)) k = None" and "k \<noteq> sid"
  shows "map_of (sr_sessions (au_repo (snd (create_session now io sid csrf account idle only max_age au)))) k = None"
proof -
  let ?sr = "snd (purge_cached now (au_repo au))"
  have "map_of (sr_sessions ?sr) k = None" using purged_sessions[of now "au_repo au" k] assms(1) by (metis not_Some_eq)
  then show ?thesis using assms(2)
    by (simp add: create_session_def Let_def persist_def cached_same_def split: option.split)
qed

text \<open>Signing in uses up the session it replaces: the new session is the account's and lasts twelve hours at most,
  the replaced one is no longer held, and a second sign-in that would replace it too (a double click, a
  replayed form, another tab) is refused and changes nothing, a session that may only sign in included.\<close>

theorem sign_in_happens_once:
  assumes "auth_ok (ie_now ie) au" and "ie_session_id ie \<noteq> previous"
    and "issue_signed_in_session cfg ie previous account from_only au = (Inr r, au')"
    and "from_only \<or> (\<forall>s. map_of (sr_sessions (au_repo au)) previous = Some s \<longrightarrow> \<not> se_sign_in_only s)"
  shows "issue_signed_in_session cfg ie' previous account' from_only au' = (Inl PREVIOUS_SESSION_REVOKED, au')
    \<and> map_of (sr_sessions (au_repo au')) previous = None
    \<and> ir_account_id r = account \<and> ir_expires_at r \<le> ie_now ie + SIGNED_IN_MAX_AGE
    \<and> (\<exists>s. map_of (sr_sessions (au_repo au')) (ir_session_id r) = Some s \<and> se_account_id s = account)"
proof -
  have guards: "enforce_production_guards cfg True = None"
    using assms(3) by (simp add: issue_signed_in_session_def split: option.splits)
  let ?r = "revoke (ie_now ie) (ie_io ie) previous au"
  obtain s where c: "create_session (ie_now ie) (ie_io ie) (ie_session_id ie) (ie_csrf ie) account
      (signed_in_idle_limit cfg) False SIGNED_IN_MAX_AGE ?r = (s, au')" and r: "r = issued s"
    using assms(3) guards by (auto simp: issue_signed_in_session_def Let_def split: if_splits prod.splits)
  have ok: "auth_ok (ie_now ie) ?r" using revoke_keeps[OF assms(1)] by blast
  note k = created_session[OF ok c] 
  have gone: "map_of (sr_sessions (au_repo ?r)) previous = None"
    by (simp add: revoke_def Let_def drop_session_def record_ended_def split: option.split)
  then have none: "map_of (sr_sessions (au_repo au')) previous = None"
    using created_cache[of ?r previous "ie_session_id ie"] assms(2) c by (metis snd_conv)
  have "was_revoked previous au'" if "\<not> from_only"
  proof -
    have "map_of (sr_signed_out_ids (au_repo ?r)) previous \<noteq> None"
      using that assms(4) by (auto simp: revoke_def Let_def drop_session_def record_ended_def split: option.splits)
    then show ?thesis using created_repo[of "ie_now ie" "ie_io ie" "ie_session_id ie" "ie_csrf ie" account "signed_in_idle_limit cfg" False SIGNED_IN_MAX_AGE ?r] c
      by (simp add: was_revoked_def)
  qed
  then have "issue_signed_in_session cfg ie' previous account' from_only au' = (Inl PREVIOUS_SESSION_REVOKED, au')"
    using guards none by (auto simp: issue_signed_in_session_def)
  moreover have "ir_account_id r = account" "ir_expires_at r \<le> ie_now ie + SIGNED_IN_MAX_AGE" "ir_session_id r = ie_session_id ie"
    using k by (auto simp: r issued_def ends_at_def max_age_end_def SIGNED_IN_MAX_AGE_def ANONYMOUS_MAX_AGE_def)
  moreover have "\<exists>s. map_of (sr_sessions (au_repo au')) (ie_session_id ie) = Some s \<and> se_account_id s = account"
    using k by (auto simp: SIGNED_IN_MAX_AGE_def ANONYMOUS_MAX_AGE_def)
  ultimately show ?thesis using none by simp
qed

lemma sign_in_happens_once_witness:
  "case issue_signed_in_session sample_settings (sample_env 5 ''new'') ''old'' 9 False fresh_auth of
     (Inl e, au') \<Rightarrow> False
   | (Inr r, au') \<Rightarrow> fst (issue_signed_in_session sample_settings (sample_env 6 ''newer'') ''old'' 9 False au') = Inl PREVIOUS_SESSION_REVOKED"
proof -
  obtain r au' where e: "issue_signed_in_session sample_settings (sample_env 5 ''new'') ''old'' 9 False fresh_auth = (Inr r, au')"
  proof -
    have "was_revoked ''old'' fresh_auth = False" by (simp add: was_revoked_def fresh_auth_def new_session_repo_def)
    then show thesis using that
      by (cases "create_session 5 True ''new'' ''tok'' 9 (signed_in_idle_limit sample_settings) False SIGNED_IN_MAX_AGE
            (revoke 5 True ''old'' fresh_auth)")
        (simp add: issue_signed_in_session_def sample_env_def enforce_production_guards_def sample_settings_def Let_def)
  qed
  have "ie_session_id (sample_env 5 ''new'') \<noteq> ''old''" by (simp add: sample_env_def)
  from sign_in_happens_once[OF fresh_auth_ok this e, of "sample_env 6 ''newer''" 9] e show ?thesis
    by (simp add: fresh_auth_def new_session_repo_def)
qed

section \<open>Too late for a run\<close>

text \<open>A run is refused for lack of time exactly when its live session reaches its age limit in less than twelve
  minutes; a session that could not be checked is refused as such, and a run let through has those twelve minutes.\<close>

theorem late_run_refused:
  assumes "\<not> sc_legacy sc" and "lookup lk (sc_session_id sc) au = (found, au')"
  shows "fst (refuse_if_session_ends_soon lk reason_lk now offered True sc au) =
    (case (lu_unchecked found, lu_session found) of
       (Some kind, _) \<Rightarrow> Some (SESSION_UNCHECKED kind)
     | (None, None) \<Rightarrow> Some (session_ended reason_lk (sc_session_id sc) au')
     | (None, Some s) \<Rightarrow> if now + LATE_RUN_REFUSAL \<le> se_created_at s + se_max_age s then None
                        else Some (SESSION_ENDS_SOON (ends_soon_message offered s)))"
  using assms by (auto simp: refuse_if_session_ends_soon_def max_age_end_def split: option.split)

lemma late_run_refused_witness:
  "fst (refuse_if_session_ends_soon (calm_look 6) (calm_look 6) 6 True True
     (context_of (restored_session (calm_look 0) 0 None
       \<lparr>sd_session_id = ''x'', sd_account_id = 1, sd_csrf_token = ''tok'', sd_created_at = 0, sd_last_used_at = 0\<rparr>)) fresh_auth)
   = Some SESSION_EXPIRED"
  by (subst late_run_refused[where found = "Lookup None None" and au' = fresh_auth])
    (simp_all add: context_of_def restored_session_def lookup_def purge_cached_def restore_read_def fetch_checked_def Let_def
      fresh_auth_def new_session_repo_def open_store_def calm_look_def session_ended_def end_reason_def max_age_account_def)

end
