(* ===== verification/Account_Laws.thy ===== *)
theory Account_Laws
  imports Accounts Auth_Laws
begin

text \<open>
  What deleting an account and ending sessions from the shell guarantee, over the session repository and its store.
\<close>

section \<open>A session of an account\<close>

text \<open>Where a session of an account that a lookup answers with can come from.\<close>

lemma checked_session: "lu_session (fst (check_cached lk c a)) \<in> {None, Some c}"
  by (auto simp: check_cached_def split: option.split prod.split bool.split)

lemma restored_account:
  assumes "restore_read lk sid a = (Inr s, b)"
  shows "\<exists>sx row. au_store a = Some sx \<and> map_of (sx_sessions sx) sid = Some row \<and> sd_account_id row = se_account_id s"
  using assms by (auto simp: restore_read_def restored_session_def fetch_checked_def Let_def
      split: option.splits prod.splits bool.splits if_splits)

lemma look_account:
  assumes "lu_session (fst (lookup lk sid au)) = Some s"
  shows "(\<exists>k c. map_of (sr_sessions (au_repo au)) k = Some c \<and> se_account_id c = se_account_id s)
    \<or> (\<exists>r. (sid, r) \<in> set (stored_rows au) \<and> sd_account_id r = se_account_id s)"
proof -
  let ?a = "au\<lparr>au_repo := snd (purge_cached (lk_now lk) (au_repo au))\<rparr>"
  show ?thesis
  proof (cases "map_of (sr_sessions (au_repo ?a)) sid")
    case (Some c)
    then have "lu_session (fst (check_cached lk c ?a)) = Some s" using assms by (simp add: lookup_def Let_def)
    then have "s = c" using checked_session[of lk c ?a] by simp
    moreover have "map_of (sr_sessions (au_repo au)) sid = Some c" by (rule purged_sessions[of "lk_now lk"]) (use Some in simp)
    ultimately show ?thesis by (intro disjI1 exI[of _ sid] exI[of _ c]) simp
  next
    case None
    obtain res b where r: "restore_read lk sid ?a = (res, b)" by force
    show ?thesis
    proof (cases res)
      case (Inl e)
      then have "lu_session e = None" using restore_refusals r by blast
      then show ?thesis using assms None r Inl by (simp add: lookup_def Let_def split: if_splits)
    next
      case (Inr s0)
      then have c: "lu_session (fst (restore_commit (lk_now lk) s0 b)) = Some s"
        using assms None r by (simp add: lookup_def Let_def split: if_splits)
      have repo: "au_repo b = au_repo ?a" using restore_read_state[OF r] by blast
      consider "s = s0" | "map_of (sr_sessions (au_repo b)) (se_session_id s0) = Some s"
        using c by (auto simp: restore_commit_def Let_def split: if_splits option.splits)
      then show ?thesis
      proof cases
        case 1
        have "\<exists>sx row. au_store au = Some sx \<and> map_of (sx_sessions sx) sid = Some row \<and> sd_account_id row = se_account_id s0"
          using restored_account[OF r[unfolded Inr]] by simp
        then obtain sx row where "au_store au = Some sx" "map_of (sx_sessions sx) sid = Some row" "sd_account_id row = se_account_id s0"
          by blast
        then have "(sid, row) \<in> set (stored_rows au)" by (simp add: stored_rows_def map_of_SomeD)
        then show ?thesis using 1 \<open>sd_account_id row = se_account_id s0\<close> by (intro disjI2 exI[of _ row]) simp
      next
        case 2
        then have held: "map_of (sr_sessions (snd (purge_cached (lk_now lk) (au_repo au)))) (se_session_id s0) = Some s"
          by (simp add: repo)
        have "map_of (sr_sessions (au_repo au)) (se_session_id s0) = Some s" by (rule purged_sessions[OF held])
        then show ?thesis by (intro disjI1 exI[of _ "se_session_id s0"] exI[of _ s]) simp
      qed
    qed
  qed
qed

lemma listed_sessions:
  "map_of (sr_sessions (foldl (\<lambda>sr s. record_ended s now (drop_session (se_session_id s) sr)) sr xs)) k =
     (if k \<in> se_session_id ` set xs then None else map_of (sr_sessions sr) k)"
  by (induction xs arbitrary: sr) (auto simp: record_ended_def drop_session_def)

lemma revoked_account_sessions:
  assumes "\<And>k s. map_of (sr_sessions sr) k = Some s \<Longrightarrow> se_session_id s = k"
    and "map_of (sr_sessions (revoke_account now account sr)) k = Some s"
  shows "se_account_id s \<noteq> account"
proof
  assume a: "se_account_id s = account"
  from assms(2) have held: "map_of (sr_sessions sr) k = Some s"
    and gone: "k \<notin> se_session_id ` set (filter (\<lambda>s. se_account_id s = account) (map snd (sr_sessions sr)))"
    by (auto simp: revoke_account_def end_listed_def listed_sessions split: if_splits)
  have "s \<in> set (map snd (sr_sessions sr))" using map_of_SomeD[OF held] by force
  with a assms(1)[OF held] gone show False by auto
qed

lemma listed_marks: "sr_deleted_accounts (end_listed now P sr) = sr_deleted_accounts sr \<and> sr_deleting (end_listed now P sr) = sr_deleting sr"
proof -
  have "sr_deleted_accounts (foldl (\<lambda>sr s. record_ended s now (drop_session (se_session_id s) sr)) sr xs) = sr_deleted_accounts sr
      \<and> sr_deleting (foldl (\<lambda>sr s. record_ended s now (drop_session (se_session_id s) sr)) sr xs) = sr_deleting sr" for xs
    by (induction xs arbitrary: sr) (simp_all add: record_ended_def drop_session_def)
  then show ?thesis by (simp add: end_listed_def)
qed

section \<open>Deleting an account\<close>

text \<open>C22. After a deletion that answered yes, the account's row, its stored sessions and the links to its history are gone; so are
  its history and its sign-in events, each where its table could be read; and its runs' history rows no longer name it, unless
  that best-effort write failed, which leaves those rows exactly as they were. No cookie is served as the account any more, and
  a session of it that was being restored meanwhile is refused for two hours. What stays is a history or sign-in table that was
  not ready, and the row that carries the spend key.\<close>

theorem deleted_account_is_gone:
  assumes "auth_ok now (acs_auth acs)" and "0 \<le> now"
    and "delete_account subject uuid_text delete_io rows_io history_io now account acs = (True, acs')"
  shows "account_row_of account (acs_auth acs') = None
    \<and> (\<forall>(k, r) \<in> set (stored_rows (acs_auth acs')). sd_account_id r \<noteq> account)
    \<and> (\<forall>sx. au_store (acs_auth acs') = Some sx \<longrightarrow>
         (sx_history_ready sx \<longrightarrow> (\<forall>h \<in> set (sx_history sx). hy_account_id h \<noteq> account))
         \<and> (sx_safety_ready sx \<longrightarrow> (\<forall>e \<in> set (sx_sign_ins sx). si_account_id e \<noteq> account)))
    \<and> (\<forall>lk sid s. lu_session (fst (lookup lk sid (acs_auth acs'))) = Some s \<longrightarrow> se_account_id s \<noteq> account)
    \<and> (\<forall>s t. se_account_id s = account \<and> t < now + SESSION_TTL \<longrightarrow>
         restore_commit t s (acs_auth acs') = (Lookup None None, acs_auth acs'))
    \<and> (\<forall>(a, target, until) \<in> set (acs_carried acs'). a \<noteq> account \<and> target \<noteq> account)
    \<and> (if history_io
       then \<forall>rows k r. acs_run_history acs' = Some rows \<and> (k, r) \<in> set rows \<longrightarrow> rh_account_id r \<noteq> Some (uuid_text account)
       else acs_run_history acs' = acs_run_history acs)"
proof -
  let ?au = "acs_auth acs" and ?au' = "acs_auth acs'"
  obtain sx where sx: "au_store ?au = Some sx" and ready: "sx_accounts_ready sx" "\<not> sx_closed sx" "delete_io"
    using assms(3) by (auto simp: delete_account_def delete_account_rows_def Let_def put_store_def split: option.splits prod.splits if_splits)
  define s1 where "s1 = snd (delete_account_rows subject delete_io now account sx)"
  define sr where "sr = begin_deletion account (au_repo ?au)"
  have acs': "acs' = acs\<lparr>acs_auth := ?au\<lparr>au_repo := end_deletion account (revoke_account now account sr),
      au_store := Some (snd (delete_sessions_of rows_io account s1))\<rparr>,
    acs_carried := forget_account account (acs_carried acs),
    acs_run_history := forget_run_history history_io (uuid_text account) (acs_run_history acs)\<rparr>"
    using assms(3) sx ready
    by (auto simp: delete_account_def Let_def put_store_def s1_def sr_def delete_account_rows_def split: if_splits)
  have s1: "s1 = (let c = carry_spend_key subject now account sx in c\<lparr>
      sx_sessions := filter (\<lambda>(k, s). sd_account_id s \<noteq> account) (sx_sessions c),
      sx_accounts := filter (\<lambda>(k, a). k \<noteq> account) (sx_accounts c),
      sx_history := (if sx_history_ready c then filter (\<lambda>h. hy_account_id h \<noteq> account) (sx_history c) else sx_history c),
      sx_sign_ins := (if sx_safety_ready c then filter (\<lambda>e. si_account_id e \<noteq> account) (sx_sign_ins c) else sx_sign_ins c)\<rparr>)"
    using ready by (simp add: s1_def delete_account_rows_def Let_def)
  let ?c = "carry_spend_key subject now account sx" and ?s2 = "snd (delete_sessions_of rows_io account s1)"
  have f: "sx_accounts s1 = filter (\<lambda>(k, a). k \<noteq> account) (sx_accounts ?c)"
    "sx_sessions s1 = filter (\<lambda>(k, s). sd_account_id s \<noteq> account) (sx_sessions ?c)"
    "sx_history s1 = (if sx_history_ready s1 then filter (\<lambda>h. hy_account_id h \<noteq> account) (sx_history ?c) else sx_history ?c)"
    "sx_sign_ins s1 = (if sx_safety_ready s1 then filter (\<lambda>e. si_account_id e \<noteq> account) (sx_sign_ins ?c) else sx_sign_ins ?c)"
    by (simp_all add: s1 Let_def)
  have g: "sx_accounts ?s2 = sx_accounts s1" "sx_history ?s2 = sx_history s1" "sx_sign_ins ?s2 = sx_sign_ins s1"
    "sx_history_ready ?s2 = sx_history_ready s1" "sx_safety_ready ?s2 = sx_safety_ready s1"
    "set (sx_sessions ?s2) \<subseteq> set (sx_sessions s1)"
    by (auto simp: delete_sessions_of_def)
  have store: "au_store ?au' = Some ?s2" by (simp add: acs')
  have "map_of (filter (\<lambda>(k, a). k \<noteq> account) d) account = None" for d :: "(uuid, account_row) dict"
    by (induction d) auto
  then have row: "account_row_of account ?au' = None" by (simp add: account_row_of_def store g(1) f(1))
  have rows: "sd_account_id r \<noteq> account" if "(k, r) \<in> set (stored_rows ?au')" for k r
    using that g(6) f(2) by (auto simp: stored_rows_def store)
  have tables: "(sx_history_ready s2 \<longrightarrow> (\<forall>h \<in> set (sx_history s2). hy_account_id h \<noteq> account))
      \<and> (sx_safety_ready s2 \<longrightarrow> (\<forall>e \<in> set (sx_sign_ins s2). si_account_id e \<noteq> account))"
    if "au_store ?au' = Some s2" for s2
    using that store f(3,4) g(2-5) by auto
  have keys: "se_session_id s = k" if "map_of (sr_sessions sr) k = Some s" for k s
    using that assms(1) by (auto simp: sr_def begin_deletion_def auth_ok_def)
  have same: "sr_sessions (end_deletion account r) = sr_sessions r" "sr_deleted_accounts (end_deletion account r) = sr_deleted_accounts r" for r
    by (simp_all add: end_deletion_def Let_def)
  have cached: "se_account_id s \<noteq> account" if "map_of (sr_sessions (au_repo ?au')) k = Some s" for k s
    using that revoked_account_sessions[of sr, OF keys] by (simp add: acs' same)
  have served: "se_account_id s \<noteq> account" if "lu_session (fst (lookup lk sid ?au')) = Some s" for lk sid s
    using look_account[OF that] cached rows by blast
  have deleted: "map_of (sr_deleted_accounts (au_repo ?au')) account = Some (now + SESSION_TTL)"
    by (simp add: acs' same revoke_account_def listed_marks)
  have refused: "restore_commit t s ?au' = (Lookup None None, ?au')" if "se_account_id s = account" "t < now + SESSION_TTL" for s t
    using that deleted by (simp add: restore_commit_def Let_def account_was_deleted_def)
  have links: "\<forall>(a, target, until) \<in> set (acs_carried acs'). a \<noteq> account \<and> target \<noteq> account"
    by (auto simp: acs' forget_account_def)
  have history: "rh_account_id r \<noteq> Some (uuid_text account)"
    if "history_io" "acs_run_history acs' = Some rows" "(k, r) \<in> set rows" for rows k r
    using that by (auto simp: acs' forget_run_history_def forget_run_account_def split: if_splits option.splits)
  have left: "acs_run_history acs' = acs_run_history acs" if "\<not> history_io"
    using that by (simp add: acs' forget_run_history_def split: option.split)
  show ?thesis
  proof (cases history_io)
    case True
    show ?thesis unfolding if_P[OF True] using row rows tables served refused links history[OF True] by blast
  next
    case False
    show ?thesis unfolding if_not_P[OF False] using row rows tables served refused links left[OF False] by blast
  qed
qed

definition sample_accounts :: account_state where
  "sample_accounts = \<lparr>acs_auth = \<lparr>au_repo = new_session_repo\<lparr>sr_sessions := [(''a'', signed_in_session)]\<rparr>,
      au_store = Some account_store, au_next_ref = 1, au_restoring = []\<rparr>,
    acs_carried = [(3, (1, 50))], acs_runs = [], acs_run_history = Some []\<rparr>"

lemma deleted_account_is_gone_witness:
  "fst (delete_account length nat_str True True True 9 1 sample_accounts)
   \<and> account_row_of 1 (acs_auth (snd (delete_account length nat_str True True True 9 1 sample_accounts))) = None"
proof -
  have d: "delete_account length nat_str True True True 9 1 sample_accounts = (True, snd (delete_account length nat_str True True True 9 1 sample_accounts))"
    by (simp add: delete_account_def delete_account_rows_def sample_accounts_def account_store_def open_store_def Let_def put_store_def)
  have "auth_ok 9 (acs_auth sample_accounts)"
    by (simp add: auth_ok_def sample_accounts_def stored_rows_def account_store_def open_store_def signed_in_session_def
        SIGNED_IN_MAX_AGE_def ANONYMOUS_MAX_AGE_def)
  from deleted_account_is_gone[OF this _ d] show ?thesis using d by (metis fst_conv zero_le_numeral)
qed

text \<open>A deletion that fails changes nothing: no row, no session, no link and no mark that it is under way is left.\<close>

theorem failed_deletion_changes_nothing:
  assumes "delete_account subject uuid_text delete_io rows_io history_io now account acs = (False, acs')"
    and "map_of (sr_deleting (au_repo (acs_auth acs))) account = None"
  shows "acs' = acs"
proof -
  have d: "AList.delete account (AList.update account n xs) = xs" if "map_of xs account = None" for n :: nat and xs
    using that by (induction xs) (auto split: if_splits)
  have "end_deletion account (begin_deletion account sr) = sr" if "map_of (sr_deleting sr) account = None" for sr
    using that d[OF that] by (simp add: end_deletion_def begin_deletion_def Let_def)
  then show ?thesis using assms
    by (auto simp: delete_account_def delete_account_rows_def put_store_def Let_def split: option.splits prod.splits if_splits)
qed

lemma failed_deletion_changes_nothing_witness:
  "delete_account length nat_str False True True 9 1 sample_accounts = (False, sample_accounts)"
proof -
  have "fst (delete_account length nat_str False True True 9 1 sample_accounts) = False"
    by (simp add: delete_account_def delete_account_rows_def sample_accounts_def account_store_def open_store_def Let_def put_store_def)
  then have d: "delete_account length nat_str False True True 9 1 sample_accounts =
      (False, snd (delete_account length nat_str False True True 9 1 sample_accounts))" by (metis prod.collapse)
  have "map_of (sr_deleting (au_repo (acs_auth sample_accounts))) 1 = None"
    by (simp add: sample_accounts_def new_session_repo_def)
  from failed_deletion_changes_nothing[OF d this] d show ?thesis by simp
qed

section \<open>Ending sessions from the shell\<close>

lemma cutoff_at_least:
  assumes "map_of (sx_accounts sx) account = Some a" and "sx_safety_ready sx"
    and "sessions_valid_after True io account sx = (True, co)"
  shows "co = ac_valid_after a"
  using assms by (auto simp: sessions_valid_after_def split: if_splits)

text \<open>C23. When the shell command says it ended the sessions, it has, whatever other processes wrote to the file between
  its two transactions: no stored session of a matched account made up to the cutoff is left, and any process on that
  file serves a signed-in session of the account only if it was made after the cutoff.\<close>

theorem shell_ends_sessions:
  assumes "end_from_shell casefold sh target cutoff sx = (0, sx')" and "account \<in> set (matched_accounts casefold target sx)"
    and "map_of (sx_accounts sx') account = Some row" and "sx_safety_ready sx'"
  shows "(\<exists>c. ac_valid_after row = Some c \<and> cutoff \<le> c)
    \<and> (\<forall>(k, r) \<in> set (sx_sessions sx'). sd_account_id r = account \<longrightarrow> cutoff < sd_created_at r)
    \<and> (\<forall>au lk sid s u au'. au_store au = Some sx' \<and> lookup lk sid au = (Lookup (Some s) u, au') \<and> se_account_id s = account
         \<and> se_max_age s \<noteq> ANONYMOUS_MAX_AGE \<longrightarrow> cutoff < se_created_at s)"
proof -
  let ?m = "matched_accounts casefold target sx"
  define s1 where "s1 = sh_between sh (snd (delete_covered ?m cutoff (raise_cutoffs ?m cutoff sx)))"
  have flags: "sx_safety_ready sx" "sh_first_io sh" "?m \<noteq> []"
    using assms(1) by (auto simp: end_from_shell_def Let_def split: if_splits)
  have rb: "end_read_back (sh_second_io sh) target ?m cutoff s1 = (Some (0, 0), sx')"
    using assms(1) flags unfolding end_from_shell_def s1_def
    by (auto simp: Let_def split: prod.splits option.splits if_splits)
  then have io: "sh_second_io sh" by (auto simp: end_read_back_def split: if_splits)
  let ?d = "delete_covered (if target = EndAll then map fst (sx_accounts s1) else ?m) cutoff s1"
  have d: "fst ?d = 0" "snd ?d = sx'"
    and none_below: "filter (\<lambda>k. case map_of (sx_accounts s1) k of None \<Rightarrow> False
        | Some a \<Rightarrow> (case ac_valid_after a of None \<Rightarrow> True | Some c \<Rightarrow> c < cutoff)) ?m = []"
    using rb io by (auto simp: end_read_back_def Let_def split: prod.splits)
  have accounts: "sx_accounts sx' = sx_accounts s1" using d(2) by (auto simp: delete_covered_def Let_def)
  have held: "map_of (sx_accounts s1) account = Some row" using assms(3) accounts by simp
  have cut: "\<exists>c. ac_valid_after row = Some c \<and> cutoff \<le> c"
    using none_below assms(2) held by (cases "ac_valid_after row") (auto simp: filter_empty_conv)
  have listed: "account \<in> set (if target = EndAll then map fst (sx_accounts s1) else ?m)"
    using assms(2) held by (auto dest: map_of_SomeD intro: rev_image_eqI)
  have rows: "cutoff < sd_created_at r" if "(k, r) \<in> set (sx_sessions sx')" "sd_account_id r = account" for k r
    using that listed d(2) by (auto simp: delete_covered_def Let_def)
  have served: "cutoff < se_created_at s" if "au_store au = Some sx'" "lookup lk sid au = (Lookup (Some s) u, au')"
    "se_account_id s = account" "se_max_age s \<noteq> ANONYMOUS_MAX_AGE" for au lk sid s u au'
  proof -
    from look_signed_in[OF that(2,1,4)] have "\<exists>co. sessions_valid_after True (lk_cutoff_io lk) account sx' = (True, co)
        \<and> (\<forall>c. co = Some c \<longrightarrow> c < se_created_at s)" using that(3) by simp
    then obtain co where co: "sessions_valid_after True (lk_cutoff_io lk) account sx' = (True, co)"
      "\<And>c. co = Some c \<Longrightarrow> c < se_created_at s" by blast
    have "co = ac_valid_after row" by (rule cutoff_at_least[OF assms(3,4) co(1)])
    with cut co(2) show ?thesis by fastforce
  qed
  show ?thesis using cut rows served by blast
qed

lemma shell_ends_sessions_witness:
  "case end_from_shell id \<lparr>sh_first_io = True, sh_second_io = True, sh_between = id\<rparr> EndAll 9 account_store of
     (exit, sx') \<Rightarrow> exit = 0 \<and> (case map_of (sx_accounts sx') 1 of None \<Rightarrow> False | Some row \<Rightarrow> \<exists>c. ac_valid_after row = Some c \<and> 9 \<le> c)"
proof -
  let ?sh = "\<lparr>sh_first_io = True, sh_second_io = True, sh_between = id\<rparr>"
  obtain sx' row where e: "end_from_shell id ?sh EndAll 9 account_store = (0, sx')"
    "map_of (sx_accounts sx') 1 = Some row" "sx_safety_ready sx'"
    by (simp add: end_from_shell_def matched_accounts_def end_read_back_def delete_covered_def raise_cutoffs_def account_store_def
        open_store_def Let_def)
  have "(1::nat) \<in> set (matched_accounts id EndAll account_store)" by (simp add: matched_accounts_def account_store_def)
  from shell_ends_sessions[OF e(1) this e(2,3)] e show ?thesis by simp
qed

end
