(* ===== verification/Google_Signin.thy ===== *)
theory Google_Signin
  imports Accounts Rate_Limit
begin

text \<open>
  Signing in with Google (\<^verbatim>\<open>src/product_app/google_signin.py\<close>): the configuration state, the pending
  sign-ins, the checks on the ID token, and the handlers that start a sign-in, complete it, sign out here or
  everywhere and keep a session active. The token exchange with Google is an argument that answers an identity or a
  reason, and other requests may run while it is under way (\<open>sv_during\<close>); decoding the token's JSON, URLs and
  the PKCE challenge are arguments too.
\<close>

section \<open>Configuration\<close>

datatype sign_in_state = SIGN_IN_OFF | SIGN_IN_ON | SIGN_IN_MISCONFIGURED

record google_settings =
  gs_client_id :: string
  gs_client_secret :: string
  gs_redirect_uri :: string
  gs_starts_burst :: nat
  gs_starts_per_minute :: nat
  gs_events_keep_count :: nat
  gs_events_keep_days :: nat

text \<open>\<open>usable\<close> is \<open>_redirect_uri_is_usable\<close>.\<close>

definition sign_in_state_of :: "(string \<Rightarrow> bool) \<Rightarrow> google_settings \<Rightarrow> sign_in_state" where
  "sign_in_state_of usable gs =
     (let values = map strip [gs_client_id gs, gs_client_secret gs, gs_redirect_uri gs] in
      if list_all (\<lambda>v. v = []) values then SIGN_IN_OFF
      else if list_ex (\<lambda>v. v = []) values \<or> \<not> usable (values ! 2) then SIGN_IN_MISCONFIGURED
      else SIGN_IN_ON)"

section \<open>Pending sign-ins\<close>

definition SIGN_IN_STATE_TTL :: micros where "SIGN_IN_STATE_TTL = 10 * 60 * 1000000"
definition MAX_PENDING_SIGN_INS :: nat where "MAX_PENDING_SIGN_INS = 10000"

datatype sign_in_purpose = SignIn | DeleteAccount

record pending_sign_in =
  ps_state :: string
  ps_code_verifier :: string
  ps_started_at :: micros
  ps_purpose :: sign_in_purpose
  ps_expected_account_id :: "uuid option"

type_synonym pending_sign_ins = "(string, pending_sign_in) dict"

definition purge_pending :: "micros \<Rightarrow> pending_sign_ins \<Rightarrow> pending_sign_ins" where
  "purge_pending now ps = filter (\<lambda>(k, p). \<not> now - ps_started_at p > SIGN_IN_STATE_TTL) ps"

text \<open>The oldest entry goes first while the store is full (the loop drops from the front).\<close>

fun evict_oldest :: "pending_sign_ins \<Rightarrow> pending_sign_ins" where
  "evict_oldest [] = []"
| "evict_oldest (e # ps) = (if length (e # ps) \<ge> MAX_PENDING_SIGN_INS then evict_oldest ps else e # ps)"

definition begin_sign_in :: "string \<Rightarrow> pending_sign_in \<Rightarrow> pending_sign_ins \<Rightarrow> pending_sign_ins" where
  "begin_sign_in sid p ps = evict_oldest (AList.delete sid (purge_pending (ps_started_at p) ps)) @ [(sid, p)]"

definition take_sign_in :: "string \<Rightarrow> micros \<Rightarrow> pending_sign_ins \<Rightarrow> pending_sign_in option \<times> pending_sign_ins" where
  "take_sign_in sid now ps =
     (let found = map_of ps sid; ps = purge_pending now (AList.delete sid ps)
      in (case found of None \<Rightarrow> None | Some p \<Rightarrow> if now - ps_started_at p > SIGN_IN_STATE_TTL then None else Some p, ps))"

definition discard_sign_in :: "string \<Rightarrow> pending_sign_ins \<Rightarrow> pending_sign_ins" where
  "discard_sign_in sid ps = AList.delete sid ps"

section \<open>The identity\<close>

datatype claim = CNull | CBool bool | CInt int | CFloat rat | CString string | COther

record verified_identity =
  vd_google_sub :: string
  vd_email :: string

definition GOOGLE_ISSUERS :: "string list" where
  "GOOGLE_ISSUERS = [''https://accounts.google.com'', ''accounts.google.com'']"

definition ID_TOKEN_CLOCK_SKEW_S :: rat where "ID_TOKEN_CLOCK_SKEW_S = 300"

definition whole_seconds_claim :: "claim option \<Rightarrow> int option" where
  "whole_seconds_claim c = (case c of Some (CInt n) \<Rightarrow> Some n | _ \<Rightarrow> None)"

text \<open>\<open>claims\<close> is the decoded payload, \<open>None\<close> when the token is malformed.\<close>

definition verify_id_token :: "(string, claim) dict option \<Rightarrow> string \<Rightarrow> rat \<Rightarrow> string + verified_identity" where
  "verify_id_token claims client_id now =
     (case claims of
        None \<Rightarrow> Inl ''id_token_malformed''
      | Some cs \<Rightarrow>
          if \<not> (case map_of cs ''iss'' of Some (CString i) \<Rightarrow> i \<in> set GOOGLE_ISSUERS | _ \<Rightarrow> False) then Inl ''id_token_wrong_issuer''
          else if client_id = [] \<or> map_of cs ''aud'' \<noteq> Some (CString client_id) then Inl ''id_token_wrong_audience''
          else if map_of cs ''azp'' \<noteq> None \<and> map_of cs ''azp'' \<noteq> Some (CString client_id) then Inl ''id_token_wrong_authorized_party''
          else (case whole_seconds_claim (map_of cs ''exp'') of
              None \<Rightarrow> Inl ''id_token_expired''
            | Some expires \<Rightarrow>
                if of_int expires \<le> now then Inl ''id_token_expired''
                else (case whole_seconds_claim (map_of cs ''iat'') of
                    None \<Rightarrow> Inl ''id_token_bad_issue_time''
                  | Some issued_at \<Rightarrow>
                      if of_int issued_at > now + ID_TOKEN_CLOCK_SKEW_S \<or> issued_at > expires then Inl ''id_token_bad_issue_time''
                      else if map_of cs ''email_verified'' \<noteq> Some (CBool True) then Inl ''id_token_email_not_verified''
                      else (case (map_of cs ''sub'', map_of cs ''email'') of
                          (Some (CString sub), e) \<Rightarrow>
                            if strip sub = [] then Inl ''id_token_has_no_subject''
                            else (case e of
                                Some (CString email) \<Rightarrow>
                                  if strip email = [] then Inl ''id_token_has_no_email''
                                  else Inr \<lparr>vd_google_sub = sub, vd_email = email\<rparr>
                              | _ \<Rightarrow> Inl ''id_token_has_no_email'')
                        | _ \<Rightarrow> Inl ''id_token_has_no_subject''))))"

text \<open>What the token endpoint answered: the status, the length read and the decoded \<^verbatim>\<open>id_token\<close> payload.\<close>

datatype token_reply =
    ReplyTimedOut | ReplyUnreachable
  | Reply nat nat "((string, claim) dict option) option option"
    \<comment> \<open>\<open>None\<close>: unreadable body; \<open>Some None\<close>: no \<^verbatim>\<open>id_token\<close> text; \<open>Some (Some claims)\<close>\<close>

definition TOKEN_RESPONSE_MAX_BYTES :: nat where "TOKEN_RESPONSE_MAX_BYTES = 65536"

definition exchange_code :: "bool \<Rightarrow> google_settings \<Rightarrow> token_reply \<Rightarrow> rat \<Rightarrow> string + verified_identity" where
  "exchange_code endpoint_safe gs reply now =
     (if \<not> endpoint_safe then Inl ''token_endpoint_refused''
      else (case reply of
          ReplyTimedOut \<Rightarrow> Inl ''token_exchange_timed_out''
        | ReplyUnreachable \<Rightarrow> Inl ''token_exchange_unreachable''
        | Reply status nbytes body \<Rightarrow>
            if status \<noteq> 200 then Inl ''token_exchange_refused''
            else if nbytes > TOKEN_RESPONSE_MAX_BYTES then Inl ''token_response_too_large''
            else (case body of
                None \<Rightarrow> Inl ''token_response_unreadable''
              | Some None \<Rightarrow> Inl ''token_response_has_no_id_token''
              | Some (Some claims) \<Rightarrow> verify_id_token claims (strip (gs_client_id gs)) now)))"

section \<open>State and circumstances\<close>

record sign_in_system =
  sy_accounts :: account_state
  sy_pending :: pending_sign_ins
  sy_limiter :: ip_limiter

definition sy_auth :: "sign_in_system \<Rightarrow> auth_state" where "sy_auth sy = acs_auth (sy_accounts sy)"

definition with_auth :: "auth_state \<Rightarrow> sign_in_system \<Rightarrow> sign_in_system" where
  "with_auth au sy = sy\<lparr>sy_accounts := sy_accounts sy\<lparr>acs_auth := au\<rparr>\<rparr>"

definition record_event :: "google_settings \<Rightarrow> bool \<Rightarrow> micros \<Rightarrow> uuid \<Rightarrow> string \<Rightarrow> sign_in_system \<Rightarrow> sign_in_system" where
  "record_event gs io now account outcome sy =
     with_auth ((sy_auth sy)\<lparr>au_store := map_option (\<lambda>sx. snd (record_sign_in_event io account outcome now
       (gs_events_keep_count gs) (gs_events_keep_days gs) sx)) (au_store (sy_auth sy))\<rparr>) sy"

datatype sign_in_refusal =
    SignInAuth auth_error | SignInCsrfRaises | SIGN_IN_DISABLED | SIGN_IN_NEEDS_A_BROWSER_SESSION
  | SIGN_IN_WRONG_HOST | SIGN_IN_UNAVAILABLE | SIGN_IN_NOT_SIGNED_IN | SIGN_IN_RATE_LIMITED | SIGN_OUT_EVERYWHERE_FAILED

record site =
  st_auth :: auth_settings
  st_google :: google_settings
  st_state :: sign_in_state
  st_on_host :: "http_scope \<Rightarrow> bool"            \<comment> \<open>\<open>on_sign_in_host\<close>\<close>
  st_lib :: address_lib
  st_parse_uuid :: "string \<Rightarrow> uuid option"
  st_legacy_id :: "uuid \<Rightarrow> string"
  st_subject :: "string \<Rightarrow> uuid"

definition require_cookie_session ::
  "site \<Rightarrow> issue_env \<Rightarrow> look_env \<Rightarrow> auth_request \<Rightarrow> sign_in_system \<Rightarrow> (sign_in_refusal + session_ctx) \<times> sign_in_system" where
  "require_cookie_session st ie reason rq sy =
     (case require_session (st_auth st) (st_parse_uuid st) (st_legacy_id st) ie reason rq (sy_auth sy) of
        (Inl e, au) \<Rightarrow> (Inl (SignInAuth e), with_auth au sy)
      | (Inr sc, au) \<Rightarrow>
          (case enforce_csrf (st_auth st) rq sc of
             CSRF_REFUSED e \<Rightarrow> (Inl (SignInAuth e), with_auth au sy)
           | CSRF_RAISES \<Rightarrow> (Inl SignInCsrfRaises, with_auth au sy)
           | CSRF_OK \<Rightarrow> (if sc_legacy sc then Inl SIGN_IN_NEEDS_A_BROWSER_SESSION else Inr sc, with_auth au sy)))"

section \<open>Starting\<close>

record start_env =
  sv_issue :: issue_env
  sv_reason_lk :: look_env
  sv_account_io :: bool
  sv_epoch :: rat
  sv_start_now :: micros
  sv_new_state :: string
  sv_new_verifier :: string

definition start_sign_in ::
  "site \<Rightarrow> start_env \<Rightarrow> sign_in_purpose \<Rightarrow> auth_request \<Rightarrow> sign_in_system \<Rightarrow> (sign_in_refusal + pending_sign_in) \<times> sign_in_system" where
  "start_sign_in st sv purpose rq sy =
     (if st_state st \<noteq> SIGN_IN_ON then (Inl SIGN_IN_DISABLED, sy)
      else (case require_cookie_session st (sv_issue sv) (sv_reason_lk sv) rq sy of
          (Inl e, sy) \<Rightarrow> (Inl e, sy)
        | (Inr sc, sy) \<Rightarrow>
            if \<not> st_on_host st (rq_scope rq) then (Inl SIGN_IN_WRONG_HOST, sy)
            else (case au_store (sy_auth sy) of
                None \<Rightarrow> (Inl SIGN_IN_UNAVAILABLE, sy)
              | Some sx \<Rightarrow>
                  if \<not> (sx_accounts_ready sx \<and> sx_safety_ready sx) then (Inl SIGN_IN_UNAVAILABLE, sy)
                  else
                    let expected = (if purpose = DeleteAccount
                          then map_option fst (account_for (sv_account_io sv) (sc_account_id sc) sx) else None)
                    in if purpose = DeleteAccount \<and> expected = None then (Inl SIGN_IN_NOT_SIGNED_IN, sy)
                       else
                         let address = (case client_ip_of (st_lib st) (rq_scope rq) of None \<Rightarrow> ''unknown''
                               | Some a \<Rightarrow> if a = [] then ''unknown'' else a);
                             (ok, limiter) = ip_allow address (sv_epoch sv) (sy_limiter sy);
                             sy = sy\<lparr>sy_limiter := limiter\<rparr>
                         in if \<not> ok then (Inl SIGN_IN_RATE_LIMITED, sy)
                            else
                              let p = \<lparr>ps_state = sv_new_state sv, ps_code_verifier = sv_new_verifier sv,
                                       ps_started_at = sv_start_now sv, ps_purpose = purpose, ps_expected_account_id = expected\<rparr>
                              in (Inr p, sy\<lparr>sy_pending := begin_sign_in (sc_session_id sc) p (sy_pending sy)\<rparr>))))"

section \<open>Completing\<close>

record callback_env =
  cb_take_now :: micros
  cb_started_lk :: look_env
  cb_recover_lk :: look_env
  cb_during :: "sign_in_system \<Rightarrow> sign_in_system"   \<comment> \<open>what other requests do during the exchange\<close>
  cb_exchange :: "string \<Rightarrow> string \<Rightarrow> string + verified_identity"
  cb_upsert_io :: bool
  cb_upsert_now :: micros
  cb_fresh_account :: uuid
  cb_upsert_lk :: look_env
  cb_recheck_lk :: look_env
  cb_previous_lk :: look_env
  cb_issue :: issue_env
  cb_history :: history_env
  cb_account_io :: bool
  cb_event_io :: bool
  cb_event_now :: micros

datatype callback_result = SignInFailedPage string | SignedIn string issue_response | CallbackDisabled

definition AFTER_SIGN_IN_PATH :: string where "AFTER_SIGN_IN_PATH = ''/ui''"
definition ACCOUNT_DELETE_PATH :: string where "ACCOUNT_DELETE_PATH = ''/ui?account=delete''"
definition ACCOUNT_SWITCHED_PATH :: string where "ACCOUNT_SWITCHED_PATH = ''/ui?account=switched''"

text \<open>\<open>get\<close>: the session of a lookup.\<close>

definition get_session :: "look_env \<Rightarrow> string \<Rightarrow> sign_in_system \<Rightarrow> session option \<times> sign_in_system" where
  "get_session lk sid sy = (case lookup lk sid (sy_auth sy) of (found, au) \<Rightarrow> (lu_session found, with_auth au sy))"

text \<open>Writing the account row, at the store.\<close>

definition upsert_account :: "site \<Rightarrow> callback_env \<Rightarrow> verified_identity \<Rightarrow> auth_state \<Rightarrow> uuid option \<times> auth_state" where
  "upsert_account st cb who au =
     (case au_store au of
        None \<Rightarrow> (None, au)
      | Some sx \<Rightarrow>
          (case upsert_google_account (st_subject st) (cb_upsert_io cb) (cb_upsert_now cb) (cb_fresh_account cb)
                  (vd_google_sub who) (vd_email who) sx of
             (account, sx) \<Rightarrow> (account, au\<lparr>au_store := Some sx\<rparr>)))"

text \<open>After the identity is known: the account, the new session, the history, the last check.\<close>

definition complete_sign_in ::
  "site \<Rightarrow> callback_env \<Rightarrow> string \<Rightarrow> pending_sign_in \<Rightarrow> session option \<Rightarrow> uuid option \<Rightarrow> verified_identity \<Rightarrow> sign_in_system
   \<Rightarrow> callback_result \<times> sign_in_system" where
  "complete_sign_in st cb sid p started recovered who sy =
     (if au_store (sy_auth sy) = None then (SignInFailedPage ''account_not_recorded'', sy)
      else
        let (account, au) = (case recovered of
                None \<Rightarrow> upsert_account st cb who (sy_auth sy)
              | Some r \<Rightarrow> upsert_if_recoverable (cb_upsert_lk cb) sid r (upsert_account st cb who) (sy_auth sy));
            sy = with_auth au sy
        in (case account of
              None \<Rightarrow> (SignInFailedPage (if recovered = None then ''account_not_recorded'' else ''no_session''), sy)
            | Some account \<Rightarrow>
                if recovered \<noteq> None \<and> max_age_account (cb_recheck_lk cb) sid (sy_auth sy) \<noteq> recovered
                then (SignInFailedPage ''no_session'', sy)
                else
                  let (previous, sy) = get_session (cb_previous_lk cb) sid sy in
                  (case issue_signed_in_session (st_auth st) (cb_issue cb) sid account
                          (case started of None \<Rightarrow> False | Some s \<Rightarrow> se_sign_in_only s) (sy_auth sy) of
                     (Inl e, au) \<Rightarrow> (SignInFailedPage ''no_session'', with_auth au sy)
                   | (Inr session, au) \<Rightarrow>
                       let sy = with_auth au sy;
                           sy = (case previous of
                                   None \<Rightarrow> sy
                                 | Some s \<Rightarrow> if se_account_id s = account then sy
                                     else sy\<lparr>sy_accounts := carry_over (cb_history cb) (se_account_id s) account (sy_accounts sy)\<rparr>)
                       in if (case au_store (sy_auth sy) of None \<Rightarrow> True
                              | Some sx \<Rightarrow> account_for (cb_account_io cb) account sx = None)
                          then
                            let sy = with_auth (revoke (ie_now (cb_issue cb)) (ie_io (cb_issue cb)) (ir_session_id session) (sy_auth sy)) sy
                            in (SignInFailedPage ''account_not_recorded'',
                                sy\<lparr>sy_accounts := sy_accounts sy\<lparr>acs_carried := forget_account account (acs_carried (sy_accounts sy))\<rparr>\<rparr>)
                          else
                            let location = (if ps_purpose p = DeleteAccount
                                  then if ps_expected_account_id p = Some account then ACCOUNT_DELETE_PATH else ACCOUNT_SWITCHED_PATH
                                  else AFTER_SIGN_IN_PATH)
                            in (SignedIn location session,
                                record_event (st_google st) (cb_event_io cb) (cb_event_now cb) account ''signed_in'' sy))))"

definition google_sign_in_callback ::
  "site \<Rightarrow> callback_env \<Rightarrow> auth_request \<Rightarrow> string option \<Rightarrow> string option \<Rightarrow> sign_in_system \<Rightarrow> callback_result \<times> sign_in_system" where
  "google_sign_in_callback st cb rq state auth_code sy =
     (let cookie = map_of (rq_cookies rq) (get_session_cookie_name (st_auth st)) in
      if st_state st \<noteq> SIGN_IN_ON then (CallbackDisabled, sy)
      else if cookie = None \<or> cookie = Some [] then (SignInFailedPage ''no_session'', sy)
      else
        let sid = the cookie;
            (pending, ps) = take_sign_in sid (cb_take_now cb) (sy_pending sy);
            (started, sy) = get_session (cb_started_lk cb) sid (sy\<lparr>sy_pending := ps\<rparr>);
            recovered = (if started = None then max_age_account (cb_recover_lk cb) sid (sy_auth sy) else None)
        in if started = None \<and> recovered = None then (SignInFailedPage ''no_session'', sy)
           else (case pending of
               None \<Rightarrow> (SignInFailedPage ''no_pending_sign_in'', sy)
             | Some p \<Rightarrow>
                 if (case state of None \<Rightarrow> [] | Some x \<Rightarrow> x) \<noteq> ps_state p then (SignInFailedPage ''state_mismatch'', sy)
                 else if auth_code = None \<or> auth_code = Some [] then (SignInFailedPage ''no_code'', sy)
                 else (case cb_exchange cb (the auth_code) (ps_code_verifier p) of
                     Inl reason \<Rightarrow> (SignInFailedPage reason, cb_during cb sy)
                   | Inr who \<Rightarrow> complete_sign_in st cb sid p started recovered who (cb_during cb sy))))"

section \<open>Signing out\<close>

record sign_out_env =
  so_issue :: issue_env
  so_reason :: look_env
  so_now :: micros
  so_io :: bool
  so_second_io :: bool
  so_account_io :: bool
  so_event_io :: bool

definition sign_out :: "site \<Rightarrow> sign_out_env \<Rightarrow> auth_request \<Rightarrow> sign_in_system \<Rightarrow> (sign_in_refusal + unit) \<times> sign_in_system" where
  "sign_out st so rq sy =
     (case require_cookie_session st (so_issue so) (so_reason so) rq sy of
        (Inl e, sy) \<Rightarrow> (Inl e, sy)
      | (Inr sc, sy) \<Rightarrow>
          let sy = sy\<lparr>sy_pending := discard_sign_in (sc_session_id sc) (sy_pending sy)\<rparr>;
              sy = with_auth (revoke (so_now so) (so_io so) (sc_session_id sc) (sy_auth sy)) sy;
              known = (case au_store (sy_auth sy) of None \<Rightarrow> False
                       | Some sx \<Rightarrow> account_for (so_account_io so) (sc_account_id sc) sx \<noteq> None)
          in (Inr (), if known then record_event (st_google st) (so_event_io so) (so_now so) (sc_account_id sc) ''signed_out'' sy else sy))"

text \<open>The cutoff is written first, then the cached sessions end, then the rows once more.\<close>

definition sign_out_everywhere ::
  "site \<Rightarrow> sign_out_env \<Rightarrow> auth_request \<Rightarrow> sign_in_system \<Rightarrow> (sign_in_refusal + unit) \<times> sign_in_system" where
  "sign_out_everywhere st so rq sy =
     (case require_cookie_session st (so_issue so) (so_reason so) rq sy of
        (Inl e, sy) \<Rightarrow> (Inl e, sy)
      | (Inr sc, sy) \<Rightarrow>
          (case au_store (sy_auth sy) of
             None \<Rightarrow> (Inl SIGN_IN_NOT_SIGNED_IN, sy)
           | Some sx \<Rightarrow>
               (case end_sessions_before (so_io so) (sc_account_id sc) (so_now so) sx of
                  (END_NO_ACCOUNT, sx) \<Rightarrow> (Inl SIGN_IN_NOT_SIGNED_IN, sy)
                | (END_FAILED, sx) \<Rightarrow> (Inl SIGN_OUT_EVERYWHERE_FAILED, sy)
                | (END_ENDED, sx) \<Rightarrow>
                    let au = (sy_auth sy)\<lparr>au_store := Some sx\<rparr>;
                        au = au\<lparr>au_repo := end_sessions_of (so_now so) (sc_account_id sc) (so_now so) (au_repo au)\<rparr>;
                        au = au\<lparr>au_store := Some (snd (end_sessions_before (so_second_io so) (sc_account_id sc) (so_now so) sx))\<rparr>;
                        sy = with_auth au sy;
                        sy = sy\<lparr>sy_pending := discard_sign_in (sc_session_id sc) (sy_pending sy)\<rparr>
                    in (Inr (), record_event (st_google st) (so_event_io so) (so_now so) (sc_account_id sc) ''signed_out_everywhere'' sy))))"

section \<open>Keeping a session active\<close>

record idle_response =
  id_signed_in :: bool
  id_idle_seconds_left :: int
  id_ends_by_max_age :: bool

definition idle_response_of :: "look_env \<Rightarrow> look_env \<Rightarrow> bool \<Rightarrow> bool \<Rightarrow> micros \<Rightarrow> string \<Rightarrow> auth_state \<Rightarrow> (auth_error + idle_response) \<times> auth_state" where
  "idle_response_of lk reason io account_io now sid au =
     (case lookup lk sid au of
        (found, au) \<Rightarrow>
          (case (lu_unchecked found, lu_session found) of
             (Some kind, _) \<Rightarrow> (Inl (SESSION_UNCHECKED kind), au)
           | (None, None) \<Rightarrow> (Inl (session_ended reason sid au), au)
           | (None, Some s) \<Rightarrow>
               let au = flush_session io s au;
                   signed_in = (case au_store au of None \<Rightarrow> False | Some sx \<Rightarrow> account_for account_io (se_account_id s) sx \<noteq> None)
               in (Inr \<lparr>id_signed_in = signed_in, id_idle_seconds_left = max 0 (whole_seconds (ends_at s - now)),
                        id_ends_by_max_age = ends_by_max_age s\<rparr>, au)))"

definition session_idle_status ::
  "site \<Rightarrow> look_env \<Rightarrow> look_env \<Rightarrow> bool \<Rightarrow> bool \<Rightarrow> micros \<Rightarrow> auth_request \<Rightarrow> auth_state \<Rightarrow> (auth_error + idle_response) \<times> auth_state" where
  "session_idle_status st lk reason io account_io now rq au =
     (let cookie = map_of (rq_cookies rq) (get_session_cookie_name (st_auth st)) in
      if cookie = None \<or> cookie = Some [] then (Inl AUTH_REQUIRED, au)
      else idle_response_of lk reason io account_io now (the cookie) au)"

definition keep_session_active ::
  "site \<Rightarrow> issue_env \<Rightarrow> look_env \<Rightarrow> look_env \<Rightarrow> bool \<Rightarrow> bool \<Rightarrow> micros \<Rightarrow> auth_request \<Rightarrow> sign_in_system
   \<Rightarrow> (sign_in_refusal + idle_response) \<times> sign_in_system" where
  "keep_session_active st ie lk reason io account_io now rq sy =
     (case require_cookie_session st ie reason rq sy of
        (Inl e, sy) \<Rightarrow> (Inl e, sy)
      | (Inr sc, sy) \<Rightarrow>
          (case idle_response_of lk reason io account_io now (sc_session_id sc) (sy_auth sy) of
             (Inl e, au) \<Rightarrow> (Inl (SignInAuth e), with_auth au sy)
           | (Inr r, au) \<Rightarrow> (Inr r, with_auth au sy)))"

end
