(* ===== verification/Signin_Laws.thy ===== *)
theory Signin_Laws
  imports Google_Signin Account_Laws
begin

text \<open>
  What signing in with Google guarantees: a started sign-in is good for one attempt of the browser that started it,
  the account signed in to is the one Google identified, and signing out everywhere ends every session.
\<close>

section \<open>Pending sign-ins are one-shot\<close>

datatype pending_op = PBegin string pending_sign_in | PTake string micros | PDiscard string

fun pending_step :: "pending_op \<Rightarrow> pending_sign_ins \<Rightarrow> bool \<times> pending_sign_ins" where
  "pending_step (PBegin sid p) ps = (True, begin_sign_in sid p ps)"
| "pending_step (PTake sid now) ps = (case take_sign_in sid now ps of (found, ps) \<Rightarrow> (found \<noteq> None, ps))"
| "pending_step (PDiscard sid) ps = (False, discard_sign_in sid ps)"

fun begins :: "pending_op \<Rightarrow> string \<Rightarrow> bool" where
  "begins (PBegin sid p) k = (sid = k)"
| "begins (PTake sid now) k = False"
| "begins (PDiscard sid) k = False"

fun takes :: "pending_op \<Rightarrow> string \<Rightarrow> bool" where
  "takes (PBegin sid p) k = False"
| "takes (PTake sid now) k = (sid = k)"
| "takes (PDiscard sid) k = False"

definition pending_held :: "pending_sign_ins \<Rightarrow> string \<Rightarrow> bool" where
  "pending_held ps k = (k \<in> fst ` set ps)"

lemma evict_suffix: "\<exists>xs. ps = xs @ evict_oldest ps"
proof (induction ps)
  case (Cons e ps)
  then obtain xs where xs: "ps = xs @ evict_oldest ps" by blast
  show ?case
  proof (cases "length (e # ps) \<ge> MAX_PENDING_SIGN_INS")
    case True
    then have "evict_oldest (e # ps) = evict_oldest ps" by simp
    then show ?thesis using xs by (metis append_Cons)
  next
    case False
    then have "evict_oldest (e # ps) = e # ps" by simp
    then show ?thesis by (metis append_Nil)
  qed
qed simp

lemma evict_subset: "set (evict_oldest ps) \<subseteq> set ps"
  using evict_suffix[of ps] by (metis Un_upper2 set_append)

lemma evict_short: "length (evict_oldest ps) < MAX_PENDING_SIGN_INS"
  by (induction ps) (auto simp: MAX_PENDING_SIGN_INS_def)

lemma purge_pending_subset: "set (purge_pending now ps) \<subseteq> set ps"
  by (auto simp: purge_pending_def)

lemma take_subset: "set (snd (take_sign_in sid now ps)) \<subseteq> {e \<in> set ps. fst e \<noteq> sid}"
  by (auto simp: take_sign_in_def Let_def purge_pending_def AList.delete_eq)

interpretation pending: one_shot pending_step begins takes pending_held
proof
  fix x :: pending_op and ps k
  show "takes x k \<Longrightarrow> fst (pending_step x ps) \<Longrightarrow> pending_held ps k"
    by (cases x) (auto simp: take_sign_in_def Let_def pending_held_def split: option.splits if_splits dest!: map_of_SomeD intro: rev_image_eqI)
  show "takes x k \<Longrightarrow> fst (pending_step x ps) \<Longrightarrow> \<not> pending_held (snd (pending_step x ps)) k"
  proof (cases x)
    case (PTake sid now)
    assume "takes x k"
    then show ?thesis using PTake take_subset[of sid now ps] by (auto simp: pending_held_def case_prod_unfold)
  qed simp_all
  show "\<not> begins x k \<Longrightarrow> pending_held (snd (pending_step x ps)) k \<Longrightarrow> pending_held ps k"
  proof (cases x)
    case (PBegin sid p)
    assume "\<not> begins x k" "pending_held (snd (pending_step x ps)) k"
    moreover have "set (evict_oldest (AList.delete sid (purge_pending (ps_started_at p) ps))) \<subseteq> set ps"
      using evict_subset purge_pending_subset by (fastforce simp: AList.delete_eq)
    ultimately show ?thesis using PBegin by (auto simp: pending_held_def begin_sign_in_def)
  next
    case (PTake sid now)
    assume "pending_held (snd (pending_step x ps)) k"
    then show ?thesis using PTake take_subset[of sid now ps] by (auto simp: pending_held_def case_prod_unfold)
  next
    case (PDiscard sid)
    assume "pending_held (snd (pending_step x ps)) k"
    then show ?thesis using PDiscard by (auto simp: pending_held_def discard_sign_in_def AList.delete_eq)
  qed
  show "begins x k \<Longrightarrow> \<not> takes x k" by (cases x) simp_all
qed

text \<open>A started sign-in is good for one attempt: however starts, callbacks and sign-outs of any browsers interleave,
  a browser session's callbacks find a pending sign-in at most as often as it started one; the store never holds
  more than 10,000.\<close>

theorem pending_sign_in_one_shot:
  "redeemed takes k (runs_of pending_step [] ops) \<le> minted begins k ops
   \<and> length (foldl (\<lambda>ps x. snd (pending_step x ps)) [] ops) \<le> MAX_PENDING_SIGN_INS"
proof -
  have step: "length (snd (pending_step x ps)) \<le> MAX_PENDING_SIGN_INS" if "length ps \<le> MAX_PENDING_SIGN_INS" for x ps
  proof (cases x)
    case (PBegin sid p)
    have "length (evict_oldest (AList.delete sid (purge_pending (ps_started_at p) ps))) < MAX_PENDING_SIGN_INS"
      by (rule evict_short)
    then show ?thesis using PBegin by (simp add: begin_sign_in_def)
  next
    case (PTake sid now)
    have "length (purge_pending now (AList.delete sid ps)) \<le> length ps"
      unfolding purge_pending_def using length_filter_le le_trans by (metis AList.delete_eq length_filter_le)
    then show ?thesis using PTake that by (simp add: take_sign_in_def Let_def case_prod_unfold)
  next
    case (PDiscard sid)
    have "length (AList.delete sid ps) \<le> length ps" by (simp add: AList.delete_eq)
    then show ?thesis using PDiscard that by (simp add: discard_sign_in_def)
  qed
  have "length ps \<le> MAX_PENDING_SIGN_INS \<Longrightarrow> length (foldl (\<lambda>ps x. snd (pending_step x ps)) ps ops) \<le> MAX_PENDING_SIGN_INS" for ps
    by (induction ops arbitrary: ps) (simp_all add: step)
  then show ?thesis using pending.redeemed_at_most_minted[of k "[]" ops] by (simp add: pending_held_def)
qed

section \<open>The account signed in to\<close>

definition accounts_of :: "auth_state \<Rightarrow> (uuid, account_row) dict" where
  "accounts_of au = (case au_store au of None \<Rightarrow> [] | Some sx \<Rightarrow> sx_accounts sx)"

lemma accounts_of_lookup [simp]: "accounts_of (snd (lookup lk sid au)) = accounts_of au"
  by (simp add: accounts_of_def)

lemma accounts_of_persist [simp]: "accounts_of (persist io s au) = accounts_of au"
  by (simp add: accounts_of_def persist_def Let_def save_session_def write_session_def split: option.split)

lemma accounts_of_revoke [simp]: "accounts_of (revoke now io sid au) = accounts_of au"
  by (simp add: accounts_of_def revoke_def Let_def delete_session_def split: option.split)

lemma accounts_of_create [simp]: "accounts_of (snd (create_session now io sid csrf account idle only max_age au)) = accounts_of au"
proof -
  have "accounts_of (au\<lparr>au_repo := r, au_next_ref := n\<rparr>) = accounts_of au" for r n by (simp add: accounts_of_def)
  then show ?thesis by (simp add: create_session_def Let_def)
qed

lemma accounts_of_issue [simp]: "accounts_of (snd (issue_signed_in_session cfg ie sid account only au)) = accounts_of au"
  by (simp add: issue_signed_in_session_def Let_def case_prod_unfold split: option.split)

lemma accounts_of_written:
  "(case foldl (\<lambda>store r. write_history he (history_entry_of r b) store) store runs of None \<Rightarrow> [] | Some sx \<Rightarrow> sx_accounts sx)
   = (case store of None \<Rightarrow> [] | Some sx \<Rightarrow> sx_accounts sx)"
proof (induction runs arbitrary: store)
  case (Cons r runs)
  have "(case write_history he (history_entry_of r b) store of None \<Rightarrow> [] | Some sx \<Rightarrow> sx_accounts sx)
      = (case store of None \<Rightarrow> [] | Some sx \<Rightarrow> sx_accounts sx)"
    by (cases store) (simp_all add: write_history_def record_history_def Let_def)
  then show ?case using Cons.IH by simp
qed simp

text \<open>Whether accounts can be read.\<close>

definition readable_of :: "auth_state \<Rightarrow> (bool \<times> bool) option" where
  "readable_of au = map_option (\<lambda>sx. (sx_accounts_ready sx, sx_closed sx)) (au_store au)"

lemma readable_of_issue: "readable_of (snd (issue_signed_in_session cfg ie sid account only au)) = readable_of au"
proof -
  have p: "readable_of (persist io s au) = readable_of au" for io s au
    by (simp add: readable_of_def persist_def Let_def save_session_def write_session_def split: option.split)
  have "readable_of (au\<lparr>au_repo := r, au_next_ref := n\<rparr>) = readable_of au" for au r n by (simp add: readable_of_def)
  then have "readable_of (snd (create_session now io k csrf account idle only max_age au)) = readable_of au" for now io k csrf account idle only max_age au
    by (simp add: create_session_def Let_def p)
  moreover have "readable_of (revoke now io sid au) = readable_of au" for now io
    by (cases "au_store au") (simp_all add: readable_of_def revoke_def Let_def delete_session_def)
  ultimately show ?thesis by (simp add: issue_signed_in_session_def Let_def case_prod_unfold split: option.split)
qed

lemma account_found:
  "readable_of au = Some (True, False) \<Longrightarrow> map_of (accounts_of au) account \<noteq> None \<Longrightarrow>
   \<exists>sx. au_store au = Some sx \<and> account_for True account sx \<noteq> None"
  by (auto simp: readable_of_def accounts_of_def account_for_def)

lemma accounts_of_carry [simp]: "accounts_of (acs_auth (carry_over he a b acs)) = accounts_of (acs_auth acs)"
  by (simp add: carry_over_def Let_def put_store_def case_prod_unfold accounts_of_def accounts_of_written)

lemma accounts_of_event [simp]: "accounts_of (sy_auth (record_event gs io now account outcome sy)) = accounts_of (sy_auth sy)"
  by (simp add: record_event_def with_auth_def sy_auth_def accounts_of_def record_sign_in_event_def Let_def split: option.split)

lemma sy_auth_with [simp]: "sy_auth (with_auth au sy) = au" "sy_pending (with_auth au sy) = sy_pending sy"
  by (simp_all add: sy_auth_def with_auth_def)

text \<open>The row an upsert answers for is the subject's.\<close>

lemma upserted_account:
  assumes "upsert_account st cb who au = (Some account, au')" and "dict_ok (accounts_of au)"
    and "cb_fresh_account cb \<notin> fst ` set (accounts_of au)"
  shows "\<exists>row. map_of (accounts_of au') account = Some row \<and> ac_google_sub row = vd_google_sub who"
proof -
  obtain sx sx' where s: "au_store au = Some sx" "au' = au\<lparr>au_store := Some sx'\<rparr>"
    and u: "upsert_google_account (st_subject st) (cb_upsert_io cb) (cb_upsert_now cb) (cb_fresh_account cb)
      (vd_google_sub who) (vd_email who) sx = (Some account, sx')"
    using assms(1) by (auto simp: upsert_account_def split: option.splits prod.splits)
  have d: "dict_ok (sx_accounts sx)" "cb_fresh_account cb \<notin> fst ` set (sx_accounts sx)"
    using assms(2,3) s by (simp_all add: accounts_of_def)
  show ?thesis
  proof (cases "account_of_subject (vd_google_sub who) sx")
    case None
    then have "account = cb_fresh_account cb" "\<exists>row. sx_accounts sx' = sx_accounts sx @ [(account, row)] \<and> ac_google_sub row = vd_google_sub who"
      using u by (auto simp: upsert_google_account_def Let_def split: if_splits)
    moreover from this d(2) have "map_of (sx_accounts sx) account = None" by (simp add: map_of_eq_None_iff)
    ultimately show ?thesis using s by (auto simp: accounts_of_def map_add_def)
  next
    case (Some a)
    then have e: "account = a" "sx_accounts sx' = map (\<lambda>(k, r). if ac_google_sub r = vd_google_sub who
        then (k, r\<lparr>ac_email := vd_email who, ac_last_sign_in_at := cb_upsert_now cb\<rparr>) else (k, r)) (sx_accounts sx)"
      using u by (auto simp: upsert_google_account_def Let_def split: if_splits)
    from Some obtain row where row: "(a, row) \<in> set (sx_accounts sx)" "ac_google_sub row = vd_google_sub who"
      by (auto simp: account_of_subject_def find_Some_iff) (metis nth_mem)
    let ?f = "\<lambda>r. if ac_google_sub r = vd_google_sub who then r\<lparr>ac_email := vd_email who, ac_last_sign_in_at := cb_upsert_now cb\<rparr> else r"
    have "sx_accounts sx' = map (\<lambda>(k, r). (k, ?f r)) (sx_accounts sx)" using e(2) by (auto intro!: map_cong)
    then have "map_of (sx_accounts sx') a = map_option ?f (map_of (sx_accounts sx) a)" by (simp add: map_of_map)
    moreover have "map_of (sx_accounts sx) a = Some row" using row(1) d(1) by (simp add: in_set_iff_map_of)
    ultimately show ?thesis using s e(1) row(2) by (simp add: accounts_of_def)
  qed
qed

lemma recovered_upsert:
  "upsert_if_recoverable lk sid r f au = (Some account, au') \<Longrightarrow> f au = (Some account, au')"
  by (simp add: upsert_if_recoverable_def split: if_splits)

lemma completed_sign_in:
  assumes "complete_sign_in st cb sid p started recovered who sy = (SignedIn location r, sy')"
    and "dict_ok (accounts_of (sy_auth sy))" and "cb_fresh_account cb \<notin> fst ` set (accounts_of (sy_auth sy))"
  shows "(\<exists>row. map_of (accounts_of (sy_auth sy')) (ir_account_id r) = Some row \<and> ac_google_sub row = vd_google_sub who) \<and>
    location = (if ps_purpose p = DeleteAccount
       then if ps_expected_account_id p = Some (ir_account_id r) then ACCOUNT_DELETE_PATH else ACCOUNT_SWITCHED_PATH else AFTER_SIGN_IN_PATH)"
proof -
  let ?up = "case recovered of None \<Rightarrow> upsert_account st cb who (sy_auth sy)
      | Some r \<Rightarrow> upsert_if_recoverable (cb_upsert_lk cb) sid r (upsert_account st cb who) (sy_auth sy)"
  obtain found a1 where up: "?up = (found, a1)" by force
  have "found \<noteq> None"
  proof
    assume "found = None"
    then have "\<exists>m z. complete_sign_in st cb sid p started recovered who sy = (SignInFailedPage m, z)"
      using up by (simp add: complete_sign_in_def Let_def)
    with assms(1) show False by auto
  qed
  then obtain account where found: "found = Some account" by blast
  have "upsert_account st cb who (sy_auth sy) = (Some account, a1)"
    using up found recovered_upsert by (auto split: option.splits)
  from upserted_account[OF this assms(2,3)]
  have row: "\<exists>row. map_of (accounts_of a1) account = Some row \<and> ac_google_sub row = vd_google_sub who" .
  obtain previous s2 where g: "get_session (cb_previous_lk cb) sid (with_auth a1 sy) = (previous, s2)" by force
  then have s2: "accounts_of (sy_auth s2) = accounts_of a1"
    using accounts_of_lookup[of "cb_previous_lk cb" sid a1] by (auto simp: get_session_def case_prod_unfold simp del: accounts_of_lookup)
  let ?only = "case started of None \<Rightarrow> False | Some s \<Rightarrow> se_sign_in_only s"
  obtain res a3 where i: "issue_signed_in_session (st_auth st) (cb_issue cb) sid account ?only (sy_auth s2) = (res, a3)" by force
  then have a3: "accounts_of a3 = accounts_of a1" using accounts_of_issue[of "st_auth st" "cb_issue cb" sid account ?only "sy_auth s2"] s2 by simp
  have open_: "au_store (sy_auth sy) \<noteq> None" "recovered = None \<or> max_age_account (cb_recheck_lk cb) sid a1 = recovered"
    "\<exists>session. res = Inr session"
    using assms(1) up found g i by (auto simp: complete_sign_in_def Let_def split: if_splits sum.splits)
  then obtain session where session: "res = Inr session" by blast
  let ?s4 = "case previous of None \<Rightarrow> with_auth a3 s2
     | Some s \<Rightarrow> if se_account_id s = account then with_auth a3 s2
         else (with_auth a3 s2)\<lparr>sy_accounts := carry_over (cb_history cb) (se_account_id s) account (sy_accounts (with_auth a3 s2))\<rparr>"
  have s4: "accounts_of (sy_auth ?s4) = accounts_of a1"
    using a3 by (auto simp: sy_auth_def with_auth_def split: option.split)
  have "SignedIn location r = SignedIn (if ps_purpose p = DeleteAccount
         then if ps_expected_account_id p = Some account then ACCOUNT_DELETE_PATH else ACCOUNT_SWITCHED_PATH else AFTER_SIGN_IN_PATH) session
      \<and> sy' = record_event (st_google st) (cb_event_io cb) (cb_event_now cb) account ''signed_in'' ?s4"
    using assms(1) up found g i session open_
    unfolding complete_sign_in_def by (simp add: Let_def split: if_splits)
  moreover have "ir_account_id session = account"
    using i session by (auto simp: issue_signed_in_session_def create_session_def issued_def Let_def split: option.splits if_splits)
  ultimately show ?thesis using row s4 by simp
qed

text \<open>C24. A browser is signed in to the account Google identified, in its own sign-in only: a callback that succeeds
  found the pending sign-in its own session started at most ten minutes before, presented that sign-in's secret state,
  and the code was exchanged with that sign-in's verifier; the new session is of the account whose row holds the subject
  Google answered, whatever other requests did during the exchange; the deletion page opens only for the account
  the re-authentication was started for.\<close>

theorem signed_in_is_the_identified_account:
  assumes "google_sign_in_callback st cb rq presented auth_code sy = (SignedIn location r, sy')"
    and "\<forall>x. dict_ok (accounts_of (sy_auth (cb_during cb x))) \<and> cb_fresh_account cb \<notin> fst ` set (accounts_of (sy_auth (cb_during cb x)))"
  shows "\<exists>sid p c who row. map_of (rq_cookies rq) (get_session_cookie_name (st_auth st)) = Some sid
    \<and> map_of (sy_pending sy) sid = Some p \<and> cb_take_now cb - ps_started_at p \<le> SIGN_IN_STATE_TTL
    \<and> (presented = Some (ps_state p) \<or> ps_state p = []) \<and> auth_code = Some c \<and> cb_exchange cb c (ps_code_verifier p) = Inr who
    \<and> map_of (accounts_of (sy_auth sy')) (ir_account_id r) = Some row \<and> ac_google_sub row = vd_google_sub who
    \<and> (location = ACCOUNT_DELETE_PATH \<longrightarrow> ps_expected_account_id p = Some (ir_account_id r))"
proof -
  obtain sid where sid: "map_of (rq_cookies rq) (get_session_cookie_name (st_auth st)) = Some sid" "sid \<noteq> []" "st_state st = SIGN_IN_ON"
    using assms(1) by (auto simp: google_sign_in_callback_def Let_def split: if_splits)
  obtain pending ps where t: "take_sign_in sid (cb_take_now cb) (sy_pending sy) = (pending, ps)" by force
  obtain started s1 where g: "get_session (cb_started_lk cb) sid (sy\<lparr>sy_pending := ps\<rparr>) = (started, s1)" by force
  let ?rec = "if started = None then max_age_account (cb_recover_lk cb) sid (sy_auth s1) else None"
  have body: "(if started = None \<and> ?rec = None then (SignInFailedPage ''no_session'', s1)
           else (case pending of
               None \<Rightarrow> (SignInFailedPage ''no_pending_sign_in'', s1)
             | Some p \<Rightarrow>
                 if (case presented of None \<Rightarrow> [] | Some x \<Rightarrow> x) \<noteq> ps_state p then (SignInFailedPage ''state_mismatch'', s1)
                 else if auth_code = None \<or> auth_code = Some [] then (SignInFailedPage ''no_code'', s1)
                 else (case cb_exchange cb (the auth_code) (ps_code_verifier p) of
                     Inl reason \<Rightarrow> (SignInFailedPage reason, cb_during cb s1)
                   | Inr who \<Rightarrow> complete_sign_in st cb sid p started ?rec who (cb_during cb s1)))) = (SignedIn location r, sy')"
    using assms(1) sid t g by (simp add: google_sign_in_callback_def Let_def)
  then obtain p where p: "pending = Some p" by (auto split: if_splits option.splits)
  from body p have st: "(case presented of None \<Rightarrow> [] | Some x \<Rightarrow> x) = ps_state p" by (auto split: if_splits)
  from body p st obtain c where c: "auth_code = Some c" "c \<noteq> []" by (auto split: if_splits)
  from body p st c obtain who where who: "cb_exchange cb c (ps_code_verifier p) = Inr who"
    by (auto split: if_splits sum.splits)
  have complete_: "complete_sign_in st cb sid p started ?rec who (cb_during cb s1) = (SignedIn location r, sy')"
    using body p st c who by (auto split: if_splits)
  note k = completed_sign_in[OF complete_ conjunct1[OF spec[OF assms(2)]] conjunct2[OF spec[OF assms(2)]]]
  have "map_of (sy_pending sy) sid = Some p" "cb_take_now cb - ps_started_at p \<le> SIGN_IN_STATE_TTL"
    using t p by (auto simp: take_sign_in_def Let_def split: option.splits if_splits)
  moreover have "presented = Some (ps_state p) \<or> ps_state p = []" using st by (auto split: option.splits)
  moreover have "location = ACCOUNT_DELETE_PATH \<longrightarrow> ps_expected_account_id p = Some (ir_account_id r)"
    using k by (auto simp: ACCOUNT_DELETE_PATH_def ACCOUNT_SWITCHED_PATH_def AFTER_SIGN_IN_PATH_def split: if_splits)
  ultimately show ?thesis using sid(1) c(1) who k by blast
qed

definition sample_pending :: pending_sign_in where
  "sample_pending = \<lparr>ps_state = ''s'', ps_code_verifier = ''v'', ps_started_at = 5, ps_purpose = SignIn, ps_expected_account_id = None\<rparr>"

definition sample_system :: sign_in_system where
  "sample_system = \<lparr>sy_accounts = \<lparr>acs_auth = \<lparr>au_repo = new_session_repo\<lparr>sr_sessions := [(''a'', signed_in_session)]\<rparr>,
       au_store = Some account_store, au_next_ref = 1, au_restoring = []\<rparr>, acs_carried = [], acs_runs = [], acs_run_history = None\<rparr>,
     sy_pending = [(''a'', sample_pending)], sy_limiter = new_ip_limiter None None\<rparr>"

definition sample_site :: site where
  "sample_site = \<lparr>st_auth = sample_settings, st_google = \<lparr>gs_client_id = ''c'', gs_client_secret = ''k'', gs_redirect_uri = ''u'',
       gs_starts_burst = 5, gs_starts_per_minute = 5, gs_events_keep_count = 20, gs_events_keep_days = 30\<rparr>,
     st_state = SIGN_IN_ON, st_on_host = (\<lambda>h. True), st_lib = sample_lib, st_parse_uuid = (\<lambda>h. None), st_legacy_id = nat_str, st_subject = length\<rparr>"

definition sample_history_env :: history_env where
  "sample_history_env = \<lparr>he_now = 6, he_account_io = True, he_kind_io = True, he_write_io = True, he_keep_count = 5, he_keep_days = 5,
     he_link_lifetime = 9\<rparr>"

definition sample_callback :: callback_env where
  "sample_callback = \<lparr>cb_take_now = 6, cb_started_lk = calm_look 6, cb_recover_lk = calm_look 6, cb_during = (\<lambda>x. sample_system\<lparr>sy_pending := []\<rparr>),
     cb_exchange = (\<lambda>c v. Inr \<lparr>vd_google_sub = ''g'', vd_email = ''e''\<rparr>), cb_upsert_io = True, cb_upsert_now = 6, cb_fresh_account = 8,
     cb_upsert_lk = calm_look 6, cb_recheck_lk = calm_look 6, cb_previous_lk = calm_look 6, cb_issue = sample_env 6 ''n'',
     cb_history = sample_history_env, cb_account_io = True, cb_event_io = True, cb_event_now = 6\<rparr>"

lemma visitor_lookup:
  "au_store au = Some (account_store\<lparr>sx_accounts := [(1, \<lparr>ac_google_sub = ''g'', ac_email = ''e'', ac_created_at = 0,
     ac_last_sign_in_at = t, ac_spend_key = None, ac_valid_after = None\<rparr>)]\<rparr>) \<Longrightarrow> au_repo au = new_session_repo\<lparr>sr_sessions := [(''a'', signed_in_session)]\<rparr> \<Longrightarrow> lookup (calm_look 6) ''a'' au = (Lookup (Some signed_in_session) None, au)"
  by (simp add: lookup_def purge_cached_def new_session_repo_def signed_in_session_def is_expired_def calm_look_def
      SESSION_TTL_def ANONYMOUS_MAX_AGE_def SIGNED_IN_MAX_AGE_def check_cached_def Let_def sessions_valid_after_def account_store_def open_store_def)

lemma sample_sign_in:
  "\<exists>r sy'. google_sign_in_callback sample_site sample_callback (sample_request ''a'') (Some ''s'') (Some ''c'') sample_system
     = (SignedIn ''/ui'' r, sy')"
proof -
  let ?sy = "sample_system\<lparr>sy_pending := []\<rparr>"
  let ?sx = "\<lambda>t. account_store\<lparr>sx_accounts := [(1, \<lparr>ac_google_sub = ''g'', ac_email = ''e'', ac_created_at = 0,
     ac_last_sign_in_at = t, ac_spend_key = None, ac_valid_after = None\<rparr>)]\<rparr>"
  have look: "get_session (calm_look 6) ''a'' x = (Some signed_in_session, x)"
    if "au_store (sy_auth x) = Some (?sx t)" "au_repo (sy_auth x) = new_session_repo\<lparr>sr_sessions := [(''a'', signed_in_session)]\<rparr>" for x t
    using visitor_lookup[OF that] by (simp add: get_session_def with_auth_def sy_auth_def)
  have first: "google_sign_in_callback sample_site sample_callback (sample_request ''a'') (Some ''s'') (Some ''c'') sample_system
      = complete_sign_in sample_site sample_callback ''a'' sample_pending (Some signed_in_session) None \<lparr>vd_google_sub = ''g'', vd_email = ''e''\<rparr> ?sy"
    using look[of ?sy 0]
    by (simp add: google_sign_in_callback_def sample_site_def sample_settings_def get_session_cookie_name_def sample_request_def
        sample_callback_def take_sign_in_def purge_pending_def sample_pending_def SIGN_IN_STATE_TTL_def Let_def sample_system_def sy_auth_def account_store_def)
  let ?au = "(sy_auth ?sy)\<lparr>au_store := Some (?sx 6)\<rparr>"
  have up: "upsert_account sample_site sample_callback \<lparr>vd_google_sub = ''g'', vd_email = ''e''\<rparr> (sy_auth ?sy) = (Some 1, ?au)"
    by (simp add: upsert_account_def sample_system_def sy_auth_def account_store_def open_store_def upsert_google_account_def
        account_of_subject_def sample_callback_def purge_lapsed_carry_def Let_def)
  have g: "get_session (calm_look 6) ''a'' (with_auth ?au ?sy) = (Some signed_in_session, with_auth ?au ?sy)"
    by (rule look[where t = 6]) (simp_all add: sample_system_def sy_auth_def with_auth_def)
  obtain r a3 where i: "issue_signed_in_session sample_settings (sample_env 6 ''n'') ''a'' 1 False ?au = (Inr r, a3)"
  proof -
    have "was_revoked ''a'' ?au = False" by (simp add: was_revoked_def sample_system_def sy_auth_def new_session_repo_def)
    then show thesis using that
      by (cases "create_session 6 True ''n'' ''tok'' 1 (signed_in_idle_limit sample_settings) False SIGNED_IN_MAX_AGE (revoke 6 True ''a'' ?au)")
        (simp add: issue_signed_in_session_def sample_env_def enforce_production_guards_def sample_settings_def Let_def)
  qed
  have acc: "map_of (accounts_of a3) 1 \<noteq> None"
    using accounts_of_issue[of sample_settings "sample_env 6 ''n''" "''a''" 1 False ?au] i by (simp add: accounts_of_def)
  have "readable_of a3 = Some (True, False)"
    using readable_of_issue[of sample_settings "sample_env 6 ''n''" "''a''" 1 False ?au] i
    by (simp add: readable_of_def account_store_def open_store_def)
  from account_found[OF this acc] obtain x where x: "au_store a3 = Some x" "account_for True 1 x \<noteq> None" by blast
  have st: "st_auth sample_site = sample_settings" "cb_issue sample_callback = sample_env 6 ''n''"
    "cb_previous_lk sample_callback = calm_look 6" "cb_account_io sample_callback" by (simp_all add: sample_site_def sample_callback_def)
  have "au_store (sy_auth ?sy) \<noteq> None" by (simp add: sample_system_def sy_auth_def)
  then have "\<exists>sy'. complete_sign_in sample_site sample_callback ''a'' sample_pending (Some signed_in_session) None
      \<lparr>vd_google_sub = ''g'', vd_email = ''e''\<rparr> ?sy = (SignedIn ''/ui'' r, sy')"
    using up g i x st by (simp add: complete_sign_in_def Let_def sample_pending_def AFTER_SIGN_IN_PATH_def signed_in_session_def)
  then show ?thesis unfolding first by blast
qed

lemma signed_in_is_the_identified_account_witness:
  "case google_sign_in_callback sample_site sample_callback (sample_request ''a'') (Some ''s'') (Some ''c'') sample_system of
     (SignedIn location r, sy') \<Rightarrow> (\<exists>row. map_of (accounts_of (sy_auth sy')) (ir_account_id r) = Some row \<and> ac_google_sub row = ''g'')
   | _ \<Rightarrow> False"
proof -
  obtain r sy' where e: "google_sign_in_callback sample_site sample_callback (sample_request ''a'') (Some ''s'') (Some ''c'') sample_system
      = (SignedIn ''/ui'' r, sy')" using sample_sign_in by blast
  have "\<forall>x. dict_ok (accounts_of (sy_auth (cb_during sample_callback x)))
      \<and> cb_fresh_account sample_callback \<notin> fst ` set (accounts_of (sy_auth (cb_during sample_callback x)))"
    by (simp add: sample_callback_def sample_system_def sy_auth_def accounts_of_def account_store_def dict_ok_def)
  from signed_in_is_the_identified_account[OF e this] e show ?thesis by (auto simp: sample_callback_def)
qed

section \<open>Signing out everywhere\<close>

text \<open>Signing out everywhere does: when it answers success, no signed-in session of the account made up to that moment is
  served any more by this process or, given the same file, by any other, the caller's own included.\<close>

theorem signed_out_everywhere:
  assumes "sign_out_everywhere st so rq sy = (Inr (), sy')"
    and "au_store au = au_store (sy_auth sy')" and "lookup lk sid au = (Lookup (Some s) u, au')"
    and "fst (require_cookie_session st (so_issue so) (so_reason so) rq sy) = Inr sc"
    and "se_account_id s = sc_account_id sc" and "se_max_age s \<noteq> ANONYMOUS_MAX_AGE"
  shows "so_now so < se_created_at s"
proof -
  obtain s1 where r: "require_cookie_session st (so_issue so) (so_reason so) rq sy = (Inr sc, s1)"
    using assms(4) by (metis prod.collapse)
  obtain sx where sx: "au_store (sy_auth s1) = Some sx"
    using assms(1) r by (auto simp: sign_out_everywhere_def split: option.splits)
  obtain sx1 where e: "end_sessions_before (so_io so) (sc_account_id sc) (so_now so) sx = (END_ENDED, sx1)"
    using assms(1) r sx by (auto simp: sign_out_everywhere_def split: prod.splits end_outcome.splits)
  let ?sx2 = "snd (end_sessions_before (so_second_io so) (sc_account_id sc) (so_now so) sx1)"
  have store: "au_store au = Some (snd (record_sign_in_event (so_event_io so) (sc_account_id sc) ''signed_out_everywhere'' (so_now so)
      (gs_events_keep_count (st_google st)) (gs_events_keep_days (st_google st)) ?sx2))"
    using assms(1,2) r sx e by (auto simp: sign_out_everywhere_def Let_def record_event_def sy_auth_def with_auth_def)
  have kept: "sx_safety_ready (snd (record_sign_in_event io account ev now n d x)) = sx_safety_ready x"
    "sx_accounts (snd (record_sign_in_event io account ev now n d x)) = sx_accounts x" for io account ev now n d x
    by (simp_all add: record_sign_in_event_def Let_def)
  have one: "sx_safety_ready sx1 \<and> (\<exists>a c. map_of (sx_accounts sx1) (sc_account_id sc) = Some a \<and> ac_valid_after a = Some c \<and> so_now so \<le> c)"
    using e by (auto simp: end_sessions_before_def split: if_splits option.split)
  then have two: "sx_safety_ready ?sx2 \<and> (\<exists>a c. map_of (sx_accounts ?sx2) (sc_account_id sc) = Some a \<and> ac_valid_after a = Some c \<and> so_now so \<le> c)"
  proof -
    from one obtain a c where a: "map_of (sx_accounts sx1) (sc_account_id sc) = Some a" "ac_valid_after a = Some c" "so_now so \<le> c" by blast
    have "?sx2 = sx1 \<or> map_of (sx_accounts ?sx2) (sc_account_id sc) = Some (a\<lparr>ac_valid_after := Some (max c (so_now so))\<rparr>)"
      using a by (simp add: end_sessions_before_def)
    moreover have "sx_safety_ready ?sx2 = sx_safety_ready sx1" by (simp add: end_sessions_before_def)
    ultimately show ?thesis using one a by auto
  qed
  from look_signed_in[OF assms(3) store assms(6)] obtain co where
    co: "sessions_valid_after True (lk_cutoff_io lk) (sc_account_id sc) (snd (record_sign_in_event (so_event_io so) (sc_account_id sc)
      ''signed_out_everywhere'' (so_now so) (gs_events_keep_count (st_google st)) (gs_events_keep_days (st_google st)) ?sx2)) = (True, co)"
    "\<forall>c. co = Some c \<longrightarrow> c < se_created_at s" using assms(5) by auto
  from two obtain a c where a: "map_of (sx_accounts ?sx2) (sc_account_id sc) = Some a" "ac_valid_after a = Some c" "so_now so \<le> c" by blast
  have "co = ac_valid_after a" using cutoff_at_least[OF _ _ co(1)] a(1) two by (simp add: kept)
  then show ?thesis using a co(2) by fastforce
qed

definition sample_sign_out :: sign_out_env where
  "sample_sign_out = \<lparr>so_issue = sample_env 6 ''n'', so_reason = calm_look 6, so_now = 6, so_io = True, so_second_io = True,
     so_account_io = True, so_event_io = True\<rparr>"

lemma sample_signed_out:
  "\<exists>sc s1 sy'. require_cookie_session sample_site (sample_env 6 ''n'') (calm_look 6) ((sample_request ''a'')\<lparr>rq_csrf_header := Some ''t''\<rparr>) sample_system = (Inr sc, s1)
     \<and> sc_account_id sc = 1
     \<and> sign_out_everywhere sample_site sample_sign_out ((sample_request ''a'')\<lparr>rq_csrf_header := Some ''t''\<rparr>) sample_system = (Inr (), sy')"
proof -
  have l: "lookup (calm_look 6) ''a'' (sy_auth sample_system) = (Lookup (Some signed_in_session) None, sy_auth sample_system)"
    by (rule visitor_lookup[where t = 0]) (simp_all add: sample_system_def sy_auth_def account_store_def)
  let ?c = "signed_in_session\<lparr>se_last_used_at := 6\<rparr>"
  obtain a where u: "use_session 6 True None signed_in_session (sy_auth sample_system) = (Some ?c, a)"
    and a: "\<exists>x. au_store a = Some x \<and> sx_accounts x = sx_accounts account_store \<and> sx_safety_ready x \<and> \<not> sx_closed x"
    by (simp add: use_session_def cached_same_def sample_system_def sy_auth_def new_session_repo_def signed_in_session_def is_expired_def
        SESSION_TTL_def SIGNED_IN_MAX_AGE_def Let_def persist_touch_def persist_def save_session_def write_session_def account_store_def
        open_store_def to_stored_def)
  have r: "require_cookie_session sample_site (sample_env 6 ''n'') (calm_look 6) ((sample_request ''a'')\<lparr>rq_csrf_header := Some ''t''\<rparr>) sample_system
      = (Inr (context_of ?c), with_auth a sample_system)"
    using l u by (simp add: require_cookie_session_def require_session_def sample_site_def sample_settings_def get_session_cookie_name_def
        sample_request_def sample_env_def enforce_csrf_def context_of_def signed_in_session_def is_ascii_def code_def)
  from a obtain x where x: "au_store a = Some x" "sx_accounts x = sx_accounts account_store" "sx_safety_ready x" "\<not> sx_closed x" by blast
  then have "map_of (sx_accounts x) 1 \<noteq> None" by (simp add: account_store_def)
  then have "\<exists>y. end_sessions_before True 1 6 x = (END_ENDED, y)" using x by (simp add: end_sessions_before_def)
  then obtain y where y: "end_sessions_before True 1 6 x = (END_ENDED, y)" by blast
  have ctx: "sc_account_id (context_of ?c) = 1" by (simp add: context_of_def signed_in_session_def)
  have "\<exists>sy'. sign_out_everywhere sample_site sample_sign_out ((sample_request ''a'')\<lparr>rq_csrf_header := Some ''t''\<rparr>) sample_system = (Inr (), sy')"
    using r x(1) y ctx by (simp add: sign_out_everywhere_def sample_sign_out_def Let_def)
  with r ctx show ?thesis by blast
qed

lemma signed_out_everywhere_witness:
  "case sign_out_everywhere sample_site sample_sign_out ((sample_request ''a'')\<lparr>rq_csrf_header := Some ''t''\<rparr>) sample_system of
     (Inl e, sy') \<Rightarrow> False
   | (Inr u, sy') \<Rightarrow> lu_session (fst (lookup (calm_look 7) ''a'' ((sy_auth sample_system)\<lparr>au_store := au_store (sy_auth sy')\<rparr>))) = None"
proof -
  let ?rq = "(sample_request ''a'')\<lparr>rq_csrf_header := Some ''t''\<rparr>"
  obtain sc s1 sy' where e: "require_cookie_session sample_site (sample_env 6 ''n'') (calm_look 6) ?rq sample_system = (Inr sc, s1)"
    "sc_account_id sc = 1" "sign_out_everywhere sample_site sample_sign_out ?rq sample_system = (Inr (), sy')"
    using sample_signed_out by blast
  let ?au = "(sy_auth sample_system)\<lparr>au_store := au_store (sy_auth sy')\<rparr>"
  have "lu_session (fst (lookup (calm_look 7) ''a'' ?au)) \<in> {None, Some signed_in_session}"
  proof -
    have "map_of (sr_sessions (snd (purge_cached 7 (au_repo ?au)))) ''a'' = Some signed_in_session"
      by (simp add: sample_system_def sy_auth_def purge_cached_def new_session_repo_def signed_in_session_def is_expired_def
          SESSION_TTL_def SIGNED_IN_MAX_AGE_def Let_def)
    then show ?thesis using checked_session[of "calm_look 7" signed_in_session] by (simp add: lookup_def calm_look_def Let_def)
  qed
  moreover have "lu_session (fst (lookup (calm_look 7) ''a'' ?au)) \<noteq> Some signed_in_session"
  proof
    assume s: "lu_session (fst (lookup (calm_look 7) ''a'' ?au)) = Some signed_in_session"
    obtain u au' where l: "lookup (calm_look 7) ''a'' ?au = (Lookup (Some signed_in_session) u, au')"
      using s by (cases "lookup (calm_look 7) ''a'' ?au"; cases "fst (lookup (calm_look 7) ''a'' ?au)") auto
    have acc: "se_account_id signed_in_session = sc_account_id sc" by (simp add: signed_in_session_def e(2))
    have env: "so_issue sample_sign_out = sample_env 6 ''n''" "so_reason sample_sign_out = calm_look 6"
      by (simp_all add: sample_sign_out_def)
    have age: "se_max_age signed_in_session \<noteq> ANONYMOUS_MAX_AGE"
      by (simp add: signed_in_session_def SIGNED_IN_MAX_AGE_def ANONYMOUS_MAX_AGE_def)
    have req: "fst (require_cookie_session sample_site (so_issue sample_sign_out) (so_reason sample_sign_out) ?rq sample_system) = Inr sc"
      unfolding env e(1) by simp
    have "so_now sample_sign_out < se_created_at signed_in_session"
      by (rule signed_out_everywhere[OF e(3) _ l req acc age]) simp
    then show False by (simp add: sample_sign_out_def signed_in_session_def)
  qed
  ultimately show ?thesis using e(3) by auto
qed

end
