(* ===== verification/Urls.thy ===== *)
theory Urls
  imports Py_Strings
begin

text \<open>
  Where the program cuts a URL apart: \<^verbatim>\<open>urllib.parse.urlsplit\<close> on text (scheme, network location, user information and
  host name), and the two checks built on it: \<^verbatim>\<open>credentialed_url.py\<close> (which address the operator's keys may be
  sent to) and \<open>_sanitize_source_url\<close> of \<^verbatim>\<open>providers.py\<close> (which address may become a source). The two questions
  only \<^verbatim>\<open>ipaddress\<close> can answer are parameters: whether a bracketed host is an IPv6 literal, and whether
  a host is a loopback address.
\<close>

section \<open>Splitting\<close>

record split_url =
  su_scheme :: string
  su_netloc :: string

definition before_char :: "char \<Rightarrow> string \<Rightarrow> string" where "before_char c = takeWhile (\<lambda>x. x \<noteq> c)"
definition after_char :: "char \<Rightarrow> string \<Rightarrow> string" where "after_char c s = tl (dropWhile (\<lambda>x. x \<noteq> c) s)"

text \<open>\<^verbatim>\<open>rpartition('@')[2]\<close>.\<close>

definition after_last :: "char \<Rightarrow> string \<Rightarrow> string" where "after_last c s = rev (takeWhile (\<lambda>x. x \<noteq> c) (rev s))"

definition is_scheme_char :: "char \<Rightarrow> bool" where
  "is_scheme_char c = (is_ascii_letter c \<or> is_digit c \<or> c \<in> {CHR ''+'', CHR ''-'', CHR ''.''})"

definition split_scheme :: "string \<Rightarrow> string \<times> string" where
  "split_scheme u =
     (let s = before_char CHR '':'' u in
      if CHR '':'' \<in> set u \<and> s \<noteq> [] \<and> is_ascii_letter (hd s) \<and> list_all is_scheme_char s
      then (lower s, after_char CHR '':'' u) else ([], u))"

definition host_part :: "string \<Rightarrow> string" where
  "host_part netloc =
     (let info = after_last CHR ''@'' netloc in
      if CHR ''['' \<in> set info then before_char CHR '']'' (after_char CHR ''['' info)
      else before_char CHR '':'' info)"

definition bracketed_ok :: "(string \<Rightarrow> bool) \<Rightarrow> string \<Rightarrow> bool" where
  "bracketed_ok ip_literal netloc =
     (let info = after_last CHR ''@'' netloc in
      if CHR ''['' \<in> set info
      then before_char CHR ''['' info = []
        \<and> (let port = after_char CHR '']'' (after_char CHR ''['' info) in port = [] \<or> hd port = CHR '':'')
        \<and> ip_literal (host_part netloc)
      else ip_literal (host_part netloc))"

text \<open>\<open>None\<close>: it raises \<^verbatim>\<open>ValueError\<close>.\<close>

definition urlsplit :: "(string \<Rightarrow> bool) \<Rightarrow> string \<Rightarrow> split_url option" where
  "urlsplit ip_literal url =
     (let u = filter (\<lambda>c. code c \<notin> {9, 10, 13}) (dropWhile (\<lambda>c. code c \<le> 32) url);
          (scheme, rest) = split_scheme u;
          netloc = (if starts_with ''//'' rest then takeWhile (\<lambda>c. c \<notin> {CHR ''/'', CHR ''?'', CHR ''#''}) (drop 2 rest) else [])
      in if (CHR ''['' \<in> set netloc) \<noteq> (CHR '']'' \<in> set netloc) then None
         else if CHR ''['' \<in> set netloc \<and> \<not> bracketed_ok ip_literal netloc then None
         else Some \<lparr>su_scheme = scheme, su_netloc = netloc\<rparr>)"

text \<open>\<^verbatim>\<open>.hostname or ''\<close>: lower-cased up to a zone after \<open>%\<close>.\<close>

definition url_hostname :: "split_url \<Rightarrow> string" where
  "url_hostname su = (let h = host_part (su_netloc su) in lower (before_char CHR ''%'' h) @ dropWhile (\<lambda>x. x \<noteq> CHR ''%'') h)"

definition has_userinfo :: "split_url \<Rightarrow> bool" where "has_userinfo su = (CHR ''@'' \<in> set (su_netloc su))"

section \<open>Where a key may be sent\<close>

record ip_facts =
  ip_literal :: "string \<Rightarrow> bool"
  ip_loopback :: "string \<Rightarrow> bool"

definition LOOPBACK_HOSTNAMES :: "string list" where "LOOPBACK_HOSTNAMES = [''localhost'']"

definition is_loopback_host :: "ip_facts \<Rightarrow> string \<Rightarrow> bool" where
  "is_loopback_host ip h = (h \<noteq> [] \<and> (h \<in> set LOOPBACK_HOSTNAMES \<or> ip_loopback ip h))"

definition is_credential_safe :: "ip_facts \<Rightarrow> string \<Rightarrow> bool" where
  "is_credential_safe ip url =
     (if list_ex (\<lambda>c. is_space c \<or> code c \<le> 31 \<or> code c = 127) url then False
      else (case urlsplit (ip_literal ip) url of
          None \<Rightarrow> False
        | Some su \<Rightarrow>
            if has_userinfo su then False
            else if su_scheme su = ''https'' then True
            else if su_scheme su \<noteq> ''http'' then False
            else is_loopback_host ip (url_hostname su)))"

definition chat_completions_url :: "ip_facts \<Rightarrow> string \<Rightarrow> string option" where
  "chat_completions_url ip base =
     (let url = base @ ''/chat/completions'' in if is_credential_safe ip url then Some url else None)"

definition rstrip_chars :: "char list \<Rightarrow> string \<Rightarrow> string" where
  "rstrip_chars cs s = rev (dropWhile (\<lambda>c. c \<in> set cs) (rev s))"

definition tavily_search_url :: "ip_facts \<Rightarrow> string \<Rightarrow> string option" where
  "tavily_search_url ip base =
     (let url = rstrip_chars ''/'' base @ ''/search'' in if is_credential_safe ip url then Some url else None)"

definition base_url_provenance :: "ip_facts \<Rightarrow> string \<Rightarrow> string \<times> string" where
  "base_url_provenance ip base =
     (case urlsplit (ip_literal ip) base of None \<Rightarrow> ([], []) | Some su \<Rightarrow> (su_scheme su, url_hostname su))"

section \<open>Which address may be a source\<close>

definition SOURCE_URL_HOST_DENYLIST :: "string list" where
  "SOURCE_URL_HOST_DENYLIST =
     [''localhost'', ''127.0.0.1'', ''0.0.0.0'', ''169.254.169.254'', ''metadata.google.internal'', ''::1'']"

definition sanitize_source_url :: "ip_facts \<Rightarrow> string \<Rightarrow> string option" where
  "sanitize_source_url ip raw =
     (let url = strip raw in
      if url = [] then None
      else if list_ex (\<lambda>c. is_space c \<or> code c < 32 \<or> code c = 133) url then None
      else if \<not> (starts_with ''http://'' url \<or> starts_with ''https://'' url) then None
      else
        let url = before_char CHR ''#'' url in
        (case urlsplit (ip_literal ip) url of
           None \<Rightarrow> None
         | Some su \<Rightarrow> if lower (url_hostname su) \<in> set SOURCE_URL_HOST_DENYLIST then None else Some url))"

section \<open>What the checks give\<close>

lemma before_char_free: "c \<notin> set (before_char c s)"
  unfolding before_char_def by (induction s) auto

lemma before_char_id: "c \<notin> set s \<Longrightarrow> before_char c s = s"
  unfolding before_char_def by (induction s) auto

lemma before_char_twice [simp]: "before_char c (before_char c s) = before_char c s"
  by (rule before_char_id) (rule before_char_free)

lemma set_before_char: "set (before_char c s) \<subseteq> set s"
  unfolding before_char_def by (auto dest: set_takeWhileD)

lemma starts_with_before: "starts_with p s \<Longrightarrow> c \<notin> set p \<Longrightarrow> starts_with p (before_char c s)"
  by (auto simp: starts_with_iff before_char_def takeWhile_append)

lemma no_space_strip:
  assumes "\<not> list_ex (\<lambda>c. is_space c \<or> P c) s"
  shows "strip s = s"
proof -
  have n: "\<forall>c \<in> set s. \<not> is_space c" using assms by (auto simp: list_ex_iff)
  then have "lstrip s = s" unfolding lstrip_def by (cases s) auto
  moreover have "dropWhile is_space (rev s) = rev s" using n
    by (metis dropWhile_eq_self_iff last_in_set last_rev hd_rev list.set_sel(1) set_rev)
  ultimately show ?thesis by (simp add: strip_def rstrip_def)
qed

text \<open>A source address is one token with nothing a prompt line could be forged with, it names a page by http or https,
  has no fragment and no host of the deny list, and reading it again changes nothing.\<close>

theorem source_address_is_clean:
  assumes "sanitize_source_url ip raw = Some url"
  shows "list_all (\<lambda>c. \<not> is_space c \<and> 32 \<le> code c \<and> c \<noteq> CHR ''#'') url
    \<and> (starts_with ''http://'' url \<or> starts_with ''https://'' url)
    \<and> sanitize_source_url ip url = Some url
    \<and> (\<exists>su. urlsplit (ip_literal ip) url = Some su \<and> lower (url_hostname su) \<notin> set SOURCE_URL_HOST_DENYLIST)"
proof -
  let ?s = "strip raw"
  have clean: "\<not> list_ex (\<lambda>c. is_space c \<or> code c < 32 \<or> code c = 133) ?s"
    and http: "starts_with ''http://'' ?s \<or> starts_with ''https://'' ?s" and url: "url = before_char CHR ''#'' ?s"
    and split: "\<exists>su. urlsplit (ip_literal ip) url = Some su \<and> lower (url_hostname su) \<notin> set SOURCE_URL_HOST_DENYLIST"
    using assms by (auto simp: sanitize_source_url_def Let_def split: if_splits option.splits)
  have u: "\<not> list_ex (\<lambda>c. is_space c \<or> code c < 32 \<or> code c = 133) url"
    using clean set_before_char[of "CHR ''#''" ?s] by (auto simp: url list_ex_iff)
  have h: "starts_with ''http://'' url \<or> starts_with ''https://'' url"
    using http starts_with_before[of _ ?s "CHR ''#''"] by (auto simp: url)
  have "list_all (\<lambda>c. \<not> is_space c \<and> 32 \<le> code c \<and> c \<noteq> CHR ''#'') url"
    using u before_char_free[of "CHR ''#''" ?s] by (auto simp: list_all_iff list_ex_iff url)
  moreover have "sanitize_source_url ip url = Some url"
    using u h split no_space_strip[OF u] by (auto simp: sanitize_source_url_def Let_def url starts_with_def)
  ultimately show ?thesis using h split by blast
qed

lemma source_address_is_clean_witness:
  "sanitize_source_url \<lparr>ip_literal = \<lambda>x. False, ip_loopback = \<lambda>x. False\<rparr> '' https://a.test/doc#part '' = Some ''https://a.test/doc''
   \<and> sanitize_source_url \<lparr>ip_literal = \<lambda>x. False, ip_loopback = \<lambda>x. False\<rparr> ''https://a.test/doc'' = Some ''https://a.test/doc''"
proof -
  have "sanitize_source_url \<lparr>ip_literal = \<lambda>x. False, ip_loopback = \<lambda>x. False\<rparr> '' https://a.test/doc#part '' = Some ''https://a.test/doc''"
    by (simp add: sanitize_source_url_def char_eval strip_def lstrip_def rstrip_def starts_with_def before_char_def urlsplit_def
        split_scheme_def is_scheme_char_def after_char_def url_hostname_def host_part_def after_last_def lower_def SOURCE_URL_HOST_DENYLIST_def Let_def)
  with source_address_is_clean[OF this] show ?thesis by blast
qed

end
