(* ===== verification/Robots.thy ===== *)
theory Robots
  imports Urls
begin

text \<open>
  The robots.txt matcher of \<^verbatim>\<open>source_fetcher.py\<close> (RFC 9309): the one form addresses and rules are compared in, the
  rules a file gives this agent, the matching of one pattern, and the verdict on a page. The matcher takes the
  literal pieces of a pattern from left to right; it is proved equal to the reading of the pattern as a wildcard.
\<close>

section \<open>Addresses\<close>

text \<open>The path and the query of an address that \<open>urlsplit\<close> accepts.\<close>

definition url_tail :: "string \<Rightarrow> string" where
  "url_tail url =
     (let u = filter (\<lambda>c. code c \<notin> {9, 10, 13}) (dropWhile (\<lambda>c. code c \<le> 32) url);
          rest = snd (split_scheme u)
      in if starts_with ''//'' rest then dropWhile (\<lambda>c. c \<notin> {CHR ''/'', CHR ''?'', CHR ''#''}) (drop 2 rest) else rest)"

definition url_path :: "string \<Rightarrow> string" where
  "url_path url = before_char CHR ''?'' (before_char CHR ''#'' (url_tail url))"

definition url_query :: "string \<Rightarrow> string" where
  "url_query url = after_char CHR ''?'' (before_char CHR ''#'' (url_tail url))"

text \<open>\<^verbatim>\<open>^([A-Za-z][A-Za-z0-9+.-]*://)([^/?]*)\<close>, the host part lower-cased, user information and scheme as they are.\<close>

definition canonical_address :: "string \<Rightarrow> string" where
  "canonical_address url =
     (let s = before_char CHR ''#'' (strip url);
          scheme = takeWhile is_scheme_char s; rest = drop (length scheme) s in
      if scheme = [] \<or> \<not> is_ascii_letter (hd scheme) \<or> \<not> starts_with ''://'' rest then s
      else
        let authority = takeWhile (\<lambda>c. c \<noteq> CHR ''/'' \<and> c \<noteq> CHR ''?'') (drop 3 rest);
            host = after_last CHR ''@'' authority
        in scheme @ ''://'' @ take (length authority - length host) authority @ lower host @ drop (3 + length authority) rest)"

section \<open>One form for rules and addresses\<close>

definition ROBOTS_MAX_RULE_CHARS :: nat where "ROBOTS_MAX_RULE_CHARS = 2048"
definition ROBOTS_MAX_RULES :: nat where "ROBOTS_MAX_RULES = 4096"
definition ROBOTS_MAX_ADDRESS_CHARS :: nat where "ROBOTS_MAX_ADDRESS_CHARS = 2048"
definition USER_AGENT :: string where "USER_AGENT = ''quorum-ai-source-check/0.1 (+https://quorum.stackclimb.com)''"

definition is_unreserved :: "char \<Rightarrow> bool" where
  "is_unreserved c = (is_ascii_letter c \<or> is_digit c \<or> c \<in> {CHR ''-'', CHR ''.'', CHR ''_'', CHR ''~''})"

definition hex_digit :: "nat \<Rightarrow> char" where "hex_digit n = (if n < 10 then char_of (48 + n) else char_of (55 + n))"

definition is_hex :: "char \<Rightarrow> bool" where
  "is_hex c = (is_digit c \<or> 65 \<le> code c \<and> code c \<le> 70 \<or> 97 \<le> code c \<and> code c \<le> 102)"

definition hex_value :: "char \<Rightarrow> nat" where
  "hex_value c = (if is_digit c then code c - 48 else if code c \<le> 70 then code c - 55 else code c - 87)"

definition percent :: "nat \<Rightarrow> string" where "percent b = [CHR ''%'', hex_digit (b div 16), hex_digit (b mod 16)]"

text \<open>The UTF-8 bytes of a character, escaped.\<close>

definition encode_char :: "char \<Rightarrow> string" where
  "encode_char c = (if code c < 128 then [c] else percent (192 + code c div 64) @ percent (128 + code c mod 64))"

fun escapes :: "string \<Rightarrow> string" where
  "escapes (p # a # b # s) =
     (if p = CHR ''%'' \<and> is_hex a \<and> is_hex b
      then (let c = char_of (16 * hex_value a + hex_value b)
            in (if is_unreserved c then [c] else CHR ''%'' # map (\<lambda>x. if 97 \<le> code x then char_of (code x - 32) else x) [a, b]) @ escapes s)
      else p # escapes (a # b # s))"
| "escapes s = s"

definition robots_normalise :: "string \<Rightarrow> string" where "robots_normalise s = escapes (concat (map encode_char s))"

section \<open>The rules of a file\<close>

text \<open>\<^verbatim>\<open>str.splitlines\<close>.\<close>

definition is_line_end :: "char \<Rightarrow> bool" where "is_line_end c = (code c \<in> {10, 11, 12, 13, 28, 29, 30, 133})"

fun split_lines :: "string \<Rightarrow> string \<Rightarrow> string list" where
  "split_lines line [] = (if line = [] then [] else [rev line])"
| "split_lines line [c] = (if is_line_end c then [rev line] else [rev (c # line)])"
| "split_lines line (c # d # s) =
     (if code c = 13 \<and> code d = 10 then rev line # split_lines [] s
      else if is_line_end c then rev line # split_lines [] (d # s)
      else split_lines (c # line) (d # s))"

type_synonym rule = "bool \<times> string"

record rules_state =
  rl_own :: "rule list"
  rl_star :: "rule list"
  rl_own_seen :: bool
  rl_agents :: "string list"
  rl_in_rules :: bool
  rl_count :: nat

definition no_rules :: rules_state where
  "no_rules = \<lparr>rl_own = [], rl_star = [], rl_own_seen = False, rl_agents = [], rl_in_rules = False, rl_count = 0\<rparr>"

text \<open>\<open>None\<close>: \<^verbatim>\<open>_RobotsTooLarge\<close>.\<close>

definition read_line :: "string \<Rightarrow> string \<Rightarrow> rules_state \<Rightarrow> rules_state option" where
  "read_line token raw rl =
     (let line = before_char CHR ''#'' raw; key = lower (strip (before_char CHR '':'' line)); value = strip (after_char CHR '':'' line) in
      if CHR '':'' \<notin> set line then Some rl
      else if key = ''user-agent'' then
        (let agents = lower value # (if rl_in_rules rl then [] else rl_agents rl)
         in Some (rl\<lparr>rl_agents := agents, rl_in_rules := False, rl_own_seen := rl_own_seen rl \<or> token \<in> set agents\<rparr>))
      else if key = ''allow'' \<or> key = ''disallow'' then
        (if rl_count rl + 1 > ROBOTS_MAX_RULES \<or> length value > ROBOTS_MAX_RULE_CHARS then None
         else
           let rl = rl\<lparr>rl_in_rules := True, rl_count := rl_count rl + 1\<rparr>; rule = (key = ''allow'', robots_normalise value) in
           Some (if value = [] then rl
                 else rl\<lparr>rl_own := rl_own rl @ (if token \<in> set (rl_agents rl) then [rule] else []),
                         rl_star := rl_star rl @ (if ''*'' \<in> set (rl_agents rl) then [rule] else [])\<rparr>))
      else Some rl)"

fun read_lines :: "string \<Rightarrow> string list \<Rightarrow> rules_state \<Rightarrow> rules_state option" where
  "read_lines token [] rl = Some rl"
| "read_lines token (l # ls) rl = (case read_line token l rl of None \<Rightarrow> None | Some rl \<Rightarrow> read_lines token ls rl)"

definition robots_rules :: "string \<Rightarrow> string \<Rightarrow> rule list option" where
  "robots_rules body token =
     map_option (\<lambda>rl. if rl_own_seen rl then rl_own rl else rl_star rl) (read_lines token (split_lines [] body) no_rules)"

section \<open>One pattern\<close>

fun split_on :: "char \<Rightarrow> string \<Rightarrow> string list" where
  "split_on c [] = [[]]"
| "split_on c (x # s) = (if x = c then [] # split_on c s else (case split_on c s of [] \<Rightarrow> [[x]] | p # ps \<Rightarrow> (x # p) # ps))"

fun skip_pieces :: "string list \<Rightarrow> string \<Rightarrow> nat \<Rightarrow> nat option" where
  "skip_pieces [] target position = Some position"
| "skip_pieces (p # ps) target position =
     (case find_sub p (drop position target) of None \<Rightarrow> None | Some i \<Rightarrow> skip_pieces ps target (position + i + length p))"

definition robots_pattern_matches :: "string \<Rightarrow> string \<Rightarrow> bool" where
  "robots_pattern_matches pattern target =
     (let anchored = ends_with ''$'' pattern; pieces = split_on CHR ''*'' (if anchored then butlast pattern else pattern) in
      if \<not> starts_with (hd pieces) target then False
      else (case skip_pieces (butlast (tl pieces)) target (length (hd pieces)) of
          None \<Rightarrow> False
        | Some position \<Rightarrow>
            if length pieces = 1 then \<not> anchored \<or> position = length target
            else if anchored then ends_with (last pieces) target \<and> length target \<ge> length (last pieces) + position
            else find_sub (last pieces) (drop position target) \<noteq> None))"

section \<open>The verdict on a page\<close>

datatype robots_verdict = ALLOWED | REFUSED | UNCHECKED

fun best_rule :: "string \<Rightarrow> rule list \<Rightarrow> int \<times> bool \<Rightarrow> int \<times> bool" where
  "best_rule target [] best = best"
| "best_rule target ((allow, pattern) # rules) best =
     best_rule target rules
       (if robots_pattern_matches pattern target
        then (let n = int (length pattern) in if fst best < n \<or> fst best = n \<and> \<not> snd best \<and> allow then (n, allow) else best)
        else best)"

definition robots_target :: "string \<Rightarrow> string" where
  "robots_target url =
     robots_normalise ((if url_path url = [] then ''/'' else url_path url) @ (if url_query url = [] then [] else CHR ''?'' # url_query url))"

definition robots_verdict_on :: "nat option \<Rightarrow> string option \<Rightarrow> string \<Rightarrow> string \<Rightarrow> robots_verdict" where
  "robots_verdict_on status body url user_agent =
     (let target = robots_target url in
      case status of
        None \<Rightarrow> UNCHECKED
      | Some n \<Rightarrow>
          if length target > ROBOTS_MAX_ADDRESS_CHARS then UNCHECKED
          else if 400 \<le> n \<and> n < 500 then ALLOWED
          else if \<not> (200 \<le> n \<and> n < 300) then UNCHECKED
          else (case robots_rules (case body of None \<Rightarrow> [] | Some b \<Rightarrow> b) (lower (strip (before_char CHR ''/'' user_agent))) of
              None \<Rightarrow> UNCHECKED
            | Some rules \<Rightarrow> if snd (best_rule target rules (- 1, True)) then ALLOWED else REFUSED))"

definition robots_allows :: "nat option \<Rightarrow> string option \<Rightarrow> string \<Rightarrow> string \<Rightarrow> bool" where
  "robots_allows status body url user_agent = (robots_verdict_on status body url user_agent = ALLOWED)"

section \<open>The pieces of a pattern match as the pattern does\<close>

text \<open>RFC 9309, section 2.2.3, read directly: \<open>*\<close> stands for any run of characters.\<close>

fun wildcard :: "bool \<Rightarrow> string \<Rightarrow> string \<Rightarrow> bool" where
  "wildcard anchored [] s = (\<not> anchored \<or> s = [])"
| "wildcard anchored (c # p) s =
     (if c = CHR ''*'' then list_ex (\<lambda>k. wildcard anchored p (drop k s)) [0..<Suc (length s)]
      else s \<noteq> [] \<and> hd s = c \<and> wildcard anchored p (tl s))"

text \<open>The pieces after the first, each somewhere after the one before.\<close>

fun spread :: "bool \<Rightarrow> string list \<Rightarrow> string \<Rightarrow> bool" where
  "spread anchored [] s = (\<not> anchored \<or> s = [])"
| "spread anchored (p # ps) s = (\<exists>k \<le> length s. starts_with p (drop k s) \<and> spread anchored ps (drop (k + length p) s))"

fun spread_first :: "bool \<Rightarrow> string list \<Rightarrow> string \<Rightarrow> bool" where
  "spread_first anchored [] s = False"
| "spread_first anchored (p # ps) s = (starts_with p s \<and> spread anchored ps (drop (length p) s))"

lemma split_on_ne: "split_on c s \<noteq> []"
  by (induction s) (auto split: list.splits)

lemma wildcard_pieces: "wildcard anchored p s = spread_first anchored (split_on CHR ''*'' p) s"
proof (induction p arbitrary: s)
  case Nil
  then show ?case by (simp add: starts_with_def)
next
  case (Cons c p)
  obtain q qs where q: "split_on CHR ''*'' p = q # qs" using split_on_ne[of "CHR ''*''" p] by (cases "split_on CHR ''*'' p") auto
  show ?case
  proof (cases "c = CHR ''*''")
    case True
    have "wildcard anchored (c # p) s = (\<exists>k \<le> length s. wildcard anchored p (drop k s))"
      using True by (auto simp: list_ex_iff less_Suc_eq_le simp del: upt_Suc)
    also have "\<dots> = spread anchored (q # qs) s" by (simp add: Cons q drop_drop add.commute)
    finally show ?thesis using True q by (simp add: starts_with_def)
  next
    case False
    then show ?thesis using q by (cases s) (auto simp: Cons starts_with_def)
  qed
qed

lemma starts_with_length: "starts_with p s \<Longrightarrow> length p \<le> length s"
  by (auto simp: starts_with_iff)

lemma find_sub_least: "find_sub p s = Some i \<Longrightarrow> starts_with p (drop i s) \<and> (\<forall>k < i. \<not> starts_with p (drop k s))"
proof (induction p s arbitrary: i rule: find_sub.induct)
  case (1 p)
  then show ?case by (auto simp: starts_with_def split: if_splits)
next
  case (2 p c s)
  show ?case
  proof (cases "starts_with p (c # s)")
    case True
    then show ?thesis using 2 by simp
  next
    case False
    then obtain j where j: "find_sub p s = Some j" "i = Suc j" using 2(2) by auto
    then have "\<not> starts_with p (drop k (c # s))" if "k < i" for k using 2(1)[OF False j(1)] that False by (cases k) auto
    then show ?thesis using 2(1)[OF False j(1)] j(2) by simp
  qed
qed

lemma found_at: "(find_sub p s \<noteq> None) = (\<exists>k \<le> length s. starts_with p (drop k s))"
proof
  assume "find_sub p s \<noteq> None"
  then obtain i where i: "find_sub p s = Some i" by auto
  then show "\<exists>k \<le> length s. starts_with p (drop k s)" using find_sub_least[OF i] find_sub_Some[OF i] by blast
next
  assume "\<exists>k \<le> length s. starts_with p (drop k s)"
  then obtain k t where "drop k s = p @ t" by (auto simp: starts_with_iff)
  then have "s = take k s @ p @ t" by (metis append_take_drop_id)
  then show "find_sub p s \<noteq> None" using find_sub_None by blast
qed

lemma spread_later: "ps \<noteq> [] \<Longrightarrow> k \<le> length s \<Longrightarrow> spread anchored ps (drop k s) \<Longrightarrow> spread anchored ps s"
proof (cases ps)
  case (Cons p qs)
  assume k: "k \<le> length s" and sp: "spread anchored ps (drop k s)"
  then obtain j where j: "j \<le> length s - k" "starts_with p (drop (j + k) s)" "spread anchored qs (drop (j + k + length p) s)"
    using Cons by (auto simp: add_ac)
  then have "j + k \<le> length s" using k by simp
  then show ?thesis using j Cons by auto
qed simp

lemma skip_greedy:
  "pos \<le> length t \<Longrightarrow> spread anchored (ps @ [m]) (drop pos t) =
    (case skip_pieces ps t pos of None \<Rightarrow> False | Some pos' \<Rightarrow> pos' \<le> length t \<and> spread anchored [m] (drop pos' t))"
proof (induction ps arbitrary: pos)
  case (Cons p ps)
  let ?u = "drop pos t"
  show ?case
  proof (cases "find_sub p ?u")
    case None
    then have "\<not> (\<exists>k \<le> length ?u. starts_with p (drop k ?u))" using found_at[of p ?u] by blast
    then show ?thesis using None by simp blast
  next
    case (Some i)
    have first: "starts_with p (drop i ?u)" and least: "\<not> starts_with p (drop k ?u)" if "k < i" for k
      using find_sub_least[OF Some] that by blast+
    have st: "starts_with p (drop i ?u)" using find_sub_least[OF Some] by blast
    have i: "i \<le> length ?u" using find_sub_Some[OF Some] by blast
    have fits: "i + length p \<le> length ?u" using starts_with_length[OF st] i by simp
    have "spread anchored ((p # ps) @ [m]) ?u = spread anchored (ps @ [m]) (drop (i + length p) ?u)"
    proof
      assume "spread anchored ((p # ps) @ [m]) ?u"
      then obtain k where k: "k \<le> length ?u" "starts_with p (drop k ?u)" "spread anchored (ps @ [m]) (drop (k + length p) ?u)" by auto
      have ge: "i \<le> k" using k(2) find_sub_least[OF Some] not_le_imp_less by blast
      have "drop (k + length p) ?u = drop (k - i) (drop (i + length p) ?u)" using ge by (simp add: add_ac)
      moreover have "k - i \<le> length (drop (i + length p) ?u)" using starts_with_length[OF k(2)] k(1) ge by simp
      ultimately show "spread anchored (ps @ [m]) (drop (i + length p) ?u)" using k(3) by (metis snoc_eq_iff_butlast spread_later)
    next
      assume "spread anchored (ps @ [m]) (drop (i + length p) ?u)"
      then show "spread anchored ((p # ps) @ [m]) ?u" using i st by auto
    qed
    also have "\<dots> = (case skip_pieces ps t (pos + i + length p) of None \<Rightarrow> False | Some pos' \<Rightarrow> pos' \<le> length t \<and> spread anchored [m] (drop pos' t))"
      using Cons.IH[of "pos + i + length p"] Cons.prems fits by (simp add: add_ac)
    finally show ?thesis using Some by simp
  qed
qed simp

lemma skip_position: "pos \<le> length t \<Longrightarrow> skip_pieces ps t pos = Some pos' \<Longrightarrow> pos' \<le> length t"
proof (induction ps arbitrary: pos)
  case (Cons p ps)
  then obtain i where i: "find_sub p (drop pos t) = Some i" "skip_pieces ps t (pos + i + length p) = Some pos'"
    by (auto split: option.splits)
  have "starts_with p (drop i (drop pos t))" "i \<le> length (drop pos t)" using find_sub_least[OF i(1)] find_sub_Some[OF i(1)] by blast+
  then have "pos + i + length p \<le> length t" using Cons.prems(1) starts_with_length[of p "drop i (drop pos t)"] by simp
  then show ?case using Cons.IH i(2) by blast
qed simp

lemma spread_last: "spread anchored [m] s = (if anchored then ends_with m s else find_sub m s \<noteq> None)"
proof (cases anchored)
  case True
  have "(\<exists>k \<le> length s. starts_with m (drop k s) \<and> length s \<le> k + length m) = (\<exists>t. s = t @ m)"
  proof
    assume "\<exists>k \<le> length s. starts_with m (drop k s) \<and> length s \<le> k + length m"
    then obtain k t where k: "k \<le> length s" "drop k s = m @ t" "length s \<le> k + length m" by (auto simp: starts_with_iff)
    then have "length m + length t = length s - k" by (metis length_append length_drop)
    then have "length t = 0" using k(1,3) by linarith
    then have "t = []" by simp
    then show "\<exists>t. s = t @ m" using k(2) by (metis append_Nil2 append_take_drop_id)
  next
    assume "\<exists>t. s = t @ m"
    then obtain t where "s = t @ m" by blast
    then show "\<exists>k \<le> length s. starts_with m (drop k s) \<and> length s \<le> k + length m"
      by (intro exI[of _ "length t"]) (simp add: starts_with_def)
  qed
  moreover have "ends_with m s = (\<exists>t. s = t @ m)"
  proof
    assume "ends_with m s"
    then obtain t where "rev s = rev m @ t" by (auto simp: ends_with_def starts_with_iff)
    then have "s = rev t @ m" by (metis rev_append rev_rev_ident)
    then show "\<exists>t. s = t @ m" by blast
  qed (auto simp: ends_with_def starts_with_iff)
  ultimately show ?thesis using True by simp
next
  case False
  then show ?thesis using found_at[of m s] by simp
qed

lemma ends_with_drop: "pos \<le> length t \<Longrightarrow> ends_with m (drop pos t) = (ends_with m t \<and> length m + pos \<le> length t)"
proof -
  assume pos: "pos \<le> length t"
  have *: "ends_with m s = (length m \<le> length s \<and> drop (length s - length m) s = m)" for s
  proof -
    have "ends_with m s = (rev (take (length m) (rev s)) = m)" unfolding ends_with_def starts_with_def by (metis length_rev rev_rev_ident)
    also have "\<dots> = (drop (length s - length m) s = m)" by (simp add: rev_take)
    also have "\<dots> = (length m \<le> length s \<and> drop (length s - length m) s = m)"
      by (metis diff_le_self length_drop diff_diff_cancel nat_le_linear diff_is_0_eq' drop0 le_refl)
    finally show ?thesis .
  qed
  show ?thesis unfolding *[of "drop pos t"] *[of t] using pos by auto
qed

text \<open>C33. Matching the pieces of a robots.txt pattern from left to right, each at its first place, is exact: it accepts
  an address exactly when the pattern, each star any run of characters and a final dollar the end, matches it.\<close>

theorem greedy_pieces_are_exact:
  "robots_pattern_matches pattern target =
    (if ends_with ''$'' pattern then wildcard True (butlast pattern) target else wildcard False pattern target)"
proof -
  define anchored where "anchored = ends_with ''$'' pattern"
  define p where "p = (if anchored then butlast pattern else pattern)"
  obtain q qs where q: "split_on CHR ''*'' p = q # qs" using split_on_ne[of "CHR ''*''" p] by (cases "split_on CHR ''*'' p") auto
  have "wildcard anchored p target = (starts_with q target \<and> spread anchored qs (drop (length q) target))"
    by (simp add: wildcard_pieces q)
  also have "\<dots> = robots_pattern_matches pattern target"
  proof -
    have code: "robots_pattern_matches pattern target =
        (if \<not> starts_with q target then False
         else (case skip_pieces (butlast qs) target (length q) of None \<Rightarrow> False
           | Some position \<Rightarrow> if qs = [] then \<not> anchored \<or> position = length target
               else if anchored then ends_with (last qs) target \<and> length target \<ge> length (last qs) + position
               else find_sub (last qs) (drop position target) \<noteq> None))"
      unfolding robots_pattern_matches_def Let_def anchored_def[symmetric] p_def[symmetric] q by (cases qs) (simp_all split: option.split)
    show ?thesis
    proof (cases "starts_with q target")
      case True
      have len: "length q \<le> length target" by (rule starts_with_length[OF True])
      show ?thesis
      proof (cases qs rule: rev_cases)
        case Nil
        then show ?thesis using True len by (auto simp: code)
      next
        case (snoc ps m)
        have "spread anchored qs (drop (length q) target) =
            (case skip_pieces ps target (length q) of None \<Rightarrow> False | Some pos \<Rightarrow> pos \<le> length target \<and> spread anchored [m] (drop pos target))"
          using skip_greedy[OF len] snoc by simp
        also have "\<dots> = (case skip_pieces ps target (length q) of None \<Rightarrow> False
            | Some pos \<Rightarrow> if anchored then ends_with m target \<and> length target \<ge> length m + pos else find_sub m (drop pos target) \<noteq> None)"
          using skip_position[OF len, of ps] by (simp add: spread_last ends_with_drop split: option.split del: spread.simps)
        finally show ?thesis using True unfolding code snoc by (simp split: option.split del: spread.simps)
      qed
    qed (simp add: code)
  qed
  finally show ?thesis unfolding anchored_def p_def by (cases "ends_with ''$'' pattern") simp_all
qed

definition beats :: "int \<times> bool \<Rightarrow> int \<times> bool \<Rightarrow> bool" where
  "beats x y = (fst y < fst x \<or> fst y = fst x \<and> (snd y \<longrightarrow> snd x))"

lemma beats_trans: "beats x y \<Longrightarrow> beats y z \<Longrightarrow> beats x z"
  by (auto simp: beats_def)

lemma best_rule_is_best:
  "beats (best_rule target rules b) b
   \<and> (\<forall>(allow, p) \<in> set rules. robots_pattern_matches p target \<longrightarrow> beats (best_rule target rules b) (int (length p), allow))
   \<and> (best_rule target rules b = b
      \<or> (\<exists>(allow, p) \<in> set rules. robots_pattern_matches p target \<and> best_rule target rules b = (int (length p), allow)))"
proof (induction target rules b rule: best_rule.induct)
  case (1 target best)
  then show ?case by (simp add: beats_def)
next
  case (2 target allow p rules best)
  define b where "b = (if robots_pattern_matches p target
        then (let n = int (length p) in if fst best < n \<or> fst best = n \<and> \<not> snd best \<and> allow then (n, allow) else best) else best)"
  have step: "best_rule target ((allow, p) # rules) best = best_rule target rules b" by (simp add: b_def)
  have b: "beats b best" "robots_pattern_matches p target \<longrightarrow> beats b (int (length p), allow)"
    "b = best \<or> robots_pattern_matches p target \<and> b = (int (length p), allow)"
    by (auto simp: b_def beats_def Let_def)
  define r where "r = best_rule target rules b"
  have ih: "beats r b" "\<forall>(allow, p) \<in> set rules. robots_pattern_matches p target \<longrightarrow> beats r (int (length p), allow)"
    "r = b \<or> (\<exists>(allow, p) \<in> set rules. robots_pattern_matches p target \<and> r = (int (length p), allow))"
    using 2[folded b_def] unfolding r_def by blast+
  have "beats r best" using ih(1) b(1) by (rule beats_trans)
  moreover have "\<forall>(allow, p) \<in> set ((allow, p) # rules). robots_pattern_matches p target \<longrightarrow> beats r (int (length p), allow)"
    using ih(2) b(2) beats_trans[OF ih(1)] by auto
  moreover have "r = best \<or> (\<exists>(allow, p) \<in> set ((allow, p) # rules). robots_pattern_matches p target \<and> r = (int (length p), allow))"
    using ih(3) b(3) by auto
  ultimately show ?case unfolding step r_def[symmetric] by blast
qed

lemma specific_rule_decides:
  assumes "robots_rules body (lower (strip (before_char CHR ''/'' agent))) = Some rules"
    and "200 \<le> n" and "n < 300" and "length (robots_target url) \<le> ROBOTS_MAX_ADDRESS_CHARS"
  shows "robots_verdict_on (Some n) (Some body) url agent =
    (if \<exists>p. (False, p) \<in> set rules \<and> robots_pattern_matches p (robots_target url)
          \<and> (\<forall>q. (True, q) \<in> set rules \<and> robots_pattern_matches q (robots_target url) \<longrightarrow> length q < length p)
     then REFUSED else ALLOWED)"
proof -
  let ?t = "robots_target url"
  define r where "r = best_rule ?t rules (- 1, True)"
  have all: "beats r (int (length p), allow)" if "(allow, p) \<in> set rules" "robots_pattern_matches p ?t" for allow p
    using best_rule_is_best[of ?t rules "(- 1, True)"] that unfolding r_def by fast
  have one: "r = (- 1, True) \<or> (\<exists>allow p. (allow, p) \<in> set rules \<and> robots_pattern_matches p ?t \<and> r = (int (length p), allow))"
    using best_rule_is_best[of ?t rules "(- 1, True)"] unfolding r_def by fast
  have "snd r = (\<not> (\<exists>p. (False, p) \<in> set rules \<and> robots_pattern_matches p ?t
          \<and> (\<forall>q. (True, q) \<in> set rules \<and> robots_pattern_matches q ?t \<longrightarrow> length q < length p)))"
  proof (cases "snd r")
    case True
    have False if "(False, p) \<in> set rules" "robots_pattern_matches p ?t"
      "\<forall>q. (True, q) \<in> set rules \<and> robots_pattern_matches q ?t \<longrightarrow> length q < length p" for p
      using all[OF that(1,2)] one that(3) True by (auto simp: beats_def)
    then show ?thesis using True by blast
  next
    case False
    then obtain p where p: "(False, p) \<in> set rules" "robots_pattern_matches p ?t" "r = (int (length p), False)" using one by auto
    have "length q < length p" if "(True, q) \<in> set rules" "robots_pattern_matches q ?t" for q
      using all[OF that] p(3) by (auto simp: beats_def)
    then show ?thesis using False p by blast
  qed
  then show ?thesis using assms by (simp add: robots_verdict_on_def Let_def r_def not_less)
qed

text \<open>C34. The most specific rule decides: a page of a readable robots.txt is refused exactly when a disallow rule matches
  it and no allow rule that is at least as long does, whatever the order of the file.\<close>

theorem most_specific_rule_decides:
  assumes "robots_rules body (lower (strip (before_char CHR ''/'' agent))) = Some rules"
    and "200 \<le> n" and "n < 300" and "length (robots_target url) \<le> ROBOTS_MAX_ADDRESS_CHARS"
  shows "robots_verdict_on (Some n) (Some body) url agent =
    (if \<exists>p. (False, p) \<in> set rules \<and> robots_pattern_matches p (robots_target url)
          \<and> (\<forall>q. (True, q) \<in> set rules \<and> robots_pattern_matches q (robots_target url) \<longrightarrow> length q < length p)
     then REFUSED else ALLOWED)"
  using assms by (rule specific_rule_decides)

definition sample_robots :: string where
  "sample_robots = ''User-agent: *'' @ [CHR 0x0A] @ ''Disallow: /a'' @ [CHR 0x0A] @ ''Allow: /a/*.html$''"

lemma sample_rules: "robots_rules sample_robots ''quorum-ai-source-check'' = Some [(False, ''/a''), (True, ''/a/*.html$'')]"
  by code_simp

lemma most_specific_rule_decides_witness:
  "robots_verdict_on (Some 200) (Some sample_robots) ''https://x.test/a/b'' USER_AGENT = REFUSED"
proof -
  have agent: "lower (strip (before_char CHR ''/'' USER_AGENT)) = ''quorum-ai-source-check''" by code_simp
  have target: "robots_target ''https://x.test/a/b'' = ''/a/b''" by code_simp
  have m: "robots_pattern_matches ''/a'' ''/a/b''" "\<not> robots_pattern_matches ''/a/*.html$'' ''/a/b''" by code_simp+
  have "robots_verdict_on (Some 200) (Some sample_robots) ''https://x.test/a/b'' USER_AGENT =
    (if \<exists>p. (False, p) \<in> set [(False, ''/a''), (True, ''/a/*.html$'')] \<and> robots_pattern_matches p ''/a/b''
          \<and> (\<forall>q. (True, q) \<in> set [(False, ''/a''), (True, ''/a/*.html$'')] \<and> robots_pattern_matches q ''/a/b'' \<longrightarrow> length q < length p)
     then REFUSED else ALLOWED)"
    using most_specific_rule_decides[of sample_robots USER_AGENT _ 200 "''https://x.test/a/b''", unfolded agent target, OF sample_rules]
    by (simp add: ROBOTS_MAX_ADDRESS_CHARS_def)
  then show ?thesis using m by auto
qed

end
