(* ===== verification/Sources.thy ===== *)
theory Sources
  imports Urls Debate
begin

text \<open>
  What \<^verbatim>\<open>providers.py\<close> reads out of a parsed reply: the message text, the token counts, the finish reason, the
  sources (from annotations, from inline markdown links, from the backup search), and the citation coverage computed
  from them. A reply is a \<open>json\<close> value; each reader is total over every shape. The settings are parameters.
\<close>

section \<open>Python's view of a JSON value\<close>

text \<open>\<^verbatim>\<open>bool(value)\<close> and \<^verbatim>\<open>a or b\<close>.\<close>

definition truthy :: "json \<Rightarrow> bool" where
  "truthy j = (case j of JNull \<Rightarrow> False | JBool b \<Rightarrow> b | JInt n \<Rightarrow> n \<noteq> 0 | JFloat x \<Rightarrow> x \<noteq> 0 | JStr s \<Rightarrow> s \<noteq> []
     | JList xs \<Rightarrow> xs \<noteq> [] | JObj d \<Rightarrow> d \<noteq> [])"

definition jor :: "json \<Rightarrow> json \<Rightarrow> json" where "jor a b = (if truthy a then a else b)"

definition as_obj :: "json \<Rightarrow> (string, json) dict option" where "as_obj j = (case j of JObj d \<Rightarrow> Some d | _ \<Rightarrow> None)"
definition as_str :: "json \<Rightarrow> string option" where "as_str j = (case j of JStr s \<Rightarrow> Some s | _ \<Rightarrow> None)"

definition first_choice :: "json \<Rightarrow> (string, json) dict option" where
  "first_choice payload =
     (case payload of
        JObj p \<Rightarrow> (case jget p ''choices'' of JList (c # cs) \<Rightarrow> as_obj c | _ \<Rightarrow> None)
      | _ \<Rightarrow> None)"

definition first_message :: "json \<Rightarrow> (string, json) dict option" where
  "first_message payload = (case first_choice payload of None \<Rightarrow> None | Some c \<Rightarrow> as_obj (jget c ''message''))"

section \<open>Text, counts, finish reason\<close>

definition NEWLINE :: string where "NEWLINE = [CHR 0x0A]"

definition extract_message_content :: "json \<Rightarrow> string" where
  "extract_message_content payload =
     (case first_message payload of
        None \<Rightarrow> []
      | Some m \<Rightarrow>
          (case jget m ''content'' of
             JStr s \<Rightarrow> s
           | JList items \<Rightarrow>
               join NEWLINE (filter (\<lambda>p. p \<noteq> []) (List.map_filter (\<lambda>i. case i of JObj d \<Rightarrow> as_str (jget d ''text'') | _ \<Rightarrow> None) items))
           | _ \<Rightarrow> []))"

definition MAX_PLAUSIBLE_TOKENS :: int where "MAX_PLAUSIBLE_TOKENS = 100000000"

definition token_count :: "(string, json) dict \<Rightarrow> string \<Rightarrow> nat option" where
  "token_count usage k =
     (case jget usage k of JInt n \<Rightarrow> if n < 0 \<or> n > MAX_PLAUSIBLE_TOKENS then None else Some (nat n) | _ \<Rightarrow> None)"

definition extract_usage :: "json \<Rightarrow> token_usage option" where
  "extract_usage payload =
     (case payload of
        JObj p \<Rightarrow>
          (case jget p ''usage'' of
             JObj usage \<Rightarrow>
               (case (token_count usage ''prompt_tokens'', token_count usage ''completion_tokens'') of
                  (Some a, Some b) \<Rightarrow>
                    Some \<lparr>tu_prompt_tokens = a, tu_completion_tokens = b,
                          tu_total_tokens = (case token_count usage ''total_tokens'' of None \<Rightarrow> a + b | Some t \<Rightarrow> t),
                          tu_model_id = None\<rparr>
                | _ \<Rightarrow> None)
           | _ \<Rightarrow> None)
      | _ \<Rightarrow> None)"

definition UNCLEAN_FINISH_REASONS :: "string list" where "UNCLEAN_FINISH_REASONS = [''length'', ''error'']"

definition finish_reason_indicates_truncation :: "json \<Rightarrow> bool" where
  "finish_reason_indicates_truncation payload =
     (case first_choice payload of
        None \<Rightarrow> False
      | Some c \<Rightarrow> (case jget c ''finish_reason'' of JStr r \<Rightarrow> r \<in> set UNCLEAN_FINISH_REASONS | _ \<Rightarrow> False))"

definition KNOWN_FINISH_REASONS :: "string list" where
  "KNOWN_FINISH_REASONS = [''stop'', ''length'', ''content_filter'', ''tool_calls'', ''error'']"
definition FINISH_REASON_OTHER :: string where "FINISH_REASON_OTHER = ''other''"
definition FINISH_REASON_ABSENT :: string where "FINISH_REASON_ABSENT = ''absent''"

definition finish_reason_label :: "json \<Rightarrow> string" where
  "finish_reason_label payload =
     (case first_choice payload of
        None \<Rightarrow> FINISH_REASON_ABSENT
      | Some c \<Rightarrow>
          (case jget c ''finish_reason'' of
             JStr r \<Rightarrow> if r \<in> set KNOWN_FINISH_REASONS then r else FINISH_REASON_OTHER
           | _ \<Rightarrow> FINISH_REASON_ABSENT))"

section \<open>Sources\<close>

record source_settings =
  ss_ip :: ip_facts
  ss_max_text_chars :: nat
  ss_tavily_max_results :: int

text \<open>\<^verbatim>\<open>s.split()\<close>.\<close>

function split_ws :: "string \<Rightarrow> string list" where
  "split_ws s =
     (let r = lstrip s in
      if r = [] then [] else takeWhile (\<lambda>c. \<not> is_space c) r # split_ws (dropWhile (\<lambda>c. \<not> is_space c) r))"
  by pat_completeness auto
termination
proof (relation "measure length")
  fix s r :: string
  assume r: "r = lstrip s" "r \<noteq> []"
  then have "\<not> is_space (hd r)" by (simp add: lstrip_def hd_dropWhile)
  then have "length (dropWhile (\<lambda>c. \<not> is_space c) r) < length r"
    using r(2) by (cases r) (simp_all add: length_dropWhile_le less_Suc_eq_le)
  also have "\<dots> \<le> length s" using r(1) length_lstrip_le by simp
  finally show "(dropWhile (\<lambda>c. \<not> is_space c) r, s) \<in> measure length" by simp
qed simp

declare split_ws.simps [simp del]

definition clean_search_excerpt :: "source_settings \<Rightarrow> json \<Rightarrow> string" where
  "clean_search_excerpt st v =
     (case v of
        JStr s \<Rightarrow>
          (let raw = take (ss_max_text_chars st * 8) s;
               kept = filter (\<lambda>c. is_space c \<or> ud_category latin1_tables (code c) \<notin> {''Cc'', ''Cf''}) raw
           in take (ss_max_text_chars st) (join '' '' (split_ws kept)))
      | _ \<Rightarrow> [])"

definition sanitize_json_url :: "source_settings \<Rightarrow> json \<Rightarrow> string option" where
  "sanitize_json_url st j = (case j of JStr s \<Rightarrow> sanitize_source_url (ss_ip st) s | _ \<Rightarrow> None)"

definition citation_of_annotation :: "source_settings \<Rightarrow> nat \<Rightarrow> (string, json) dict \<Rightarrow> source_reference option" where
  "citation_of_annotation st index annotation =
     (let block = (case jget annotation ''url_citation'' of JObj d \<Rightarrow> d | _ \<Rightarrow> []);
          raw_url = jor (jget block ''url'') (jor (jget annotation ''url'') (jor (jget annotation ''source'') (JStr [])));
          numbered = '' citation '' @ nat_str index;
          title = jor (jget block ''title'') (jor (jget annotation ''title'') (JStr numbered));
          url_block = (if truthy (jget block ''url'') then block else annotation)
      in (case sanitize_json_url st raw_url of
            None \<Rightarrow> None
          | Some url \<Rightarrow>
              Some \<lparr>sr_title = (case title of JStr s \<Rightarrow> s | _ \<Rightarrow> numbered), sr_url = url, sr_provider = OPENROUTER_SEARCH,
                    sr_is_fallback = False, sr_excerpt = clean_search_excerpt st (jget url_block ''content'')\<rparr>))"

definition annotation_citations :: "source_settings \<Rightarrow> json list \<Rightarrow> source_reference list" where
  "annotation_citations st annotations =
     List.map_filter (\<lambda>(i, a). case a of JObj d \<Rightarrow> citation_of_annotation st (Suc i) d | _ \<Rightarrow> None) (enumerate 0 annotations)"

text \<open>\<^verbatim>\<open>\[([^\]]+)\]\((https?://[^\s)]+)\)\<close> at the start of a text: the two groups and the rest after the match. Each
  repetition stops at the only character its successor can match, so no step has an alternative.\<close>

definition inline_link :: "string \<Rightarrow> (string \<times> string \<times> string) option" where
  "inline_link s =
     (case s of
        [] \<Rightarrow> None
      | c # r \<Rightarrow>
          (let anchor = before_char CHR '']'' r; after = dropWhile (\<lambda>x. x \<noteq> CHR '']'') r in
           if c \<noteq> CHR ''['' \<or> anchor = [] \<or> \<not> starts_with ''](http'' after then None
           else
             let t = drop 2 after;
                 scheme = (if starts_with ''http://'' t then 7 else if starts_with ''https://'' t then 8 else 0);
                 tail = takeWhile (\<lambda>x. \<not> is_space x \<and> x \<noteq> CHR '')'') (drop scheme t);
                 rest = drop (scheme + length tail) t
             in if scheme = 0 \<or> tail = [] \<or> \<not> starts_with '')'' rest then None
                else Some (anchor, take scheme t @ tail, tl rest)))"

lemma inline_link_length: "inline_link s = Some (a, u, r) \<Longrightarrow> length r < length s"
proof -
  assume "inline_link s = Some (a, u, r)"
  then obtain c s' n m where "s = c # s'" "r = tl (drop n (dropWhile m s'))"
    by (auto simp: inline_link_def Let_def split: list.splits if_splits)
  moreover have "length (drop n (dropWhile m s')) \<le> length s'" using length_dropWhile_le[of m s'] by simp
  ultimately show ?thesis by simp
qed

function inline_links :: "string \<Rightarrow> (string \<times> string) list" where
  "inline_links s =
     (case s of
        [] \<Rightarrow> []
      | c # s' \<Rightarrow> (case inline_link s of None \<Rightarrow> inline_links s' | Some (a, u, r) \<Rightarrow> (a, u) # inline_links r))"
  by pat_completeness auto
termination by (relation "measure length") (auto dest: inline_link_length)

declare inline_links.simps [simp del]

fun link_citations :: "source_settings \<Rightarrow> string list \<Rightarrow> (string \<times> string) list \<Rightarrow> source_reference list" where
  "link_citations st seen [] = []"
| "link_citations st seen ((anchor, raw) # links) =
     (case sanitize_source_url (ss_ip st) (strip raw) of
        None \<Rightarrow> link_citations st seen links
      | Some url \<Rightarrow>
          if url \<in> set seen then link_citations st seen links
          else \<lparr>sr_title = strip anchor, sr_url = url, sr_provider = OPENROUTER_SEARCH, sr_is_fallback = False, sr_excerpt = []\<rparr>
               # link_citations st (url # seen) links)"

definition extract_citations :: "source_settings \<Rightarrow> json \<Rightarrow> string option \<Rightarrow> source_reference list" where
  "extract_citations st payload content =
     (case first_message payload of
        None \<Rightarrow> []
      | Some m \<Rightarrow>
          (let found = annotation_citations st
             (case jor (jget m ''annotations'') (jor (jget m ''citations'') (JList [])) of JList xs \<Rightarrow> xs | _ \<Rightarrow> [])
           in if found \<noteq> [] then found
              else link_citations st []
                (inline_links (case content of Some s \<Rightarrow> s | None \<Rightarrow> extract_message_content payload))))"

definition MAX_SOURCE_TITLE_LEN :: nat where "MAX_SOURCE_TITLE_LEN = 300"

fun tavily_rows :: "source_settings \<Rightarrow> string list \<Rightarrow> json list \<Rightarrow> source_reference list" where
  "tavily_rows st seen [] = []"
| "tavily_rows st seen (r # rs) =
     (case r of
        JObj d \<Rightarrow>
          (case sanitize_json_url st (jor (jget d ''url'') (JStr [])) of
             None \<Rightarrow> tavily_rows st seen rs
           | Some url \<Rightarrow>
               if url \<in> set seen then tavily_rows st seen rs
               else
                 let host = (case urlsplit (ip_literal (ss_ip st)) url of None \<Rightarrow> [] | Some su \<Rightarrow> url_hostname su);
                     title = (case jget d ''title'' of JStr s \<Rightarrow> if strip s \<noteq> [] then s else if host \<noteq> [] then host else url
                                | _ \<Rightarrow> if host \<noteq> [] then host else url)
                 in \<lparr>sr_title = take MAX_SOURCE_TITLE_LEN title, sr_url = url, sr_provider = WEB_SEARCH, sr_is_fallback = True,
                     sr_excerpt = clean_search_excerpt st (jget d ''content'')\<rparr>
                    # tavily_rows st (url # seen) rs)
      | _ \<Rightarrow> tavily_rows st seen rs)"

definition parse_tavily_results :: "source_settings \<Rightarrow> json \<Rightarrow> source_reference list" where
  "parse_tavily_results st payload =
     (case payload of
        JObj p \<Rightarrow> (case jget p ''results'' of
            JList rs \<Rightarrow> tavily_rows st [] (take (nat (max 0 (ss_tavily_max_results st))) rs)
          | _ \<Rightarrow> [])
      | _ \<Rightarrow> [])"

section \<open>Coverage\<close>

text \<open>\<^verbatim>\<open>quantize\<close> to two places rounds half to even.\<close>

definition round_half_even :: "rat \<Rightarrow> int" where
  "round_half_even x =
     (let f = floor x; r = x - of_int f in
      if r < 1 / 2 then f else if 1 / 2 < r then f + 1 else if even f then f else f + 1)"

definition CITATION_COVERAGE_MAX_UNSOURCED_ANSWERS :: nat where "CITATION_COVERAGE_MAX_UNSOURCED_ANSWERS = 1"

definition citation_coverage_required_count :: "nat \<Rightarrow> nat" where
  "citation_coverage_required_count n = max 1 (n - CITATION_COVERAGE_MAX_UNSOURCED_ANSWERS)"

text \<open>\<open>None\<close>: the model validator raises, as it does for more sourced answers than answers.\<close>

definition calculate_citation_coverage :: "nat \<Rightarrow> nat \<Rightarrow> citation_coverage option" where
  "calculate_citation_coverage answers sourced =
     (if answers = 0 then Some \<lparr>cc_answer_count = 0, cc_sourced_answer_count = 0, cc_sourced_answer_ratio = 0, cc_target_met = False\<rparr>
      else
        let ratio = of_int (round_half_even (of_nat sourced / of_nat answers * 100)) / 100
        in if ratio > 1 \<or> sourced > answers then None
           else Some \<lparr>cc_answer_count = answers, cc_sourced_answer_count = sourced, cc_sourced_answer_ratio = ratio,
                      cc_target_met = (sourced \<ge> citation_coverage_required_count answers)\<rparr>)"

definition target_ratio :: "citation_coverage \<Rightarrow> rat" where
  "target_ratio c =
     (if cc_answer_count c = 0 then 1
      else of_int (round_half_even (of_nat (citation_coverage_required_count (cc_answer_count c)) / of_nat (cc_answer_count c) * 100)) / 100)"

definition MATERIAL_CLAIM_CHAR_DENOMINATOR :: nat where "MATERIAL_CLAIM_CHAR_DENOMINATOR = 200"

definition estimate_material_claim_count :: "string \<Rightarrow> nat" where
  "estimate_material_claim_count answer =
     (let s = strip answer in
      if \<not> visible s then 1
      else max 1 ((length s + (MATERIAL_CLAIM_CHAR_DENOMINATOR - 1)) div MATERIAL_CLAIM_CHAR_DENOMINATOR))"

section \<open>Every source is an address that passed the check\<close>

definition clean_sources :: "source_settings \<Rightarrow> source_reference list \<Rightarrow> bool" where
  "clean_sources st refs = list_all (\<lambda>r. sanitize_source_url (ss_ip st) (sr_url r) = Some (sr_url r)) refs"

end
