(* ===== verification/Page_Text.thy ===== *)
theory Page_Text
  imports Sources
begin

text \<open>
  The text read from a fetched page, from \<^verbatim>\<open>source_fetcher.py\<close> and \<^verbatim>\<open>pdf_text.py\<close>: the visible text and the
  blocks of an HTML page, from the events the standard library's parser emits (those of \<^verbatim>\<open>close\<close> included), its
  main area, and the reply of the child process that reads a PDF. The parser's events and the child's exit are arguments.
\<close>

section \<open>Visible text\<close>

datatype html_event = Start_tag string | End_tag string | Char_data string

definition SKIPPED_TAGS :: "string list" where
  "SKIPPED_TAGS = [''script'', ''style'', ''noscript'', ''template'', ''svg'', ''head'']"

definition BLOCK_TAGS :: "string list" where
  "BLOCK_TAGS = [''address'', ''article'', ''aside'', ''blockquote'', ''body'', ''caption'', ''dd'', ''details'', ''dialog'', ''div'',
     ''dl'', ''dt'', ''fieldset'', ''figcaption'', ''figure'', ''footer'', ''form'', ''h1'', ''h2'', ''h3'', ''h4'', ''h5'', ''h6'',
     ''header'', ''hr'', ''html'', ''legend'', ''li'', ''main'', ''nav'', ''ol'', ''p'', ''pre'', ''section'', ''summary'', ''table'',
     ''tbody'', ''td'', ''tfoot'', ''th'', ''thead'', ''tr'', ''ul'']"

definition FURNITURE_TAGS :: "string list" where
  "FURNITURE_TAGS = [''nav'', ''header'', ''footer'', ''aside'', ''form'']"

definition READING_TEXT_MAX_CHARS :: nat where "READING_TEXT_MAX_CHARS = 262144"
definition MAIN_AREA_MIN_CHARS :: nat where "MAIN_AREA_MIN_CHARS = 1000"

record text_extractor =
  tx_skip_depth :: nat
  tx_parts :: "string list"

definition text_event :: "('a text_extractor_scheme) \<Rightarrow> html_event \<Rightarrow> 'a text_extractor_scheme" where
  "text_event tx e =
     (case e of
        Start_tag tag \<Rightarrow> if tag \<in> set SKIPPED_TAGS then tx\<lparr>tx_skip_depth := tx_skip_depth tx + 1\<rparr> else tx
      | End_tag tag \<Rightarrow> if tag \<in> set SKIPPED_TAGS \<and> tx_skip_depth tx > 0 then tx\<lparr>tx_skip_depth := tx_skip_depth tx - 1\<rparr> else tx
      | Char_data s \<Rightarrow> if tx_skip_depth tx = 0 then tx\<lparr>tx_parts := tx_parts tx @ [s]\<rparr> else tx)"

definition collapse :: "string \<Rightarrow> string" where "collapse s = join '' '' (split_ws s)"

definition extract_text :: "(string \<Rightarrow> html_event list) \<Rightarrow> string \<Rightarrow> string \<Rightarrow> nat \<Rightarrow> string" where
  "extract_text parse body content_type max_chars =
     (let body = (if content_type = ''text/html''
                  then join '' '' (tx_parts (foldl text_event \<lparr>tx_skip_depth = 0, tx_parts = []\<rparr> (parse body))) else body)
      in take max_chars (collapse body))"

section \<open>Blocks\<close>

text \<open>An article is the number of the block it begins at and of the one it ends before: \<open>None\<close> while it is open.\<close>

record block_extractor = text_extractor +
  bx_texts :: "string list"
  bx_in_main :: "bool list"
  bx_in_furniture :: "bool list"
  bx_articles :: "(nat \<times> nat option) list"
  bx_open_articles :: "nat list"
  bx_pending :: "string list"
  bx_main :: nat
  bx_furniture :: nat

definition new_extractor :: block_extractor where
  "new_extractor = \<lparr>tx_skip_depth = 0, tx_parts = [], bx_texts = [], bx_in_main = [], bx_in_furniture = [], bx_articles = [],
     bx_open_articles = [], bx_pending = [], bx_main = 0, bx_furniture = 0\<rparr>"

definition flush :: "block_extractor \<Rightarrow> block_extractor" where
  "flush bx =
     (let txt0 = collapse (join '' '' (bx_pending bx)) in
      if txt0 = [] then bx\<lparr>bx_pending := []\<rparr>
      else bx\<lparr>bx_pending := [], bx_texts := bx_texts bx @ [txt0], bx_in_main := bx_in_main bx @ [bx_main bx > 0],
              bx_in_furniture := bx_in_furniture bx @ [bx_furniture bx > 0]\<rparr>)"

definition end_article :: "block_extractor \<Rightarrow> nat \<Rightarrow> block_extractor" where
  "end_article bx i = bx\<lparr>bx_articles := (bx_articles bx)[i := (fst (bx_articles bx ! i), Some (length (bx_texts bx)))]\<rparr>"

definition open_tag :: "block_extractor \<Rightarrow> string \<Rightarrow> block_extractor" where
  "open_tag bx tag =
     (if tag = ''main'' then bx\<lparr>bx_main := bx_main bx + 1\<rparr>
      else if tag = ''article''
      then bx\<lparr>bx_open_articles := length (bx_articles bx) # bx_open_articles bx,
              bx_articles := bx_articles bx @ [(length (bx_texts bx), None)]\<rparr>
      else if tag \<in> set FURNITURE_TAGS then bx\<lparr>bx_furniture := bx_furniture bx + 1\<rparr>
      else bx)"

definition close_tag :: "block_extractor \<Rightarrow> string \<Rightarrow> block_extractor" where
  "close_tag bx tag =
     (if tag = ''main'' \<and> bx_main bx > 0 then bx\<lparr>bx_main := bx_main bx - 1\<rparr>
      else if tag = ''article'' \<and> bx_open_articles bx \<noteq> []
      then (end_article bx (hd (bx_open_articles bx)))\<lparr>bx_open_articles := tl (bx_open_articles bx)\<rparr>
      else if tag \<in> set FURNITURE_TAGS \<and> bx_furniture bx > 0 then bx\<lparr>bx_furniture := bx_furniture bx - 1\<rparr>
      else bx)"

definition block_event :: "block_extractor \<Rightarrow> html_event \<Rightarrow> block_extractor" where
  "block_event bx e =
     (case e of
        Start_tag tag \<Rightarrow> (let bx = text_event bx e in if tag \<notin> set BLOCK_TAGS then bx else open_tag (flush bx) tag)
      | End_tag tag \<Rightarrow> (let bx = text_event bx e in if tag \<notin> set BLOCK_TAGS then bx else close_tag (flush bx) tag)
      | Char_data s \<Rightarrow>
          (let after = text_event bx e
           in if length (tx_parts after) > length (tx_parts bx) then after\<lparr>bx_pending := bx_pending after @ [s]\<rparr> else after))"

definition close_extractor :: "block_extractor \<Rightarrow> block_extractor" where
  "close_extractor bx = (let bx = flush bx in (foldl end_article bx (rev (bx_open_articles bx)))\<lparr>bx_open_articles := []\<rparr>)"

definition read_blocks :: "html_event list \<Rightarrow> block_extractor" where
  "read_blocks events = close_extractor (foldl block_event new_extractor events)"

section \<open>The main area\<close>

definition joined_length :: "string list \<Rightarrow> nat" where
  "joined_length blocks = sum_list (map length blocks) + (length blocks - 1)"

definition article_end :: "string list \<Rightarrow> nat option \<Rightarrow> nat" where
  "article_end texts stop = (case stop of None \<Rightarrow> length texts | Some n \<Rightarrow> n)"

definition article_length :: "string list \<Rightarrow> nat \<times> nat option \<Rightarrow> nat" where
  "article_length texts = (\<lambda>(start, stop).
     sum_list (map length (take (article_end texts stop) texts)) - sum_list (map length (take start texts)) + (article_end texts stop - start - 1))"

fun first_longest :: "('a \<Rightarrow> nat) \<Rightarrow> 'a list \<Rightarrow> 'a option" where
  "first_longest f [] = None"
| "first_longest f (x # xs) = (case first_longest f xs of None \<Rightarrow> Some x | Some y \<Rightarrow> if f y > f x then Some y else Some x)"

definition chosen :: "bool list \<Rightarrow> string list \<Rightarrow> string list" where
  "chosen flags texts = map snd (filter fst (zip flags texts))"

definition main_area :: "block_extractor \<Rightarrow> nat \<Rightarrow> string list" where
  "main_area bx visible_chars =
     (let texts = bx_texts bx; main = chosen (bx_in_main bx) texts in
      if joined_length main \<ge> MAIN_AREA_MIN_CHARS then main
      else
        let unfurnished = chosen (map Not (bx_in_furniture bx)) texts;
            held = joined_length unfurnished;
            rest = (if held \<ge> MAIN_AREA_MIN_CHARS \<and> 2 * held \<ge> visible_chars then unfurnished else texts)
        in (case first_longest (article_length texts) (bx_articles bx) of
              None \<Rightarrow> rest
            | Some a \<Rightarrow> if article_length texts a \<ge> MAIN_AREA_MIN_CHARS
                        then drop (fst a) (take (article_end texts (snd a)) texts) else rest))"

text \<open>\<^verbatim>\<open>re.split\<close> at a line break, blanks, a line break: the text up to the first, and what follows.\<close>

definition is_blank :: "char \<Rightarrow> bool" where "is_blank c = (code c \<in> {32, 9, 13, 12, 11})"

fun paragraphs :: "string \<Rightarrow> nat \<Rightarrow> string \<Rightarrow> string list" where
  "paragraphs line skip [] = [rev line]"
| "paragraphs line (Suc n) (c # s) = paragraphs line n s"
| "paragraphs line 0 (c # s) =
     (let b = takeWhile is_blank s in
      if c = CHR 0x0A \<and> starts_with [CHR 0x0A] (drop (length b) s) then rev line # paragraphs [] (length b + 1) s
      else paragraphs (c # line) 0 s)"

definition reading_text :: "(string \<Rightarrow> html_event list) \<Rightarrow> string \<Rightarrow> string \<Rightarrow> nat \<Rightarrow> string" where
  "reading_text parse body content_type limit =
     (if content_type = ''text/html'' then
        (let bx = read_blocks (parse body); seen = collapse (join '' '' (tx_parts bx)) in
         if length seen \<le> limit then seen
         else take READING_TEXT_MAX_CHARS (join NEWLINE (main_area bx (length seen))))
      else
        (let seen = collapse body in
         if length seen \<le> limit then seen
         else take READING_TEXT_MAX_CHARS (join NEWLINE (filter (\<lambda>p. p \<noteq> []) (map collapse (paragraphs [] 0 body))))))"

section \<open>A PDF, read in a child process\<close>

datatype page_outcome = FETCHED | UNUSABLE | REFUSED_SCHEME | REFUSED_HOST | REFUSED_ADDRESS | REFUSED_REDIRECT
  | REFUSED_CONTENT_TYPE | TOO_LARGE | TIMEOUT | HTTP_ERROR | NETWORK_ERROR | SKIPPED_CAP | REFUSED_ROBOTS | ROBOTS_UNCHECKED

definition MIN_USABLE_TEXT_CHARS :: nat where "MIN_USABLE_TEXT_CHARS = 200"
definition MAX_PDF_CHARS :: nat where "MAX_PDF_CHARS = 50000"
definition MAX_REPLY_BYTES :: nat where "MAX_REPLY_BYTES = 1048576"
definition PIPE_CHUNK_BYTES :: nat where "PIPE_CHUNK_BYTES = 65536"
definition PDF_CHILD_WALL_SECONDS :: rat where "PDF_CHILD_WALL_SECONDS = 3"

text \<open>U+FFFD and surrogates are outside the model's texts.\<close>

definition is_garbled :: "string \<Rightarrow> bool" where
  "is_garbled s = (5 * length (filter (\<lambda>c. 128 \<le> code c) s) > length s)"

definition read_reply :: "(string \<Rightarrow> loads_result) \<Rightarrow> string \<Rightarrow> string" where
  "read_reply loads out =
     (case loads out of Parsed (JObj d) \<Rightarrow> (case jget d ''text'' of JStr s \<Rightarrow> take MAX_PDF_CHARS s | _ \<Rightarrow> []) | _ \<Rightarrow> [])"

text \<open>What one wait on the pipes finds: bytes taken by the child, its end closed, or bytes from it. At most
  \<open>MAX_REPLY_BYTES\<close> and one more are read.\<close>

datatype pipe_event = Wrote nat | Broken_pipe | Replied string

fun pipe_round :: "nat \<Rightarrow> nat \<times> string \<Rightarrow> pipe_event list \<Rightarrow> (page_outcome option \<times> string) + (nat \<times> string)" where
  "pipe_round to_send (sent, got) [] = Inr (sent, got)"
| "pipe_round to_send (sent, got) (Wrote n # es) = pipe_round to_send (sent + n, got) es"
| "pipe_round to_send (sent, got) (Broken_pipe # es) = pipe_round to_send (to_send, got) es"
| "pipe_round to_send (sent, got) (Replied bytes # es) =
     (let chunk = take (min PIPE_CHUNK_BYTES (MAX_REPLY_BYTES + 1 - length got)) bytes in
      if chunk = [] then Inl (None, got)
      else if length got + length chunk > MAX_REPLY_BYTES then Inl (Some UNUSABLE, [])
      else pipe_round to_send (sent, got @ chunk) es)"

text \<open>The rounds before the deadline; when they end, the deadline has passed.\<close>

fun exchange_with :: "nat \<Rightarrow> nat \<times> string \<Rightarrow> pipe_event list list \<Rightarrow> page_outcome option \<times> string" where
  "exchange_with to_send st [] = (Some TIMEOUT, [])"
| "exchange_with to_send st (es # rounds) =
     (case pipe_round to_send st es of Inl result \<Rightarrow> result | Inr st \<Rightarrow> exchange_with to_send st rounds)"

record pdf_child =
  ch_starts :: bool
  ch_raises :: bool
  ch_slot_free :: bool
  ch_rounds :: "pipe_event list list"
  ch_exited :: "bool option"
  ch_wait_expires :: bool
  ch_cpu_killed :: bool
  ch_returns_zero :: bool

definition run_pdf_child :: "(string \<Rightarrow> loads_result) \<Rightarrow> pdf_child \<Rightarrow> string \<Rightarrow> string \<times> page_outcome" where
  "run_pdf_child loads ch body =
     (if \<not> ch_starts ch then ([], UNUSABLE)
      else
        let (failure, reply) = exchange_with (length body) (0, []) (ch_rounds ch);
            failure = (case failure of
                Some f \<Rightarrow> Some f
              | None \<Rightarrow> (case ch_exited ch of
                  Some True \<Rightarrow> None
                | Some False \<Rightarrow> Some TIMEOUT
                | None \<Rightarrow> if ch_wait_expires ch then Some TIMEOUT else None))
        in (case failure of
              Some f \<Rightarrow> ([], f)
            | None \<Rightarrow>
                if ch_cpu_killed ch then ([], TIMEOUT)
                else
                  let txt0 = (if ch_returns_zero ch then read_reply loads reply else []) in
                  if length (collapse txt0) < MIN_USABLE_TEXT_CHARS \<or> is_garbled txt0 then ([], UNUSABLE)
                  else (txt0, FETCHED)))"

definition read_pdf_text :: "(string \<Rightarrow> loads_result) \<Rightarrow> pdf_child \<Rightarrow> string \<Rightarrow> rat \<Rightarrow> string \<times> page_outcome" where
  "read_pdf_text loads ch body deadline_seconds =
     (if min PDF_CHILD_WALL_SECONDS deadline_seconds \<le> 0 then ([], TIMEOUT)
      else if \<not> ch_slot_free ch then ([], UNUSABLE)
      else if ch_raises ch then ([], UNUSABLE)
      else run_pdf_child loads ch body)"

lemma pipe_round_fails: "pipe_round n st es = Inl (f, r) \<Longrightarrow> f = None \<or> f = Some UNUSABLE"
  by (induction n st es rule: pipe_round.induct) (auto simp: Let_def split: if_splits)

lemma exchange_fails: "exchange_with n st rs = (f, r) \<Longrightarrow> f \<noteq> Some FETCHED"
proof (induction rs arbitrary: st)
  case (Cons es rs)
  then show ?case by (cases "pipe_round n st es") (auto dest: pipe_round_fails)
qed auto

lemma read_pdf_usable:
  assumes "read_pdf_text loads ch body left = (s, FETCHED)"
  shows "MIN_USABLE_TEXT_CHARS \<le> length (collapse s) \<and> length s \<le> MAX_PDF_CHARS \<and> \<not> is_garbled s"
proof -
  obtain f r where e: "exchange_with (length body) (0, []) (ch_rounds ch) = (f, r)" by force
  have reply: "length (read_reply loads r) \<le> MAX_PDF_CHARS"
    by (auto simp: read_reply_def split: loads_result.split json.split)
  have "run_pdf_child loads ch body = (s, FETCHED)"
    using assms by (auto simp: read_pdf_text_def split: if_splits)
  then show ?thesis using e exchange_fails[OF e] reply
    by (auto simp: run_pdf_child_def Let_def not_less split: if_splits option.splits bool.splits)
qed

section \<open>No visible word is lost between blocks\<close>

lemma split_ws_lstrip: "split_ws (lstrip s) = split_ws s"
proof -
  have "lstrip (lstrip s) = lstrip s" by (simp add: lstrip_def dropWhile_idem)
  then show ?thesis by (subst (1 2) split_ws.simps) simp
qed

lemma split_ws_space: "is_space c \<Longrightarrow> split_ws (c # s) = split_ws s"
  using split_ws_lstrip[of "c # s"] split_ws_lstrip[of s] by (simp add: lstrip_def)

lemma split_ws_Nil [simp]: "split_ws [] = []" by (simp add: split_ws.simps lstrip_def)

lemma split_ws_word:
  assumes "w \<noteq> []" and "list_all (\<lambda>c. \<not> is_space c) w" and "s = [] \<or> is_space (hd s)"
  shows "split_ws (w @ s) = w # split_ws s"
proof -
  have l: "lstrip (w @ s) = w @ s" using assms(1,2) by (cases w) (simp_all add: lstrip_def)
  have t: "takeWhile (\<lambda>c. \<not> is_space c) (w @ s) = w"
    using assms(2,3) by (cases s) (auto simp: takeWhile_append list_all_iff)
  have d: "dropWhile (\<lambda>c. \<not> is_space c) (w @ s) = s"
    using assms(2,3) by (cases s) (auto simp: dropWhile_append list_all_iff)
  show ?thesis by (subst split_ws.simps) (simp only: Let_def l t d, simp add: assms(1))
qed

lemma split_ws_cases: obtains "lstrip s = []" | w r where "lstrip s = w @ r" "w \<noteq> []" "list_all (\<lambda>c. \<not> is_space c) w" "r = [] \<or> is_space (hd r)"
proof (cases "lstrip s = []")
  case False
  let ?w = "takeWhile (\<lambda>c. \<not> is_space c) (lstrip s)" and ?r = "dropWhile (\<lambda>c. \<not> is_space c) (lstrip s)"
  have h: "\<not> is_space (hd (lstrip s))" using False by (simp add: lstrip_def hd_dropWhile)
  have "?w \<noteq> []" using False h by (cases "lstrip s") auto
  moreover have "list_all (\<lambda>c. \<not> is_space c) ?w" by (auto simp: list_all_iff dest: set_takeWhileD)
  moreover have "?r = [] \<or> is_space (hd ?r)" using hd_dropWhile[of "\<lambda>c. \<not> is_space c" "lstrip s"] by blast
  ultimately show ?thesis using that(2)[of ?w ?r] by simp
qed (use that in blast)

lemma split_ws_append: "is_space c \<Longrightarrow> split_ws (s @ c # t) = split_ws s @ split_ws t"
proof (induction s rule: measure_induct_rule[of length])
  case (less s)
  show ?case
  proof (cases rule: split_ws_cases[of s])
    case 1
    then have all: "\<forall>x \<in> set s. is_space x" by (simp add: lstrip_def dropWhile_eq_Nil_conv)
    then have "lstrip (s @ c # t) = lstrip t" using less.prems by (simp add: lstrip_def dropWhile_append2)
    then have "split_ws (s @ c # t) = split_ws t" using split_ws_lstrip by metis
    moreover have "split_ws s = []" using 1 by (simp add: split_ws.simps)
    ultimately show ?thesis by simp
  next
    case (2 w r)
    have e: "lstrip (s @ c # t) = w @ r @ c # t"
    proof -
      have "\<exists>x \<in> set s. \<not> is_space x"
        using 2 by (metis append_is_Nil_conv dropWhile_eq_Nil_conv lstrip_def)
      then show ?thesis using 2(1) by (auto simp: lstrip_def dropWhile_append)
    qed
    have len: "length r < length s" using 2(1,2) length_lstrip_le[of s] by (cases w) auto
    have "split_ws (s @ c # t) = w # split_ws (r @ c # t)"
      using split_ws_word[of w "r @ c # t"] 2 less.prems e split_ws_lstrip[of "s @ c # t"] by (cases r) auto
    moreover have "split_ws s = w # split_ws r" using split_ws_word[OF 2(2-4)] 2(1) split_ws_lstrip[of s] by simp
    ultimately show ?thesis using less.IH[OF len less.prems] by simp
  qed
qed

lemma split_ws_join: "split_ws (join '' '' xs) = concat (map split_ws xs)"
proof (induction xs rule: induct_list012)
  case (3 x y zs)
  have "is_space CHR '' ''" by (simp add: char_eval)
  then show ?case using 3 split_ws_append[of "CHR '' ''" x "join '' '' (y # zs)"] by simp
qed simp_all

lemma words_are_words: "w \<in> set (split_ws s) \<Longrightarrow> split_ws w = [w]"
proof (induction s rule: measure_induct_rule[of length])
  case (less s)
  show ?case
  proof (cases rule: split_ws_cases[of s])
    case 1
    then show ?thesis using less.prems by (simp add: split_ws.simps)
  next
    case (2 v r)
    have len: "length r < length s" using 2(1,2) length_lstrip_le[of s] by (cases v) auto
    have "split_ws s = v # split_ws r" using split_ws_word[OF 2(2-4)] 2(1) split_ws_lstrip[of s] by simp
    then consider "w = v" | "w \<in> set (split_ws r)" using less.prems by auto
    then show ?thesis
    proof cases
      case 1
      then show ?thesis using split_ws_word[OF 2(2,3), of "[]"] by simp
    qed (rule less.IH[OF len])
  qed
qed

lemma split_ws_collapse: "split_ws (collapse s) = split_ws s"
proof -
  have "concat (map split_ws ws) = ws" if "\<forall>w \<in> set ws. split_ws w = [w]" for ws using that by (induction ws) auto
  then show ?thesis unfolding collapse_def split_ws_join using words_are_words by blast
qed

definition all_words :: "string list \<Rightarrow> string list" where "all_words parts = concat (map split_ws parts)"

definition in_step :: "block_extractor \<Rightarrow> bool" where
  "in_step bx = (all_words (bx_texts bx) @ all_words (bx_pending bx) = all_words (tx_parts bx))"

lemma all_words_append [simp]: "all_words (xs @ ys) = all_words xs @ all_words ys" by (simp add: all_words_def)
lemma all_words_Nil [simp]: "all_words [] = []" by (simp add: all_words_def)

lemma flush_in_step: "in_step bx \<Longrightarrow> in_step (flush bx) \<and> bx_pending (flush bx) = []"
proof -
  assume ok: "in_step bx"
  let ?t = "collapse (join '' '' (bx_pending bx))"
  have t: "all_words [?t] = all_words (bx_pending bx)" by (simp add: all_words_def split_ws_collapse split_ws_join)
  show ?thesis
  proof (cases "?t = []")
    case True
    then have "all_words (bx_pending bx) = []" using t by (simp add: all_words_def)
    then show ?thesis using ok True by (simp add: in_step_def flush_def Let_def)
  next
    case False
    then show ?thesis using ok t by (simp add: in_step_def flush_def Let_def)
  qed
qed

lemma tag_in_step [simp]: "in_step (open_tag bx tag) = in_step bx" "in_step (close_tag bx tag) = in_step bx"
  "in_step (end_article bx i) = in_step bx"
  by (simp_all add: in_step_def open_tag_def close_tag_def end_article_def)

lemma event_in_step: "in_step bx \<Longrightarrow> in_step (block_event bx e)"
proof (cases e)
  case (Char_data s)
  assume "in_step bx"
  then show ?thesis using Char_data by (simp add: block_event_def text_event_def in_step_def Let_def)
next
  case (Start_tag tag)
  assume "in_step bx"
  then have "in_step (text_event bx e)" using Start_tag by (simp add: text_event_def in_step_def)
  then show ?thesis using Start_tag flush_in_step by (simp add: block_event_def Let_def)
next
  case (End_tag tag)
  assume "in_step bx"
  then have "in_step (text_event bx e)" using End_tag by (simp add: text_event_def in_step_def)
  then show ?thesis using End_tag flush_in_step by (simp add: block_event_def Let_def)
qed

lemma end_articles: "bx_texts (foldl end_article bx is) = bx_texts bx \<and> bx_pending (foldl end_article bx is) = bx_pending bx
   \<and> tx_parts (foldl end_article bx is) = tx_parts bx"
  by (induction "is" arbitrary: bx) (simp_all add: end_article_def)

text \<open>C35. Cutting a page into blocks loses no visible word and moves none: the words of the blocks, in their order, are
  the words of the page's visible text.\<close>

theorem blocks_hold_every_word:
  "concat (map split_ws (bx_texts (read_blocks events))) = split_ws (join '' '' (tx_parts (read_blocks events)))"
proof -
  have "in_step (foldl block_event bx events)" if "in_step bx" for bx
    using that by (induction events arbitrary: bx) (simp_all add: event_in_step)
  then have "in_step (foldl block_event new_extractor events)" by (simp add: in_step_def new_extractor_def)
  from flush_in_step[OF this] have "all_words (bx_texts (flush (foldl block_event new_extractor events))) =
      all_words (tx_parts (flush (foldl block_event new_extractor events)))" by (auto simp: in_step_def)
  then show ?thesis by (simp add: read_blocks_def close_extractor_def Let_def end_articles all_words_def split_ws_join)
qed

end
