(* ===== verification/Citations.thy ===== *)
theory Citations
  imports Sources
begin

text \<open>
  Citation markers of \<^verbatim>\<open>evaluation.py\<close>: which brackets of an answer are citations and whether each points at a source of
  the run. The markdown parser is a parameter (its inline blocks with their children); the code-span mask, the
  bracket-balanced link scan, the ordinal markers, the comparison key and the census are modelled. U+FFFF, which no
  text holds, stands as \<open>CHR 0x1B\<close>.
\<close>

section \<open>The prose a reader sees\<close>

record md_child =
  mc_type :: string
  mc_markup :: string
  mc_content :: string

record md_token =
  mt_type :: string
  mt_content :: string
  mt_children :: "md_child list"

definition PARSE_LIMIT_CHARS :: nat where "PARSE_LIMIT_CHARS = 16384"
definition CODE_MASK :: char where "CODE_MASK = CHR 0x1B"
definition BLOCK_SEPARATOR :: string where "BLOCK_SEPARATOR = [CHR 0x0A, CHR 0x1B, CHR 0x0A]"

text \<open>The pattern of a code span: markup, the words of the content with white space between them, markup. Every repetition
  stops at a character its successor cannot match, so it has one way to match. The value is the rest of the text.\<close>

fun match_words :: "string list \<Rightarrow> string \<Rightarrow> string option" where
  "match_words [] s = Some s"
| "match_words [w] s = (if starts_with w s then Some (drop (length w) s) else None)"
| "match_words (w # v # ws) s =
     (if starts_with w s then
        (let r = drop (length w) s in if lstrip r = r then None else match_words (v # ws) (lstrip r))
      else None)"

definition match_span :: "string \<Rightarrow> string \<Rightarrow> string \<Rightarrow> nat option" where
  "match_span markup content s =
     (if \<not> starts_with markup s then None
      else (case match_words (split_ws content) (lstrip (drop (length markup) s)) of
          None \<Rightarrow> None
        | Some r \<Rightarrow> if starts_with markup (lstrip r) then Some (length s - length (lstrip r) + length markup) else None))"

fun find_span :: "string \<Rightarrow> string \<Rightarrow> nat \<Rightarrow> string \<Rightarrow> (nat \<times> nat) option" where
  "find_span markup content i [] = (case match_span markup content [] of None \<Rightarrow> None | Some n \<Rightarrow> Some (i, i + n))"
| "find_span markup content i (c # s) =
     (case match_span markup content (c # s) of None \<Rightarrow> find_span markup content (i + 1) s | Some n \<Rightarrow> Some (i, i + n))"

definition blank :: "string \<Rightarrow> string" where "blank = map (\<lambda>c. if c = CHR 0x0A then c else CODE_MASK)"

fun mask_from :: "nat \<Rightarrow> string \<Rightarrow> md_child list \<Rightarrow> string" where
  "mask_from cursor masked [] = masked"
| "mask_from cursor masked (child # children) =
     (if mc_type child \<noteq> ''code_inline'' then mask_from cursor masked children
      else (case find_span (mc_markup child) (mc_content child) cursor (drop cursor masked) of
          None \<Rightarrow> mask_from cursor masked children
        | Some (start, stop) \<Rightarrow>
            mask_from stop (take start masked @ blank (take (stop - start) (drop start masked)) @ drop stop masked) children))"

definition mask_code_spans :: "string \<Rightarrow> md_child list \<Rightarrow> string" where
  "mask_code_spans content children = mask_from 0 content children"

definition prose_only :: "(string \<Rightarrow> md_token list) \<Rightarrow> string \<Rightarrow> string" where
  "prose_only md s =
     (if length s > PARSE_LIMIT_CHARS then []
      else join BLOCK_SEPARATOR (map (\<lambda>t. mask_code_spans (mt_content t) (mt_children t)) (filter (\<lambda>t. mt_type t = ''inline'') (md s))))"

section \<open>Links\<close>

definition in_target :: "char \<Rightarrow> bool" where "in_target c = (\<not> is_space c \<and> c \<noteq> CHR '')'')"

definition MAX_TARGET :: nat where "MAX_TARGET = 2000"

text \<open>The shape of a link target, and how many characters it takes: \<open>None\<close> when it does not open.\<close>

definition link_shape :: "string \<Rightarrow> nat option" where
  "link_shape s =
     (case s of
        [] \<Rightarrow> None
      | c # r \<Rightarrow>
          if c \<noteq> CHR ''('' then None
          else
            let inner = lstrip r; run = take MAX_TARGET (takeWhile in_target inner);
                after = lstrip (drop (length run) inner);
                after = (if starts_with '')'' after then tl after else after)
            in Some (length s - length after))"

text \<open>The address read as a marker: an http or https address of a closed target.\<close>

definition link_target :: "string \<Rightarrow> string option" where
  "link_target s =
     (case s of
        [] \<Rightarrow> None
      | c # r \<Rightarrow>
          (let inner = lstrip r;
               scheme = (if starts_with ''http://'' inner then 7 else if starts_with ''https://'' inner then 8 else 0);
               run = take MAX_TARGET (takeWhile in_target (drop scheme inner));
               after = lstrip (drop (scheme + length run) inner)
           in if c = CHR ''('' \<and> scheme \<noteq> 0 \<and> run \<noteq> [] \<and> starts_with '')'' after
              then Some (take scheme inner @ run) else None))"

type_synonym link_span = "nat \<times> nat \<times> string option"

function scan_brackets :: "nat \<Rightarrow> nat list \<Rightarrow> string \<Rightarrow> link_span list" where
  "scan_brackets index opens s =
     (case s of
        [] \<Rightarrow> []
      | c # r \<Rightarrow>
          if c = CHR ''['' then scan_brackets (index + 1) (index # opens) r
          else if c \<noteq> CHR '']'' then scan_brackets (index + 1) opens r
          else (case opens of
              [] \<Rightarrow> scan_brackets (index + 1) [] r
            | start # opens \<Rightarrow>
                (case link_shape r of
                   None \<Rightarrow> scan_brackets (index + 1) opens r
                 | Some n \<Rightarrow> (start, index + 1 + n, link_target r) # scan_brackets (index + 1 + n) opens (drop n r))))"
  by pat_completeness auto
termination by (relation "measure (\<lambda>(i, os, s). length s)") auto

declare scan_brackets.simps [simp del]

fun leave_out :: "nat \<Rightarrow> (nat \<times> nat) list \<Rightarrow> string \<Rightarrow> string" where
  "leave_out consumed [] s = drop consumed s"
| "leave_out consumed ((start, stop) # spans) s =
     (if start \<ge> consumed then take (start - consumed) (drop consumed s) @ '' '' else []) @ leave_out (max consumed stop) spans s"

definition scan_links :: "string \<Rightarrow> string list \<times> string" where
  "scan_links s =
     (let spans = sort_key fst (scan_brackets 0 [] s)
      in (List.map_filter (\<lambda>(start, stop, url). url) spans, leave_out 0 (map (\<lambda>(start, stop, url). (start, stop)) spans) s))"

section \<open>Markers\<close>

text \<open>The digits of an ordinal marker and the rest after its closing bracket; the text starts after the opening one.\<close>

function ordinal_items :: "string \<Rightarrow> (string list \<times> string) option" where
  "ordinal_items s =
     (let ds = take 3 (takeWhile is_digit s); rest = lstrip (drop (length ds) s) in
      if ds = [] then None
      else (case rest of
          [] \<Rightarrow> None
        | c # r \<Rightarrow>
            if c = CHR '']'' then Some ([ds], r)
            else if c = CHR '','' \<or> c = CHR '';'' then
              (case ordinal_items (lstrip r) of None \<Rightarrow> None | Some (is, t) \<Rightarrow> Some (ds # is, t))
            else None))"
  by pat_completeness auto
termination
proof (relation "measure length")
  fix s ds rest c r
  assume "ds = take 3 (takeWhile is_digit s)" "rest = lstrip (drop (length ds) s)" "rest = c # r"
  then have "length (c # r) \<le> length s" using length_lstrip_le[of "drop (length ds) s"] by simp
  then show "(lstrip r, s) \<in> measure length" using length_lstrip_le[of r] by simp
qed simp

declare ordinal_items.simps [simp del]

lemma ordinal_items_length: "ordinal_items s = Some (is, r) \<Longrightarrow> length r < length s"
proof (induction s arbitrary: "is" r rule: ordinal_items.induct)
  case (1 s)
  let ?ds = "take 3 (takeWhile is_digit s)" and ?rest = "lstrip (drop (length (take 3 (takeWhile is_digit s))) s)"
  have ds: "?ds \<noteq> []" using "1.prems" by (subst (asm) ordinal_items.simps) (auto simp: Let_def split: if_splits)
  then obtain c t where rest: "?rest = c # t" using "1.prems" by (subst (asm) ordinal_items.simps) (auto simp: Let_def split: list.splits)
  have len: "length (c # t) < length s"
  proof -
    have "0 < length ?ds" using ds by simp
    moreover have "length ?ds \<le> length s" using length_takeWhile_le[of is_digit s] by simp
    ultimately have "length s - length ?ds < length s" by linarith
    then show ?thesis using length_lstrip_le[of "drop (length ?ds) s"] unfolding rest length_drop by linarith
  qed
  show ?case
  proof (cases "c = CHR '']''")
    case True
    then show ?thesis using "1.prems" ds rest len by (subst (asm) ordinal_items.simps) (auto simp: Let_def)
  next
    case False
    then have sep: "c = CHR '','' \<or> c = CHR '';''" using "1.prems" ds rest by (subst (asm) ordinal_items.simps) (auto simp: Let_def split: if_splits)
    then obtain is' where "ordinal_items (lstrip t) = Some (is', r)"
      using "1.prems" ds rest False by (subst (asm) ordinal_items.simps) (auto simp: Let_def split: option.splits)
    from "1.IH"[OF refl refl ds rest False sep this] len length_lstrip_le[of t] show ?thesis by simp
  qed
qed

function ordinal_markers :: "string \<Rightarrow> string list" where
  "ordinal_markers s =
     (case s of
        [] \<Rightarrow> []
      | c # r \<Rightarrow>
          if c \<noteq> CHR ''['' then ordinal_markers r
          else (case ordinal_items (lstrip r) of None \<Rightarrow> ordinal_markers r | Some (is, t) \<Rightarrow> is @ ordinal_markers t))"
  by pat_completeness auto
termination
proof (relation "measure length")
  fix s c r p and "is" :: "string list" and t
  assume "s = c # r" "ordinal_items (lstrip r) = Some p" "(is, t) = p"
  then show "(t, s) \<in> measure length" using ordinal_items_length[of "lstrip r" "is" t] length_lstrip_le[of r] by simp
qed auto

declare ordinal_markers.simps [simp del]

definition markers_of_prose :: "string \<Rightarrow> string list" where
  "markers_of_prose prose = (let (urls, remainder) = scan_links prose in urls @ ordinal_markers remainder)"

definition extract_citation_markers :: "(string \<Rightarrow> md_token list) \<Rightarrow> string \<Rightarrow> string list" where
  "extract_citation_markers md s = (if s = [] then [] else markers_of_prose (prose_only md s))"

section \<open>What a marker points at\<close>

definition normalize_url :: "string \<Rightarrow> string" where
  "normalize_url url = lower (rstrip_chars ''/'' (rstrip_chars ''.,;:'' (strip url)))"

definition canonical_marker_key :: "string \<Rightarrow> string" where
  "canonical_marker_key url = normalize_url (before_char CHR ''#'' url)"

definition PLACEHOLDER_SOURCE_HOST :: string where "PLACEHOLDER_SOURCE_HOST = ''example.test''"

text \<open>A stored address passed the check of \<open>sanitize_source_url\<close>, so it can be split.\<close>

definition is_placeholder_source :: "ip_facts \<Rightarrow> source_reference \<Rightarrow> bool" where
  "is_placeholder_source ip src =
     (case urlsplit (ip_literal ip) (lower (strip (sr_url src))) of
        None \<Rightarrow> False
      | Some su \<Rightarrow> url_hostname su = PLACEHOLDER_SOURCE_HOST \<or> ends_with (''.'' @ PLACEHOLDER_SOURCE_HOST) (url_hostname su))"

type_synonym citation_scope = "string \<times> source_reference list"

record marker_census =
  mk_resolved :: nat
  mk_unresolved :: nat
  mk_unverifiable :: nat

definition resolvable :: "marker_census \<Rightarrow> nat" where "resolvable mk = mk_resolved mk + mk_unresolved mk"

definition is_decimal :: "string \<Rightarrow> bool" where "is_decimal s = (s \<noteq> [] \<and> list_all is_digit s)"

definition decimal_value :: "string \<Rightarrow> nat" where "decimal_value s = foldl (\<lambda>n c. 10 * n + (code c - 48)) 0 s"

datatype marker_fate = RESOLVED | UNRESOLVED | UNVERIFIABLE

definition run_keys :: "ip_facts \<Rightarrow> bool \<Rightarrow> citation_scope list \<Rightarrow> string list" where
  "run_keys ip placeholder scopes =
     concat (map (\<lambda>(s, sources). map (\<lambda>src. canonical_marker_key (sr_url src)) (filter (\<lambda>src. is_placeholder_source ip src = placeholder) sources)) scopes)"

definition marker_fate_of :: "ip_facts \<Rightarrow> citation_scope list \<Rightarrow> source_reference list \<Rightarrow> string \<Rightarrow> marker_fate" where
  "marker_fate_of ip scopes sources marker =
     (if is_decimal marker then
        (let position = decimal_value marker in
         if 1 \<le> position \<and> position \<le> length sources \<and> \<not> is_placeholder_source ip (sources ! (position - 1)) then RESOLVED else UNRESOLVED)
      else if canonical_marker_key marker \<in> set (run_keys ip False scopes) then RESOLVED
      else if canonical_marker_key marker \<in> set (run_keys ip True scopes) then UNRESOLVED
      else UNVERIFIABLE)"

definition marker_fates :: "ip_facts \<Rightarrow> (string \<Rightarrow> md_token list) \<Rightarrow> citation_scope list \<Rightarrow> marker_fate list" where
  "marker_fates ip md scopes =
     concat (map (\<lambda>(s, sources). map (marker_fate_of ip scopes sources) (extract_citation_markers md s)) scopes)"

definition citation_marker_census :: "ip_facts \<Rightarrow> (string \<Rightarrow> md_token list) \<Rightarrow> citation_scope list \<Rightarrow> marker_census" where
  "citation_marker_census ip md scopes =
     (let fates = marker_fates ip md scopes
      in \<lparr>mk_resolved = count_list fates RESOLVED, mk_unresolved = count_list fates UNRESOLVED, mk_unverifiable = count_list fates UNVERIFIABLE\<rparr>)"

definition citation_marker_grounding :: "ip_facts \<Rightarrow> (string \<Rightarrow> md_token list) \<Rightarrow> citation_scope list \<Rightarrow> rat option" where
  "citation_marker_grounding ip md scopes =
     (let mk = citation_marker_census ip md scopes in
      if resolvable mk = 0 then None else Some (of_nat (mk_resolved mk) / of_nat (resolvable mk)))"

section \<open>A link is one marker\<close>

lemma scan_skip: "\<forall>c \<in> set a. c \<noteq> CHR ''['' \<and> c \<noteq> CHR '']'' \<Longrightarrow> scan_brackets i os (a @ s) = scan_brackets (i + length a) os s"
proof (induction a arbitrary: i)
  case (Cons c a)
  have "scan_brackets i os ((c # a) @ s) = scan_brackets (i + 1) os (a @ s)"
    using Cons.prems by (subst scan_brackets.simps) simp
  then show ?case using Cons.IH[of "i + 1"] Cons.prems by simp
qed simp

text \<open>Balanced brackets none of which closes right before an opening parenthesis.\<close>

fun nested :: "nat \<Rightarrow> string \<Rightarrow> bool" where
  "nested d [] = (d = 0)"
| "nested d (c # s) =
     (if c = CHR ''['' then nested (d + 1) s
      else if c = CHR '']'' then d > 0 \<and> \<not> starts_with ''('' s \<and> nested (d - 1) s
      else nested d s)"

lemma no_shape: "\<not> starts_with ''('' s \<Longrightarrow> link_shape s = None"
  by (cases s) (simp_all add: link_shape_def starts_with_def)

lemma scan_nested:
  "nested (length ds) inner \<Longrightarrow> scan_brackets i (ds @ os) (inner @ CHR '']'' # t) = scan_brackets (i + length inner) os (CHR '']'' # t)"
proof (induction "length ds" inner arbitrary: ds i rule: nested.induct)
  case (2 c s)
  consider (left) "c = CHR ''[''" | (closing) "c = CHR '']''" | (other) "c \<noteq> CHR ''[''" "c \<noteq> CHR '']''" by blast
  then show ?case
  proof cases
    case left
    then have "scan_brackets (i + 1) ((i # ds) @ os) (s @ CHR '']'' # t) = scan_brackets (i + 1 + length s) os (CHR '']'' # t)"
      using "2.hyps"(1)[of "i # ds" "i + 1"] "2.prems" by simp
    then show ?thesis using left by (subst scan_brackets.simps) simp
  next
    case closing
    then obtain d ds' where ds: "ds = d # ds'" "\<not> starts_with ''('' s" "nested (length ds') s" using "2.prems" by (cases ds) auto
    have "\<not> starts_with ''('' (s @ CHR '']'' # t)" using ds(2) by (cases s) (auto simp: starts_with_def)
    then have "scan_brackets i (ds @ os) ((c # s) @ CHR '']'' # t) = scan_brackets (i + 1) (ds' @ os) (s @ CHR '']'' # t)"
      using closing ds(1) by (subst scan_brackets.simps) (simp add: no_shape)
    then show ?thesis using "2.hyps"(2)[of ds' "i + 1"] closing ds by simp
  next
    case other
    then have "scan_brackets i (ds @ os) ((c # s) @ CHR '']'' # t) = scan_brackets (i + 1) (ds @ os) (s @ CHR '']'' # t)"
      by (subst scan_brackets.simps) simp
    then show ?thesis using "2.hyps"(3)[of ds "i + 1"] other "2.prems" by simp
  qed
qed simp

definition shift :: "nat \<Rightarrow> link_span \<Rightarrow> link_span" where "shift k = (\<lambda>(start, stop, url). (start + k, stop + k, url))"

lemma scan_shift: "scan_brackets (i + k) (map (\<lambda>x. x + k) os) s = map (shift k) (scan_brackets i os s)"
proof (induction i os s rule: scan_brackets.induct)
  case (1 i os s)
  show ?case
  proof (cases s)
    case Nil
    then show ?thesis by (simp add: scan_brackets.simps)
  next
    case (Cons c r)
    consider (left) "c = CHR ''[''" | (closing) "c = CHR '']''" | (other) "c \<noteq> CHR ''[''" "c \<noteq> CHR '']''" by blast
    then show ?thesis
    proof cases
      case left
      then show ?thesis using "1.IH"(1)[OF Cons left] Cons
        by (subst (1 2) scan_brackets.simps) (simp add: add.commute add.left_commute)
    next
      case other
      then show ?thesis using "1.IH"(2)[OF Cons other(1)] Cons
        by (subst (1 2) scan_brackets.simps) (simp add: add.commute add.left_commute)
    next
      case closing
      show ?thesis
      proof (cases os)
        case Nil
        then show ?thesis using "1.IH"(3)[OF Cons] Cons closing
          by (subst (1 2) scan_brackets.simps) (simp add: add.commute add.left_commute)
      next
        case os: (Cons st os')
        then show ?thesis
        proof (cases "link_shape r")
          case None
          then show ?thesis using "1.IH"(4)[OF Cons _ _ os None] Cons closing os
            by (subst (1 2) scan_brackets.simps) (simp add: add.commute add.left_commute)
        next
          case (Some n)
          then show ?thesis using "1.IH"(5)[OF Cons _ _ os Some] Cons closing os
            by (subst (1 2) scan_brackets.simps) (simp add: shift_def add.commute add.left_commute)
        qed
      qed
    qed
  qed
qed

lemma sort_shift: "sort_key fst (map (shift k) xs) = map (shift k) (sort_key fst xs)"
proof -
  have "insort_key fst (shift k x) (map (shift k) ys) = map (shift k) (insort_key fst x ys)" for x ys
    by (induction ys) (auto simp: shift_def split: prod.splits)
  then show ?thesis by (induction xs) simp_all
qed

lemma leave_out_shift:
  "leave_out (n + length u) (map (\<lambda>(a, b). (a + length u, b + length u)) spans) (u @ s) = leave_out n spans s"
proof (induction n spans s rule: leave_out.induct)
  case (2 consumed start stop spans s)
  have "max (consumed + length u) (stop + length u) = max consumed stop + length u" by simp
  then show ?case using 2 by simp
qed simp

lemma linked:
  assumes "list_all in_target url" and "length url \<le> MAX_TARGET"
  shows "link_shape (CHR ''('' # url @ CHR '')'' # b) = Some (length url + 2)"
    and "link_target (CHR ''('' # url @ CHR '')'' # b) =
      (if (starts_with ''http://'' url \<and> 7 < length url) \<or> (starts_with ''https://'' url \<and> 8 < length url) then Some url else None)"
proof -
  have sp: "\<not> is_space CHR '')''" by (simp add: char_eval)
  have run: "takeWhile in_target (drop n url @ CHR '')'' # b) = drop n url" for n
  proof -
    have "\<forall>c \<in> set (drop n url). in_target c" using assms(1) by (auto simp: list_all_iff dest: in_set_dropD)
    then show ?thesis by (subst takeWhile_append2) (auto simp: in_target_def)
  qed
  have strip: "lstrip (url @ CHR '')'' # b) = url @ CHR '')'' # b"
    using assms(1) sp by (cases url) (auto simp: lstrip_def in_target_def)
  have close: "lstrip (CHR '')'' # b) = CHR '')'' # b" using sp by (simp add: lstrip_def)
  show "link_shape (CHR ''('' # url @ CHR '')'' # b) = Some (length url + 2)"
    using assms(2) run[of 0] by (simp add: link_shape_def Let_def strip close starts_with_def)
  have pre: "starts_with p (url @ CHR '')'' # b) = starts_with p url" if "CHR '')'' \<notin> set p" for p
    using that by (auto simp: starts_with_iff append_eq_append_conv2 Cons_eq_append_conv)
  show "link_target (CHR ''('' # url @ CHR '')'' # b) =
      (if (starts_with ''http://'' url \<and> 7 < length url) \<or> (starts_with ''https://'' url \<and> 8 < length url) then Some url else None)"
  proof -
    define m where "m = (if starts_with ''http://'' url then 7 else if starts_with ''https://'' url then 8 else (0 :: nat))"
    have "length p \<le> length url" if "starts_with p url" for p using that by (auto simp: starts_with_iff)
    then have m: "m \<le> length url" unfolding m_def by fastforce
    have run': "takeWhile in_target (drop m (url @ CHR '')'' # b)) = drop m url" using m run[of m] by simp
    have rest: "drop (m + length (drop m url)) (url @ CHR '')'' # b) = CHR '')'' # b" and front: "take m (url @ CHR '')'' # b) = take m url"
      using m by simp_all
    have scheme: "(if starts_with ''http://'' (url @ CHR '')'' # b) then 7 else if starts_with ''https://'' (url @ CHR '')'' # b) then 8 else 0) = m"
      by (simp add: pre m_def)
    have bound: "take MAX_TARGET (drop m url) = drop m url" using assms(2) by simp
    have closed: "starts_with '')'' (CHR '')'' # b)" by (simp add: starts_with_def)
    have "link_target (CHR ''('' # url @ CHR '')'' # b) = (if m \<noteq> 0 \<and> drop m url \<noteq> [] then Some url else None)"
      unfolding link_target_def list.case Let_def strip scheme run' bound rest close front append_take_drop_id by (simp only: closed simp_thms)
    then show ?thesis unfolding m_def by (simp add: not_le)
  qed
qed

lemma scan_link:
  assumes "\<forall>c \<in> set a. c \<noteq> CHR ''['' \<and> c \<noteq> CHR '']''" and "nested 0 inner"
    and "list_all in_target url" and "length url \<le> MAX_TARGET"
    and "(starts_with ''http://'' url \<and> 7 < length url) \<or> (starts_with ''https://'' url \<and> 8 < length url)"
  shows "scan_links (a @ ''['' @ inner @ ''](''  @ url @ '')'' @ b) = (url # fst (scan_links b), a @ '' '' @ snd (scan_links b))"
proof -
  let ?t = "CHR ''('' # url @ CHR '')'' # b" and ?k = "length a + length inner + length url + 4"
  let ?u = "a @ ''['' @ inner @ ''](''  @ url @ '')''"
  have whole: "a @ ''['' @ inner @ ''](''  @ url @ '')'' @ b = a @ CHR ''['' # inner @ CHR '']'' # ?t" by simp
  have "scan_brackets 0 [] (a @ CHR ''['' # inner @ CHR '']'' # ?t) = scan_brackets (length a) [] (CHR ''['' # inner @ CHR '']'' # ?t)"
    using scan_skip[OF assms(1), of 0 "[]"] by simp
  also have "\<dots> = scan_brackets (length a + 1) ([] @ [length a]) (inner @ CHR '']'' # ?t)" by (subst scan_brackets.simps) simp
  also have "\<dots> = scan_brackets (length a + 1 + length inner) [length a] (CHR '']'' # ?t)" by (rule scan_nested) (simp add: assms(2))
  also have "\<dots> = (length a, ?k, Some url) # scan_brackets ?k [] b"
    using linked[OF assms(3,4), of b] assms(5) by (subst scan_brackets.simps) (simp add: add_ac eval_nat_numeral)
  also have "scan_brackets ?k [] b = map (shift ?k) (scan_brackets 0 [] b)" using scan_shift[of 0 ?k "[]" b] by simp
  finally have spans: "scan_brackets 0 [] (a @ CHR ''['' # inner @ CHR '']'' # ?t) = (length a, ?k, Some url) # map (shift ?k) (scan_brackets 0 [] b)" .
  have sorted: "sort_key fst (scan_brackets 0 [] (a @ CHR ''['' # inner @ CHR '']'' # ?t)) =
      (length a, ?k, Some url) # map (shift ?k) (sort_key fst (scan_brackets 0 [] b))"
    unfolding spans by (simp add: sort_shift, rule insort_is_Cons) (auto simp: shift_def)
  have lu: "length ?u = ?k" by simp
  have urls: "List.map_filter (\<lambda>(start, stop, url). url) (map (shift k) xs) = List.map_filter (\<lambda>(start, stop, url). url) xs" for k xs
    by (induction xs) (auto simp: List.map_filter_def shift_def split: prod.splits)
  have pairs: "map (\<lambda>(start, stop, url). (start, stop)) (map (shift k) xs) = map (\<lambda>(x, y). (x + k, y + k)) (map (\<lambda>(start, stop, url). (start, stop)) xs)" for k xs
    by (induction xs) (auto simp: shift_def split: prod.splits)
  have rest: "leave_out ?k (map (\<lambda>(start, stop, url). (start, stop)) (map (shift ?k) xs)) (?u @ b) = leave_out 0 (map (\<lambda>(start, stop, url). (start, stop)) xs) b" for xs
    unfolding pairs using leave_out_shift[of 0 ?u "map (\<lambda>(start, stop, url). (start, stop)) xs" b] unfolding lu add_0 .
  have flat: "a @ CHR ''['' # inner @ CHR '']'' # ?t = ?u @ b" by simp
  have cons: "List.map_filter (\<lambda>(start, stop, url). url) ((length a, k, Some url) # xs) = url # List.map_filter (\<lambda>(start, stop, url). url) xs" for k xs
    by (simp add: List.map_filter_def)
  show ?thesis unfolding whole scan_links_def Let_def sorted cons urls prod.inject fst_conv snd_conv
  proof
    have "leave_out 0 ((length a, ?k) # ys) (?u @ b) = a @ '' '' @ leave_out ?k ys (?u @ b)" for ys by simp
    then show "leave_out 0 (map (\<lambda>(start, stop, url). (start, stop)) ((length a, ?k, Some url) # map (shift ?k) (sort_key fst (scan_brackets 0 [] b))))
        (a @ CHR ''['' # inner @ CHR '']'' # ?t) = a @ '' '' @ leave_out 0 (map (\<lambda>(start, stop, url). (start, stop)) (sort_key fst (scan_brackets 0 [] b))) b"
      unfolding flat list.map(2) prod.case using rest by metis
  qed simp
qed

lemma ordinals_skip: "\<forall>c \<in> set a. c \<noteq> CHR ''['' \<Longrightarrow> ordinal_markers (a @ s) = ordinal_markers s"
proof (induction a)
  case (Cons c a)
  then show ?case by (subst append_Cons, subst ordinal_markers.simps) simp
qed simp

text \<open>A link that stands outside every bracket is one marker, its address, whatever its text: brackets nested in the text,
  ordinals and line breaks included, are not citations of their own, and what follows is read as if it stood alone.\<close>

theorem link_is_one_marker:
  assumes "list_all (\<lambda>c. c \<noteq> CHR ''['' \<and> c \<noteq> CHR '']'') a" and "nested 0 inner"
    and "list_all in_target url" and "length url \<le> MAX_TARGET"
    and "starts_with ''http://'' url \<and> 7 < length url \<or> starts_with ''https://'' url \<and> 8 < length url"
  shows "markers_of_prose (a @ ''['' @ inner @ ''](''  @ url @ '')'' @ b) = url # markers_of_prose b"
proof -
  have a: "\<forall>c \<in> set a. c \<noteq> CHR ''['' \<and> c \<noteq> CHR '']''" using assms(1) by (simp add: list_all_iff)
  have "ordinal_markers (a @ '' '' @ r) = ordinal_markers r" for r
    using ordinals_skip[of "a @ '' ''" r] a by simp
  then show ?thesis unfolding markers_of_prose_def scan_link[OF a assms(2-5)] by (simp add: case_prod_unfold Let_def)
qed

lemma link_is_one_marker_witness:
  "markers_of_prose (''see '' @ ''['' @ ''see [1]'' @ ''](''  @ ''http://x.test/a'' @ '')'' @ '' [2]'') = [''http://x.test/a'', ''2'']"
proof -
  have b: "markers_of_prose '' [2]'' = [''2'']"
    by (simp add: markers_of_prose_def scan_links_def scan_brackets.simps link_shape_def ordinal_markers.simps ordinal_items.simps
        List.map_filter_def lstrip_def char_eval Let_def)
  have "markers_of_prose (''see '' @ ''['' @ ''see [1]'' @ ''](''  @ ''http://x.test/a'' @ '')'' @ '' [2]'') = ''http://x.test/a'' # markers_of_prose '' [2]''"
    by (rule link_is_one_marker) (simp_all add: starts_with_def in_target_def char_eval MAX_TARGET_def)
  then show ?thesis using b by simp
qed

section \<open>Cited prose reads back\<close>

text \<open>Prose put together from words, links and ordinal citations: how it is written, and which of it can be told apart again.
  The words hold no bracket; a link's text is balanced and closes no bracket right before an opening parenthesis, and its
  address is http(s), without spaces or a closing parenthesis, of at most 2000 characters; an ordinal has one to three digits;
  no opening parenthesis follows a list of ordinals.\<close>

datatype piece = Words string | Link string string | Ordinals "string list"

fun prose_of :: "piece list \<Rightarrow> string" where
  "prose_of [] = []"
| "prose_of (Words a # ps) = a @ prose_of ps"
| "prose_of (Link shown url # ps) = ''['' @ shown @ ''](''  @ url @ '')'' @ prose_of ps"
| "prose_of (Ordinals ns # ps) = ''['' @ join '', '' ns @ '']'' @ prose_of ps"

definition linkable :: "string \<Rightarrow> bool" where
  "linkable url =
     (list_all in_target url \<and> length url \<le> MAX_TARGET
      \<and> (starts_with ''http://'' url \<and> 7 < length url \<or> starts_with ''https://'' url \<and> 8 < length url))"

fun distinguishable :: "piece list \<Rightarrow> bool" where
  "distinguishable [] = True"
| "distinguishable (Words a # ps) = (list_all (\<lambda>c. c \<noteq> CHR ''['' \<and> c \<noteq> CHR '']'') a \<and> distinguishable ps)"
| "distinguishable (Link shown url # ps) = (nested 0 shown \<and> linkable url \<and> distinguishable ps)"
| "distinguishable (Ordinals ns # ps) =
     (ns \<noteq> [] \<and> list_all (\<lambda>ds. ds \<noteq> [] \<and> length ds \<le> 3 \<and> list_all is_digit ds) ns \<and> \<not> starts_with ''('' (prose_of ps) \<and> distinguishable ps)"

fun without_links :: "piece list \<Rightarrow> string" where
  "without_links [] = []"
| "without_links (Words a # ps) = a @ without_links ps"
| "without_links (Link shown url # ps) = '' '' @ without_links ps"
| "without_links (Ordinals ns # ps) = ''['' @ join '', '' ns @ '']'' @ without_links ps"

definition link_urls :: "piece list \<Rightarrow> string list" where
  "link_urls ps = concat (map (\<lambda>p. case p of Link shown url \<Rightarrow> [url] | _ \<Rightarrow> []) ps)"

definition ordinals_of :: "piece list \<Rightarrow> string list" where
  "ordinals_of ps = concat (map (\<lambda>p. case p of Ordinals ns \<Rightarrow> ns | _ \<Rightarrow> []) ps)"

lemma scan_front:
  assumes "scan_brackets 0 [] (u @ s) = map (shift (length u)) (scan_brackets 0 [] s)"
  shows "scan_links (u @ s) = (fst (scan_links s), u @ snd (scan_links s))"
proof -
  let ?xs = "sort_key fst (scan_brackets 0 [] s)" and ?k = "length u"
  have urls: "List.map_filter (\<lambda>(start, stop, url). url) (map (shift k) xs) = List.map_filter (\<lambda>(start, stop, url). url) xs" for k xs
    by (induction xs) (auto simp: List.map_filter_def shift_def split: prod.splits)
  have pairs: "map (\<lambda>(start, stop, url). (start, stop)) (map (shift k) xs)
      = map (\<lambda>(x, y). (x + k, y + k)) (map (\<lambda>(start, stop, url). (start, stop)) xs)" for k xs
    by (induction xs) (auto simp: shift_def split: prod.splits)
  have cut: "leave_out 0 (map (\<lambda>(x, y). (x + ?k, y + ?k)) spans) (u @ s) = u @ leave_out 0 spans s" for spans :: "(nat \<times> nat) list"
  proof (cases spans)
    case (Cons span rest)
    then show ?thesis using leave_out_shift[of "snd span" u rest s] by (cases span) (simp add: case_prod_unfold)
  qed simp
  show ?thesis unfolding scan_links_def Let_def assms sort_shift urls pairs cut by simp
qed

lemma not_bracket_digit: "list_all is_digit ds \<Longrightarrow> list_all (\<lambda>c. c \<noteq> CHR ''['' \<and> c \<noteq> CHR '']'') ds"
  by (induction ds) (auto simp: char_eval)

lemma join_no_bracket:
  "list_all (list_all is_digit) ns \<Longrightarrow> list_all (\<lambda>c. c \<noteq> CHR ''['' \<and> c \<noteq> CHR '']'') (join '', '' ns)"
  by (induction "'', ''" ns rule: join.induct) (simp_all add: not_bracket_digit)

lemma scan_written: "distinguishable ps \<Longrightarrow> scan_links (prose_of ps) = (link_urls ps, without_links ps)"
proof (induction ps rule: prose_of.induct)
  case 1
  show ?case by (simp add: scan_links_def scan_brackets.simps link_urls_def List.map_filter_def)
next
  case (2 a ps)
  have "scan_brackets 0 [] (a @ prose_of ps) = map (shift (length a)) (scan_brackets 0 [] (prose_of ps))"
    using scan_skip[of a 0 "[]" "prose_of ps"] scan_shift[of 0 "length a" "[]" "prose_of ps"] 2(2) by (simp add: list_all_iff)
  from scan_front[OF this] show ?case using 2 by (simp add: link_urls_def)
next
  case (3 shown url ps)
  then show ?case using scan_link[of "[]" shown url "prose_of ps"] by (simp add: link_urls_def linkable_def)
next
  case (4 ns ps)
  let ?u = "''['' @ join '', '' ns @ '']''"
  have free: "\<forall>c \<in> set (join '', '' ns). c \<noteq> CHR ''['' \<and> c \<noteq> CHR '']''"
    using join_no_bracket[of ns] 4(2) by (simp add: list_all_iff)
  have "scan_brackets 0 [] (?u @ prose_of ps) = scan_brackets 1 [0] (join '', '' ns @ CHR '']'' # prose_of ps)"
    by (subst scan_brackets.simps) simp
  also have "\<dots> = scan_brackets (1 + length (join '', '' ns)) [0] (CHR '']'' # prose_of ps)" by (rule scan_skip[OF free])
  also have "\<dots> = scan_brackets (length ?u) [] (prose_of ps)"
    using no_shape[of "prose_of ps"] 4(2) by (subst scan_brackets.simps) simp
  also have "\<dots> = map (shift (length ?u)) (scan_brackets 0 [] (prose_of ps))" using scan_shift[of 0 "length ?u" "[]" "prose_of ps"] by simp
  finally have "scan_links (?u @ prose_of ps) = (fst (scan_links (prose_of ps)), ?u @ snd (scan_links (prose_of ps)))" by (rule scan_front)
  then show ?case using 4 by (simp add: link_urls_def)
qed

lemma ordinal_item:
  assumes "ds \<noteq> []" and "length ds \<le> 3" and "list_all is_digit ds" and "\<not> is_digit c" and "\<not> is_space c"
  shows "ordinal_items (ds @ c # r) =
     (if c = CHR '']'' then Some ([ds], r)
      else if c = CHR '','' \<or> c = CHR '';'' then map_option (\<lambda>(is, t). (ds # is, t)) (ordinal_items (lstrip r)) else None)"
proof -
  have t: "takeWhile is_digit (ds @ c # r) = ds" using assms(3,4) by (subst takeWhile_append2) (auto simp: list_all_iff)
  have l: "lstrip (c # r) = c # r" using assms(5) by (simp add: lstrip_def)
  show ?thesis using assms(1,2) by (subst ordinal_items.simps) (simp add: t l Let_def split: option.split)
qed

lemma digit_not_space: "is_digit c \<Longrightarrow> \<not> is_space c"
  by (auto simp: char_eval)

lemma ordinals_joined:
  "ns \<noteq> [] \<Longrightarrow> list_all (\<lambda>ds. ds \<noteq> [] \<and> length ds \<le> 3 \<and> list_all is_digit ds) ns \<Longrightarrow>
   ordinal_items (join '', '' ns @ CHR '']'' # t) = Some (ns, t)"
proof (induction "'', ''" ns rule: join.induct)
  case (2 ds)
  then show ?case using ordinal_item[of ds "CHR '']''" t] by (simp add: char_eval)
next
  case (3 ds ds' ns)
  have strip: "lstrip (CHR '' '' # join '', '' (ds' # ns) @ CHR '']'' # t) = join '', '' (ds' # ns) @ CHR '']'' # t"
  proof -
    obtain d r where "ds' = d # r" "is_digit d" using 3(3) by (cases ds') auto
    then obtain r' where "join '', '' (ds' # ns) = d # r'" "\<not> is_space d" using digit_not_space by (cases ns) auto
    moreover have "is_space CHR '' ''" by (simp add: char_eval)
    ultimately show ?thesis by (simp add: lstrip_def)
  qed
  show ?case using ordinal_item[of ds "CHR '',''" "CHR '' '' # join '', '' (ds' # ns) @ CHR '']'' # t"] 3 strip by (simp add: char_eval)
qed simp

lemma ordinals_written: "distinguishable ps \<Longrightarrow> ordinal_markers (without_links ps) = ordinals_of ps"
proof (induction ps rule: without_links.induct)
  case 1
  show ?case by (simp add: ordinal_markers.simps ordinals_of_def)
next
  case (2 a ps)
  then show ?case using ordinals_skip[of a "without_links ps"] by (simp add: list_all_iff ordinals_of_def)
next
  case (3 shown url ps)
  then show ?case using ordinals_skip[of "'' ''" "without_links ps"] by (simp add: ordinals_of_def)
next
  case (4 ns ps)
  obtain d ds ns' where ns: "ns = (d # ds) # ns'" "is_digit d" using 4(2) by (cases ns; cases "hd ns") auto
  then obtain r where "join '', '' ns = d # r" by (cases ns') auto
  then have strip: "lstrip (join '', '' ns @ CHR '']'' # without_links ps) = join '', '' ns @ CHR '']'' # without_links ps"
    using digit_not_space[OF ns(2)] by (simp add: lstrip_def)
  show ?case using ordinals_joined[of ns "without_links ps"] 4
    by (subst without_links.simps, subst ordinal_markers.simps) (simp add: strip ordinals_of_def)
qed

text \<open>C39. Cited prose reads back: written from words without brackets, links and lists of ordinals, a text's markers are exactly the
  addresses of its links, in order, followed by its ordinals, in order. Ordinals and nested brackets in a link's text are not
  citations of their own. The pieces must be distinguishable, as defined: a link stands outside every other bracket, its text
  is balanced, and its address is http(s), of at most 2000 characters, without a space or a closing parenthesis.\<close>

theorem cited_prose_reads_back:
  assumes "distinguishable ps"
  shows "markers_of_prose (prose_of ps) = link_urls ps @ ordinals_of ps"
  using scan_written[OF assms] ordinals_written[OF assms] by (simp add: markers_of_prose_def)

definition sample_pieces :: "piece list" where
  "sample_pieces = [Words ''so '', Ordinals [''1'', ''12''], Words '' and '', Link ''see [3]'' ''http://x.test/a'', Words ''.'', Ordinals [''2'']]"

lemma cited_prose_reads_back_witness:
  "prose_of sample_pieces = ''so [1, 12] and [see [3]](http://x.test/a).[2]''
   \<and> markers_of_prose (prose_of sample_pieces) = [''http://x.test/a'', ''1'', ''12'', ''2'']"
proof
  have "distinguishable sample_pieces"
    by (simp add: sample_pieces_def linkable_def starts_with_def in_target_def char_eval MAX_TARGET_def)
  from cited_prose_reads_back[OF this]
  show "markers_of_prose (prose_of sample_pieces) = [''http://x.test/a'', ''1'', ''12'', ''2'']"
    by (simp add: sample_pieces_def link_urls_def ordinals_of_def)
qed (simp add: sample_pieces_def)

section \<open>The census\<close>

lemma fates_total: "length fates = count_list fates RESOLVED + count_list fates UNRESOLVED + count_list fates UNVERIFIABLE"
proof (induction fates)
  case (Cons x xs)
  then show ?case by (cases x) simp_all
qed simp

lemma count_none: "x \<notin> set xs \<Longrightarrow> count_list xs x = 0" by (rule count_notin)

lemma only_placeholders:
  assumes "\<forall>(s, sources) \<in> set scopes. \<forall>src \<in> set sources. is_placeholder_source ip src"
  shows "mk_resolved (citation_marker_census ip md scopes) = 0"
proof -
  have "run_keys ip False scopes = []" using assms by (auto simp: run_keys_def filter_empty_conv)
  moreover have "sources ! n \<in> set sources" if "Suc n \<le> length sources" for sources :: "source_reference list" and n using that by simp
  ultimately have "RESOLVED \<notin> set (marker_fates ip md scopes)"
    using assms by (fastforce simp: marker_fates_def marker_fate_of_def Let_def split: if_splits)
  then show ?thesis by (simp add: citation_marker_census_def count_none Let_def)
qed

lemma key_of_sanitized:
  assumes "sanitize_source_url ip raw = Some url" and "\<not> list_ex is_space raw"
  shows "canonical_marker_key raw = canonical_marker_key url"
proof -
  have "strip raw = raw" using no_space_strip[of "\<lambda>c. False" raw] assms(2) by simp
  then have "url = before_char CHR ''#'' raw"
    using assms(1) by (auto simp: sanitize_source_url_def Let_def split: if_splits option.splits)
  then show ?thesis by (simp add: canonical_marker_key_def)
qed

text \<open>A citation of a page the run retrieved resolves, anchor or not: the address of a link, checked the way every source
  is, finds its source wherever in the run it is.\<close>

theorem own_citation_resolves:
  assumes "sanitize_source_url ip marker = Some (sr_url src)" and "\<not> list_ex is_space marker"
    and "(s, found) \<in> set scopes" and "src \<in> set found" and "\<not> is_placeholder_source ip src"
  shows "marker_fate_of ip scopes sources marker = RESOLVED"
proof -
  have "canonical_marker_key marker = canonical_marker_key (sr_url src)" by (rule key_of_sanitized[OF assms(1,2)])
  moreover have "canonical_marker_key (sr_url src) \<in> set (run_keys ip False scopes)"
    using assms(3-5) by (force simp: run_keys_def)
  moreover have "\<not> is_decimal marker"
  proof
    assume d: "is_decimal marker"
    have "strip marker = marker" using no_space_strip[of "\<lambda>c. False" marker] assms(2) by simp
    then have "starts_with ''http://'' marker \<or> starts_with ''https://'' marker"
      using assms(1) by (auto simp: sanitize_source_url_def Let_def split: if_splits)
    then have "hd marker = CHR ''h''" by (auto simp: starts_with_iff)
    moreover have "is_digit (hd marker)" using d by (cases marker) (auto simp: is_decimal_def)
    ultimately show False by (simp add: char_eval)
  qed
  ultimately show ?thesis by (auto simp: marker_fate_of_def)
qed

definition sample_page :: source_reference where
  "sample_page = \<lparr>sr_title = ''A'', sr_url = ''http://x.test/a'', sr_provider = OPENROUTER_SEARCH, sr_is_fallback = False, sr_excerpt = []\<rparr>"

definition no_ip :: ip_facts where "no_ip = \<lparr>ip_literal = \<lambda>x. False, ip_loopback = \<lambda>x. False\<rparr>"

lemmas split_url_eval = no_ip_def char_eval strip_def lstrip_def rstrip_def starts_with_def before_char_def urlsplit_def
  split_scheme_def is_scheme_char_def after_char_def url_hostname_def host_part_def after_last_def lower_def SOURCE_URL_HOST_DENYLIST_def Let_def

lemma own_citation_resolves_witness:
  "marker_fate_of no_ip [(''see'', [sample_page])] [] ''http://x.test/a#b'' = RESOLVED"
proof (rule own_citation_resolves[of _ _ sample_page "''see''" "[sample_page]"])
  show "sanitize_source_url no_ip ''http://x.test/a#b'' = Some (sr_url sample_page)"
    by (simp add: sanitize_source_url_def sample_page_def split_url_eval)
  show "\<not> is_placeholder_source no_ip sample_page"
    by (simp add: is_placeholder_source_def sample_page_def split_url_eval PLACEHOLDER_SOURCE_HOST_def ends_with_def)
qed (simp_all add: char_eval)

end
