(* ===== verification/Source_Fetch.thy ===== *)
theory Source_Fetch
  imports Robots Page_Text Citations
begin

text \<open>
  The fetch of cited pages, from \<^verbatim>\<open>source_fetcher.py\<close>: which addresses may be connected to, one fetch with its
  checks in their order, and a run's fetches under the caps and robots.txt. What the network, the resolver and
  the clock do during one fetch is its \<open>exchange\<close>, an argument; the timing fields of a row are left out.
\<close>

section \<open>Which address may be connected to\<close>

text \<open>What \<^verbatim>\<open>ipaddress\<close> says of an address it can parse.\<close>

record ip_flags =
  fl_global :: bool
  fl_multicast :: bool
  fl_reserved :: bool

datatype ip_kind = IPv4 ip_flags | IPv6_mapped ip_flags | IPv6 bool bool ip_flags

definition address_is_allowed :: "(string \<Rightarrow> ip_kind option) \<Rightarrow> string \<Rightarrow> bool" where
  "address_is_allowed parse address =
     (case parse (before_char CHR ''%'' address) of
        None \<Rightarrow> False
      | Some kind \<Rightarrow>
          (let open_to = (\<lambda>f. fl_global f \<and> \<not> fl_multicast f \<and> \<not> fl_reserved f) in
           case kind of
             IPv4 f \<Rightarrow> open_to f
           | IPv6_mapped f \<Rightarrow> open_to f
           | IPv6 nat64 site_local f \<Rightarrow> \<not> (nat64 \<or> site_local) \<and> open_to f))"

datatype resolution = Resolves "string list" | Resolve_times_out | Resolve_fails

datatype host_class = Pinned string | No_address | Class_times_out

definition classify_host :: "(string \<Rightarrow> ip_kind option) \<Rightarrow> resolution \<Rightarrow> host_class" where
  "classify_host parse r =
     (case r of
        Resolve_times_out \<Rightarrow> Class_times_out
      | Resolve_fails \<Rightarrow> No_address
      | Resolves addresses \<Rightarrow>
          if addresses = [] \<or> \<not> list_all (address_is_allowed parse) addresses then No_address else Pinned (hd addresses))"

section \<open>One exchange\<close>

text \<open>\<open>Breaks late\<close>: an \<^verbatim>\<open>OSError\<close>, \<^verbatim>\<open>HTTPException\<close> or \<^verbatim>\<open>ValueError\<close>, with whether the watchdog had fired or the deadline passed.\<close>

datatype 'a net = Got 'a | Times_out | Breaks bool

record http_response =
  rp_status :: nat
  rp_content_type :: "string option"
  rp_content_length :: "string option"
  rp_content_encoding :: "string option"
  rp_date :: "string option"
  rp_last_modified :: "string option"

record exchange =
  ex_out_of_budget :: bool
  ex_resolution :: resolution
  ex_late_resolved :: bool
  ex_request :: "unit net"
  ex_fired_sent :: bool
  ex_response :: "http_response net"
  ex_fired_answered :: bool
  ex_late_headers :: bool
  ex_reads :: "(bool \<times> string net) list"
  ex_fired_read :: bool
  ex_seconds_left :: rat
  ex_child :: pdf_child

record fetch_env =
  fe_ip_literal :: "string \<Rightarrow> bool"
  fe_parse_ip :: "string \<Rightarrow> ip_kind option"
  fe_exchange :: "nat \<Rightarrow> string \<Rightarrow> exchange"
  fe_late :: "nat \<Rightarrow> bool"
  fe_decode :: "string \<Rightarrow> string \<Rightarrow> string option"
  fe_utf8 :: "string \<Rightarrow> string"
  fe_parse_html :: "string \<Rightarrow> html_event list"
  fe_loads :: "string \<Rightarrow> loads_result"

record fetched_source =
  fs_url :: string
  fs_outcome :: page_outcome
  fs_final_status :: "nat option"
  fs_bytes_read :: nat
  fs_truncated :: bool
  fs_text :: string
  fs_server_date :: "string option"
  fs_last_modified :: "string option"

definition refused_row :: "string \<Rightarrow> page_outcome \<Rightarrow> fetched_source" where
  "refused_row url outcome =
     \<lparr>fs_url = url, fs_outcome = outcome, fs_final_status = None, fs_bytes_read = 0, fs_truncated = False, fs_text = [],
      fs_server_date = None, fs_last_modified = None\<rparr>"

definition answered_row :: "string \<Rightarrow> http_response \<Rightarrow> page_outcome \<Rightarrow> fetched_source" where
  "answered_row url rp outcome =
     (refused_row url outcome)\<lparr>fs_final_status := Some (rp_status rp), fs_server_date := rp_date rp, fs_last_modified := rp_last_modified rp\<rparr>"

record fetch_limits =
  fi_max_bytes :: nat
  fi_max_pdf_bytes :: nat
  fi_max_text_chars :: nat
  fi_raw :: bool
  fi_long_pages :: bool

definition READABLE_CONTENT_TYPES :: "string list" where "READABLE_CONTENT_TYPES = [''text/html'', ''text/plain'']"
definition PDF_CONTENT_TYPE :: string where "PDF_CONTENT_TYPE = ''application/pdf''"
definition PDF_DOWNLOAD_CONTENT_TYPES :: "string list" where
  "PDF_DOWNLOAD_CONTENT_TYPES = [''application/octet-stream'', ''binary/octet-stream'']"
definition PDF_MAGIC :: string where "PDF_MAGIC = ''%PDF-''"
definition READ_CHUNK_BYTES :: nat where "READ_CHUNK_BYTES = 8192"
definition MAX_PAGES_PER_HOST :: nat where "MAX_PAGES_PER_HOST = 4"

section \<open>The body\<close>

datatype body_end = Body string bool bool | Body_stops page_outcome nat

text \<open>Body: what was read, whether it was cut at the cap, whether its start is still unchecked.\<close>

definition take_chunk :: "nat \<Rightarrow> bool \<Rightarrow> string \<Rightarrow> string \<Rightarrow> body_end + (string \<times> bool)" where
  "take_chunk cap start_unchecked got bytes =
     (let chunk = take (min READ_CHUNK_BYTES (cap + 1 - length got)) bytes; all = got @ chunk; head = take (length PDF_MAGIC) all;
          unchecked = (start_unchecked \<and> length head < length PDF_MAGIC) in
      if chunk = [] then Inl (Body got False start_unchecked)
      else if start_unchecked \<and> head \<noteq> take (length head) PDF_MAGIC then Inl (Body_stops REFUSED_CONTENT_TYPE (length all))
      else if length all > cap then Inl (Body (take cap all) True unchecked)
      else Inr (all, unchecked))"

fun read_body :: "nat \<Rightarrow> bool \<Rightarrow> string \<Rightarrow> (bool \<times> string net) list \<Rightarrow> body_end" where
  "read_body cap start_unchecked got [] = Body got False start_unchecked"
| "read_body cap start_unchecked got ((late, r) # rs) =
     (if late then Body_stops TIMEOUT (length got)
      else (case r of
          Times_out \<Rightarrow> Body_stops TIMEOUT (length got)
        | Breaks l \<Rightarrow> Body_stops (if l then TIMEOUT else NETWORK_ERROR) (length got)
        | Got bytes \<Rightarrow> (case take_chunk cap start_unchecked got bytes of
              Inl stop \<Rightarrow> stop
            | Inr (all, unchecked) \<Rightarrow> read_body cap unchecked all rs)))"

text \<open>\<^verbatim>\<open>re.search(r"charset=([\w.:-]+)", params, re.IGNORECASE)\<close>.\<close>

definition is_charset_char :: "char \<Rightarrow> bool" where
  "is_charset_char c = (is_word c \<or> c \<in> {CHR ''.'', CHR '':'', CHR ''-''})"

fun charset_of :: "string \<Rightarrow> string option" where
  "charset_of [] = None"
| "charset_of (c # s) =
     (let value = takeWhile is_charset_char (drop 7 s) in
      if starts_with ''charset='' (lower (c # s)) \<and> value \<noteq> [] then Some value else charset_of s)"

definition decode_body :: "fetch_env \<Rightarrow> string \<Rightarrow> string \<Rightarrow> string" where
  "decode_body fe params body =
     (case fe_decode fe (case charset_of params of None \<Rightarrow> ''utf-8'' | Some c \<Rightarrow> c) body of None \<Rightarrow> fe_utf8 fe body | Some s \<Rightarrow> s)"

definition page_text :: "fetch_env \<Rightarrow> fetch_limits \<Rightarrow> string \<Rightarrow> string \<Rightarrow> string \<times> page_outcome" where
  "page_text fe fi decoded content_type =
     (if fi_raw fi then (decoded, FETCHED)
      else
        let s = (if fi_long_pages fi then reading_text (fe_parse_html fe) decoded content_type (fi_max_text_chars fi)
                 else extract_text (fe_parse_html fe) decoded content_type (fi_max_text_chars fi))
        in if length s \<ge> MIN_USABLE_TEXT_CHARS then (s, FETCHED) else ([], UNUSABLE))"

text \<open>\<^verbatim>\<open>str.isdigit\<close> takes superscripts, which \<^verbatim>\<open>int\<close> refuses with \<^verbatim>\<open>ValueError\<close>.\<close>

definition py_isdigit :: "string \<Rightarrow> bool" where
  "py_isdigit s = (s \<noteq> [] \<and> list_all (\<lambda>c. is_digit c \<or> code c \<in> {178, 179, 185}) s)"

definition read_answer :: "fetch_env \<Rightarrow> fetch_limits \<Rightarrow> string \<Rightarrow> exchange \<Rightarrow> http_response \<Rightarrow> fetched_source" where
  "read_answer fe fi url ex rp =
     (let row = answered_row url rp;
          header = (case rp_content_type rp of None \<Rightarrow> [] | Some s \<Rightarrow> s);
          content_type = lower (strip (before_char CHR '';'' header)); params = after_char CHR '';'' header;
          reading_pages = (fi_long_pages fi \<and> \<not> fi_raw fi);
          start_unchecked = (reading_pages \<and> content_type \<in> set PDF_DOWNLOAD_CONTENT_TYPES);
          is_pdf = (start_unchecked \<or> reading_pages \<and> content_type = PDF_CONTENT_TYPE);
          cap = (if is_pdf then fi_max_pdf_bytes fi else fi_max_bytes fi);
          declared = strip (case rp_content_length rp of None \<Rightarrow> [] | Some s \<Rightarrow> s) in
      if 300 \<le> rp_status rp \<and> rp_status rp < 400 then row REFUSED_REDIRECT
      else if rp_status rp \<ge> 400 then row HTTP_ERROR
      else if content_type \<notin> set READABLE_CONTENT_TYPES \<and> \<not> is_pdf then row REFUSED_CONTENT_TYPE
      else if py_isdigit declared \<and> \<not> is_decimal declared then row (if ex_late_headers ex then TIMEOUT else NETWORK_ERROR)
      else if is_decimal declared \<and> decimal_value declared > cap then row TOO_LARGE
      else (case read_body cap start_unchecked [] (ex_reads ex) of
          Body_stops outcome n \<Rightarrow> (row outcome)\<lparr>fs_bytes_read := n\<rparr>
        | Body body truncated unchecked \<Rightarrow>
            let read_row = (\<lambda>outcome. (row outcome)\<lparr>fs_bytes_read := length body\<rparr>) in
            if ex_fired_read ex then read_row TIMEOUT
            else if unchecked then read_row REFUSED_CONTENT_TYPE
            else if is_pdf \<and> truncated then (read_row TOO_LARGE)\<lparr>fs_truncated := True\<rparr>
            else if lower (strip (case rp_content_encoding rp of None \<Rightarrow> ''identity'' | Some [] \<Rightarrow> ''identity'' | Some s \<Rightarrow> s))
                      \<notin> {[], ''identity''} then read_row UNUSABLE
            else if is_pdf then
              (let (s, outcome) = read_pdf_text (fe_loads fe) (ex_child ex) body (ex_seconds_left ex)
               in (read_row outcome)\<lparr>fs_text := (if outcome = FETCHED then s else [])\<rparr>)
            else
              (let (s, outcome) = page_text fe fi (decode_body fe params body) content_type
               in (read_row outcome)\<lparr>fs_truncated := truncated, fs_text := (if outcome = FETCHED then s else [])\<rparr>)))"

section \<open>One fetch\<close>

text \<open>What a fetch leaves behind: the connections it opened, each a pinned address and the URL requested over it.\<close>

type_synonym connections = "(string \<times> string) list"

text \<open>\<^verbatim>\<open>.port\<close>: \<open>None\<close> when it raises.\<close>

definition url_port :: "split_url \<Rightarrow> nat option option" where
  "url_port su =
     (let info = after_last CHR ''@'' (su_netloc su);
          port = (if CHR ''['' \<in> set info then after_char CHR '':'' (after_char CHR '']'' (after_char CHR ''['' info))
                  else after_char CHR '':'' info)
      in if port = [] then Some None
         else if is_decimal port \<and> decimal_value port \<le> 65535 then Some (Some (decimal_value port)) else None)"

definition fetch_page :: "fetch_env \<Rightarrow> fetch_limits \<Rightarrow> string \<Rightarrow> exchange \<Rightarrow> fetched_source \<times> connections" where
  "fetch_page fe fi url ex =
     (if ex_out_of_budget ex then (refused_row url SKIPPED_CAP, [])
      else (case classify_host (fe_parse_ip fe) (ex_resolution ex) of
          Class_times_out \<Rightarrow> (refused_row url TIMEOUT, [])
        | No_address \<Rightarrow> (refused_row url REFUSED_ADDRESS, [])
        | Pinned address \<Rightarrow>
            if ex_late_resolved ex then (refused_row url TIMEOUT, [])
            else
              let broken = (\<lambda>late. refused_row url (if late then TIMEOUT else NETWORK_ERROR)) in
              ((case ex_request ex of
                  Times_out \<Rightarrow> refused_row url TIMEOUT
                | Breaks late \<Rightarrow> broken late
                | Got _ \<Rightarrow>
                    if ex_fired_sent ex then refused_row url TIMEOUT
                    else (case ex_response ex of
                        Times_out \<Rightarrow> refused_row url TIMEOUT
                      | Breaks late \<Rightarrow> broken late
                      | Got rp \<Rightarrow> if ex_fired_answered ex then refused_row url TIMEOUT else read_answer fe fi url ex rp)),
               [(address, url)])))"

type_synonym robots_memory = "(string \<times> nat option \<times> string option) list"

text \<open>A run's connections, each with what it was for and the number of its exchange.\<close>

datatype request = ROBOTS_REQUEST | PAGE_REQUEST

record fetch_state =
  ft_calls :: nat
  ft_connections :: "(request \<times> nat \<times> string \<times> string) list"
  ft_robots :: robots_memory

definition robots_reading :: "fetched_source \<Rightarrow> nat option \<times> string option" where
  "robots_reading row =
     (if fs_outcome row = FETCHED \<and> \<not> fs_truncated row then (fs_final_status row, Some (fs_text row))
      else (if fs_outcome row \<in> {HTTP_ERROR, REFUSED_REDIRECT} then fs_final_status row else None, None))"

definition forbidden_in_a_url :: "char \<Rightarrow> bool" where "forbidden_in_a_url c = (code c \<le> 32 \<or> code c = 127)"

text \<open>The checks before anything is resolved: the origin, or the row that refuses.\<close>

definition url_checked :: "fetch_env \<Rightarrow> string \<Rightarrow> fetched_source + string" where
  "url_checked fe url =
     (if list_ex forbidden_in_a_url url then Inl (refused_row url REFUSED_SCHEME)
      else (case urlsplit (fe_ip_literal fe) url of
          None \<Rightarrow> Inl (refused_row url REFUSED_SCHEME)
        | Some su \<Rightarrow>
            if url_port su = None then Inl (refused_row url REFUSED_SCHEME)
            else if su_scheme su \<notin> {''http'', ''https''} then Inl (refused_row url REFUSED_SCHEME)
            else if url_hostname su = [] \<or> has_userinfo su then Inl (refused_row url REFUSED_HOST)
            else Inr (su_scheme su @ ''://'' @ lower (su_netloc su))))"

definition count_fetch :: "request \<Rightarrow> fetch_state \<Rightarrow> fetched_source \<times> connections \<Rightarrow> fetched_source \<times> fetch_state" where
  "count_fetch kind ft r =
     (fst r, ft\<lparr>ft_calls := ft_calls ft + 1,
                ft_connections := ft_connections ft @ map (\<lambda>(address, url). (kind, ft_calls ft, address, url)) (snd r)\<rparr>)"

text \<open>\<^verbatim>\<open>_fetch_one\<close> without \<^verbatim>\<open>robots_permit\<close>, the way robots.txt itself is read.\<close>

definition fetch_unasked :: "fetch_env \<Rightarrow> fetch_limits \<Rightarrow> string \<Rightarrow> fetch_state \<Rightarrow> fetched_source \<times> fetch_state" where
  "fetch_unasked fe fi url ft =
     (case url_checked fe url of
        Inl row \<Rightarrow> (row, ft)
      | Inr origin \<Rightarrow> count_fetch ROBOTS_REQUEST ft (fetch_page fe fi url (fe_exchange fe (ft_calls ft) url)))"

definition permit :: "fetch_env \<Rightarrow> fetch_limits \<Rightarrow> string \<Rightarrow> string \<Rightarrow> fetch_state \<Rightarrow> robots_verdict \<times> fetch_state" where
  "permit fe fi origin url ft =
     (let ft = (case map_of (ft_robots ft) origin of
           Some _ \<Rightarrow> ft
         | None \<Rightarrow>
             (let (row, ft) = fetch_unasked fe (fi\<lparr>fi_raw := True, fi_long_pages := False\<rparr>) (origin @ ''/robots.txt'') ft
              in ft\<lparr>ft_robots := (origin, robots_reading row) # ft_robots ft\<rparr>))
      in (case map_of (ft_robots ft) origin of
            None \<Rightarrow> (UNCHECKED, ft)
          | Some (status, body) \<Rightarrow> (robots_verdict_on status body url USER_AGENT, ft)))"

definition fetch_one :: "fetch_env \<Rightarrow> fetch_limits \<Rightarrow> bool \<Rightarrow> string \<Rightarrow> fetch_state \<Rightarrow> fetched_source \<times> fetch_state" where
  "fetch_one fe fi respect_robots url ft =
     (case url_checked fe url of
        Inl row \<Rightarrow> (row, ft)
      | Inr origin \<Rightarrow>
          let (verdict, ft) = (if respect_robots then permit fe fi origin url ft else (ALLOWED, ft)) in
          (case verdict of
             REFUSED \<Rightarrow> (refused_row url REFUSED_ROBOTS, ft)
           | UNCHECKED \<Rightarrow> (refused_row url ROBOTS_UNCHECKED, ft)
           | ALLOWED \<Rightarrow> count_fetch PAGE_REQUEST ft (fetch_page fe fi url (fe_exchange fe (ft_calls ft) url))))"

section \<open>A run's cited pages\<close>

definition page_host :: "fetch_env \<Rightarrow> string \<Rightarrow> string" where
  "page_host fe url =
     (case urlsplit (fe_ip_literal fe) url of None \<Rightarrow> [] | Some su \<Rightarrow> lower (rstrip_chars ''.'' (url_hostname su)))"

text \<open>\<open>hosts\<close> holds the host of every page attempted so far, \<open>fe_late\<close> whether the budget is over before a page.\<close>

fun fetch_pages ::
  "fetch_env \<Rightarrow> fetch_limits \<Rightarrow> nat \<Rightarrow> bool \<Rightarrow> string list \<Rightarrow> string list \<Rightarrow> string list \<Rightarrow> fetch_state \<Rightarrow> fetched_source list \<times> fetch_state" where
  "fetch_pages fe fi max_pages respect_robots seen hosts [] ft = ([], ft)"
| "fetch_pages fe fi max_pages respect_robots seen hosts (raw # urls) ft =
     (let url = canonical_address raw; host = page_host fe url in
      if url = [] \<or> url \<in> set seen then fetch_pages fe fi max_pages respect_robots seen hosts urls ft
      else if length hosts \<ge> max_pages \<or> fe_late fe (length seen) \<or> count_list hosts host \<ge> MAX_PAGES_PER_HOST
      then (let (rows, ft) = fetch_pages fe fi max_pages respect_robots (url # seen) hosts urls ft in (refused_row url SKIPPED_CAP # rows, ft))
      else
        let (row, ft) = fetch_one fe fi respect_robots url ft;
            (rows, ft) = fetch_pages fe fi max_pages respect_robots (url # seen) (host # hosts) urls ft
        in (row # rows, ft))"

definition fetch_cited_pages :: "fetch_env \<Rightarrow> fetch_limits \<Rightarrow> nat \<Rightarrow> bool \<Rightarrow> string list \<Rightarrow> fetched_source list \<times> fetch_state" where
  "fetch_cited_pages fe fi max_pages respect_robots urls =
     fetch_pages fe fi max_pages respect_robots [] [] urls \<lparr>ft_calls = 0, ft_connections = [], ft_robots = []\<rparr>"

section \<open>What may be connected to\<close>

text \<open>What the exchange numbered \<open>n\<close> answers for the robots.txt of an origin.\<close>

definition robots_answer :: "fetch_env \<Rightarrow> fetch_limits \<Rightarrow> string \<Rightarrow> nat \<Rightarrow> fetched_source" where
  "robots_answer fe fi origin n =
     fst (fetch_page fe (fi\<lparr>fi_raw := True, fi_long_pages := False\<rparr>) (origin @ ''/robots.txt'') (fe_exchange fe n (origin @ ''/robots.txt'')))"

text \<open>When an answer lets a page be fetched: the origin has no robots.txt (a 4xx), or one was read whole and no disallow rule is
  the most specific for the page.\<close>

definition robots_grant :: "fetched_source \<Rightarrow> string \<Rightarrow> bool" where
  "robots_grant row url =
     ((\<exists>n. fs_final_status row = Some n \<and> 400 \<le> n \<and> n < 500 \<and> fs_outcome row = HTTP_ERROR)
      \<or> (\<exists>n rules. fs_final_status row = Some n \<and> 200 \<le> n \<and> n < 300 \<and> fs_outcome row = FETCHED \<and> \<not> fs_truncated row
           \<and> robots_rules (fs_text row) (lower (strip (before_char CHR ''/'' USER_AGENT))) = Some rules
           \<and> \<not> (\<exists>p. (False, p) \<in> set rules \<and> robots_pattern_matches p (robots_target url)
                 \<and> (\<forall>q. (True, q) \<in> set rules \<and> robots_pattern_matches q (robots_target url) \<longrightarrow> length q < length p))))"

definition memory_ok :: "fetch_env \<Rightarrow> fetch_limits \<Rightarrow> fetch_state \<Rightarrow> bool" where
  "memory_ok fe fi ft =
     (\<forall>(origin, m) \<in> set (ft_robots ft). m = (None, None) \<or> (\<exists>n < ft_calls ft. m = robots_reading (robots_answer fe fi origin n)))"

definition connection_ok :: "fetch_env \<Rightarrow> fetch_limits \<Rightarrow> string set \<Rightarrow> request \<times> nat \<times> string \<times> string \<Rightarrow> bool" where
  "connection_ok fe fi pages x =
     (case x of (kind, k, address, url) \<Rightarrow>
        address_is_allowed (fe_parse_ip fe) address \<and> \<not> isl (url_checked fe url)
        \<and> (\<exists>page \<in> pages. \<exists>origin. url_checked fe page = Inr origin
             \<and> (case kind of
                  ROBOTS_REQUEST \<Rightarrow> url = origin @ ''/robots.txt''
                | PAGE_REQUEST \<Rightarrow> url = page \<and> (\<exists>n < k. robots_grant (robots_answer fe fi origin n) page))))"

definition fetch_ok :: "fetch_env \<Rightarrow> fetch_limits \<Rightarrow> string set \<Rightarrow> fetch_state \<Rightarrow> bool" where
  "fetch_ok fe fi pages ft =
     (memory_ok fe fi ft \<and> (\<forall>x \<in> set (ft_connections ft). connection_ok fe fi pages x))"

lemma page_connection:
  "(address, u) \<in> set (snd (fetch_page fe fi url ex)) \<Longrightarrow> u = url \<and> address_is_allowed (fe_parse_ip fe) address"
proof -
  assume a: "(address, u) \<in> set (snd (fetch_page fe fi url ex))"
  then obtain p where p: "classify_host (fe_parse_ip fe) (ex_resolution ex) = Pinned p" "u = url" "address = p"
    by (cases "classify_host (fe_parse_ip fe) (ex_resolution ex)") (auto simp: fetch_page_def Let_def split: if_splits)
  then show ?thesis
    by (cases "ex_resolution ex") (auto simp: classify_host_def list_all_iff neq_Nil_conv split: if_splits)
qed

lemma read_body_stops: "read_body cap u got rs = Body_stops oc n \<Longrightarrow> oc \<in> {TIMEOUT, NETWORK_ERROR, REFUSED_CONTENT_TYPE}"
proof (induction cap u got rs rule: read_body.induct)
  case (2 cap u got late r rs)
  have chunk: "take_chunk cap u got bytes = Inl (Body_stops oc n) \<Longrightarrow> oc = REFUSED_CONTENT_TYPE" for bytes
    unfolding take_chunk_def Let_def by (simp split: if_splits)
  show ?case
  proof (cases "late \<or> r = Times_out \<or> (\<exists>l. r = Breaks l)")
    case True
    then show ?thesis using "2.prems" by (auto split: if_splits)
  next
    case False
    then obtain bytes where r: "r = Got bytes" by (cases r) auto
    show ?thesis
    proof (cases "take_chunk cap u got bytes")
      case (Inl stop)
      then show ?thesis using "2.prems" False r chunk[of bytes] by simp
    next
      case (Inr m)
      obtain got' u' where m: "m = (got', u')" by force
      have "read_body cap u' got' rs = Body_stops oc n" using "2.prems" False r Inr m by simp
      from "2.IH"[OF _ r Inr m[symmetric] this] False show ?thesis by blast
    qed
  qed
qed simp

text \<open>What the outcome of a raw read says of its status.\<close>

definition status_told :: "fetched_source \<Rightarrow> bool" where
  "status_told row =
     ((fs_outcome row = HTTP_ERROR \<longrightarrow> (\<exists>n. fs_final_status row = Some n \<and> 400 \<le> n))
      \<and> (fs_outcome row = REFUSED_REDIRECT \<longrightarrow> (\<exists>n. fs_final_status row = Some n \<and> 300 \<le> n \<and> n < 400))
      \<and> (fs_outcome row = FETCHED \<longrightarrow> (\<exists>n. fs_final_status row = Some n \<and> n < 300)))"

lemma read_answer_told: "fi_raw fi \<Longrightarrow> status_told (read_answer fe fi url ex rp)"
proof -
  assume raw: "fi_raw fi"
  have text_end: "snd (page_text fe fi x y) = FETCHED" for x y using raw by (simp add: page_text_def)
  show ?thesis
  proof (cases "read_body (fi_max_bytes fi) False [] (ex_reads ex)")
    case (Body_stops oc n)
    then have "oc \<in> {TIMEOUT, NETWORK_ERROR, REFUSED_CONTENT_TYPE}" using read_body_stops by blast
    then show ?thesis using raw Body_stops
      by (auto simp: read_answer_def status_told_def answered_row_def refused_row_def Let_def)
  next
    case (Body body cut left)
    then show ?thesis using raw
      by (auto simp: read_answer_def status_told_def answered_row_def refused_row_def Let_def case_prod_unfold text_end)
  qed
qed

lemma robots_answer_told: "status_told (robots_answer fe fi origin n)"
proof -
  have r: "status_told (refused_row url oc)" if "oc \<notin> {HTTP_ERROR, REFUSED_REDIRECT, FETCHED}" for url oc
    using that by (auto simp: status_told_def refused_row_def)
  show ?thesis unfolding robots_answer_def fetch_page_def Let_def
    by (auto simp: r read_answer_told split: host_class.split net.split)
qed

lemma allowed_is_granted:
  assumes "robots_reading row = (status, body)" and "robots_verdict_on status body url USER_AGENT = ALLOWED" and "status_told row"
  shows "robots_grant row url"
proof -
  obtain n where n: "status = Some n" using assms(2) by (cases status) (auto simp: robots_verdict_on_def Let_def)
  have row: "fs_final_status row = Some n" "fs_outcome row \<in> {HTTP_ERROR, REFUSED_REDIRECT, FETCHED}"
    "fs_outcome row = FETCHED \<longrightarrow> body = Some (fs_text row) \<and> \<not> fs_truncated row"
    using assms(1) n by (auto simp: robots_reading_def split: if_splits)
  have v: "robots_verdict_on (Some n) body url USER_AGENT = ALLOWED" using assms(2) n by simp
  then have two: "400 \<le> n \<and> n < 500 \<or> 200 \<le> n \<and> n < 300" and short: "length (robots_target url) \<le> ROBOTS_MAX_ADDRESS_CHARS"
    by (auto simp: robots_verdict_on_def Let_def split: if_splits)
  show ?thesis
  proof (cases "400 \<le> n \<and> n < 500")
    case True
    then have "fs_outcome row = HTTP_ERROR" using row assms(3) by (auto simp: status_told_def)
    then show ?thesis unfolding robots_grant_def using row(1) True by blast
  next
    case False
    then have n2: "200 \<le> n" "n < 300" using two by auto
    then have out: "fs_outcome row = FETCHED" using row assms(3) by (auto simp: status_told_def)
    obtain rules where rules: "robots_rules (fs_text row) (lower (strip (before_char CHR ''/'' USER_AGENT))) = Some rules"
      using v n2 short row(3) out
      by (cases "robots_rules (fs_text row) (lower (strip (before_char CHR ''/'' USER_AGENT)))") (auto simp: robots_verdict_on_def Let_def)
    have "\<not> (\<exists>p. (False, p) \<in> set rules \<and> robots_pattern_matches p (robots_target url)
        \<and> (\<forall>q. (True, q) \<in> set rules \<and> robots_pattern_matches q (robots_target url) \<longrightarrow> length q < length p))"
      using v row(3) out specific_rule_decides[OF rules n2 short] by (auto split: if_splits)
    then show ?thesis unfolding robots_grant_def using row(1,3) out n2 rules by blast
  qed
qed

lemma fetch_ok_calls: "fetch_ok fe fi pages ft \<Longrightarrow> fetch_ok fe fi pages (ft\<lparr>ft_calls := Suc (ft_calls ft)\<rparr>)"
  unfolding fetch_ok_def memory_ok_def by (simp add: less_Suc_eq) blast

lemma count_fetch_ok:
  assumes "fetch_ok fe fi pages ft"
    and "\<And>address. address_is_allowed (fe_parse_ip fe) address \<Longrightarrow> connection_ok fe fi pages (kind, ft_calls ft, address, url)"
  shows "fetch_ok fe fi pages (snd (count_fetch kind ft (fetch_page fe fi' url ex)))"
proof -
  have "fetch_ok fe fi pages (ft\<lparr>ft_calls := Suc (ft_calls ft)\<rparr>)" by (rule fetch_ok_calls[OF assms(1)])
  moreover have "connection_ok fe fi pages (kind, ft_calls ft, address, u)" if "(address, u) \<in> set (snd (fetch_page fe fi' url ex))" for address u
    using page_connection[OF that] assms(2) by simp
  ultimately show ?thesis by (auto simp: fetch_ok_def memory_ok_def count_fetch_def)
qed

lemma permit_ok:
  assumes ok: "fetch_ok fe fi pages ft" and page: "url \<in> pages" "url_checked fe url = Inr origin"
    and p: "permit fe fi origin url ft = (v, ft')"
  shows "fetch_ok fe fi pages ft' \<and> (v = ALLOWED \<longrightarrow> (\<exists>n < ft_calls ft'. robots_grant (robots_answer fe fi origin n) url))"
proof -
  let ?u = "origin @ ''/robots.txt''" and ?fi = "fi\<lparr>fi_raw := True, fi_long_pages := False\<rparr>"
  have granted: "\<exists>n < ft_calls ft. robots_grant (robots_answer fe fi origin n) url"
    if mem: "memory_ok fe fi ft" and held: "map_of (ft_robots ft) origin = Some m"
      and yes: "robots_verdict_on (fst m) (snd m) url USER_AGENT = ALLOWED" for ft m
  proof -
    have "m \<noteq> (None, None)" using yes by (auto simp: robots_verdict_on_def Let_def)
    then obtain n where n: "n < ft_calls ft" "m = robots_reading (robots_answer fe fi origin n)"
      using mem map_of_SomeD[OF held] by (auto simp: memory_ok_def)
    have "robots_grant (robots_answer fe fi origin n) url"
      by (rule allowed_is_granted[OF _ yes robots_answer_told]) (simp add: n(2)[symmetric])
    then show ?thesis using n(1) by blast
  qed
  show ?thesis
  proof (cases "map_of (ft_robots ft) origin")
    case (Some m)
    then have "ft' = ft" "v = robots_verdict_on (fst m) (snd m) url USER_AGENT" using p by (auto simp: permit_def case_prod_unfold)
    then show ?thesis using ok granted[OF _ Some] by (auto simp: fetch_ok_def)
  next
    case None
    obtain row ft1 where r: "fetch_unasked fe ?fi ?u ft = (row, ft1)" by force
    have one: "fetch_ok fe fi pages ft1 \<and> (robots_reading row = (None, None) \<or> (\<exists>n < ft_calls ft1. row = robots_answer fe fi origin n))"
    proof (cases "url_checked fe ?u")
      case (Inl refused)
      then have "ft1 = ft" "row = refused" using r by (simp_all add: fetch_unasked_def)
      moreover have "robots_reading refused = (None, None)"
        using Inl by (auto simp: url_checked_def robots_reading_def refused_row_def split: if_splits option.splits)
      ultimately show ?thesis using ok by simp
    next
      case (Inr o2)
      then have "connection_ok fe fi pages (ROBOTS_REQUEST, ft_calls ft, address, ?u)" if "address_is_allowed (fe_parse_ip fe) address" for address
        using that page by (auto simp: connection_ok_def)
      from count_fetch_ok[OF ok this, of ?fi "fe_exchange fe (ft_calls ft) ?u"]
      have "fetch_ok fe fi pages ft1" using r Inr by (simp add: fetch_unasked_def)
      moreover have "row = robots_answer fe fi origin (ft_calls ft)" "ft_calls ft < ft_calls ft1"
        using r Inr by (auto simp: fetch_unasked_def robots_answer_def count_fetch_def)
      ultimately show ?thesis by blast
    qed
    let ?ft2 = "ft1\<lparr>ft_robots := (origin, robots_reading row) # ft_robots ft1\<rparr>"
    have "fetch_ok fe fi pages ?ft2" using one by (fastforce simp: fetch_ok_def memory_ok_def)
    moreover have "ft' = ?ft2" "v = robots_verdict_on (fst (robots_reading row)) (snd (robots_reading row)) url USER_AGENT"
      using p None r by (auto simp: permit_def case_prod_unfold)
    ultimately show ?thesis using granted[of ?ft2 "robots_reading row"] by (auto simp: fetch_ok_def)
  qed
qed

lemma fetch_one_ok: "fetch_ok fe fi pages ft \<Longrightarrow> url \<in> pages \<Longrightarrow> fetch_ok fe fi pages (snd (fetch_one fe fi True url ft))"
proof (cases "url_checked fe url")
  case (Inr origin)
  assume ok: "fetch_ok fe fi pages ft" and page: "url \<in> pages"
  obtain v ft' where p: "permit fe fi origin url ft = (v, ft')" by force
  note q = permit_ok[OF ok page Inr p]
  show ?thesis
  proof (cases "v = ALLOWED")
    case True
    have "connection_ok fe fi pages (PAGE_REQUEST, ft_calls ft', address, url)" if "address_is_allowed (fe_parse_ip fe) address" for address
      using that True q page Inr by (auto simp: connection_ok_def)
    then show ?thesis using p True Inr q count_fetch_ok[of fe fi pages ft' PAGE_REQUEST url] by (simp add: fetch_one_def)
  next
    case False
    then show ?thesis using p q Inr by (cases v) (simp_all add: fetch_one_def)
  qed
qed (simp add: fetch_one_def)

lemma fetch_pages_ok:
  "fetch_ok fe fi pages ft \<Longrightarrow> canonical_address ` set urls \<subseteq> pages \<Longrightarrow>
   fetch_ok fe fi pages (snd (fetch_pages fe fi n True seen hosts urls ft))"
proof (induction urls arbitrary: seen hosts ft)
  case (Cons u us)
  let ?u = "canonical_address u"
  have one: "fetch_ok fe fi pages (snd (fetch_one fe fi True ?u ft))" by (rule fetch_one_ok[OF Cons.prems(1)]) (use Cons.prems(2) in simp)
  show ?case using Cons.IH[OF Cons.prems(1)] Cons.IH[OF one] Cons.prems(2) by (simp add: Let_def case_prod_unfold)
qed simp

text \<open>C32. No citation reaches inside the network or past robots.txt. Every connection a run's page fetch opens is to an address
  the policy allows, pinned before connecting, for a plain http(s) URL. It is either the request for the robots.txt of a cited
  page's origin, or the request for that page itself, and then an earlier exchange of the run read that robots.txt and its answer
  lets the page be fetched: there is none (a 4xx), or it was read whole and no disallow rule is the most specific for the page.
  A robots.txt that timed out, failed, redirected, was cut or broke lets nothing be fetched.\<close>

theorem connections_are_permitted:
  assumes "(kind, k, address, url) \<in> set (ft_connections (snd (fetch_cited_pages fe fi max_pages True urls)))"
  shows "address_is_allowed (fe_parse_ip fe) address \<and> \<not> isl (url_checked fe url)
    \<and> (\<exists>page \<in> canonical_address ` set urls. \<exists>origin. url_checked fe page = Inr origin
         \<and> (case kind of
              ROBOTS_REQUEST \<Rightarrow> url = origin @ ''/robots.txt''
            | PAGE_REQUEST \<Rightarrow> url = page \<and> (\<exists>n < k. robots_grant (robots_answer fe fi origin n) page)))"
proof -
  have "fetch_ok fe fi (canonical_address ` set urls) \<lparr>ft_calls = 0, ft_connections = [], ft_robots = []\<rparr>"
    by (simp add: fetch_ok_def memory_ok_def)
  from fetch_pages_ok[OF this order_refl, of max_pages "[]" "[]"] assms
  have "connection_ok fe fi (canonical_address ` set urls) (kind, k, address, url)"
    unfolding fetch_ok_def fetch_cited_pages_def by blast
  then show ?thesis by (simp add: connection_ok_def)
qed

section \<open>The caps\<close>

lemma url_of:
  "(P \<Longrightarrow> fs_url a = u) \<Longrightarrow> (\<not> P \<Longrightarrow> fs_url b = u) \<Longrightarrow> fs_url (if P then a else b) = u"
  "(\<And>x. x = t \<Longrightarrow> fs_url (f x) = u) \<Longrightarrow> fs_url (Let t f) = u"
  "(\<And>x y. fs_url (g x y) = u) \<Longrightarrow> fs_url (case p of (x, y) \<Rightarrow> g x y) = u"
  "(\<And>s b c. fs_url (f1 s b c) = u) \<Longrightarrow> (\<And>oc n. fs_url (f2 oc n) = u) \<Longrightarrow> fs_url (case e of Body s b c \<Rightarrow> f1 s b c | Body_stops oc n \<Rightarrow> f2 oc n) = u"
  by (simp_all add: Let_def split: prod.split body_end.split)

lemma fetch_one_url: "fs_url (fst (fetch_one fe fi respect url ft)) = url"
proof -
  have ra: "fs_url (refused_row u oc) = u" "fs_url (answered_row u rp oc) = u" for u rp oc
    by (simp_all add: refused_row_def answered_row_def)
  have read: "fs_url (read_answer fe fi url ex rp) = url" for ex rp
    unfolding read_answer_def by (intro url_of) (simp_all add: ra)
  have page: "fs_url (fst (fetch_page fe fi url ex)) = url" for ex
    by (simp add: fetch_page_def ra read Let_def split: host_class.split net.split)
  have "fs_url row = url" if "url_checked fe url = Inl row" for row
    using that by (auto simp: url_checked_def ra split: if_splits option.splits)
  then show ?thesis
    by (auto simp: fetch_one_def ra count_fetch_def page case_prod_unfold Let_def split: sum.split robots_verdict.split)
qed

definition counted :: "fetched_source list \<Rightarrow> fetched_source list" where
  "counted = filter (\<lambda>r. fs_outcome r \<noteq> SKIPPED_CAP)"

fun new_addresses :: "string list \<Rightarrow> string list \<Rightarrow> string list" where
  "new_addresses seen [] = []"
| "new_addresses seen (raw # urls) =
     (if canonical_address raw = [] \<or> canonical_address raw \<in> set seen then new_addresses seen urls
      else canonical_address raw # new_addresses (canonical_address raw # seen) urls)"

lemma fetch_pages_caps:
  "map fs_url (fst (fetch_pages fe fi n respect seen hosts urls ft)) = new_addresses seen urls
   \<and> length (counted (fst (fetch_pages fe fi n respect seen hosts urls ft))) \<le> n - length hosts
   \<and> length (filter (\<lambda>r. page_host fe (fs_url r) = h) (counted (fst (fetch_pages fe fi n respect seen hosts urls ft))))
       \<le> MAX_PAGES_PER_HOST - count_list hosts h"
proof (induction urls arbitrary: seen hosts ft)
  case Nil
  then show ?case by (simp add: counted_def)
next
  case (Cons u us)
  let ?u = "canonical_address u"
  consider (dup) "?u = [] \<or> ?u \<in> set seen"
    | (skip) "\<not> (?u = [] \<or> ?u \<in> set seen)" "length hosts \<ge> n \<or> fe_late fe (length seen) \<or> count_list hosts (page_host fe ?u) \<ge> MAX_PAGES_PER_HOST"
    | (go) "\<not> (?u = [] \<or> ?u \<in> set seen)" "\<not> (length hosts \<ge> n \<or> fe_late fe (length seen) \<or> count_list hosts (page_host fe ?u) \<ge> MAX_PAGES_PER_HOST)"
    by blast
  then show ?case
  proof cases
    case dup
    then show ?thesis using Cons.IH[of seen hosts ft] by (simp add: Let_def)
  next
    case skip
    then show ?thesis using Cons.IH[of "?u # seen" hosts ft]
      by (simp add: Let_def case_prod_unfold counted_def refused_row_def)
  next
    case go
    let ?r = "fetch_one fe fi respect ?u ft"
    have e: "fst (fetch_pages fe fi n respect seen hosts (u # us) ft) =
        fst ?r # fst (fetch_pages fe fi n respect (?u # seen) (page_host fe ?u # hosts) us (snd ?r))"
      using go by (simp add: Let_def case_prod_unfold)
    show ?thesis unfolding e using go Cons.IH[of "?u # seen" "page_host fe ?u # hosts" "snd ?r"]
      by (auto simp: counted_def fetch_one_url)
  qed
qed

text \<open>One row per distinct cited address, in the order cited, and the caps hold: at most \<open>max_pages\<close> pages of a run are
  attempted, and at most four of any one host.\<close>

theorem fetches_are_capped:
  "let rows = fst (fetch_cited_pages fe fi max_pages respect urls) in
    map fs_url rows = new_addresses [] urls
    \<and> length (filter (\<lambda>r. fs_outcome r \<noteq> SKIPPED_CAP) rows) \<le> max_pages
    \<and> length (filter (\<lambda>r. page_host fe (fs_url r) = h) (filter (\<lambda>r. fs_outcome r \<noteq> SKIPPED_CAP) rows)) \<le> 4"
  using fetch_pages_caps[of fe fi max_pages respect "[]" "[]" urls "\<lparr>ft_calls = 0, ft_connections = [], ft_robots = []\<rparr>" h]
  unfolding fetch_cited_pages_def counted_def Let_def MAX_PAGES_PER_HOST_def by (simp del: filter_filter)

definition sample_response :: http_response where
  "sample_response = \<lparr>rp_status = 404, rp_content_type = None, rp_content_length = None, rp_content_encoding = None, rp_date = None, rp_last_modified = None\<rparr>"

definition sample_exchange :: exchange where
  "sample_exchange = \<lparr>ex_out_of_budget = False, ex_resolution = Resolves [''9.9.9.9''], ex_late_resolved = False, ex_request = Got (),
     ex_fired_sent = False, ex_response = Got sample_response, ex_fired_answered = False, ex_late_headers = False, ex_reads = [], ex_fired_read = False,
     ex_seconds_left = 1, ex_child = \<lparr>ch_starts = False, ch_raises = False, ch_slot_free = True, ch_rounds = [], ch_exited = None,
       ch_wait_expires = False, ch_cpu_killed = False, ch_returns_zero = False\<rparr>\<rparr>"

definition sample_fetch :: fetch_env where
  "sample_fetch = \<lparr>fe_ip_literal = \<lambda>x. False, fe_parse_ip = \<lambda>x. Some (IPv4 \<lparr>fl_global = True, fl_multicast = False, fl_reserved = False\<rparr>),
     fe_exchange = \<lambda>n url. sample_exchange, fe_late = \<lambda>n. False, fe_decode = \<lambda>c s. Some s, fe_utf8 = \<lambda>s. s, fe_parse_html = \<lambda>s. [],
     fe_loads = \<lambda>s. Bad_json\<rparr>"

definition sample_limits :: fetch_limits where
  "sample_limits = \<lparr>fi_max_bytes = 1000, fi_max_pdf_bytes = 1000, fi_max_text_chars = 1000, fi_raw = False, fi_long_pages = True\<rparr>"

lemma sample_connections:
  "ft_connections (snd (fetch_cited_pages sample_fetch sample_limits 8 True [''https://X.test/a#b''])) =
    [(ROBOTS_REQUEST, 0, ''9.9.9.9'', ''https://x.test/robots.txt''), (PAGE_REQUEST, 1, ''9.9.9.9'', ''https://x.test/a'')]"
  by code_simp

lemma connections_are_permitted_witness:
  "\<exists>origin. url_checked sample_fetch ''https://x.test/a'' = Inr origin
     \<and> robots_grant (robots_answer sample_fetch sample_limits origin 0) ''https://x.test/a''"
  using connections_are_permitted[of PAGE_REQUEST 1 "''9.9.9.9''" "''https://x.test/a''" sample_fetch sample_limits 8 "[''https://X.test/a#b'']"]
  unfolding sample_connections by auto

end
