(* ===== verification/Completion_Stream.thy ===== *)
theory Completion_Stream
  imports Sources
begin

text \<open>
  How \<^verbatim>\<open>providers.py\<close> reads the body of a completion: the chunks of \<open>_iter_body_within_budget\<close> under one deadline,
  the server-sent events of \<open>_iter_sse_data\<close>, and their fold into one payload by \<open>_reassemble_streamed_completion\<close>.
  Bytes are the characters of a \<open>string\<close>. \<^verbatim>\<open>bytes.decode\<close> (\<open>None\<close>: it raises) and \<^verbatim>\<open>json.loads\<close> are parameters.
  A generator that raises after yielding is a list with the mark \<open>True\<close>. Where an annotation was seen is
  telemetry and left out.
\<close>

section \<open>Chunks under a deadline\<close>

text \<open>One \<open>recv\<close>: the seconds since the deadline was set when it starts, and what it gives.\<close>

datatype recv = Bytes string | Not_bytes | Recv_raises

fun iter_body :: "rat \<Rightarrow> bool \<Rightarrow> bool \<Rightarrow> bool \<Rightarrow> (rat \<times> recv) list \<Rightarrow> string list \<times> bool" where
  "iter_body budget short read1 received [] = ([], True)"
| "iter_body budget short read1 received ((elapsed, r) # rs) =
     (if budget - elapsed \<le> 0 then ([], True)
      else (case r of
          Recv_raises \<Rightarrow> ([], True)
        | Not_bytes \<Rightarrow> if read1 \<and> \<not> received then iter_body budget short False received rs else ([], True)
        | Bytes b \<Rightarrow>
            if b = [] then ([], short)
            else if \<not> read1 then ([b], False)
            else (let (bs, raised) = iter_body budget short read1 True rs in (b # bs, raised))))"

section \<open>Server-sent events\<close>

definition SSE_DATA_FIELD :: string where "SSE_DATA_FIELD = ''data:''"
definition SSE_DONE_SENTINEL :: string where "SSE_DONE_SENTINEL = ''[DONE]''"
definition SSE_IGNORED_FIELDS :: "string list" where "SSE_IGNORED_FIELDS = [''event:'', ''id:'', ''retry:'']"
definition SSE_BOM :: string where "SSE_BOM = [CHR 0xEF, CHR 0xBB, CHR 0xBF]"

datatype sse_event = Data string | UNRECOGNISED_LINE
datatype data_line = Value string | Unrecognised | Ignored | Undecodable

definition rstrip_cr :: "string \<Rightarrow> string" where "rstrip_cr = rstrip_chars [CHR 0x0D]"

definition data_value :: "(string \<Rightarrow> string option) \<Rightarrow> string \<Rightarrow> data_line" where
  "data_value decode raw_line =
     (case decode (rstrip_cr raw_line) of
        None \<Rightarrow> Undecodable
      | Some line \<Rightarrow>
          if starts_with '':'' line \<or> list_ex (\<lambda>f. starts_with f line) SSE_IGNORED_FIELDS then Ignored
          else if \<not> starts_with SSE_DATA_FIELD line then Unrecognised
          else (let v = drop (length SSE_DATA_FIELD) line in Value (if starts_with '' '' v then drop 1 v else v)))"

definition dispatch :: "string list \<Rightarrow> sse_event list" where
  "dispatch pending = (if pending = [] then [] else [Data (join NEWLINE pending)])"

record sse_state =
  sse_buffer :: string
  sse_pending :: "string list"
  sse_raised :: bool

definition at_newline :: char where "at_newline = CHR 0x0A"

lemma after_char_length: "c \<in> set s \<Longrightarrow> length (after_char c s) < length s"
proof -
  assume "c \<in> set s"
  then have "dropWhile (\<lambda>x. x \<noteq> c) s \<noteq> []" by (auto simp: dropWhile_eq_Nil_conv)
  then have "length (after_char c s) < length (dropWhile (\<lambda>x. x \<noteq> c) s)"
    by (simp add: after_char_def)
  then show ?thesis using length_dropWhile_le[of "\<lambda>x. x \<noteq> c" s] by linarith
qed

text \<open>The inner \<^verbatim>\<open>while\<close>: every complete line of the buffer.\<close>

function sse_lines :: "(string \<Rightarrow> string option) \<Rightarrow> string \<Rightarrow> string list \<Rightarrow> sse_event list \<times> sse_state" where
  "sse_lines decode buffer pending =
     (if at_newline \<notin> set buffer then ([], \<lparr>sse_buffer = buffer, sse_pending = pending, sse_raised = False\<rparr>)
      else
        let raw_line = before_char at_newline buffer; rest = after_char at_newline buffer in
        if rstrip_cr raw_line = [] then
          (let (es, st) = sse_lines decode rest [] in (dispatch pending @ es, st))
        else (case data_value decode raw_line of
            Undecodable \<Rightarrow> ([], \<lparr>sse_buffer = rest, sse_pending = pending, sse_raised = True\<rparr>)
          | Unrecognised \<Rightarrow> (let (es, st) = sse_lines decode rest pending in (UNRECOGNISED_LINE # es, st))
          | Ignored \<Rightarrow> sse_lines decode rest pending
          | Value v \<Rightarrow> sse_lines decode rest (pending @ [v])))"
  by pat_completeness auto

termination by (relation "measure (\<lambda>(d, b, p). length b)") (auto intro: after_char_length)

declare sse_lines.simps [simp del]

text \<open>What is left when the chunks end.\<close>

definition sse_finish :: "(string \<Rightarrow> string option) \<Rightarrow> string \<Rightarrow> string list \<Rightarrow> sse_event list \<times> bool" where
  "sse_finish decode buffer pending =
     (if bytes_strip buffer = [] then (dispatch pending, False)
      else (case data_value decode buffer of
          Undecodable \<Rightarrow> ([], True)
        | Unrecognised \<Rightarrow> (UNRECOGNISED_LINE # dispatch pending, False)
        | Ignored \<Rightarrow> (dispatch pending, False)
        | Value v \<Rightarrow> (dispatch (pending @ [v]), False)))"

text \<open>The outer \<^verbatim>\<open>for\<close> over the chunks; \<open>broken\<close> says that the chunks end by raising.\<close>

fun iter_sse_data :: "(string \<Rightarrow> string option) \<Rightarrow> bool \<Rightarrow> bool \<Rightarrow> string \<Rightarrow> string list \<Rightarrow> string list \<Rightarrow> sse_event list \<times> bool" where
  "iter_sse_data decode broken started buffer pending [] =
     (if broken then ([], True) else sse_finish decode buffer pending)"
| "iter_sse_data decode broken started buffer pending (chunk # chunks) =
     (let buffer = buffer @ chunk in
      if \<not> started \<and> length buffer < length SSE_BOM then iter_sse_data decode broken started buffer pending chunks
      else
        let buffer = (if \<not> started \<and> starts_with SSE_BOM buffer then drop (length SSE_BOM) buffer else buffer);
            (es, st) = sse_lines decode buffer pending
        in if sse_raised st then (es, True)
           else (let (es', raised) = iter_sse_data decode broken True (sse_buffer st) (sse_pending st) chunks in (es @ es', raised)))"

text \<open>The events of a whole body, with no chunks in sight.\<close>

definition body_events :: "(string \<Rightarrow> string option) \<Rightarrow> bool \<Rightarrow> string \<Rightarrow> sse_event list \<times> bool" where
  "body_events decode broken body =
     (if length body < length SSE_BOM then (if broken then ([], True) else sse_finish decode body [])
      else
        let (es, st) = sse_lines decode (if starts_with SSE_BOM body then drop (length SSE_BOM) body else body) [] in
        if sse_raised st then (es, True)
        else if broken then (es, True)
        else (let (es', raised) = sse_finish decode (sse_buffer st) (sse_pending st) in (es @ es', raised)))"

lemma at_char_split: "c \<in> set s \<Longrightarrow> s = before_char c s @ c # after_char c s"
  unfolding before_char_def after_char_def by (induction s) auto

lemma sse_line:
  assumes "at_newline \<notin> set l"
  shows "sse_lines decode (l @ at_newline # rest) pending =
     (if rstrip_cr l = [] then
          (let (es, st) = sse_lines decode rest [] in (dispatch pending @ es, st))
        else (case data_value decode l of
            Undecodable \<Rightarrow> ([], \<lparr>sse_buffer = rest, sse_pending = pending, sse_raised = True\<rparr>)
          | Unrecognised \<Rightarrow> (let (es, st) = sse_lines decode rest pending in (UNRECOGNISED_LINE # es, st))
          | Ignored \<Rightarrow> sse_lines decode rest pending
          | Value v \<Rightarrow> sse_lines decode rest (pending @ [v])))"
proof -
  have "before_char at_newline (l @ at_newline # rest) = l" "after_char at_newline (l @ at_newline # rest) = rest"
    using assms unfolding before_char_def after_char_def by (induction l) auto
  then show ?thesis by (subst sse_lines.simps) (simp add: Let_def)
qed

lemma sse_no_line: "at_newline \<notin> set b \<Longrightarrow>
    sse_lines decode b pending = ([], \<lparr>sse_buffer = b, sse_pending = pending, sse_raised = False\<rparr>)"
  by (subst sse_lines.simps) simp

text \<open>Reading a buffer and then more is reading both at once, except for the unread rest after a raise.\<close>

definition continues :: "(string \<Rightarrow> string option) \<Rightarrow> string \<Rightarrow> string \<Rightarrow> string list \<Rightarrow> bool" where
  "continues decode b a pending =
     (let (es, st) = sse_lines decode a pending in
      if sse_raised st then fst (sse_lines decode (a @ b) pending) = es \<and> sse_raised (snd (sse_lines decode (a @ b) pending))
      else sse_lines decode (a @ b) pending =
        (es @ fst (sse_lines decode (sse_buffer st @ b) (sse_pending st)), snd (sse_lines decode (sse_buffer st @ b) (sse_pending st))))"

lemma sse_lines_append: "continues decode b a pending"
proof (induction a arbitrary: pending rule: measure_induct_rule[of length])
  case (less a)
  note defn = continues_def Let_def case_prod_unfold
  show ?case
  proof (cases "at_newline \<in> set a")
    case False
    then show ?thesis by (simp add: sse_no_line defn)
  next
    case True
    let ?l = "before_char at_newline a" and ?r = "after_char at_newline a"
    have a: "a = ?l @ at_newline # ?r" by (rule at_char_split[OF True])
    have l: "at_newline \<notin> set ?l" by (rule before_char_free)
    have len: "length ?r < length a" by (rule after_char_length[OF True])
    have one: "sse_lines decode a pending = sse_lines decode (?l @ at_newline # ?r) pending"
      and both: "sse_lines decode (a @ b) pending = sse_lines decode (?l @ at_newline # (?r @ b)) pending"
      using a by (metis, metis append.assoc append_Cons)
    have IH: "continues decode b ?r p" for p by (rule less[OF len])
    show ?thesis
      unfolding continues_def one both sse_line[OF l] using IH[of "[]"] IH[of pending] IH[of "pending @ [v]" for v]
      by (cases "data_value decode ?l") (auto simp: defn split: if_splits)
  qed
qed

lemma started_events:
  "iter_sse_data decode broken True buffer pending chunks =
     (let (es, st) = sse_lines decode (buffer @ concat chunks) pending in
      if sse_raised st \<or> broken then (es, True)
      else (let (es', raised) = sse_finish decode (sse_buffer st) (sse_pending st) in (es @ es', raised)))"
  if "at_newline \<notin> set buffer"
  using that
proof (induction chunks arbitrary: buffer pending)
  case Nil
  then show ?case by (simp add: sse_no_line)
next
  case (Cons c cs)
  have free: "at_newline \<notin> set (sse_buffer (snd (sse_lines decode b p)))" if "\<not> sse_raised (snd (sse_lines decode b p))" for b p
    using that
  proof (induction b arbitrary: p rule: measure_induct_rule[of length])
    case (less b)
    show ?case
    proof (cases "at_newline \<in> set b")
      case False
      then show ?thesis by (simp add: sse_no_line)
    next
      case True
      have l: "at_newline \<notin> set (before_char at_newline b)" by (rule before_char_free)
      have eq: "sse_lines decode b p = sse_lines decode (before_char at_newline b @ at_newline # after_char at_newline b) p"
        using at_char_split[OF True] by metis
      show ?thesis using less after_char_length[OF True] unfolding eq sse_line[OF l]
        by (auto simp: Let_def case_prod_unfold split: data_line.splits if_splits)
    qed
  qed
  obtain es st where s: "sse_lines decode (buffer @ c) pending = (es, st)" by force
  show ?case
  proof (cases "sse_raised st")
    case True
    then show ?thesis using s sse_lines_append[of decode "concat cs" "buffer @ c" pending]
      by (auto simp: continues_def Let_def case_prod_unfold)
  next
    case False
    have f: "at_newline \<notin> set (sse_buffer st)" using free[of "buffer @ c" pending] s False by simp
    show ?thesis using s False Cons.IH[OF f, of "sse_pending st"] sse_lines_append[of decode "concat cs" "buffer @ c" pending]
      by (auto simp: continues_def Let_def case_prod_unfold)
  qed
qed

lemma events_before_mark:
  "length b < length SSE_BOM \<Longrightarrow> iter_sse_data decode broken False b [] chunks = body_events decode broken (b @ concat chunks)"
proof (induction chunks arbitrary: b)
  case Nil
  then show ?case by (simp add: body_events_def)
next
  case (Cons c cs)
  show ?case
  proof (cases "length (b @ c) < length SSE_BOM")
    case True
    then show ?thesis using Cons.IH[OF True] by simp
  next
    case False
    let ?B = "\<lambda>x. if starts_with SSE_BOM x then drop (length SSE_BOM) x else x"
    have cut: "?B (b @ c) @ concat cs = ?B (b @ c @ concat cs)"
      using False by (auto simp: starts_with_def)
    obtain es st where s: "sse_lines decode (?B (b @ c)) [] = (es, st)" by force
    have one: "iter_sse_data decode broken False b [] (c # cs) =
        (if sse_raised st then (es, True)
         else (let (es', raised) = iter_sse_data decode broken True (sse_buffer st) (sse_pending st) cs in (es @ es', raised)))"
      using False s by (simp add: Let_def)
    also have "\<dots> = iter_sse_data decode broken True [] [] (?B (b @ c) # cs)" using s by (simp add: Let_def)
    also have "\<dots> = body_events decode broken (b @ c @ concat cs)"
      unfolding started_events[of "[]", simplified] body_events_def using False cut
      by (auto simp: Let_def case_prod_unfold)
    finally show ?thesis by simp
  qed
qed


text \<open>C25. How the network cuts a body is invisible: whatever chunks it arrives in, through a character, a line or the
  byte-order mark, the events read from it are those of the whole body read at once.\<close>

theorem chunking_is_invisible:
  "iter_sse_data decode broken False [] [] chunks = body_events decode broken (concat chunks)"
  using events_before_mark[of "[]"] by (simp add: SSE_BOM_def)

section \<open>One payload out of the frames\<close>

datatype terminator = TERMINATOR_DONE | TERMINATOR_FINISH_REASON | TERMINATOR_ERROR | TERMINATOR_NONE | TERMINATOR_NOT_A_STREAM

record stream_fold =
  sf_text :: string
  sf_annotations :: "json list"
  sf_citations :: "json list"
  sf_finish_reason :: json
  sf_latched :: bool
  sf_usage :: json
  sf_error :: json
  sf_frame_count :: nat
  sf_unrecognised :: nat
  sf_terminator :: terminator

definition empty_fold :: stream_fold where
  "empty_fold = \<lparr>sf_text = [], sf_annotations = [], sf_citations = [], sf_finish_reason = JNull, sf_latched = False,
     sf_usage = JNull, sf_error = JNull, sf_frame_count = 0, sf_unrecognised = 0, sf_terminator = TERMINATOR_NONE\<rparr>"

text \<open>\<^verbatim>\<open>choice.get('index', 0) == 0\<close>: Python's \<open>0\<close>, \<open>0.0\<close> and \<open>False\<close> are equal.\<close>

definition is_index_zero :: "(string, json) dict \<Rightarrow> bool" where
  "is_index_zero c =
     (case map_of c ''index'' of
        None \<Rightarrow> True
      | Some j \<Rightarrow> (case j of JInt n \<Rightarrow> n = 0 | JFloat x \<Rightarrow> x = 0 | JBool b \<Rightarrow> \<not> b | _ \<Rightarrow> False))"

definition list_of :: "json \<Rightarrow> json list" where "list_of j = (case j of JList xs \<Rightarrow> xs | _ \<Rightarrow> [])"

definition fold_choice :: "json \<Rightarrow> stream_fold \<Rightarrow> stream_fold" where
  "fold_choice choice sf =
     (case choice of
        JObj c \<Rightarrow>
          if \<not> is_index_zero c then sf
          else
            let sf = (case jget c ''delta'' of
                  JObj d \<Rightarrow> sf\<lparr>sf_text := sf_text sf @ (case jget d ''content'' of JStr s \<Rightarrow> s | _ \<Rightarrow> []),
                              sf_annotations := sf_annotations sf @ list_of (jget d ''annotations''),
                              sf_citations := sf_citations sf @ list_of (jget d ''citations'')\<rparr>
                | _ \<Rightarrow> sf);
                reason = jget c ''finish_reason'';
                unclean = (case reason of JStr r \<Rightarrow> r \<in> set UNCLEAN_FINISH_REASONS | _ \<Rightarrow> False);
                sf = (if unclean then sf\<lparr>sf_finish_reason := reason, sf_latched := True\<rparr>
                      else if reason \<noteq> JNull \<and> \<not> sf_latched sf then sf\<lparr>sf_finish_reason := reason\<rparr> else sf)
            in if reason \<noteq> JNull \<and> sf_terminator sf \<in> {TERMINATOR_NONE, TERMINATOR_ERROR}
               then sf\<lparr>sf_terminator := TERMINATOR_FINISH_REASON\<rparr> else sf
      | _ \<Rightarrow> sf)"

definition fold_frame :: "json \<Rightarrow> stream_fold \<Rightarrow> stream_fold" where
  "fold_frame frame sf =
     (let sf = sf\<lparr>sf_frame_count := sf_frame_count sf + 1\<rparr> in
      case frame of
        JObj f \<Rightarrow>
          let sf = (case jget f ''error'' of
                JObj e \<Rightarrow> sf\<lparr>sf_error := JObj e,
                    sf_terminator := (if sf_terminator sf = TERMINATOR_NONE then TERMINATOR_ERROR else sf_terminator sf)\<rparr>
              | _ \<Rightarrow> sf);
              sf = (case jget f ''usage'' of JObj u \<Rightarrow> sf\<lparr>sf_usage := JObj u\<rparr> | _ \<Rightarrow> sf)
          in fold fold_choice (list_of (jget f ''choices'')) sf
      | _ \<Rightarrow> sf)"

text \<open>\<open>FoldRaises\<close>: the frames raised. With the mark \<open>True\<close> a frame was not JSON, and the rest of the body is not read.\<close>

datatype fold_end = FoldRaises | Folded stream_fold bool

fun fold_events :: "(string \<Rightarrow> loads_result) \<Rightarrow> bool \<Rightarrow> sse_event list \<Rightarrow> stream_fold \<Rightarrow> fold_end" where
  "fold_events loads raised [] sf = (if raised then FoldRaises else Folded sf False)"
| "fold_events loads raised (UNRECOGNISED_LINE # es) sf =
     fold_events loads raised es (sf\<lparr>sf_unrecognised := sf_unrecognised sf + 1\<rparr>)"
| "fold_events loads raised (Data d # es) sf =
     (if d = SSE_DONE_SENTINEL
      then (if raised then FoldRaises else Folded (sf\<lparr>sf_terminator := TERMINATOR_DONE\<rparr>) False)
      else (case loads d of
          Parsed frame \<Rightarrow> fold_events loads raised es (fold_frame frame sf)
        | _ \<Rightarrow> Folded sf True))"

definition completion_payload :: "stream_fold \<Rightarrow> json" where
  "completion_payload sf =
     (let sources = (if sf_annotations sf \<noteq> [] then sf_annotations sf else sf_citations sf);
          message = (''content'', JStr (sf_text sf)) # (if sources \<noteq> [] then [(''annotations'', JList sources)] else []);
          choice = (''message'', JObj message) #
            (if sf_finish_reason sf \<noteq> JNull then [(''finish_reason'', sf_finish_reason sf)]
             else if sf_error sf \<noteq> JNull then [(''finish_reason'', JStr ''error'')] else [])
      in JObj ((''choices'', JList [JObj choice])
           # (if sf_usage sf \<noteq> JNull then [(''usage'', sf_usage sf)] else [])
           @ (if sf_error sf \<noteq> JNull then [(''error'', sf_error sf)] else [])))"

record streamed_completion =
  sm_payload :: json
  sm_terminator :: terminator
  sm_frame_count :: nat
  sm_unrecognised_lines :: nat
  sm_body_error :: bool

definition reassemble_streamed_completion ::
  "(string \<Rightarrow> loads_result) \<Rightarrow> bool \<Rightarrow> sse_event list \<Rightarrow> streamed_completion option" where
  "reassemble_streamed_completion loads raised events =
     (case fold_events loads raised events empty_fold of
        FoldRaises \<Rightarrow> None
      | Folded sf err \<Rightarrow> Some \<lparr>sm_payload = completion_payload sf, sm_terminator = sf_terminator sf,
          sm_frame_count = sf_frame_count sf, sm_unrecognised_lines = sf_unrecognised sf, sm_body_error = err\<rparr>)"

definition NON_SSE_BODY_LIMIT_BYTES :: nat where "NON_SSE_BODY_LIMIT_BYTES = 65536"

text \<open>A body read under the deadline, as a stream or, when it has no frame, as one JSON completion out of its first 64 KiB.\<close>

definition read_completion ::
  "(string \<Rightarrow> string option) \<Rightarrow> (string \<Rightarrow> loads_result) \<Rightarrow> string list \<times> bool \<Rightarrow> streamed_completion option" where
  "read_completion decode loads body =
     (let (chunks, broken) = body;
          (events, raised) = iter_sse_data decode broken False [] [] chunks
      in case reassemble_streamed_completion loads raised events of
           None \<Rightarrow> None
         | Some sm \<Rightarrow>
             Some (if sm_frame_count sm = 0 \<and> \<not> sm_body_error sm then
               (case decode (take NON_SSE_BODY_LIMIT_BYTES (concat chunks)) of
                  None \<Rightarrow> sm
                | Some whole \<Rightarrow>
                    (case loads whole of
                       Parsed (JObj d) \<Rightarrow>
                         if map_of d ''choices'' = None then sm
                         else \<lparr>sm_payload = JObj d, sm_terminator = TERMINATOR_NOT_A_STREAM, sm_frame_count = 0,
                               sm_unrecognised_lines = 0, sm_body_error = False\<rparr>
                     | _ \<Rightarrow> sm))
               else sm))"

end
