(* ===== verification/Judge_Evidence.thy ===== *)
theory Judge_Evidence
  imports Source_Fetch Providers
begin

text \<open>
  What the evaluation judge is shown and what its reply may say, from \<^verbatim>\<open>evaluation.py\<close>: the share of the source
  lines each answer gets, the passages picked from a page, the pages sent with the lines, the fenced prompts, the
  strict reading of a verdict, and the call with its outcome. The page fetch is an argument (its rows); the prompts'
  fixed instructions are an argument too.
\<close>

section \<open>Which sources the judge is shown\<close>

definition JUDGE_MAX_SOURCE_LINES :: nat where "JUDGE_MAX_SOURCE_LINES = 32"
definition JUDGE_MAX_SOURCE_TITLE_LEN :: nat where "JUDGE_MAX_SOURCE_TITLE_LEN = 300"
definition JUDGE_MAX_SOURCE_URL_LEN :: nat where "JUDGE_MAX_SOURCE_URL_LEN = 300"
definition JUDGE_MAX_SOURCE_PAGES :: nat where "JUDGE_MAX_SOURCE_PAGES = 8"
definition JUDGE_MAX_SOURCE_PAGE_CHARS :: nat where "JUDGE_MAX_SOURCE_PAGE_CHARS = 4000"

text \<open>One round: each answer with a source left takes one line while the budget lasts.\<close>

fun quota_round :: "nat \<Rightarrow> nat list \<Rightarrow> nat list \<Rightarrow> nat list \<times> nat" where
  "quota_round budget (q # qs) (g # gs) =
     (if budget = 0 then (q # qs, 0)
      else if q < g then (let (qs', b) = quota_round (budget - 1) qs gs in (Suc q # qs', b))
      else (let (qs', b) = quota_round budget qs gs in (q # qs', b)))"
| "quota_round budget qs gs = (qs, budget)"

definition wants_more :: "nat list \<Rightarrow> nat list \<Rightarrow> bool" where
  "wants_more qs gs = list_ex (\<lambda>(q, g). q < g) (zip qs gs)"

lemma quota_round_budget: "snd (quota_round b qs gs) \<le> b"
proof (induction b qs gs rule: quota_round.induct)
  case (1 b q qs g gs)
  then show ?case by (auto simp: case_prod_unfold Let_def intro: le_trans)
qed simp_all

lemma quota_round_spends: "0 < b \<Longrightarrow> wants_more qs gs \<Longrightarrow> snd (quota_round b qs gs) < b"
proof (induction b qs gs rule: quota_round.induct)
  case (1 b q qs g gs)
  show ?case
  proof (cases "q < g")
    case True
    then show ?thesis using 1(3) quota_round_budget[of "b - 1" qs gs] by (auto simp: case_prod_unfold Let_def)
  next
    case False
    then have "wants_more qs gs" using 1(4) by (simp add: wants_more_def)
    then show ?thesis using 1 False by (auto simp: case_prod_unfold Let_def)
  qed
qed (simp_all add: wants_more_def)

function quota_loop :: "nat \<Rightarrow> nat list \<Rightarrow> nat list \<Rightarrow> nat list" where
  "quota_loop budget qs gs =
     (if 0 < budget \<and> wants_more qs gs
      then quota_loop (snd (quota_round budget qs gs)) (fst (quota_round budget qs gs)) gs else qs)"
  by pat_completeness auto
termination by (relation "measure (\<lambda>(b, qs, gs). b)") (auto simp: quota_round_spends)

declare quota_loop.simps [simp del]

definition judge_evidence_source_refs :: "ip_facts \<Rightarrow> initial_answer list \<Rightarrow> source_reference list" where
  "judge_evidence_source_refs ip answers =
     (let per_answer = map (\<lambda>a. filter (\<lambda>s. \<not> is_placeholder_source ip s) (ia_sources a)) answers;
          quotas = quota_loop JUDGE_MAX_SOURCE_LINES (replicate (length per_answer) 0) (map length per_answer)
      in concat (map (\<lambda>(quota, group). take quota group) (zip quotas per_answer)))"

definition judge_evidence_sources :: "ip_facts \<Rightarrow> initial_answer list \<Rightarrow> (string \<times> string) list" where
  "judge_evidence_sources ip answers =
     map (\<lambda>s. (take JUDGE_MAX_SOURCE_TITLE_LEN (join '' '' (split_ws (sr_title s))), take JUDGE_MAX_SOURCE_URL_LEN (sr_url s)))
       (judge_evidence_source_refs ip answers)"

record judge_evidence =
  je_query_text :: string
  je_answer_texts :: "string list"
  je_source_lines :: "string list"
  je_synthesis_sections :: "(string \<times> string) list"
  je_source_pages :: "string list"
  je_source_page_same_as :: "nat list"

definition build_judge_evidence :: "ip_facts \<Rightarrow> string \<Rightarrow> initial_answer list \<Rightarrow> final_synthesis option \<Rightarrow> judge_evidence" where
  "build_judge_evidence ip query_text answers synthesis =
     \<lparr>je_query_text = query_text, je_answer_texts = map ia_answer_text answers,
      je_source_lines = map (\<lambda>(i, title, url). ''['' @ nat_str (Suc i) @ ''] '' @ title @ '' :: '' @ url)
        (enumerate 0 (judge_evidence_sources ip answers)),
      je_synthesis_sections = (case synthesis of None \<Rightarrow> [] | Some fs \<Rightarrow>
        [(''consensus'', fs_consensus fs), (''disagreement'', fs_disagreement fs), (''source_support'', fs_source_support fs),
         (''uncertainty'', fs_uncertainty fs), (''recommendation'', fs_recommendation fs)]),
      je_source_pages = [], je_source_page_same_as = []\<rparr>"

section \<open>Passages of a page\<close>

definition PASSAGE_SEPARATOR :: string where "PASSAGE_SEPARATOR = [CHR '' '', CHR 0x1A, CHR '' '']"
definition PASSAGE_CHARS :: nat where "PASSAGE_CHARS = 500"
definition PASSAGE_MIN_WORD_CHARS :: nat where "PASSAGE_MIN_WORD_CHARS = 3"

definition PASSAGE_COMMON_WORDS :: "string list" where
  "PASSAGE_COMMON_WORDS =
     [''about'', ''after'', ''all'', ''also'', ''and'', ''any'', ''are'', ''been'', ''before'', ''being'', ''both'', ''but'', ''can'',
      ''could'', ''did'', ''does'', ''each'', ''for'', ''from'', ''had'', ''has'', ''have'', ''her'', ''his'', ''how'', ''into'', ''its'',
      ''may'', ''might'', ''more'', ''most'', ''must'', ''not'', ''only'', ''other'', ''our'', ''over'', ''per'', ''she'', ''should'',
      ''some'', ''such'', ''than'', ''that'', ''the'', ''their'', ''them'', ''then'', ''there'', ''these'', ''they'', ''this'', ''those'',
      ''under'', ''very'', ''via'', ''was'', ''were'', ''what'', ''when'', ''where'', ''which'', ''while'', ''who'', ''whom'', ''why'',
      ''will'', ''with'', ''would'', ''you'', ''your'']"

definition is_passage_char :: "char \<Rightarrow> bool" where "is_passage_char c = (is_word c \<and> c \<noteq> CHR ''_'')"

function passage_tokens :: "string \<Rightarrow> string list" where
  "passage_tokens s =
     (let r = dropWhile (\<lambda>c. \<not> is_passage_char c) s in
      if r = [] then [] else takeWhile is_passage_char r # passage_tokens (dropWhile is_passage_char r))"
  by pat_completeness auto
termination
proof (relation "measure length")
  fix s r :: string
  assume r: "r = dropWhile (\<lambda>c. \<not> is_passage_char c) s" "r \<noteq> []"
  then have "is_passage_char (hd r)" using hd_dropWhile[of "\<lambda>c. \<not> is_passage_char c" s] by simp
  then have "length (dropWhile is_passage_char r) < length r"
    using r(2) by (cases r) (simp_all add: length_dropWhile_le less_Suc_eq_le)
  also have "\<dots> \<le> length s" using r(1) length_dropWhile_le by simp
  finally show "(dropWhile is_passage_char r, s) \<in> measure length" by simp
qed simp

declare passage_tokens.simps [simp del]

definition passage_words :: "string \<Rightarrow> string list" where
  "passage_words s =
     remdups (filter (\<lambda>w. length w \<ge> PASSAGE_MIN_WORD_CHARS \<and> w \<notin> set PASSAGE_COMMON_WORDS) (passage_tokens (lower s)))"

type_synonym span = "nat \<times> nat"

definition slice :: "string \<Rightarrow> nat \<Rightarrow> nat \<Rightarrow> string" where "slice s a b = drop a (take b s)"

text \<open>\<^verbatim>\<open>text.rfind(" ", start, stop)\<close>.\<close>

definition rfind_space :: "string \<Rightarrow> nat \<Rightarrow> nat \<Rightarrow> nat option" where
  "rfind_space s start stop =
     (let inside = slice s start stop; after = takeWhile (\<lambda>c. c \<noteq> CHR '' '') (rev inside) in
      if length after = length inside then None else Some (start + (length inside - length after - 1)))"

definition forward :: "string \<Rightarrow> nat \<Rightarrow> nat" where "forward s i = i + length (takeWhile is_space (drop i s))"
definition backward :: "string \<Rightarrow> nat \<Rightarrow> nat" where "backward s i = i - length (takeWhile is_space (rev (take i s)))"

definition block_cut :: "string \<Rightarrow> nat \<Rightarrow> nat" where
  "block_cut s start =
     (case rfind_space s start (start + PASSAGE_CHARS + 1) of
        None \<Rightarrow> PASSAGE_CHARS
      | Some p \<Rightarrow> if p - start = 0 then PASSAGE_CHARS else p - start)"

lemma block_cut_pos: "0 < block_cut s start"
  by (auto simp: block_cut_def PASSAGE_CHARS_def split: option.splits)

function split_block :: "string \<Rightarrow> nat \<Rightarrow> nat \<Rightarrow> span list" where
  "split_block s start stop =
     (if stop - start > PASSAGE_CHARS
      then (start, backward s (start + block_cut s start)) # split_block s (forward s (start + block_cut s start)) stop
      else [(start, stop)])"
  by pat_completeness auto
termination
proof (relation "measure (\<lambda>(s, start, stop). stop - start)")
  fix s start stop
  assume "PASSAGE_CHARS < stop - start"
  then show "((s, forward s (start + block_cut s start), stop), s, start, stop) \<in> measure (\<lambda>(s, start, stop). stop - start)"
    using block_cut_pos[of s start] by (simp add: forward_def)
qed simp

declare split_block.simps [simp del]

text \<open>The runs of a text without line breaks, from position \<open>i\<close> on; \<open>open\<close> is where the current one began.\<close>

fun line_spans :: "nat \<Rightarrow> nat option \<Rightarrow> string \<Rightarrow> span list" where
  "line_spans i began [] = (case began of None \<Rightarrow> [] | Some b \<Rightarrow> [(b, i)])"
| "line_spans i began (c # s) =
     (if c = CHR 0x0A then (case began of None \<Rightarrow> [] | Some b \<Rightarrow> [(b, i)]) @ line_spans (Suc i) None s
      else line_spans (Suc i) (Some (case began of None \<Rightarrow> i | Some b \<Rightarrow> b)) s)"

definition trim_span :: "string \<Rightarrow> span \<Rightarrow> span" where
  "trim_span s = (\<lambda>(a, b).
     let a = a + length (takeWhile is_space (slice s a b)) in (a, b - length (takeWhile is_space (rev (slice s a b)))))"

definition add_line :: "string \<Rightarrow> span list \<times> bool \<Rightarrow> span \<Rightarrow> span list \<times> bool" where
  "add_line s = (\<lambda>(passages, joinable) line.
     let (a, b) = trim_span s line in
     if a = b then (passages, joinable)
     else if b - a > PASSAGE_CHARS then (passages @ split_block s a b, False)
     else if joinable \<and> b - fst (last passages) \<le> PASSAGE_CHARS then (butlast passages @ [(fst (last passages), b)], True)
     else (passages @ [(a, b)], True))"

definition passages_of :: "string \<Rightarrow> span list" where
  "passages_of s = fst (foldl (add_line s) ([], False) (line_spans 0 None s))"

definition join_cost :: "span list \<Rightarrow> nat \<Rightarrow> nat \<Rightarrow> int" where
  "join_cost spans left right =
     (if right = Suc left then int (fst (spans ! right)) - int (snd (spans ! left)) else int (length PASSAGE_SEPARATOR))"

definition bisect_left :: "nat list \<Rightarrow> nat \<Rightarrow> nat" where "bisect_left held i = length (takeWhile (\<lambda>k. k < i) held)"

definition keep_cost :: "span list \<Rightarrow> nat list \<Rightarrow> nat \<Rightarrow> int" where
  "keep_cost spans held index =
     (let i = bisect_left held index;
          before = (if i > 0 then Some (held ! (i - 1)) else None);
          after = (if i < length held then Some (held ! i) else None)
      in int (snd (spans ! index)) - int (fst (spans ! index))
         + (case before of None \<Rightarrow> 0 | Some b \<Rightarrow> join_cost spans b index)
         + (case after of None \<Rightarrow> 0 | Some a \<Rightarrow> join_cost spans index a)
         - (case (before, after) of (Some b, Some a) \<Rightarrow> join_cost spans b a | _ \<Rightarrow> 0))"

definition hold_step :: "span list \<Rightarrow> nat \<Rightarrow> nat list \<times> int \<Rightarrow> nat \<Rightarrow> nat list \<times> int" where
  "hold_step spans limit = (\<lambda>(held, used) index.
     if used + keep_cost spans held index \<le> int limit
     then (take (bisect_left held index) held @ [index] @ drop (bisect_left held index) held, used + keep_cost spans held index)
     else (held, used))"

fun runs_from :: "string \<Rightarrow> span list \<Rightarrow> nat \<Rightarrow> nat list \<Rightarrow> string list" where
  "runs_from s spans first [] = []"
| "runs_from s spans first [i] = [slice s (fst (spans ! first)) (snd (spans ! i))]"
| "runs_from s spans first (i # j # ks) =
     (if j \<noteq> Suc i then slice s (fst (spans ! first)) (snd (spans ! i)) # runs_from s spans j (j # ks)
      else runs_from s spans first (j # ks))"

definition passage_scores :: "string \<Rightarrow> string list \<Rightarrow> nat list" where
  "passage_scores s claims =
     (let words = passage_words (join '' '' claims)
      in map (\<lambda>(a, b). length (filter (\<lambda>w. w \<in> set words) (passage_words (slice s a b)))) (passages_of s))"

definition kept_passages :: "string \<Rightarrow> string list \<Rightarrow> nat \<Rightarrow> nat list" where
  "kept_passages s claims limit =
     (let spans = passages_of s; scores = passage_scores s claims
      in fst (foldl (hold_step spans limit) ([], 0) (sort_key (\<lambda>i. - int (scores ! i)) [0..<length spans])))"

definition pick_passages :: "string \<Rightarrow> string list \<Rightarrow> nat \<Rightarrow> string" where
  "pick_passages s claims limit =
     (if length s \<le> limit then s
      else (let held = kept_passages s claims limit
            in join PASSAGE_SEPARATOR (if held = [] then [] else runs_from s (passages_of s) (hd held) held)))"

section \<open>The pages sent with the source lines\<close>

record judge_source_pages =
  jp_pages :: "string list"
  jp_same_as :: "nat list"
  jp_read :: nat
  jp_cited :: nat
  jp_preview :: nat
  jp_preview_other :: nat

text \<open>\<^verbatim>\<open>_clean_search_excerpt\<close> on a text.\<close>

definition clean_page :: "source_settings \<Rightarrow> string \<Rightarrow> string" where
  "clean_page st raw = take JUDGE_MAX_SOURCE_PAGE_CHARS (clean_search_excerpt st (JStr raw))"

definition page_raw :: "(string \<times> string) list \<Rightarrow> string list \<Rightarrow> nat \<Rightarrow> fetched_source \<Rightarrow> string" where
  "page_raw excerpts answer_texts page_chars row =
     (if fs_outcome row = FETCHED then pick_passages (fs_text row) answer_texts page_chars
      else (case map_of excerpts (fs_url row) of None \<Rightarrow> [] | Some e \<Rightarrow> e))"

text \<open>The texts kept, each with the outcome of its row, in the order they are found.\<close>

fun page_texts :: "(fetched_source \<Rightarrow> string) \<Rightarrow> fetched_source list \<Rightarrow> nat \<Rightarrow> (string \<times> string \<times> page_outcome) list" where
  "page_texts clean [] held = []"
| "page_texts clean (row # rows) held =
     (if held \<ge> JUDGE_MAX_SOURCE_PAGES then []
      else if strip (clean row) \<noteq> [] then (fs_url row, clean row, fs_outcome row) # page_texts clean rows (held + 1)
      else page_texts clean rows held)"

text \<open>The excerpts by address, the first not empty of each.\<close>

fun first_excerpts :: "(string \<times> string) list \<Rightarrow> (string \<times> string) list \<Rightarrow> (string \<times> string) list" where
  "first_excerpts held [] = held"
| "first_excerpts held ((address, e) # xs) =
     first_excerpts (if e \<noteq> [] \<and> map_of held address = None then held @ [(address, e)] else held) xs"

text \<open>One entry per line: the text at the first line of an address, a pointer back at the others. \<open>before\<close> holds the
  addresses of the lines done, newest first, \<open>pages\<close> their entries in order.\<close>

fun page_lines :: "(string \<times> string) list \<Rightarrow> (string \<times> nat) list \<Rightarrow> string list \<Rightarrow> string list \<Rightarrow> (string \<times> nat) list" where
  "page_lines texts first pages [] = []"
| "page_lines texts first pages (address # addresses) =
     (case map_of first address of
        Some earlier \<Rightarrow> ([], if pages ! (earlier - 1) \<noteq> [] then earlier else 0) # page_lines texts first (pages @ [[]]) addresses
      | None \<Rightarrow>
          (let page = (case map_of texts address of None \<Rightarrow> [] | Some t \<Rightarrow> t)
           in (page, 0) # page_lines texts ((address, length pages + 1) # first) (pages @ [page]) addresses))"

fun first_of_each :: "string list \<Rightarrow> string list \<Rightarrow> string list" where
  "first_of_each seen [] = []"
| "first_of_each seen (x # xs) = (if x \<in> set seen then first_of_each seen xs else x # first_of_each (x # seen) xs)"

definition judge_source_pages_of ::
  "source_settings \<Rightarrow> (string list \<Rightarrow> fetched_source list) \<Rightarrow> initial_answer list \<Rightarrow> judge_source_pages" where
  "judge_source_pages_of st fetch answers =
     (let sources = judge_evidence_source_refs (ss_ip st) answers;
          addresses = map (\<lambda>s. canonical_address (sr_url s)) sources;
          distinct_addresses = first_of_each [] addresses;
          rows = fetch distinct_addresses;
          page_chars = min (ss_max_text_chars st) JUDGE_MAX_SOURCE_PAGE_CHARS;
          excerpts = first_excerpts [] (zip addresses (map sr_excerpt sources));
          by_url = map (\<lambda>r. (fs_url r, r)) (rev rows);
          found = List.map_filter (map_of by_url) distinct_addresses;
          attempted = filter (\<lambda>r. fs_outcome r \<noteq> SKIPPED_CAP) found;
          never = filter (\<lambda>r. fs_outcome r = SKIPPED_CAP) found;
          held = page_texts (\<lambda>r. clean_page st (page_raw excerpts (map ia_answer_text answers) page_chars r)) (attempted @ never) 0;
          texts = map (\<lambda>(a, t, oc). (a, t)) held;
          outcomes = map (\<lambda>(a, t, oc). oc) held;
          entries = page_lines texts [] [] addresses
      in \<lparr>jp_pages = map fst entries, jp_same_as = map snd entries,
          jp_read = length (filter (\<lambda>oc. oc = FETCHED) outcomes), jp_cited = length distinct_addresses,
          jp_preview = length (filter (\<lambda>oc. oc = REFUSED_ROBOTS) outcomes),
          jp_preview_other = length (filter (\<lambda>oc. oc \<notin> {FETCHED, REFUSED_ROBOTS}) outcomes)\<rparr>)"

text \<open>The fetch with the limits the judge's reserve is priced for.\<close>

definition judge_fetch ::
  "source_settings \<Rightarrow> fetch_env \<Rightarrow> nat \<Rightarrow> nat \<Rightarrow> nat \<Rightarrow> string list \<Rightarrow> fetched_source list" where
  "judge_fetch st fe max_pages max_bytes max_pdf_bytes addresses =
     fst (fetch_cited_pages fe
       \<lparr>fi_max_bytes = max_bytes, fi_max_pdf_bytes = min max_pdf_bytes 4194304,
        fi_max_text_chars = min (ss_max_text_chars st) JUDGE_MAX_SOURCE_PAGE_CHARS, fi_raw = False, fi_long_pages = True\<rparr>
       (min max_pages JUDGE_MAX_SOURCE_PAGES) True addresses)"

section \<open>The prompts\<close>

fun page_parts :: "nat \<Rightarrow> (string \<times> nat) list \<Rightarrow> string list" where
  "page_parts number [] = []"
| "page_parts number ((page, earlier) # entries) =
     (if page \<noteq> [] then [''PAGE ['' @ nat_str number @ '']:'', page]
      else if earlier \<noteq> 0 then [''PAGE ['' @ nat_str number @ '']: same page as ['' @ nat_str earlier @ '']'']
      else []) @ page_parts (number + 1) entries"

text \<open>\<^verbatim>\<open>zip_longest\<close> with 0, which reads as no page.\<close>

fun zip_longest :: "string list \<Rightarrow> nat list \<Rightarrow> (string \<times> nat) list" where
  "zip_longest [] [] = []"
| "zip_longest (p # ps) [] = (p, 0) # zip_longest ps []"
| "zip_longest [] (n # ns) = ([], n) # zip_longest [] ns"
| "zip_longest (p # ps) (n # ns) = (p, n) # zip_longest ps ns"

definition upper_name :: "string \<Rightarrow> string" where
  "upper_name = map (\<lambda>c. if 97 \<le> code c \<and> code c \<le> 122 then char_of (code c - 32) else c)"

definition source_parts :: "judge_evidence \<Rightarrow> string list" where
  "source_parts je =
     [''QUESTION: '' @ je_query_text je, [], ''SOURCES:'']
     @ (if je_source_lines je = [] then [''(none)''] else je_source_lines je) @ [[]]"

definition panel_judge_parts :: "judge_evidence \<Rightarrow> bool \<Rightarrow> string list" where
  "panel_judge_parts je pages =
     source_parts je
     @ (if pages
        then [''SOURCE_PAGES:''] @ page_parts 1 (zip_longest (je_source_pages je) (je_source_page_same_as je))
             @ (if list_ex (\<lambda>p. p \<noteq> []) (je_source_pages je) then [] else [''(no page could be read)'']) @ [[]]
        else [])
     @ concat (map (\<lambda>(i, a). [''MODEL_ANSWER_'' @ nat_str (Suc i) @ '':'', a, []]) (enumerate 0 (je_answer_texts je)))
     @ concat (map (\<lambda>(name, body). [''SYNTHESIS_'' @ upper_name name @ '':'', body, []]) (je_synthesis_sections je))"

definition quick_judge_parts :: "judge_evidence \<Rightarrow> string list" where
  "quick_judge_parts je = source_parts je @ concat (map (\<lambda>a. [''ANSWER:'', a, []]) (je_answer_texts je))"

text \<open>The delimiters around the neutralized body: the parts hold no delimiter of their own here.\<close>

definition fenced_user_prompt :: "unicode_db \<Rightarrow> string list \<Rightarrow> codepoint list" where
  "fenced_user_prompt db parts = fence db (text_points (join NEWLINE parts))"

section \<open>Verdicts\<close>

datatype risk = RISK_LOW | RISK_MEDIUM | RISK_HIGH

record judge_verdict =
  jv_faithfulness :: int
  jv_grounding :: int
  jv_disagreement_preserved :: bool
  jv_risk :: risk
  jv_rationale :: string
  jv_model_id :: string

definition MAX_RATIONALE :: nat where "MAX_RATIONALE = 4000"

definition risk_of :: "json \<Rightarrow> risk option" where
  "risk_of j = (case j of JStr s \<Rightarrow>
     if s = ''low'' then Some RISK_LOW else if s = ''medium'' then Some RISK_MEDIUM else if s = ''high'' then Some RISK_HIGH else None
   | _ \<Rightarrow> None)"

definition score_of :: "json \<Rightarrow> int option" where
  "score_of j = (case j of JInt n \<Rightarrow> if 0 \<le> n \<and> n \<le> 5 then Some n else None | _ \<Rightarrow> None)"

definition VERDICT_KEYS :: "string list" where
  "VERDICT_KEYS = [''faithfulness'', ''grounding'', ''disagreement_preserved'', ''hallucination_risk'', ''rationale'', ''model_id'']"

text \<open>Strict, no extra key: a field missing reads as null, which no field takes.\<close>

definition validate_verdict :: "(string, json) dict \<Rightarrow> judge_verdict option" where
  "validate_verdict d =
     (if \<not> list_all (\<lambda>(k, v). k \<in> set VERDICT_KEYS) d then None
      else (case (score_of (jget d ''faithfulness''), score_of (jget d ''grounding''), jget d ''disagreement_preserved'',
                  risk_of (jget d ''hallucination_risk''), jget d ''rationale'', jget d ''model_id'') of
          (Some f, Some g, JBool b, Some r, JStr why, JStr m) \<Rightarrow>
            if length why \<le> MAX_RATIONALE
            then Some \<lparr>jv_faithfulness = f, jv_grounding = g, jv_disagreement_preserved = b, jv_risk = r, jv_rationale = why, jv_model_id = m\<rparr>
            else None
        | _ \<Rightarrow> None))"

datatype claim_support = SUPPORTED | CONTRADICTED | UNSOURCED

record quick_claim =
  qk_quote :: string
  qk_source :: "int option"
  qk_support :: claim_support

record quick_verdict =
  qv_faithfulness :: int
  qv_grounding :: int
  qv_risk :: risk
  qv_rationale :: string
  qv_model_id :: string
  qv_claims :: "quick_claim list"

definition JUDGE_QUICK_MAX_CLAIMS :: nat where "JUDGE_QUICK_MAX_CLAIMS = 8"
definition JUDGE_QUICK_MAX_QUOTE_LEN :: nat where "JUDGE_QUICK_MAX_QUOTE_LEN = 300"

definition support_of :: "json \<Rightarrow> claim_support option" where
  "support_of j = (case j of JStr s \<Rightarrow>
     if s = ''supported'' then Some SUPPORTED else if s = ''contradicted'' then Some CONTRADICTED else if s = ''unsourced'' then Some UNSOURCED else None
   | _ \<Rightarrow> None)"

definition validate_claim :: "json \<Rightarrow> quick_claim option" where
  "validate_claim j =
     (case j of
        JObj d \<Rightarrow>
          if \<not> list_all (\<lambda>(k, v). k \<in> {''quote'', ''source'', ''support''}) d \<or> map_of d ''source'' = None then None
          else (case (jget d ''quote'', jget d ''source'', support_of (jget d ''support'')) of
              (JStr q, JInt n, Some found) \<Rightarrow> if length q \<le> JUDGE_QUICK_MAX_QUOTE_LEN then Some \<lparr>qk_quote = q, qk_source = Some n, qk_support = found\<rparr> else None
            | (JStr q, JNull, Some found) \<Rightarrow> if length q \<le> JUDGE_QUICK_MAX_QUOTE_LEN then Some \<lparr>qk_quote = q, qk_source = None, qk_support = found\<rparr> else None
            | _ \<Rightarrow> None)
      | _ \<Rightarrow> None)"

definition QUICK_VERDICT_KEYS :: "string list" where
  "QUICK_VERDICT_KEYS = [''faithfulness'', ''grounding'', ''hallucination_risk'', ''rationale'', ''model_id'', ''claims'']"

definition validate_quick_verdict :: "(string, json) dict \<Rightarrow> quick_verdict option" where
  "validate_quick_verdict d =
     (if \<not> list_all (\<lambda>(k, v). k \<in> set QUICK_VERDICT_KEYS) d then None
      else (case (score_of (jget d ''faithfulness''), score_of (jget d ''grounding''), risk_of (jget d ''hallucination_risk''),
                  jget d ''rationale'', jget d ''model_id'', jget d ''claims'') of
          (Some f, Some g, Some r, JStr why, JStr m, JList claims) \<Rightarrow>
            (case all_some (map validate_claim claims) of
               None \<Rightarrow> None
             | Some cs \<Rightarrow>
                 if length why \<le> MAX_RATIONALE \<and> length cs \<le> JUDGE_QUICK_MAX_CLAIMS
                 then Some \<lparr>qv_faithfulness = f, qv_grounding = g, qv_risk = r, qv_rationale = why, qv_model_id = m, qv_claims = cs\<rparr>
                 else None)
        | _ \<Rightarrow> None))"

text \<open>\<open>Inl\<close>: only \<^verbatim>\<open>ValueError\<close> and \<^verbatim>\<open>TypeError\<close> are caught around the parse.\<close>

definition parse_with :: "((string, json) dict \<Rightarrow> 'v option) \<Rightarrow> (string \<Rightarrow> loads_result) \<Rightarrow> string \<Rightarrow> string + 'v option" where
  "parse_with validate loads raw =
     (if strip raw = [] then Inr None
      else (case loads raw of
          Too_deep \<Rightarrow> Inl ''RecursionError''
        | Parsed (JObj d) \<Rightarrow> Inr (validate d)
        | _ \<Rightarrow> Inr None))"

definition parse_judge_verdict :: "(string \<Rightarrow> loads_result) \<Rightarrow> string \<Rightarrow> string + judge_verdict option" where
  "parse_judge_verdict = parse_with validate_verdict"

definition parse_judge_quick_verdict :: "(string \<Rightarrow> loads_result) \<Rightarrow> string \<Rightarrow> string + quick_verdict option" where
  "parse_judge_quick_verdict = parse_with validate_quick_verdict"

definition JUDGE_SUPPORT_MIN_GROUNDING :: int where "JUDGE_SUPPORT_MIN_GROUNDING = 1"
definition JUDGE_SUPPORT_MIN_FAITHFULNESS :: int where "JUDGE_SUPPORT_MIN_FAITHFULNESS = 1"

definition supports_verification :: "risk \<Rightarrow> int \<Rightarrow> int \<Rightarrow> bool" where
  "supports_verification r grounding faithfulness =
     (if r = RISK_HIGH then False else if grounding < JUDGE_SUPPORT_MIN_GROUNDING then False else faithfulness \<ge> JUDGE_SUPPORT_MIN_FAITHFULNESS)"

definition verdict_supports_verification :: "judge_verdict option \<Rightarrow> bool" where
  "verdict_supports_verification v =
     (case v of None \<Rightarrow> False | Some v \<Rightarrow> supports_verification (jv_risk v) (jv_grounding v) (jv_faithfulness v))"

section \<open>The judge's call\<close>

datatype judge_outcome = VERDICT | NO_VERDICT_DISPATCHED | NO_VERDICT_UNBILLED | NO_VERDICT_ERROR

datatype call_end = Call_raises | Call_returns "live_result option"

record judge_settings =
  js_api_key :: string
  js_model_id :: string
  js_max_tokens :: int
  js_source_fetch_enabled :: bool

definition judge_configured :: "judge_settings \<Rightarrow> bool" where
  "judge_configured js = (js_api_key js \<noteq> [] \<and> js_model_id js \<noteq> [])"

definition judge_reads_pages :: "judge_settings \<Rightarrow> bool" where
  "judge_reads_pages js = (judge_configured js \<and> js_source_fetch_enabled js)"

record 'v judged =
  jd_result :: "string + 'v option"
  jd_last_usage :: "token_usage option"
  jd_last_outcome :: "judge_outcome option"

text \<open>\<open>Inl\<close> in the result: the exception that leaves the call, with the outcome recorded before it.\<close>

definition judge_call :: "judge_settings \<Rightarrow> call_end \<Rightarrow> (string \<Rightarrow> string + 'v option) \<Rightarrow> 'v judged" where
  "judge_call js call parse =
     (if \<not> judge_configured js then \<lparr>jd_result = Inr None, jd_last_usage = None, jd_last_outcome = None\<rparr>
      else (case call of
          Call_raises \<Rightarrow> \<lparr>jd_result = Inr None, jd_last_usage = None, jd_last_outcome = Some NO_VERDICT_ERROR\<rparr>
        | Call_returns None \<Rightarrow> \<lparr>jd_result = Inr None, jd_last_usage = None, jd_last_outcome = Some NO_VERDICT_UNBILLED\<rparr>
        | Call_returns (Some r) \<Rightarrow>
            (let v = parse (lr_answer_text r) in
             \<lparr>jd_result = v, jd_last_usage = lr_usage r,
              jd_last_outcome = Some (case v of Inr (Some _) \<Rightarrow> VERDICT | _ \<Rightarrow> NO_VERDICT_DISPATCHED)\<rparr>)))"

definition judge_request :: "provider_env \<Rightarrow> judge_settings \<Rightarrow> codepoint list \<Rightarrow> codepoint list \<Rightarrow> provider_trace \<Rightarrow> call_end \<times> provider_trace" where
  "judge_request pe js system_prompt user_prompt tr =
     (let (r, tr) = call_with_prompt pe (js_api_key js) (js_model_id js) system_prompt user_prompt (Some (js_max_tokens js)) None
            (Some (JObj [(''type'', JStr ''json_object'')])) (Some (JObj [(''effort'', JStr ''low'')])) tr
      in (Call_returns r, tr))"

definition evaluate_evidence ::
  "provider_env \<Rightarrow> judge_settings \<Rightarrow> codepoint list \<Rightarrow> codepoint list \<Rightarrow> judge_evidence \<Rightarrow> provider_trace \<Rightarrow> judge_verdict judged \<times> provider_trace" where
  "evaluate_evidence pe js panel_rules pages_rules je tr =
     (let pages = (je_source_pages je \<noteq> []);
          (call, tr') = judge_request pe js (if pages then pages_rules else panel_rules) (fenced_user_prompt (pe_db pe) (panel_judge_parts je pages)) tr
      in (judge_call js call (parse_judge_verdict (pe_loads pe)), if judge_configured js then tr' else tr))"

definition evaluate_quick ::
  "provider_env \<Rightarrow> judge_settings \<Rightarrow> codepoint list \<Rightarrow> judge_evidence \<Rightarrow> provider_trace \<Rightarrow> quick_verdict judged \<times> provider_trace" where
  "evaluate_quick pe js quick_rules je tr =
     (let (call, tr') = judge_request pe js quick_rules (fenced_user_prompt (pe_db pe) (quick_judge_parts je)) tr
      in (judge_call js call (parse_judge_quick_verdict (pe_loads pe)), if judge_configured js then tr' else tr))"

end
