(* ===== verification/Judge_Laws.thy ===== *)
theory Judge_Laws
  imports Judge_Evidence
begin

text \<open>
  What the judge is shown and what its reply unlocks: the source lines are shared fairly, passages are cut from the page
  and fit, pages are bounded and point back truly, and only a conforming verdict is one.
\<close>

section \<open>A fair share of the source lines\<close>

definition shared :: "nat \<Rightarrow> nat \<Rightarrow> nat list \<Rightarrow> nat list" where
  "shared r k gs = map (min (Suc r)) (take k gs) @ map (min r) (drop k gs)"

lemma quota_round_shared:
  "\<exists>k. fst (quota_round b (map (min r) gs) gs) = shared r k gs
     \<and> (snd (quota_round b (map (min r) gs) gs) = 0 \<or> fst (quota_round b (map (min r) gs) gs) = map (min (Suc r)) gs)"
proof (induction gs arbitrary: b)
  case Nil
  then show ?case by (simp add: shared_def)
next
  case (Cons g gs)
  show ?case
  proof (cases "b = 0")
    case True
    then show ?thesis by (intro exI[of _ 0]) (simp add: shared_def)
  next
    case False
    let ?b = "if r < g then b - 1 else b"
    obtain k where k: "fst (quota_round ?b (map (min r) gs) gs) = shared r k gs"
      "snd (quota_round ?b (map (min r) gs) gs) = 0 \<or> fst (quota_round ?b (map (min r) gs) gs) = map (min (Suc r)) gs"
      using Cons by blast
    have "fst (quota_round b (map (min r) (g # gs)) (g # gs)) = min (Suc r) g # fst (quota_round ?b (map (min r) gs) gs)"
      "snd (quota_round b (map (min r) (g # gs)) (g # gs)) = snd (quota_round ?b (map (min r) gs) gs)"
      using False by (auto simp: case_prod_unfold Let_def min_def)
    then show ?thesis using k by (intro exI[of _ "Suc k"]) (simp add: shared_def)
  qed
qed

lemma quota_round_sum:
  "length qs = length gs \<Longrightarrow> sum_list (fst (quota_round b qs gs)) + snd (quota_round b qs gs) = sum_list qs + b"
proof (induction b qs gs rule: quota_round.induct)
  case (1 b q qs g gs)
  then show ?case by (auto simp: case_prod_unfold Let_def)
qed simp_all

lemma shared_le: "i < length gs \<Longrightarrow> shared r k gs ! i \<le> gs ! i"
  by (simp add: shared_def nth_append)

lemma length_shared [simp]: "length (shared r k gs) = length gs" by (simp add: shared_def)

lemma sum_shared_le: "sum_list (shared r k gs) \<le> sum_list gs"
proof -
  have "sum_list (map (min m) xs) \<le> sum_list xs" for m :: nat and xs by (induction xs) auto
  from add_mono[OF this[of "Suc r" "take k gs"] this[of r "drop k gs"]] show ?thesis
    by (simp add: shared_def sum_list_append[symmetric] del: sum_list_append)
qed

lemma not_wanting: "length qs = length gs \<Longrightarrow> \<not> wants_more qs gs \<Longrightarrow> sum_list gs \<le> sum_list qs"
  by (induction qs gs rule: list_induct2) (auto simp: wants_more_def)

lemma quota_loop_shared:
  "\<exists>r' k. quota_loop b (map (min r) gs) gs = shared r' k gs
     \<and> sum_list (quota_loop b (map (min r) gs) gs) = min (sum_list (map (min r) gs) + b) (sum_list gs)"
proof (induction b arbitrary: r rule: less_induct)
  case (less b)
  let ?qs = "map (min r) gs"
  have all: "?qs = shared r 0 gs" by (simp add: shared_def)
  show ?case
  proof (cases "0 < b \<and> wants_more ?qs gs")
    case False
    have "sum_list ?qs = min (sum_list ?qs + b) (sum_list gs)"
      using False not_wanting[of ?qs gs] sum_shared_le[of r 0 gs] all by auto
    then show ?thesis using False all by (auto simp: quota_loop.simps[of b])
  next
    case True
    obtain qs b' where q: "quota_round b ?qs gs = (qs, b')" by force
    obtain k where k: "qs = shared r k gs" "b' = 0 \<or> qs = map (min (Suc r)) gs" using quota_round_shared[of b r gs] q by auto
    have sum: "sum_list qs + b' = sum_list ?qs + b" using quota_round_sum[of ?qs gs b] q by simp
    have step: "quota_loop b ?qs gs = quota_loop b' qs gs" using True q by (simp add: quota_loop.simps[of b])
    show ?thesis
    proof (cases "b' = 0")
      case True
      then have "quota_loop b' qs gs = qs" by (subst quota_loop.simps) simp
      then show ?thesis using step k(1) sum True sum_shared_le[of r k gs] by auto
    next
      case False
      then have qs: "qs = map (min (Suc r)) gs" using k(2) by blast
      have "b' < b" using quota_round_spends[of b ?qs gs] True q by simp
      from less[OF this, of "Suc r"] show ?thesis unfolding step qs using sum qs by auto
    qed
  qed
qed

definition real_sources :: "ip_facts \<Rightarrow> initial_answer \<Rightarrow> source_reference list" where
  "real_sources ip a = filter (\<lambda>s. \<not> is_placeholder_source ip s) (ia_sources a)"

text \<open>C37. No answer's sources crowd out another's: the judge sees the first sources of every answer, each answer's share
  differing from another's by at most one line unless it has no more, and 32 lines in all or every source.\<close>

theorem source_lines_are_shared_fairly:
  "\<exists>r k. judge_evidence_source_refs ip answers =
      concat (map (\<lambda>(i, a). take (if i < k then Suc r else r) (real_sources ip a)) (enumerate 0 answers))
    \<and> length (judge_evidence_source_refs ip answers) = min 32 (sum_list (map (\<lambda>a. length (real_sources ip a)) answers))"
proof -
  let ?per = "map (real_sources ip) answers"
  let ?gs = "map length ?per"
  obtain r k where rk: "quota_loop 32 (replicate (length ?per) 0) ?gs = shared r k ?gs"
    "sum_list (shared r k ?gs) = min 32 (sum_list ?gs)"
  proof -
    have z: "map (min 0) ?gs = replicate (length ?per) (0 :: nat)" by (simp add: map_replicate_const[symmetric] comp_def)
    from quota_loop_shared[of 32 0 ?gs] obtain r k where rk: "quota_loop 32 (map (min 0) ?gs) ?gs = shared r k ?gs"
      "sum_list (quota_loop 32 (map (min 0) ?gs) ?gs) = min (sum_list (map (min 0) ?gs) + 32) (sum_list ?gs)" by blast
    show ?thesis by (rule that[of r k]) (use rk z in \<open>simp_all add: sum_list_replicate\<close>)
  qed
  let ?refs = "judge_evidence_source_refs ip answers"
  have refs: "?refs = concat (map (\<lambda>(q, g). take q g) (zip (shared r k ?gs) ?per))"
    using rk(1) by (simp add: judge_evidence_source_refs_def real_sources_def[abs_def] JUDGE_MAX_SOURCE_LINES_def)
  have share: "concat (map (\<lambda>(q, g). take q g) (zip (shared r k (map length per)) per)) =
      concat (map (\<lambda>(i, g). take (if i < k then Suc r else r) g) (enumerate 0 per))" for per :: "source_reference list list"
  proof (rule arg_cong[of _ _ concat], rule nth_equalityI)
    fix i
    assume "i < length (map (\<lambda>(q, g). take q g) (zip (shared r k (map length per)) per))"
    then have i: "i < length per" by simp
    have "shared r k (map length per) ! i = min (if i < k then Suc r else r) (length (per ! i))"
      using i by (auto simp: shared_def nth_append)
    then show "map (\<lambda>(q, g). take q g) (zip (shared r k (map length per)) per) ! i = map (\<lambda>(i, g). take (if i < k then Suc r else r) g) (enumerate 0 per) ! i"
      using i by (simp add: nth_enumerate_eq min_def)
  qed simp
  have enum: "enumerate 0 (map f xs) = map (\<lambda>(i, a). (i, f a)) (enumerate 0 xs)" for f :: "initial_answer \<Rightarrow> source_reference list" and xs
    by (rule nth_equalityI) (simp_all add: nth_enumerate_eq)
  have one: "?refs = concat (map (\<lambda>(i, a). take (if i < k then Suc r else r) (real_sources ip a)) (enumerate 0 answers))"
    unfolding refs share enum by (simp add: comp_def case_prod_unfold)
  have "length (concat (map (\<lambda>(q, g). take q g) (zip qs per))) = sum_list qs" if "list_all2 (\<lambda>q g. q \<le> length g) qs per" for qs :: "nat list" and per :: "source_reference list list"
    using that by (induction rule: list_all2_induct) simp_all
  moreover have "list_all2 (\<lambda>q g. q \<le> length g) (shared r k ?gs) ?per"
    using shared_le[of _ ?gs r k] by (auto simp: list_all2_conv_all_nth)
  ultimately have "length ?refs = min 32 (sum_list ?gs)" using rk(2) refs by simp
  then show ?thesis using one by (auto simp: comp_def)
qed

section \<open>Passages lie in the page, in order\<close>

fun chained :: "nat \<Rightarrow> span list \<Rightarrow> nat \<Rightarrow> bool" where
  "chained lo [] hi = (lo \<le> hi)"
| "chained lo ((a, b) # spans) hi = (lo \<le> a \<and> a < b \<and> chained b spans hi)"

lemma chained_le: "chained lo spans hi \<Longrightarrow> lo \<le> hi"
  by (induction lo spans hi rule: chained.induct) auto

lemma chained_from: "chained m spans hi \<Longrightarrow> lo \<le> m \<Longrightarrow> chained lo spans hi"
  by (cases spans) auto

lemma chained_append: "chained lo (xs @ ys) hi = (\<exists>m. chained lo xs m \<and> chained m ys hi)"
  by (induction xs arbitrary: lo) (auto intro: chained_from)

lemma chained_to: "chained lo spans m \<Longrightarrow> m \<le> hi \<Longrightarrow> chained lo spans hi"
  by (induction lo spans m rule: chained.induct) auto

lemma chained_nth:
  "chained lo spans hi \<Longrightarrow> i < length spans \<Longrightarrow>
    lo \<le> fst (spans ! i) \<and> fst (spans ! i) < snd (spans ! i) \<and> snd (spans ! i) \<le> hi
    \<and> (Suc i < length spans \<longrightarrow> snd (spans ! i) \<le> fst (spans ! Suc i))"
proof (induction lo spans hi arbitrary: i rule: chained.induct)
  case (2 lo a b spans hi)
  show ?case
  proof (cases i)
    case 0
    have "b \<le> fst (spans ! 0)" if "spans \<noteq> []" using 2(2) that by (cases spans) auto
    then show ?thesis using 2(2) chained_le[of b spans hi] 0 by auto
  next
    case (Suc j)
    then show ?thesis using 2(1)[of j] 2(2,3) by auto
  qed
qed simp

lemma line_spans_chained:
  "chained i (line_spans i None s) (i + length s)"
  "b < i \<Longrightarrow> chained b (line_spans i (Some b) s) (i + length s)"
proof -
  have "chained i (line_spans i None s) (i + length s) \<and> (\<forall>b < i. chained b (line_spans i (Some b) s) (i + length s))"
  proof (induction s arbitrary: i)
    case (Cons c s)
    have n: "chained i (line_spans (Suc i) None s) (i + length (c # s))"
      using Cons[of "Suc i"] chained_from[of "Suc i" _ _ i] by simp
    have l: "chained i (line_spans (Suc i) (Some b) s) (i + length (c # s)) = chained i (line_spans (Suc i) (Some b) s) (Suc i + length s)" for b
      by simp
    show ?case using Cons[of "Suc i"] n by (auto intro: chained_from)
  qed simp
  then show "chained i (line_spans i None s) (i + length s)" "b < i \<Longrightarrow> chained b (line_spans i (Some b) s) (i + length s)" by auto
qed

lemma take_while_nth: "length (takeWhile P xs) < length xs \<Longrightarrow> \<not> P (xs ! length (takeWhile P xs))"
  by (rule nth_length_takeWhile)

lemma take_while_before: "j < length xs \<Longrightarrow> \<not> P (xs ! j) \<Longrightarrow> length (takeWhile P xs) \<le> j"
proof (rule ccontr)
  assume j: "\<not> P (xs ! j)" and "\<not> length (takeWhile P xs) \<le> j"
  then have "j < length (takeWhile P xs)" by simp
  from set_takeWhileD[OF nth_mem[OF this]] takeWhile_nth[OF this] j show False by simp
qed

lemma forward_stops:
  assumes "i \<le> j" and "j < length s" and "\<not> is_space (s ! j)"
  shows "i \<le> forward s i \<and> forward s i \<le> j \<and> \<not> is_space (s ! forward s i)"
proof -
  have le: "length (takeWhile is_space (drop i s)) \<le> j - i" using take_while_before[of "j - i" "drop i s" is_space] assms by simp
  then have "\<not> is_space (drop i s ! length (takeWhile is_space (drop i s)))"
    using assms take_while_nth[of is_space "drop i s"] by simp
  then show ?thesis using le assms by (simp add: forward_def)
qed

lemma backward_stops:
  assumes "j < i" and "i \<le> length s" and "\<not> is_space (s ! j)"
  shows "j < backward s i \<and> backward s i \<le> i"
proof -
  have "rev (take i s) ! (i - Suc j) = s ! j" using assms(1,2) by (simp add: rev_nth)
  then have "length (takeWhile is_space (rev (take i s))) \<le> i - Suc j"
    using take_while_before[of "i - Suc j" "rev (take i s)" is_space] assms by simp
  then show ?thesis using assms(1) by (simp add: backward_def)
qed

lemma block_cut_le: "block_cut s start \<le> PASSAGE_CHARS"
proof -
  have "length (slice s start (start + PASSAGE_CHARS + 1)) \<le> PASSAGE_CHARS + 1" by (simp add: slice_def)
  then show ?thesis by (auto simp: block_cut_def rfind_space_def Let_def split: if_splits option.splits)
qed

lemma split_block_chained:
  assumes "start < stop" and "stop \<le> length s" and "\<not> is_space (s ! start)" and "\<not> is_space (s ! (stop - 1))"
  shows "chained start (split_block s start stop) stop"
  using assms
proof (induction s start stop rule: split_block.induct)
  case (1 s start stop)
  show ?case
  proof (cases "stop - start > PASSAGE_CHARS")
    case True
    let ?c = "start + block_cut s start"
    have c: "start < ?c" "?c < stop" using True block_cut_pos[of s start] block_cut_le[of s start] by simp_all
    have f: "?c \<le> forward s ?c" "forward s ?c \<le> stop - 1" "\<not> is_space (s ! forward s ?c)"
      using forward_stops[of ?c "stop - 1" s] c "1.prems" by auto
    have b: "start < backward s ?c" "backward s ?c \<le> ?c" using backward_stops[of start ?c s] c "1.prems" by auto
    have "chained (forward s ?c) (split_block s (forward s ?c) stop) stop"
      using "1.IH"[OF True] f c "1.prems" by simp
    then have "chained (backward s ?c) (split_block s (forward s ?c) stop) stop" by (rule chained_from) (use b f in simp)
    then show ?thesis using True b(1) by (subst split_block.simps) simp
  next
    case False
    then show ?thesis using "1.prems" by (subst split_block.simps) simp
  qed
qed

lemma trim_inside:
  assumes "a < b" and "b \<le> length s" and "trim_span s (a, b) = (a', b')"
  shows "a \<le> a' \<and> a' \<le> b' \<and> b' \<le> b \<and> (a' \<noteq> b' \<longrightarrow> \<not> is_space (s ! a') \<and> \<not> is_space (s ! (b' - 1)))"
proof -
  have len: "length (slice s x b) = b - x" for x using assms(2) by (simp add: slice_def)
  have nth: "slice s x b ! i = s ! (x + i)" if "x + i < b" for x i using that assms(2) by (simp add: slice_def)
  let ?x = "takeWhile is_space (slice s a b)"
  have a': "a' = a + length ?x" and b': "b' = b - length (takeWhile is_space (rev (slice s a' b)))"
    using assms(3) by (auto simp: trim_span_def Let_def)
  have x: "length ?x \<le> b - a" using length_takeWhile_le[of is_space "slice s a b"] len by simp
  let ?y = "takeWhile is_space (rev (slice s a' b))"
  have y: "length ?y \<le> b - a'" using length_takeWhile_le[of is_space "rev (slice s a' b)"] len by simp
  have "\<not> is_space (s ! a') \<and> \<not> is_space (s ! (b' - 1))" if ne: "a' \<noteq> b'"
  proof
    have lt: "a' < b" using ne a' b' x y assms(1) by linarith
    then show "\<not> is_space (s ! a')" using take_while_nth[of is_space "slice s a b"] len nth[of a "length ?x"] a' assms(1) by simp
    have ylt: "length ?y < b - a'" using ne b' y lt by linarith
    have "rev (slice s a' b) ! length ?y = s ! (b - 1 - length ?y)"
      using ylt lt len by (simp add: rev_nth nth)
    then show "\<not> is_space (s ! (b' - 1))" using take_while_nth[of is_space "rev (slice s a' b)"] ylt len b' by simp
  qed
  then show ?thesis using a' b' x y assms(1) by linarith
qed

lemma add_line_chained:
  assumes "chained 0 passages lo" and "joinable \<longrightarrow> passages \<noteq> []" and "lo \<le> a" and "a < b" and "b \<le> length s"
  shows "chained 0 (fst (add_line s (passages, joinable) (a, b))) b
    \<and> (snd (add_line s (passages, joinable) (a, b)) \<longrightarrow> fst (add_line s (passages, joinable) (a, b)) \<noteq> [])"
proof -
  obtain a' b' where t: "trim_span s (a, b) = (a', b')" by force
  note tr = trim_inside[OF assms(4,5) t]
  have base: "chained 0 passages a'" using chained_to[OF assms(1), of a'] assms(3) tr by simp
  consider (empty) "a' = b'" | (long) "a' \<noteq> b'" "b' - a' > PASSAGE_CHARS"
    | (joined) "a' \<noteq> b'" "\<not> b' - a' > PASSAGE_CHARS" "joinable \<and> b' - fst (last passages) \<le> PASSAGE_CHARS"
    | (new) "a' \<noteq> b'" "\<not> b' - a' > PASSAGE_CHARS" "\<not> (joinable \<and> b' - fst (last passages) \<le> PASSAGE_CHARS)" by blast
  then show ?thesis
  proof cases
    case empty
    then show ?thesis using t assms chained_to[OF assms(1), of b] by (simp add: add_line_def)
  next
    case long
    have "chained a' (split_block s a' b') b'" by (rule split_block_chained) (use tr long assms(5) in auto)
    then have "chained 0 (passages @ split_block s a' b') b'" using base chained_append by blast
    then show ?thesis using t long tr chained_to[of 0 _ b' b] by (simp add: add_line_def)
  next
    case joined
    obtain ps x y where ps: "passages = ps @ [(x, y)]" using joined assms(2) by (metis rev_exhaust surj_pair)
    then obtain m where m: "chained 0 ps m" "m \<le> x" "x < y" "y \<le> lo" using assms(1) by (auto simp: chained_append)
    then have "chained 0 (ps @ [(x, b')]) b" unfolding chained_append using tr assms(3) by auto
    then show ?thesis using t joined ps by (simp add: add_line_def)
  next
    case new
    have "chained 0 (passages @ [(a', b')]) b" unfolding chained_append using base tr new by (intro exI[of _ a']) simp
    then show ?thesis using t new by (cases joinable) (simp_all add: add_line_def)
  qed
qed

lemma passages_chained: "chained 0 (passages_of s) (length s)"
proof -
  have "chained 0 (fst (foldl (add_line s) (ps, j) spans)) (length s)"
    if "chained 0 ps lo" "j \<longrightarrow> ps \<noteq> []" "chained lo spans (length s)" for ps j spans lo
    using that
  proof (induction spans arbitrary: ps j lo)
    case Nil
    then show ?case using chained_to by simp
  next
    case (Cons sp spans)
    obtain a b where sp: "sp = (a, b)" by force
    have ab: "lo \<le> a" "a < b" "chained b spans (length s)" using Cons.prems(3) sp by auto
    have "b \<le> length s" by (rule chained_le[OF ab(3)])
    from add_line_chained[OF Cons.prems(1,2) ab(1,2) this]
    have "chained 0 (fst (foldl (add_line s) (add_line s (ps, j) (a, b)) spans)) (length s)"
      using Cons.IH[of "fst (add_line s (ps, j) (a, b))" b "snd (add_line s (ps, j) (a, b))"] ab(3) by simp
    then show ?case by (simp add: sp)
  qed
  from this[of "[]" 0 False "line_spans 0 None s"] show ?thesis
    using line_spans_chained(1)[of 0 s] by (simp add: passages_of_def)
qed

section \<open>The passages picked fit\<close>

fun held_total :: "span list \<Rightarrow> nat list \<Rightarrow> int" where
  "held_total spans [] = 0"
| "held_total spans [i] = int (snd (spans ! i)) - int (fst (spans ! i))"
| "held_total spans (i # j # ks) = int (snd (spans ! i)) - int (fst (spans ! i)) + join_cost spans i j + held_total spans (j # ks)"

lemma held_total_append:
  "xs \<noteq> [] \<Longrightarrow> ys \<noteq> [] \<Longrightarrow> held_total spans (xs @ ys) = held_total spans xs + join_cost spans (last xs) (hd ys) + held_total spans ys"
proof (induction xs rule: induct_list012)
  case (2 x)
  then show ?case by (cases ys) simp_all
qed simp_all

lemma keep_cost_total:
  assumes "xs @ ys = held" and "length xs = bisect_left held i"
  shows "held_total spans (xs @ i # ys) = held_total spans held + keep_cost spans held i"
proof -
  have b: "bisect_left held i > 0 \<longleftrightarrow> xs \<noteq> []" "bisect_left held i < length held \<longleftrightarrow> ys \<noteq> []"
    unfolding assms(2)[symmetric] using assms(1) by auto
  have before: "held ! (bisect_left held i - 1) = last xs" if "xs \<noteq> []"
    using assms that by (metis Suc_pred diff_Suc_1 last_conv_nth length_greater_0_conv lessI nth_append)
  have after: "held ! bisect_left held i = hd ys" if "ys \<noteq> []"
    using assms that by (metis hd_conv_nth nth_append_length_plus add_0_right)
  have cons: "held_total spans (i # ys) = int (snd (spans ! i)) - int (fst (spans ! i)) + (if ys = [] then 0 else join_cost spans i (hd ys) + held_total spans ys)"
    by (cases ys) simp_all
  show ?thesis
  proof (cases "xs = []")
    case True
    then show ?thesis using assms(1) cons b after by (auto simp: keep_cost_def Let_def)
  next
    case False
    have whole: "held_total spans (xs @ i # ys) = held_total spans xs + join_cost spans (last xs) i + held_total spans (i # ys)"
      using held_total_append[OF False, of "i # ys"] by simp
    show ?thesis
    proof (cases "ys = []")
      case True
      then show ?thesis using False whole cons b before assms(1) by (simp add: keep_cost_def Let_def)
    next
      case ys: False
      have "held_total spans held = held_total spans xs + join_cost spans (last xs) (hd ys) + held_total spans ys"
        using held_total_append[OF False ys] assms(1) by simp
      then show ?thesis using False ys whole cons b before after by (simp add: keep_cost_def Let_def)
    qed
  qed
qed

definition held_ok :: "span list \<Rightarrow> nat \<Rightarrow> nat list \<times> int \<Rightarrow> bool" where
  "held_ok spans limit st =
     (sorted_wrt (<) (fst st) \<and> (\<forall>i \<in> set (fst st). i < length spans) \<and> snd st = held_total spans (fst st) \<and> snd st \<le> int limit)"

lemma hold_step_ok:
  assumes "held_ok spans limit st" and "i < length spans" and "i \<notin> set (fst st)"
  shows "held_ok spans limit (hold_step spans limit st i) \<and> set (fst (hold_step spans limit st i)) \<subseteq> insert i (set (fst st))"
proof -
  obtain held used where st: "st = (held, used)" by force
  let ?n = "bisect_left held i"
  show ?thesis
  proof (cases "used + keep_cost spans held i \<le> int limit")
    case True
    let ?xs = "take ?n held" and ?ys = "drop ?n held"
    have sorted: "sorted_wrt (<) held" using assms(1) st by (simp add: held_ok_def)
    have n: "?n \<le> length held" using length_takeWhile_le by (simp add: bisect_left_def)
    have xs: "?xs = takeWhile (\<lambda>k. k < i) held" by (simp add: bisect_left_def takeWhile_eq_take[symmetric])
    have ys: "?ys = dropWhile (\<lambda>k. k < i) held" by (simp add: bisect_left_def dropWhile_eq_drop[symmetric])
    have low: "\<forall>k \<in> set ?xs. k < i" unfolding xs by (auto dest: set_takeWhileD)
    have srt: "sorted_wrt (<) ?ys" using sorted by (simp add: sorted_wrt_drop)
    have high: "\<forall>k \<in> set ?ys. i < k"
    proof (cases ?ys)
      case (Cons y zs)
      have "\<not> y < i" using hd_dropWhile[of "\<lambda>k. k < i" held] Cons ys by (metis list.distinct(1) list.sel(1))
      moreover have "y \<noteq> i" using assms(3) st Cons by (metis fst_conv in_set_dropD list.set_intros(1))
      ultimately have "i < y" by simp
      then show ?thesis using srt Cons by auto
    qed simp
    have "sorted_wrt (<) (?xs @ ?ys)" using sorted by simp
    then have "sorted_wrt (<) ?xs" "sorted_wrt (<) ?ys" "\<forall>x \<in> set ?xs. \<forall>y \<in> set ?ys. x < y" unfolding sorted_wrt_append by blast+
    then have ord: "sorted_wrt (<) (?xs @ i # ?ys)" using low high by (simp add: sorted_wrt_append)
    have "held_total spans (?xs @ i # ?ys) = used + keep_cost spans held i"
      using keep_cost_total[of ?xs ?ys held i spans] n assms(1) st by (simp add: held_ok_def)
    moreover have "set (?xs @ i # ?ys) = insert i (set held)" by (metis Un_insert_right append_take_drop_id list.simps(15) set_append)
    ultimately show ?thesis using True ord assms st by (auto simp: held_ok_def hold_step_def)
  next
    case False
    then show ?thesis using assms(1) st by (auto simp: hold_step_def)
  qed
qed

lemma holds_ok:
  "held_ok spans limit st \<Longrightarrow> distinct order \<Longrightarrow> set order \<inter> set (fst st) = {} \<Longrightarrow> \<forall>i \<in> set order. i < length spans
    \<Longrightarrow> held_ok spans limit (foldl (hold_step spans limit) st order)"
proof (induction order arbitrary: st)
  case (Cons i order)
  from hold_step_ok[OF Cons.prems(1), of i] Cons.prems
  have "held_ok spans limit (hold_step spans limit st i)" "set order \<inter> set (fst (hold_step spans limit st i)) = {}" by auto
  then show ?case using Cons by simp
qed simp

lemma kept_passages_ok:
  "sorted_wrt (<) (kept_passages s claims limit) \<and> (\<forall>i \<in> set (kept_passages s claims limit). i < length (passages_of s))
    \<and> held_total (passages_of s) (kept_passages s claims limit) \<le> int limit"
proof -
  have "held_ok (passages_of s) limit ([], 0)" by (simp add: held_ok_def)
  from holds_ok[OF this, of "sort_key (\<lambda>i. - int (passage_scores s claims ! i)) [0..<length (passages_of s)]"]
  show ?thesis by (simp add: held_ok_def kept_passages_def Let_def)
qed

lemma slice_part: "a \<le> b \<Longrightarrow> b \<le> length s \<Longrightarrow> drop a s = slice s a b @ drop b s"
proof -
  assume "a \<le> b" "b \<le> length s"
  then have "drop a (take b s @ drop b s) = slice s a b @ drop b s" unfolding drop_append by (simp add: slice_def)
  then show ?thesis unfolding append_take_drop_id .
qed

lemma sublist_slice: "sublist (slice s a b) s"
  using append_take_drop_id[of b s] append_take_drop_id[of a "take b s"] unfolding sublist_def slice_def by (metis append.assoc)

lemma subseq_drop: "m \<le> n \<Longrightarrow> subseq (drop n s) (drop m s)"
  by (metis drop_drop le_add_diff_inverse2 suffix_drop suffix_imp_subseq)

lemma chained_later: "chained lo spans hi \<Longrightarrow> i < j \<Longrightarrow> j < length spans \<Longrightarrow> snd (spans ! i) \<le> fst (spans ! j)"
proof (induction j)
  case (Suc j)
  show ?case
  proof (cases "i = j")
    case True
    then show ?thesis using chained_nth[OF Suc.prems(1), of j] Suc.prems by simp
  next
    case False
    then have "snd (spans ! i) \<le> fst (spans ! j)" using Suc by simp
    then show ?thesis using chained_nth[OF Suc.prems(1), of j] Suc.prems by simp
  qed
qed simp

definition runs_ok :: "string \<Rightarrow> span list \<Rightarrow> nat \<Rightarrow> nat list \<Rightarrow> bool" where
  "runs_ok s spans first ks =
     (let runs = runs_from s spans first ks in
      runs \<noteq> [] \<and> int (length (join PASSAGE_SEPARATOR runs)) = int (fst (spans ! hd ks)) - int (fst (spans ! first)) + held_total spans ks
      \<and> subseq (concat runs) (drop (fst (spans ! first)) s) \<and> list_all (\<lambda>p. sublist p s) runs)"

lemma runs_fit:
  assumes "chained 0 spans (length s)"
  shows "sorted_wrt (<) (i # ks) \<Longrightarrow> \<forall>k \<in> set (i # ks). k < length spans \<Longrightarrow> fst (spans ! first) \<le> fst (spans ! i) \<Longrightarrow>
    runs_ok s spans first (i # ks)"
proof (induction ks arbitrary: i first)
  case Nil
  have c: "fst (spans ! i) < snd (spans ! i)" "snd (spans ! i) \<le> length s" using chained_nth[OF assms, of i] Nil by simp_all
  have "subseq (slice s (fst (spans ! first)) (snd (spans ! i))) (drop (fst (spans ! first)) s)"
    using slice_part[of "fst (spans ! first)" "snd (spans ! i)" s] c Nil by (metis less_imp_le order_trans prefixI prefix_imp_subseq)
  moreover have "length (slice s (fst (spans ! first)) (snd (spans ! i))) = snd (spans ! i) - fst (spans ! first)"
    using c by (simp add: slice_def)
  ultimately show ?case using c Nil sublist_slice by (simp add: runs_ok_def of_nat_diff)
next
  case (Cons j ks)
  have ij: "i < j" "j < length spans" "i < length spans" using Cons.prems by simp_all
  have c: "fst (spans ! i) < snd (spans ! i)" "snd (spans ! i) \<le> length s" using chained_nth[OF assms, of i] ij by simp_all
  have later: "snd (spans ! i) \<le> fst (spans ! j)" by (rule chained_later[OF assms ij(1,2)])
  show ?case
  proof (cases "j = Suc i")
    case True
    have "runs_ok s spans first (j # ks)" by (rule Cons.IH) (use Cons.prems later c in auto)
    then show ?thesis using True by (simp add: runs_ok_def join_cost_def Let_def)
  next
    case False
    let ?p = "slice s (fst (spans ! first)) (snd (spans ! i))" and ?rest = "runs_from s spans j (j # ks)"
    have ok: "runs_ok s spans j (j # ks)" by (rule Cons.IH) (use Cons.prems in auto)
    then have ne: "?rest \<noteq> []" by (simp add: runs_ok_def Let_def)
    then obtain q qs where q: "?rest = q # qs" by (cases ?rest) auto
    have len: "length ?p = snd (spans ! i) - fst (spans ! first)" using c by (simp add: slice_def)
    have "int (length (join PASSAGE_SEPARATOR (?p # ?rest))) =
        int (length ?p) + int (length PASSAGE_SEPARATOR) + int (length (join PASSAGE_SEPARATOR ?rest))"
      unfolding q by simp
    also have "\<dots> = int (fst (spans ! i)) - int (fst (spans ! first)) + held_total spans (i # j # ks)"
      using ok False len c Cons.prems(3) by (simp add: runs_ok_def join_cost_def Let_def of_nat_diff)
    finally have l: "int (length (join PASSAGE_SEPARATOR (?p # ?rest))) = int (fst (spans ! i)) - int (fst (spans ! first)) + held_total spans (i # j # ks)" .
    have "subseq (concat ?rest) (drop (snd (spans ! i)) s)"
      using ok subseq_drop[OF later, of s] by (auto simp: runs_ok_def Let_def dest: subseq_order.trans)
    then have "subseq (concat (?p # ?rest)) (drop (fst (spans ! first)) s)"
      using slice_part[of "fst (spans ! first)" "snd (spans ! i)" s] c Cons.prems(3) by (simp add: list_emb_append_mono)
    then show ?thesis using l False ok sublist_slice by (simp add: runs_ok_def Let_def)
  qed
qed

text \<open>C36. The passages sent for a long page are the page's own text, cut from it in its order and never over the limit: pieces
  of the page joined by the gap mark, the marks counted.\<close>

theorem picked_passages_are_the_page:
  "length (pick_passages s claims limit) \<le> limit
   \<and> (\<exists>pieces. pick_passages s claims limit = join PASSAGE_SEPARATOR pieces
        \<and> list_all (\<lambda>p. sublist p s) pieces \<and> subseq (concat pieces) s)"
proof (cases "length s \<le> limit")
  case True
  then show ?thesis by (intro conjI exI[of _ "[s]"]) (simp_all add: pick_passages_def)
next
  case False
  let ?k = "kept_passages s claims limit" and ?spans = "passages_of s"
  show ?thesis
  proof (cases ?k)
    case Nil
    then show ?thesis using False by (intro conjI exI[of _ "[]"]) (simp_all add: pick_passages_def Let_def)
  next
    case (Cons i ks)
    have p: "pick_passages s claims limit = join PASSAGE_SEPARATOR (runs_from s ?spans i ?k)"
      using False Cons by (simp add: pick_passages_def Let_def)
    have ok: "runs_ok s ?spans i ?k"
      unfolding Cons by (rule runs_fit[OF passages_chained]) (use kept_passages_ok[of s claims limit] Cons in auto)
    then have "length (pick_passages s claims limit) \<le> limit"
      using kept_passages_ok[of s claims limit] Cons unfolding p by (simp add: runs_ok_def Let_def)
    moreover have "subseq (concat (runs_from s ?spans i ?k)) s"
      using ok subseq_drop[of 0 "fst (?spans ! i)" s] by (auto simp: runs_ok_def Let_def dest: subseq_order.trans)
    ultimately show ?thesis using ok p by (auto simp: runs_ok_def Let_def)
  qed
qed

section \<open>The pages sent\<close>

lemma page_texts_bound:
  "length (page_texts clean rows held) \<le> JUDGE_MAX_SOURCE_PAGES - held \<and> (\<forall>x \<in> set (page_texts clean rows held). \<exists>row. fst (snd x) = clean row)"
proof (induction rows arbitrary: held)
  case (Cons row rows)
  have "length (page_texts clean rows (held + 1)) \<le> JUDGE_MAX_SOURCE_PAGES - (held + 1)" using Cons[of "held + 1"] by blast
  then have "Suc (length (page_texts clean rows (held + 1))) \<le> JUDGE_MAX_SOURCE_PAGES - held" if "held < JUDGE_MAX_SOURCE_PAGES" using that by linarith
  then show ?case using Cons[of "held + 1"] Cons[of held] by auto
qed simp

definition unseen :: "(string \<times> nat) list \<Rightarrow> (string \<times> string) list \<Rightarrow> nat" where
  "unseen first texts = length (filter (\<lambda>(a, t). map_of first a = None) texts)"

lemma unseen_le: "unseen ((a, n) # first) xs \<le> unseen first xs"
  by (induction xs) (auto simp: unseen_def split: if_splits)

lemma unseen_less:
  assumes "map_of first a = None" and "map_of texts a = Some t"
  shows "unseen ((a, n) # first) texts < unseen first texts"
  using assms(2)
proof (induction texts)
  case (Cons x texts)
  show ?case
  proof (cases "fst x = a")
    case True
    then show ?thesis using assms(1) unseen_le[of a n first texts] by (cases x) (simp add: unseen_def)
  next
    case False
    then show ?thesis using Cons by (cases x) (auto simp: unseen_def)
  qed
qed simp

lemma page_lines_count:
  "length (filter (\<lambda>e. fst e \<noteq> []) (page_lines texts first pages addresses)) \<le> unseen first texts
   \<and> (\<forall>e \<in> set (page_lines texts first pages addresses). fst e \<noteq> [] \<longrightarrow> fst e \<in> snd ` set texts)
   \<and> length (page_lines texts first pages addresses) = length addresses"
proof (induction addresses arbitrary: first pages)
  case (Cons a addresses)
  show ?case
  proof (cases "map_of first a")
    case None
    show ?thesis
    proof (cases "map_of texts a")
      case None
      show ?thesis using \<open>map_of first a = None\<close> None Cons.IH[of "(a, length pages + 1) # first" "pages @ [[]]"] unseen_le[of a "length pages + 1" first texts]
        by (auto simp: Let_def intro: order_trans)
    next
      case (Some t)
      have "t \<in> snd ` set texts" using map_of_SomeD[OF Some] by force
      then show ?thesis using \<open>map_of first a = None\<close> Some unseen_less[OF \<open>map_of first a = None\<close> Some, of "length pages + 1"]
          Cons.IH[of "(a, length pages + 1) # first" "pages @ [t]"]
        by (auto simp: Let_def)
    qed
  next
    case (Some l)
    then show ?thesis using Cons.IH[of first "pages @ [[]]"] by auto
  qed
qed simp

definition points_back :: "string list \<Rightarrow> string list \<Rightarrow> nat \<Rightarrow> nat \<Rightarrow> bool" where
  "points_back pages addresses i earlier =
     (earlier = 0 \<or> earlier \<le> i \<and> addresses ! (earlier - 1) = addresses ! i \<and> pages ! (earlier - 1) \<noteq> [] \<and> pages ! i = [])"

lemma page_lines_back:
  assumes "length pages = length done_addresses"
    and "\<forall>a l. map_of first a = Some l \<longrightarrow> 1 \<le> l \<and> l \<le> length pages \<and> done_addresses ! (l - 1) = a"
    and "i < length addresses"
  shows "points_back (pages @ map fst (page_lines texts first pages addresses)) (done_addresses @ addresses)
    (length pages + i) (snd (page_lines texts first pages addresses ! i))"
  using assms
proof (induction addresses arbitrary: first pages done_addresses i)
  case (Cons a addresses)
  define page where "page = (case map_of first a of Some l \<Rightarrow> [] | None \<Rightarrow> (case map_of texts a of None \<Rightarrow> [] | Some t \<Rightarrow> t))"
  define first' where "first' = (case map_of first a of Some l \<Rightarrow> first | None \<Rightarrow> (a, length pages + 1) # first)"
  define pointer where "pointer = (case map_of first a of Some l \<Rightarrow> (if pages ! (l - 1) \<noteq> [] then l else 0) | None \<Rightarrow> 0)"
  have step: "page_lines texts first pages (a # addresses) = (page, pointer) # page_lines texts first' (pages @ [page]) addresses"
    by (simp add: page_def first'_def pointer_def split: option.split)
  show ?case
  proof (cases i)
    case 0
    have "points_back (pages @ xs) (done_addresses @ a # addresses) (length pages) pointer" if "xs = page # ys" for xs ys
    proof (cases "map_of first a")
      case (Some l)
      then have "1 \<le> l" "l \<le> length pages" "done_addresses ! (l - 1) = a" using Cons.prems(2) by auto
      then show ?thesis using Some Cons.prems(1) that by (simp add: points_back_def pointer_def page_def nth_append)
    qed (simp add: points_back_def pointer_def)
    then show ?thesis using 0 step by simp
  next
    case (Suc j)
    have "1 \<le> l \<and> l \<le> length (pages @ [page]) \<and> (done_addresses @ [a]) ! (l - 1) = b" if "map_of first' b = Some l" for b l
    proof (cases "map_of first b")
      case (Some l')
      then have "l' = l" using that by (cases "map_of first a") (auto simp: first'_def split: if_splits)
      then have "1 \<le> l" "l \<le> length pages" "done_addresses ! (l - 1) = b" using Some Cons.prems(2) by auto
      moreover from this(1,2) have "l - 1 < length done_addresses" using Cons.prems(1) by linarith
      ultimately show ?thesis by (simp add: nth_append)
    next
      case None
      then have "b = a" "l = length pages + 1" using that by (cases "map_of first a"; auto simp: first'_def split: if_splits)+
      then show ?thesis using Cons.prems(1) by simp
    qed
    then have "points_back ((pages @ [page]) @ map fst (page_lines texts first' (pages @ [page]) addresses)) ((done_addresses @ [a]) @ addresses)
        (length (pages @ [page]) + j) (snd (page_lines texts first' (pages @ [page]) addresses ! j))"
      using Cons.IH[of "pages @ [page]" "done_addresses @ [a]" first' j] Cons.prems Suc by simp
    then show ?thesis unfolding step Suc by simp
  qed
qed simp

lemma clean_page_bound: "length (clean_page st raw) \<le> JUDGE_MAX_SOURCE_PAGE_CHARS"
  by (simp add: clean_page_def)

text \<open>C38. What is read of the cited pages stays within what the judge's reserve is priced for, and each source line has one
  entry: at most eight texts of at most 4,000 characters, and a line that says another's page is the same names an
  earlier line of the same address that carries a text.\<close>

theorem judge_pages_are_bounded:
  "let jp = judge_source_pages_of st fetch answers;
       addresses = map (\<lambda>s. canonical_address (sr_url s)) (judge_evidence_source_refs (ss_ip st) answers) in
   length (jp_pages jp) = length addresses \<and> length (jp_same_as jp) = length addresses
   \<and> length (filter (\<lambda>p. p \<noteq> []) (jp_pages jp)) \<le> 8
   \<and> list_all (\<lambda>p. length p \<le> 4000) (jp_pages jp)
   \<and> list_all (\<lambda>i. points_back (jp_pages jp) addresses i (jp_same_as jp ! i)) [0..<length addresses]"
proof -
  define addresses where "addresses = map (\<lambda>s. canonical_address (sr_url s)) (judge_evidence_source_refs (ss_ip st) answers)"
  obtain clean rows where "\<exists>texts. texts = map (\<lambda>(a, t, oc). (a, t)) (page_texts clean rows 0)
      \<and> jp_pages (judge_source_pages_of st fetch answers) = map fst (page_lines texts [] [] addresses)
      \<and> jp_same_as (judge_source_pages_of st fetch answers) = map snd (page_lines texts [] [] addresses)
      \<and> (\<forall>row. length (clean row) \<le> JUDGE_MAX_SOURCE_PAGE_CHARS)"
    by (simp add: judge_source_pages_of_def Let_def addresses_def) (metis (no_types, lifting) clean_page_bound)
  then obtain texts where texts: "texts = map (\<lambda>(a, t, oc). (a, t)) (page_texts clean rows 0)"
      and pages: "jp_pages (judge_source_pages_of st fetch answers) = map fst (page_lines texts [] [] addresses)"
      and pointer: "jp_same_as (judge_source_pages_of st fetch answers) = map snd (page_lines texts [] [] addresses)"
      and clean: "\<forall>row. length (clean row) \<le> JUDGE_MAX_SOURCE_PAGE_CHARS" by blast
  have n: "unseen [] texts \<le> 8" using page_texts_bound[of clean rows 0] texts by (simp add: unseen_def JUDGE_MAX_SOURCE_PAGES_def)
  have len: "length t \<le> 4000" if "t \<in> snd ` set texts" for t
  proof -
    have "t \<in> (\<lambda>x. fst (snd x)) ` set (page_texts clean rows 0)" using that unfolding texts by (auto simp: image_image case_prod_unfold)
    then obtain x where x: "x \<in> set (page_texts clean rows 0)" "t = fst (snd x)" by blast
    have "\<exists>row. fst (snd x) = clean row" using page_texts_bound[of clean rows 0] x(1) by blast
    then obtain row where "t = clean row" using x(2) by blast
    then show ?thesis using clean by (simp add: JUDGE_MAX_SOURCE_PAGE_CHARS_def)
  qed
  note count = page_lines_count[of texts "[]" "[]" addresses]
  have bounded: "length p \<le> 4000" if mem: "p \<in> set (map fst (page_lines texts [] [] addresses))" for p
  proof (cases "p = []")
    case False
    obtain e where e: "e \<in> set (page_lines texts [] [] addresses)" "p = fst e" using mem unfolding set_map by blast
    then have "p \<in> snd ` set texts" using count False by blast
    then show ?thesis by (rule len)
  qed simp
  have points: "points_back (map fst (page_lines texts [] [] addresses)) addresses i (map snd (page_lines texts [] [] addresses) ! i)"
    if "i < length addresses" for i
    using page_lines_back[of "[]" "[]" "[]" i addresses texts] that count by simp
  show ?thesis unfolding Let_def addresses_def[symmetric] pages pointer
    using count n bounded points by (auto simp: filter_map comp_def list_all_iff)
qed

section \<open>A verdict is whole\<close>

lemma score_range: "score_of j = Some n \<Longrightarrow> 0 \<le> n \<and> n \<le> 5"
  by (auto simp: score_of_def split: json.splits if_splits)

text \<open>Nothing less than a verdict counts as one: when the judge's call ends with a verdict, its reply was a JSON object
  of exactly the six keys, its scores are between 0 and 5, and the outcome says so; any other reply is no verdict.\<close>

theorem only_a_whole_verdict_counts:
  assumes "jd_result (judge_call js call (parse_judge_verdict loads)) = Inr (Some v)"
  shows "jd_last_outcome (judge_call js call (parse_judge_verdict loads)) = Some VERDICT
    \<and> (\<exists>r d. call = Call_returns (Some r) \<and> loads (lr_answer_text r) = Parsed (JObj d) \<and> set (map fst d) = set VERDICT_KEYS)
    \<and> 0 \<le> jv_faithfulness v \<and> jv_faithfulness v \<le> 5 \<and> 0 \<le> jv_grounding v \<and> jv_grounding v \<le> 5 \<and> length (jv_rationale v) \<le> 4000"
proof -
  obtain r where r: "call = Call_returns (Some r)" "judge_configured js" "parse_judge_verdict loads (lr_answer_text r) = Inr (Some v)"
    using assms by (auto simp: judge_call_def Let_def split: if_splits call_end.splits option.splits)
  then obtain d where d: "loads (lr_answer_text r) = Parsed (JObj d)" "validate_verdict d = Some v"
    by (auto simp: parse_judge_verdict_def parse_with_def split: if_splits loads_result.splits json.splits)
  obtain f g b rk why m where v: "score_of (jget d ''faithfulness'') = Some f" "score_of (jget d ''grounding'') = Some g"
      "jget d ''disagreement_preserved'' = JBool b" "risk_of (jget d ''hallucination_risk'') = Some rk" "jget d ''rationale'' = JStr why"
      "jget d ''model_id'' = JStr m" "length why \<le> MAX_RATIONALE"
      "v = \<lparr>jv_faithfulness = f, jv_grounding = g, jv_disagreement_preserved = b, jv_risk = rk, jv_rationale = why, jv_model_id = m\<rparr>"
    using d(2) by (auto simp: validate_verdict_def split: if_splits option.splits json.splits)
  have only: "set (map fst d) \<subseteq> set VERDICT_KEYS" using d(2) by (auto simp: validate_verdict_def list_all_iff split: if_splits)
  have present: "k \<in> set (map fst d)" if "jget d k \<noteq> JNull" for k
  proof -
    have "map_of d k \<noteq> None" using that by (auto simp: jget_def split: option.splits)
    then show ?thesis by (auto simp: map_of_eq_None_iff)
  qed
  have "score_of JNull = None" "risk_of JNull = None" by (simp_all add: score_of_def risk_of_def)
  then have "\<forall>k \<in> set VERDICT_KEYS. jget d k \<noteq> JNull" using v by (auto simp: VERDICT_KEYS_def)
  then have "set (map fst d) = set VERDICT_KEYS" using only present by blast
  then show ?thesis using r d v score_range[of _ f] score_range[of _ g]
    by (simp add: judge_call_def Let_def MAX_RATIONALE_def)
qed

definition sample_verdict_json :: "(string, json) dict" where
  "sample_verdict_json = [(''faithfulness'', JInt 4), (''grounding'', JInt 5), (''disagreement_preserved'', JBool True),
     (''hallucination_risk'', JStr ''low''), (''rationale'', JStr ''ok''), (''model_id'', JStr ''m'')]"

definition sample_judge :: judge_settings where
  "sample_judge = \<lparr>js_api_key = ''k'', js_model_id = ''m'', js_max_tokens = 900, js_source_fetch_enabled = False\<rparr>"

definition sample_reply :: live_result where
  "sample_reply = \<lparr>lr_answer_text = ''v'', lr_usage = None, lr_sources = [], lr_is_truncated = False, lr_searched = False\<rparr>"

lemma sample_validates: "\<exists>v. validate_verdict sample_verdict_json = Some v"
  by (simp add: validate_verdict_def sample_verdict_json_def VERDICT_KEYS_def jget_def score_of_def risk_of_def MAX_RATIONALE_def)

lemma only_a_whole_verdict_counts_witness:
  "jd_last_outcome (judge_call sample_judge (Call_returns (Some sample_reply)) (parse_judge_verdict (\<lambda>s. Parsed (JObj sample_verdict_json)))) = Some VERDICT"
proof -
  obtain v where v: "validate_verdict sample_verdict_json = Some v" using sample_validates by blast
  have "jd_result (judge_call sample_judge (Call_returns (Some sample_reply)) (parse_judge_verdict (\<lambda>s. Parsed (JObj sample_verdict_json)))) = Inr (Some v)"
    using v by (simp add: judge_call_def judge_configured_def sample_judge_def sample_reply_def parse_judge_verdict_def parse_with_def strip_def lstrip_def
        rstrip_def char_eval)
  from only_a_whole_verdict_counts[OF this] show ?thesis by blast
qed

end
