(* ===== verification/Evaluation.thy ===== *)
theory Evaluation
  imports Judge_Evidence Consensus
begin

text \<open>
  The run evaluation of \<^verbatim>\<open>evaluation.py\<close>: which answers are refusals, the deterministic signals of a run, its
  advisory labels, the composite, the trust score served, and the entry point with its judge. Ratios and scores are exact
  rationals: Python's floats compare alike with the cuts used, and the score can differ from a float's at a tie only.
\<close>

section \<open>Refusals\<close>

definition REFUSAL_PHRASES :: "string list" where
  "REFUSAL_PHRASES =
     [''i can'' @ [CHR 0x27] @ ''t help'', ''i cannot help'', ''cannot help with that'', ''i can'' @ [CHR 0x27] @ ''t provide'', ''i cannot provide'',
      ''i can'' @ [CHR 0x27] @ ''t assist'', ''i cannot assist'', ''i can'' @ [CHR 0x27] @ ''t write'', ''i cannot write'',
      ''i can'' @ [CHR 0x27] @ ''t do that'', ''i am unable to'', ''i'' @ [CHR 0x27] @ ''m unable to'', ''unable to assist with'',
      ''i won'' @ [CHR 0x27] @ ''t'', ''i will not write'', ''i will not provide'', ''i am not able to'', ''i'' @ [CHR 0x27] @ ''m not able to'']"

definition REFUSAL_MAJORITY_THRESHOLD :: rat where "REFUSAL_MAJORITY_THRESHOLD = 1 / 2"

text \<open>\<^verbatim>\<open>[.!?]["'\u2019)\]]*(?:\s|\Z)|\n\<close> at the start of a text: how many characters it takes.\<close>

definition is_closer :: "char \<Rightarrow> bool" where
  "is_closer c = (c \<in> {CHR 0x22, CHR 0x27, CHR 0x16, CHR '')'', CHR '']''})"

definition boundary_here :: "string \<Rightarrow> nat option" where
  "boundary_here s =
     (case s of
        [] \<Rightarrow> None
      | c # r \<Rightarrow>
          if c \<in> {CHR ''.'', CHR ''!'', CHR ''?''} then
            (case dropWhile is_closer r of
               [] \<Rightarrow> Some (length s)
             | d # t \<Rightarrow> if is_space d then Some (length s - length t) else None)
          else if c = CHR 0x0A then Some 1 else None)"

fun find_boundary :: "nat \<Rightarrow> string \<Rightarrow> (nat \<times> nat) option" where
  "find_boundary i [] = None"
| "find_boundary i (c # s) = (case boundary_here (c # s) of Some n \<Rightarrow> Some (i, i + n) | None \<Rightarrow> find_boundary (Suc i) s)"

lemma boundary_pos: "boundary_here s = Some n \<Longrightarrow> 0 < n"
proof -
  assume b: "boundary_here s = Some n"
  then obtain c r where s: "s = c # r" by (cases s) (auto simp: boundary_here_def)
  have "length t \<le> length r" if "dropWhile is_closer r = d # t" for d t
    using length_dropWhile_le[of is_closer r] that by simp
  then show ?thesis using b s by (fastforce simp: boundary_here_def split: if_splits list.splits)
qed

lemma find_boundary_pos: "find_boundary i s = Some (a, b) \<Longrightarrow> a < b"
proof (induction i s rule: find_boundary.induct)
  case (2 i c s)
  then show ?case by (auto dest!: boundary_pos split: option.splits)
qed simp

function split_first_sentence_of :: "string \<Rightarrow> string \<times> string" where
  "split_first_sentence_of rest =
     (if rest = [] then ([], [])
      else (case find_boundary 0 rest of
          None \<Rightarrow> if list_ex is_word rest then (rest, []) else ([], [])
        | Some (start, stop) \<Rightarrow>
            let head = take start rest; tail = lstrip (drop stop rest) in
            if list_ex is_word head then (head, tail) else split_first_sentence_of tail))"
  by pat_completeness auto
termination
proof (relation "measure length")
  fix rest p start stop head tail
  assume a: "rest \<noteq> []" "find_boundary 0 rest = Some p" "(start, stop) = p" "tail = lstrip (drop stop rest)"
  then have "0 < stop" using find_boundary_pos[of 0 rest start stop] by simp
  then have "length (drop stop rest) < length rest" using a(1) by simp
  then show "(tail, rest) \<in> measure length" using a(4) length_lstrip_le[of "drop stop rest"] by simp
qed simp

declare split_first_sentence_of.simps [simp del]

definition split_first_sentence :: "string \<Rightarrow> string \<times> string" where
  "split_first_sentence s = split_first_sentence_of (lstrip s)"

text \<open>\<^verbatim>\<open>\bcan not\b\<close>, every match rewritten.\<close>

function fold_can_not :: "bool \<Rightarrow> string \<Rightarrow> string" where
  "fold_can_not after_word s =
     (case s of
        [] \<Rightarrow> []
      | c # r \<Rightarrow>
          if \<not> after_word \<and> starts_with ''can not'' s \<and> at_word_end (drop 7 s) then ''cannot'' @ fold_can_not True (drop 7 s)
          else c # fold_can_not (is_word c) r)"
  by pat_completeness auto
termination by (relation "measure (\<lambda>(a, s). length s)") auto

declare fold_can_not.simps [simp del]

definition normalize_decline_spelling :: "string \<Rightarrow> string" where
  "normalize_decline_spelling s = fold_can_not False (map (\<lambda>c. if c = CHR 0x16 then CHR 0x27 else c) s)"

text \<open>\<^verbatim>\<open>\b(?:sorry|apolog\w*)\b\<close>: the second alternative takes the rest of its word.\<close>

fun apology_in :: "bool \<Rightarrow> string \<Rightarrow> bool" where
  "apology_in after_word [] = False"
| "apology_in after_word (c # s) =
     (\<not> after_word \<and> (starts_with ''sorry'' (c # s) \<and> at_word_end (drop 5 (c # s)) \<or> starts_with ''apolog'' (c # s))
      \<or> apology_in (is_word c) s)"

definition declines :: "string \<Rightarrow> bool" where "declines s = list_ex (\<lambda>p. contains p s) REFUSAL_PHRASES"

definition is_pure_apology :: "string \<Rightarrow> bool" where "is_pure_apology s = (apology_in False s \<and> \<not> declines s)"

definition detect_refusal :: "string \<Rightarrow> bool" where
  "detect_refusal s =
     (if \<not> visible s then False
      else
        let lowered = normalize_decline_spelling (lower s);
            (anchor, rest) = split_first_sentence lowered;
            anchor = (if is_pure_apology anchor then fst (split_first_sentence rest) else anchor)
        in declines anchor)"

section \<open>Signals\<close>

record layer_a_signals =
  la_citation_coverage_ratio :: rat
  la_citation_marker_grounding :: "rat option"
  la_unverifiable_marker_count :: nat
  la_unverifiable_marker_ratio :: "rat option"
  la_agreement_ratio :: rat
  la_live_ratio :: rat
  la_completeness :: rat
  la_false_consensus_preserved :: bool
  la_polar_disagreement_detected :: bool
  la_disagreement_suppressed :: bool
  la_decision_support_framing_present :: bool
  la_high_stakes_warning_required :: bool
  la_high_stakes_warning_present :: bool
  la_uncertainty_surfaced :: bool
  la_refusal_detected :: bool
  la_run_wholly_refused :: bool

definition in_unit :: "rat \<Rightarrow> bool" where "in_unit x = (0 \<le> x \<and> x \<le> 1)"

text \<open>The bounds of the model's fields; a value outside makes the construction raise.\<close>

definition valid_signals :: "layer_a_signals \<Rightarrow> bool" where
  "valid_signals la =
     (in_unit (la_citation_coverage_ratio la) \<and> (case la_citation_marker_grounding la of None \<Rightarrow> True | Some g \<Rightarrow> in_unit g)
      \<and> (case la_unverifiable_marker_ratio la of None \<Rightarrow> True | Some g \<Rightarrow> in_unit g)
      \<and> in_unit (la_agreement_ratio la) \<and> in_unit (la_live_ratio la) \<and> in_unit (la_completeness la))"

definition ratio :: "nat \<Rightarrow> nat \<Rightarrow> rat" where "ratio n m = (if m = 0 then 0 else of_nat n / of_nat m)"

definition ratio_option :: "nat \<Rightarrow> nat \<Rightarrow> rat option" where "ratio_option n m = (if m = 0 then None else Some (of_nat n / of_nat m))"

definition substantive :: "initial_answer \<Rightarrow> bool" where
  "substantive a = (ia_status a = ANSWER_COMPLETED \<and> visible (ia_answer_text a))"

definition uncertainty_surfaced :: "final_synthesis option \<Rightarrow> bool" where
  "uncertainty_surfaced fs = (case fs of None \<Rightarrow> False | Some fs \<Rightarrow> length (strip (fs_uncertainty fs)) \<ge> 20)"

definition synthesis_texts :: "final_synthesis option \<Rightarrow> string list" where
  "synthesis_texts fs = (case fs of None \<Rightarrow> []
     | Some fs \<Rightarrow> [fs_consensus fs, fs_disagreement fs, fs_source_support fs, fs_uncertainty fs, fs_recommendation fs])"

definition coverage_of_answers :: "initial_answer list \<Rightarrow> rat option" where
  "coverage_of_answers answers =
     map_option cc_sourced_answer_ratio
       (calculate_citation_coverage (sum_list (map (\<lambda>a. cc_answer_count (ia_citation_coverage a)) answers))
         (length (filter (\<lambda>a. cc_answer_count (ia_citation_coverage a) > 0 \<and> list_ex (\<lambda>s. \<not> sr_is_fallback s) (ia_sources a)) answers)))"

definition run_scopes :: "initial_answer list \<Rightarrow> final_synthesis option \<Rightarrow> citation_scope list" where
  "run_scopes answers fs = map (\<lambda>a. (ia_answer_text a, ia_sources a)) answers @ map (\<lambda>t. (t, [])) (synthesis_texts fs)"

datatype faithfulness_label = UNFAITHFUL | PARTIAL | FAITHFUL

record run_evaluation =
  re_signals :: layer_a_signals
  re_faithfulness_label :: faithfulness_label
  re_hallucination_risk :: risk
  re_judge :: "judge_verdict option"

definition GROUNDING_FABRICATION_THRESHOLD :: rat where "GROUNDING_FABRICATION_THRESHOLD = 1 / 2"
definition GROUNDING_GOOD_THRESHOLD :: rat where "GROUNDING_GOOD_THRESHOLD = 4 / 5"

fun trust_order :: "faithfulness_label \<Rightarrow> nat" where
  "trust_order UNFAITHFUL = 0"
| "trust_order PARTIAL = 1"
| "trust_order FAITHFUL = 2"

definition cap_faithfulness :: "faithfulness_label \<Rightarrow> faithfulness_label \<Rightarrow> faithfulness_label" where
  "cap_faithfulness label most = (if trust_order label \<le> trust_order most then label else most)"

definition classify_faithfulness :: "layer_a_signals \<Rightarrow> faithfulness_label" where
  "classify_faithfulness la =
     (let fabricated = (case la_citation_marker_grounding la of None \<Rightarrow> False | Some g \<Rightarrow> g < GROUNDING_FABRICATION_THRESHOLD);
          base = (if fabricated then UNFAITHFUL
                  else if la_citation_marker_grounding la = None \<or> la_live_ratio la < 1 \<or> la_completeness la < 1 then PARTIAL
                  else FAITHFUL)
      in if la_refusal_detected la then cap_faithfulness base PARTIAL else base)"

definition classify_hallucination_risk :: "layer_a_signals \<Rightarrow> risk" where
  "classify_hallucination_risk la =
     (case la_citation_marker_grounding la of
        Some g \<Rightarrow> if g < GROUNDING_FABRICATION_THRESHOLD then RISK_HIGH
                  else if g \<ge> GROUNDING_GOOD_THRESHOLD then RISK_LOW else RISK_MEDIUM
      | None \<Rightarrow> if la_refusal_detected la then RISK_LOW else RISK_MEDIUM)"

datatype presentation = REPORTABLE | INDETERMINATE

definition presentation_confidence :: "layer_a_signals \<Rightarrow> faithfulness_label \<Rightarrow> risk \<Rightarrow> presentation" where
  "presentation_confidence la label r =
     (if la_unverifiable_marker_count la = 0 then REPORTABLE
      else if label = FAITHFUL \<or> r = RISK_LOW then INDETERMINATE
      else REPORTABLE)"

record eval_env =
  ee_ip :: ip_facts
  ee_markdown :: "string \<Rightarrow> md_token list"

definition layer_a_of ::
  "eval_env \<Rightarrow> initial_answer list \<Rightarrow> final_synthesis option \<Rightarrow> agreement_summary \<Rightarrow> nat option \<Rightarrow> rat \<Rightarrow> layer_a_signals" where
  "layer_a_of ee answers fs agreement requested coverage =
     (let slot_count = (case requested of None \<Rightarrow> length answers | Some n \<Rightarrow> n);
          live_count = length (filter (\<lambda>a. ia_provider_path a = OPENROUTER_SEARCH \<and> ia_status a = ANSWER_COMPLETED) answers);
          completed = filter substantive answers;
          mk = citation_marker_census (ee_ip ee) (ee_markdown ee) (run_scopes answers fs);
          polar = has_polar_disagreement (map ia_answer_text completed);
          preserved = (case fs of None \<Rightarrow> False | Some s \<Rightarrow> qc_false_consensus_preserved (fs_quality_checks s));
          refusals = length (filter (\<lambda>a. detect_refusal (ia_answer_text a)) completed)
      in \<lparr>la_citation_coverage_ratio = min (max coverage 0) 1,
          la_citation_marker_grounding = ratio_option (mk_resolved mk) (resolvable mk),
          la_unverifiable_marker_count = mk_unverifiable mk,
          la_unverifiable_marker_ratio = ratio_option (mk_unverifiable mk) (resolvable mk + mk_unverifiable mk),
          la_agreement_ratio = ratio (as_aligned agreement) (as_total agreement),
          la_live_ratio = ratio live_count slot_count,
          la_completeness = ratio (length completed) slot_count,
          la_false_consensus_preserved = preserved,
          la_polar_disagreement_detected = polar,
          la_disagreement_suppressed = (polar \<and> \<not> preserved),
          la_decision_support_framing_present = (case fs of None \<Rightarrow> False | Some s \<Rightarrow> qc_decision_support_framing_present (fs_quality_checks s)),
          la_high_stakes_warning_required = (case fs of None \<Rightarrow> False | Some s \<Rightarrow> qc_high_stakes_warning_required (fs_quality_checks s)),
          la_high_stakes_warning_present =
            (case fs of None \<Rightarrow> False | Some s \<Rightarrow> (case fs_high_stakes_notice s of None \<Rightarrow> False | Some n \<Rightarrow> strip n \<noteq> [])),
          la_uncertainty_surfaced = uncertainty_surfaced fs,
          la_refusal_detected = (completed \<noteq> [] \<and> of_nat refusals / of_nat (length completed) \<ge> REFUSAL_MAJORITY_THRESHOLD),
          la_run_wholly_refused = (completed \<noteq> [] \<and> refusals = length completed)\<rparr>)"

text \<open>\<open>None\<close>: a model's validation raises.\<close>

definition evaluate_layer_a ::
  "eval_env \<Rightarrow> initial_answer list \<Rightarrow> final_synthesis option \<Rightarrow> agreement_summary \<Rightarrow> judge_verdict option \<Rightarrow> nat option \<Rightarrow> run_evaluation option" where
  "evaluate_layer_a ee answers fs agreement verdict requested =
     (case (case fs of Some s \<Rightarrow> Some (cc_sourced_answer_ratio (fs_citation_coverage s)) | None \<Rightarrow> coverage_of_answers answers) of
        None \<Rightarrow> None
      | Some coverage \<Rightarrow>
          let la = layer_a_of ee answers fs agreement requested coverage in
          if \<not> valid_signals la then None
          else Some \<lparr>re_signals = la, re_faithfulness_label = classify_faithfulness la,
                     re_hallucination_risk = classify_hallucination_risk la, re_judge = verdict\<rparr>)"

section \<open>The composite and the score served\<close>

record contribution =
  tc_signal :: string
  tc_weight :: rat
  tc_value :: rat
  tc_contribution :: rat

definition LAYER_A_WEIGHTS :: "(string \<times> rat) list" where
  "LAYER_A_WEIGHTS =
     [(''citation_marker_grounding'', 30 / 100), (''live_ratio'', 20 / 100), (''citation_coverage_ratio'', 15 / 100), (''completeness'', 15 / 100),
      (''disagreement_integrity'', 10 / 100), (''uncertainty_surfaced'', 5 / 100), (''decision_support_framing_present'', 5 / 100)]"

definition signal_values :: "layer_a_signals \<Rightarrow> (string \<times> rat option) list" where
  "signal_values la =
     [(''citation_marker_grounding'', la_citation_marker_grounding la), (''live_ratio'', Some (la_live_ratio la)),
      (''citation_coverage_ratio'', Some (la_citation_coverage_ratio la)), (''completeness'', Some (la_completeness la)),
      (''disagreement_integrity'', Some (if la_disagreement_suppressed la then 0 else 1)),
      (''uncertainty_surfaced'', Some (if la_uncertainty_surfaced la then 1 else 0)),
      (''decision_support_framing_present'', Some (if la_decision_support_framing_present la then 1 else 0))]"

definition weight_of :: "string \<Rightarrow> rat" where
  "weight_of name = (case map_of LAYER_A_WEIGHTS name of None \<Rightarrow> 0 | Some w \<Rightarrow> w)"

definition compute_composite :: "layer_a_signals \<Rightarrow> rat \<times> contribution list" where
  "compute_composite la =
     (let included = List.map_filter (\<lambda>(name, value). map_option (\<lambda>v. (name, v)) value) (signal_values la);
          total_weight = sum_list (map (\<lambda>(name, v). weight_of name) included);
          contributions = map (\<lambda>(name, v). \<lparr>tc_signal = name, tc_weight = weight_of name, tc_value = v,
                                           tc_contribution = 100 * weight_of name * v / total_weight\<rparr>) included
      in if total_weight \<le> 0 then (0, [])
         else (min (max (sum_list (map tc_contribution contributions)) 0) 100, contributions))"

definition BAND_LOW_CEILING :: int where "BAND_LOW_CEILING = 50"
definition BAND_MODERATE_CEILING :: int where "BAND_MODERATE_CEILING = 75"
definition TRUST_CAP_BELOW_PANEL_SIZE :: nat where "TRUST_CAP_BELOW_PANEL_SIZE = 3"

datatype trust_band = BAND_UNVERIFIED | BAND_LOW | BAND_MODERATE | BAND_HIGH

record trust_score =
  ts_support_verified :: bool
  ts_band :: trust_band
  ts_score :: "int option"
  ts_composite :: rat
  ts_contributions :: "contribution list"
  ts_panel_size_cap :: bool

definition served_confidence :: "trust_score \<Rightarrow> int option" where
  "served_confidence ts = (if ts_support_verified ts then ts_score ts else None)"

definition build_trust_score :: "run_evaluation \<Rightarrow> bool \<Rightarrow> nat option \<Rightarrow> trust_score" where
  "build_trust_score re support_verified requested =
     (let (composite, contributions) = compute_composite (re_signals re) in
      if \<not> support_verified
      then \<lparr>ts_support_verified = False, ts_band = BAND_UNVERIFIED, ts_score = None, ts_composite = composite,
            ts_contributions = contributions, ts_panel_size_cap = False\<rparr>
      else
        let score = round_half_even composite;
            band = (if score < BAND_LOW_CEILING then BAND_LOW else if score < BAND_MODERATE_CEILING then BAND_MODERATE else BAND_HIGH);
            capped = (band = BAND_HIGH \<and> (case requested of None \<Rightarrow> False | Some n \<Rightarrow> n < TRUST_CAP_BELOW_PANEL_SIZE))
        in \<lparr>ts_support_verified = True, ts_band = (if capped then BAND_MODERATE else band), ts_score = Some score,
            ts_composite = composite, ts_contributions = contributions, ts_panel_size_cap = capped\<rparr>)"

section \<open>One terminal run\<close>

text \<open>A judge: whether it verifies support, and what it says of the evidence.\<close>

record eval_judge =
  ej_verifies_support :: bool
  ej_evaluate :: "judge_evidence \<Rightarrow> judge_verdict option"

definition stub_judge :: eval_judge where
  "stub_judge = \<lparr>ej_verifies_support = False, ej_evaluate = \<lambda>e. Some \<lparr>jv_faithfulness = 3, jv_grounding = 3, jv_disagreement_preserved = True,
     jv_risk = RISK_MEDIUM, jv_rationale = ''Deterministic stub verdict. Nothing was verified.'', jv_model_id = ''stub/eval-judge-v0''\<rparr>\<rparr>"

definition judge_run ::
  "eval_env \<Rightarrow> eval_judge option \<Rightarrow> string option \<Rightarrow> initial_answer list \<Rightarrow> final_synthesis option \<Rightarrow> judge_verdict option \<times> bool" where
  "judge_run ee judge query_text answers fs =
     (case judge of
        None \<Rightarrow> (None, False)
      | Some j \<Rightarrow>
          (let verdict = ej_evaluate j (build_judge_evidence (ee_ip ee) (case query_text of None \<Rightarrow> [] | Some q \<Rightarrow> q) answers fs)
           in (verdict, verdict \<noteq> None \<and> ej_verifies_support j \<and> verdict_supports_verification verdict)))"

definition evaluate_run ::
  "eval_env \<Rightarrow> eval_judge option \<Rightarrow> string option \<Rightarrow> initial_answer list \<Rightarrow> final_synthesis option \<Rightarrow> agreement_summary \<Rightarrow> nat option
   \<Rightarrow> (run_evaluation \<times> trust_score) option" where
  "evaluate_run ee judge query_text answers fs agreement requested =
     (let (verdict, verified) = judge_run ee judge query_text answers fs in
      map_option (\<lambda>re. (re, build_trust_score re verified requested)) (evaluate_layer_a ee answers fs agreement verdict requested))"

end
