(* ===== verification/Provider_Laws.thy ===== *)
theory Provider_Laws
  imports Providers
begin

text \<open>
  What the provider service promises: sources are checked addresses, an answer cut short says so, a failure is called unbilled
  only when no request can have been billed, one answer sends at most two requests, and a slot raises only when the backup
  search raises.
\<close>

section \<open>Sources\<close>

lemma map_filter_all: "(\<And>x y. x \<in> set xs \<Longrightarrow> f x = Some y \<Longrightarrow> P y) \<Longrightarrow> list_all P (List.map_filter f xs)"
  by (auto simp: List.map_filter_def list_all_iff)

lemma sanitized_twice: "sanitize_source_url ip s = Some u \<Longrightarrow> sanitize_source_url ip u = Some u"
proof -
  assume s: "sanitize_source_url ip s = Some u"
  let ?s = "strip s"
  have clean: "\<not> list_ex (\<lambda>c. is_space c \<or> code c < 32 \<or> code c = 133) ?s"
    and http: "starts_with ''http://'' ?s \<or> starts_with ''https://'' ?s" and u: "u = before_char CHR ''#'' ?s"
    using s by (auto simp: sanitize_source_url_def Let_def split: if_splits option.splits)
  have c: "\<not> list_ex (\<lambda>c. is_space c \<or> code c < 32 \<or> code c = 133) u"
    using clean set_before_char[of "CHR ''#''" ?s] by (auto simp: u list_ex_iff)
  have "starts_with ''http://'' u \<or> starts_with ''https://'' u"
    using http starts_with_before[of _ ?s "CHR ''#''"] by (auto simp: u)
  then show ?thesis using s c no_space_strip[OF c] u
    by (auto simp: sanitize_source_url_def Let_def starts_with_def split: if_splits option.splits)
qed

lemma json_url_twice: "sanitize_json_url st j = Some u \<Longrightarrow> sanitize_source_url (ss_ip st) u = Some u"
  by (auto simp: sanitize_json_url_def split: json.splits dest!: sanitized_twice)

lemma annotation_url: "citation_of_annotation st i d = Some r \<Longrightarrow> sanitize_source_url (ss_ip st) (sr_url r) = Some (sr_url r)"
  by (auto simp: citation_of_annotation_def Let_def split: option.splits dest!: json_url_twice)

lemma annotation_clean: "clean_sources st (annotation_citations st xs)"
  unfolding clean_sources_def annotation_citations_def
  by (rule map_filter_all) (auto dest!: annotation_url split: json.splits)

lemma links_clean: "clean_sources st (link_citations st seen links)"
  unfolding clean_sources_def
  by (induction st seen links rule: link_citations.induct) (auto dest: sanitized_twice split: option.split)

lemma tavily_clean: "clean_sources st (tavily_rows st seen rs)"
  unfolding clean_sources_def
  by (induction st seen rs rule: tavily_rows.induct) (auto simp: Let_def dest: json_url_twice split: option.splits json.splits)

lemma citations_clean: "clean_sources st (extract_citations st payload content)"
  using annotation_clean links_clean by (auto simp: extract_citations_def Let_def clean_sources_def split: option.split)

lemma own_sources: "list_all (\<lambda>s. \<not> sr_is_fallback s \<and> sr_provider s = OPENROUTER_SEARCH) (extract_citations st payload content)"
proof -
  have "list_all (\<lambda>s. \<not> sr_is_fallback s \<and> sr_provider s = OPENROUTER_SEARCH) (annotation_citations st xs)" for xs
    unfolding annotation_citations_def
    by (rule map_filter_all) (auto simp: citation_of_annotation_def Let_def split: json.splits option.splits)
  moreover have "list_all (\<lambda>s. \<not> sr_is_fallback s \<and> sr_provider s = OPENROUTER_SEARCH) (link_citations st seen links)" for seen links
    by (induction st seen links rule: link_citations.induct) (auto split: option.split)
  ultimately show ?thesis by (auto simp: extract_citations_def Let_def split: option.split)
qed

lemma backup_sources: "list_all (\<lambda>s. sr_is_fallback s \<and> sr_provider s = WEB_SEARCH) (tavily_rows st seen rs)"
  by (induction st seen rs rule: tavily_rows.induct) (auto simp: Let_def split: option.splits json.splits)

section \<open>One slot\<close>

lemmas call_defs = post_openrouter_def call_openrouter_with_optional_search_def live_openrouter_response_def

text \<open>A reply after which the account cannot have been charged.\<close>

definition refused_unbilled :: "http_reply \<Rightarrow> bool" where
  "refused_unbilled r = (case r of HttpError status \<Rightarrow> status \<in> set UNBILLED_HTTP_STATUSES | OpenerError timed_out \<Rightarrow> \<not> timed_out | _ \<Rightarrow> False)"

text \<open>The requests of one answer: at most two, the second for the bare model and only after the online one was refused.\<close>

definition sent_for :: "provider_env \<Rightarrow> model_slot \<Rightarrow> provider_trace \<Rightarrow> provider_trace \<Rightarrow> bool" where
  "sent_for pe slot tr tr' =
     (pt_requests tr' = pt_requests tr
      \<or> (\<exists>x. pt_requests tr' = pt_requests tr @ [x] \<and> xr_model_id x \<in> {ms_model_id slot, ms_model_id slot @ ONLINE})
      \<or> (\<exists>x y. pt_requests tr' = pt_requests tr @ [x, y] \<and> ms_search slot \<and> xr_model_id x = ms_model_id slot @ ONLINE
           \<and> xr_model_id y = ms_model_id slot \<and> pe_open pe (pt_requests tr) x \<in> {HttpError 400, HttpError 404}))"

fun all_unbilled :: "provider_env \<Rightarrow> provider_request list \<Rightarrow> provider_request list \<Rightarrow> bool" where
  "all_unbilled pe before [] = True"
| "all_unbilled pe before (x # xs) = (refused_unbilled (pe_open pe before x) \<and> all_unbilled pe (before @ [x]) xs)"

lemma posted:
  assumes "post_messages pe xr tr = (outcome, tr')"
  shows "tr' = tr \<and> outcome = NOT_DISPATCHED \<or>
    tr' = tr\<lparr>pt_requests := pt_requests tr @ [xr]\<rparr> \<and>
    (outcome = NOT_DISPATCHED \<longrightarrow> refused_unbilled (pe_open pe (pt_requests tr) xr)) \<and>
    (outcome = SEARCH_REJECTED \<longrightarrow> pe_open pe (pt_requests tr) xr \<in> {HttpError 400, HttpError 404} \<and> ends_with ONLINE (xr_model_id xr))"
  using assms
  by (auto simp: post_messages_def refused_unbilled_def completed_call_def Let_def split: if_splits http_reply.splits option.splits)

lemma posted_to:
  assumes "post_messages pe xr tr = (outcome, tr')"
  shows "tr' = tr \<and> outcome = NOT_DISPATCHED \<or> (\<exists>x. xr_model_id x = xr_model_id xr \<and>
    tr' = tr\<lparr>pt_requests := pt_requests tr @ [x]\<rparr> \<and>
    (outcome = NOT_DISPATCHED \<longrightarrow> refused_unbilled (pe_open pe (pt_requests tr) x)) \<and>
    (outcome = SEARCH_REJECTED \<longrightarrow> pe_open pe (pt_requests tr) x \<in> {HttpError 400, HttpError 404}))"
  using posted[OF assms] by blast

lemma rejected_unbilled: "r \<in> {HttpError 400, HttpError 404} \<Longrightarrow> refused_unbilled r"
  by (auto simp: refused_unbilled_def UNBILLED_HTTP_STATUSES_def)

lemma requests_of_call:
  assumes "live_openrouter_response pe query slot context tr = (outcome, tr')"
  shows "sent_for pe slot tr tr' \<and> pt_searches tr' = pt_searches tr \<and> pt_events tr' = pt_events tr \<and>
    (outcome = NOT_DISPATCHED \<longrightarrow> all_unbilled pe (pt_requests tr) (drop (length (pt_requests tr)) (pt_requests tr'))) \<and>
    outcome \<noteq> SEARCH_REJECTED"
proof -
  obtain o1 where c: "call_openrouter_with_optional_search pe query slot context tr = (o1, tr')"
    and o: "outcome = NOT_DISPATCHED \<longrightarrow> o1 \<in> {NOT_DISPATCHED, SEARCH_REJECTED}" "outcome \<noteq> SEARCH_REJECTED"
    using assms by (auto simp: live_openrouter_response_def split: prod.splits call_outcome.splits if_splits)
  define post where "post model_id = post_openrouter pe model_id (text_points query) None (Some (pe_initial_answer_max_tokens pe)) context None None True" for model_id
  have one: "t' = t \<and> oc = NOT_DISPATCHED \<or> (\<exists>x. xr_model_id x = m \<and> t' = t\<lparr>pt_requests := pt_requests t @ [x]\<rparr> \<and>
      (oc = NOT_DISPATCHED \<longrightarrow> refused_unbilled (pe_open pe (pt_requests t) x)) \<and>
      (oc = SEARCH_REJECTED \<longrightarrow> pe_open pe (pt_requests t) x \<in> {HttpError 400, HttpError 404}))"
    if "post m t = (oc, t')" for m t oc t'
    using posted_to[OF that[unfolded post_def post_openrouter_def]] by simp
  show ?thesis
  proof (cases "ms_search slot")
    case False
    then have "post (ms_model_id slot) tr = (o1, tr')" using c by (simp add: call_openrouter_with_optional_search_def post_def)
    from one[OF this] show ?thesis using o rejected_unbilled by (fastforce simp: sent_for_def)
  next
    case True
    obtain o0 t1 where p: "post (ms_model_id slot @ ONLINE) tr = (o0, t1)" by force
    show ?thesis
    proof (cases "o0 = SEARCH_REJECTED")
      case False
      then have "o1 = o0" "tr' = t1" using c p True
        by (auto simp: call_openrouter_with_optional_search_def post_def split: call_outcome.splits)
      then show ?thesis using one[OF p] o False rejected_unbilled by (fastforce simp: sent_for_def)
    next
      case rejected: True
      then have q: "post (ms_model_id slot) t1 = (o1, tr')" using c p True
        by (simp add: call_openrouter_with_optional_search_def post_def)
      from one[OF p] rejected obtain x where x: "xr_model_id x = ms_model_id slot @ ONLINE" "t1 = tr\<lparr>pt_requests := pt_requests tr @ [x]\<rparr>"
        "pe_open pe (pt_requests tr) x \<in> {HttpError 400, HttpError 404}" by auto
      have b: "refused_unbilled (pe_open pe (pt_requests tr) x)" by (rule rejected_unbilled[OF x(3)])
      from one[OF q] show ?thesis
      proof
        assume "tr' = t1 \<and> o1 = NOT_DISPATCHED"
        then show ?thesis using x b o by (auto simp: sent_for_def)
      next
        assume "\<exists>y. xr_model_id y = ms_model_id slot \<and> tr' = t1\<lparr>pt_requests := pt_requests t1 @ [y]\<rparr> \<and>
          (o1 = NOT_DISPATCHED \<longrightarrow> refused_unbilled (pe_open pe (pt_requests t1) y)) \<and>
          (o1 = SEARCH_REJECTED \<longrightarrow> pe_open pe (pt_requests t1) y \<in> {HttpError 400, HttpError 404})"
        then obtain y where "xr_model_id y = ms_model_id slot" "tr' = t1\<lparr>pt_requests := pt_requests t1 @ [y]\<rparr>"
          "o1 \<in> {NOT_DISPATCHED, SEARCH_REJECTED} \<longrightarrow> refused_unbilled (pe_open pe (pt_requests t1) y)"
          using rejected_unbilled by auto
        then show ?thesis using x b o True by (auto simp: sent_for_def)
      qed
    qed
  qed
qed

lemma coverage_never_raises:
  "calculate_citation_coverage 0 0 = Some \<lparr>cc_answer_count = 0, cc_sourced_answer_count = 0, cc_sourced_answer_ratio = 0, cc_target_met = False\<rparr>"
  "calculate_citation_coverage 1 0 = Some \<lparr>cc_answer_count = 1, cc_sourced_answer_count = 0, cc_sourced_answer_ratio = 0, cc_target_met = False\<rparr>"
  "calculate_citation_coverage 1 1 = Some \<lparr>cc_answer_count = 1, cc_sourced_answer_count = 1, cc_sourced_answer_ratio = 1, cc_target_met = True\<rparr>"
  by (simp_all add: calculate_citation_coverage_def round_half_even_def citation_coverage_required_count_def Let_def)

lemma recorded [simp]: "pt_requests (record_provider_event e tr) = pt_requests tr" "pt_searches (record_provider_event e tr) = pt_searches tr"
  by (simp_all add: record_provider_event_def Let_def)

lemma no_text:
  assumes "answer_without_text pe sl event duration reason notice billing tr = (r, tr')"
  shows "\<exists>a. r = Inr a \<and> ia_status a = ANSWER_FAILED \<and> ia_billing_class a = Some billing \<and> ia_sources a = [] \<and> ia_answer_text a = []
     \<and> ia_provider_path a = OPENROUTER_SEARCH \<and> cc_sourced_answer_count (ia_citation_coverage a) = 0
     \<and> pt_requests tr' = pt_requests tr \<and> pt_searches tr' = pt_searches tr"
proof -
  have r: "r = fst (answer_without_text pe sl event duration reason notice billing tr)"
    and t: "tr' = snd (answer_without_text pe sl event duration reason notice billing tr)" using assms by simp_all
  show ?thesis unfolding r t unfolding answer_without_text_def Let_def coverage_never_raises(1) option.case fst_conv snd_conv by simp
qed

definition counts_own :: "initial_answer \<Rightarrow> bool" where
  "counts_own a = (cc_sourced_answer_count (ia_citation_coverage a) = (if list_ex (\<lambda>s. \<not> sr_is_fallback s) (ia_sources a) then 1 else 0))"

lemma with_text:
  "completed_answer pe sl answer sources path order fallback notice usage shortened searched tr = (r, tr') \<Longrightarrow>
   \<exists>a. r = Inr a \<and> ia_status a = ANSWER_COMPLETED \<and> ia_billing_class a = None \<and> ia_sources a = sources \<and> ia_answer_text a = answer
     \<and> ia_provider_path a = path \<and> ia_shortened a = shortened \<and> counts_own a
     \<and> pt_requests tr' = pt_requests tr \<and> pt_searches tr' = pt_searches tr"
proof -
  assume finished: "completed_answer pe sl answer sources path order fallback notice usage shortened searched tr = (r, tr')"
  let ?n = "(if length (filter (\<lambda>s. \<not> sr_is_fallback s) sources) > 0 then 1 else 0) :: nat"
  obtain c where c: "calculate_citation_coverage 1 ?n = Some c" "cc_sourced_answer_count c = ?n"
    using coverage_never_raises by (cases "length (filter (\<lambda>s. \<not> sr_is_fallback s) sources) > 0") auto
  have own: "counts_own a" if "ia_citation_coverage a = c" "ia_sources a = sources" for a
    using that c(2) by (simp add: counts_own_def list_ex_iff filter_empty_conv)
  show ?thesis using finished c(1) by (auto simp: completed_answer_def Let_def intro!: own)
qed

lemma searched_trace: "pt_requests (snd (tavily_search pe query tr)) = pt_requests tr"
  by (simp add: tavily_search_def Let_def)

definition checked_backup :: "source_settings \<Rightarrow> source_reference list \<Rightarrow> bool" where
  "checked_backup st found = list_all (\<lambda>s. sr_is_fallback s \<and> sanitize_source_url (ss_ip st) (sr_url s) = Some (sr_url s)) found"

lemma parsed_backup: "checked_backup st (parse_tavily_results st j)"
proof -
  have "checked_backup st (tavily_rows st seen rs)" for seen rs
    using backup_sources[of st seen rs] tavily_clean[of st seen rs] by (simp add: checked_backup_def clean_sources_def list_all_iff)
  moreover have "checked_backup st []" by (simp add: checked_backup_def)
  ultimately show ?thesis by (simp add: parse_tavily_results_def split: json.split)
qed

lemma searched_sources:
  assumes "fst (tavily_search pe query tr) = Inr found"
  shows "checked_backup (pe_sources pe) found"
proof -
  have "checked_backup (pe_sources pe) []" by (simp add: checked_backup_def)
  then show ?thesis using assms parsed_backup[of "pe_sources pe"]
    by (auto simp: tavily_search_def Let_def split: if_splits search_reply.splits option.splits loads_result.splits)
qed

lemma answered_sources:
  assumes "live_openrouter_response pe query slot context tr = (Answered r, tr')"
  shows "list_all (\<lambda>s. sanitize_source_url (ss_ip (pe_sources pe)) (sr_url s) = Some (sr_url s)) (lr_sources r)"
proof -
  have post: "list_all (\<lambda>s. sanitize_source_url (ss_ip (pe_sources pe)) (sr_url s) = Some (sr_url s)) (lr_sources x)"
    if "post_messages pe xr t = (Answered x, t')" for xr t x t'
    using that citations_clean
    by (auto simp: post_messages_def completed_call_def clean_sources_def Let_def split: if_splits http_reply.splits option.splits)
  have "call_openrouter_with_optional_search pe query slot context tr = (Answered r, tr')"
    using assms by (auto simp: live_openrouter_response_def split: prod.splits call_outcome.splits if_splits)
  then show ?thesis using post
    by (auto simp: call_openrouter_with_optional_search_def post_openrouter_def Let_def split: if_splits prod.splits call_outcome.splits)
qed

lemma raising_search:
  "fst (tavily_search pe query tr) = Inl e \<Longrightarrow> pe_search pe (pt_requests tr) (strip query) = SearchRaises e"
  by (auto simp: tavily_search_def Let_def split: if_splits search_reply.splits option.splits loads_result.splits)

lemma live_answer_cases:
  assumes "live_answer pe sl query r tr = (res, tr')"
  shows "((\<exists>e. res = Inl e \<and> pe_search pe (pt_requests tr) (strip query) = SearchRaises e) \<or>
    (\<exists>a. res = Inr a \<and> ia_status a = ANSWER_COMPLETED \<and> ia_billing_class a = None \<and> ia_provider_path a = OPENROUTER_SEARCH
      \<and> ia_answer_text a = lr_answer_text r \<and> ia_shortened a = lr_is_truncated r
      \<and> (ia_sources a = lr_sources r \<or> (\<exists>t. fst (tavily_search pe query t) = Inr (ia_sources a)))
      \<and> counts_own a))
    \<and> pt_requests tr' = pt_requests tr"
proof (cases "ms_search (sl_slot sl) \<and> lr_sources r = [] \<and> pe_tavily_key pe \<noteq> []")
  case False
  then show ?thesis using assms by (auto simp: live_answer_def Let_def dest!: with_text)
next
  case True
  obtain found t1 where t: "tavily_search pe query tr = (found, t1)" by force
  have req: "pt_requests t1 = pt_requests tr" using searched_trace[of pe query tr] t by simp
  show ?thesis
  proof (cases found)
    case (Inl e)
    then show ?thesis using assms True t req raising_search[of pe query tr e] by (auto simp: live_answer_def Let_def)
  next
    case (Inr extra)
    have "fst (tavily_search pe query tr) = Inr extra" using t Inr by simp
    then have "\<exists>t. fst (tavily_search pe query t) = Inr extra" by blast
    then show ?thesis using assms True t Inr req
      by (auto simp: live_answer_def Let_def dest!: with_text split: if_splits)
  qed
qed

text \<open>What a slot ends with: a raise of the backup search, a failed answer, the live answer, or the demo.\<close>

lemma produced_cases:
  assumes "produce_initial_answer pe sl key query context tr = (res, tr')"
  obtains
    (failed) a where "res = Inr a" "ia_status a = ANSWER_FAILED" "ia_sources a = []" "ia_provider_path a = OPENROUTER_SEARCH"
      "cc_sourced_answer_count (ia_citation_coverage a) = 0"
      "pt_requests tr' = pt_requests tr \<or> (\<exists>outcome t1. live_openrouter_response pe query (sl_slot sl) context tr = (outcome, t1)
        \<and> pt_requests tr' = pt_requests t1 \<and> (ia_billing_class a = Some BILLING_NOT_BILLED \<longrightarrow> outcome = NOT_DISPATCHED))"
  | (live) r t1 where "live_openrouter_response pe query (sl_slot sl) context tr = (Answered r, t1)" "live_answer pe sl query r t1 = (res, tr')"
  | (demo) a where "res = Inr a" "pt_requests tr' = pt_requests tr" "ia_status a = ANSWER_COMPLETED" "ia_provider_path a \<noteq> OPENROUTER_SEARCH"
      "cc_sourced_answer_count (ia_citation_coverage a) = 0"
      "list_all (\<lambda>s. sr_is_fallback s \<and> (starts_with LOCAL_SIMULATION_URL_PREFIX (sr_url s)
        \<or> sanitize_source_url (ss_ip (pe_sources pe)) (sr_url s) = Some (sr_url s))) (ia_sources a)"
  | (raised) e where "res = Inl e" "pe_search pe (pt_requests tr) (strip query) = SearchRaises e" "pt_requests tr' = pt_requests tr"
proof (cases "should_force_provider_failure pe query (sl_slot sl)")
  case True
  then have "answer_without_text pe sl ''provider_initial_answer_failed'' (duration_ms pe) ''PROVIDER_UNAVAILABLE'' NOTICE_PROVIDER_UNAVAILABLE
      BILLING_NOT_BILLED tr = (res, tr')" using assms by (simp add: produce_initial_answer_def failed_answer_def)
  from no_text[OF this] show ?thesis using failed by blast
next
  case unforced: False
  show ?thesis
  proof (cases "live_execution_enabled pe key")
    case True
    obtain outcome t1 where l: "live_openrouter_response pe query (sl_slot sl) context tr = (outcome, t1)" by force
    have f: "\<exists>a. res = Inr a \<and> ia_status a = ANSWER_FAILED \<and> ia_sources a = [] \<and> ia_provider_path a = OPENROUTER_SEARCH
        \<and> cc_sourced_answer_count (ia_citation_coverage a) = 0 \<and> pt_requests tr' = pt_requests t1 \<and> ia_billing_class a = Some b"
      if "failed_answer pe sl b t1 = (res, tr')" for b
      using no_text[OF that[unfolded failed_answer_def]] by blast
    show ?thesis
    proof (cases outcome)
      case (Answered r)
      then show ?thesis
      proof (cases "lr_answer_text r = []")
        case True
        then have "failed_answer pe sl BILLING_POSSIBLY_BILLED t1 = (res, tr')"
          using assms unforced l Answered \<open>live_execution_enabled pe key\<close> by (simp add: produce_initial_answer_def Let_def)
        from f[OF this] l show ?thesis using failed by fastforce
      next
        case False
        then have "live_answer pe sl query r t1 = (res, tr')"
          using assms unforced l Answered True by (simp add: produce_initial_answer_def Let_def)
        then show ?thesis using l Answered live by blast
      qed
    next
      case DISPATCH_UNMEASURED
      then have "failed_answer pe sl BILLING_POSSIBLY_BILLED t1 = (res, tr')"
        using assms unforced l True by (simp add: produce_initial_answer_def Let_def)
      from f[OF this] l show ?thesis using failed by fastforce
    next
      case NOT_DISPATCHED
      then have "failed_answer pe sl BILLING_NOT_BILLED t1 = (res, tr')"
        using assms unforced l True by (simp add: produce_initial_answer_def Let_def)
      from f[OF this] l NOT_DISPATCHED show ?thesis using failed by fastforce
    next
      case SEARCH_REJECTED
      then show ?thesis using requests_of_call[OF l] by simp
    qed
  next
    case simulated: False
    have stub: "list_all (\<lambda>s. sr_is_fallback s \<and> starts_with LOCAL_SIMULATION_URL_PREFIX (sr_url s)) (local_simulation_sources slot)" for slot
      by (simp add: local_simulation_sources_def starts_with_iff)
    show ?thesis
    proof (cases "should_force_fallback pe query (sl_slot sl)")
      case False
      then have "completed_answer pe sl (local_simulation_text (sl_slot sl)) (local_simulation_sources (sl_slot sl)) LOCAL_SIMULATION
          [LOCAL_SIMULATION] False (Some NOTICE_DEMO_MODE) None False False tr = (res, tr')"
        using assms unforced simulated by (simp add: produce_initial_answer_def Let_def)
      from with_text[OF this] stub[of "sl_slot sl"] show ?thesis using demo by (fastforce simp: list_all_iff counts_own_def list_ex_iff)
    next
      case True
      obtain found t1 where f: "fallback_sources pe query (sl_slot sl) tr = (found, t1)" by force
      have req: "pt_requests t1 = pt_requests tr" using f searched_trace[of pe query tr]
        by (auto simp: fallback_sources_def Let_def split: if_splits prod.splits sum.splits)
      show ?thesis
      proof (cases found)
        case (Inl e)
        then have "res = Inl e" "tr' = t1" using assms unforced simulated True f by (auto simp: produce_initial_answer_def Let_def)
        moreover have "fst (tavily_search pe query tr) = Inl e"
          using f Inl by (auto simp: fallback_sources_def Let_def split: if_splits prod.splits sum.splits)
        ultimately show ?thesis using raised raising_search req by blast
      next
        case (Inr sources)
        have "completed_answer pe sl (local_simulation_text (sl_slot sl)) sources FALLBACK_SEARCH [LOCAL_SIMULATION, FALLBACK_SEARCH] True
            (Some NOTICE_FALLBACK_SOURCE_SUPPORT) None False False t1 = (res, tr')"
          using assms unforced simulated True f Inr by (simp add: produce_initial_answer_def Let_def)
        note w = with_text[OF this]
        have "list_all (\<lambda>s. sr_is_fallback s \<and> (starts_with LOCAL_SIMULATION_URL_PREFIX (sr_url s)
            \<or> sanitize_source_url (ss_ip (pe_sources pe)) (sr_url s) = Some (sr_url s))) sources"
          using f Inr searched_sources[of pe query tr]
          by (auto simp: fallback_sources_def checked_backup_def Let_def starts_with_iff list_all_iff split: if_splits prod.splits sum.splits)
        then show ?thesis using demo w req by (fastforce simp: list_all_iff counts_own_def list_ex_iff)
      qed
    qed
  qed
qed

section \<open>What an answer may claim\<close>

text \<open>C26. A failed slot is called unbilled only when nothing can have been charged: an answer sends at most two requests, the
  second for the bare model and only after its online one was refused with 400 or 404, and a failure marked not billed
  sent none or saw each refused before any generation; an answer of the demo sends none.\<close>

theorem failure_is_billed_honestly:
  assumes "produce_initial_answer pe sl key query context tr = (Inr a, tr')"
  shows "sent_for pe (sl_slot sl) tr tr'
    \<and> (ia_billing_class a = Some BILLING_NOT_BILLED \<longrightarrow>
        all_unbilled pe (pt_requests tr) (drop (length (pt_requests tr)) (pt_requests tr')))
    \<and> (ia_provider_path a \<noteq> OPENROUTER_SEARCH \<longrightarrow> pt_requests tr' = pt_requests tr)"
  using assms
proof (cases rule: produced_cases)
  case (failed b)
  from failed(6) show ?thesis
  proof
    assume "pt_requests tr' = pt_requests tr"
    then show ?thesis by (simp add: sent_for_def)
  next
    assume "\<exists>outcome t1. live_openrouter_response pe query (sl_slot sl) context tr = (outcome, t1)
        \<and> pt_requests tr' = pt_requests t1 \<and> (ia_billing_class b = Some BILLING_NOT_BILLED \<longrightarrow> outcome = NOT_DISPATCHED)"
    then obtain outcome t1 where l: "live_openrouter_response pe query (sl_slot sl) context tr = (outcome, t1)"
      "pt_requests tr' = pt_requests t1" "ia_billing_class b = Some BILLING_NOT_BILLED \<longrightarrow> outcome = NOT_DISPATCHED" by blast
    from requests_of_call[OF l(1)] l(2,3) failed(1,4) show ?thesis by (auto simp: sent_for_def)
  qed
next
  case (live r t1)
  from requests_of_call[OF live(1)] live_answer_cases[OF live(2)] show ?thesis by (auto simp: sent_for_def)
next
  case (demo b)
  then have "ia_billing_class a \<noteq> Some BILLING_NOT_BILLED \<or> pt_requests tr' = pt_requests tr" by simp
  then show ?thesis using demo by (auto simp: sent_for_def)
qed simp

text \<open>Coverage counts a model's own sources only: an answer counts as sourced exactly when a source of it is its model's
  own, which takes a live answer; every source is an address that passed the check or the demo's reserved
  address, marked as not the model's.\<close>

theorem coverage_counts_own_sources:
  assumes "produce_initial_answer pe sl key query context tr = (Inr a, tr')"
  shows "cc_sourced_answer_count (ia_citation_coverage a) = (if list_ex (\<lambda>s. \<not> sr_is_fallback s) (ia_sources a) then 1 else 0)
    \<and> (list_ex (\<lambda>s. \<not> sr_is_fallback s) (ia_sources a) \<longrightarrow> ia_provider_path a = OPENROUTER_SEARCH \<and> ia_status a = ANSWER_COMPLETED)
    \<and> list_all (\<lambda>s. sanitize_source_url (ss_ip (pe_sources pe)) (sr_url s) = Some (sr_url s)
        \<or> sr_is_fallback s \<and> starts_with LOCAL_SIMULATION_URL_PREFIX (sr_url s)) (ia_sources a)"
  using assms
proof (cases rule: produced_cases)
  case (live r t1)
  have own: "list_all (\<lambda>s. sanitize_source_url (ss_ip (pe_sources pe)) (sr_url s) = Some (sr_url s)) (lr_sources r)"
    using answered_sources[OF live(1)] .
  from live_answer_cases[OF live(2)] own searched_sources[of pe query] show ?thesis
    by (fastforce simp: list_all_iff list_ex_iff counts_own_def checked_backup_def)
next
  case (demo b)
  then show ?thesis by (auto simp: list_all_iff list_ex_iff)
qed auto

section \<open>A streamed answer is whole or says so\<close>

fun frames_read :: "(string \<Rightarrow> loads_result) \<Rightarrow> sse_event list \<Rightarrow> json list" where
  "frames_read loads [] = []"
| "frames_read loads (UNRECOGNISED_LINE # es) = frames_read loads es"
| "frames_read loads (Data d # es) =
     (if d = SSE_DONE_SENTINEL then [] else (case loads d of Parsed f \<Rightarrow> f # frames_read loads es | _ \<Rightarrow> []))"

definition choices_of :: "json \<Rightarrow> (string, json) dict list" where
  "choices_of frame =
     (case frame of
        JObj f \<Rightarrow> filter is_index_zero (List.map_filter as_obj (list_of (jget f ''choices'')))
      | _ \<Rightarrow> [])"

definition choice_text :: "(string, json) dict \<Rightarrow> string" where
  "choice_text c = (case jget c ''delta'' of JObj d \<Rightarrow> (case jget d ''content'' of JStr s \<Rightarrow> s | _ \<Rightarrow> []) | _ \<Rightarrow> [])"

definition unclean :: "json \<Rightarrow> bool" where
  "unclean reason = (case reason of JStr r \<Rightarrow> r \<in> set UNCLEAN_FINISH_REASONS | _ \<Rightarrow> False)"

definition said :: "json \<Rightarrow> string" where "said frame = concat (map choice_text (choices_of frame))"

definition says_unclean :: "json \<Rightarrow> bool" where
  "says_unclean frame = list_ex (\<lambda>c. unclean (jget c ''finish_reason'')) (choices_of frame)"

definition ends_somehow :: "json \<Rightarrow> bool" where
  "ends_somehow frame =
     (list_ex (\<lambda>c. jget c ''finish_reason'' \<noteq> JNull) (choices_of frame)
      \<or> (case frame of JObj f \<Rightarrow> as_obj (jget f ''error'') \<noteq> None | _ \<Rightarrow> False))"

definition latch_ok :: "stream_fold \<Rightarrow> bool" where
  "latch_ok sf = (sf_latched sf \<longrightarrow> unclean (sf_finish_reason sf))"

definition zero_choice :: "json \<Rightarrow> (string, json) dict list" where
  "zero_choice c = filter is_index_zero (List.map_filter as_obj [c])"

text \<open>What \<open>fold_choice\<close> does with the finish reason.\<close>

definition finish_choice :: "json \<Rightarrow> stream_fold \<Rightarrow> stream_fold" where
  "finish_choice reason sf =
     (let sf = (if unclean reason then sf\<lparr>sf_finish_reason := reason, sf_latched := True\<rparr>
                else if reason \<noteq> JNull \<and> \<not> sf_latched sf then sf\<lparr>sf_finish_reason := reason\<rparr> else sf)
      in if reason \<noteq> JNull \<and> sf_terminator sf \<in> {TERMINATOR_NONE, TERMINATOR_ERROR}
         then sf\<lparr>sf_terminator := TERMINATOR_FINISH_REASON\<rparr> else sf)"

lemma finish_choice_step:
  "sf_text (finish_choice reason sf) = sf_text sf"
  "sf_latched (finish_choice reason sf) = (sf_latched sf \<or> unclean reason)"
  "sf_finish_reason (finish_choice reason sf) = (if unclean reason \<or> \<not> sf_latched sf \<and> reason \<noteq> JNull then reason else sf_finish_reason sf)"
  "sf_terminator (finish_choice reason sf) = TERMINATOR_NONE \<longleftrightarrow> sf_terminator sf = TERMINATOR_NONE \<and> reason = JNull"
  "sf_frame_count (finish_choice reason sf) = sf_frame_count sf" "sf_unrecognised (finish_choice reason sf) = sf_unrecognised sf"
  by (simp_all add: finish_choice_def Let_def)

lemma choice_step:
  "sf_text (fold_choice c sf) = sf_text sf @ concat (map choice_text (zero_choice c))"
  "sf_latched (fold_choice c sf) = (sf_latched sf \<or> list_ex (\<lambda>c. unclean (jget c ''finish_reason'')) (zero_choice c))"
  "latch_ok sf \<Longrightarrow> latch_ok (fold_choice c sf)"
  "sf_terminator (fold_choice c sf) = TERMINATOR_NONE \<longleftrightarrow>
     sf_terminator sf = TERMINATOR_NONE \<and> \<not> list_ex (\<lambda>c. jget c ''finish_reason'' \<noteq> JNull) (zero_choice c)"
  "sf_frame_count (fold_choice c sf) = sf_frame_count sf"
  "sf_unrecognised (fold_choice c sf) = sf_unrecognised sf"
proof -
  have skip: "fold_choice c sf = sf" if "zero_choice c = []"
    using that by (cases c) (auto simp: fold_choice_def zero_choice_def List.map_filter_def as_obj_def split: if_splits)
  have read: "\<exists>sf1. sf_text sf1 = sf_text sf @ choice_text d \<and> sf_latched sf1 = sf_latched sf \<and> sf_finish_reason sf1 = sf_finish_reason sf
      \<and> sf_terminator sf1 = sf_terminator sf \<and> sf_frame_count sf1 = sf_frame_count sf \<and> sf_unrecognised sf1 = sf_unrecognised sf
      \<and> fold_choice c sf = finish_choice (jget d ''finish_reason'') sf1" if "c = JObj d" "is_index_zero d" for d
  proof -
    let ?sf1 = "case jget d ''delta'' of JObj x \<Rightarrow> sf\<lparr>sf_text := sf_text sf @ (case jget x ''content'' of JStr s \<Rightarrow> s | _ \<Rightarrow> []),
        sf_annotations := sf_annotations sf @ list_of (jget x ''annotations''),
        sf_citations := sf_citations sf @ list_of (jget x ''citations'')\<rparr> | _ \<Rightarrow> sf"
    have "fold_choice c sf = finish_choice (jget d ''finish_reason'') ?sf1"
      using that(2) unfolding that(1) fold_choice_def finish_choice_def unclean_def Let_def json.case by (simp only: not_True_eq_False if_False)
    moreover have "sf_text ?sf1 = sf_text sf @ choice_text d" "sf_latched ?sf1 = sf_latched sf" "sf_finish_reason ?sf1 = sf_finish_reason sf"
      "sf_terminator ?sf1 = sf_terminator sf" "sf_frame_count ?sf1 = sf_frame_count sf" "sf_unrecognised ?sf1 = sf_unrecognised sf"
      by (cases "jget d ''delta''"; simp add: choice_text_def)+
    ultimately show ?thesis by blast
  qed
  have zero: "zero_choice c = [] \<or> (\<exists>d. c = JObj d \<and> is_index_zero d \<and> zero_choice c = [d])"
    by (cases c) (auto simp: zero_choice_def List.map_filter_def as_obj_def)
  have one: "zero_choice c = [] \<or> (\<exists>d sf1. zero_choice c = [d] \<and> sf_text sf1 = sf_text sf @ choice_text d \<and> sf_latched sf1 = sf_latched sf
      \<and> sf_finish_reason sf1 = sf_finish_reason sf \<and> sf_terminator sf1 = sf_terminator sf \<and> sf_frame_count sf1 = sf_frame_count sf
      \<and> sf_unrecognised sf1 = sf_unrecognised sf \<and> fold_choice c sf = finish_choice (jget d ''finish_reason'') sf1)"
    using zero read by blast
  show "sf_text (fold_choice c sf) = sf_text sf @ concat (map choice_text (zero_choice c))"
    "sf_latched (fold_choice c sf) = (sf_latched sf \<or> list_ex (\<lambda>c. unclean (jget c ''finish_reason'')) (zero_choice c))"
    "latch_ok sf \<Longrightarrow> latch_ok (fold_choice c sf)"
    "sf_terminator (fold_choice c sf) = TERMINATOR_NONE \<longleftrightarrow>
       sf_terminator sf = TERMINATOR_NONE \<and> \<not> list_ex (\<lambda>c. jget c ''finish_reason'' \<noteq> JNull) (zero_choice c)"
    "sf_frame_count (fold_choice c sf) = sf_frame_count sf" "sf_unrecognised (fold_choice c sf) = sf_unrecognised sf"
    using one skip by (auto simp: finish_choice_step latch_ok_def)
qed

lemma choices_step:
  "sf_text (fold fold_choice cs sf) = sf_text sf @ concat (map choice_text (concat (map zero_choice cs)))"
  "sf_latched (fold fold_choice cs sf) = (sf_latched sf \<or> list_ex (\<lambda>c. unclean (jget c ''finish_reason'')) (concat (map zero_choice cs)))"
  "latch_ok sf \<Longrightarrow> latch_ok (fold fold_choice cs sf)"
  "sf_terminator (fold fold_choice cs sf) = TERMINATOR_NONE \<longleftrightarrow>
     sf_terminator sf = TERMINATOR_NONE \<and> \<not> list_ex (\<lambda>c. jget c ''finish_reason'' \<noteq> JNull) (concat (map zero_choice cs))"
  "sf_frame_count (fold fold_choice cs sf) = sf_frame_count sf"
  "sf_unrecognised (fold fold_choice cs sf) = sf_unrecognised sf"
  by (induction cs arbitrary: sf) (auto simp: choice_step)

lemma choices_of_obj: "choices_of (JObj f) = concat (map zero_choice (list_of (jget f ''choices'')))"
proof -
  have "filter is_index_zero (List.map_filter as_obj xs) = concat (map zero_choice xs)" for xs
    by (induction xs) (auto simp: zero_choice_def List.map_filter_def)
  then show ?thesis by (simp add: choices_of_def)
qed

lemma frame_step:
  "sf_text (fold_frame f sf) = sf_text sf @ said f"
  "sf_latched (fold_frame f sf) = (sf_latched sf \<or> says_unclean f)"
  "latch_ok sf \<Longrightarrow> latch_ok (fold_frame f sf)"
  "sf_terminator (fold_frame f sf) = TERMINATOR_NONE \<longleftrightarrow> sf_terminator sf = TERMINATOR_NONE \<and> \<not> ends_somehow f"
  "sf_frame_count (fold_frame f sf) = sf_frame_count sf + 1"
  "sf_unrecognised (fold_frame f sf) = sf_unrecognised sf"
proof -
  have start: "latch_ok (sf\<lparr>sf_frame_count := n\<rparr>) = latch_ok sf" "latch_ok (sf\<lparr>sf_error := e, sf_terminator := t\<rparr>) = latch_ok sf"
    "latch_ok (sf\<lparr>sf_error := e\<rparr>) = latch_ok sf"
    "latch_ok (sf\<lparr>sf_usage := u\<rparr>) = latch_ok sf" for sf n e t u by (simp_all add: latch_ok_def)
  show "sf_text (fold_frame f sf) = sf_text sf @ said f" "sf_latched (fold_frame f sf) = (sf_latched sf \<or> says_unclean f)"
    "sf_frame_count (fold_frame f sf) = sf_frame_count sf + 1" "sf_unrecognised (fold_frame f sf) = sf_unrecognised sf"
    by (cases f; simp add: fold_frame_def Let_def choices_step said_def says_unclean_def choices_of_obj split: json.split;
        simp add: choices_of_def)+
  show "latch_ok sf \<Longrightarrow> latch_ok (fold_frame f sf)"
    by (cases f) (auto simp: fold_frame_def Let_def start intro!: choices_step(3) split: json.split)
  show "sf_terminator (fold_frame f sf) = TERMINATOR_NONE \<longleftrightarrow> sf_terminator sf = TERMINATOR_NONE \<and> \<not> ends_somehow f"
  proof (cases f)
    case (JObj d)
    then show ?thesis by (auto simp: fold_frame_def Let_def choices_step ends_somehow_def choices_of_obj as_obj_def split: json.split)
  qed (simp_all add: fold_frame_def ends_somehow_def choices_of_def)
qed

lemma folded_events:
  assumes "fold_events loads raised es sf = Folded sf' False" and "latch_ok sf"
  shows "sf_text sf' = sf_text sf @ concat (map said (frames_read loads es))
    \<and> (sf_latched sf' \<longleftrightarrow> sf_latched sf \<or> list_ex says_unclean (frames_read loads es)) \<and> latch_ok sf'
    \<and> sf_frame_count sf' = sf_frame_count sf + length (frames_read loads es)
    \<and> sf_unrecognised sf' = sf_unrecognised sf + length (filter (\<lambda>e. e = UNRECOGNISED_LINE) (takeWhile (\<lambda>e. e \<noteq> Data SSE_DONE_SENTINEL) es))
    \<and> (sf_terminator sf' = TERMINATOR_NONE \<longleftrightarrow> sf_terminator sf = TERMINATOR_NONE \<and> Data SSE_DONE_SENTINEL \<notin> set es
        \<and> \<not> list_ex ends_somehow (frames_read loads es))"
  using assms
proof (induction loads raised es sf rule: fold_events.induct)
  case (2 loads raised es sf)
  then show ?case by (auto simp: latch_ok_def)
next
  case (3 loads raised d es sf)
  show ?case
  proof (cases "d = SSE_DONE_SENTINEL")
    case True
    then show ?thesis using 3(2,3) by (auto simp: latch_ok_def split: if_splits)
  next
    case False
    then obtain f where f: "loads d = Parsed f" using 3(2) by (auto split: loads_result.splits)
    with False 3(2) have "fold_events loads raised es (fold_frame f sf) = Folded sf' False" by simp
    from 3(1)[OF False f this frame_step(3)[OF 3(3)]] f False show ?thesis by (auto simp: frame_step)
  qed
qed (auto split: if_splits)

lemma payload_read:
  "extract_message_content (completion_payload sf) = sf_text sf"
  "finish_reason_indicates_truncation (completion_payload sf) =
     (unclean (sf_finish_reason sf) \<or> sf_finish_reason sf = JNull \<and> sf_error sf \<noteq> JNull)"
proof -
  show "extract_message_content (completion_payload sf) = sf_text sf"
    by (simp add: extract_message_content_def completion_payload_def first_message_def first_choice_def jget_def as_obj_def Let_def)
  show "finish_reason_indicates_truncation (completion_payload sf) =
     (unclean (sf_finish_reason sf) \<or> sf_finish_reason sf = JNull \<and> sf_error sf \<noteq> JNull)"
    by (auto simp: finish_reason_indicates_truncation_def completion_payload_def first_choice_def jget_def as_obj_def Let_def unclean_def
        UNCLEAN_FINISH_REASONS_def split: json.split)
qed

text \<open>C27. A streamed answer is whole or says that it is not: whatever chunks it came in, an answer that is served holds the text
  of every frame sent for the first choice, in order; no line of the stream before its end was unreadable; the stream
  said that it ended; and when a frame said that the model was cut off, at whatever point, the answer is marked shortened.\<close>

theorem streamed_answer_is_whole:
  assumes "completed_call pe model_id (read_completion decode loads (chunks, broken)) = Answered r"
    and "frames = frames_read loads (fst (body_events decode broken (concat chunks)))" and "frames \<noteq> []"
  shows "lr_answer_text r = concat (map said frames)
    \<and> UNRECOGNISED_LINE \<notin> set (takeWhile (\<lambda>e. e \<noteq> Data SSE_DONE_SENTINEL) (fst (body_events decode broken (concat chunks))))
    \<and> (Data SSE_DONE_SENTINEL \<in> set (fst (body_events decode broken (concat chunks))) \<or> list_ex ends_somehow frames)
    \<and> (list_ex says_unclean frames \<longrightarrow> lr_is_truncated r)"
proof -
  obtain es raised where e: "body_events decode broken (concat chunks) = (es, raised)" by force
  then have it: "iter_sse_data decode broken False [] [] chunks = (es, raised)" using events_before_mark[of "[]" decode broken chunks] by (simp add: SSE_BOM_def)
  have ok: "latch_ok empty_fold" by (simp add: latch_ok_def empty_fold_def)
  obtain sf err where f: "fold_events loads raised es empty_fold = Folded sf err"
    using assms(1) it
    by (cases "fold_events loads raised es empty_fold")
      (auto simp: read_completion_def completed_call_def reassemble_streamed_completion_def split: prod.splits)
  have err: "\<not> err"
    using assms(1) it f by (auto simp: read_completion_def completed_call_def reassemble_streamed_completion_def Let_def split: if_splits)
  then have f: "fold_events loads raised es empty_fold = Folded sf False" using f by simp
  note fe = folded_events[OF f ok, simplified empty_fold_def, simplified]
  have frames: "frames = frames_read loads es" using assms(2) e by simp
  then have "sf_frame_count sf \<noteq> 0" using fe assms(3) by simp
  then have c: "completed_call pe model_id (Some \<lparr>sm_payload = completion_payload sf, sm_terminator = sf_terminator sf,
      sm_frame_count = sf_frame_count sf, sm_unrecognised_lines = sf_unrecognised sf, sm_body_error = False\<rparr>) = Answered r"
    using assms(1) it f by (simp add: read_completion_def reassemble_streamed_completion_def)
  then have "sf_terminator sf \<noteq> TERMINATOR_NONE" "sf_unrecognised sf = 0"
    and "lr_answer_text r = sf_text sf" "lr_is_truncated r = finish_reason_indicates_truncation (completion_payload sf)"
    by (auto simp: completed_call_def payload_read Let_def split: if_splits)
  then show ?thesis using fe frames e by (auto simp: payload_read latch_ok_def filter_empty_conv)
qed

text \<open>A failure the provider reports in the middle of a stream can still be served as a clean answer: after an error frame with
  no finish reason of its own, a later \<^verbatim>\<open>stop\<close> makes the whole answer read as complete, whatever came before.\<close>

theorem clean_stop_hides_error_frame:
  assumes "\<not> sf_latched sf"
  shows "(let after_error = fold_frame (JObj [(''error'', JObj e)]) sf;
              after_stop = fold_frame (JObj [(''choices'', JList [JObj [(''finish_reason'', JStr ''stop'')]])]) after_error
          in \<not> finish_reason_indicates_truncation (completion_payload after_stop)
             \<and> sf_error after_stop = JObj e \<and> sf_terminator after_stop \<noteq> TERMINATOR_NONE)"
proof -
  let ?after_error = "fold_frame (JObj [(''error'', JObj e)]) sf"
  have l: "\<not> sf_latched ?after_error" "sf_error ?after_error = JObj e" "sf_terminator ?after_error \<noteq> TERMINATOR_NONE"
    using assms by (auto simp: frame_step says_unclean_def choices_of_def jget_def list_of_def List.map_filter_def ends_somehow_def as_obj_def)
      (simp add: fold_frame_def Let_def jget_def list_of_def)
  then show ?thesis
    by (auto simp: payload_read Let_def fold_frame_def jget_def list_of_def fold_choice_def is_index_zero_def unclean_def UNCLEAN_FINISH_REASONS_def)
qed

lemma clean_stop_hides_error_frame_witness:
  "\<not> finish_reason_indicates_truncation (completion_payload (fold_frame (JObj [(''choices'', JList [JObj [(''finish_reason'', JStr ''stop'')]])])
     (fold_frame (JObj [(''error'', JObj [(''code'', JInt 502)])]) empty_fold)))"
proof -
  have "\<not> sf_latched empty_fold" by (simp add: empty_fold_def)
  from clean_stop_hides_error_frame[OF this, of "[(''code'', JInt 502)]"] show ?thesis by (simp add: Let_def)
qed

section \<open>The only raise\<close>

text \<open>A slot raises only when its backup search does, and then a complete answer that was paid for is lost: with live calls on,
  an answer that came back with visible text and no source is followed by the backup search, and when that raises
  an exception outside the ones it expects, no answer is returned at all.\<close>

theorem cut_backup_search_loses_the_answer:
  "(fst (produce_initial_answer pe sl key query context tr) = Inl e \<longrightarrow>
      pe_search pe (pt_requests (snd (produce_initial_answer pe sl key query context tr))) (strip query) = SearchRaises e)
   \<and> (live_execution_enabled pe key \<and> \<not> should_force_provider_failure pe query (sl_slot sl)
      \<and> live_openrouter_response pe query (sl_slot sl) context tr = (Answered r, tr1) \<and> lr_sources r = [] \<and> ms_search (sl_slot sl)
      \<and> pe_tavily_key pe \<noteq> [] \<and> tavily_search_url (ss_ip (pe_sources pe)) (pe_tavily_base_url pe) \<noteq> None \<and> strip query \<noteq> []
      \<and> pe_search pe (pt_requests tr1) (strip query) = SearchRaises e
      \<longrightarrow> fst (produce_initial_answer pe sl key query context tr) = Inl e)"
proof (intro conjI impI)
  assume "fst (produce_initial_answer pe sl key query context tr) = Inl e"
  then obtain tr' where p: "produce_initial_answer pe sl key query context tr = (Inl e, tr')" by (metis prod.collapse)
  then have "pe_search pe (pt_requests tr') (strip query) = SearchRaises e"
  proof (cases rule: produced_cases)
    case (live r t1)
    from live_answer_cases[OF live(2)] show ?thesis by auto
  qed auto
  then show "pe_search pe (pt_requests (snd (produce_initial_answer pe sl key query context tr))) (strip query) = SearchRaises e" using p by simp
next
  assume a: "live_execution_enabled pe key \<and> \<not> should_force_provider_failure pe query (sl_slot sl)
      \<and> live_openrouter_response pe query (sl_slot sl) context tr = (Answered r, tr1) \<and> lr_sources r = [] \<and> ms_search (sl_slot sl)
      \<and> pe_tavily_key pe \<noteq> [] \<and> tavily_search_url (ss_ip (pe_sources pe)) (pe_tavily_base_url pe) \<noteq> None \<and> strip query \<noteq> []
      \<and> pe_search pe (pt_requests tr1) (strip query) = SearchRaises e"
  then have "visible (lr_answer_text r)" by (auto simp: live_openrouter_response_def split: prod.splits call_outcome.splits if_splits)
  then have "lr_answer_text r \<noteq> []" by (auto simp: visible_def is_visible_def text_points_def)
  then show "fst (produce_initial_answer pe sl key query context tr) = Inl e"
    using a by (auto simp: produce_initial_answer_def live_answer_def tavily_search_def Let_def)
qed

section \<open>One concrete service\<close>

definition sample_frame :: json where
  "sample_frame = JObj [(''choices'', JList [JObj [(''delta'', JObj [(''content'', JStr ''hi'')])]])]"

definition sample_recvs :: "(rat \<times> recv) list" where
  "sample_recvs = [(0, Bytes ''data:A''), (1, Bytes (NEWLINE @ NEWLINE)), (2, Bytes ''data:[DONE]''), (3, Bytes [])]"

text \<open>A service whose model answers \<open>hi\<close> without sources, and whose backup search is cut off.\<close>

definition sample_service :: provider_env where
  "sample_service = \<lparr>pe_live_enabled = True, pe_local = False, pe_initial_answer_max_tokens = 2000, pe_call_budget_seconds = 60,
     pe_api_base_url = ''https://o.test'', pe_tavily_key = ''k'', pe_tavily_base_url = ''https://t.test'',
     pe_sources = \<lparr>ss_ip = \<lparr>ip_literal = \<lambda>x. False, ip_loopback = \<lambda>x. False\<rparr>, ss_max_text_chars = 4000, ss_tavily_max_results = 5\<rparr>,
     pe_db = ascii_db, pe_decode = Some, pe_loads = (\<lambda>s. if s = ''A'' then Parsed sample_frame else Bad_json), pe_short_name = (\<lambda>m. None),
     pe_open = (\<lambda>before xr. Responded 0 True False sample_recvs), pe_search = (\<lambda>before q. SearchRaises ''IncompleteRead''),
     pe_elapsed_ms = 5\<rparr>"

definition sample_slot_call :: slot_call where
  "sample_slot_call = \<lparr>sl_account_id = 1, sl_query_run_id = 2, sl_credential_source = ''app_owned'',
     sl_slot = \<lparr>ms_slot_number = 1, ms_model_id = ''m'', ms_search = True\<rparr>\<rparr>"

definition no_trace :: provider_trace where "no_trace = \<lparr>pt_requests = [], pt_searches = [], pt_events = []\<rparr>"

lemmas url_eval = is_credential_safe_def char_eval starts_with_def before_char_def urlsplit_def split_scheme_def is_scheme_char_def
  after_char_def url_hostname_def host_part_def after_last_def lower_def Let_def has_userinfo_def rstrip_chars_def

lemma sample_urls:
  "chat_completions_url (ss_ip (pe_sources sample_service)) (pe_api_base_url sample_service) \<noteq> None"
  "tavily_search_url (ss_ip (pe_sources sample_service)) (pe_tavily_base_url sample_service) \<noteq> None"
  by (simp_all add: sample_service_def chat_completions_url_def tavily_search_url_def url_eval)

lemma sample_lines: "sse_lines Some (''data:A'' @ at_newline # at_newline # ''data:[DONE]'') [] =
   ([Data ''A''], \<lparr>sse_buffer = ''data:[DONE]'', sse_pending = [], sse_raised = False\<rparr>)"
proof -
  have v: "data_value Some ''data:A'' = Value ''A''" "rstrip_cr ''data:A'' \<noteq> []" "rstrip_cr [] = []"
    by (simp_all add: data_value_def rstrip_cr_def rstrip_chars_def starts_with_def SSE_IGNORED_FIELDS_def SSE_DATA_FIELD_def Let_def)
  have n: "at_newline \<notin> set ''data:A''" "at_newline \<notin> set ''data:[DONE]''" by (simp_all add: at_newline_def)
  have "sse_lines Some ([] @ at_newline # ''data:[DONE]'') [''A''] = (dispatch [''A''], \<lparr>sse_buffer = ''data:[DONE]'', sse_pending = [], sse_raised = False\<rparr>)"
    by (subst sse_line) (simp_all add: v sse_no_line[OF n(2)])
  then show ?thesis by (subst sse_line[OF n(1)]) (simp add: v dispatch_def)
qed

lemma sample_events: "body_events Some False (''data:A'' @ NEWLINE @ NEWLINE @ ''data:[DONE]'') = ([Data ''A'', Data SSE_DONE_SENTINEL], False)"
proof -
  have b: "''data:A'' @ NEWLINE @ NEWLINE @ ''data:[DONE]'' = ''data:A'' @ at_newline # at_newline # ''data:[DONE]''"
    by (simp add: NEWLINE_def at_newline_def)
  have "\<not> starts_with SSE_BOM (''data:A'' @ x)" "\<not> length (''data:A'' @ x) < length SSE_BOM" for x
    by (simp_all add: starts_with_def SSE_BOM_def)
  moreover have "sse_finish Some ''data:[DONE]'' [] = ([Data SSE_DONE_SENTINEL], False)"
    by (simp add: sse_finish_def bytes_strip_def data_value_def rstrip_cr_def rstrip_chars_def starts_with_def SSE_IGNORED_FIELDS_def
        SSE_DATA_FIELD_def Let_def dispatch_def SSE_DONE_SENTINEL_def code_def)
  ultimately show ?thesis unfolding b body_events_def by (simp only: sample_lines if_False Let_def case_prod_conv) simp
qed

lemma sample_body:
  "iter_body 60 False True False sample_recvs = ([''data:A'', NEWLINE @ NEWLINE, ''data:[DONE]''], False)"
  by (simp add: sample_recvs_def NEWLINE_def)

lemma sample_completion:
  "\<exists>r. completed_call sample_service m (read_completion Some (pe_loads sample_service) ([''data:A'', NEWLINE @ NEWLINE, ''data:[DONE]''], False)) = Answered r
     \<and> lr_answer_text r = ''hi'' \<and> lr_sources r = []"
proof -
  have l: "pe_loads sample_service ''A'' = Parsed sample_frame" by (simp add: sample_service_def)
  have ne: "''A'' \<noteq> SSE_DONE_SENTINEL" by (simp add: SSE_DONE_SENTINEL_def)
  have ev: "iter_sse_data Some False False [] [] [''data:A'', NEWLINE @ NEWLINE, ''data:[DONE]''] = ([Data ''A'', Data SSE_DONE_SENTINEL], False)"
    using events_before_mark[of "[]" Some False "[''data:A'', NEWLINE @ NEWLINE, ''data:[DONE]'']"] sample_events by (simp add: SSE_BOM_def)
  define sf where "sf = (fold_frame sample_frame empty_fold)\<lparr>sf_terminator := TERMINATOR_DONE\<rparr>"
  have f: "fold_events (pe_loads sample_service) False [Data ''A'', Data SSE_DONE_SENTINEL] empty_fold = Folded sf False"
    using l ne by (simp add: sf_def)
  have t: "sf_text sf = ''hi''" "sf_frame_count sf = 1" "sf_unrecognised sf = 0" "sf_annotations sf = []" "sf_citations sf = []"
    by (simp_all add: sf_def sample_frame_def fold_frame_def fold_choice_def jget_def list_of_def is_index_zero_def Let_def empty_fold_def)
  have c: "extract_citations st (completion_payload sf) (Some ''hi'') = []" for st
    by (simp add: extract_citations_def first_message_def first_choice_def completion_payload_def jget_def as_obj_def t Let_def jor_def truthy_def
        annotation_citations_def List.map_filter_def inline_links.simps inline_link_def)
  show ?thesis unfolding read_completion_def reassemble_streamed_completion_def Let_def case_prod_conv ev f
    by (simp add: completed_call_def payload_read t c Let_def sf_def[symmetric]) (simp add: sf_def)
qed

lemma streamed_answer_is_whole_witness:
  "\<exists>r. completed_call sample_service ''m'' (read_completion Some (pe_loads sample_service) ([''data:A'', NEWLINE @ NEWLINE, ''data:[DONE]''], False)) = Answered r
     \<and> lr_answer_text r = said sample_frame"
proof -
  obtain r where r: "completed_call sample_service ''m'' (read_completion Some (pe_loads sample_service)
      ([''data:A'', NEWLINE @ NEWLINE, ''data:[DONE]''], False)) = Answered r" using sample_completion by blast
  have "frames_read (pe_loads sample_service) [Data ''A'', Data SSE_DONE_SENTINEL] = [sample_frame]"
    by (simp add: sample_service_def SSE_DONE_SENTINEL_def)
  then have f: "[sample_frame] = frames_read (pe_loads sample_service)
      (fst (body_events Some False (concat [''data:A'', NEWLINE @ NEWLINE, ''data:[DONE]''])))" using sample_events by simp
  show ?thesis using streamed_answer_is_whole[OF r f] r by auto
qed

lemma sample_live:
  "\<exists>r tr'. live_openrouter_response sample_service ''q'' (sl_slot sample_slot_call) None no_trace = (Answered r, tr') \<and> lr_sources r = []
     \<and> lr_answer_text r = ''hi''"
proof -
  have o: "pe_open sample_service before xr = Responded 0 True False sample_recvs" "pe_decode sample_service = Some"
    "pe_call_budget_seconds sample_service = 60" for before xr by (simp_all add: sample_service_def)
  have v: "visible ''hi''" by (simp add: visible_def is_visible_def text_points_def latin1_tables_def is_invisible_char_def
      INVISIBLE_CATEGORIES_def INVISIBLE_OUTLIERS_def is_variation_selector_def VARIATION_SELECTOR_RANGES_def is_noncharacter_def code_def)
  obtain r where r: "completed_call sample_service (''m'' @ ONLINE) (read_completion Some (pe_loads sample_service)
      ([''data:A'', NEWLINE @ NEWLINE, ''data:[DONE]''], False)) = Answered r" "lr_answer_text r = ''hi''" "lr_sources r = []"
    using sample_completion by blast
  have p: "fst (post_messages sample_service xr no_trace) = Answered r" if "xr_model_id xr = ''m'' @ ONLINE" for xr
    using sample_urls(1) r(1) that by (simp add: post_messages_def o sample_body)
  have q: "\<exists>tr'. post_openrouter sample_service (''m'' @ ONLINE) u s n c f g b no_trace = (Answered r, tr')" for u s n c f g b
    proof -
    have "\<exists>tr'. z = (Answered r, tr')" if "fst z = Answered r" for z :: "call_outcome \<times> provider_trace"
      using that by (cases z) simp
    then show ?thesis unfolding post_openrouter_def using p by simp
  qed
  have slot: "ms_search (sl_slot sample_slot_call)" "ms_model_id (sl_slot sample_slot_call) = ''m''" by (simp_all add: sample_slot_call_def)
  have "\<exists>tr'. call_openrouter_with_optional_search sample_service ''q'' (sl_slot sample_slot_call) None no_trace = (Answered r, tr')"
  proof -
    obtain t where "post_openrouter sample_service (''m'' @ ONLINE) (text_points ''q'') None (Some (pe_initial_answer_max_tokens sample_service))
        None None None True no_trace = (Answered r, t)" using q by blast
    then show ?thesis using slot unfolding call_openrouter_with_optional_search_def Let_def by simp
  qed
  then show ?thesis using r v by (auto simp: live_openrouter_response_def)
qed

lemma sample_runs_live: "live_execution_enabled sample_service ''k''" "\<not> should_force_provider_failure sample_service ''q'' (sl_slot sample_slot_call)"
  by (simp_all add: live_execution_enabled_def should_force_provider_failure_def sample_service_def sample_slot_call_def contains_def starts_with_def)

lemma cut_backup_search_loses_the_answer_witness:
  "fst (produce_initial_answer sample_service sample_slot_call ''k'' ''q'' None no_trace) = Inl ''IncompleteRead''"
proof -
  obtain r tr1 where "live_openrouter_response sample_service ''q'' (sl_slot sample_slot_call) None no_trace = (Answered r, tr1)" "lr_sources r = []"
    using sample_live by blast
  moreover have "pe_search sample_service before q = SearchRaises ''IncompleteRead''" "pe_tavily_key sample_service \<noteq> []"
    "ms_search (sl_slot sample_slot_call)" "strip ''q'' \<noteq> []" for before q
    by (simp_all add: sample_service_def sample_slot_call_def strip_def lstrip_def rstrip_def char_eval)
  ultimately show ?thesis using cut_backup_search_loses_the_answer[of sample_service sample_slot_call "''k''" "''q''" None no_trace "''IncompleteRead''" r tr1]
      sample_urls(2) sample_runs_live by blast
qed

text \<open>The same service without a backup search answers.\<close>

lemma sample_produced:
  "\<exists>a tr'. produce_initial_answer (sample_service\<lparr>pe_tavily_key := []\<rparr>) sample_slot_call [] ''q'' None no_trace = (Inr a, tr')
     \<and> ia_provider_path a = LOCAL_SIMULATION \<and> ia_sources a \<noteq> []"
  by (simp add: produce_initial_answer_def live_execution_enabled_def should_force_provider_failure_def should_force_fallback_def sample_service_def
      sample_slot_call_def contains_def starts_with_def completed_answer_def coverage_never_raises[unfolded One_nat_def] local_simulation_sources_def Let_def)

lemma coverage_counts_own_sources_witness:
  "\<exists>a tr'. produce_initial_answer (sample_service\<lparr>pe_tavily_key := []\<rparr>) sample_slot_call [] ''q'' None no_trace = (Inr a, tr')
     \<and> ia_sources a \<noteq> [] \<and> cc_sourced_answer_count (ia_citation_coverage a) = 0"
proof -
  obtain a tr' where a: "produce_initial_answer (sample_service\<lparr>pe_tavily_key := []\<rparr>) sample_slot_call [] ''q'' None no_trace = (Inr a, tr')"
    "ia_provider_path a = LOCAL_SIMULATION" "ia_sources a \<noteq> []" using sample_produced by blast
  from coverage_counts_own_sources[OF a(1)] a show ?thesis by auto
qed

text \<open>The same service with a server that refuses the online call as not found and the bare one for its rate.\<close>

definition refusing_service :: provider_env where
  "refusing_service = sample_service\<lparr>pe_open := (\<lambda>before xr. if before = [] then HttpError 404 else HttpError 429)\<rparr>"

lemma sample_refused:
  "\<exists>a tr'. produce_initial_answer refusing_service sample_slot_call ''k'' ''q'' None no_trace = (Inr a, tr')
     \<and> ia_billing_class a = Some BILLING_NOT_BILLED \<and> length (pt_requests tr') = 2"
proof -
  have u: "chat_completions_url (ss_ip (pe_sources refusing_service)) (pe_api_base_url refusing_service) \<noteq> None"
    using sample_urls(1) by (simp add: refusing_service_def)
  have o: "pe_open refusing_service before xr = (if before = [] then HttpError 404 else HttpError 429)" for before xr
    by (simp add: refusing_service_def)
  have "\<exists>tr'. call_openrouter_with_optional_search refusing_service ''q'' (sl_slot sample_slot_call) None no_trace = (NOT_DISPATCHED, tr')
      \<and> length (pt_requests tr') = 2"
    using u by (simp add: call_openrouter_with_optional_search_def post_openrouter_def post_messages_def o sample_slot_call_def no_trace_def
        ends_with_def starts_with_def ONLINE_def UNBILLED_HTTP_STATUSES_def Let_def)
  then obtain t where l: "live_openrouter_response refusing_service ''q'' (sl_slot sample_slot_call) None no_trace = (NOT_DISPATCHED, t)"
    "length (pt_requests t) = 2" by (auto simp: live_openrouter_response_def)
  have on: "live_execution_enabled refusing_service ''k''" "\<not> should_force_provider_failure refusing_service ''q'' (sl_slot sample_slot_call)"
    using sample_runs_live by (simp_all add: refusing_service_def live_execution_enabled_def should_force_provider_failure_def)
  obtain res t2 where f: "failed_answer refusing_service sample_slot_call BILLING_NOT_BILLED t = (res, t2)" by force
  have "produce_initial_answer refusing_service sample_slot_call ''k'' ''q'' None no_trace = (res, t2)"
    using l(1) on f by (simp add: produce_initial_answer_def Let_def)
  then show ?thesis using no_text[OF f[unfolded failed_answer_def]] l(2) by auto
qed

lemma failure_is_billed_honestly_witness:
  "\<exists>a tr'. produce_initial_answer refusing_service sample_slot_call ''k'' ''q'' None no_trace = (Inr a, tr')
     \<and> length (pt_requests tr') = 2 \<and> all_unbilled refusing_service [] (pt_requests tr')"
proof -
  obtain a tr' where a: "produce_initial_answer refusing_service sample_slot_call ''k'' ''q'' None no_trace = (Inr a, tr')"
    "ia_billing_class a = Some BILLING_NOT_BILLED" "length (pt_requests tr') = 2" using sample_refused by blast
  from failure_is_billed_honestly[OF a(1)] a show ?thesis by (auto simp: no_trace_def)
qed

end
