(* ===== verification/Evaluation_Laws.thy ===== *)
theory Evaluation_Laws
  imports Evaluation Provider_Laws
begin

text \<open>
  What the trust labels and the score of a run may say: a simulated run is never called faithful, a confidence figure
  needs a real judge's supporting verdict and is the composite of the signals alone, a refusal only lowers, and
  a run's evaluation never fails.
\<close>

section \<open>A simulated run\<close>

lemma synthesis_resolves_nothing:
  assumes "\<forall>a \<in> set answers. \<forall>s \<in> set (ia_sources a). is_placeholder_source ip s"
  shows "mk_resolved (citation_marker_census ip md (run_scopes answers fs)) = 0"
  by (rule only_placeholders) (use assms in \<open>auto simp: run_scopes_def\<close>)

text \<open>C29. A run that retrieved nothing is never called faithful: when every source is one of the app's own stubs, the label
  is not faithful whatever the prose cites, and the risk is low only when nothing checkable is cited and most
  answers refused.\<close>

theorem simulated_run_is_never_faithful:
  assumes "evaluate_layer_a ee answers fs agreement verdict requested = Some re"
    and "list_all (\<lambda>a. list_all (is_placeholder_source (ee_ip ee)) (ia_sources a)) answers"
  shows "re_faithfulness_label re \<noteq> FAITHFUL
    \<and> (re_hallucination_risk re = RISK_LOW \<longrightarrow>
        la_citation_marker_grounding (re_signals re) = None \<and> la_refusal_detected (re_signals re))"
proof -
  obtain coverage where re: "re_signals re = layer_a_of ee answers fs agreement requested coverage"
    "re_faithfulness_label re = classify_faithfulness (re_signals re)" "re_hallucination_risk re = classify_hallucination_risk (re_signals re)"
    using assms(1) by (auto simp: evaluate_layer_a_def Let_def split: option.splits if_splits)
  have "mk_resolved (citation_marker_census (ee_ip ee) (ee_markdown ee) (run_scopes answers fs)) = 0"
    by (rule synthesis_resolves_nothing) (use assms(2) in \<open>auto simp: list_all_iff\<close>)
  then have "la_citation_marker_grounding (re_signals re) \<in> {None, Some 0}"
    unfolding re(1) by (simp add: layer_a_of_def ratio_option_def Let_def)
  then show ?thesis unfolding re(2,3)
    by (auto simp: classify_faithfulness_def classify_hallucination_risk_def cap_faithfulness_def GROUNDING_FABRICATION_THRESHOLD_def
        GROUNDING_GOOD_THRESHOLD_def Let_def)
qed

section \<open>A refusal only lowers\<close>

text \<open>A refusal never raises a verdict: read as refused, the same signals get a label that is trusted no more, and
  the same risk whenever any citation could be checked.\<close>

theorem refusal_only_lowers:
  "trust_order (classify_faithfulness (la\<lparr>la_refusal_detected := True\<rparr>)) \<le> trust_order (classify_faithfulness (la\<lparr>la_refusal_detected := False\<rparr>))
   \<and> classify_faithfulness (la\<lparr>la_refusal_detected := True\<rparr>) \<noteq> FAITHFUL
   \<and> (la_citation_marker_grounding la = None
      \<or> classify_hallucination_risk (la\<lparr>la_refusal_detected := True\<rparr>) = classify_hallucination_risk (la\<lparr>la_refusal_detected := False\<rparr>))"
  by (auto simp: classify_faithfulness_def classify_hallucination_risk_def cap_faithfulness_def Let_def split: option.split)

section \<open>The composite\<close>

lemma weights: "weight_of ''citation_marker_grounding'' = 3 / 10" "weight_of ''live_ratio'' = 1 / 5" "weight_of ''citation_coverage_ratio'' = 3 / 20"
  "weight_of ''completeness'' = 3 / 20" "weight_of ''disagreement_integrity'' = 1 / 10" "weight_of ''uncertainty_surfaced'' = 1 / 20"
  "weight_of ''decision_support_framing_present'' = 1 / 20"
  by (simp_all add: weight_of_def LAYER_A_WEIGHTS_def)

text \<open>What a run's known ratios and flags other than its grounding weigh together, of 70.\<close>

definition other_points :: "layer_a_signals \<Rightarrow> rat" where
  "other_points la =
     20 * la_live_ratio la + 15 * la_citation_coverage_ratio la + 15 * la_completeness la
     + (if la_disagreement_suppressed la then 0 else 10) + (if la_uncertainty_surfaced la then 5 else 0)
     + (if la_decision_support_framing_present la then 5 else 0)"

text \<open>C31. The score is accounted for: the composite of a run's signals lies between 0 and 100 and is exactly the sum of the
  contributions shown beside it, each of them what its signal's weight and value come to. With a known grounding it is 30 points
  for the grounding and the other 70; with an unknown one the grounding is left out and the other 70 points are scaled to 100, so
  that not knowing costs nothing.\<close>

theorem composite_is_accounted_for:
  assumes "valid_signals la"
  shows "0 \<le> fst (compute_composite la) \<and> fst (compute_composite la) \<le> 100
    \<and> fst (compute_composite la) = sum_list (map tc_contribution (snd (compute_composite la)))
    \<and> map tc_signal (snd (compute_composite la)) =
        (if la_citation_marker_grounding la = None then tl (map fst LAYER_A_WEIGHTS) else map fst LAYER_A_WEIGHTS)
    \<and> fst (compute_composite la) =
        (case la_citation_marker_grounding la of None \<Rightarrow> other_points la * 100 / 70 | Some g \<Rightarrow> 30 * g + other_points la)
    \<and> (\<forall>c \<in> set (snd (compute_composite la)).
         map_of (signal_values la) (tc_signal c) = Some (Some (tc_value c)) \<and> map_of LAYER_A_WEIGHTS (tc_signal c) = Some (tc_weight c)
         \<and> tc_contribution c = 100 * tc_weight c * tc_value c / (if la_citation_marker_grounding la = None then 70 / 100 else 1))"
proof -
  define i u d where "i = (if la_disagreement_suppressed la then 0 else 1 :: rat)" and "u = (if la_uncertainty_surfaced la then 1 else 0 :: rat)"
    and "d = (if la_decision_support_framing_present la then 1 else 0 :: rat)"
  have o: "other_points la = 20 * la_live_ratio la + 15 * la_citation_coverage_ratio la + 15 * la_completeness la + 10 * i + 5 * u + 5 * d"
    by (simp add: other_points_def i_def u_def d_def)
  have b: "0 \<le> i" "i \<le> 1" "0 \<le> u" "u \<le> 1" "0 \<le> d" "d \<le> 1" by (simp_all add: i_def u_def d_def)
  have v: "0 \<le> la_live_ratio la" "la_live_ratio la \<le> 1" "0 \<le> la_citation_coverage_ratio la" "la_citation_coverage_ratio la \<le> 1"
    "0 \<le> la_completeness la" "la_completeness la \<le> 1" using assms by (simp_all add: valid_signals_def in_unit_def)
  show ?thesis
  proof (cases "la_citation_marker_grounding la")
    case None
    show ?thesis using b v None o
      by (simp add: compute_composite_def signal_values_def List.map_filter_def weights LAYER_A_WEIGHTS_def Let_def
          i_def[symmetric] u_def[symmetric] d_def[symmetric] min_def max_def field_simps)
  next
    case (Some g)
    have "0 \<le> g" "g \<le> 1" using assms Some by (simp_all add: valid_signals_def in_unit_def)
    then show ?thesis using b v Some o
      by (simp add: compute_composite_def signal_values_def List.map_filter_def weights LAYER_A_WEIGHTS_def Let_def
          i_def[symmetric] u_def[symmetric] d_def[symmetric] min_def max_def field_simps)
  qed
qed

definition ungrounded_signals :: layer_a_signals where
  "ungrounded_signals = \<lparr>la_citation_coverage_ratio = 1, la_citation_marker_grounding = None, la_unverifiable_marker_count = 0,
     la_unverifiable_marker_ratio = None, la_agreement_ratio = 1, la_live_ratio = 1, la_completeness = 1, la_false_consensus_preserved = True,
     la_polar_disagreement_detected = False, la_disagreement_suppressed = False, la_decision_support_framing_present = True,
     la_high_stakes_warning_required = False, la_high_stakes_warning_present = False, la_uncertainty_surfaced = True,
     la_refusal_detected = False, la_run_wholly_refused = False\<rparr>"

lemma composite_is_accounted_for_witness: "fst (compute_composite ungrounded_signals) = 100"
proof -
  have "valid_signals ungrounded_signals" by (simp add: ungrounded_signals_def valid_signals_def in_unit_def)
  from composite_is_accounted_for[OF this] show ?thesis by (simp add: ungrounded_signals_def other_points_def)
qed

section \<open>Confidence needs a judge\<close>

lemma round_between: "of_int lo \<le> (x :: rat) \<Longrightarrow> x \<le> of_int hi \<Longrightarrow> lo \<le> round_half_even x \<and> round_half_even x \<le> hi"
proof -
  assume "of_int lo \<le> x" "x \<le> of_int hi"
  then have f: "lo \<le> floor x" "floor x \<le> hi" by (simp_all add: le_floor_iff floor_le_iff)
  have "floor x + 1 \<le> hi" if "x - of_int (floor x) > 0"
  proof -
    have "of_int (floor x) < (of_int hi :: rat)" using that \<open>x \<le> of_int hi\<close> by linarith
    then show ?thesis by simp
  qed
  then show ?thesis using f by (auto simp: round_half_even_def Let_def)
qed

lemma composite_range: "0 \<le> fst (compute_composite la) \<and> fst (compute_composite la) \<le> 100"
  by (simp add: compute_composite_def Let_def)

text \<open>C28. A confidence figure is served only after a real judge said the citations hold: its verdict is stored with the run, is
  not of high risk and scores at least 1 on both counts. The figure is the rounded composite, between 0 and 100, a high
  band needs at least 75, and no panel of fewer than three models gets one.\<close>

theorem confidence_needs_a_judge:
  assumes "evaluate_run ee judge query_text answers fs agreement requested = Some (re, ts)" and "served_confidence ts = Some n"
  shows "(\<exists>j v. judge = Some j \<and> ej_verifies_support j \<and> re_judge re = Some v \<and> jv_risk v \<noteq> RISK_HIGH \<and> 1 \<le> jv_faithfulness v \<and> 1 \<le> jv_grounding v)
    \<and> n = round_half_even (ts_composite ts) \<and> 0 \<le> n \<and> n \<le> 100
    \<and> (ts_band ts = BAND_HIGH \<longrightarrow> 75 \<le> n \<and> (case requested of None \<Rightarrow> True | Some slots \<Rightarrow> 3 \<le> slots))"
proof -
  obtain verdict verified where j: "judge_run ee judge query_text answers fs = (verdict, verified)" by force
  then have e: "evaluate_layer_a ee answers fs agreement verdict requested = Some re" and ts: "ts = build_trust_score re verified requested"
    using assms(1) by (auto simp: evaluate_run_def)
  have jv: "re_judge re = verdict" using e by (auto simp: evaluate_layer_a_def Let_def split: option.splits if_splits)
  have v: "verified" using assms(2) by (auto simp: ts served_confidence_def build_trust_score_def Let_def case_prod_unfold split: if_splits)
  then obtain jd w where w: "judge = Some jd" "verdict = Some w" "ej_verifies_support jd" "verdict_supports_verification (Some w)"
    using j by (auto simp: judge_run_def Let_def split: option.splits)
  have n: "n = round_half_even (ts_composite ts)"
    using assms(2) v by (auto simp: ts served_confidence_def build_trust_score_def Let_def case_prod_unfold)
  have c: "ts_composite ts = fst (compute_composite (re_signals re))" by (simp add: ts build_trust_score_def Let_def case_prod_unfold)
  have r: "0 \<le> n" "n \<le> 100" using round_between[of 0 "ts_composite ts" 100] composite_range[of "re_signals re"] unfolding n c by simp_all
  have b: "75 \<le> n \<and> (case requested of None \<Rightarrow> True | Some slots \<Rightarrow> 3 \<le> slots)" if "ts_band ts = BAND_HIGH"
    using that v unfolding n c ts
    by (auto simp: build_trust_score_def Let_def case_prod_unfold BAND_LOW_CEILING_def BAND_MODERATE_CEILING_def TRUST_CAP_BELOW_PANEL_SIZE_def
        not_less split: if_splits option.splits)
  show ?thesis using w jv n r b
    by (auto simp: verdict_supports_verification_def supports_verification_def JUDGE_SUPPORT_MIN_GROUNDING_def JUDGE_SUPPORT_MIN_FAITHFULNESS_def
        split: if_splits)
qed

section \<open>A judge moves no number\<close>

text \<open>C30. The judge never enters the arithmetic: whichever judge a run is evaluated with, or none, its signals, labels,
  composite and contributions are the same.\<close>

theorem judge_moves_no_number:
  assumes "evaluate_run ee judge query_text answers fs agreement requested = Some (re, ts)"
    and "evaluate_run ee judge' query_text' answers fs agreement requested = Some (re', ts')"
  shows "re_signals re = re_signals re' \<and> re_faithfulness_label re = re_faithfulness_label re' \<and> re_hallucination_risk re = re_hallucination_risk re'
    \<and> ts_composite ts = ts_composite ts' \<and> ts_contributions ts = ts_contributions ts'"
  using assms
  by (auto simp: evaluate_run_def evaluate_layer_a_def build_trust_score_def Let_def case_prod_unfold split: option.splits if_splits)

section \<open>A run is always evaluated\<close>

lemma ratio_unit: "n \<le> m \<Longrightarrow> in_unit (ratio n m)"
  by (simp add: in_unit_def ratio_def)

lemma coverage_defined: "m \<le> n \<Longrightarrow> calculate_citation_coverage n m \<noteq> None"
proof (cases "n = 0")
  case False
  assume le: "m \<le> n"
  have "(of_nat m / of_nat n * 100 :: rat) \<le> 100" using le False by (simp add: divide_le_eq)
  then have "round_half_even (of_nat m / of_nat n * 100) \<le> 100" using round_between[of 0 "of_nat m / of_nat n * 100" 100] by simp
  then have "(of_int (round_half_even (of_nat m / of_nat n * 100)) :: rat) \<le> of_int 100" by (simp only: of_int_le_iff)
  then show ?thesis using le False by (simp add: calculate_citation_coverage_def Let_def not_less)
qed (simp add: calculate_citation_coverage_def)

lemma sourced_at_most:
  "length (filter (\<lambda>a. cc_answer_count (ia_citation_coverage a) > 0 \<and> list_ex (\<lambda>s. \<not> sr_is_fallback s) (ia_sources a)) answers)
    \<le> sum_list (map (\<lambda>a. cc_answer_count (ia_citation_coverage a)) answers)"
  by (induction answers) auto

lemma coverage_total: "coverage_of_answers answers \<noteq> None"
  unfolding coverage_of_answers_def using coverage_defined[OF sourced_at_most[of answers]] by simp

lemma ratio_option_unit: "n \<le> m \<Longrightarrow> case ratio_option n m of None \<Rightarrow> True | Some g \<Rightarrow> in_unit g"
  by (simp add: in_unit_def ratio_option_def)

lemma clamped: "in_unit (min (max x 0) 1)" by (simp add: in_unit_def)

lemma layer_fields:
  "la_citation_coverage_ratio (layer_a_of ee answers fs ag (Some slots) c) = min (max c 0) 1"
  "la_citation_marker_grounding (layer_a_of ee answers fs ag (Some slots) c) =
    (let mk = citation_marker_census (ee_ip ee) (ee_markdown ee) (run_scopes answers fs) in ratio_option (mk_resolved mk) (resolvable mk))"
  "la_unverifiable_marker_ratio (layer_a_of ee answers fs ag (Some slots) c) =
    (let mk = citation_marker_census (ee_ip ee) (ee_markdown ee) (run_scopes answers fs)
     in ratio_option (mk_unverifiable mk) (resolvable mk + mk_unverifiable mk))"
  "la_agreement_ratio (layer_a_of ee answers fs ag (Some slots) c) = ratio (as_aligned ag) (as_total ag)"
  "la_live_ratio (layer_a_of ee answers fs ag (Some slots) c) =
    ratio (length (filter (\<lambda>a. ia_provider_path a = OPENROUTER_SEARCH \<and> ia_status a = ANSWER_COMPLETED) answers)) slots"
  "la_completeness (layer_a_of ee answers fs ag (Some slots) c) = ratio (length (filter substantive answers)) slots"
  by (simp_all add: layer_a_of_def Let_def)

lemma layer_a_total:
  assumes "length answers \<le> slots"
  shows "evaluate_layer_a ee answers fs (summarize_agreement answers alignments panel) v (Some slots) \<noteq> None"
proof -
  have sub: "length (filter P answers) \<le> slots" for P using length_filter_le[of P answers] assms by linarith
  have valid: "valid_signals (layer_a_of ee answers fs (summarize_agreement answers alignments panel) (Some slots) c)" for c
    unfolding valid_signals_def layer_fields
    using sub by (intro conjI) (simp_all add: ratio_unit ratio_option_unit resolvable_def clamped Let_def summarize_agreement_def)
  obtain c where "coverage_of_answers answers = Some c" using coverage_total[of answers] by blast
  then show ?thesis using valid by (auto simp: evaluate_layer_a_def Let_def split: option.split)
qed

text \<open>Evaluating a terminal run never fails: for the agreement the run's own summary gives, and at least as many slots
  asked for as answers recorded, there is an evaluation and a score, whatever the answers hold.\<close>

theorem every_run_is_evaluated:
  assumes "length answers \<le> slots"
  shows "evaluate_run ee judge query_text answers fs (summarize_agreement answers alignments panel) (Some slots) \<noteq> None"
  using layer_a_total[OF assms] by (auto simp: evaluate_run_def case_prod_unfold Let_def)

section \<open>A run at hand\<close>

definition stub_source :: source_reference where
  "stub_source = \<lparr>sr_title = ''A'', sr_url = ''https://example.test/a'', sr_provider = LOCAL_SIMULATION, sr_is_fallback = True, sr_excerpt = []\<rparr>"

definition stub_answer :: initial_answer where
  "stub_answer = (plain_answer 1 ''See [1].'')\<lparr>ia_sources := [stub_source]\<rparr>"

definition sample_eval :: eval_env where
  "sample_eval = \<lparr>ee_ip = no_ip, ee_markdown = \<lambda>s. [\<lparr>mt_type = ''inline'', mt_content = s, mt_children = []\<rparr>]\<rparr>"

definition sure_judge :: eval_judge where
  "sure_judge = \<lparr>ej_verifies_support = True, ej_evaluate = \<lambda>e. Some \<lparr>jv_faithfulness = 4, jv_grounding = 5, jv_disagreement_preserved = True,
     jv_risk = RISK_LOW, jv_rationale = ''ok'', jv_model_id = ''m''\<rparr>\<rparr>"

abbreviation sample_agreement :: agreement_summary where
  "sample_agreement \<equiv> summarize_agreement [stub_answer] [] UNDETERMINED"

lemma stub_is_placeholder: "is_placeholder_source no_ip stub_source"
  by (simp add: is_placeholder_source_def stub_source_def split_url_eval PLACEHOLDER_SOURCE_HOST_def ends_with_def)

lemma simulated_run_is_never_faithful_witness:
  "\<exists>re. evaluate_layer_a sample_eval [stub_answer] None sample_agreement None (Some 2) = Some re \<and> re_faithfulness_label re \<noteq> FAITHFUL"
proof -
  obtain re where re: "evaluate_layer_a sample_eval [stub_answer] None sample_agreement None (Some 2) = Some re"
    using layer_a_total[of "[stub_answer]" 2 sample_eval None "[]" UNDETERMINED None] by auto
  have "list_all (\<lambda>a. list_all (is_placeholder_source (ee_ip sample_eval)) (ia_sources a)) [stub_answer]"
    using stub_is_placeholder by (simp add: sample_eval_def stub_answer_def)
  from simulated_run_is_never_faithful[OF re this] re show ?thesis by blast
qed

lemma sample_run: "\<exists>re ts. evaluate_run sample_eval (Some sure_judge) None [stub_answer] None sample_agreement (Some 2) = Some (re, ts) \<and> served_confidence ts \<noteq> None"
proof -
  define v where "v = fst (judge_run sample_eval (Some sure_judge) None [stub_answer] None)"
  have j: "judge_run sample_eval (Some sure_judge) None [stub_answer] None = (v, True)"
    by (simp add: v_def judge_run_def sure_judge_def verdict_supports_verification_def supports_verification_def
        JUDGE_SUPPORT_MIN_GROUNDING_def JUDGE_SUPPORT_MIN_FAITHFULNESS_def)
  obtain re where re: "evaluate_layer_a sample_eval [stub_answer] None sample_agreement v (Some 2) = Some re"
    using layer_a_total[of "[stub_answer]" 2 sample_eval None "[]" UNDETERMINED v] by auto
  show ?thesis using re by (simp add: evaluate_run_def j served_confidence_def build_trust_score_def Let_def case_prod_unfold)
qed

lemma confidence_needs_a_judge_witness:
  "\<exists>re ts n. evaluate_run sample_eval (Some sure_judge) None [stub_answer] None sample_agreement (Some 2) = Some (re, ts)
     \<and> served_confidence ts = Some n \<and> n \<le> 100 \<and> ts_band ts \<noteq> BAND_HIGH"
proof -
  obtain re ts n where r: "evaluate_run sample_eval (Some sure_judge) None [stub_answer] None sample_agreement (Some 2) = Some (re, ts)"
    "served_confidence ts = Some n" using sample_run by blast
  from confidence_needs_a_judge[OF r] r show ?thesis by auto
qed

lemma judge_moves_no_number_witness:
  "\<exists>re ts re' ts'. evaluate_run sample_eval (Some sure_judge) None [stub_answer] None sample_agreement (Some 2) = Some (re, ts)
     \<and> evaluate_run sample_eval None None [stub_answer] None sample_agreement (Some 2) = Some (re', ts') \<and> ts_composite ts = ts_composite ts'"
proof -
  obtain re ts where r: "evaluate_run sample_eval (Some sure_judge) None [stub_answer] None sample_agreement (Some 2) = Some (re, ts)"
    using sample_run by blast
  have "evaluate_run sample_eval None None [stub_answer] None sample_agreement (Some 2) \<noteq> None"
    using layer_a_total[of "[stub_answer]" 2] by (auto simp: evaluate_run_def judge_run_def Let_def)
  then obtain re' ts' where r': "evaluate_run sample_eval None None [stub_answer] None sample_agreement (Some 2) = Some (re', ts')" by auto
  from judge_moves_no_number[OF r r'] r r' show ?thesis by blast
qed

lemma every_run_is_evaluated_witness:
  "evaluate_run sample_eval None None [stub_answer] None sample_agreement (Some 2) \<noteq> None"
  by (rule every_run_is_evaluated) simp

end
