(* ===== verification/Quick_Verdict.thy ===== *)
theory Quick_Verdict
  imports Judge_Evidence
begin

text \<open>
  What a quick answer serves of the judge, from \<^verbatim>\<open>quick_verdict.py\<close>: the level read from the scores, the sentences the
  application writes, and the claims that may be shown, each a piece of the answer's own displayed text. The markdown
  parser is the parameter of \<open>Citations\<close>.
\<close>

section \<open>Levels and reasons\<close>

datatype verdict_level = WELL_SUPPORTED | PARTLY_SUPPORTED | NOT_SUPPORTED | NOT_CHECKED

datatype finding = No_finding | Panel_finding judge_verdict | Quick_finding quick_verdict

definition WELL_SUPPORTED_MIN_SCORE :: int where "WELL_SUPPORTED_MIN_SCORE = 4"

definition level_of_scores :: "int \<Rightarrow> int \<Rightarrow> risk \<Rightarrow> verdict_level" where
  "level_of_scores faithfulness grounding r =
     (if \<not> supports_verification r grounding faithfulness then NOT_SUPPORTED
      else if faithfulness \<ge> WELL_SUPPORTED_MIN_SCORE \<and> grounding \<ge> WELL_SUPPORTED_MIN_SCORE \<and> r = RISK_LOW then WELL_SUPPORTED
      else PARTLY_SUPPORTED)"

fun verdict_level_of :: "finding \<Rightarrow> verdict_level" where
  "verdict_level_of No_finding = NOT_CHECKED"
| "verdict_level_of (Panel_finding v) = level_of_scores (jv_faithfulness v) (jv_grounding v) (jv_risk v)"
| "verdict_level_of (Quick_finding v) = level_of_scores (qv_faithfulness v) (qv_grounding v) (qv_risk v)"

fun risk_text :: "risk \<Rightarrow> string" where
  "risk_text RISK_LOW = ''low''"
| "risk_text RISK_MEDIUM = ''medium''"
| "risk_text RISK_HIGH = ''high''"

text \<open>The scores are 0 to 5, so the conversion to a natural number loses nothing.\<close>

definition reasons_for :: "int \<Rightarrow> int \<Rightarrow> risk \<Rightarrow> nat \<Rightarrow> string list" where
  "reasons_for faithfulness grounding r source_count =
     [''The judge scored how closely the answer keeps to its cited sources '' @ nat_str (nat faithfulness) @ '' out of 5.'',
      ''It scored how well the answer'' @ [CHR 0x27] @ ''s citations point at those sources '' @ nat_str (nat grounding) @ '' out of 5.'',
      ''It rated the risk of claims the sources do not support as '' @ risk_text r @ ''.'']
     @ [if source_count = 0 then ''The answer cited no source the judge could check.''
        else ''The judge checked the answer against '' @ nat_str source_count @ '' '' @ (if source_count = 1 then ''source'' else ''sources'') @ ''.'']"

section \<open>The text a reader sees\<close>

text \<open>A child that is neither text, code nor a break shows nothing.\<close>

definition child_text :: "md_child \<Rightarrow> string" where
  "child_text c =
     (if mc_type c = ''text'' \<or> mc_type c = ''code_inline'' then mc_content c
      else if mc_type c = ''softbreak'' \<or> mc_type c = ''hardbreak'' then '' '' else [])"

definition displayed_text_blocks :: "(string \<Rightarrow> md_token list) \<Rightarrow> string \<Rightarrow> string list" where
  "displayed_text_blocks md s =
     (if length s > PARSE_LIMIT_CHARS then []
      else filter (\<lambda>b. b \<noteq> [])
             (map (\<lambda>t. collapse (concat (map child_text (mt_children t)))) (filter (\<lambda>t. mt_type t = ''inline'') (md s))))"

text \<open>\<^verbatim>\<open>s.replace(p, "")\<close> for a non-empty \<open>p\<close>: the matches from the left, none overlapping.\<close>

function remove_all :: "string \<Rightarrow> string \<Rightarrow> string" where
  "remove_all p s =
     (case s of
        [] \<Rightarrow> []
      | c # r \<Rightarrow> if p \<noteq> [] \<and> starts_with p s then remove_all p (drop (length p) s) else c # remove_all p r)"
  by pat_completeness auto
termination by (relation "measure (\<lambda>(p, s). length s)") auto

declare remove_all.simps [simp del]

definition is_alnum :: "char \<Rightarrow> bool" where "is_alnum c = (is_word c \<and> c \<noteq> CHR ''_'')"

text \<open>A star or underscore is kept between two letters or digits only; the flag says what stands before.\<close>

fun drop_emphasis :: "bool \<Rightarrow> string \<Rightarrow> string" where
  "drop_emphasis before [] = []"
| "drop_emphasis before (c # s) =
     (if (c = CHR ''*'' \<or> c = CHR ''_'') \<and> \<not> (before \<and> s \<noteq> [] \<and> is_alnum (hd s)) then drop_emphasis (is_alnum c) s
      else c # drop_emphasis (is_alnum c) s)"

definition raw_reading :: "string \<Rightarrow> string" where
  "raw_reading s = drop_emphasis False (remove_all ''__'' (remove_all ''**'' (remove_all [CHR 0x60] (collapse s))))"

section \<open>A quote within a block\<close>

text \<open>\<^verbatim>\<open>block.find(quote, start)\<close>.\<close>

definition find_at :: "string \<Rightarrow> string \<Rightarrow> nat \<Rightarrow> nat option" where
  "find_at q s start = (if start > length s then None else map_option (\<lambda>i. start + i) (find_sub q (drop start s)))"

definition edges_ok :: "string \<Rightarrow> string \<Rightarrow> nat \<Rightarrow> bool" where
  "edges_ok q s start =
     ((start = 0 \<or> \<not> is_alnum (s ! (start - 1)))
      \<and> (start + length q = length s \<or> \<not> is_alnum (s ! (start + length q))))"

lemma find_at_Some: "find_at q s start = Some i \<Longrightarrow> start \<le> i \<and> i + length q \<le> length s \<and> take (length q) (drop i s) = q"
proof -
  assume f: "find_at q s start = Some i"
  then obtain j where j: "find_sub q (drop start s) = Some j" "i = start + j" and le: "start \<le> length s"
    by (auto simp: find_at_def split: if_splits)
  obtain t where t: "drop start s = take j (drop start s) @ q @ t" "j \<le> length (drop start s)" using find_sub_Some[OF j(1)] by blast
  have d: "drop i s = q @ t"
  proof -
    have "drop i s = drop j (drop start s)" by (simp add: j(2) add.commute)
    also have "\<dots> = drop j (take j (drop start s) @ q @ t)" using t(1) by simp
    also have "\<dots> = q @ t" using t(2) by simp
    finally show ?thesis .
  qed
  have "length s - i = length q + length t" using arg_cong[OF d, of length] by simp
  moreover have "i \<le> length s" using t(2) le j(2) by simp
  ultimately have "i + length q \<le> length s" by linarith
  then show ?thesis using d j(2) by simp
qed

function bounded_from :: "string \<Rightarrow> string \<Rightarrow> nat \<Rightarrow> bool" where
  "bounded_from q s start =
     (case find_at q s start of
        None \<Rightarrow> False
      | Some i \<Rightarrow> if edges_ok q s i then True else bounded_from q s (Suc i))"
  by pat_completeness auto
termination
proof (relation "measure (\<lambda>(q, s, start). Suc (length s) - start)")
  fix q s start i
  assume "find_at q s start = Some i"
  then have "start \<le> i" "i \<le> length s" using find_at_Some by fastforce+
  then show "((q, s, Suc i), q, s, start) \<in> measure (\<lambda>(q, s, start). Suc (length s) - start)" by simp
qed simp

declare bounded_from.simps [simp del]

definition bounded_in :: "string \<Rightarrow> string \<Rightarrow> bool" where "bounded_in q s = bounded_from q s 0"

section \<open>The claims served\<close>

text \<open>Why a claim is left out, in the order of the code's checks; \<open>None\<close> when it is served.\<close>

definition claim_served :: "(string \<Rightarrow> md_token list) \<Rightarrow> string list \<Rightarrow> string \<Rightarrow> nat \<Rightarrow> quick_claim \<Rightarrow> quick_claim option" where
  "claim_served md answer_blocks raw_answer source_count claim =
     (let quote = join '' '' (displayed_text_blocks md (qk_quote claim)) in
      if quote = [] \<or> length quote > JUDGE_QUICK_MAX_QUOTE_LEN then None
      else if \<not> list_ex (bounded_in quote) answer_blocks then None
      else if \<not> contains quote raw_answer \<or> contains ''<br'' (lower quote) then None
      else if (case qk_source claim of None \<Rightarrow> False | Some n \<Rightarrow> \<not> (1 \<le> n \<and> n \<le> int source_count)) then None
      else if (qk_support claim = UNSOURCED) \<noteq> (qk_source claim = None) then None
      else Some \<lparr>qk_quote = quote, qk_source = qk_source claim, qk_support = qk_support claim\<rparr>)"

definition served_claims ::
  "(string \<Rightarrow> md_token list) \<Rightarrow> quick_claim list \<Rightarrow> string \<Rightarrow> nat \<Rightarrow> quick_claim list \<times> nat" where
  "served_claims md claims answer_text source_count =
     (let answer_blocks = displayed_text_blocks md answer_text;
          raw_answer = raw_reading answer_text;
          shown = List.map_filter (claim_served md answer_blocks raw_answer source_count) (take JUDGE_QUICK_MAX_CLAIMS claims)
      in (shown, length claims - length shown))"

section \<open>The verdict served\<close>

record served_verdict =
  sd_level :: verdict_level
  sd_scores :: "(int \<times> int \<times> risk) option"
  sd_reasons :: "string list option"
  sd_sources_checked :: "(string \<times> string) list"
  sd_judge_status :: "judge_outcome option"
  sd_claims :: "quick_claim list"
  sd_claims_dropped :: nat

fun judge_claims :: "finding \<Rightarrow> quick_claim list" where
  "judge_claims (Quick_finding v) = qv_claims v"
| "judge_claims _ = []"

fun finding_scores :: "finding \<Rightarrow> (int \<times> int \<times> risk) option" where
  "finding_scores No_finding = None"
| "finding_scores (Panel_finding v) = Some (jv_faithfulness v, jv_grounding v, jv_risk v)"
| "finding_scores (Quick_finding v) = Some (qv_faithfulness v, qv_grounding v, qv_risk v)"

definition build_quick_verdict ::
  "ip_facts \<Rightarrow> (string \<Rightarrow> md_token list) \<Rightarrow> finding \<Rightarrow> judge_outcome option \<Rightarrow> initial_answer list \<Rightarrow> served_verdict" where
  "build_quick_verdict ip md v outcome answers =
     (let level = verdict_level_of v in
      case finding_scores v of
        None \<Rightarrow> \<lparr>sd_level = level, sd_scores = None, sd_reasons = None, sd_sources_checked = [], sd_judge_status = outcome,
                 sd_claims = [], sd_claims_dropped = 0\<rparr>
      | Some (f, g, r) \<Rightarrow>
          (let sources = judge_evidence_sources ip answers;
               level = (if level = WELL_SUPPORTED \<and> sources = [] then PARTLY_SUPPORTED else level);
               (claims, dropped) =
                 (case v of
                    Quick_finding q \<Rightarrow>
                      served_claims md (qv_claims q) (case answers of [] \<Rightarrow> [] | a # _ \<Rightarrow> ia_answer_text a) (length sources)
                  | _ \<Rightarrow> ([], 0));
               level = (if level = WELL_SUPPORTED
                           \<and> list_ex (\<lambda>c. qk_support c = CONTRADICTED) (take JUDGE_QUICK_MAX_CLAIMS (judge_claims v))
                        then PARTLY_SUPPORTED else level)
           in \<lparr>sd_level = level, sd_scores = Some (f, g, r), sd_reasons = Some (reasons_for f g r (length sources)),
               sd_sources_checked = sources, sd_judge_status = outcome, sd_claims = claims, sd_claims_dropped = dropped\<rparr>))"

section \<open>Laws\<close>

definition stands_in :: "string \<Rightarrow> string \<Rightarrow> bool" where
  "stands_in q s = (\<exists>u v. s = u @ q @ v \<and> (u = [] \<or> \<not> is_alnum (last u)) \<and> (v = [] \<or> \<not> is_alnum (hd v)))"

lemma edges_at: "s = u @ q @ v \<Longrightarrow> edges_ok q s (length u) \<longleftrightarrow> (u = [] \<or> \<not> is_alnum (last u)) \<and> (v = [] \<or> \<not> is_alnum (hd v))"
  by (cases v) (auto simp: edges_ok_def nth_append last_conv_nth)

lemma find_at_occurs: "i \<le> length s \<Longrightarrow> starts_with q (drop i s) \<Longrightarrow> start \<le> i \<Longrightarrow> \<exists>j. find_at q s start = Some j \<and> j \<le> i"
proof -
  assume i: "i \<le> length s" "starts_with q (drop i s)" "start \<le> i"
  have "\<exists>j. find_sub q s' = Some j \<and> j \<le> k" if "k \<le> length s'" "starts_with q (drop k s')" for s' k
    using that
  proof (induction s' arbitrary: k)
    case (Cons c t)
    show ?case
    proof (cases "starts_with q (c # t)")
      case False
      then obtain m where "k = Suc m" using Cons.prems by (cases k) auto
      then show ?thesis using Cons.IH[of m] Cons.prems False by auto
    qed simp
  qed (simp add: starts_with_def)
  from this[of "i - start" "drop start s"] i diff_le_mono[OF i(1), of start] obtain j where "find_sub q (drop start s) = Some j" "j \<le> i - start" by auto
  then show ?thesis using i by (auto simp: find_at_def)
qed

lemma bounded_from_iff:
  "bounded_from q s start \<longleftrightarrow> (\<exists>i. start \<le> i \<and> i \<le> length s \<and> starts_with q (drop i s) \<and> edges_ok q s i)"
proof (induction q s start rule: bounded_from.induct)
  case (1 q s start)
  show ?case
  proof (cases "find_at q s start")
    case None
    then show ?thesis using find_at_occurs[of _ s q start] by (subst bounded_from.simps) auto
  next
    case (Some j)
    note j = find_at_Some[OF Some]
    show ?thesis
    proof (cases "edges_ok q s j")
      case True
      then show ?thesis using Some j by (subst bounded_from.simps) (auto simp: starts_with_def intro!: exI[of _ j])
    next
      case False
      have "start \<le> i \<longleftrightarrow> Suc j \<le> i" if "i \<le> length s" "starts_with q (drop i s)" "edges_ok q s i" for i
        using find_at_occurs[OF that(1,2), of start] Some j False that(3) by (cases "i = j") auto
      then show ?thesis using 1[OF Some False] Some False by (subst bounded_from.simps) auto
    qed
  qed
qed

lemma bounded_in_stands: "bounded_in q s \<longleftrightarrow> stands_in q s"
proof
  assume "bounded_in q s"
  then obtain i where i: "i \<le> length s" "starts_with q (drop i s)" "edges_ok q s i"
    by (auto simp: bounded_in_def bounded_from_iff)
  then obtain v where "drop i s = q @ v" by (auto simp: starts_with_iff)
  then have s: "s = take i s @ q @ v" by (metis append_take_drop_id)
  moreover have "length (take i s) = i" using i(1) by simp
  ultimately show "stands_in q s" using edges_at[OF s] i(3) unfolding stands_in_def by metis
next
  assume "stands_in q s"
  then obtain u v where s: "s = u @ q @ v" and e: "edges_ok q s (length u)" using edges_at unfolding stands_in_def by blast
  then show "bounded_in q s" unfolding bounded_in_def bounded_from_iff
    by (intro exI[of _ "length u"]) (simp add: starts_with_iff)
qed

lemma claim_served_iff:
  "claim_served md blocks raw n claim = Some c \<longleftrightarrow>
   (c = \<lparr>qk_quote = join '' '' (displayed_text_blocks md (qk_quote claim)), qk_source = qk_source claim, qk_support = qk_support claim\<rparr>
    \<and> qk_quote c \<noteq> [] \<and> length (qk_quote c) \<le> JUDGE_QUICK_MAX_QUOTE_LEN \<and> (\<exists>b \<in> set blocks. bounded_in (qk_quote c) b)
    \<and> contains (qk_quote c) raw \<and> \<not> contains ''<br'' (lower (qk_quote c))
    \<and> (\<forall>k. qk_source c = Some k \<longrightarrow> 1 \<le> k \<and> k \<le> int n) \<and> (qk_support c = UNSOURCED \<longleftrightarrow> qk_source c = None))"
  by (auto simp: claim_served_def Let_def list_ex_iff split: option.splits if_splits)

definition displayed :: "(string \<Rightarrow> md_token list) \<Rightarrow> string \<Rightarrow> string" where
  "displayed md s = join '' '' (displayed_text_blocks md s)"

text \<open>What makes a text the answer's own words, and what makes a claim one that may be shown.\<close>

definition own_words :: "(string \<Rightarrow> md_token list) \<Rightarrow> string \<Rightarrow> string \<Rightarrow> bool" where
  "own_words md answer_text q \<longleftrightarrow>
     (\<exists>b \<in> set (displayed_text_blocks md answer_text). stands_in q b) \<and> contains q (raw_reading answer_text)"

definition may_be_shown :: "(string \<Rightarrow> md_token list) \<Rightarrow> string \<Rightarrow> nat \<Rightarrow> quick_claim \<Rightarrow> bool" where
  "may_be_shown md answer_text n c \<longleftrightarrow>
     own_words md answer_text (qk_quote c) \<and> 1 \<le> length (qk_quote c) \<and> length (qk_quote c) \<le> 300
     \<and> \<not> contains ''<br'' (lower (qk_quote c))
     \<and> (if qk_support c = UNSOURCED then qk_source c = None else \<exists>k \<in> {1..int n}. qk_source c = Some k)"

lemma claim_served_is:
  "claim_served md (displayed_text_blocks md answer_text) (raw_reading answer_text) n claim =
     (let c = claim\<lparr>qk_quote := displayed md (qk_quote claim)\<rparr> in if may_be_shown md answer_text n c then Some c else None)"
proof -
  let ?c = "claim\<lparr>qk_quote := displayed md (qk_quote claim)\<rparr>"
  let ?f = "claim_served md (displayed_text_blocks md answer_text) (raw_reading answer_text) n claim"
  have "?f = Some c \<longleftrightarrow> c = ?c \<and> may_be_shown md answer_text n ?c" for c
    unfolding claim_served_iff may_be_shown_def own_words_def
    by (cases "qk_source claim")
       (auto simp: bounded_in_stands JUDGE_QUICK_MAX_QUOTE_LEN_def displayed_def Suc_le_eq)
  then show ?thesis by (cases ?f) (auto simp: Let_def)
qed

lemma map_filter_if: "List.map_filter (\<lambda>x. if P (f x) then Some (f x) else None) xs = filter P (map f xs)"
  by (induction xs) (simp_all add: List.map_filter_simps)

text \<open>C40. What a quick answer serves of the judge's claims is exactly this, in the judge's order: of the first eight claims, each
  with its quote as the page would display it, those whose quote is the answer's own words (part of one block of the
  answer's displayed text, at word boundaries, and of its raw reading), of 1 to 300 characters and free of a line-break tag, and
  whose source is one the judge was shown, or none for a claim called unsourced. All others are counted as dropped.\<close>

theorem served_claims_are_the_answers_words:
  "let (shown, dropped) = served_claims md claims answer_text n in
   shown = filter (may_be_shown md answer_text n) (map (\<lambda>c. c\<lparr>qk_quote := displayed md (qk_quote c)\<rparr>) (take 8 claims))
   \<and> length shown + dropped = length claims"
proof -
  let ?c = "\<lambda>c. c\<lparr>qk_quote := displayed md (qk_quote c)\<rparr>" and ?ok = "may_be_shown md answer_text n"
  let ?shown = "filter ?ok (map ?c (take 8 claims))"
  have f: "claim_served md (displayed_text_blocks md answer_text) (raw_reading answer_text) n = (\<lambda>c. if ?ok (?c c) then Some (?c c) else None)"
    by (rule ext) (simp only: claim_served_is Let_def)
  have s: "served_claims md claims answer_text n = (?shown, length claims - length ?shown)"
    unfolding served_claims_def Let_def JUDGE_QUICK_MAX_CLAIMS_def f map_filter_if[of ?ok ?c] by (rule refl)
  have "length ?shown \<le> length claims" using length_filter_le[of ?ok "map ?c (take 8 claims)"] by simp
  then show ?thesis unfolding s by simp
qed

definition one_block :: "string \<Rightarrow> md_token list" where
  "one_block s = [\<lparr>mt_type = ''inline'', mt_content = s, mt_children = [\<lparr>mc_type = ''text'', mc_markup = [], mc_content = s\<rparr>]\<rparr>]"

text \<open>A quote that ends a word but does not begin one is dropped.\<close>

lemma served_claims_example:
  "let cl = \<lparr>qk_quote = ''is 4'', qk_source = Some 1, qk_support = SUPPORTED\<rparr> in
   served_claims one_block [cl, cl\<lparr>qk_quote := ''s 4''\<rparr>] ''It is 4.'' 1 = ([cl], 1)"
  by code_simp

text \<open>A quick answer reads well supported only if the judge gave a verdict with both scores at least 4 and low risk,
  at least one source was checked, and none of the judge's first eight claims is contradicted, whether that claim is shown or not.\<close>

theorem well_supported_needs_evidence:
  "sd_level (build_quick_verdict ip md v outcome answers) = WELL_SUPPORTED \<longleftrightarrow>
   (\<exists>f g. finding_scores v = Some (f, g, RISK_LOW) \<and> 4 \<le> f \<and> 4 \<le> g)
   \<and> judge_evidence_sources ip answers \<noteq> []
   \<and> CONTRADICTED \<notin> qk_support ` set (take 8 (judge_claims v))"
proof -
  have l: "level_of_scores f g r = WELL_SUPPORTED \<longleftrightarrow> r = RISK_LOW \<and> 4 \<le> f \<and> 4 \<le> g" for f g r
    by (auto simp: level_of_scores_def supports_verification_def WELL_SUPPORTED_MIN_SCORE_def JUDGE_SUPPORT_MIN_GROUNDING_def
        JUDGE_SUPPORT_MIN_FAITHFULNESS_def)
  have d: "CONTRADICTED \<in> qk_support ` X \<longleftrightarrow> (\<exists>c \<in> X. qk_support c = CONTRADICTED)" for X by force
  show ?thesis
    by (cases v) (auto simp: build_quick_verdict_def Let_def l d list_ex_iff JUDGE_QUICK_MAX_CLAIMS_def case_prod_unfold)
qed

end
