(* ===== verification/Spec2Isabelle.thy ===== *)
theory Spec2Isabelle
  imports App_Laws Synthesis_Length Store_Laws Debate_Laws Edge Account_Laws Signin_Laws Judge_Laws Evaluation_Laws Quick_Verdict
begin

text \<open>
  A verification library of quorum-ai, the Python application under \<^verbatim>\<open>src/src/product_app\<close> (paths below are
  relative to it).

  \<^bold>\<open>The program.\<close> A visitor asks one question of a panel of language models. A request passes the edge (body limit,
  cross-site refusal, request id), is authenticated (an anonymous session or a Google account), is priced, has to confirm a
  price above the soft limit and to acknowledge the safety warnings, and is admitted under a rate limit, a capacity of
  sixteen runs, one active run per account, a daily cap per account and a daily ceiling for the whole site. A worker thread
  then collects the answers (a live call, a web search in its place, or a simulation), runs two rounds of debate, writes a
  synthesis under a deadline, and reconciles the charge with the measured cost. The finished run is evaluated: citation
  markers are resolved against the sources of the run, the signals are weighed into a score, and a judge model, shown pages
  fetched under robots.txt, may unlock the score. A quick run asks one model and serves a verdict with the sentences
  the judge singled out.

  \<^bold>\<open>Theories and sources\<close>, in the order they build on each other.
  \<^item> \<^verbatim>\<open>Prelude\<close>, \<^verbatim>\<open>Py_Strings\<close>: Python's dict as an association list in insertion order, \<^verbatim>\<open>str\<close> and regular-expression
    operations, the collections \<open>frame\<close> and \<open>dict_intro\<close>, the contract \<open>one_shot\<close> of a credential redeemed once.
    \<^verbatim>\<open>Domain\<close>: the records components exchange.
  \<^item> \<^verbatim>\<open>Ledger\<close> (\<^verbatim>\<open>feedback_store.py\<close>): the append-only events, both spend meters, charge, reconciliation, void, session
    mints, identifier wipe. \<^verbatim>\<open>Pricing\<close> and \<^verbatim>\<open>Cost_Guard\<close> (\<^verbatim>\<open>costs.py\<close>, \<^verbatim>\<open>store_reconnect.py\<close>): estimate, its partitions
    and worst-case bound, apportioning of cents, the in-process ring, confirmation tokens, both rails of a charge.
  \<^item> \<^verbatim>\<open>Run_State\<close>, \<^verbatim>\<open>Pipeline\<close> (\<^verbatim>\<open>query_run_orchestration.py\<close>): the repository and the worker. \<^verbatim>\<open>Rate_Limit\<close>,
    \<^verbatim>\<open>Admission\<close>, \<^verbatim>\<open>App_Laws\<close> (\<^verbatim>\<open>query_runs.py\<close>): the limiters, the handlers over the whole application state and
    what they guarantee. \<^verbatim>\<open>Model_Slots\<close> (\<^verbatim>\<open>model_slots.py\<close>, \<^verbatim>\<open>catalog_fetcher.py\<close>), \<^verbatim>\<open>Safety\<close> (\<^verbatim>\<open>safety.py\<close>),
    \<^verbatim>\<open>Synthesis_Length\<close> (\<^verbatim>\<open>synthesis_length.py\<close>).
  \<^item> \<^verbatim>\<open>Session_Store\<close>, \<^verbatim>\<open>Store_Laws\<close> (\<^verbatim>\<open>session_store.py\<close>), \<^verbatim>\<open>Sessions\<close>, \<^verbatim>\<open>Session_Laws\<close>, \<^verbatim>\<open>Auth_Requests\<close>,
    \<^verbatim>\<open>Auth_Laws\<close> (\<^verbatim>\<open>auth.py\<close>), \<^verbatim>\<open>Accounts\<close>, \<^verbatim>\<open>Account_Laws\<close> (\<^verbatim>\<open>account_history.py\<close>, \<^verbatim>\<open>run_history_store.py\<close>,
    \<^verbatim>\<open>account_deletion.py\<close>, \<^verbatim>\<open>end_sessions.py\<close>), \<^verbatim>\<open>Google_Signin\<close>, \<^verbatim>\<open>Signin_Laws\<close> (\<^verbatim>\<open>google_signin.py\<close>), \<^verbatim>\<open>Edge\<close>
    (\<^verbatim>\<open>request_limits.py\<close>, \<^verbatim>\<open>fetch_site.py\<close>, \<^verbatim>\<open>request_id.py\<close>).
  \<^item> \<^verbatim>\<open>Untrusted_Text\<close> (\<^verbatim>\<open>visible_text.py\<close>, \<^verbatim>\<open>untrusted_text.py\<close>), \<^verbatim>\<open>Consensus\<close> (\<^verbatim>\<open>synthesis_consensus.py\<close>),
    \<^verbatim>\<open>Debate\<close>, \<^verbatim>\<open>Debate_Laws\<close> (\<^verbatim>\<open>debate.py\<close>).
  \<^item> \<^verbatim>\<open>Urls\<close> (\<^verbatim>\<open>credentialed_url.py\<close>), \<^verbatim>\<open>Sources\<close>, \<^verbatim>\<open>Completion_Stream\<close>, \<^verbatim>\<open>Providers\<close>, \<^verbatim>\<open>Provider_Laws\<close>
    (\<^verbatim>\<open>providers.py\<close>): reading replies, the streamed body, one paid call and a slot's answer.
  \<^item> \<^verbatim>\<open>Robots\<close>, \<^verbatim>\<open>Page_Text\<close>, \<^verbatim>\<open>Source_Fetch\<close> (\<^verbatim>\<open>source_fetcher.py\<close>, the parent's side of \<^verbatim>\<open>pdf_text.py\<close>),
    \<^verbatim>\<open>Citations\<close>, \<^verbatim>\<open>Judge_Evidence\<close>, \<^verbatim>\<open>Judge_Laws\<close>, \<^verbatim>\<open>Evaluation\<close>, \<^verbatim>\<open>Evaluation_Laws\<close> (\<^verbatim>\<open>evaluation.py\<close>),
    \<^verbatim>\<open>Quick_Verdict\<close> (\<^verbatim>\<open>quick_verdict.py\<close>).

  \<^bold>\<open>How the code is rendered.\<close> A class with a lock is a record and each locked method one function of it; a method that
  reads outside its lock is split where other requests can come in (\<open>restore_read\<close> and \<open>restore_commit\<close> of
  \<^verbatim>\<open>Sessions\<close>; the ticks of \<^verbatim>\<open>Pipeline\<close>, before every repository call of the worker, carry the clock and what the other
  threads did). A raise is \<open>Inl\<close> of an error type, an early return a value. Clocks, fresh identifiers, whether a statement
  of SQLite succeeds, what a server, the resolver, the markdown, HTML or JSON parser or a Unicode table answers are
  arguments (records such as \<open>moment\<close>, \<open>look_env\<close>, \<open>debate_env\<close>, \<open>exchange\<close>, \<open>unicode_db\<close>), often functions of all
  that happened before, so a theorem holds for every answer its hypotheses allow. Settings are records too.

  \<^bold>\<open>What is proved.\<close>
  \<^item> Spend. The day of an account is within its cap, and the day of the site within its ceiling plus one estimate, each plus
    the overrun: what measured costs exceeded their own estimates by, since the code reconciles upward as well as downward
    and tests its limits on estimates. A confirmation token is accepted once. The lines of an estimate, by model and by
    stage, each sum to its total, and the total is within the bound the guard compares, when the configured typical sizes are
    within what the bound assumes. That bound does not bound a run's measured cost: the program's own comments say that
    real prompts can exceed its allowance.
  \<^item> Runs. One active run per account; a terminal status is final; the worker always finishes, and a completed run has its
    answers; permits are conserved; a refused create leaves nothing, an accepted one was admitted.
  \<^item> Sessions and accounts. Revoked sessions never come back; a request is authenticated only by a live session (both its
    limits) or the legacy header; an issued session comes back; new sessions are capped per key, plus one for each mint whose
    row was lost; a deleted account is gone, from the run history only if that best-effort write succeeded; the
    operator's command ends sessions; a sign-in is the identified account's.
  \<^item> Debate. Paid calls follow a cancel check; a peer stance is a strict majority; outputs are well formed.
  \<^item> Providers. Reading in chunks is invisible; a failure is billed honestly; a streamed answer is whole.
  \<^item> Evaluation. Connections only where robots.txt, read earlier in the same run, allows; the robots.txt matcher equals the
    wildcard reading; page text, passages, source lines and pages are bounded and are the page's; citations read back;
    a confidence needs a judge; the judge moves no number; the composite is the weighted sum given in closed form; the claims
    a quick answer serves are exactly the judge's that quote the answer's own words.

  \<^bold>\<open>Interfaces.\<close> The locales state what a client relies on and are interpreted on the model's own definitions: \<open>one_shot\<close>
  (confirmation tokens, pending sign-ins), \<open>bucket_limiter\<close> (both limiters), \<open>cent_split\<close> (apportioning of cents),
  \<open>lawful_mutation\<close> (seven kinds of repository write) and \<open>stable_under\<close> (what other threads cannot break for the worker).

  \<^bold>\<open>Termination and bounds.\<close> All loops are structural or have a proved measure, except reading a request body, which may wait for
  ever and is a partial function whose \<open>None\<close> is that wait (\<^verbatim>\<open>Edge\<close>); the property there shows the read ends when the
  client's messages do. No definition takes fuel. Numbers of calls, pages, lines and characters are the constants of the
  source. Words are used for network addresses; Python's integers are \<open>int\<close> or \<open>nat\<close>.

  \<^bold>\<open>Limits of the model.\<close> Texts are Latin-1 (with four named characters beyond), except in \<^verbatim>\<open>Untrusted_Text\<close>, where they are
  code points; \<^verbatim>\<open>Decimal\<close> and \<^verbatim>\<open>float\<close> are exact rationals, so a rounded score can differ from the program's at a tie. The
  fence is shown unforgeable for the look-alikes the program's table names, not for every confusable letter. Log
  lines and telemetry are left out. Not modelled: the prompts and templates of \<^verbatim>\<open>synthesis.py\<close> (the worker takes its answer
  as an argument), the wiring and pages of \<^verbatim>\<open>main.py\<close>, \<^verbatim>\<open>config.py\<close>, \<^verbatim>\<open>invite_links.py\<close> and \<^verbatim>\<open>session_exemptions.py\<close> (the key
  and cap they give a visit are arguments), \<^verbatim>\<open>logging_config.py\<close>, \<^verbatim>\<open>telemetry_sink.py\<close>, \<^verbatim>\<open>readiness.py\<close>, \<^verbatim>\<open>feedback_audit.py\<close>,
  the child process of \<^verbatim>\<open>pdf_text.py\<close>, opening and migrating SQLite files, and everything outside \<^verbatim>\<open>product_app\<close>.

  The properties stand in the theories of their components, numbered C1 to C40. Beside them the theories hold
  plain theorems of the same components, among them those that show a defect of the code.
\<close>

end
